(* ===== verification/Coral_Prelude.thy ===== *)
theory Coral_Prelude
  imports Main "HOL-Library.Word"
begin

text \<open>
  What the components of the model share: Rust's fixed-width integers as words, the outcome of a
  fallible operation (value, error or panic), byte strings and slices, the little-endian codecs of
  \<open>to_le_bytes\<close> and \<open>from_le_bytes\<close>, and Rust characters as Unicode scalar values.
\<close>

unbundle bit_operations_syntax

subsection \<open>Integers\<close>

type_synonym u8 = "8 word"
type_synonym u16 = "16 word"
type_synonym u32 = "32 word"
type_synonym u64 = "64 word"
type_synonym bytes = "u8 list"

named_theorems outcome_simps \<open>unfolding of outcome-valued operations\<close>
named_theorems codec_simps \<open>lengths and round trips of the byte codecs\<close>

subsection \<open>Outcomes\<close>

text \<open>
  A Rust function that returns \<open>Result\<close> yields a value or an error; any function may also
  panic (slice out of range, capacity overflow, failed assertion), which is neither.
\<close>

datatype ('e, 'a) outcome = Ok 'a | Err 'e | Panic

fun obind :: "('e, 'a) outcome \<Rightarrow> ('a \<Rightarrow> ('e, 'b) outcome) \<Rightarrow> ('e, 'b) outcome" where
  "obind (Ok x) f = f x"
| "obind (Err e) f = Err e"
| "obind Panic f = Panic"

fun omap :: "('a \<Rightarrow> 'b) \<Rightarrow> ('e, 'a) outcome \<Rightarrow> ('e, 'b) outcome" where
  "omap f (Ok x) = Ok (f x)"
| "omap f (Err e) = Err e"
| "omap f Panic = Panic"

lemma obind_Ok_iff [outcome_simps]: "obind m f = Ok y \<longleftrightarrow> (\<exists>x. m = Ok x \<and> f x = Ok y)"
  by (cases m) auto

lemma omap_Ok_iff [outcome_simps]: "omap f m = Ok y \<longleftrightarrow> (\<exists>x. m = Ok x \<and> y = f x)"
  by (cases m) auto

lemma obind_cong [fundef_cong]:
  "m = m' \<Longrightarrow> (\<And>x. m' = Ok x \<Longrightarrow> f x = f' x) \<Longrightarrow> obind m f = obind m' f'"
  by (cases m') auto

subsection \<open>Bytes\<close>

text \<open>\<open>slice lo hi xs\<close> is \<open>&xs[lo..hi]\<close> for a range that lies inside \<open>xs\<close>.\<close>

definition slice :: "nat \<Rightarrow> nat \<Rightarrow> 'a list \<Rightarrow> 'a list" where
  "slice lo hi xs = take (hi - lo) (drop lo xs)"

lemma length_slice [simp]: "length (slice lo hi xs) = min (hi - lo) (length xs - lo)"
  by (simp add: slice_def)

lemma slice_skip:
  "length xs \<le> lo \<Longrightarrow> slice lo hi (xs @ ys) = slice (lo - length xs) (hi - length xs) ys"
  by (simp add: slice_def)

lemma slice_here: "lo = 0 \<Longrightarrow> length xs = hi \<Longrightarrow> slice lo hi (xs @ ys) = xs"
  by (simp add: slice_def)

lemma slice_all: "lo = 0 \<Longrightarrow> length xs \<le> hi \<Longrightarrow> slice lo hi xs = xs"
  by (simp add: slice_def)

lemma slice_zero [simp]: "slice n n xs = []"
  by (simp add: slice_def)

text \<open>\<open>to_le n w\<close> is the first \<open>n\<close> bytes of \<open>w.to_le_bytes()\<close>.\<close>

definition to_le :: "nat \<Rightarrow> 'a::len word \<Rightarrow> bytes" where
  "to_le n w = map (\<lambda>i. ucast (drop_bit (8 * i) w)) [0..<n]"

fun from_le :: "bytes \<Rightarrow> 'a::len word" where
  "from_le [] = 0"
| "from_le (b # bs) = push_bit 8 (from_le bs) OR ucast b"

lemma length_to_le [simp, codec_simps]: "length (to_le n w) = n"
  by (simp add: to_le_def)

lemma to_le_Suc: "to_le (Suc n) w = ucast w # to_le n (drop_bit 8 w)"
proof -
  have "[0..<Suc n] = 0 # map Suc [0..<n]"
    by (simp only: upt_conv_Cons map_Suc_upt)
  then show ?thesis
    by (simp add: to_le_def comp_def add.commute)
qed

lemma from_le_to_le_bits:
  "bit (from_le (to_le n w) :: 'a::len word) k \<longleftrightarrow> bit w k \<and> k < 8 * n"
  for w :: "'a::len word"
proof (induction n arbitrary: w k)
  case 0
  then show ?case by (simp add: to_le_def)
next
  case (Suc n)
  show ?case
  proof (cases "k < LENGTH('a)")
    case False
    then show ?thesis by (auto dest: bit_imp_le_length)
  next
    case True
    then show ?thesis
      by (auto simp: to_le_Suc Suc.IH bit_simps)
  qed
qed

lemma from_le_to_le: "LENGTH('a) \<le> 8 * n \<Longrightarrow> from_le (to_le n w) = (w :: 'a::len word)"
  by (rule bit_word_eqI) (simp add: from_le_to_le_bits)

lemma from_le_u16 [simp, codec_simps]: "from_le (to_le 2 w) = w" for w :: u16
  by (simp add: from_le_to_le)

lemma from_le_u32 [simp, codec_simps]: "from_le (to_le 4 w) = w" for w :: u32
  by (simp add: from_le_to_le)

lemma from_le_u64 [simp, codec_simps]: "from_le (to_le 8 w) = w" for w :: u64
  by (simp add: from_le_to_le)

lemma to_le_from_le:
  assumes "length bs = n" "8 * n \<le> LENGTH('a)"
  shows "to_le n (from_le bs :: 'a::len word) = bs"
  using assms
proof (induction bs arbitrary: n)
  case Nil
  then show ?case by (simp add: to_le_def)
next
  case (Cons b bs)
  then obtain m where n: "n = Suc m" and m: "length bs = m" "8 * Suc m \<le> LENGTH('a)"
    by auto
  have low: "ucast (from_le (b # bs) :: 'a word) = b"
    using m by (intro bit_word_eqI) (auto simp: bit_simps)
  have high: "to_le m (drop_bit 8 (from_le (b # bs) :: 'a word)) = to_le m (from_le bs :: 'a word)"
    using m
    by (auto simp: to_le_def intro!: bit_word_eqI)
      (auto simp: bit_simps dest: bit_imp_le_length)
  show ?case
    using Cons.IH [OF m(1)] m n low high by (simp add: to_le_Suc)
qed

lemma u8_bit_high [simp]: "8 \<le> n \<Longrightarrow> bit (a :: u8) n \<longleftrightarrow> False"
  by (auto dest: bit_imp_le_length)

lemma u8_eqI:
  fixes a b :: u8
  assumes "bit a 0 = bit b 0" "bit a 1 = bit b 1" "bit a 2 = bit b 2" "bit a 3 = bit b 3"
    "bit a 4 = bit b 4" "bit a 5 = bit b 5" "bit a 6 = bit b 6" "bit a 7 = bit b 7"
  shows "a = b"
proof (rule bit_word_eqI)
  fix n assume "n < LENGTH(8)"
  then have "n = 0 \<or> n = 1 \<or> n = 2 \<or> n = 3 \<or> n = 4 \<or> n = 5 \<or> n = 6 \<or> n = 7"
    by simp arith
  then show "bit a n = bit b n"
    using assms by (elim disjE) (simp_all only:)
qed

subsection \<open>Characters\<close>

text \<open>
  A Rust \<open>char\<close> is a Unicode scalar value, modelled by its number; \<open>ch\<close> is the scalar value of
  an ASCII literal. A Rust \<open>&str\<close> is a list of them wherever the code walks it by characters;
  \<open>len_utf8\<close> is the number of bytes of one character, so byte offsets can be counted.
\<close>

type_synonym rchar = nat
type_synonym rstr = "rchar list"

abbreviation ch :: "char \<Rightarrow> rchar" where
  "ch c \<equiv> of_char c"

definition rs :: "string \<Rightarrow> rstr" where
  "rs s = map of_char s"

text \<open>\<open>bstr s\<close> is the byte string literal \<open>b"..."\<close>, \<open>byt c\<close> the byte literal \<open>b'.'\<close>.\<close>

abbreviation byt :: "char \<Rightarrow> u8" where
  "byt c \<equiv> of_char c"

definition bstr :: "string \<Rightarrow> bytes" where
  "bstr s = map of_char s"

definition len_utf8 :: "rchar \<Rightarrow> nat" where
  "len_utf8 c = (if c < 128 then 1 else if c < 2048 then 2 else if c < 65536 then 3 else 4)"

definition utf8_len :: "rstr \<Rightarrow> nat" where
  "utf8_len s = sum_list (map len_utf8 s)"

lemma utf8_len_simps [simp]:
  "utf8_len [] = 0" "utf8_len (c # s) = len_utf8 c + utf8_len s"
  "utf8_len (s @ t) = utf8_len s + utf8_len t"
  by (simp_all add: utf8_len_def)

lemma len_utf8_pos [simp]: "0 < len_utf8 c"
  by (simp add: len_utf8_def)

lemma len_utf8_ascii [simp]: "c < 128 \<Longrightarrow> len_utf8 c = 1"
  by (simp add: len_utf8_def)

lemma utf8_len_eq_0 [simp]: "utf8_len s = 0 \<longleftrightarrow> s = []"
  by (cases s) auto

definition is_ascii_digit :: "rchar \<Rightarrow> bool" where
  "is_ascii_digit c \<longleftrightarrow> ch (CHR ''0'') \<le> c \<and> c \<le> ch (CHR ''9'')"

definition is_ascii_alpha :: "rchar \<Rightarrow> bool" where
  "is_ascii_alpha c \<longleftrightarrow> (ch (CHR ''a'') \<le> c \<and> c \<le> ch (CHR ''z'')) \<or>
     (ch (CHR ''A'') \<le> c \<and> c \<le> ch (CHR ''Z''))"

definition is_ascii_alphanumeric :: "rchar \<Rightarrow> bool" where
  "is_ascii_alphanumeric c \<longleftrightarrow> is_ascii_alpha c \<or> is_ascii_digit c"

definition is_ascii_hexdigit :: "rchar \<Rightarrow> bool" where
  "is_ascii_hexdigit c \<longleftrightarrow> is_ascii_digit c \<or> (ch (CHR ''a'') \<le> c \<and> c \<le> ch (CHR ''f'')) \<or>
     (ch (CHR ''A'') \<le> c \<and> c \<le> ch (CHR ''F''))"

text \<open>\<open>char::is_whitespace\<close>, the Unicode property White\_Space, and \<open>str::trim\<close>.\<close>

definition is_whitespace :: "rchar \<Rightarrow> bool" where
  "is_whitespace c \<longleftrightarrow> (9 \<le> c \<and> c \<le> 13) \<or> c = 0x20 \<or> c = 0x85 \<or> c = 0xA0 \<or> c = 0x1680 \<or>
     (0x2000 \<le> c \<and> c \<le> 0x200A) \<or> c = 0x2028 \<or> c = 0x2029 \<or> c = 0x202F \<or> c = 0x205F \<or> c = 0x3000"

definition str_trim :: "rstr \<Rightarrow> rstr" where
  "str_trim s = rev (dropWhile is_whitespace (rev (dropWhile is_whitespace s)))"

subsection \<open>Association lists as hash maps\<close>

text \<open>
  A \<open>HashMap\<close> of the code is a map \<open>'k \<rightharpoonup> 'v\<close> where the code only looks keys up and
  stores them; where it iterates, the component fixes the order it needs.
\<close>

lemma map_upd_dom [simp]: "m k = Some v \<Longrightarrow> insert k (dom m) = dom m"
  by (auto simp: dom_def)

lemma Some_in_ran: "m k = Some v \<Longrightarrow> v \<in> ran m"
  by (auto simp: ran_def)

end
