(* ===== verification/Coral_Map.thy ===== *)
theory Coral_Map
  imports Coral_Prelude
begin

text \<open>
  Rust's \<open>HashMap\<close> as the components use it, and the contract they rely on. The map is the list of
  its entries in some order, one for each key, so that it stays executable; the code's loops over a
  map are loops over that list and nothing proved about them depends on the order. The contract is
  the locale \<open>table\<close>; \<open>hm\<close> interprets it on the list, other components on tables of their own.
\<close>

subsection \<open>The contract\<close>

locale table =
  fixes get :: "'k \<Rightarrow> 'm \<Rightarrow> 'v option" and put :: "'k \<Rightarrow> 'v \<Rightarrow> 'm \<Rightarrow> 'm" and inv :: "'m \<Rightarrow> bool"
  assumes get_put: "inv m \<Longrightarrow> get k (put j v m) = (if k = j then Some v else get k m)"
    and inv_put: "inv m \<Longrightarrow> inv (put j v m)"
begin

lemma inv_puts: "inv m \<Longrightarrow> inv (fold (\<lambda>(k, v). put k v) kvs m)"
  by (induction kvs arbitrary: m) (auto simp: inv_put)

lemma get_puts:
  "inv m \<Longrightarrow> get k (fold (\<lambda>(k, v). put k v) kvs m) =
     (case map_of (rev kvs) k of Some v \<Rightarrow> Some v | None \<Rightarrow> get k m)"
  by (induction kvs arbitrary: m) (auto simp: inv_put get_put map_add_def split: option.splits)

lemma get_puts_distinct:
  assumes "inv m" "distinct (map fst kvs)" "(k, v) \<in> set kvs"
  shows "get k (fold (\<lambda>(k, v). put k v) kvs m) = Some v"
proof -
  have "map_of (rev kvs) k = Some v"
    using assms(2,3) by (intro map_of_is_SomeI) (simp_all add: rev_map [symmetric])
  then show ?thesis
    using assms(1) by (simp add: get_puts)
qed

lemma put_shadow: "inv m \<Longrightarrow> get k (put j v (put j w m)) = get k (put j v m)"
  by (simp add: get_put inv_put)

end

locale table_remove = table get put inv
  for get :: "'k \<Rightarrow> 'm \<Rightarrow> 'v option" and put and inv +
  fixes remove :: "'k \<Rightarrow> 'm \<Rightarrow> 'm"
  assumes get_remove: "inv m \<Longrightarrow> get k (remove j m) = (if k = j then None else get k m)"
    and inv_remove: "inv m \<Longrightarrow> inv (remove j m)"
begin

lemma remove_put: "inv m \<Longrightarrow> get j m = None \<Longrightarrow> get k (remove j (put j v m)) = get k m"
  by (simp add: get_remove inv_put get_put)

end

subsection \<open>\<open>HashMap\<close>\<close>

type_synonym ('k, 'v) hmap = "('k \<times> 'v) list"

definition hm_get :: "'k \<Rightarrow> ('k, 'v) hmap \<Rightarrow> 'v option" where
  "hm_get k m = map_of m k"

fun hm_insert :: "'k \<Rightarrow> 'v \<Rightarrow> ('k, 'v) hmap \<Rightarrow> ('k, 'v) hmap" where
  "hm_insert k v [] = [(k, v)]"
| "hm_insert k v ((j, w) # m) = (if j = k then (k, v) # m else (j, w) # hm_insert k v m)"

definition hm_remove :: "'k \<Rightarrow> ('k, 'v) hmap \<Rightarrow> ('k, 'v) hmap" where
  "hm_remove k m = filter (\<lambda>(j, w). j \<noteq> k) m"

definition hm_contains :: "'k \<Rightarrow> ('k, 'v) hmap \<Rightarrow> bool" where
  "hm_contains k m \<longleftrightarrow> hm_get k m \<noteq> None"

definition hm_keys_ok :: "('k, 'v) hmap \<Rightarrow> bool" where
  "hm_keys_ok m \<longleftrightarrow> distinct (map fst m)"

lemma hm_get_Nil [simp]: "hm_get k [] = None"
  by (simp add: hm_get_def)

lemma hm_get_Cons [simp]: "hm_get k ((j, v) # m) = (if j = k then Some v else hm_get k m)"
  by (auto simp: hm_get_def)

lemma hm_get_insert [simp]: "hm_get k (hm_insert j v m) = (if k = j then Some v else hm_get k m)"
  by (induction j v m rule: hm_insert.induct) (auto simp: hm_get_def)

lemma hm_get_remove [simp]: "hm_get k (hm_remove j m) = (if k = j then None else hm_get k m)"
  unfolding hm_remove_def by (induction m) auto

lemma map_fst_hm_insert:
  "map fst (hm_insert k v m) = (if k \<in> fst ` set m then map fst m else map fst m @ [k])"
  by (induction k v m rule: hm_insert.induct) auto

lemma fst_set_hm_insert: "fst ` set (hm_insert k v m) = insert k (fst ` set m)"
  using arg_cong [OF map_fst_hm_insert [of k v m], of set] by (auto split: if_splits)

lemma hm_keys_ok_Nil [simp]: "hm_keys_ok []"
  by (simp add: hm_keys_ok_def)

lemma hm_keys_ok_insert [simp]: "hm_keys_ok m \<Longrightarrow> hm_keys_ok (hm_insert k v m)"
  by (simp add: hm_keys_ok_def map_fst_hm_insert)

lemma hm_keys_ok_remove [simp]: "hm_keys_ok m \<Longrightarrow> hm_keys_ok (hm_remove k m)"
  by (simp add: hm_keys_ok_def hm_remove_def distinct_map_filter)

lemma hm_get_Some: "hm_keys_ok m \<Longrightarrow> hm_get k m = Some v \<longleftrightarrow> (k, v) \<in> set m"
  by (simp add: hm_keys_ok_def hm_get_def)

lemma hm_get_None: "hm_get k m = None \<longleftrightarrow> k \<notin> fst ` set m"
  by (simp add: hm_get_def map_of_eq_None_iff)

lemma length_hm_insert: "length (hm_insert k v m) = (if hm_get k m = None then Suc (length m) else length m)"
  by (induction k v m rule: hm_insert.induct) auto

lemma set_hm_insert: "hm_keys_ok m \<Longrightarrow> set (hm_insert k v m) = insert (k, v) {(j, w) \<in> set m. j \<noteq> k}"
  by (induction k v m rule: hm_insert.induct) (auto simp: hm_keys_ok_def rev_image_eqI)

interpretation hm: table_remove hm_get hm_insert hm_keys_ok hm_remove
  by unfold_locales auto

end
