(* ===== verification/Coral_Span.thy ===== *)
theory Coral_Span
  imports Coral_Prelude
begin

text \<open>
  Source spans and line numbers (\<open>src/span.rs\<close>), diagnostics and their rendering
  (\<open>src/diagnostics.rs\<close>). Offsets are byte offsets into the UTF-8 source, a \<open>usize\<close> modelled as a
  natural number; the source here is its bytes.
\<close>

subsection \<open>Spans\<close>

record span =
  sp_start :: nat
  sp_end :: nat
  sp_file_id :: u32

definition span_new :: "nat \<Rightarrow> nat \<Rightarrow> span" where
  "span_new s e = \<lparr> sp_start = s, sp_end = e, sp_file_id = 0 \<rparr>"

definition span_with_file :: "nat \<Rightarrow> nat \<Rightarrow> u32 \<Rightarrow> span" where
  "span_with_file s e file_id = \<lparr> sp_start = s, sp_end = e, sp_file_id = file_id \<rparr>"

definition span_join :: "span \<Rightarrow> span \<Rightarrow> span" where
  "span_join a b = \<lparr> sp_start = min (sp_start a) (sp_start b), sp_end = max (sp_end a) (sp_end b),
     sp_file_id = sp_file_id a \<rparr>"

definition sat_add :: "nat \<Rightarrow> nat \<Rightarrow> nat" where
  "sat_add a b = min (a + b) (2 ^ 64 - 1)"

definition span_shift :: "nat \<Rightarrow> span \<Rightarrow> span" where
  "span_shift offset s = \<lparr> sp_start = sat_add (sp_start s) offset, sp_end = sat_add (sp_end s) offset,
     sp_file_id = sp_file_id s \<rparr>"

lemma span_sel [simp]: "sp_start (span_new s e) = s" "sp_end (span_new s e) = e"
  by (simp_all add: span_new_def)

subsection \<open>Lines\<close>

text \<open>\<open>LineIndex::new\<close>: offset 0 and the offset after every newline byte.\<close>

fun line_starts_from :: "nat \<Rightarrow> bytes \<Rightarrow> nat list" where
  "line_starts_from i [] = []"
| "line_starts_from i (b # bs) =
     (if b = byt (CHR 0x0A) then Suc i # line_starts_from (Suc i) bs else line_starts_from (Suc i) bs)"

definition line_index_new :: "bytes \<Rightarrow> nat list" where
  "line_index_new source = 0 # line_starts_from 0 source"

text \<open>
  \<open>binary_search\<close> on a sorted vector without repetitions: the position of the value, or else the
  position at which it would be inserted, the number of smaller values.
\<close>

definition binary_search :: "nat list \<Rightarrow> nat \<Rightarrow> nat + nat" where
  "binary_search xs x = (let n = length (filter (\<lambda>y. y < x) xs) in
     if x \<in> set xs then Inr n else Inl n)"

definition line_col :: "nat list \<Rightarrow> nat \<Rightarrow> nat \<times> nat" where
  "line_col line_starts offset =
     (let line_idx = (case binary_search line_starts offset of Inr exact \<Rightarrow> exact | Inl ins \<Rightarrow> ins - 1);
          col = offset - line_starts ! line_idx
      in (line_idx + 1, col + 1))"

text \<open>Decimal printing of a natural number.\<close>

fun show_nat :: "nat \<Rightarrow> string" where
  "show_nat n = (if n < 10 then [char_of (48 + n)] else show_nat (n div 10) @ [char_of (48 + n mod 10)])"

declare show_nat.simps [simp del]

definition fmt_span :: "nat list \<Rightarrow> span \<Rightarrow> string" where
  "fmt_span line_starts s =
     (let (sl, sc) = line_col line_starts (sp_start s);
          (el, ec) = line_col line_starts (max (sp_end s - 1) (sp_start s)) in
      if sl = el then
        if sc = ec then show_nat sl @ '':'' @ show_nat sc
        else show_nat sl @ '':'' @ show_nat sc @ ''-'' @ show_nat ec
      else show_nat sl @ '':'' @ show_nat sc @ ''-'' @ show_nat el @ '':'' @ show_nat ec)"

definition trim_end_byte :: "u8 \<Rightarrow> bytes \<Rightarrow> bytes" where
  "trim_end_byte b s = rev (dropWhile (\<lambda>x. x = b) (rev s))"

definition line_text :: "nat list \<Rightarrow> bytes \<Rightarrow> nat \<Rightarrow> bytes" where
  "line_text line_starts source offset =
     (let line = fst (line_col line_starts offset);
          s = line_starts ! (line - 1);
          e = (if line < length line_starts then line_starts ! line else length source)
      in trim_end_byte (byt (CHR 0x0D)) (trim_end_byte (byt (CHR 0x0A)) (slice s e source)))"

subsection \<open>Diagnostics\<close>

datatype severity = SevError | SevWarning | SevInfo | SevHint | SevSuggestion

datatype warning_category = UnusedVariable | DeadCode | ShadowedBinding | TypeMismatchBranch |
  UnreachableCode | Nullability | General

definition warning_category_from_str :: "string \<Rightarrow> warning_category option" where
  "warning_category_from_str s =
     (if s = ''unused_variable'' \<or> s = ''unused'' then Some UnusedVariable
      else if s = ''dead_code'' then Some DeadCode
      else if s = ''shadowed_binding'' \<or> s = ''shadow'' then Some ShadowedBinding
      else if s = ''type_mismatch_branch'' \<or> s = ''branch_types'' then Some TypeMismatchBranch
      else if s = ''unreachable_code'' \<or> s = ''unreachable'' then Some UnreachableCode
      else if s = ''nullability'' \<or> s = ''nullable'' then Some Nullability
      else if s = ''general'' then Some General else None)"

fun warning_category_name :: "warning_category \<Rightarrow> string" where
  "warning_category_name UnusedVariable = ''unused_variable''"
| "warning_category_name DeadCode = ''dead_code''"
| "warning_category_name ShadowedBinding = ''shadowed_binding''"
| "warning_category_name TypeMismatchBranch = ''type_mismatch_branch''"
| "warning_category_name UnreachableCode = ''unreachable_code''"
| "warning_category_name Nullability = ''nullability''"
| "warning_category_name General = ''general''"

lemma warning_category_roundtrip [simp]:
  "warning_category_from_str (warning_category_name c) = Some c"
  by (cases c) (simp_all add: warning_category_from_str_def)

datatype diagnostic = Diagnostic (d_message: rstr) (d_span: span) (d_help: "rstr option")
  (d_severity: severity) (d_category: "warning_category option") (d_related: "diagnostic list")

definition diag_new :: "rstr \<Rightarrow> span \<Rightarrow> diagnostic" where
  "diag_new message s = Diagnostic message s None SevError None []"

definition diag_warning :: "rstr \<Rightarrow> span \<Rightarrow> diagnostic" where
  "diag_warning message s = Diagnostic message s None SevWarning None []"

definition diag_categorized_warning :: "rstr \<Rightarrow> span \<Rightarrow> warning_category \<Rightarrow> diagnostic" where
  "diag_categorized_warning message s c = Diagnostic message s None SevWarning (Some c) []"

definition diag_with_help :: "rstr \<Rightarrow> diagnostic \<Rightarrow> diagnostic" where
  "diag_with_help help d = Diagnostic (d_message d) (d_span d) (Some help) (d_severity d) (d_category d)
     (d_related d)"

definition diag_shift :: "nat \<Rightarrow> diagnostic \<Rightarrow> diagnostic" where
  "diag_shift offset d = Diagnostic (d_message d) (span_shift offset (d_span d)) (d_help d) (d_severity d)
     (d_category d) (d_related d)"

definition diag_type_mismatch :: "rstr \<Rightarrow> rstr \<Rightarrow> span \<Rightarrow> diagnostic" where
  "diag_type_mismatch expected found s = diag_with_help
     (rs ''consider converting the value or checking if the types should match'' @ [10] @
      rs ''expected: '' @ expected @ [10] @ rs ''found:    '' @ found)
     (diag_new (rs ''type mismatch: expected `'' @ expected @ rs ''`, found `'' @ found @ rs ''`'') s)"

fun join_with :: "rstr \<Rightarrow> rstr list \<Rightarrow> rstr" where
  "join_with sep [] = []"
| "join_with sep [x] = x"
| "join_with sep (x # y # xs) = x @ sep @ join_with sep (y # xs)"

definition diag_undefined_variable :: "rstr \<Rightarrow> span \<Rightarrow> rstr list \<Rightarrow> diagnostic" where
  "diag_undefined_variable name s suggestions =
     (let diag = diag_new (rs ''undefined variable `'' @ name @ rs ''`'') s in
      if suggestions = [] then diag
      else diag_with_help (rs ''did you mean: '' @
        join_with (rs '', '') (map (\<lambda>x. rs ''`'' @ x @ rs ''`'') (take 3 suggestions))) diag)"

subsection \<open>Lines, by counting\<close>

text \<open>The reference: lines end after newlines; an offset is in the line of the newlines before it.\<close>

definition newlines :: "bytes \<Rightarrow> nat" where
  "newlines bs = length (filter (\<lambda>b. b = byt (CHR 0x0A)) bs)"

definition last_line_start :: "bytes \<Rightarrow> nat" where
  "last_line_start bs = length bs - length (takeWhile (\<lambda>b. b \<noteq> byt (CHR 0x0A)) (rev bs))"

lemma newlines_simps [simp]:
  "newlines [] = 0" "newlines (b # bs) = (if b = byt (CHR 0x0A) then 1 else 0) + newlines bs"
  "newlines (xs @ ys) = newlines xs + newlines ys"
  by (simp_all add: newlines_def)

lemma line_starts_from_append:
  "line_starts_from i (xs @ ys) = line_starts_from i xs @ line_starts_from (i + length xs) ys"
  by (induction xs arbitrary: i) auto

lemma line_starts_from_bounds: "x \<in> set (line_starts_from i bs) \<Longrightarrow> i < x \<and> x \<le> i + length bs"
  by (induction bs arbitrary: i) (fastforce split: if_splits)+

lemma length_line_starts_from: "length (line_starts_from i bs) = newlines bs"
  by (induction bs arbitrary: i) auto

lemma last_line_starts: "last (0 # line_starts_from 0 bs) = last_line_start bs"
proof (induction bs rule: rev_induct)
  case (snoc b bs)
  then show ?case
    by (auto simp: line_starts_from_append last_line_start_def split: if_splits)
qed (simp add: last_line_start_def)

lemma filter_upto_offset:
  assumes "source = pre @ post" "offset = length pre"
  shows "filter (\<lambda>y. y \<le> offset) (line_index_new source) = line_index_new pre"
proof -
  have "filter (\<lambda>y. y \<le> offset) (line_starts_from 0 pre) = line_starts_from 0 pre"
    using line_starts_from_bounds [of _ 0 pre] assms(2) by (auto intro!: filter_True)
  moreover have "filter (\<lambda>y. y \<le> offset) (line_starts_from (length pre) post) = []"
    using line_starts_from_bounds [of _ "length pre" post] assms(2)
    by (fastforce simp: filter_empty_conv)
  ultimately show ?thesis
    by (simp add: line_index_new_def assms(1) line_starts_from_append)
qed

lemma sorted_line_starts: "sorted_wrt (<) (line_starts_from i bs)"
  by (induction bs arbitrary: i) (auto dest: line_starts_from_bounds)

lemma sorted_filter_le_prefix:
  "sorted_wrt (<) xs \<Longrightarrow> \<exists>ys. xs = filter (\<lambda>y. y \<le> (x :: nat)) xs @ ys"
proof (induction xs)
  case (Cons a xs)
  show ?case
  proof (cases "a \<le> x")
    case False
    with Cons.prems have "filter (\<lambda>y. y \<le> x) (a # xs) = []"
      by (auto simp: filter_empty_conv)
    then show ?thesis by simp
  qed (use Cons in auto)
qed simp

text \<open>
  C37: line and column of an offset are what counting gives: one more than the newlines before it,
  and one more than the bytes since the last of them.
\<close>

theorem line_col_counts:
  "line_col (line_index_new (pre @ post)) (length pre) =
     (newlines pre + 1, length pre - last_line_start pre + 1)"
proof -
  define offset where "offset = length pre"
  define xs where "xs = line_index_new (pre @ post)"
  have le: "filter (\<lambda>y. y \<le> offset) xs = line_index_new pre"
    unfolding xs_def by (rule filter_upto_offset) (simp_all add: offset_def)
  have sorted: "sorted_wrt (<) xs"
    using sorted_line_starts [of 0 "pre @ post"] by (auto simp: xs_def line_index_new_def dest: line_starts_from_bounds)
  obtain ys where ys: "xs = line_index_new pre @ ys"
    using sorted_filter_le_prefix [OF sorted, of offset] le by auto
  have len: "length (line_index_new pre) = newlines pre + 1"
    by (simp add: line_index_new_def length_line_starts_from)
  have idx: "(case binary_search xs offset of Inr exact \<Rightarrow> exact | Inl ins \<Rightarrow> ins - 1) = newlines pre"
  proof (cases "offset \<in> set xs")
    case True
    have "filter (\<lambda>y. y \<le> offset) xs = filter (\<lambda>y. y < offset) xs @ [offset]"
      using sorted True
    proof (induction xs)
      case (Cons a xs)
      show ?case
      proof (cases "a = offset")
        case True
        have "filter (\<lambda>y. y \<le> offset) xs = []" "filter (\<lambda>y. y < offset) xs = []"
          using Cons.prems(1) True by (auto simp: filter_empty_conv)
        with True show ?thesis by simp
      qed (use Cons in \<open>auto simp: le_less\<close>)
    qed simp
    then have "length (filter (\<lambda>y. y \<le> offset) xs) = Suc (length (filter (\<lambda>y. y < offset) xs))"
      by simp
    then show ?thesis
      using True len le by (simp add: binary_search_def Let_def)
  next
    case False
    then have "filter (\<lambda>y. y < offset) xs = filter (\<lambda>y. y \<le> offset) xs"
      by (auto intro!: filter_cong simp: le_less)
    then show ?thesis
      using False len le by (simp add: binary_search_def Let_def)
  qed
  have "xs ! newlines pre = last (line_index_new pre)"
  proof -
    have "last (line_index_new pre) = line_index_new pre ! (length (line_index_new pre) - 1)"
      by (rule last_conv_nth) (simp add: line_index_new_def)
    then show ?thesis
      using len by (simp only: ys nth_append) simp
  qed
  then show ?thesis
    using idx last_line_starts [of pre]
    unfolding line_col_def Let_def offset_def [symmetric] xs_def [symmetric]
    by (simp add: line_index_new_def)
qed

end
