(* ===== verification/Types_Core.thy ===== *)
theory Types_Core
  imports Coral_Map Coral_Span
begin

text \<open>
  The types of the compiler (\<open>src/src/types/core.rs\<close>) and the names, scopes and signatures in which
  the checker keeps them (\<open>src/src/types/env.rs\<close>).
\<close>

subsection \<open>Types\<close>

datatype primitive = PInt | PFloat | PBool | PString | PBytes | PUnit | PNone | PAny | PActor

fun show_primitive :: "primitive \<Rightarrow> rstr" where
  "show_primitive PInt = rs ''Int''"
| "show_primitive PFloat = rs ''Float''"
| "show_primitive PBool = rs ''Bool''"
| "show_primitive PString = rs ''String''"
| "show_primitive PBytes = rs ''Bytes''"
| "show_primitive PUnit = rs ''Unit''"
| "show_primitive PNone = rs ''None''"
| "show_primitive PAny = rs ''Any''"
| "show_primitive PActor = rs ''Actor''"

datatype type_var_id = TypeVarId (tv_id: u32)

definition show_u32 :: "u32 \<Rightarrow> rstr" where
  "show_u32 n = rs (show_nat (unat n))"

definition show_type_var :: "type_var_id \<Rightarrow> rstr" where
  "show_type_var v = rs ''t'' @ show_u32 (tv_id v)"

datatype type_id =
    TPrimitive primitive
  | TList type_id
  | TMap type_id type_id
  | TFunc "type_id list" type_id
  | TPlaceholder u32
  | TTypeVar type_var_id
  | TAdt rstr "type_id list"
  | TStore rstr
  | TError "rstr list"
  | TUnknown

abbreviation TAny :: type_id where "TAny \<equiv> TPrimitive PAny"

text \<open>There are \<open>2 ^ 32\<close> type variables.\<close>

instance type_var_id :: finite
proof
  have "(UNIV :: type_var_id set) = range TypeVarId"
    by (auto simp: image_iff) (metis type_var_id.exhaust)
  then show "finite (UNIV :: type_var_id set)"
    by (metis finite_code finite_imageI)
qed

fun ty_is_numeric :: "type_id \<Rightarrow> bool" where
  "ty_is_numeric (TPrimitive p) = (p = PInt \<or> p = PFloat)"
| "ty_is_numeric _ = False"

fun ty_is_var :: "type_id \<Rightarrow> bool" where
  "ty_is_var (TTypeVar _) = True"
| "ty_is_var _ = False"

fun ty_is_concrete :: "type_id \<Rightarrow> bool" where
  "ty_is_concrete (TPrimitive _) = True"
| "ty_is_concrete TUnknown = True"
| "ty_is_concrete (TPlaceholder _) = True"
| "ty_is_concrete (TStore _) = True"
| "ty_is_concrete (TError _) = True"
| "ty_is_concrete (TAdt _ args) = list_all ty_is_concrete args"
| "ty_is_concrete (TTypeVar _) = False"
| "ty_is_concrete (TList elem) = ty_is_concrete elem"
| "ty_is_concrete (TMap k v) = (ty_is_concrete k \<and> ty_is_concrete v)"
| "ty_is_concrete (TFunc params ret) = (list_all ty_is_concrete params \<and> ty_is_concrete ret)"

fun ty_contains_unknown :: "type_id \<Rightarrow> bool" where
  "ty_contains_unknown TUnknown = True"
| "ty_contains_unknown (TList elem) = ty_contains_unknown elem"
| "ty_contains_unknown (TMap k v) = (ty_contains_unknown k \<or> ty_contains_unknown v)"
| "ty_contains_unknown (TFunc params ret) = (list_ex ty_contains_unknown params \<or> ty_contains_unknown ret)"
| "ty_contains_unknown (TAdt _ args) = list_ex ty_contains_unknown args"
| "ty_contains_unknown _ = False"

fun ty_list_element_type :: "type_id \<Rightarrow> type_id option" where
  "ty_list_element_type (TList elem) = Some elem"
| "ty_list_element_type _ = None"

fun ty_map_types :: "type_id \<Rightarrow> (type_id \<times> type_id) option" where
  "ty_map_types (TMap k v) = Some (k, v)"
| "ty_map_types _ = None"

fun ty_is_list :: "type_id \<Rightarrow> bool" where
  "ty_is_list (TList _) = True"
| "ty_is_list _ = False"

fun ty_is_map :: "type_id \<Rightarrow> bool" where
  "ty_is_map (TMap _ _) = True"
| "ty_is_map _ = False"

definition ty_is_collection :: "type_id \<Rightarrow> bool" where
  "ty_is_collection ty \<longleftrightarrow> ty_is_list ty \<or> ty_is_map ty"

fun ty_is_callable :: "type_id \<Rightarrow> bool" where
  "ty_is_callable (TFunc _ _) = True"
| "ty_is_callable _ = False"

fun ty_return_type :: "type_id \<Rightarrow> type_id option" where
  "ty_return_type (TFunc _ ret) = Some ret"
| "ty_return_type _ = None"

fun ty_param_types :: "type_id \<Rightarrow> type_id list option" where
  "ty_param_types (TFunc params _) = Some params"
| "ty_param_types _ = None"

fun format_type :: "type_id \<Rightarrow> rstr" where
  "format_type (TPrimitive p) = show_primitive p"
| "format_type (TList elem) = rs ''['' @ format_type elem @ rs '']''"
| "format_type (TMap k v) = rs ''{'' @ format_type k @ rs '': '' @ format_type v @ rs ''}''"
| "format_type (TFunc args ret) =
     rs ''fn('' @ join_with (rs '', '') (map format_type args) @ rs '') -> '' @ format_type ret"
| "format_type (TPlaceholder n) = rs ''$'' @ show_u32 n"
| "format_type (TTypeVar v) = show_type_var v"
| "format_type (TAdt name args) = (if args = [] then name
     else name @ rs ''['' @ join_with (rs '', '') (map format_type args) @ rs '']'')"
| "format_type (TStore name) = name"
| "format_type (TError segments) = (if segments = [] then rs ''Error''
     else rs ''Error['' @ join_with (rs ''.'') segments @ rs '']'')"
| "format_type TUnknown = rs ''_''"

text \<open>The type variables that occur in a type; the concrete types are those without any.\<close>

fun ty_vars :: "type_id \<Rightarrow> type_var_id set" where
  "ty_vars (TList elem) = ty_vars elem"
| "ty_vars (TMap k v) = ty_vars k \<union> ty_vars v"
| "ty_vars (TFunc params ret) = \<Union> (ty_vars ` set params) \<union> ty_vars ret"
| "ty_vars (TAdt _ args) = \<Union> (ty_vars ` set args)"
| "ty_vars (TTypeVar v) = {v}"
| "ty_vars _ = {}"

lemma ty_is_concrete_iff: "ty_is_concrete ty \<longleftrightarrow> ty_vars ty = {}"
  by (induction ty rule: ty_is_concrete.induct) (auto simp: list_all_iff)

lemma size_param_less [termination_simp]:
  "x \<in> set args \<Longrightarrow> size x < Suc (size_list size args + n)"
  using size_list_estimation' [of x args "size x" size] by simp

subsection \<open>Bindings and scopes\<close>

record binding =
  bn_ty :: type_id
  bn_mutable :: bool
  bn_initialized :: bool

definition binding_immutable :: "type_id \<Rightarrow> binding" where
  "binding_immutable ty = \<lparr> bn_ty = ty, bn_mutable = False, bn_initialized = True \<rparr>"

definition binding_mutable :: "type_id \<Rightarrow> binding" where
  "binding_mutable ty = \<lparr> bn_ty = ty, bn_mutable = True, bn_initialized = True \<rparr>"

definition binding_uninitialized :: "type_id \<Rightarrow> bool \<Rightarrow> binding" where
  "binding_uninitialized ty m = \<lparr> bn_ty = ty, bn_mutable = m, bn_initialized = False \<rparr>"

type_synonym scope = "(rstr, binding) hmap"

definition scope_insert :: "rstr \<Rightarrow> binding \<Rightarrow> scope \<Rightarrow> scope" where
  "scope_insert name b s = hm_insert name b s"

definition scope_get :: "scope \<Rightarrow> rstr \<Rightarrow> binding option" where
  "scope_get s name = hm_get name s"

definition scope_contains :: "scope \<Rightarrow> rstr \<Rightarrow> bool" where
  "scope_contains s name = hm_contains name s"

record type_env =
  env_scopes :: "scope list"
  env_undefined :: "rstr list"
  env_type_params :: "(rstr, type_id) hmap"
  env_type_param_stack :: "(rstr, type_id) hmap list"
  env_generic_types :: "(rstr, rstr list) hmap"
  env_generic_type_bounds :: "(rstr \<times> rstr, rstr list) hmap"
  env_generic_constructors :: "(rstr, rstr \<times> rstr list \<times> nat) hmap"
  env_const_type_params :: "(rstr \<times> rstr) list"

definition type_env_default :: type_env where
  "type_env_default = \<lparr> env_scopes = [[]], env_undefined = [], env_type_params = [],
     env_type_param_stack = [], env_generic_types = [], env_generic_type_bounds = [],
     env_generic_constructors = [], env_const_type_params = [] \<rparr>"

definition register_generic_type :: "rstr \<Rightarrow> rstr list \<Rightarrow> type_env \<Rightarrow> type_env" where
  "register_generic_type name params env =
     env\<lparr> env_generic_types := hm_insert name params (env_generic_types env) \<rparr>"

definition type_env_new :: type_env where
  "type_env_new =
     (register_generic_type (rs ''Result'') [rs ''T'', rs ''E''] \<circ>
      register_generic_type (rs ''Option'') [rs ''T''] \<circ>
      register_generic_type (rs ''Set'') [rs ''T''] \<circ>
      register_generic_type (rs ''Map'') [rs ''K'', rs ''V''] \<circ>
      register_generic_type (rs ''List'') [rs ''T'']) type_env_default"

definition register_const_param :: "rstr \<Rightarrow> rstr \<Rightarrow> type_env \<Rightarrow> type_env" where
  "register_const_param ty p env =
     env\<lparr> env_const_type_params := List.insert (ty, p) (env_const_type_params env) \<rparr>"

definition is_const_param :: "type_env \<Rightarrow> rstr \<Rightarrow> rstr \<Rightarrow> bool" where
  "is_const_param env ty p \<longleftrightarrow> (ty, p) \<in> set (env_const_type_params env)"

definition register_type_param_bounds :: "rstr \<Rightarrow> rstr \<Rightarrow> rstr list \<Rightarrow> type_env \<Rightarrow> type_env" where
  "register_type_param_bounds ty p bounds env = (if bounds \<noteq> [] then
     env\<lparr> env_generic_type_bounds := hm_insert (ty, p) bounds (env_generic_type_bounds env) \<rparr> else env)"

definition get_type_param_bounds :: "type_env \<Rightarrow> rstr \<Rightarrow> rstr \<Rightarrow> rstr list option" where
  "get_type_param_bounds env ty p = hm_get (ty, p) (env_generic_type_bounds env)"

definition get_generic_params :: "type_env \<Rightarrow> rstr \<Rightarrow> rstr list option" where
  "get_generic_params env ty = hm_get ty (env_generic_types env)"

definition is_generic_type :: "type_env \<Rightarrow> rstr \<Rightarrow> bool" where
  "is_generic_type env ty = hm_contains ty (env_generic_types env)"

definition register_generic_constructor ::
    "rstr \<Rightarrow> rstr \<Rightarrow> rstr list \<Rightarrow> nat \<Rightarrow> type_env \<Rightarrow> type_env" where
  "register_generic_constructor ctor_name enum_name type_params field_count env =
     env\<lparr> env_generic_constructors :=
       hm_insert ctor_name (enum_name, type_params, field_count) (env_generic_constructors env) \<rparr>"

definition get_generic_constructor :: "type_env \<Rightarrow> rstr \<Rightarrow> (rstr \<times> rstr list \<times> nat) option" where
  "get_generic_constructor env ctor_name = hm_get ctor_name (env_generic_constructors env)"

definition push_type_params :: "type_env \<Rightarrow> type_env" where
  "push_type_params env = env\<lparr> env_type_param_stack := env_type_param_stack env @ [env_type_params env],
     env_type_params := [] \<rparr>"

definition pop_type_params :: "type_env \<Rightarrow> type_env" where
  "pop_type_params env = (if env_type_param_stack env = [] then env
     else env\<lparr> env_type_params := last (env_type_param_stack env),
       env_type_param_stack := butlast (env_type_param_stack env) \<rparr>)"

definition bind_type_param :: "rstr \<Rightarrow> type_id \<Rightarrow> type_env \<Rightarrow> type_env" where
  "bind_type_param p ty env = env\<lparr> env_type_params := hm_insert p ty (env_type_params env) \<rparr>"

definition get_type_param :: "type_env \<Rightarrow> rstr \<Rightarrow> type_id option" where
  "get_type_param env p = hm_get p (env_type_params env)"

fun resolve_type :: "type_env \<Rightarrow> type_id \<Rightarrow> type_id" where
  "resolve_type env (TTypeVar v) = TTypeVar v"
| "resolve_type env (TList elem) = TList (resolve_type env elem)"
| "resolve_type env (TMap k v) = TMap (resolve_type env k) (resolve_type env v)"
| "resolve_type env (TFunc params ret) = TFunc (map (resolve_type env) params) (resolve_type env ret)"
| "resolve_type env (TAdt name args) = TAdt name (map (resolve_type env) args)"
| "resolve_type env other = other"

definition instantiate_generic :: "type_env \<Rightarrow> rstr \<Rightarrow> type_id list \<Rightarrow> type_id option" where
  "instantiate_generic env type_name type_args =
     (case hm_get type_name (env_generic_types env) of None \<Rightarrow> None
      | Some params \<Rightarrow>
        if length type_args \<noteq> length params then None
        else if type_name = rs ''List'' \<or> type_name = rs ''Set'' then
          (case type_args of [] \<Rightarrow> None | a # _ \<Rightarrow> Some (TList a))
        else if type_name = rs ''Map'' then
          (case type_args of k # v # _ \<Rightarrow> Some (TMap k v) | _ \<Rightarrow> None)
        else Some (TAdt type_name type_args))"

definition push_scope :: "type_env \<Rightarrow> type_env" where
  "push_scope env = env\<lparr> env_scopes := env_scopes env @ [[]] \<rparr>"

definition pop_scope :: "type_env \<Rightarrow> scope option \<times> type_env" where
  "pop_scope env = (if 1 < length (env_scopes env) then
       (Some (last (env_scopes env)), env\<lparr> env_scopes := butlast (env_scopes env) \<rparr>)
     else (None, env))"

definition insert_binding :: "rstr \<Rightarrow> binding \<Rightarrow> type_env \<Rightarrow> type_env" where
  "insert_binding name b env = (if env_scopes env = [] then env
     else env\<lparr> env_scopes := butlast (env_scopes env) @ [scope_insert name b (last (env_scopes env))] \<rparr>)"

definition env_insert :: "rstr \<Rightarrow> type_id \<Rightarrow> type_env \<Rightarrow> type_env" where
  "env_insert name ty env = insert_binding name (binding_immutable ty) env"

definition env_define :: "rstr \<Rightarrow> type_id \<Rightarrow> type_env \<Rightarrow> type_env" where
  "env_define name ty env = env_insert name ty env"

definition env_define_mut :: "rstr \<Rightarrow> type_id \<Rightarrow> type_env \<Rightarrow> type_env" where
  "env_define_mut name ty env = insert_binding name (binding_mutable ty) env"

text \<open>The scopes from the innermost outwards.\<close>

fun lookup_scopes :: "scope list \<Rightarrow> rstr \<Rightarrow> binding option" where
  "lookup_scopes [] name = None"
| "lookup_scopes (s # ss) name = (case scope_get s name of Some b \<Rightarrow> Some b | None \<Rightarrow> lookup_scopes ss name)"

definition env_get_binding :: "type_env \<Rightarrow> rstr \<Rightarrow> binding option" where
  "env_get_binding env name = lookup_scopes (rev (env_scopes env)) name"

definition env_get :: "type_env \<Rightarrow> rstr \<Rightarrow> type_id option" where
  "env_get env name = map_option bn_ty (lookup_scopes (rev (env_scopes env)) name)"

definition env_get_type :: "type_env \<Rightarrow> rstr \<Rightarrow> type_id option" where
  "env_get_type env name = env_get env name"

definition env_contains :: "type_env \<Rightarrow> rstr \<Rightarrow> bool" where
  "env_contains env name = list_ex (\<lambda>s. scope_contains s name) (rev (env_scopes env))"

definition env_is_mutable :: "type_env \<Rightarrow> rstr \<Rightarrow> bool" where
  "env_is_mutable env name =
     (case map_option bn_mutable (env_get_binding env name) of Some m \<Rightarrow> m | None \<Rightarrow> False)"

definition defined_in_current_scope :: "type_env \<Rightarrow> rstr \<Rightarrow> bool" where
  "defined_in_current_scope env name =
     (env_scopes env \<noteq> [] \<and> scope_contains (last (env_scopes env)) name)"

definition env_depth :: "type_env \<Rightarrow> nat" where
  "env_depth env = length (env_scopes env) - 1"

fun iter_scope :: "scope \<Rightarrow> rstr list \<Rightarrow> (rstr \<times> type_id) list \<Rightarrow> rstr list \<times> (rstr \<times> type_id) list" where
  "iter_scope [] seen result = (seen, result)"
| "iter_scope ((name, b) # s) seen result =
     (if name \<in> set seen then iter_scope s seen result
      else iter_scope s (name # seen) (result @ [(name, bn_ty b)]))"

fun iter_scopes :: "scope list \<Rightarrow> rstr list \<Rightarrow> (rstr \<times> type_id) list \<Rightarrow> (rstr \<times> type_id) list" where
  "iter_scopes [] seen result = result"
| "iter_scopes (s # ss) seen result = (let (seen, result) = iter_scope s seen result in
     iter_scopes ss seen result)"

definition iter_all :: "type_env \<Rightarrow> (rstr \<times> type_id) list" where
  "iter_all env = iter_scopes (rev (env_scopes env)) [] []"

subsection \<open>Function signatures\<close>

record function_sig =
  fs_name :: rstr
  fs_params :: "(rstr \<times> type_id) list"
  fs_return_type :: type_id
  fs_is_extern :: bool

definition function_sig_new :: "rstr \<Rightarrow> (rstr \<times> type_id) list \<Rightarrow> type_id \<Rightarrow> function_sig" where
  "function_sig_new name params ret =
     \<lparr> fs_name = name, fs_params = params, fs_return_type = ret, fs_is_extern = False \<rparr>"

definition function_sig_extern_fn :: "rstr \<Rightarrow> (rstr \<times> type_id) list \<Rightarrow> type_id \<Rightarrow> function_sig" where
  "function_sig_extern_fn name params ret =
     \<lparr> fs_name = name, fs_params = params, fs_return_type = ret, fs_is_extern = True \<rparr>"

definition function_sig_arity :: "function_sig \<Rightarrow> nat" where
  "function_sig_arity sig = length (fs_params sig)"

definition function_sig_to_type :: "function_sig \<Rightarrow> type_id" where
  "function_sig_to_type sig = TFunc (map snd (fs_params sig)) (fs_return_type sig)"

type_synonym function_registry = "(rstr, function_sig) hmap"

definition fr_register :: "function_sig \<Rightarrow> function_registry \<Rightarrow> function_registry" where
  "fr_register sig r = hm_insert (fs_name sig) sig r"

definition fr_get :: "function_registry \<Rightarrow> rstr \<Rightarrow> function_sig option" where
  "fr_get r name = hm_get name r"

definition fr_contains :: "function_registry \<Rightarrow> rstr \<Rightarrow> bool" where
  "fr_contains r name = hm_contains name r"

definition register_builtins :: "function_registry \<Rightarrow> function_registry" where
  "register_builtins r =
     (fr_register (function_sig_new (rs ''str'') [(rs ''value'', TAny)] (TPrimitive PString)) \<circ>
      fr_register (function_sig_new (rs ''len'') [(rs ''collection'', TAny)] (TPrimitive PInt)) \<circ>
      fr_register (function_sig_new (rs ''println'') [(rs ''value'', TAny)] (TPrimitive PUnit)) \<circ>
      fr_register (function_sig_new (rs ''print'') [(rs ''value'', TAny)] (TPrimitive PUnit))) r"

subsection \<open>Symbol attributes\<close>

datatype mutability = MutImmutable | EffectivelyImmutable | MutMutable | MutUnknown

type_synonym mutability_env = "(rstr, mutability) hmap"

definition mutability_env_insert :: "rstr \<Rightarrow> mutability \<Rightarrow> mutability_env \<Rightarrow> mutability_env" where
  "mutability_env_insert name m e = hm_insert name m e"

datatype allocation_strategy = AllocStack | AllocArena | AllocHeap | AllocSharedCow | AllocUnknown

type_synonym allocation_hints = "(rstr, allocation_strategy) hmap"

definition allocation_hints_insert :: "rstr \<Rightarrow> allocation_strategy \<Rightarrow> allocation_hints \<Rightarrow> allocation_hints" where
  "allocation_hints_insert name hint e = hm_insert name hint e"

subsection \<open>Scopes are stacks\<close>

text \<open>\<open>resolve_type\<close> rebuilds the type as it is: the type parameters in scope are not consulted.\<close>

lemma resolve_type_id [simp]: "resolve_type env ty = ty"
  by (induction env ty rule: resolve_type.induct) (auto simp: map_idI)

lemma env_contains_iff: "env_contains env name \<longleftrightarrow> env_get env name \<noteq> None"
proof -
  have "list_ex (\<lambda>s. scope_contains s name) ss \<longleftrightarrow> lookup_scopes ss name \<noteq> None" for ss
    by (induction ss) (auto simp: scope_contains_def scope_get_def hm_contains_def split: option.splits)
  then show ?thesis
    by (simp add: env_contains_def env_get_def)
qed

lemma lookup_insert_binding:
  "env_scopes env \<noteq> [] \<Longrightarrow> env_get_binding (insert_binding name b env) x =
     (if x = name then Some b else env_get_binding env x)"
  by (cases "env_scopes env" rule: rev_cases)
    (auto simp: insert_binding_def env_get_binding_def scope_insert_def scope_get_def)

lemma lookup_push_scope [simp]: "env_get_binding (push_scope env) x = env_get_binding env x"
  by (simp add: push_scope_def env_get_binding_def scope_get_def)

text \<open>A scope pushed, filled and popped leaves no trace.\<close>

lemma pop_scope_of_push:
  "env_scopes env \<noteq> [] \<Longrightarrow>
   snd (pop_scope (fold (\<lambda>(x, b). insert_binding x b) bs (push_scope env))) = env"
proof -
  assume ne: "env_scopes env \<noteq> []"
  have "\<exists>s. fold (\<lambda>(x, b). insert_binding x b) bs (env\<lparr> env_scopes := env_scopes env @ [t] \<rparr>) =
        env\<lparr> env_scopes := env_scopes env @ [s] \<rparr>" for t
    by (induction bs arbitrary: t) (auto simp: insert_binding_def)
  then obtain s where "fold (\<lambda>(x, b). insert_binding x b) bs (push_scope env) =
      env\<lparr> env_scopes := env_scopes env @ [s] \<rparr>"
    unfolding push_scope_def by blast
  with ne show ?thesis
    by (simp add: pop_scope_def)
qed

end
