(* ===== verification/Types_Solver.thy ===== *)
theory Types_Solver
  imports Types_Core "HOL-Library.Monad_Syntax"
begin

text \<open>
  The constraint solver of the type checker (\<open>src/src/types/solver.rs\<close>): type errors, constraints, the
  trait registry, the type graph (a union-find of type variables with a binding for a root) and the
  solver itself. The graph is passed along; \<open>None\<close> is a call that does not return, as \<open>find\<close>
  would not on a graph whose parents form a cycle.
\<close>

subsection \<open>Errors\<close>

record constraint_origin =
  co_description :: rstr
  co_span :: span

record type_error =
  te_message :: rstr
  te_span :: span
  te_expected :: "type_id option"
  te_found :: "type_id option"
  te_expected_origin :: "constraint_origin option"
  te_found_origin :: "constraint_origin option"

definition type_error_new :: "rstr \<Rightarrow> span \<Rightarrow> type_error" where
  "type_error_new message s = \<lparr> te_message = message, te_span = s, te_expected = None, te_found = None,
     te_expected_origin = None, te_found_origin = None \<rparr>"

definition with_types :: "type_id \<Rightarrow> type_id \<Rightarrow> type_error \<Rightarrow> type_error" where
  "with_types expected found e = e\<lparr> te_expected := Some expected, te_found := Some found \<rparr>"

definition with_origins ::
    "constraint_origin option \<Rightarrow> constraint_origin option \<Rightarrow> type_error \<Rightarrow> type_error" where
  "with_origins expected_origin found_origin e =
     e\<lparr> te_expected_origin := expected_origin, te_found_origin := found_origin \<rparr>"

definition te_mismatch :: "type_id \<Rightarrow> type_id \<Rightarrow> span \<Rightarrow> type_error" where
  "te_mismatch expected found s = (type_error_new (rs ''type mismatch: expected `'' @ format_type expected @
      rs ''`, found `'' @ format_type found @ rs ''`'') s)
      \<lparr> te_expected := Some expected, te_found := Some found \<rparr>"

definition te_not_numeric :: "type_id \<Rightarrow> span \<Rightarrow> type_error" where
  "te_not_numeric ty s = (type_error_new (rs ''expected numeric type (Int or Float), found `'' @
      format_type ty @ rs ''`'') s)
      \<lparr> te_expected := Some (TPrimitive PFloat), te_found := Some ty \<rparr>"

definition te_not_boolean :: "type_id \<Rightarrow> span \<Rightarrow> type_error" where
  "te_not_boolean ty s = (type_error_new (rs ''expected Bool, found `'' @ format_type ty @ rs ''`'') s)
      \<lparr> te_expected := Some (TPrimitive PBool), te_found := Some ty \<rparr>"

definition te_not_callable :: "type_id \<Rightarrow> span \<Rightarrow> type_error" where
  "te_not_callable ty s = (type_error_new (rs ''`'' @ format_type ty @ rs ''` is not callable'') s)
      \<lparr> te_found := Some ty \<rparr>"

definition te_arity_mismatch :: "nat \<Rightarrow> nat \<Rightarrow> span \<Rightarrow> type_error" where
  "te_arity_mismatch expected found s = type_error_new (rs ''function expects '' @ rs (show_nat expected) @
      rs '' argument'' @ (if expected = 1 then [] else rs ''s'') @ rs '', but '' @ rs (show_nat found) @
      rs '' '' @ (if found = 1 then rs ''was'' else rs ''were'') @ rs '' provided'') s"

definition te_undefined_name :: "rstr \<Rightarrow> span \<Rightarrow> type_error" where
  "te_undefined_name name s = type_error_new (rs ''undefined name `'' @ name @ rs ''`'') s"

type_synonym check_result = "type_error + unit"

abbreviation check_ok :: check_result where "check_ok \<equiv> Inr ()"

subsection \<open>Constraints and traits\<close>

datatype constraint_kind =
    EqualAt type_id type_id span
  | Equal type_id type_id
  | NumericAt type_id span
  | Numeric type_id
  | BooleanAt type_id span
  | Boolean type_id
  | IterableAt type_id type_id span
  | Iterable type_id type_id
  | CallableAt type_id "type_id list" type_id span
  | Callable type_id "type_id list" type_id
  | HasTrait type_id rstr span

record trait_registry =
  tr_implementations :: "(rstr, rstr list) hmap"
  tr_super_traits :: "(rstr, rstr list) hmap"

definition trait_registry_new :: trait_registry where
  "trait_registry_new = \<lparr> tr_implementations = [], tr_super_traits = [] \<rparr>"

definition register_impl :: "rstr \<Rightarrow> rstr \<Rightarrow> trait_registry \<Rightarrow> trait_registry" where
  "register_impl type_name trait_name r = r\<lparr> tr_implementations := hm_insert type_name
     ((case hm_get type_name (tr_implementations r) of Some ts \<Rightarrow> ts | None \<Rightarrow> []) @ [trait_name])
     (tr_implementations r) \<rparr>"

definition register_super_traits :: "rstr \<Rightarrow> rstr list \<Rightarrow> trait_registry \<Rightarrow> trait_registry" where
  "register_super_traits trait_name supers r =
     r\<lparr> tr_super_traits := hm_insert trait_name supers (tr_super_traits r) \<rparr>"

definition type_implements :: "trait_registry \<Rightarrow> rstr \<Rightarrow> rstr \<Rightarrow> bool" where
  "type_implements r type_name trait_name =
     (case hm_get type_name (tr_implementations r) of
        Some impls \<Rightarrow> list_ex (\<lambda>t. t = trait_name) impls | None \<Rightarrow> False)"

definition primitive_implements_trait :: "primitive \<Rightarrow> rstr \<Rightarrow> bool" where
  "primitive_implements_trait prim trait_name =
     (if trait_name = rs ''Comparable'' then prim \<in> {PInt, PFloat, PString, PBool}
      else if trait_name = rs ''Printable'' \<or> trait_name = rs ''Display'' then True
      else if trait_name = rs ''Hashable'' then prim \<in> {PInt, PFloat, PString, PBool, PUnit, PNone}
      else if trait_name = rs ''Numeric'' then prim \<in> {PInt, PFloat}
      else if trait_name = rs ''Iterable'' then False
      else False)"

definition te_no_trait :: "type_id \<Rightarrow> rstr \<Rightarrow> span \<Rightarrow> type_error" where
  "te_no_trait ty trait_name s = type_error_new (rs ''type `'' @ format_type ty @
     rs ''` does not implement trait `'' @ trait_name @ rs ''`'') s"

definition check_trait :: "trait_registry \<Rightarrow> type_id \<Rightarrow> rstr \<Rightarrow> span \<Rightarrow> check_result" where
  "check_trait r ty trait_name s =
     (case ty of
        TTypeVar _ \<Rightarrow> check_ok
      | TUnknown \<Rightarrow> check_ok
      | TAdt name _ \<Rightarrow>
          if type_implements r name trait_name then check_ok else Inl (te_no_trait ty trait_name s)
      | TStore name \<Rightarrow>
          if type_implements r name trait_name then check_ok else Inl (te_no_trait ty trait_name s)
      | TPrimitive p \<Rightarrow>
          if p = PAny then check_ok
          else if primitive_implements_trait p trait_name then check_ok
          else Inl (te_no_trait ty trait_name s)
      | _ \<Rightarrow> check_ok)"

subsection \<open>The type graph\<close>

record type_graph =
  tg_next_var :: u32
  tg_parents :: "(type_var_id, type_var_id) hmap"
  tg_repr :: "(type_var_id, type_id) hmap"
  tg_ranks :: "(type_var_id, u32) hmap"
  tg_binding_origins :: "(type_var_id, constraint_origin) hmap"

definition type_graph_new :: type_graph where
  "type_graph_new = \<lparr> tg_next_var = 0, tg_parents = [], tg_repr = [], tg_ranks = [],
     tg_binding_origins = [] \<rparr>"

definition tg_fresh :: "type_graph \<Rightarrow> type_var_id \<times> type_graph" where
  "tg_fresh g = (TypeVarId (tg_next_var g), g\<lparr> tg_next_var := tg_next_var g + 1 \<rparr>)"

definition tg_parent :: "type_graph \<Rightarrow> type_var_id \<Rightarrow> type_var_id" where
  "tg_parent g var = (case hm_get var (tg_parents g) of Some p \<Rightarrow> p | None \<Rightarrow> var)"

partial_function (option) tg_find :: "type_var_id \<Rightarrow> type_graph \<Rightarrow> (type_var_id \<times> type_graph) option" where
  "tg_find var g =
     (let parent = tg_parent g var in
      if parent = var then Some (var, g)
      else do {
        (root, g) \<leftarrow> tg_find parent g;
        Some (root, g\<lparr> tg_parents := hm_insert var root (tg_parents g) \<rparr>)
      })"

definition tg_rank :: "type_graph \<Rightarrow> type_var_id \<Rightarrow> u32" where
  "tg_rank g var = (case hm_get var (tg_ranks g) of Some r \<Rightarrow> r | None \<Rightarrow> 0)"

definition tg_set_parent :: "type_var_id \<Rightarrow> type_var_id \<Rightarrow> type_graph \<Rightarrow> type_graph" where
  "tg_set_parent child parent g = g\<lparr> tg_parents := hm_insert child parent (tg_parents g) \<rparr>"

definition tg_move_repr :: "type_var_id \<Rightarrow> type_var_id \<Rightarrow> type_graph \<Rightarrow> type_graph" where
  "tg_move_repr src dst g = (case hm_get src (tg_repr g) of None \<Rightarrow> g
     | Some ty \<Rightarrow> g\<lparr> tg_repr := hm_insert dst ty (hm_remove src (tg_repr g)) \<rparr>)"

definition tg_link :: "type_var_id \<Rightarrow> type_var_id \<Rightarrow> type_graph \<Rightarrow> type_graph" where
  "tg_link ra rb g =
     (let rank_a = tg_rank g ra; rank_b = tg_rank g rb;
          has_repr_a = hm_contains ra (tg_repr g); has_repr_b = hm_contains rb (tg_repr g) in
      if rank_a > rank_b then
        (let g = tg_set_parent rb ra g in
         if \<not> has_repr_a \<and> has_repr_b then tg_move_repr rb ra g else g)
      else if rank_b > rank_a then
        (let g = tg_set_parent ra rb g in
         if has_repr_a \<and> \<not> has_repr_b then tg_move_repr ra rb g else g)
      else if has_repr_a \<and> \<not> has_repr_b then
        (let g = tg_set_parent rb ra g in g\<lparr> tg_ranks := hm_insert ra (rank_a + 1) (tg_ranks g) \<rparr>)
      else
        (let g = tg_set_parent ra rb g;
             g = g\<lparr> tg_ranks := hm_insert rb (rank_b + 1) (tg_ranks g) \<rparr> in
         if has_repr_a \<and> \<not> has_repr_b then tg_move_repr ra rb g else g))"

definition tg_union :: "type_var_id \<Rightarrow> type_var_id \<Rightarrow> type_graph \<Rightarrow> type_graph option" where
  "tg_union a b g = do {
     (ra, g) \<leftarrow> tg_find a g;
     (rb, g) \<leftarrow> tg_find b g;
     Some (if ra \<noteq> rb then tg_link ra rb g else g)
   }"

definition tg_bind :: "type_var_id \<Rightarrow> type_id \<Rightarrow> type_graph \<Rightarrow> type_graph option" where
  "tg_bind var ty g = do {
     (root, g) \<leftarrow> tg_find var g;
     Some (g\<lparr> tg_repr := hm_insert root ty (tg_repr g) \<rparr>)
   }"

definition tg_bind_with_origin ::
    "type_var_id \<Rightarrow> type_id \<Rightarrow> constraint_origin \<Rightarrow> type_graph \<Rightarrow> type_graph option" where
  "tg_bind_with_origin var ty orig g = do {
     (root, g) \<leftarrow> tg_find var g;
     let g = g\<lparr> tg_repr := hm_insert root ty (tg_repr g) \<rparr>;
     Some (if hm_contains root (tg_binding_origins g) then g
       else g\<lparr> tg_binding_origins := hm_insert root orig (tg_binding_origins g) \<rparr>)
   }"

definition tg_get_binding :: "type_var_id \<Rightarrow> type_graph \<Rightarrow> (type_id option \<times> type_graph) option" where
  "tg_get_binding var g = do {
     (root, g) \<leftarrow> tg_find var g;
     Some (hm_get root (tg_repr g), g)
   }"

definition tg_get_binding_origin ::
    "type_var_id \<Rightarrow> type_graph \<Rightarrow> (constraint_origin option \<times> type_graph) option" where
  "tg_get_binding_origin var g = do {
     (root, g) \<leftarrow> tg_find var g;
     Some (hm_get root (tg_binding_origins g), g)
   }"

subsection \<open>Loops over lists of types\<close>

text \<open>
  \<open>map(...).collect()\<close>, the short-circuiting \<open>any\<close> and the loop that collects the errors of its
  turns, each with the graph passed from one turn to the next.
\<close>

fun tg_map :: "('a \<Rightarrow> 'g \<Rightarrow> ('b \<times> 'g) option) \<Rightarrow> 'a list \<Rightarrow> 'g \<Rightarrow> ('b list \<times> 'g) option" where
  "tg_map f [] g = Some ([], g)"
| "tg_map f (x # xs) g = do {
     (y, g) \<leftarrow> f x g;
     (ys, g) \<leftarrow> tg_map f xs g;
     Some (y # ys, g)
   }"

fun tg_any :: "('a \<Rightarrow> 'g \<Rightarrow> (bool \<times> 'g) option) \<Rightarrow> 'a list \<Rightarrow> 'g \<Rightarrow> (bool \<times> 'g) option" where
  "tg_any f [] g = Some (False, g)"
| "tg_any f (x # xs) g = do {
     (b, g) \<leftarrow> f x g;
     if b then Some (True, g) else tg_any f xs g
   }"

fun tg_each :: "('a \<Rightarrow> 'g \<Rightarrow> (('e + unit) \<times> 'g) option) \<Rightarrow> 'a list \<Rightarrow> 'g \<Rightarrow> ('e list \<times> 'g) option" where
  "tg_each f [] g = Some ([], g)"
| "tg_each f (x # xs) g = do {
     (r, g) \<leftarrow> f x g;
     (es, g) \<leftarrow> tg_each f xs g;
     Some ((case r of Inl e \<Rightarrow> e # es | Inr _ \<Rightarrow> es), g)
   }"

definition first_error :: "'e list \<Rightarrow> 'e + unit" where
  "first_error es = (case es of [] \<Rightarrow> Inr () | e # _ \<Rightarrow> Inl e)"

lemma tg_map_cong [fundef_cong]:
  "xs = ys \<Longrightarrow> g = h \<Longrightarrow> (\<And>x g. x \<in> set ys \<Longrightarrow> f x g = f' x g) \<Longrightarrow> tg_map f xs g = tg_map f' ys h"
  by (induction xs arbitrary: ys g h) (auto simp: Option.bind_def split: option.splits)

lemma tg_any_mono [partial_function_mono]:
  assumes "\<And>x g. mono_option (\<lambda>f. B f x g)"
  shows "mono_option (\<lambda>f. tg_any (B f) xs g)"
  by (induction xs arbitrary: g) (auto intro!: partial_function_mono assms split: prod.split)

lemma tg_each_mono [partial_function_mono]:
  assumes "\<And>x g. mono_option (\<lambda>f. B f x g)"
  shows "mono_option (\<lambda>f. tg_each (B f) xs g)"
  by (induction xs arbitrary: g) (auto intro!: partial_function_mono assms split: prod.split)

subsection \<open>Resolution\<close>

text \<open>
  A type with its bound variables replaced. The depth counts the levels of the type and the bindings
  followed; below level 100 everything is \<open>Any\<close>.
\<close>

function resolve_inner :: "type_id \<Rightarrow> type_graph \<Rightarrow> nat \<Rightarrow> (type_id \<times> type_graph) option" where
  "resolve_inner ty g depth =
     (if 100 < depth then Some (TAny, g)
      else case ty of
        TTypeVar v \<Rightarrow> do {
          (root, g) \<leftarrow> tg_find v g;
          (b, g) \<leftarrow> tg_get_binding root g;
          (case b of Some t \<Rightarrow> resolve_inner t g (depth + 1) | None \<Rightarrow> Some (TTypeVar root, g))
        }
      | TList elem \<Rightarrow> do {
          (elem, g) \<leftarrow> resolve_inner elem g (depth + 1);
          Some (TList elem, g)
        }
      | TMap k v \<Rightarrow> do {
          (k, g) \<leftarrow> resolve_inner k g (depth + 1);
          (v, g) \<leftarrow> resolve_inner v g (depth + 1);
          Some (TMap k v, g)
        }
      | TFunc args ret \<Rightarrow> do {
          (args_r, g) \<leftarrow> tg_map (\<lambda>a g. resolve_inner a g (depth + 1)) args g;
          (ret, g) \<leftarrow> resolve_inner ret g (depth + 1);
          Some (TFunc args_r ret, g)
        }
      | TAdt name args \<Rightarrow> do {
          (args_r, g) \<leftarrow> tg_map (\<lambda>a g. resolve_inner a g (depth + 1)) args g;
          Some (TAdt name args_r, g)
        }
      | other \<Rightarrow> Some (other, g))"
  by pat_completeness auto
termination
  by (relation "measure (\<lambda>(ty, g, depth). 101 - depth)") auto

declare resolve_inner.simps [simp del]

definition resolve :: "type_id \<Rightarrow> type_graph \<Rightarrow> (type_id \<times> type_graph) option" where
  "resolve ty g = resolve_inner ty g 0"

partial_function (option) occurs ::
    "type_var_id \<Rightarrow> type_id \<Rightarrow> type_graph \<Rightarrow> (bool \<times> type_graph) option" where
  "occurs var ty g = do {
     (resolved, g) \<leftarrow> resolve ty g;
     (case resolved of
        TTypeVar v \<Rightarrow> do {
          (a, g) \<leftarrow> tg_find v g;
          (b, g) \<leftarrow> tg_find var g;
          Some (a = b, g)
        }
      | TList elem \<Rightarrow> occurs var elem g
      | TMap k v \<Rightarrow> do {
          (found, g) \<leftarrow> occurs var k g;
          if found then Some (True, g) else occurs var v g
        }
      | TFunc args ret \<Rightarrow> do {
          (found, g) \<leftarrow> tg_any (\<lambda>a g. occurs var a g) args g;
          if found then Some (True, g) else occurs var ret g
        }
      | TAdt _ args \<Rightarrow> tg_any (\<lambda>a g. occurs var a g) args g
      | _ \<Rightarrow> Some (False, g))
   }"

subsection \<open>Unification\<close>

definition unify_var ::
    "type_var_id \<Rightarrow> type_id \<Rightarrow> span \<Rightarrow> type_graph \<Rightarrow> (check_result \<times> type_graph) option" where
  "unify_var v ty s g = do {
     (found, g) \<leftarrow> occurs v ty g;
     if found then Some (Inl (type_error_new (rs ''infinite type (occurs check failed)'') s), g)
     else do {
       g \<leftarrow> tg_bind v ty g;
       Some (check_ok, g)
     }
   }"

text \<open>
  The arms of the \<open>match\<close> in their order; the ones before the type variables succeed without
  looking further, and an \<open>Error\<close> type is compatible with everything left.
\<close>

definition unify_trivial :: "type_id \<Rightarrow> type_id \<Rightarrow> bool" where
  "unify_trivial ra rb \<longleftrightarrow> ra = rb
     \<or> (ra = TPrimitive PInt \<and> rb = TPrimitive PFloat) \<or> (ra = TPrimitive PFloat \<and> rb = TPrimitive PInt)
     \<or> ra = TPrimitive PAny \<or> rb = TPrimitive PAny
     \<or> (ra = TPrimitive PNone \<and> rb = TPrimitive PUnit) \<or> (ra = TPrimitive PUnit \<and> rb = TPrimitive PNone)
     \<or> ra = TPrimitive PNone \<or> rb = TPrimitive PNone
     \<or> ra = TUnknown \<or> rb = TUnknown"

text \<open>The arm \<open>(TypeVar(v), ty) | (ty, TypeVar(v))\<close>: its variable and its type.\<close>

definition type_var_arm :: "type_id \<Rightarrow> type_id \<Rightarrow> (type_var_id \<times> type_id) option" where
  "type_var_arm ra rb = (case ra of TTypeVar v \<Rightarrow> Some (v, rb)
     | _ \<Rightarrow> (case rb of TTypeVar v \<Rightarrow> Some (v, ra) | _ \<Rightarrow> None))"

fun ty_is_error :: "type_id \<Rightarrow> bool" where
  "ty_is_error (TError _) = True"
| "ty_is_error _ = False"

text \<open>
  The arms after the type variables: an error, or the pairs of components to unify one after the
  other, the first of their errors being the result.
\<close>

definition unify_parts ::
    "type_id \<Rightarrow> type_id \<Rightarrow> span \<Rightarrow> type_error + (type_id \<times> type_id) list" where
  "unify_parts ra rb s =
     (case ra of
        TAdt a_name a_args \<Rightarrow> (case rb of
          TAdt b_name b_args \<Rightarrow>
            if a_name = b_name then
              if a_args = [] \<and> b_args = [] then Inr []
              else if length a_args \<noteq> length b_args then Inl (te_mismatch ra rb s)
              else Inr (zip a_args b_args)
            else Inl (te_mismatch ra rb s)
        | TError _ \<Rightarrow> Inr []
        | _ \<Rightarrow> Inl (te_mismatch ra rb s))
      | TStore a_name \<Rightarrow> (case rb of
          TStore b_name \<Rightarrow> if a_name = b_name then Inr [] else Inl (te_mismatch ra rb s)
        | TError _ \<Rightarrow> Inr []
        | _ \<Rightarrow> Inl (te_mismatch ra rb s))
      | TError _ \<Rightarrow> Inr []
      | TList ae \<Rightarrow> (case rb of
          TError _ \<Rightarrow> Inr []
        | TList be \<Rightarrow> Inr [(ae, be)]
        | _ \<Rightarrow> Inl (te_mismatch ra rb s))
      | TMap ak av \<Rightarrow> (case rb of
          TError _ \<Rightarrow> Inr []
        | TMap bk bv \<Rightarrow> Inr [(ak, bk), (av, bv)]
        | _ \<Rightarrow> Inl (te_mismatch ra rb s))
      | TFunc a_args a_ret \<Rightarrow> (case rb of
          TError _ \<Rightarrow> Inr []
        | TFunc b_args b_ret \<Rightarrow>
            if length a_args \<noteq> length b_args then
              Inl (te_arity_mismatch (length a_args) (length b_args) s)
            else Inr (zip a_args b_args @ [(a_ret, b_ret)])
        | _ \<Rightarrow> Inl (te_mismatch ra rb s))
      | _ \<Rightarrow> if ty_is_error rb then Inr [] else Inl (te_mismatch ra rb s))"

partial_function (option) unify ::
    "type_id \<Rightarrow> type_id \<Rightarrow> type_graph \<Rightarrow> span \<Rightarrow> (check_result \<times> type_graph) option" where
  "unify a b g s = do {
     (ra, g) \<leftarrow> resolve a g;
     (rb, g) \<leftarrow> resolve b g;
     if unify_trivial ra rb then Some (check_ok, g)
     else (case type_var_arm ra rb of
       Some (v, ty) \<Rightarrow> unify_var v ty s g
     | None \<Rightarrow> (case unify_parts ra rb s of
         Inl e \<Rightarrow> Some (Inl e, g)
       | Inr parts \<Rightarrow> do {
           (es, g) \<leftarrow> tg_each (\<lambda>p g. unify (fst p) (snd p) g s) parts g;
           Some (first_error es, g)
         }))
   }"

subsection \<open>Constraints\<close>

type_synonym constraint_set = "constraint_kind list"

definition constraint_set_push :: "constraint_kind \<Rightarrow> constraint_set \<Rightarrow> constraint_set" where
  "constraint_set_push c cs = cs @ [c]"

definition constraint_set_extend :: "constraint_set \<Rightarrow> constraint_set \<Rightarrow> constraint_set" where
  "constraint_set_extend cs other = cs @ other"

definition constraint_set_len :: "constraint_set \<Rightarrow> nat" where
  "constraint_set_len cs = length cs"

definition enforce_numeric :: "type_id \<Rightarrow> type_graph \<Rightarrow> span \<Rightarrow> (check_result \<times> type_graph) option" where
  "enforce_numeric ty g s = do {
     (resolved, g) \<leftarrow> resolve ty g;
     (if resolved = TPrimitive PInt \<or> resolved = TPrimitive PFloat then Some (check_ok, g)
      else if resolved = TPrimitive PAny \<or> resolved = TUnknown then Some (check_ok, g)
      else if ty_is_error resolved then Some (check_ok, g)
      else case resolved of
        TTypeVar var \<Rightarrow> do {
          g \<leftarrow> tg_bind var (TPrimitive PFloat) g;
          Some (check_ok, g)
        }
      | other \<Rightarrow> Some (Inl (te_not_numeric other s), g))
   }"

definition enforce_boolean :: "type_id \<Rightarrow> type_graph \<Rightarrow> span \<Rightarrow> (check_result \<times> type_graph) option" where
  "enforce_boolean ty g s = do {
     (resolved, g) \<leftarrow> resolve ty g;
     (if resolved = TPrimitive PBool then Some (check_ok, g)
      else if resolved = TPrimitive PAny \<or> resolved = TUnknown then Some (check_ok, g)
      else if ty_is_error resolved then Some (check_ok, g)
      else case resolved of
        TTypeVar var \<Rightarrow> do {
          g \<leftarrow> tg_bind var (TPrimitive PBool) g;
          Some (check_ok, g)
        }
      | other \<Rightarrow> Some (Inl (te_not_boolean other s), g))
   }"

definition solve_iterable ::
    "type_id \<Rightarrow> type_id \<Rightarrow> type_graph \<Rightarrow> span \<Rightarrow> (check_result \<times> type_graph) option" where
  "solve_iterable container elem g s = do {
     (resolved, g) \<leftarrow> resolve container g;
     (case resolved of
        TMap key _ \<Rightarrow> unify elem key g s
      | _ \<Rightarrow>
        if resolved = TPrimitive PAny \<or> resolved = TUnknown then unify elem resolved g s
        else unify container (TList elem) g s)
   }"

definition solve_callable ::
    "type_id \<Rightarrow> type_id list \<Rightarrow> type_id \<Rightarrow> type_graph \<Rightarrow> span \<Rightarrow> (check_result \<times> type_graph) option" where
  "solve_callable func args ret g s = do {
     (func_resolved, g) \<leftarrow> resolve func g;
     (case func_resolved of
        TFunc expected_args expected_ret \<Rightarrow>
          if length args > length expected_args then
            Some (Inl (te_arity_mismatch (length expected_args) (length args) s), g)
          else do {
            (es, g) \<leftarrow> tg_each (\<lambda>p g. unify (fst p) (snd p) g s)
              (zip expected_args args @ [(expected_ret, ret)]) g;
            Some (first_error es, g)
          }
      | TTypeVar var \<Rightarrow> do {
          g \<leftarrow> tg_bind var (TFunc args ret) g;
          Some (check_ok, g)
        }
      | other \<Rightarrow>
          if other = TUnknown \<or> other = TPrimitive PAny then Some (check_ok, g)
          else Some (Inl (te_not_callable other s), g))
   }"

fun constraint_rank :: "constraint_kind \<Rightarrow> nat" where
  "constraint_rank (Equal _ _) = 0"
| "constraint_rank (EqualAt _ _ _) = 0"
| "constraint_rank (Numeric _) = 1"
| "constraint_rank (NumericAt _ _) = 1"
| "constraint_rank (Boolean _) = 1"
| "constraint_rank (BooleanAt _ _) = 1"
| "constraint_rank (Iterable _ _) = 2"
| "constraint_rank (IterableAt _ _ _) = 2"
| "constraint_rank (Callable _ _ _) = 3"
| "constraint_rank (CallableAt _ _ _ _) = 3"
| "constraint_rank (HasTrait _ _ _) = 4"

abbreviation dummy_span :: span where "dummy_span \<equiv> span_new 0 0"

fun solve_constraint ::
    "trait_registry \<Rightarrow> constraint_kind \<Rightarrow> type_graph \<Rightarrow> (check_result \<times> type_graph) option" where
  "solve_constraint r (EqualAt a b s) g = unify a b g s"
| "solve_constraint r (NumericAt ty s) g = enforce_numeric ty g s"
| "solve_constraint r (BooleanAt ty s) g = enforce_boolean ty g s"
| "solve_constraint r (IterableAt container elem s) g = solve_iterable container elem g s"
| "solve_constraint r (CallableAt func args ret s) g = solve_callable func args ret g s"
| "solve_constraint r (Equal a b) g = unify a b g dummy_span"
| "solve_constraint r (Numeric ty) g = enforce_numeric ty g dummy_span"
| "solve_constraint r (Boolean ty) g = enforce_boolean ty g dummy_span"
| "solve_constraint r (Iterable container elem) g = solve_iterable container elem g dummy_span"
| "solve_constraint r (Callable func args ret) g = solve_callable func args ret g dummy_span"
| "solve_constraint r (HasTrait ty trait_name s) g = do {
     (resolved, g) \<leftarrow> resolve ty g;
     Some (check_trait r resolved trait_name s, g)
   }"

text \<open>The order \<open>(span.start, span.end)\<close> of the errors, as one number for a stable sort.\<close>

definition span_le :: "span \<Rightarrow> span \<Rightarrow> bool" where
  "span_le a b \<longleftrightarrow> sp_start a < sp_start b \<or> (sp_start a = sp_start b \<and> sp_end a \<le> sp_end b)"

fun insert_error :: "type_error \<Rightarrow> type_error list \<Rightarrow> type_error list" where
  "insert_error e [] = [e]"
| "insert_error e (x # xs) = (if span_le (te_span e) (te_span x) then e # x # xs else x # insert_error e xs)"

definition sort_errors :: "type_error list \<Rightarrow> type_error list" where
  "sort_errors es = foldr insert_error es []"

definition solve_constraints :: "constraint_set \<Rightarrow> type_graph \<Rightarrow> trait_registry \<Rightarrow>
    ((type_error list + unit) \<times> type_graph) option" where
  "solve_constraints constraints g r = do {
     (errors, g) \<leftarrow> tg_each (solve_constraint r) (sort_key constraint_rank constraints) g;
     Some (if errors = [] then Inr () else Inl (sort_errors errors), g)
   }"

end
