(* ===== verification/Types_Sound.thy ===== *)
theory Types_Sound
  imports Types_Solver
begin

text \<open>
  What the solver guarantees: \<open>find\<close> and \<open>union\<close> maintain a partition of the type variables, the
  solver returns on every list of constraints, and when it reports no error every constraint holds of
  the types as the final graph resolves them. Types are compared by \<open>compat\<close>, the checker's notion
  of agreement, which treats \<open>Any\<close>, \<open>None\<close>, \<open>Unknown\<close> and error types as wildcards.
\<close>

subsection \<open>Roots\<close>

inductive tg_leads :: "type_graph \<Rightarrow> type_var_id \<Rightarrow> type_var_id \<Rightarrow> bool" for g where
  leads_root: "tg_parent g v = v \<Longrightarrow> tg_leads g v v"
| leads_step: "tg_parent g v = p \<Longrightarrow> p \<noteq> v \<Longrightarrow> tg_leads g p r \<Longrightarrow> tg_leads g v r"

inductive_cases tg_leadsE: "tg_leads g v r"

definition tg_ok :: "type_graph \<Rightarrow> bool" where
  "tg_ok g \<longleftrightarrow> (\<forall>v. \<exists>r. tg_leads g v r)"

definition tg_root :: "type_graph \<Rightarrow> type_var_id \<Rightarrow> type_var_id" where
  "tg_root g v = (case tg_find v g of Some (r, _) \<Rightarrow> r | None \<Rightarrow> v)"

definition tg_same :: "type_graph \<Rightarrow> type_graph \<Rightarrow> bool" where
  "tg_same g h \<longleftrightarrow> tg_leads g = tg_leads h \<and> tg_repr g = tg_repr h \<and> tg_ranks g = tg_ranks h"

lemma tg_same_refl [simp]: "tg_same g g"
  by (simp add: tg_same_def)

lemma tg_same_trans [trans]: "tg_same g h \<Longrightarrow> tg_same h i \<Longrightarrow> tg_same g i"
  by (simp add: tg_same_def)

lemma tg_same_ok: "tg_same g h \<Longrightarrow> tg_ok h \<longleftrightarrow> tg_ok g"
  by (simp add: tg_same_def tg_ok_def)

lemma tg_leads_fixed: "tg_leads g v r \<Longrightarrow> tg_parent g r = r"
  by (induction rule: tg_leads.induct)

lemma tg_leads_fun: "tg_leads g v r \<Longrightarrow> tg_leads g v s \<Longrightarrow> s = r"
proof (induction rule: tg_leads.induct)
  case (leads_root v)
  from leads_root.prems leads_root.hyps show ?case
    by cases simp_all
next
  case (leads_step v p r)
  from leads_step.prems leads_step.hyps leads_step.IH show ?case
    by cases simp_all
qed

lemma tg_parent_set [simp]:
  "tg_parent (g\<lparr> tg_parents := hm_insert c p (tg_parents g) \<rparr>) v = (if v = c then p else tg_parent g v)"
  by (simp add: tg_parent_def)

lemma tg_leads_compress:
  assumes "tg_leads g var root" "tg_leads g v r"
  shows "tg_leads (g\<lparr> tg_parents := hm_insert var root (tg_parents g) \<rparr>) v r"
  using assms(2)
proof (induction rule: tg_leads.induct)
  case (leads_root v)
  then show ?case
    using assms(1) by (auto intro!: tg_leads.leads_root elim: tg_leadsE)
next
  case (leads_step v p r)
  show ?case
  proof (cases "v = var")
    case True
    have "tg_leads g v r"
      using leads_step.hyps by (rule tg_leads.leads_step)
    then have root: "root = r" and fixed: "tg_parent g root = root"
      using assms(1) tg_leads_fun tg_leads_fixed True by auto
    have "root \<noteq> v"
      using fixed leads_step.hyps by auto
    with fixed have "tg_leads (g\<lparr> tg_parents := hm_insert var root (tg_parents g) \<rparr>) root root"
      using True by (intro tg_leads.leads_root) simp
    then show ?thesis
      using \<open>root \<noteq> v\<close> True root by (intro tg_leads.leads_step [of _ v root]) simp_all
  next
    case False
    then show ?thesis
      using leads_step by (auto intro: tg_leads.leads_step)
  qed
qed

lemma tg_same_compress:
  assumes "tg_ok g" "tg_leads g var root"
  shows "tg_same g (g\<lparr> tg_parents := hm_insert var root (tg_parents g) \<rparr>)" (is "tg_same g ?h")
proof -
  have "tg_leads g v r \<longleftrightarrow> tg_leads ?h v r" for v r
    using assms tg_leads_compress [OF assms(2)] tg_leads_fun unfolding tg_ok_def by metis
  then show ?thesis
    by (auto simp: tg_same_def fun_eq_iff)
qed

lemma tg_find_leads: "tg_leads g v r \<Longrightarrow> tg_ok g \<Longrightarrow> \<exists>h. tg_find v g = Some (r, h) \<and> tg_same g h"
proof (induction rule: tg_leads.induct)
  case (leads_root v)
  then show ?case by (subst tg_find.simps) simp
next
  case (leads_step v p r)
  then obtain h where h: "tg_find p g = Some (r, h)" "tg_same g h"
    by blast
  have "tg_leads h v r" "tg_ok h"
    using leads_step.hyps leads_step.prems h(2) tg_leads.leads_step [of g v p r]
    by (auto simp: tg_same_def tg_ok_def)
  then have "tg_same g (h\<lparr> tg_parents := hm_insert v r (tg_parents h) \<rparr>)"
    using tg_same_compress h(2) tg_same_trans by blast
  then show ?case
    using leads_step.hyps h(1) by (subst tg_find.simps) simp
qed

lemma tg_leads_root: "tg_ok g \<Longrightarrow> tg_leads g v (tg_root g v)"
proof -
  assume ok: "tg_ok g"
  then obtain r where r: "tg_leads g v r"
    unfolding tg_ok_def by blast
  from tg_find_leads [OF r ok] show ?thesis
    using r by (auto simp: tg_root_def)
qed

lemma tg_leads_iff: "tg_ok g \<Longrightarrow> tg_leads g v r \<longleftrightarrow> r = tg_root g v"
  using tg_leads_root tg_leads_fun by blast

lemma tg_find_root: "tg_ok g \<Longrightarrow> \<exists>h. tg_find v g = Some (tg_root g v, h) \<and> tg_same g h"
  by (rule tg_find_leads [OF tg_leads_root])

lemma tg_same_root: "tg_ok g \<Longrightarrow> tg_same g h \<Longrightarrow> tg_root h v = tg_root g v"
  using tg_leads_iff tg_same_ok unfolding tg_same_def by metis

lemma tg_root_root [simp]: "tg_ok g \<Longrightarrow> tg_root g (tg_root g v) = tg_root g v"
  using tg_leads_fixed [OF tg_leads_root] tg_leads.leads_root tg_leads_iff by metis

lemma tg_parent_root: "tg_ok g \<Longrightarrow> tg_parent g (tg_root g v) = tg_root g v"
  using tg_leads_fixed [OF tg_leads_root] .

lemma tg_root_self: "tg_ok g \<Longrightarrow> tg_parent g v = v \<Longrightarrow> tg_root g v = v"
  using tg_leads.leads_root tg_leads_iff by metis

text \<open>A graph without parents, as every graph is until \<open>union\<close> is called.\<close>

lemma tg_ok_no_parents: "tg_parents g = [] \<Longrightarrow> tg_ok g"
  unfolding tg_ok_def by (auto intro!: exI tg_leads.leads_root simp: tg_parent_def)

subsection \<open>Union\<close>

definition tg_binding :: "type_graph \<Rightarrow> type_var_id \<Rightarrow> type_id option" where
  "tg_binding g v = hm_get (tg_root g v) (tg_repr g)"

lemma tg_binding_root [simp]: "tg_ok g \<Longrightarrow> tg_binding g (tg_root g v) = tg_binding g v"
  by (simp add: tg_binding_def)

lemma tg_leads_set_parent:
  assumes "tg_ok g" "tg_parent g c = c" "tg_parent g p = p" "c \<noteq> p"
  shows "tg_leads g v r \<Longrightarrow> tg_leads (tg_set_parent c p g) v (if r = c then p else r)"
proof (induction rule: tg_leads.induct)
  case (leads_root v)
  have "tg_leads (tg_set_parent c p g) p p"
    using assms(3,4) by (auto simp: tg_set_parent_def intro: tg_leads.leads_root)
  then show ?case
    using leads_root assms(4)
    by (auto simp: tg_set_parent_def intro: tg_leads.leads_root tg_leads.leads_step)
next
  case (leads_step v q r)
  then have "v \<noteq> c" using assms(2) by auto
  with leads_step show ?case
    by (auto simp: tg_set_parent_def intro: tg_leads.leads_step)
qed

lemma tg_set_parent_ok:
  assumes "tg_ok g" "tg_parent g c = c" "tg_parent g p = p" "c \<noteq> p"
  shows "tg_ok (tg_set_parent c p g)"
    and "tg_root (tg_set_parent c p g) v = (if tg_root g v = c then p else tg_root g v)"
proof -
  have leads: "tg_leads (tg_set_parent c p g) v (if tg_root g v = c then p else tg_root g v)" for v
    using tg_leads_set_parent [OF assms] tg_leads_root [OF assms(1)] by blast
  then show "tg_ok (tg_set_parent c p g)"
    by (auto simp: tg_ok_def)
  from leads [of v] show "tg_root (tg_set_parent c p g) v = (if tg_root g v = c then p else tg_root g v)"
    by (simp only: tg_leads_iff [OF \<open>tg_ok (tg_set_parent c p g)\<close>])
qed

lemma tg_same_fields:
  assumes "tg_parents h = tg_parents g"
  shows "tg_leads h = tg_leads g" "tg_ok h = tg_ok g" "tg_ok g \<Longrightarrow> tg_root h v = tg_root g v"
proof -
  have "tg_leads x v r \<Longrightarrow> tg_parents y = tg_parents x \<Longrightarrow> tg_leads y v r" for x y v r
    by (induction rule: tg_leads.induct) (auto simp: tg_parent_def intro: tg_leads.intros)
  then show leads: "tg_leads h = tg_leads g"
    using assms by (intro ext iffI) auto
  then show ok: "tg_ok h = tg_ok g"
    by (simp add: tg_ok_def)
  show "tg_ok g \<Longrightarrow> tg_root h v = tg_root g v"
    using tg_leads_root [of h v] tg_leads_iff [of g v "tg_root h v"] leads ok by simp
qed

lemma tg_link_parents: "\<exists>c p. {c, p} = {ra, rb} \<and>
    tg_parents (tg_link ra rb g) = tg_parents (tg_set_parent c p g)"
  by (auto simp: tg_link_def Let_def tg_set_parent_def tg_move_repr_def split: option.splits)

lemma tg_link_ok:
  assumes "tg_ok g" "tg_parent g ra = ra" "tg_parent g rb = rb" "ra \<noteq> rb"
  shows "tg_ok (tg_link ra rb g)"
    and "tg_root (tg_link ra rb g) v = tg_root (tg_link ra rb g) w \<longleftrightarrow>
      tg_root g v = tg_root g w \<or> {tg_root g v, tg_root g w} = {ra, rb}"
proof -
  from tg_link_parents [of ra rb g] obtain c p where cp: "{c, p} = {ra, rb}"
    and eq: "tg_parents (tg_link ra rb g) = tg_parents (tg_set_parent c p g)"
    by (elim exE conjE) (rule that)
  from cp have either: "c = ra \<and> p = rb \<or> c = rb \<and> p = ra"
    by (auto simp: doubleton_eq_iff)
  then have roots: "tg_parent g c = c" "tg_parent g p = p" "c \<noteq> p"
    using assms by auto
  note set = tg_set_parent_ok [OF assms(1) roots]
  show "tg_ok (tg_link ra rb g)"
    using tg_same_fields(2) [OF eq] set(1) by simp
  show "tg_root (tg_link ra rb g) v = tg_root (tg_link ra rb g) w \<longleftrightarrow>
      tg_root g v = tg_root g w \<or> {tg_root g v, tg_root g w} = {ra, rb}"
    unfolding tg_same_fields(3) [OF eq set(1)] set(2)
    using either roots(3) by (elim disjE) (auto simp: doubleton_eq_iff)
qed

lemma tg_link_binding:
  assumes "tg_ok g" "tg_root g ra = ra" "tg_root g rb = rb" "ra \<noteq> rb"
  shows "tg_binding (tg_link ra rb g) ra =
     (case (tg_binding g ra, tg_binding g rb) of
        (None, b) \<Rightarrow> b | (Some t, None) \<Rightarrow> Some t
      | (Some t, Some u) \<Rightarrow> if tg_rank g ra > tg_rank g rb then Some t else Some u)"
proof -
  have fixed: "tg_parent g ra = ra" "tg_parent g rb = rb"
    using tg_parent_root [OF assms(1), of ra] tg_parent_root [OF assms(1), of rb] assms(2,3) by simp_all
  note ab = tg_set_parent_ok [OF assms(1) fixed assms(4)]
    and ba = tg_set_parent_ok [OF assms(1) fixed(2,1) assms(4) [symmetric]]
  have pa: "tg_parents (tg_link ra rb g) = tg_parents (tg_set_parent ra rb g) \<Longrightarrow>
      tg_root (tg_link ra rb g) ra = rb"
    using tg_same_fields(3) [of "tg_link ra rb g" "tg_set_parent ra rb g" ra] ab assms(2) by simp
  have pb: "tg_parents (tg_link ra rb g) = tg_parents (tg_set_parent rb ra g) \<Longrightarrow>
      tg_root (tg_link ra rb g) ra = ra"
    using tg_same_fields(3) [of "tg_link ra rb g" "tg_set_parent rb ra g" ra] ba assms(2,4) by simp
  have root: "tg_root (tg_link ra rb g) ra =
      (if tg_rank g rb < tg_rank g ra \<or> tg_rank g ra = tg_rank g rb \<and> hm_contains ra (tg_repr g) \<and>
          \<not> hm_contains rb (tg_repr g) then ra else rb)" (is "_ = (if ?c then _ else _)")
  proof (cases ?c)
    case True
    have "tg_root (tg_link ra rb g) ra = ra"
      using True by (intro pb) (auto simp: tg_link_def Let_def tg_set_parent_def tg_move_repr_def split: option.splits)
    with True show ?thesis by simp
  next
    case False
    have "tg_root (tg_link ra rb g) ra = rb"
      using False by (intro pa) (auto simp: tg_link_def Let_def tg_set_parent_def tg_move_repr_def split: option.splits)
    with False show ?thesis by (simp only: if_False)
  qed
  show ?thesis
    unfolding tg_binding_def [of "tg_link ra rb g"] root
    using assms
    by (cases "hm_get ra (tg_repr g)"; cases "hm_get rb (tg_repr g)")
      (simp_all add: tg_binding_def tg_link_def Let_def tg_set_parent_def tg_move_repr_def hm_contains_def)
qed

text \<open>
  C28: \<open>union(a, b)\<close> returns; afterwards two variables have the same root exactly if they had it before
  or one was in the class of \<open>a\<close> and the other in that of \<open>b\<close>. The merged class has the binding of
  the class that had one; if both had one, the binding of the class of higher rank survives, and that
  of \<open>b\<close> on equal ranks.
\<close>

theorem tg_union_merges:
  assumes "tg_ok g"
  shows "\<exists>h. tg_union a b g = Some h \<and> tg_ok h \<and>
    (\<forall>v w. tg_root h v = tg_root h w \<longleftrightarrow> tg_root g v = tg_root g w \<or>
       {tg_root g v, tg_root g w} = {tg_root g a, tg_root g b}) \<and>
    tg_binding h a = (case (tg_binding g a, tg_binding g b) of
        (None, x) \<Rightarrow> x | (Some t, None) \<Rightarrow> Some t
      | (Some t, Some u) \<Rightarrow>
          if tg_root g a = tg_root g b \<or> tg_rank g (tg_root g a) > tg_rank g (tg_root g b)
          then Some t else Some u)"
proof -
  obtain g1 where g1: "tg_find a g = Some (tg_root g a, g1)" "tg_same g g1"
    using tg_find_root [OF assms] by blast
  have ok1: "tg_ok g1" and r1: "tg_root g1 b = tg_root g b"
    using g1(2) assms tg_same_ok tg_same_root by blast+
  obtain g2 where g2: "tg_find b g1 = Some (tg_root g b, g2)" "tg_same g1 g2"
    using tg_find_root [OF ok1, of b] r1 by auto
  have ok2: "tg_ok g2" and same: "tg_same g g2"
    using g1(2) g2(2) ok1 tg_same_ok tg_same_trans by blast+
  have r2: "tg_root g2 v = tg_root g v" and b2: "tg_binding g2 v = tg_binding g v" for v
    using tg_same_root [OF assms same] same by (simp_all add: tg_binding_def tg_same_def)
  have rank2: "tg_rank g2 v = tg_rank g v" for v
    using same by (simp add: tg_rank_def tg_same_def)
  let ?ra = "tg_root g a" and ?rb = "tg_root g b"
  have self: "tg_root g2 ?ra = ?ra" "tg_root g2 ?rb = ?rb"
    using r2 assms by simp_all
  then have fixed: "tg_parent g2 ?ra = ?ra" "tg_parent g2 ?rb = ?rb"
    using tg_parent_root [OF ok2] by metis+
  have eq: "tg_union a b g = Some (if ?ra \<noteq> ?rb then tg_link ?ra ?rb g2 else g2)"
    using g1 g2 by (simp add: tg_union_def)
  show ?thesis
  proof (cases "?ra = ?rb")
    case True
    then show ?thesis
      using ok2 b2 [of a] b2 [of b]
      by (auto simp: eq r2 doubleton_eq_iff tg_binding_def [of g] split: option.splits)
  next
    case False
    note link = tg_link_ok [OF ok2 fixed False] and bnd = tg_link_binding [OF ok2 self False]
    have "tg_root (tg_link ?ra ?rb g2) a = tg_root (tg_link ?ra ?rb g2) ?ra"
      using link(2) [of a ?ra] r2 assms by simp
    then have "tg_binding (tg_link ?ra ?rb g2) a = tg_binding (tg_link ?ra ?rb g2) ?ra"
      by (simp add: tg_binding_def)
    then show ?thesis
      using False link bnd assms by (simp add: eq r2 b2 rank2 split: option.split)
  qed
qed

lemma tg_find_no_parents: "tg_parents g = [] \<Longrightarrow> tg_find v g = Some (v, g)"
  by (subst tg_find.simps) (simp add: tg_parent_def)

lemma tg_root_no_parents: "tg_parents g = [] \<Longrightarrow> tg_root g v = v"
  by (simp add: tg_root_def tg_find_no_parents)

definition sample_graph :: type_graph where
  "sample_graph = type_graph_new\<lparr> tg_repr := [(TypeVarId 0, TPrimitive PInt)] \<rparr>"

theorem tg_union_merges_witness:
  "\<exists>h. tg_union (TypeVarId 0) (TypeVarId 1) sample_graph = Some h \<and>
     tg_root h (TypeVarId 0) = tg_root h (TypeVarId 1) \<and> tg_root h (TypeVarId 2) \<noteq> tg_root h (TypeVarId 1) \<and>
     tg_binding h (TypeVarId 0) = Some (TPrimitive PInt)"
proof -
  have none: "tg_parents sample_graph = []"
    by (simp add: sample_graph_def type_graph_new_def)
  have root: "tg_root sample_graph v = v" for v
    using none by (rule tg_root_no_parents)
  have "tg_binding sample_graph (TypeVarId 0) = Some (TPrimitive PInt)"
    "tg_binding sample_graph (TypeVarId 1) = None"
    unfolding tg_binding_def root by (simp_all add: sample_graph_def type_graph_new_def)
  with tg_union_merges [OF tg_ok_no_parents [OF none], of "TypeVarId 0" "TypeVarId 1"] show ?thesis
    by (auto simp: root doubleton_eq_iff)
qed

end
