(* ===== verification/Types_Compat.thy ===== *)
theory Types_Compat
  imports Types_Sound
begin

text \<open>
  Resolution as a function of the graph (\<open>res\<close>, with the number of levels it may still go down), the
  totality of \<open>resolve\<close> and of the occurs check, and the agreement of types (\<open>compat\<close>), which more
  bindings cannot destroy.
\<close>

subsection \<open>Resolution as a function of the graph\<close>

primrec res :: "type_graph \<Rightarrow> nat \<Rightarrow> type_id \<Rightarrow> type_id" where
  "res g 0 = (\<lambda>ty. TAny)"
| "res g (Suc n) = (\<lambda>ty. case ty of
       TTypeVar v \<Rightarrow> (case tg_binding g v of Some t \<Rightarrow> res g n t | None \<Rightarrow> TTypeVar (tg_root g v))
     | TList elem \<Rightarrow> TList (res g n elem)
     | TMap k v \<Rightarrow> TMap (res g n k) (res g n v)
     | TFunc args ret \<Rightarrow> TFunc (map (res g n) args) (res g n ret)
     | TAdt name args \<Rightarrow> TAdt name (map (res g n) args)
     | other \<Rightarrow> other)"

abbreviation resolved :: "type_graph \<Rightarrow> type_id \<Rightarrow> type_id" where
  "resolved g \<equiv> res g 101"

definition tg_grows :: "type_graph \<Rightarrow> type_graph \<Rightarrow> bool" where
  "tg_grows g h \<longleftrightarrow> tg_leads g = tg_leads h \<and>
     (\<forall>v t. hm_get v (tg_repr g) = Some t \<longrightarrow> hm_get v (tg_repr h) = Some t)"

lemma tg_grows_refl [simp]: "tg_grows g g"
  by (simp add: tg_grows_def)

lemma tg_grows_trans [trans]: "tg_grows g h \<Longrightarrow> tg_grows h i \<Longrightarrow> tg_grows g i"
  by (simp add: tg_grows_def)

lemma tg_same_grows: "tg_same g h \<Longrightarrow> tg_grows g h"
  by (simp add: tg_grows_def tg_same_def)

lemma tg_grows_ok: "tg_grows g h \<Longrightarrow> tg_ok h \<longleftrightarrow> tg_ok g"
  by (simp add: tg_grows_def tg_ok_def)

lemma tg_grows_root: "tg_ok g \<Longrightarrow> tg_grows g h \<Longrightarrow> tg_root h v = tg_root g v"
  using tg_leads_iff tg_grows_ok unfolding tg_grows_def by metis

lemma tg_grows_binding: "tg_ok g \<Longrightarrow> tg_grows g h \<Longrightarrow> tg_binding g v = Some t \<Longrightarrow> tg_binding h v = Some t"
  using tg_grows_root [of g h v] by (simp add: tg_binding_def tg_grows_def)

lemma tg_same_binding: "tg_ok g \<Longrightarrow> tg_same g h \<Longrightarrow> tg_binding h v = tg_binding g v"
  using tg_same_root [of g h v] by (simp add: tg_binding_def tg_same_def)

lemma res_cong: "tg_root h = tg_root g \<Longrightarrow> tg_binding h = tg_binding g \<Longrightarrow> res h n = res g n"
  by (induction n) (simp_all only: res.simps)

lemma tg_same_res: "tg_ok g \<Longrightarrow> tg_same g h \<Longrightarrow> res h n = res g n"
  by (intro res_cong ext tg_same_root tg_same_binding)

lemma tg_get_binding_root: "tg_ok g \<Longrightarrow> \<exists>h. tg_get_binding v g = Some (tg_binding g v, h) \<and> tg_same g h"
  using tg_find_root [of g v] by (auto simp: tg_get_binding_def tg_binding_def tg_same_def)

text \<open>A loop whose turns only compress paths.\<close>

lemma tg_map_same:
  assumes "\<And>x h. x \<in> set xs \<Longrightarrow> tg_same g h \<Longrightarrow> \<exists>i. f x h = Some (F x, i) \<and> tg_same g i"
  shows "tg_same g h \<Longrightarrow> \<exists>i. tg_map f xs h = Some (map F xs, i) \<and> tg_same g i"
  using assms
proof (induction xs arbitrary: h)
  case (Cons x xs)
  from Cons.prems(2) [of x h] Cons.prems(1) obtain h1 where h1: "f x h = Some (F x, h1)" "tg_same g h1"
    by auto
  from Cons.IH [OF h1(2)] Cons.prems(2) obtain h2 where "tg_map f xs h1 = Some (map F xs, h2)" "tg_same g h2"
    by auto
  with h1 show ?case by simp
qed simp

lemma resolve_inner_res:
  assumes "tg_ok g" "n = 101 - d" "tg_same g h"
  shows "\<exists>i. resolve_inner ty h d = Some (res g n ty, i) \<and> tg_same g i"
  using assms(2,3)
proof (induction n arbitrary: ty h d)
  case 0
  then show ?case by (subst resolve_inner.simps) simp
next
  case (Suc n)
  then have d: "\<not> 100 < d" "n = 101 - (d + 1)"
    by auto
  note IH = Suc.IH [OF d(2)]
  have list: "\<exists>i. tg_map (\<lambda>a g. resolve_inner a g (d + 1)) args h = Some (map (res g n) args, i) \<and> tg_same g i"
    if "tg_same g h" for args h
    using that by (intro tg_map_same IH)
  show ?case
  proof (cases ty)
    case (TTypeVar v)
    obtain h1 where h1: "tg_find v h = Some (tg_root g v, h1)" "tg_same g h1"
      using tg_find_root [of h v] Suc.prems(2) assms(1) tg_same_ok tg_same_root tg_same_trans by metis
    obtain h2 where h2: "tg_get_binding (tg_root g v) h1 = Some (tg_binding g v, h2)" "tg_same g h2"
      using tg_get_binding_root [of h1 "tg_root g v"] h1(2) assms(1) tg_same_ok tg_same_binding
        tg_same_trans tg_binding_root by metis
    show ?thesis
      using IH [OF h2(2)] d(1) h1 h2 TTypeVar
      by (subst resolve_inner.simps) (auto split: option.split)
  next
    case (TList e)
    then show ?thesis
      using IH [OF Suc.prems(2), of e] d(1) by (subst resolve_inner.simps) auto
  next
    case (TMap k v)
    obtain h1 where h1: "resolve_inner k h (d + 1) = Some (res g n k, h1)" "tg_same g h1"
      using IH [OF Suc.prems(2)] by blast
    then show ?thesis
      using IH [OF h1(2), of v] d(1) TMap by (subst resolve_inner.simps) auto
  next
    case (TFunc args ret)
    obtain h1 where h1: "tg_map (\<lambda>a g. resolve_inner a g (d + 1)) args h = Some (map (res g n) args, h1)"
      "tg_same g h1"
      using list [OF Suc.prems(2)] by blast
    then show ?thesis
      using IH [OF h1(2), of ret] d(1) TFunc by (subst resolve_inner.simps) auto
  next
    case (TAdt name args)
    then show ?thesis
      using list [OF Suc.prems(2), of args] d(1) by (subst resolve_inner.simps) auto
  qed (use d(1) Suc.prems(2) in \<open>subst resolve_inner.simps, simp\<close>)+
qed

lemma resolve_res: "tg_ok g \<Longrightarrow> \<exists>h. resolve ty g = Some (resolved g ty, h) \<and> tg_same g h"
  using resolve_inner_res [of g 101 0 g ty] by (simp add: resolve_def)

subsection \<open>Sizes\<close>

definition unbound_in :: "type_graph \<Rightarrow> type_id \<Rightarrow> bool" where
  "unbound_in g ty \<longleftrightarrow> (\<forall>v\<in>ty_vars ty. tg_root g v = v \<and> tg_binding g v = None)"

lemma unbound_in_simps [simp]:
  "unbound_in g (TList e) = unbound_in g e"
  "unbound_in g (TMap k v) = (unbound_in g k \<and> unbound_in g v)"
  "unbound_in g (TFunc args ret) = ((\<forall>a\<in>set args. unbound_in g a) \<and> unbound_in g ret)"
  "unbound_in g (TAdt name args) = (\<forall>a\<in>set args. unbound_in g a)"
  "unbound_in g (TTypeVar x) = (tg_root g x = x \<and> tg_binding g x = None)"
  by (auto simp: unbound_in_def)

lemma res_unbound: "tg_ok g \<Longrightarrow> unbound_in g (res g n ty)"
  by (induction n arbitrary: ty) (auto simp: unbound_in_def split: type_id.split option.split)

lemma res_size: "unbound_in g ty \<Longrightarrow> size (res g n ty) \<le> size ty"
proof (induction n arbitrary: ty)
  case (Suc n)
  have "size_list size (map (res g n) args) \<le> size_list size args" if "\<forall>a\<in>set args. unbound_in g a" for args
    using that by (induction args) (auto simp: add_mono Suc.IH)
  with Suc show ?case
    by (cases ty) (auto simp: add_mono)
qed simp

subsection \<open>Occurs check\<close>

lemma tg_any_same:
  assumes "\<And>x h. x \<in> set xs \<Longrightarrow> tg_same g h \<Longrightarrow> \<exists>b i. f x h = Some (b, i) \<and> tg_same g i"
  shows "tg_same g h \<Longrightarrow> \<exists>b i. tg_any f xs h = Some (b, i) \<and> tg_same g i"
  using assms
proof (induction xs arbitrary: h)
  case (Cons x xs)
  from Cons.prems(2) [of x h] Cons.prems(1) obtain b h1 where "f x h = Some (b, h1)" "tg_same g h1"
    by auto
  then show ?case
    using Cons.IH [of h1] Cons.prems(2) by auto
qed auto

lemma occurs_returns:
  assumes "tg_ok g" "tg_same g h"
  shows "\<exists>b i. occurs var ty h = Some (b, i) \<and> tg_same g i"
  using assms(2)
proof (induction "size (resolved g ty)" arbitrary: ty h rule: less_induct)
  case less
  have okh: "tg_ok h"
    using assms(1) less.prems tg_same_ok by blast
  obtain h1 where h1: "resolve ty h = Some (resolved g ty, h1)" "tg_same g h1"
    using resolve_res [OF okh] tg_same_res [OF assms(1) less.prems] less.prems tg_same_trans by metis
  have unb: "unbound_in g (resolved g ty)"
    using res_unbound [OF assms(1)] .
  have part: "\<exists>b i. occurs var c h' = Some (b, i) \<and> tg_same g i"
    if "unbound_in g c" "size c < size (resolved g ty)" "tg_same g h'" for c h'
    using less.hyps [of c h'] res_size [OF that(1), of 101] that(2,3) by simp
  have two: "\<exists>b i. do { (found, g) \<leftarrow> m h1; if found then Some (True, g) else occurs var c g } = Some (b, i)
      \<and> tg_same g i" if "\<exists>b i. m h1 = Some (b, i) \<and> tg_same g i" "unbound_in g c"
      "size c < size (resolved g ty)" for m c
    using that part by fastforce
  show ?case
  proof (cases "resolved g ty")
    case (TTypeVar v)
    obtain h2 a where h2: "tg_find v h1 = Some (a, h2)" "tg_same g h2"
      using tg_find_root [of h1 v] h1(2) assms(1) tg_same_ok tg_same_trans by metis
    obtain h3 b where "tg_find var h2 = Some (b, h3)" "tg_same g h3"
      using tg_find_root [of h2 var] h2(2) assms(1) tg_same_ok tg_same_trans by metis
    with TTypeVar h1 h2 show ?thesis
      by (subst occurs.simps) simp
  next
    case (TList e)
    with part [of e h1] unb h1 show ?thesis
      by (subst occurs.simps) simp
  next
    case (TMap k v)
    with two [of "occurs var k" v] part [of k h1] unb h1 show ?thesis
      by (subst occurs.simps) simp
  next
    case (TFunc args ret)
    have "\<exists>b i. tg_any (occurs var) args h1 = Some (b, i) \<and> tg_same g i"
      using TFunc unb h1(2) by (intro tg_any_same part) (auto intro: size_param_less)
    with two [of "tg_any (occurs var) args" ret] unb h1 TFunc show ?thesis
      by (subst occurs.simps) simp
  next
    case (TAdt name args)
    have "\<exists>b i. tg_any (occurs var) args h1 = Some (b, i) \<and> tg_same g i"
      using TAdt unb h1(2) size_param_less [of _ args 0] by (intro tg_any_same part) auto
    with h1 TAdt show ?thesis
      by (subst occurs.simps) simp
  qed (use h1 in \<open>subst occurs.simps, force\<close>)+
qed

subsection \<open>Compatible types\<close>

inductive compat :: "type_id \<Rightarrow> type_id \<Rightarrow> bool" where
  compat_refl: "compat x x"
| compat_int_float: "compat (TPrimitive PInt) (TPrimitive PFloat)"
| compat_float_int: "compat (TPrimitive PFloat) (TPrimitive PInt)"
| compat_any_l: "compat TAny x"
| compat_any_r: "compat x TAny"
| compat_none_l: "compat (TPrimitive PNone) x"
| compat_none_r: "compat x (TPrimitive PNone)"
| compat_unknown_l: "compat TUnknown x"
| compat_unknown_r: "compat x TUnknown"
| compat_error_l: "compat (TError es) x"
| compat_error_r: "compat x (TError es)"
| compat_list: "compat x y \<Longrightarrow> compat (TList x) (TList y)"
| compat_map: "compat k l \<Longrightarrow> compat x y \<Longrightarrow> compat (TMap k x) (TMap l y)"
| compat_func: "list_all2 compat xs ys \<Longrightarrow> compat x y \<Longrightarrow> compat (TFunc xs x) (TFunc ys y)"
| compat_adt: "list_all2 compat xs ys \<Longrightarrow> compat (TAdt n xs) (TAdt n ys)"

text \<open>\<open>cut x y\<close>: \<open>x\<close> is \<open>y\<close> with some of its parts replaced by \<open>Any\<close>.\<close>

inductive cut :: "type_id \<Rightarrow> type_id \<Rightarrow> bool" where
  cut_refl: "cut x x"
| cut_any: "cut TAny x"
| cut_list: "cut x y \<Longrightarrow> cut (TList x) (TList y)"
| cut_map: "cut k l \<Longrightarrow> cut x y \<Longrightarrow> cut (TMap k x) (TMap l y)"
| cut_func: "list_all2 cut xs ys \<Longrightarrow> cut x y \<Longrightarrow> cut (TFunc xs x) (TFunc ys y)"
| cut_adt: "list_all2 cut xs ys \<Longrightarrow> cut (TAdt n xs) (TAdt n ys)"

inductive_simps cut_simps:
  "cut x (TPrimitive p)" "cut x (TList y)" "cut x (TMap l y)" "cut x (TFunc ys y)" "cut x (TPlaceholder i)"
  "cut x (TTypeVar v)" "cut x (TAdt n ys)" "cut x (TStore n)" "cut x (TError es)" "cut x TUnknown"

lemma cut_list_refl: "list_all2 cut xs xs"
  by (simp add: list_all2_same cut_refl)

lemma list_all2_through:
  assumes "list_all2 (\<lambda>y z. P y z \<and> (\<forall>x. Q x y \<longrightarrow> R x z)) ys zs" "list_all2 Q xs ys"
  shows "list_all2 R xs zs"
  using assms by (auto simp: list_all2_conv_all_nth)

lemma cut_trans: "cut y z \<Longrightarrow> cut x y \<Longrightarrow> cut x z"
proof (induction arbitrary: x rule: cut.induct)
  case (cut_any z)
  then show ?case
    by (auto simp: cut_simps intro: cut.cut_any)
next
  case (cut_list a b)
  then show ?case
    by (auto simp: cut_simps intro: cut.intros)
next
  case (cut_map k l a b)
  then show ?case
    by (auto simp: cut_simps intro: cut.intros)
next
  case (cut_func as bs a b)
  note all = list_all2_through [OF cut_func.IH(1)]
  from cut_func.prems cut_func.IH(2) all all [OF cut_list_refl] show ?case
    by (auto simp: cut_simps intro: cut.intros)
next
  case (cut_adt as bs n)
  note all = list_all2_through [OF cut_adt.IH]
  from cut_adt.prems all all [OF cut_list_refl] show ?case
    by (auto simp: cut_simps intro: cut.intros)
qed

lemma compat_cut_l: "compat y z \<Longrightarrow> cut x y \<Longrightarrow> compat x z"
proof (induction arbitrary: x rule: compat.induct)
  case (compat_refl y)
  then show ?case
  proof (induction rule: cut.induct)
    case (cut_func xs ys x y)
    then show ?case
      by (auto intro!: compat.compat_func elim: list_all2_mono)
  next
    case (cut_adt xs ys n)
    then show ?case
      by (auto intro!: compat.compat_adt elim: list_all2_mono)
  qed (auto intro: compat.intros)
next
  case (compat_func ys zs y z)
  note all = list_all2_through [OF compat_func.IH(1)]
  from compat_func.prems compat_func.hyps compat_func.IH(2) all all [OF cut_list_refl] show ?case
    by (auto simp: cut_simps intro: compat.intros)
next
  case (compat_adt ys zs n)
  note all = list_all2_through [OF compat_adt.IH]
  from compat_adt.prems all all [OF cut_list_refl] show ?case
    by (auto simp: cut_simps intro: compat.intros)
qed (auto simp: cut_simps intro: compat.intros)

lemma compat_sym: "compat x y \<Longrightarrow> compat y x"
proof (induction rule: compat.induct)
  case (compat_func xs ys x y)
  then show ?case
    by (auto intro!: compat.compat_func simp: list_all2_conv_all_nth)
next
  case (compat_adt xs ys n)
  then show ?case
    by (auto intro!: compat.compat_adt simp: list_all2_conv_all_nth)
qed (auto intro: compat.intros)

lemma compat_cut: "compat y z \<Longrightarrow> cut x y \<Longrightarrow> cut w z \<Longrightarrow> compat x w"
  using compat_cut_l compat_sym by blast

subsection \<open>Resolving further\<close>

lemma res_cut_Suc: "cut (res g n ty) (res g (Suc n) ty)"
proof (induction n arbitrary: ty)
  case (Suc n)
  have "list_all2 cut (map (res g n) args) (map (res g (Suc n)) args)" for args
    by (simp only: list.rel_map list_all2_same) (blast intro: Suc.IH)
  with Suc.IH show ?case
    by (cases ty) (auto intro: cut.intros simp del: res.simps(2) simp: res.simps(2) [of g n] res.simps(2) [of g "Suc n"]
      split: option.split)
qed (simp add: cut_any)

lemma res_cut_mono: "n \<le> m \<Longrightarrow> cut (res g n ty) (res g m ty)"
  by (induction rule: dec_induct) (auto intro: cut_refl cut_trans res_cut_Suc simp del: res.simps)

lemma res_of_res:
  assumes "tg_ok g" "tg_grows g h"
  shows "n \<le> k \<Longrightarrow> cut (res h n ty) (res h n (res g k ty))"
proof (induction n arbitrary: k ty)
  case (Suc n)
  then obtain j where k: "k = Suc j" and le: "n \<le> j"
    by (cases k) auto
  have list: "list_all2 cut (map (res h n) args) (map (res h n) (map (res g j) args))" for args
    by (simp add: list.rel_map list_all2_same Suc.IH [OF le] del: res.simps)
  show ?case
  proof (cases ty)
    case (TTypeVar v)
    show ?thesis
    proof (cases "tg_binding g v")
      case None
      then have "tg_binding h (tg_root g v) = tg_binding h v" "tg_root h (tg_root g v) = tg_root h v"
        using tg_grows_root [OF assms] tg_grows_ok [OF assms(2)] assms(1) by (simp_all add: tg_binding_def)
      with None TTypeVar k show ?thesis
        by (simp add: cut_refl split: option.split)
    next
      case (Some t)
      then have "cut (res h n t) (res h (Suc n) (res g j t))"
        using Suc.IH [OF le, of t] res_cut_Suc [of h n "res g j t"] cut_trans by blast
      with Some TTypeVar k show ?thesis
        by (simp add: tg_grows_binding [OF assms Some])
    qed
  qed (use k Suc.IH [OF le] list in \<open>auto intro: cut.intros\<close>)
qed (simp add: cut_any)

lemma compat_res_refl: "compat (res g n ty) (res g m ty)"
proof -
  have "compat (res g (max n m) ty) (res g (max n m) ty)"
    by (rule compat_refl)
  then show ?thesis
    by (rule compat_cut) (simp_all add: res_cut_mono)
qed

lemma compat_res: "compat x y \<Longrightarrow> compat (res g n x) (res g m y)"
proof (induction arbitrary: n m rule: compat.induct)
  case (compat_refl x)
  show ?case by (rule compat_res_refl)
next
  case (compat_func xs ys x y)
  then show ?case
    by (cases n; cases m) (auto intro!: compat.intros simp: list.rel_map elim!: list_all2_mono)
next
  case (compat_adt xs ys name)
  then show ?case
    by (cases n; cases m) (auto intro!: compat.intros simp: list.rel_map elim!: list_all2_mono)
qed (case_tac [!] n; case_tac [!] m; auto intro: compat.intros)+

text \<open>Once two types are compatible, binding more variables keeps them so.\<close>

lemma compat_resolved_res:
  assumes "tg_ok g" "tg_grows g h" "compat (resolved h (resolved g a)) (resolved h (resolved g b))"
  shows "compat (resolved h a) (resolved h b)"
  using assms(3) by (rule compat_cut) (rule res_of_res [OF assms(1,2)], simp)+

lemma compat_resolved_grows:
  assumes "tg_ok g" "tg_grows g h" "compat (resolved g a) (resolved g b)"
  shows "compat (resolved h a) (resolved h b)"
  by (rule compat_resolved_res [OF assms(1,2)]) (rule compat_res [OF assms(3)])

end
