(* ===== verification/Types_Unify.thy ===== *)
theory Types_Unify
  imports Types_Compat
begin

text \<open>
  Unification returns, only adds bindings, and on success makes its two types agree; what it means for
  a constraint to hold, and that the constraints solved so far keep holding.
\<close>

subsection \<open>Unification\<close>

definition tg_unbound :: "type_graph \<Rightarrow> type_var_id set" where
  "tg_unbound g = {v. hm_get v (tg_repr g) = None}"

lemma tg_grows_unbound: "tg_grows g h \<Longrightarrow> tg_unbound h \<subseteq> tg_unbound g"
  unfolding tg_grows_def tg_unbound_def by (metis (mono_tags, lifting) Collect_mono not_None_eq)

lemma tg_grows_none:
  assumes "tg_ok g" "tg_grows g h" "tg_unbound h = tg_unbound g"
  shows "res h n = res g n"
proof (intro res_cong ext)
  show "tg_root h v = tg_root g v" for v
    using assms(1,2) by (rule tg_grows_root)
  show "tg_binding h v = tg_binding g v" for v
  proof (cases "tg_binding g v")
    case None
    then have "tg_root g v \<in> tg_unbound h"
      using assms(3) by (simp add: tg_unbound_def tg_binding_def)
    with None show ?thesis
      using tg_grows_root [OF assms(1,2)] by (simp add: tg_unbound_def tg_binding_def)
  next
    case (Some t)
    then show ?thesis
      using tg_grows_binding [OF assms(1,2) Some] by simp
  qed
qed

lemma tg_bind_unbound:
  assumes "tg_ok g" "tg_root g v = v" "tg_binding g v = None"
  shows "\<exists>h. tg_bind v ty g = Some h \<and> tg_grows g h \<and> tg_binding h v = Some ty"
proof -
  obtain g1 where g1: "tg_find v g = Some (v, g1)" "tg_same g g1"
    using tg_find_root [OF assms(1), of v] assms(2) by auto
  let ?h = "g1\<lparr> tg_repr := hm_insert v ty (tg_repr g1) \<rparr>"
  have ok1: "tg_ok g1"
    using g1(2) assms(1) tg_same_ok by blast
  have eq: "tg_bind v ty g = Some ?h"
    by (simp add: tg_bind_def g1(1))
  have leads: "tg_leads ?h = tg_leads g"
    using tg_same_fields(1) [of ?h g1] g1(2) by (simp add: tg_same_def)
  have "hm_get v (tg_repr g) = None"
    using assms(2,3) by (simp add: tg_binding_def)
  then have "tg_grows g ?h"
    using leads g1(2) by (auto simp: tg_grows_def tg_same_def)
  moreover have "tg_binding ?h v = Some ty"
    using tg_grows_root [OF assms(1) \<open>tg_grows g ?h\<close>, of v] assms(2) by (simp add: tg_binding_def)
  ultimately show ?thesis
    using eq by blast
qed

lemma compat_bound:
  assumes "tg_ok h" "tg_binding h v = Some ty"
  shows "compat (resolved h (TTypeVar v)) (resolved h ty)"
proof -
  have "resolved h (TTypeVar v) = res h 100 ty"
    using assms(2) res.simps(2) [of h 100] by simp
  then show ?thesis
    by (simp only: compat_res_refl)
qed

text \<open>What a call of the solver does: it returns, only adds bindings, and on success establishes \<open>P\<close>.\<close>

definition solves :: "type_graph \<Rightarrow> (type_graph \<Rightarrow> bool) \<Rightarrow> (('e + unit) \<times> type_graph) option \<Rightarrow> bool" where
  "solves g P m \<longleftrightarrow> (\<exists>r h. m = Some (r, h) \<and> tg_grows g h \<and> (r = Inr () \<longrightarrow> P h))"

lemma solves_Some [simp]: "solves g P (Some (r, h)) \<longleftrightarrow> tg_grows g h \<and> (r = Inr () \<longrightarrow> P h)"
  by (simp add: solves_def)

lemma solves_mono: "solves g P m \<Longrightarrow> (\<And>h. tg_grows g h \<Longrightarrow> P h \<Longrightarrow> Q h) \<Longrightarrow> solves g Q m"
  by (auto simp: solves_def)

lemma solves_from: "solves h P m \<Longrightarrow> tg_grows g h \<Longrightarrow> solves g P m"
  unfolding solves_def using tg_grows_trans by blast

lemma unify_var_solves:
  assumes "tg_ok g" "tg_root g v = v" "tg_binding g v = None"
  shows "solves g (\<lambda>h. compat (resolved h (TTypeVar v)) (resolved h ty)) (unify_var v ty s g)"
proof -
  obtain b g1 where g1: "occurs v ty g = Some (b, g1)" "tg_same g g1"
    using occurs_returns [OF assms(1) tg_same_refl] by blast
  have ok1: "tg_ok g1" and v1: "tg_root g1 v = v" "tg_binding g1 v = None"
    using g1(2) assms tg_same_ok tg_same_root tg_same_binding by metis+
  from tg_bind_unbound [OF this, of ty] obtain h where
    h: "tg_bind v ty g1 = Some h" "tg_grows g1 h" "tg_binding h v = Some ty"
    by blast
  have okh: "tg_ok h"
    using h(2) ok1 tg_grows_ok by blast
  show ?thesis
    using g1(1) h(1) tg_same_grows [OF g1(2)] tg_grows_trans [OF tg_same_grows [OF g1(2)] h(2)]
      compat_bound [OF okh h(3)]
    by (simp add: unify_var_def)
qed

lemma compat_trivial: "unify_trivial x y \<Longrightarrow> compat x y"
  by (auto simp: unify_trivial_def intro: compat.intros)

lemma resolved_list: "resolved h (TList e) = TList (res h 100 e)"
  and resolved_map: "resolved h (TMap k v) = TMap (res h 100 k) (res h 100 v)"
  and resolved_func: "resolved h (TFunc args ret) = TFunc (map (res h 100) args) (res h 100 ret)"
  and resolved_adt: "resolved h (TAdt n args) = TAdt n (map (res h 100) args)"
  and resolved_error: "resolved h (TError es) = TError es"
  and resolved_store: "resolved h (TStore n) = TStore n"
  using res.simps(2) [of h 100] by simp_all

lemma compat_resolved_100: "compat (resolved h x) (resolved h y) \<Longrightarrow> compat (res h 100 x) (res h 100 y)"
  by (erule compat_cut) (rule res_cut_mono, simp)+

lemma list_all2_zip:
  "length xs = length ys \<Longrightarrow> (\<And>x y. (x, y) \<in> set (zip xs ys) \<Longrightarrow> P x y) \<Longrightarrow> list_all2 P xs ys"
  by (auto simp: list_all2_iff)

lemma zip_both: "(a, b) \<in> set (zip xs ys) \<Longrightarrow> a \<in> set xs \<and> b \<in> set ys"
  by (blast dest: set_zip_leftD set_zip_rightD)

text \<open>The parts that remain are components of the two types, and enough for their agreement.\<close>

lemma unify_parts_size:
  "unify_parts x y s = Inr ps \<Longrightarrow> (a, b) \<in> set ps \<Longrightarrow>
   size a < size x \<and> size b < size y \<and> ty_vars a \<subseteq> ty_vars x \<and> ty_vars b \<subseteq> ty_vars y"
  by (auto simp: unify_parts_def split: type_id.splits if_splits dest!: zip_both
      intro: size_param_less [of _ _ 0, simplified] size_param_less)

lemma unify_parts_compat:
  assumes "unify_parts x y s = Inr ps"
    and parts: "\<And>a b. (a, b) \<in> set ps \<Longrightarrow> compat (resolved h a) (resolved h b)"
  shows "compat (resolved h x) (resolved h y)"
proof -
  have parts': "(a, b) \<in> set ps \<Longrightarrow> compat (res h 100 a) (res h 100 b)" for a b
    using parts by (rule compat_resolved_100)
  have all: "list_all2 compat (map (res h 100) as) (map (res h 100) bs)"
    if "length as = length bs" "set (zip as bs) \<subseteq> set ps" for as bs
    unfolding list.rel_map using that parts' by (intro list_all2_zip) auto
  show ?thesis
    using assms(1) parts' all
    by (auto simp: unify_parts_def resolved_list resolved_map resolved_func resolved_adt resolved_error
        resolved_store intro!: all compat.intros split: type_id.splits if_splits elim!: ty_is_error.elims)
qed

lemma tg_each_solves:
  assumes "\<And>p h. p \<in> set ps \<Longrightarrow> tg_grows g h \<Longrightarrow> solves h (Q p) (f p h)"
    and mono: "\<And>p h i. Q p h \<Longrightarrow> tg_grows g h \<Longrightarrow> tg_grows h i \<Longrightarrow> Q p i"
  shows "tg_grows g h \<Longrightarrow>
    \<exists>es i. tg_each f ps h = Some (es, i) \<and> tg_grows h i \<and> (es = [] \<longrightarrow> (\<forall>p\<in>set ps. Q p i))"
  using assms(1)
proof (induction ps arbitrary: h)
  case (Cons p ps)
  from Cons.prems(2) [of p h] Cons.prems(1) obtain r h1 where
    h1: "f p h = Some (r, h1)" "tg_grows h h1" "r = Inr () \<longrightarrow> Q p h1"
    by (auto simp: solves_def)
  have g1: "tg_grows g h1"
    using Cons.prems(1) h1(2) tg_grows_trans by blast
  from Cons.IH [OF g1] Cons.prems(2) obtain es i where
    i: "tg_each f ps h1 = Some (es, i)" "tg_grows h1 i" "es = [] \<longrightarrow> (\<forall>p\<in>set ps. Q p i)"
    by auto
  have "r = Inr () \<longrightarrow> Q p i"
    using mono [OF _ g1 i(2)] h1(3) by blast
  then show ?case
    using h1(1,2) i tg_grows_trans by (auto split: sum.splits)
qed simp

lemma solves_each:
  assumes "\<exists>es i. tg_each f ps h = Some (es, i) \<and> tg_grows h i \<and> (es = [] \<longrightarrow> (\<forall>p\<in>set ps. Q p i))"
  shows "solves h (\<lambda>i. \<forall>p\<in>set ps. Q p i) (do { (es, g) \<leftarrow> tg_each f ps h; Some (first_error es, g) })"
  using assms by (auto simp: first_error_def split: list.splits)

abbreviation agree :: "type_id \<Rightarrow> type_id \<Rightarrow> type_graph \<Rightarrow> bool" where
  "agree a b g \<equiv> compat (resolved g a) (resolved g b)"

text \<open>The measure: variables without a binding, then the resolved types.\<close>

definition unify_rel :: "((type_graph \<times> type_id \<times> type_id) \<times> type_graph \<times> type_id \<times> type_id) set" where
  "unify_rel = inv_image (less_than <*lex*> less_than)
     (\<lambda>(g, a, b). (card (tg_unbound g), size (resolved g a) + size (resolved g b)))"

lemma wf_unify_rel: "wf unify_rel"
  by (simp add: unify_rel_def wf_lex_prod)

lemma unify_rel_part:
  assumes "tg_ok g" "tg_grows g h" "unbound_in g c" "unbound_in g d"
    "size c < size (resolved g a)" "size d < size (resolved g b)"
  shows "((h, c, d), (g, a, b)) \<in> unify_rel"
proof (cases "tg_unbound h = tg_unbound g")
  case True
  then show ?thesis
    using assms res_size [OF assms(3), of 101] res_size [OF assms(4), of 101]
    by (simp only: unify_rel_def in_inv_image in_lex_prod prod.case tg_grows_none [OF assms(1,2) True]
        less_than_iff) linarith
next
  case False
  then have "card (tg_unbound h) < card (tg_unbound g)"
    using tg_grows_unbound [OF assms(2)] by (intro psubset_card_mono) auto
  then show ?thesis
    by (simp add: unify_rel_def)
qed

lemma unify_solves: "tg_ok g \<Longrightarrow> solves g (agree a b) (unify a b g s)"
proof (induction "(g, a, b)" arbitrary: g a b rule: wf_induct_rule [OF wf_unify_rel])
  case (1 g a b)
  let ?x = "resolved g a" and ?y = "resolved g b"
  note ok = "1.prems"
  obtain g1 where g1: "resolve a g = Some (?x, g1)" "tg_same g g1"
    using resolve_res [OF ok] by blast
  obtain g2 where g2: "resolve b g1 = Some (?y, g2)" "tg_same g g2"
    using resolve_res [of g1 b] g1(2) ok tg_same_res tg_same_ok tg_same_trans by metis
  have ok2: "tg_ok g2" and grows: "tg_grows g g2"
    using g2(2) ok tg_same_ok tg_same_grows by blast+
  have step: "solves g (agree a b) m" if "solves g2 (agree ?x ?y) m" for m
    using that grows compat_resolved_res [OF ok] by (blast intro: solves_mono solves_from)
  have fixed: "tg_root g2 v = v \<and> tg_binding g2 v = None" if "v \<in> ty_vars ?x \<union> ty_vars ?y" for v
    using that res_unbound [OF ok] tg_same_root [OF ok g2(2)] tg_same_binding [OF ok g2(2)]
    by (auto simp: unbound_in_def)
  have eq: "unify a b g s = (if unify_trivial ?x ?y then Some (check_ok, g2)
      else (case type_var_arm ?x ?y of
         Some (v, ty) \<Rightarrow> unify_var v ty s g2
       | None \<Rightarrow> (case unify_parts ?x ?y s of
           Inl e \<Rightarrow> Some (Inl e, g2)
         | Inr parts \<Rightarrow> do {
             (es, g) \<leftarrow> tg_each (\<lambda>p g. unify (fst p) (snd p) g s) parts g2;
             Some (first_error es, g)
           })))"
    by (subst unify.simps) (simp add: g1 g2 del: res.simps)
  have parts: "solves g2 (\<lambda>i. \<forall>p\<in>set ps. agree (fst p) (snd p) i)
      (do { (es, g) \<leftarrow> tg_each (\<lambda>p g. unify (fst p) (snd p) g s) ps g2; Some (first_error es, g) })"
    if ps: "unify_parts ?x ?y s = Inr ps" for ps
  proof (rule solves_each, rule tg_each_solves [of _ g2 "\<lambda>p. agree (fst p) (snd p)"])
    fix p h assume p: "p \<in> set ps" and h: "tg_grows g2 h"
    have "tg_grows g h"
      using grows h tg_grows_trans by blast
    moreover have "size (fst p) < size ?x \<and> size (snd p) < size ?y \<and> unbound_in g (fst p) \<and> unbound_in g (snd p)"
      using unify_parts_size [OF ps, of "fst p" "snd p"] p res_unbound [OF ok, of 101 a] res_unbound [OF ok, of 101 b]
      by (auto simp: unbound_in_def simp del: res.simps)
    ultimately have "((h, fst p, snd p), (g, a, b)) \<in> unify_rel"
      using ok by (intro unify_rel_part) auto
    then show "solves h (agree (fst p) (snd p)) (unify (fst p) (snd p) h s)"
      using "1.hyps" tg_grows_ok [OF h] ok2 by blast
  next
    show "agree (fst p) (snd p) h \<Longrightarrow> tg_grows g2 h \<Longrightarrow> tg_grows h i \<Longrightarrow> agree (fst p) (snd p) i" for p h i
      using compat_resolved_grows tg_grows_ok ok2 by blast
  qed simp
  show ?case
  proof (rule step, cases "unify_trivial ?x ?y")
    case True
    then show "solves g2 (agree ?x ?y) (unify a b g s)"
      using compat_res [OF compat_trivial] by (simp add: eq del: res.simps)
  next
    case no: False
    show "solves g2 (agree ?x ?y) (unify a b g s)"
    proof (cases "type_var_arm ?x ?y")
      case (Some p)
      obtain v ty where p: "p = (v, ty)"
        by (cases p)
      then have arm: "(?x = TTypeVar v \<and> ty = ?y) \<or> (?y = TTypeVar v \<and> ty = ?x)"
        using Some by (auto simp: type_var_arm_def split: type_id.splits)
      then have v: "tg_root g2 v = v" "tg_binding g2 v = None"
        using fixed [of v] by (auto simp del: res.simps)
      have "solves g2 (agree ?x ?y) (unify_var v ty s g2)"
        using unify_var_solves [OF ok2 v, of ty s] arm compat_sym by (auto elim!: solves_mono simp del: res.simps)
      then show ?thesis
        using no Some p by (simp add: eq del: res.simps)
    next
      case None
      show ?thesis
      proof (cases "unify_parts ?x ?y s")
        case (Inl e)
        then show ?thesis
          using no None by (simp add: eq del: res.simps)
      next
        case (Inr ps)
        have "solves g2 (agree ?x ?y)
          (do { (es, g) \<leftarrow> tg_each (\<lambda>p g. unify (fst p) (snd p) g s) ps g2; Some (first_error es, g) })"
          by (rule solves_mono [OF parts [OF Inr]], rule unify_parts_compat [OF Inr]) auto
        then show ?thesis
          using no None Inr by (simp add: eq del: res.simps)
      qed
    qed
  qed
qed

subsection \<open>Constraints that hold\<close>

definition numeric_like :: "type_id \<Rightarrow> bool" where
  "numeric_like ty \<longleftrightarrow> ty \<in> {TPrimitive PInt, TPrimitive PFloat, TAny, TUnknown} \<or> ty_is_error ty"

definition boolean_like :: "type_id \<Rightarrow> bool" where
  "boolean_like ty \<longleftrightarrow> ty \<in> {TPrimitive PBool, TAny, TUnknown} \<or> ty_is_error ty"

definition iterable_ok :: "type_graph \<Rightarrow> type_id \<Rightarrow> type_id \<Rightarrow> bool" where
  "iterable_ok g container elem \<longleftrightarrow>
     (\<exists>k v. resolved g container = TMap k v \<and> compat (resolved g elem) k) \<or> agree container (TList elem) g"

definition callable_ok :: "type_graph \<Rightarrow> type_id \<Rightarrow> type_id list \<Rightarrow> type_id \<Rightarrow> bool" where
  "callable_ok g func args ret \<longleftrightarrow> resolved g func \<in> {TUnknown, TAny} \<or>
     (\<exists>ps r. resolved g func = TFunc ps r \<and> length args \<le> length ps \<and>
        list_all2 (\<lambda>p a. compat p (resolved g a)) (take (length args) ps) args \<and> compat r (resolved g ret))"

fun satisfied :: "trait_registry \<Rightarrow> type_graph \<Rightarrow> constraint_kind \<Rightarrow> bool" where
  "satisfied r g (EqualAt a b s) = agree a b g"
| "satisfied r g (Equal a b) = agree a b g"
| "satisfied r g (NumericAt ty s) = numeric_like (resolved g ty)"
| "satisfied r g (Numeric ty) = numeric_like (resolved g ty)"
| "satisfied r g (BooleanAt ty s) = boolean_like (resolved g ty)"
| "satisfied r g (Boolean ty) = boolean_like (resolved g ty)"
| "satisfied r g (IterableAt container elem s) = iterable_ok g container elem"
| "satisfied r g (Iterable container elem) = iterable_ok g container elem"
| "satisfied r g (CallableAt func args ret s) = callable_ok g func args ret"
| "satisfied r g (Callable func args ret) = callable_ok g func args ret"
| "satisfied r g (HasTrait ty trait_name s) = (check_trait r (resolved g ty) trait_name s = check_ok)"

lemma resolved_cut:
  assumes "tg_ok g" "tg_grows g h" "resolved g ty = t"
  shows "cut (resolved h ty) (resolved h t)"
  using res_of_res [OF assms(1,2), of 101 101 ty] assms(3) by simp

lemma resolved_cut_bound:
  assumes "tg_ok g" "tg_grows g h" "resolved g ty = TTypeVar v" "tg_binding h v = Some t"
  shows "cut (resolved h ty) (res h 100 t)"
  using resolved_cut [OF assms(1-3)] assms(4) res.simps(2) [of h 100] by simp

lemma resolved_prim: "resolved h (TPrimitive p) = TPrimitive p" "res h 100 (TPrimitive p) = TPrimitive p"
    "resolved h TUnknown = TUnknown"
  using res.simps(2) [of h 100] res.simps(2) [of h 99] by simp_all

lemma numeric_like_cut: "cut x y \<Longrightarrow> numeric_like y \<Longrightarrow> numeric_like x"
  by (auto simp: numeric_like_def cut_simps elim!: ty_is_error.elims)

lemma boolean_like_cut: "cut x y \<Longrightarrow> boolean_like y \<Longrightarrow> boolean_like x"
  by (auto simp: boolean_like_def cut_simps elim!: ty_is_error.elims)

lemma numeric_like_res: "numeric_like t \<Longrightarrow> resolved h t = t"
  by (auto simp: numeric_like_def resolved_prim resolved_error simp del: res.simps elim!: ty_is_error.elims)

lemma boolean_like_res: "boolean_like t \<Longrightarrow> resolved h t = t"
  by (auto simp: boolean_like_def resolved_prim resolved_error simp del: res.simps elim!: ty_is_error.elims)

lemma cut_TMap: "cut x (TMap k v) \<Longrightarrow> x = TAny \<or> (\<exists>k' v'. x = TMap k' v' \<and> cut k' k \<and> cut v' v)"
  and cut_TFunc: "cut x (TFunc ps r) \<Longrightarrow> x = TAny \<or> (\<exists>qs q. x = TFunc qs q \<and> list_all2 cut qs ps \<and> cut q r)"
  by (auto simp: cut_simps intro: cut_refl cut_list_refl)

lemma iterable_okI:
  assumes "cut (resolved h c) (TMap k v)" "compat (resolved h e) k"
  shows "iterable_ok h c e"
  using assms(1)
proof (cases "resolved h c = TAny")
  case False
  with assms(1) obtain k' v' where "resolved h c = TMap k' v'" "cut k' k"
    using cut_TMap by blast
  then show ?thesis
    using compat_cut [OF assms(2) cut_refl] by (auto simp: iterable_ok_def simp del: res.simps)
qed (simp add: iterable_ok_def compat_any_l del: res.simps)

lemma list_all2_cut_compat:
  assumes "list_all2 cut qs ps" "list_all2 (\<lambda>p a. compat p (f a)) ps as"
  shows "list_all2 (\<lambda>p a. compat p (f a)) qs as"
  using assms compat_cut_l by (fastforce simp: list_all2_conv_all_nth)

lemma callable_okI:
  assumes "cut (resolved h f) (TFunc ps r)" "length args \<le> length ps"
    "list_all2 (\<lambda>p a. compat p (resolved h a)) (take (length args) ps) args" "compat r (resolved h ret)"
  shows "callable_ok h f args ret"
proof (cases "resolved h f = TAny")
  case False
  with assms(1) obtain qs q where q: "resolved h f = TFunc qs q" "list_all2 cut qs ps" "cut q r"
    using cut_TFunc by blast
  have "list_all2 cut (take (length args) qs) (take (length args) ps)"
    using q(2) by (simp add: list_all2_takeI)
  then have "list_all2 (\<lambda>p a. compat p (resolved h a)) (take (length args) qs) args"
    using assms(3) by (rule list_all2_cut_compat)
  then show ?thesis
    using q assms(2) compat_cut_l [OF assms(4) q(3)] list_all2_lengthD [OF q(2)]
    by (simp add: callable_ok_def del: res.simps)
qed (simp add: callable_ok_def del: res.simps)

lemma satisfied_same: "tg_ok g \<Longrightarrow> tg_same g h \<Longrightarrow> satisfied r h c = satisfied r g c"
  using tg_same_res [of g h 101]
  by (cases c) (simp_all add: iterable_ok_def callable_ok_def del: res.simps)

lemma iterable_ok_grows:
  assumes "tg_ok g" "tg_grows g h" "iterable_ok g c e"
  shows "iterable_ok h c e"
  using assms(3) unfolding iterable_ok_def [of g]
proof (elim disjE exE conjE)
  fix k v assume c: "resolved g c = TMap k v" and e: "compat (resolved g e) k"
  have "compat (resolved h e) (res h 100 k)"
    using compat_cut_l [OF compat_res [OF e]] res_of_res [OF assms(1,2)] by blast
  then show ?thesis
    using resolved_cut [OF assms(1,2) c] unfolding resolved_map by (rule iterable_okI [rotated])
qed (use compat_resolved_grows [OF assms(1,2)] in \<open>simp add: iterable_ok_def del: res.simps\<close>)

lemma callable_ok_grows:
  assumes "tg_ok g" "tg_grows g h" "callable_ok g f args ret"
  shows "callable_ok h f args ret"
  using assms(3) unfolding callable_ok_def [of g]
proof (elim disjE exE conjE)
  assume "resolved g f \<in> {TUnknown, TAny}"
  then show ?thesis
    using resolved_cut [OF assms(1,2) refl, of f]
    by (auto simp: callable_ok_def resolved_prim cut_simps simp del: res.simps)
next
  fix ps r assume f: "resolved g f = TFunc ps r" "length args \<le> length ps"
    and args: "list_all2 (\<lambda>p a. compat p (resolved g a)) (take (length args) ps) args"
    and ret: "compat r (resolved g ret)"
  have further: "compat (res h 100 p) (resolved h a)" if "compat p (resolved g a)" for p a
    using compat_cut [OF compat_res [OF that] cut_refl] res_of_res [OF assms(1,2)] by blast
  show ?thesis
  proof (rule callable_okI)
    show "cut (resolved h f) (TFunc (map (res h 100) ps) (res h 100 r))"
      using resolved_cut [OF assms(1,2) f(1)] unfolding resolved_func .
    show "list_all2 (\<lambda>p a. compat p (resolved h a)) (take (length args) (map (res h 100) ps)) args"
      using args further by (simp add: take_map list.rel_map list_all2_mono del: res.simps)
  qed (use f further [OF ret] in \<open>simp_all del: res.simps\<close>)
qed

lemma satisfied_grows:
  assumes "tg_ok g" "tg_grows g h" "constraint_rank c \<noteq> 4" "satisfied r g c"
  shows "satisfied r h c"
proof -
  have num: "numeric_like (resolved g ty) \<Longrightarrow> numeric_like (resolved h ty)" for ty
    using numeric_like_cut [OF resolved_cut [OF assms(1,2) refl]] numeric_like_res by metis
  have bool: "boolean_like (resolved g ty) \<Longrightarrow> boolean_like (resolved h ty)" for ty
    using boolean_like_cut [OF resolved_cut [OF assms(1,2) refl]] boolean_like_res by metis
  show ?thesis
    using assms(3,4) num bool iterable_ok_grows [OF assms(1,2)] callable_ok_grows [OF assms(1,2)]
      compat_resolved_grows [OF assms(1,2)]
    by (cases c) (simp_all del: res.simps)
qed

end
