(* ===== verification/Types_Check.thy ===== *)
theory Types_Check
  imports Types_Unify
begin

text \<open>
  The solver as a whole: it returns on every list of constraints, and when it reports no error every
  constraint holds in the final graph.
\<close>

subsection \<open>The solver\<close>

lemma resolve_step:
  assumes "tg_ok g"
  obtains h where "resolve ty g = Some (resolved g ty, h)" "tg_same g h" "tg_ok h" "resolved h = resolved g"
  using resolve_res [OF assms, of ty] tg_same_ok [of g] tg_same_res [OF assms] assms by metis

lemma solves_same: "tg_ok g \<Longrightarrow> tg_same g h \<Longrightarrow> solves h P m \<Longrightarrow> solves g P m"
  using solves_from tg_same_grows by blast

lemma bind_resolved:
  assumes "tg_ok g" "tg_same g g1" "resolved g ty = TTypeVar v"
  shows "solves g (\<lambda>h. tg_grows g h \<and> tg_binding h v = Some t) (do { g \<leftarrow> tg_bind v t g1; Some (check_ok, g) })"
proof -
  have "tg_root g1 v = v" "tg_binding g1 v = None" "tg_ok g1"
    using res_unbound [OF assms(1), of 101 ty] assms(3) tg_same_root [OF assms(1,2)]
      tg_same_binding [OF assms(1,2)] tg_same_ok [OF assms(2)] assms(1) by auto
  from tg_bind_unbound [OF this(3,1,2), of t] obtain h where
    "tg_bind v t g1 = Some h" "tg_grows g1 h" "tg_binding h v = Some t"
    by blast
  then show ?thesis
    using tg_grows_trans [OF tg_same_grows [OF assms(2)]] by simp
qed

lemma enforce_numeric_solves:
  assumes ok: "tg_ok g"
  shows "solves g (\<lambda>h. numeric_like (resolved h ty)) (enforce_numeric ty g s)"
proof -
  obtain g1 where g1: "resolve ty g = Some (resolved g ty, g1)" "tg_same g g1" "resolved g1 = resolved g"
    using resolve_step [OF ok] by metis
  show ?thesis
  proof (cases "\<exists>v. resolved g ty = TTypeVar v")
    case True
    then obtain v where v: "resolved g ty = TTypeVar v" ..
    have "numeric_like (resolved h ty)" if "tg_grows g h" "tg_binding h v = Some (TPrimitive PFloat)" for h
      by (rule numeric_like_cut [OF resolved_cut_bound [OF ok that(1) v that(2)]])
        (simp only: resolved_prim, simp add: numeric_like_def)
    moreover have "enforce_numeric ty g s =
        do { g \<leftarrow> tg_bind v (TPrimitive PFloat) g1; Some (check_ok, g) }"
      by (simp add: enforce_numeric_def g1(1) v del: res.simps)
    ultimately show ?thesis
      using solves_mono [OF bind_resolved [OF ok g1(2) v]] by (simp only:)
  next
    case False
    then show ?thesis
      using g1 tg_same_grows [OF g1(2)]
      by (auto simp: enforce_numeric_def numeric_like_def simp del: res.simps split: type_id.split)
  qed
qed

lemma enforce_boolean_solves:
  assumes ok: "tg_ok g"
  shows "solves g (\<lambda>h. boolean_like (resolved h ty)) (enforce_boolean ty g s)"
proof -
  obtain g1 where g1: "resolve ty g = Some (resolved g ty, g1)" "tg_same g g1" "resolved g1 = resolved g"
    using resolve_step [OF ok] by metis
  show ?thesis
  proof (cases "\<exists>v. resolved g ty = TTypeVar v")
    case True
    then obtain v where v: "resolved g ty = TTypeVar v" ..
    have "boolean_like (resolved h ty)" if "tg_grows g h" "tg_binding h v = Some (TPrimitive PBool)" for h
      by (rule boolean_like_cut [OF resolved_cut_bound [OF ok that(1) v that(2)]])
        (simp only: resolved_prim, simp add: boolean_like_def)
    moreover have "enforce_boolean ty g s =
        do { g \<leftarrow> tg_bind v (TPrimitive PBool) g1; Some (check_ok, g) }"
      by (simp add: enforce_boolean_def g1(1) v del: res.simps)
    ultimately show ?thesis
      using solves_mono [OF bind_resolved [OF ok g1(2) v]] by (simp only:)
  next
    case False
    then show ?thesis
      using g1 tg_same_grows [OF g1(2)]
      by (auto simp: enforce_boolean_def boolean_like_def simp del: res.simps split: type_id.split)
  qed
qed

lemma solve_iterable_solves:
  assumes ok: "tg_ok g"
  shows "solves g (\<lambda>h. iterable_ok h container elem) (solve_iterable container elem g s)"
proof -
  obtain g1 where g1: "resolve container g = Some (resolved g container, g1)" "tg_same g g1" "tg_ok g1"
      "resolved g1 = resolved g"
    using resolve_step [OF ok] by metis
  have whole: "solves g (\<lambda>h. iterable_ok h container elem) (unify container (TList elem) g1 s)"
    by (rule solves_same [OF ok g1(2)], rule solves_mono [OF unify_solves [OF g1(3)]])
      (simp add: iterable_ok_def del: res.simps)
  have key: "solves g (\<lambda>h. iterable_ok h container elem) (unify elem k g1 s)"
    if "resolved g container = TMap k v" for k v
  proof (rule solves_same [OF ok g1(2)], rule solves_mono [OF unify_solves [OF g1(3)]])
    fix h assume h: "tg_grows g1 h" "agree elem k h"
    have gh: "tg_grows g h"
      using h(1) tg_same_grows [OF g1(2)] tg_grows_trans by blast
    show "iterable_ok h container elem"
      using resolved_cut [OF ok gh that] compat_cut [OF h(2) cut_refl res_cut_mono [of 100]]
      unfolding resolved_map by (intro iterable_okI) simp_all
  qed
  have wild: "solves g (\<lambda>h. iterable_ok h container elem) (unify elem t g1 s)"
    if t: "resolved g container = t" "t = TAny \<or> t = TUnknown" for t
  proof (rule solves_same [OF ok g1(2)], rule solves_mono [OF unify_solves [OF g1(3)]])
    fix h assume h: "tg_grows g1 h"
    have gh: "tg_grows g h"
      using h tg_same_grows [OF g1(2)] tg_grows_trans by blast
    have "resolved h container = TAny \<or> resolved h container = TUnknown"
      using resolved_cut [OF ok gh t(1)] t(2) by (auto simp: resolved_prim cut_simps simp del: res.simps)
    then show "iterable_ok h container elem"
      by (auto simp: iterable_ok_def compat_any_l compat_unknown_l simp del: res.simps)
  qed
  show ?thesis
    using key whole wild
    by (auto simp: solve_iterable_def g1(1) simp del: res.simps split: type_id.split)
qed

lemma solve_callable_solves:
  assumes ok: "tg_ok g"
  shows "solves g (\<lambda>h. callable_ok h func args ret) (solve_callable func args ret g s)"
proof -
  obtain g1 where g1: "resolve func g = Some (resolved g func, g1)" "tg_same g g1" "tg_ok g1"
      "resolved g1 = resolved g"
    using resolve_step [OF ok] by metis
  have to_g: "tg_grows g h" if "tg_grows g1 h" for h
    using that tg_same_grows [OF g1(2)] tg_grows_trans by blast
  have each: "solves g (\<lambda>h. callable_ok h func args ret)
      (do { (es, g) \<leftarrow> tg_each (\<lambda>p g. unify (fst p) (snd p) g s) (zip ps args @ [(r, ret)]) g1;
         Some (first_error es, g) })"
    if f: "resolved g func = TFunc ps r" and len: "length args \<le> length ps" for ps r
  proof (rule solves_same [OF ok g1(2)], rule solves_mono [OF solves_each])
    show "\<exists>es i. tg_each (\<lambda>p g. unify (fst p) (snd p) g s) (zip ps args @ [(r, ret)]) g1 = Some (es, i) \<and>
        tg_grows g1 i \<and> (es = [] \<longrightarrow> (\<forall>p\<in>set (zip ps args @ [(r, ret)]). agree (fst p) (snd p) i))"
    proof (rule tg_each_solves [of _ g1 "\<lambda>p. agree (fst p) (snd p)"])
      show "solves h (agree (fst p) (snd p)) (unify (fst p) (snd p) h s)" if "tg_grows g1 h" for p h
        using unify_solves tg_grows_ok [OF that] g1(3) by simp
      show "agree (fst p) (snd p) i" if "agree (fst p) (snd p) h" "tg_grows g1 h" "tg_grows h i" for p h i
        using compat_resolved_grows [OF _ that(3,1)] tg_grows_ok [OF that(2)] g1(3) by simp
    qed simp
    fix h assume h: "tg_grows g1 h" "\<forall>p\<in>set (zip ps args @ [(r, ret)]). agree (fst p) (snd p) h"
    have part: "compat (res h 100 p) (resolved h a)" if "(p, a) \<in> set (zip ps args @ [(r, ret)])" for p a
      using h(2) that compat_cut_l [OF _ res_cut_mono] by fastforce
    show "callable_ok h func args ret"
    proof (rule callable_okI)
      show "cut (resolved h func) (TFunc (map (res h 100) ps) (res h 100 r))"
        using resolved_cut [OF ok to_g [OF h(1)] f] unfolding resolved_func .
      have "(p, a) \<in> set (zip (take (length args) ps) args) \<Longrightarrow> (p, a) \<in> set (zip ps args)" for p a
        by (metis length_take set_take_subset subsetD take_all_iff take_zip order_refl)
      then show "list_all2 (\<lambda>p a. compat p (resolved h a)) (take (length args) (map (res h 100) ps)) args"
        using len part by (auto simp: take_map list.rel_map simp del: res.simps intro!: list_all2_zip)
    qed (use len part [of r ret] in \<open>simp_all del: res.simps\<close>)
  qed
  have var: "solves g (\<lambda>h. callable_ok h func args ret)
      (do { g \<leftarrow> tg_bind v (TFunc args ret) g1; Some (check_ok, g) })"
    if v: "resolved g func = TTypeVar v" for v
  proof (rule solves_mono [OF bind_resolved [OF ok g1(2) v]], elim conjE)
    fix h assume h: "tg_grows g h" "tg_binding h v = Some (TFunc args ret)"
    have "res h 100 (TFunc args ret) = TFunc (map (res h 99) args) (res h 99 ret)"
      using res.simps(2) [of h 99] by simp
    then have "cut (resolved h func) (TFunc (map (res h 99) args) (res h 99 ret))"
      using resolved_cut_bound [OF ok h(1) v h(2)] by (simp only:)
    then show "callable_ok h func args ret"
      by (rule callable_okI) (simp_all add: list.rel_map list_all2_same compat_res_refl del: res.simps)
  qed
  have wild: "callable_ok g1 func args ret" if "resolved g func \<in> {TUnknown, TAny}"
    using that by (simp add: callable_ok_def g1(4) del: res.simps)
  show ?thesis
    using each var wild tg_same_grows [OF g1(2)]
    by (auto simp: solve_callable_def g1(1) simp del: res.simps split: type_id.split)
qed

lemma solve_constraint_solves: "tg_ok g \<Longrightarrow> solves g (\<lambda>h. satisfied r h c) (solve_constraint r c g)"
proof (cases c)
  case (HasTrait ty t s)
  assume ok: "tg_ok g"
  obtain g1 where g1: "resolve ty g = Some (resolved g ty, g1)" "tg_same g g1" "resolved g1 = resolved g"
    using resolve_step [OF ok] by metis
  then show ?thesis
    using HasTrait tg_same_grows [OF g1(2)] by (simp del: res.simps)
qed (simp_all only: satisfied.simps solve_constraint.simps unify_solves enforce_numeric_solves
    enforce_boolean_solves solve_iterable_solves solve_callable_solves)

lemma solve_constraint_trait_same:
  assumes "tg_ok g" "constraint_rank c = 4" "solve_constraint r c g = Some (x, h)"
  shows "tg_same g h"
proof (cases c)
  case (HasTrait ty t s)
  obtain g1 where "resolve ty g = Some (resolved g ty, g1)" "tg_same g g1"
    using resolve_step [OF assms(1)] by metis
  with HasTrait assms(3) show ?thesis by (simp del: res.simps)
qed (use assms(2) in simp_all)

lemma solve_list:
  "tg_ok g \<Longrightarrow> sorted (map constraint_rank cs) \<Longrightarrow>
   \<exists>es h. tg_each (solve_constraint r) cs g = Some (es, h) \<and> tg_grows g h \<and>
     (es = [] \<longrightarrow> (\<forall>c\<in>set cs. satisfied r h c)) \<and> ((\<forall>c\<in>set cs. constraint_rank c = 4) \<longrightarrow> tg_same g h)"
proof (induction cs arbitrary: g)
  case (Cons c cs)
  obtain x g1 where g1: "solve_constraint r c g = Some (x, g1)" "tg_grows g g1"
      "x = check_ok \<longrightarrow> satisfied r g1 c"
    using solve_constraint_solves [OF Cons.prems(1), of r c] by (auto simp: solves_def)
  have ok1: "tg_ok g1"
    using g1(2) Cons.prems(1) tg_grows_ok by blast
  obtain es h where h: "tg_each (solve_constraint r) cs g1 = Some (es, h)" "tg_grows g1 h"
      "es = [] \<longrightarrow> (\<forall>c\<in>set cs. satisfied r h c)" "(\<forall>c\<in>set cs. constraint_rank c = 4) \<longrightarrow> tg_same g1 h"
    using Cons.IH [OF ok1] Cons.prems(2) by auto
  have "satisfied r h c" if "x = check_ok"
  proof (cases "constraint_rank c = 4")
    case True
    have "constraint_rank d = 4" if "d \<in> set cs" for d
      using Cons.prems(2) True that by (cases d) fastforce+
    then show ?thesis
      using satisfied_same [OF ok1] h(4) g1(3) that by blast
  next
    case False
    then show ?thesis
      using satisfied_grows [OF ok1 h(2)] g1(3) that by blast
  qed
  moreover have "tg_same g h" if "\<forall>d\<in>set (c # cs). constraint_rank d = 4"
    using solve_constraint_trait_same [OF Cons.prems(1) _ g1(1)] h(4) that tg_same_trans by auto
  ultimately show ?case
    using g1 h tg_grows_trans by (auto split: sum.splits)
qed simp

lemma sorted_insert_error:
  "sorted_wrt (\<lambda>a b. span_le (te_span a) (te_span b)) es \<Longrightarrow>
   sorted_wrt (\<lambda>a b. span_le (te_span a) (te_span b)) (insert_error e es) \<and>
   set (insert_error e es) = insert e (set es)"
  by (induction es) (auto simp: span_le_def)

lemma sorted_sort_errors:
  "sorted_wrt (\<lambda>a b. span_le (te_span a) (te_span b)) (sort_errors es) \<and> set (sort_errors es) = set es"
  unfolding sort_errors_def by (induction es) (simp_all add: sorted_insert_error)

text \<open>
  C20: the solver returns on every list of constraints, with success or with a non-empty list of errors
  in the order of their source positions, and leaves a graph in which every variable still has a root
  and every binding made before it is still there.
\<close>

theorem solve_constraints_returns:
  assumes "tg_ok g"
  shows "\<exists>result h. solve_constraints cs g r = Some (result, h) \<and> tg_ok h \<and> tg_grows g h \<and>
    (case result of Inr _ \<Rightarrow> True
     | Inl errors \<Rightarrow> errors \<noteq> [] \<and> sorted_wrt (\<lambda>a b. span_le (te_span a) (te_span b)) errors)"
proof -
  obtain es h where h: "tg_each (solve_constraint r) (sort_key constraint_rank cs) g = Some (es, h)" "tg_grows g h"
    using solve_list [OF assms, of "sort_key constraint_rank cs" r] by auto
  have "sort_errors es \<noteq> []" if "es \<noteq> []"
    using sorted_sort_errors [of es] that by (metis set_empty)
  then show ?thesis
    using h sorted_sort_errors tg_grows_ok [OF h(2)] assms by (simp add: solve_constraints_def)
qed

text \<open>
  C6: when the solver reports no error, every constraint it was given holds of the types as the final
  graph resolves them: equated types agree, numeric and boolean ones are, an iterated type yields
  elements of the required type, a call has no more arguments than the function has parameters, with
  agreeing types, and the required traits are implemented.
\<close>

theorem solve_constraints_sound:
  assumes "tg_ok g" "solve_constraints cs g r = Some (Inr (), h)" "c \<in> set cs"
  shows "satisfied r h c"
proof -
  obtain es i where i: "tg_each (solve_constraint r) (sort_key constraint_rank cs) g = Some (es, i)"
      "es = [] \<longrightarrow> (\<forall>c\<in>set (sort_key constraint_rank cs). satisfied r i c)"
    using solve_list [OF assms(1), of "sort_key constraint_rank cs" r] by auto
  have "es = [] \<and> i = h"
    using assms(2) i(1) by (auto simp: solve_constraints_def split: if_splits)
  then show ?thesis
    using i(2) assms(3) by simp
qed

subsection \<open>Examples\<close>

lemmas solver_simps = tg_find_no_parents resolve_def resolve_inner.simps tg_get_binding_def tg_bind_def
  unify_trivial_def type_var_arm_def unify_parts_def unify_var_def first_error_def type_graph_new_def

definition sample_constraints :: constraint_set where
  "sample_constraints =
     [HasTrait (TTypeVar (TypeVarId 0)) (rs ''Numeric'') (span_new 9 10),
      EqualAt (TList (TTypeVar (TypeVarId 0))) (TList (TPrimitive PInt)) (span_new 0 4)]"

theorem solve_constraints_returns_witness:
  "\<exists>result h. solve_constraints sample_constraints type_graph_new trait_registry_new = Some (result, h) \<and> tg_ok h"
  using solve_constraints_returns [of type_graph_new sample_constraints trait_registry_new]
    tg_ok_no_parents [of type_graph_new] by (auto simp: type_graph_new_def)

lemma sort_sample:
  "sort_key constraint_rank sample_constraints = rev sample_constraints"
  by (simp add: sample_constraints_def sort_key_def)

lemma solve_sample:
  "solve_constraints sample_constraints type_graph_new trait_registry_new = Some (Inr (), sample_graph)"
proof -
  have occ: "occurs (TypeVarId 0) (TPrimitive PInt) g = Some (False, g)" for g
    by (subst occurs.simps) (simp add: solver_simps)
  have inner: "unify (TTypeVar (TypeVarId 0)) (TPrimitive PInt) type_graph_new s = Some (check_ok, sample_graph)" for s
    by (subst unify.simps) (simp add: solver_simps occ sample_graph_def)
  have eq: "unify (TList (TTypeVar (TypeVarId 0))) (TList (TPrimitive PInt)) type_graph_new s =
      Some (check_ok, sample_graph)" for s
    using inner [of s] by (subst unify.simps) (simp add: solver_simps)
  have "resolve (TTypeVar (TypeVarId 0)) sample_graph = Some (TPrimitive PInt, sample_graph)"
    by (simp add: solver_simps sample_graph_def)
  then show ?thesis
    unfolding solve_constraints_def sort_sample
    by (simp add: sample_constraints_def eq check_trait_def primitive_implements_trait_def rs_def)
qed

theorem solve_constraints_sound_witness:
  "satisfied trait_registry_new sample_graph
     (EqualAt (TList (TTypeVar (TypeVarId 0))) (TList (TPrimitive PInt)) (span_new 0 4))"
proof (rule solve_constraints_sound)
  show "tg_ok type_graph_new"
    by (rule tg_ok_no_parents) (simp add: type_graph_new_def)
  show "solve_constraints sample_constraints type_graph_new trait_registry_new = Some (Inr (), sample_graph)"
    by (rule solve_sample)
qed (simp add: sample_constraints_def)

text \<open>
  A constraint set of the kind the checker emits for \<open>f(f)\<close>: no occurs check is made when a variable
  is used as a function, so the variable is bound to a type that contains it.
\<close>

lemma callable_binds_itself:
  "solve_constraints [Callable (TTypeVar (TypeVarId 0)) [TTypeVar (TypeVarId 0)] (TPrimitive PInt)]
     type_graph_new trait_registry_new = Some (Inr (), type_graph_new\<lparr> tg_repr :=
       [(TypeVarId 0, TFunc [TTypeVar (TypeVarId 0)] (TPrimitive PInt))] \<rparr>)"
  by (simp add: solve_constraints_def solve_callable_def solver_simps)

end
