(* ===== verification/Runtime_Map.thy ===== *)
theory Runtime_Map
  imports Coral_Prelude "HOL-Library.Monad_Syntax"
begin

text \<open>
  The hash map of the runtime (\<open>src/runtime/src/lib.rs\<close>, \<open>src/runtime/src/map_ops.rs\<close>): open addressing
  with linear probing, Robin Hood displacement and tombstones. A handle is a value or null; reference
  counts are not part of this model. \<open>DefaultHasher\<close>, whose algorithm the standard library leaves
  open, is the parameter \<open>sip\<close>, a function of the bytes written to it. \<open>u16\<close> arithmetic wraps.
\<close>

subsection \<open>Values as keys\<close>

text \<open>
  The values a key can be compared and hashed by: their contents, the number of an actor, or for
  the other kinds (tag and address) their identity. Map values as keys are not modelled.
\<close>

datatype rval =
    RNumber u64
  | RBool u8
  | RString bytes
  | RBytes bytes
  | RUnit
  | RList "rval option list"
  | RActor u64
  | ROpaque u8 u64

type_synonym handle = "rval option"

fun rval_tag :: "rval \<Rightarrow> u8" where
  "rval_tag (RNumber _) = 0"
| "rval_tag (RBool _) = 1"
| "rval_tag (RString _) = 2"
| "rval_tag (RList _) = 3"
| "rval_tag (RActor _) = 6"
| "rval_tag RUnit = 7"
| "rval_tag (RBytes _) = 9"
| "rval_tag (ROpaque t _) = t"

lemma size_item: "x \<in> set xs \<Longrightarrow> size_option size x < Suc (Suc (size_list (size_option size) xs))"
  by (induction xs) auto

function values_equal_handles :: "handle \<Rightarrow> handle \<Rightarrow> bool" where
  "values_equal_handles a b =
     (case (a, b) of
        (Some (RNumber x), Some (RNumber y)) \<Rightarrow> x = y
      | (Some (RBool x), Some (RBool y)) \<Rightarrow> x = y
      | (Some (RString x), Some (RString y)) \<Rightarrow> x = y
      | (Some (RBytes x), Some (RBytes y)) \<Rightarrow> x = y
      | (Some RUnit, Some RUnit) \<Rightarrow> True
      | (Some (RList xs), Some (RList ys)) \<Rightarrow>
          length xs = length ys \<and> list_all (\<lambda>(x, y). values_equal_handles x y) (zip xs ys)
      | (Some (RActor x), Some (RActor y)) \<Rightarrow> x = y
      | (Some (ROpaque t x), Some (ROpaque u y)) \<Rightarrow> t = u \<and> x = y
      | _ \<Rightarrow> False)"
  by pat_completeness auto
termination
proof (relation "measure (\<lambda>(a, b). size_option size a)", goal_cases)
  case (2 a b)
  then show ?case
    by (auto dest!: set_zip_leftD intro: size_item)
qed simp

function hash_value :: "(bytes \<Rightarrow> u64) \<Rightarrow> handle \<Rightarrow> u64" where
  "hash_value sip h =
     (case h of
        None \<Rightarrow> 0
      | Some v \<Rightarrow> sip (rval_tag v # (case v of
          RNumber bits \<Rightarrow> to_le 8 bits
        | RBool b \<Rightarrow> [b]
        | RString bs \<Rightarrow> to_le 8 (of_nat (length bs) :: u64) @ bs
        | RBytes bs \<Rightarrow> to_le 8 (of_nat (length bs) :: u64) @ bs
        | RList items \<Rightarrow> to_le 8 (of_nat (length items) :: u64) @
            concat (map (\<lambda>i. to_le 8 (hash_value sip i)) items)
        | RActor n \<Rightarrow> to_le 8 n
        | RUnit \<Rightarrow> to_le 8 (0 :: u64)
        | ROpaque _ addr \<Rightarrow> to_le 8 addr)))"
  by pat_completeness auto
termination
proof (relation "measure (\<lambda>(sip, h). size_option size h)", goal_cases)
  case 2
  then show ?case
    by (auto intro: size_item)
qed simp

declare values_equal_handles.simps [simp del] hash_value.simps [simp del]

subsection \<open>Buckets\<close>

datatype bucket_state = BEmpty | BTombstone | BOccupied

record map_bucket =
  mb_state :: bucket_state
  mb_hash :: u64
  mb_probe_dist :: "16 word"
  mb_key :: handle
  mb_value :: handle

definition bucket_default :: map_bucket where
  "bucket_default = \<lparr> mb_state = BEmpty, mb_hash = 0, mb_probe_dist = 0, mb_key = None, mb_value = None \<rparr>"

definition bucket_occupied :: "u64 \<Rightarrow> 16 word \<Rightarrow> handle \<Rightarrow> handle \<Rightarrow> map_bucket" where
  "bucket_occupied hash dist key value =
     \<lparr> mb_state = BOccupied, mb_hash = hash, mb_probe_dist = dist, mb_key = key, mb_value = value \<rparr>"

record map_object =
  mo_buckets :: "map_bucket list"
  mo_len :: nat
  mo_tombstones :: nat

definition map_bucket_index :: "nat \<Rightarrow> u64 \<Rightarrow> nat" where
  "map_bucket_index capacity hash = unat hash AND (capacity - 1)"

definition map_should_grow :: "nat \<Rightarrow> nat \<Rightarrow> nat \<Rightarrow> bool" where
  "map_should_grow len tombstones capacity \<longleftrightarrow> (len + tombstones) * 10 \<ge> capacity * 7"

text \<open>The inner loop of \<open>map_rehash\<close>: one bucket of the old table into the new one.\<close>

partial_function (option) rehash_bucket ::
    "u64 \<Rightarrow> handle \<Rightarrow> handle \<Rightarrow> nat \<Rightarrow> 16 word \<Rightarrow> map_bucket list \<Rightarrow> map_bucket list option" where
  "rehash_bucket hash key value idx dist buckets =
     (let slot = buckets ! idx; next = (idx + 1) AND (length buckets - 1) in
      if mb_state slot = BEmpty then Some (buckets[idx := bucket_occupied hash dist key value])
      else if mb_probe_dist slot < dist then
        rehash_bucket (mb_hash slot) (mb_key slot) (mb_value slot) next (mb_probe_dist slot + 1)
          (buckets[idx := bucket_occupied hash dist key value])
      else rehash_bucket hash key value next (dist + 1) buckets)"

fun rehash_buckets :: "map_bucket list \<Rightarrow> map_bucket list \<Rightarrow> map_bucket list option" where
  "rehash_buckets [] new_buckets = Some new_buckets"
| "rehash_buckets (b # bs) new_buckets =
     (if mb_state b \<noteq> BOccupied then rehash_buckets bs new_buckets
      else do {
        new_buckets \<leftarrow> rehash_bucket (mb_hash b) (mb_key b) (mb_value b)
          (map_bucket_index (length new_buckets) (mb_hash b)) 0 new_buckets;
        rehash_buckets bs new_buckets
      })"

definition map_rehash :: "map_object \<Rightarrow> map_object option" where
  "map_rehash m = do {
     let new_capacity = max (length (mo_buckets m) * 2) 8;
     new_buckets \<leftarrow> rehash_buckets (mo_buckets m) (replicate new_capacity bucket_default);
     Some (m\<lparr> mo_buckets := new_buckets, mo_tombstones := 0 \<rparr>)
   }"

text \<open>
  The loop of \<open>map_insert\<close>. It carries the entry still to be placed, which is the new one until it
  has displaced another; the value stored on a match is the new one in either case.
\<close>

partial_function (option) map_insert_loop ::
    "handle \<Rightarrow> u64 \<Rightarrow> handle \<Rightarrow> handle \<Rightarrow> nat \<Rightarrow> 16 word \<Rightarrow> map_object \<Rightarrow> (handle option \<times> map_object) option" where
  "map_insert_loop value cur_hash cur_key cur_value idx dist m =
     (let bucket = mo_buckets m ! idx; next = (idx + 1) AND (length (mo_buckets m) - 1) in
      if mb_state bucket \<noteq> BOccupied then
        Some (None, m\<lparr> mo_buckets := (mo_buckets m)[idx := bucket_occupied cur_hash dist cur_key cur_value],
          mo_len := mo_len m + 1,
          mo_tombstones := (if mb_state bucket = BTombstone then mo_tombstones m - 1 else mo_tombstones m) \<rparr>)
      else if mb_hash bucket = cur_hash \<and> values_equal_handles (mb_key bucket) cur_key then
        Some (Some (mb_value bucket), m\<lparr> mo_buckets := (mo_buckets m)[idx := bucket\<lparr> mb_value := value \<rparr>] \<rparr>)
      else if mb_probe_dist bucket < dist then
        map_insert_loop value (mb_hash bucket) (mb_key bucket) (mb_value bucket) next (mb_probe_dist bucket + 1)
          (m\<lparr> mo_buckets := (mo_buckets m)[idx := bucket_occupied cur_hash dist cur_key cur_value] \<rparr>)
      else map_insert_loop value cur_hash cur_key cur_value next (dist + 1) m)"

definition map_insert ::
    "(bytes \<Rightarrow> u64) \<Rightarrow> handle \<Rightarrow> handle \<Rightarrow> map_object \<Rightarrow> (handle option \<times> map_object) option" where
  "map_insert sip key value m =
     (if key = None \<or> value = None then Some (None, m)
      else do {
        let m = (if mo_buckets m = [] then m\<lparr> mo_buckets := replicate 8 bucket_default \<rparr> else m);
        m \<leftarrow> (if map_should_grow (mo_len m) (mo_tombstones m) (length (mo_buckets m)) then map_rehash m
             else Some m);
        let hash = hash_value sip key;
        map_insert_loop value hash key value (map_bucket_index (length (mo_buckets m)) hash) 0 m
      })"

partial_function (option) map_get_loop ::
    "u64 \<Rightarrow> handle \<Rightarrow> nat \<Rightarrow> 16 word \<Rightarrow> map_bucket list \<Rightarrow> map_bucket option option" where
  "map_get_loop hash key idx dist buckets =
     (let bucket = buckets ! idx; next = (idx + 1) AND (length buckets - 1) in
      case mb_state bucket of
        BEmpty \<Rightarrow> Some None
      | BOccupied \<Rightarrow>
          if mb_probe_dist bucket < dist then Some None
          else if mb_hash bucket = hash \<and> values_equal_handles (mb_key bucket) key then Some (Some bucket)
          else map_get_loop hash key next (dist + 1) buckets
      | BTombstone \<Rightarrow> map_get_loop hash key next (dist + 1) buckets)"

definition map_get_entry :: "(bytes \<Rightarrow> u64) \<Rightarrow> map_object \<Rightarrow> handle \<Rightarrow> map_bucket option option" where
  "map_get_entry sip m key =
     (if key = None \<or> mo_buckets m = [] then Some None
      else let hash = hash_value sip key in
        map_get_loop hash key (map_bucket_index (length (mo_buckets m)) hash) 0 (mo_buckets m))"

text \<open>\<open>for _ in 0..capacity\<close>: the number of turns left is the first argument.\<close>

fun map_remove_loop :: "nat \<Rightarrow> u64 \<Rightarrow> handle \<Rightarrow> nat \<Rightarrow> map_object \<Rightarrow> map_object" where
  "map_remove_loop 0 hash key idx m = m"
| "map_remove_loop (Suc n) hash key idx m =
     (let bucket = mo_buckets m ! idx; next = (idx + 1) AND (length (mo_buckets m) - 1) in
      case mb_state bucket of
        BEmpty \<Rightarrow> m
      | BOccupied \<Rightarrow>
          if mb_hash bucket = hash \<and> values_equal_handles (mb_key bucket) key then
            m\<lparr> mo_buckets := (mo_buckets m)[idx := bucket\<lparr> mb_state := BTombstone, mb_key := None, mb_value := None \<rparr>],
               mo_len := mo_len m - 1, mo_tombstones := mo_tombstones m + 1 \<rparr>
          else map_remove_loop n hash key next m
      | BTombstone \<Rightarrow> map_remove_loop n hash key next m)"

definition coral_map_remove :: "(bytes \<Rightarrow> u64) \<Rightarrow> handle \<Rightarrow> map_object \<Rightarrow> map_object" where
  "coral_map_remove sip key m =
     (if key = None \<or> mo_buckets m = [] then m
      else let hash = hash_value sip key; capacity = length (mo_buckets m) in
        map_remove_loop capacity hash key (map_bucket_index capacity hash) m)"

text \<open>\<open>usize::next_power_of_two\<close>: the least power of two that is not smaller, 1 for 0.\<close>

fun power_from :: "nat \<Rightarrow> nat \<Rightarrow> nat \<Rightarrow> nat" where
  "power_from 0 p n = p"
| "power_from (Suc fuel) p n = (if n \<le> p then p else power_from fuel (2 * p) n)"

definition next_power_of_two :: "nat \<Rightarrow> nat" where
  "next_power_of_two n = power_from 64 1 n"

fun alloc_entries :: "(bytes \<Rightarrow> u64) \<Rightarrow> (handle \<times> handle) list \<Rightarrow> map_object \<Rightarrow> map_object option" where
  "alloc_entries sip [] m = Some m"
| "alloc_entries sip ((key, value) # entries) m =
     (if key = None \<or> value = None then alloc_entries sip entries m
      else do {
        (_, m) \<leftarrow> map_insert sip key value m;
        alloc_entries sip entries m
      })"

definition alloc_map :: "(bytes \<Rightarrow> u64) \<Rightarrow> (handle \<times> handle) list \<Rightarrow> map_object option" where
  "alloc_map sip entries =
     (let capacity = max (next_power_of_two (length entries)) 8 in
      alloc_entries sip entries \<lparr> mo_buckets = replicate capacity bucket_default, mo_len = 0, mo_tombstones = 0 \<rparr>)"

subsection \<open>The operations of the language\<close>

text \<open>A read yields a handle of its own, or \<open>absent\<close>, a unit value.\<close>

definition coral_map_get :: "(bytes \<Rightarrow> u64) \<Rightarrow> map_object \<Rightarrow> handle \<Rightarrow> handle option" where
  "coral_map_get sip m key =
     (if key = None then Some (Some RUnit)
      else do {
        entry \<leftarrow> map_get_entry sip m key;
        Some (case entry of None \<Rightarrow> Some RUnit
          | Some bucket \<Rightarrow> (case mb_value bucket of None \<Rightarrow> Some RUnit | Some v \<Rightarrow> Some v))
      })"

definition coral_map_set ::
    "(bytes \<Rightarrow> u64) \<Rightarrow> bool \<Rightarrow> handle \<Rightarrow> handle \<Rightarrow> map_object \<Rightarrow> map_object option" where
  "coral_map_set sip frozen key value m =
     (if key = None \<or> value = None then Some m
      else if frozen then Some m
      else do {
        (replaced, m) \<leftarrow> map_insert sip key value m;
        Some m
      })"

definition coral_map_keys :: "map_object \<Rightarrow> handle list" where
  "coral_map_keys m = map mb_key (filter (\<lambda>b. mb_state b = BOccupied \<and> mb_key b \<noteq> None) (mo_buckets m))"

definition coral_map_values :: "map_object \<Rightarrow> handle list" where
  "coral_map_values m = map mb_value (filter (\<lambda>b. mb_state b = BOccupied \<and> mb_value b \<noteq> None) (mo_buckets m))"

definition coral_map_entries :: "map_object \<Rightarrow> (handle \<times> handle) list" where
  "coral_map_entries m = map (\<lambda>b. (mb_key b, mb_value b))
     (filter (\<lambda>b. mb_state b = BOccupied \<and> mb_key b \<noteq> None \<and> mb_value b \<noteq> None) (mo_buckets m))"

definition coral_map_length :: "map_object \<Rightarrow> nat" where
  "coral_map_length m = mo_len m"

definition coral_map_has_key :: "(bytes \<Rightarrow> u64) \<Rightarrow> map_object \<Rightarrow> handle \<Rightarrow> bool option" where
  "coral_map_has_key sip m key =
     (if key = None then Some False
      else do {
        result \<leftarrow> coral_map_get sip m key;
        Some (result \<noteq> None \<and> result \<noteq> Some RUnit)
      })"

fun merge_buckets :: "(bytes \<Rightarrow> u64) \<Rightarrow> map_bucket list \<Rightarrow> map_object \<Rightarrow> map_object option" where
  "merge_buckets sip [] m = Some m"
| "merge_buckets sip (b # bs) m =
     (if mb_state b = BOccupied \<and> mb_key b \<noteq> None then do {
        m \<leftarrow> coral_map_set sip False (mb_key b) (mb_value b) m;
        merge_buckets sip bs m
      } else merge_buckets sip bs m)"

definition coral_map_merge :: "(bytes \<Rightarrow> u64) \<Rightarrow> map_object \<Rightarrow> map_object \<Rightarrow> map_object option" where
  "coral_map_merge sip a b = do {
     m \<leftarrow> alloc_map sip [];
     m \<leftarrow> merge_buckets sip (mo_buckets a) m;
     merge_buckets sip (mo_buckets b) m
   }"

record map_iter =
  mi_buckets :: "map_bucket list"
  mi_index :: nat

definition map_iter_snapshot :: "map_object \<Rightarrow> map_iter" where
  "map_iter_snapshot m = \<lparr> mi_buckets = mo_buckets m, mi_index = 0 \<rparr>"

function coral_map_iter_next :: "map_iter \<Rightarrow> handle \<times> map_iter" where
  "coral_map_iter_next it =
     (if mi_index it < length (mi_buckets it) then
        (let idx = mi_index it; it = it\<lparr> mi_index := mi_index it + 1 \<rparr>; bucket = mi_buckets it ! idx in
         if mb_state bucket = BOccupied \<and> mb_key bucket \<noteq> None \<and> mb_value bucket \<noteq> None
         then (mb_key bucket, it) else coral_map_iter_next it)
      else (Some RUnit, it))"
  by pat_completeness auto
termination
  by (relation "measure (\<lambda>it. length (mi_buckets it) - mi_index it)") auto

declare coral_map_iter_next.simps [simp del]

end
