(* ===== verification/Runtime_MapInv.thy ===== *)
theory Runtime_MapInv
  imports Runtime_Map
begin

text \<open>
  The Robin Hood order of a table without tombstones, what one step of a probe does to it, and that the
  loops of insertion, rehashing and lookup end and find their slot.
\<close>

subsection \<open>Keys\<close>

text \<open>A value without a null inside: equality of such values is that of their contents.\<close>

function rval_ok :: "handle \<Rightarrow> bool" where
  "rval_ok h = (case h of None \<Rightarrow> False | Some (RList items) \<Rightarrow> (\<forall>i\<in>set items. rval_ok i) | Some _ \<Rightarrow> True)"
  by pat_completeness auto
termination
  by (relation "measure (size_option size)") (auto intro: size_item)

declare rval_ok.simps [simp del]

lemma rval_ok_simps [simp]:
  "\<not> rval_ok None" "rval_ok (Some (RNumber n))" "rval_ok (Some (RBool b))" "rval_ok (Some (RString s))"
  "rval_ok (Some (RBytes s))" "rval_ok (Some RUnit)" "rval_ok (Some (RActor n))" "rval_ok (Some (ROpaque t n))"
  "rval_ok (Some (RList items)) = (\<forall>i\<in>set items. rval_ok i)"
  by (subst rval_ok.simps; simp)+

lemma rval_ok_not_None: "rval_ok k \<Longrightarrow> k \<noteq> None"
  by (cases k) simp_all

lemma values_equal_eq: "values_equal_handles a b \<Longrightarrow> a = b"
proof (induction a b rule: values_equal_handles.induct)
  case (1 a b)
  have list: "xs = ys" if "length xs = length ys" "list_all (\<lambda>(x, y). values_equal_handles x y) (zip xs ys)"
      "a = Some (RList xs)" "b = Some (RList ys)" for xs ys
  proof -
    have "x = y" if "(x, y) \<in> set (zip xs ys)" for x y
      using "1.IH" that \<open>length xs = length ys\<close> \<open>list_all _ _\<close> \<open>a = _\<close> \<open>b = _\<close> by (fastforce simp: list_all_iff)
    with \<open>length xs = length ys\<close> show ?thesis
      by (auto simp: list_eq_iff_zip_eq)
  qed
  from "1.prems" show ?case
    by (subst (asm) values_equal_handles.simps) (auto split: option.splits rval.splits dest: list)
qed

lemma values_equal_refl: "rval_ok a \<Longrightarrow> values_equal_handles a a"
proof (induction a rule: rval_ok.induct)
  case (1 h)
  then show ?case
    by (subst values_equal_handles.simps)
      (cases h, auto split: rval.splits simp: list_all_iff zip_same_conv_map)
qed

lemma values_equal_iff: "rval_ok a \<Longrightarrow> values_equal_handles a b \<longleftrightarrow> a = b"
  using values_equal_eq values_equal_refl by blast

subsection \<open>Slots\<close>

definition tb_shape :: "map_bucket list \<Rightarrow> bool" where
  "tb_shape tb \<longleftrightarrow> (\<exists>k. length tb = 2 ^ k \<and> 3 \<le> k \<and> k \<le> 16)"

lemma tb_shape_update [simp]: "tb_shape (tb[i := b]) = tb_shape tb"
  by (simp add: tb_shape_def)

lemma tb_shape_len: "tb_shape tb \<Longrightarrow> 8 \<le> length tb \<and> length tb \<le> 65536"
proof -
  assume "tb_shape tb"
  then obtain k where k: "length tb = 2 ^ k" "3 \<le> k" "k \<le> 16"
    unfolding tb_shape_def by blast
  have "(2::nat) ^ 3 \<le> 2 ^ k" "(2::nat) ^ k \<le> 2 ^ 16"
    using k(2,3) by (simp_all only: power_increasing one_le_numeral)
  then show ?thesis
    using k(1) by simp
qed

lemma mask_mod: "tb_shape tb \<Longrightarrow> n AND (length tb - 1) = n mod length tb"
proof -
  assume "tb_shape tb"
  then obtain k where k: "length tb = 2 ^ k"
    unfolding tb_shape_def by blast
  have "n AND (2 ^ k - 1) = n AND mask k"
    by (simp only: mask_eq_exp_minus_1)
  also have "\<dots> = n mod 2 ^ k"
    by (simp only: take_bit_eq_mask [symmetric] take_bit_eq_mod)
  finally show ?thesis
    by (simp only: k)
qed

lemma slot_next: "tb_shape tb \<Longrightarrow> ((s + d) mod length tb + 1) AND (length tb - 1) = (s + Suc d) mod length tb"
  by (simp only: mask_mod) (simp add: mod_Suc_eq)

lemma bucket_index_mod: "tb_shape tb \<Longrightarrow> map_bucket_index (length tb) h = unat h mod length tb"
  by (simp only: map_bucket_index_def mask_mod)

definition occ :: "map_bucket list \<Rightarrow> nat \<Rightarrow> bool" where
  "occ tb i \<longleftrightarrow> i < length tb \<and> mb_state (tb ! i) = BOccupied"

definition slot :: "map_bucket list \<Rightarrow> nat \<Rightarrow> nat \<Rightarrow> nat" where
  "slot tb s j = (s + j) mod length tb"

lemma slot_update [simp]: "slot (tb[i := b]) s j = slot tb s j"
  by (simp add: slot_def)

lemma slot_less [simp]: "tb_shape tb \<Longrightarrow> slot tb s j < length tb"
  using tb_shape_len [of tb] by (cases "tb = []") (auto simp: slot_def)

text \<open>The slots an entry has passed on its way to distance \<open>d\<close> hold entries at least as far from home.\<close>

definition chain :: "map_bucket list \<Rightarrow> u64 \<Rightarrow> nat \<Rightarrow> bool" where
  "chain tb h d \<longleftrightarrow> (\<forall>j<d. occ tb (slot tb (unat h) j) \<and> j \<le> unat (mb_probe_dist (tb ! slot tb (unat h) j)))"

definition robin_hood :: "(bytes \<Rightarrow> u64) \<Rightarrow> map_bucket list \<Rightarrow> bool" where
  "robin_hood sip tb \<longleftrightarrow> tb_shape tb \<and>
     (\<forall>i<length tb. mb_state (tb ! i) \<noteq> BTombstone) \<and>
     (\<forall>i. occ tb i \<longrightarrow> rval_ok (mb_key (tb ! i)) \<and> mb_hash (tb ! i) = hash_value sip (mb_key (tb ! i)) \<and>
        i = slot tb (unat (mb_hash (tb ! i))) (unat (mb_probe_dist (tb ! i))) \<and>
        unat (mb_probe_dist (tb ! i)) < length tb \<and>
        chain tb (mb_hash (tb ! i)) (unat (mb_probe_dist (tb ! i)))) \<and>
     (\<forall>i j. occ tb i \<longrightarrow> occ tb j \<longrightarrow> mb_key (tb ! i) = mb_key (tb ! j) \<longrightarrow> i = j)"

definition tb_has :: "map_bucket list \<Rightarrow> handle \<Rightarrow> handle \<Rightarrow> bool" where
  "tb_has tb k v \<longleftrightarrow> (\<exists>i. occ tb i \<and> mb_key (tb ! i) = k \<and> mb_value (tb ! i) = v)"

lemma robin_hoodD:
  assumes "robin_hood sip tb"
  shows "tb_shape tb"
    and "occ tb i \<Longrightarrow> rval_ok (mb_key (tb ! i))"
    and "occ tb i \<Longrightarrow> mb_hash (tb ! i) = hash_value sip (mb_key (tb ! i))"
    and "occ tb i \<Longrightarrow> slot tb (unat (mb_hash (tb ! i))) (unat (mb_probe_dist (tb ! i))) = i"
    and "occ tb i \<Longrightarrow> unat (mb_probe_dist (tb ! i)) < length tb"
    and "occ tb i \<Longrightarrow> chain tb (mb_hash (tb ! i)) (unat (mb_probe_dist (tb ! i)))"
    and "occ tb i \<Longrightarrow> occ tb j \<Longrightarrow> mb_key (tb ! i) = mb_key (tb ! j) \<Longrightarrow> i = j"
    and "i < length tb \<Longrightarrow> occ tb i \<or> mb_state (tb ! i) = BEmpty"
proof -
  note all = assms [unfolded robin_hood_def]
  show "tb_shape tb" using all by blast
  show "occ tb i \<Longrightarrow> rval_ok (mb_key (tb ! i))" using all by blast
  show "occ tb i \<Longrightarrow> mb_hash (tb ! i) = hash_value sip (mb_key (tb ! i))" using all by blast
  show "occ tb i \<Longrightarrow> slot tb (unat (mb_hash (tb ! i))) (unat (mb_probe_dist (tb ! i))) = i"
    using all by metis
  show "occ tb i \<Longrightarrow> unat (mb_probe_dist (tb ! i)) < length tb" using all by blast
  show "occ tb i \<Longrightarrow> chain tb (mb_hash (tb ! i)) (unat (mb_probe_dist (tb ! i)))" using all by blast
  show "occ tb i \<Longrightarrow> occ tb j \<Longrightarrow> mb_key (tb ! i) = mb_key (tb ! j) \<Longrightarrow> i = j" using all by blast
  show "i < length tb \<Longrightarrow> occ tb i \<or> mb_state (tb ! i) = BEmpty"
    using all by (cases "mb_state (tb ! i)") (auto simp: occ_def)
qed

lemma mod_shift_back: "0 < n \<Longrightarrow> ((s + x) mod n + (n - s mod n)) mod n = x mod (n :: nat)"
proof -
  assume "0 < n"
  then have "s + x + (n - s mod n) = x + n + s div n * n"
    using div_mult_mod_eq [of s n] mod_less_divisor [of n s] by linarith
  then have "(s + x + (n - s mod n)) mod n = x mod n"
    by (simp only: mod_mult_self1 mod_add_self2)
  then show ?thesis
    by (simp only: mod_add_left_eq)
qed

lemma slot_inj:
  assumes "tb_shape tb" "slot tb s i = slot tb s j" "i < length tb" "j < length tb"
  shows "i = j"
proof -
  have "(s + i) mod length tb = (s + j) mod length tb"
    using assms(2) by (simp add: slot_def)
  moreover have "0 < length tb"
    using assms(3) by linarith
  ultimately have "i mod length tb = j mod length tb"
    using mod_shift_back [of "length tb" s i] mod_shift_back [of "length tb" s j] by (simp only:)
  with assms(3,4) show ?thesis by simp
qed

lemma slot_surj: "tb_shape tb \<Longrightarrow> i < length tb \<Longrightarrow> \<exists>j<length tb. slot tb s j = i"
proof -
  assume a: "tb_shape tb" "i < length tb"
  let ?n = "length tb"
  have "0 < ?n" using a(2) by linarith
  let ?j = "(i + (?n - s mod ?n)) mod ?n"
  have "(s + ?j) mod ?n = (s + (i + (?n - s mod ?n))) mod ?n"
    by (simp only: mod_add_right_eq)
  also have "\<dots> = ((s + i) mod ?n + (?n - s mod ?n)) mod ?n"
    by (simp only: mod_add_left_eq add.assoc)
  also have "\<dots> = i"
    using mod_shift_back [OF \<open>0 < ?n\<close>] a(2) by simp
  finally have "slot tb s ?j = i"
    by (simp only: slot_def)
  then show ?thesis
    using \<open>0 < ?n\<close> by (intro exI [of _ ?j]) simp
qed

lemma chain_less:
  assumes "tb_shape tb" "chain tb h d" "e < length tb" "mb_state (tb ! e) = BEmpty"
  shows "d < length tb"
proof (rule ccontr)
  assume "\<not> d < length tb"
  moreover obtain j where "j < length tb" "slot tb (unat h) j = e"
    using slot_surj [OF assms(1,3)] by blast
  ultimately show False
    using assms(2,4) by (auto simp: chain_def occ_def)
qed

subsection \<open>One step of a probe\<close>

text \<open>
  An entry that is still to be placed: its hash and key fit, no slot holds its key, and it has passed
  its chain up to the slot at hand.
\<close>

definition pending :: "(bytes \<Rightarrow> u64) \<Rightarrow> map_bucket list \<Rightarrow> u64 \<Rightarrow> handle \<Rightarrow> nat \<Rightarrow> bool" where
  "pending sip tb h k d \<longleftrightarrow> rval_ok k \<and> h = hash_value sip k \<and> chain tb h d \<and> (\<forall>i. occ tb i \<longrightarrow> mb_key (tb ! i) \<noteq> k)"

lemma chain_Suc:
  "chain tb h d \<Longrightarrow> occ tb (slot tb (unat h) d) \<Longrightarrow> d \<le> unat (mb_probe_dist (tb ! slot tb (unat h) d)) \<Longrightarrow>
   chain tb h (Suc d)"
  by (auto simp: chain_def less_Suc_eq)

lemma chain_update:
  assumes "chain tb h d" "i < length tb" "mb_state b = BOccupied"
    "\<And>j. j < d \<Longrightarrow> slot tb (unat h) j = i \<Longrightarrow> j \<le> unat (mb_probe_dist b)"
  shows "chain (tb[i := b]) h d"
  using assms by (auto simp: chain_def occ_def nth_list_update)

lemma occ_update:
  "i < length tb \<Longrightarrow> mb_state b = BOccupied \<Longrightarrow> occ (tb[i := b]) j \<longleftrightarrow> j = i \<or> occ tb j"
  by (auto simp: occ_def nth_list_update)

lemma bucket_occupied_sel [simp]:
  "mb_state (bucket_occupied h d k v) = BOccupied" "mb_hash (bucket_occupied h d k v) = h"
  "mb_probe_dist (bucket_occupied h d k v) = d" "mb_key (bucket_occupied h d k v) = k"
  "mb_value (bucket_occupied h d k v) = v"
  by (simp_all add: bucket_occupied_def)

text \<open>Writing an entry into an empty slot or over an entry nearer to its home keeps the order.\<close>

lemma robin_hood_put:
  assumes rh: "robin_hood sip tb" and p: "pending sip tb h k d" and d: "unat dist = d" "d < length tb"
    and i: "i = slot tb (unat h) d"
    and weak: "occ tb i \<Longrightarrow> unat (mb_probe_dist (tb ! i)) < d"
  shows "robin_hood sip (tb[i := bucket_occupied h dist k v])" (is "robin_hood sip ?tb")
proof -
  note R = robin_hoodD [OF rh]
  have il: "i < length tb"
    using R(1) i by simp
  note occ' = occ_update [OF il, of "bucket_occupied h dist k v", simplified]
  have nth: "j < length tb \<Longrightarrow> ?tb ! j = (if j = i then bucket_occupied h dist k v else tb ! j)" for j
    using il by simp
  have new: "chain ?tb h d"
  proof (rule chain_update [OF _ il])
    show "chain tb h d" using p unfolding pending_def by blast
    show "j \<le> unat (mb_probe_dist (bucket_occupied h dist k v))" if "j < d" for j
      using that d by simp
  qed simp
  have old: "chain ?tb (mb_hash (tb ! j)) (unat (mb_probe_dist (tb ! j)))" if j: "occ tb j" "j \<noteq> i" for j
  proof (rule chain_update [OF R(6) [OF j(1)] il])
    fix e assume e: "e < unat (mb_probe_dist (tb ! j))" "slot tb (unat (mb_hash (tb ! j))) e = i"
    have "occ tb i" "e \<le> unat (mb_probe_dist (tb ! i))"
      using R(6) [OF j(1)] e unfolding chain_def by auto
    with weak d show "e \<le> unat (mb_probe_dist (bucket_occupied h dist k v))"
      by simp
  qed simp
  have kk: "rval_ok k" "h = hash_value sip k"
    using p unfolding pending_def by blast+
  have fresh: "occ tb j \<Longrightarrow> mb_key (tb ! j) \<noteq> k" for j
    using p by (simp add: pending_def)
  show ?thesis
    unfolding robin_hood_def
  proof (intro conjI allI impI)
    show "tb_shape ?tb" using R(1) by simp
    show "mb_state (?tb ! j) \<noteq> BTombstone" if "j < length ?tb" for j
      using that R(8) [of j] nth [of j] by (cases "j = i") (auto simp: occ_def)
  next
    fix j assume j: "occ ?tb j"
    then have jl: "j < length tb" by (simp add: occ_def)
    note at = nth [OF jl]
    have j': "j \<noteq> i \<Longrightarrow> occ tb j"
      using j occ' by simp
    show "rval_ok (mb_key (?tb ! j))"
      using R(2) [of j] j' kk(1) by (simp add: at)
    show "mb_hash (?tb ! j) = hash_value sip (mb_key (?tb ! j))"
      using R(3) [of j] j' unfolding at by (simp add: kk(2) [symmetric])
    show "j = slot ?tb (unat (mb_hash (?tb ! j))) (unat (mb_probe_dist (?tb ! j)))"
      using R(4) [of j] j' i d(1) unfolding at by (cases "j = i") simp_all
    show "unat (mb_probe_dist (?tb ! j)) < length ?tb"
      using R(5) [of j] j' d unfolding at by (cases "j = i") simp_all
    show "chain ?tb (mb_hash (?tb ! j)) (unat (mb_probe_dist (?tb ! j)))"
      using new old [of j] j' d(1) unfolding at by (cases "j = i") simp_all
  next
    fix a b assume "occ ?tb a" "occ ?tb b" "mb_key (?tb ! a) = mb_key (?tb ! b)"
    then show "a = b"
      using occ' R(7) [of a b] fresh nth [of a] nth [of b] by (auto simp: occ_def split: if_splits)
  qed
qed

text \<open>The displaced entry is pending in turn, one slot further.\<close>

lemma pending_displaced:
  assumes rh: "robin_hood sip tb" and p: "pending sip tb h k d" and d: "unat dist = d" "d < length tb"
    and i: "i = slot tb (unat h) d" and o: "occ tb i"
    and weak: "unat (mb_probe_dist (tb ! i)) < d"
  shows "pending sip (tb[i := bucket_occupied h dist k v]) (mb_hash (tb ! i)) (mb_key (tb ! i))
    (Suc (unat (mb_probe_dist (tb ! i))))" (is "pending sip ?tb ?h ?k _")
proof -
  note R = robin_hoodD [OF rh]
  have il: "i < length tb"
    using R(1) i by simp
  have "chain ?tb ?h (unat (mb_probe_dist (tb ! i)))"
    by (rule chain_update [OF R(6) [OF o] il]) (use weak d in auto)
  then have "chain ?tb ?h (Suc (unat (mb_probe_dist (tb ! i))))"
  proof (rule chain_Suc)
    show "occ ?tb (slot ?tb (unat ?h) (unat (mb_probe_dist (tb ! i))))"
      using R(4) [OF o] il by (simp add: occ_update)
    show "unat (mb_probe_dist (tb ! i)) \<le>
        unat (mb_probe_dist (?tb ! slot ?tb (unat ?h) (unat (mb_probe_dist (tb ! i)))))"
      using R(4) [OF o] il weak d by simp
  qed
  moreover have "mb_key (?tb ! j) \<noteq> ?k" if "occ ?tb j" for j
  proof (cases "j = i")
    case True
    then show ?thesis
      using p o il by (auto simp: pending_def)
  next
    case False
    then show ?thesis
      using that R(7) [of j i] o il by (auto simp: occ_update)
  qed
  ultimately show ?thesis
    using R(2,3) [OF o] by (simp add: pending_def)
qed

lemma tb_has_put:
  assumes "i < length tb"
  shows "tb_has (tb[i := bucket_occupied h dist k v]) x y \<longleftrightarrow>
    (x = k \<and> y = v) \<or> (\<exists>j. j \<noteq> i \<and> occ tb j \<and> mb_key (tb ! j) = x \<and> mb_value (tb ! j) = y)"
    (is "?l \<longleftrightarrow> ?r")
proof
  assume ?l
  then obtain j where j: "occ (tb[i := bucket_occupied h dist k v]) j"
    "mb_key (tb[i := bucket_occupied h dist k v] ! j) = x"
    "mb_value (tb[i := bucket_occupied h dist k v] ! j) = y"
    unfolding tb_has_def by blast
  then show ?r
    using assms by (cases "j = i") (auto simp: occ_update)
next
  assume ?r
  then show ?l
    unfolding tb_has_def
  proof (elim disjE exE conjE)
    assume "x = k" "y = v"
    then show "\<exists>j. occ (tb[i := bucket_occupied h dist k v]) j \<and>
        mb_key (tb[i := bucket_occupied h dist k v] ! j) = x \<and>
        mb_value (tb[i := bucket_occupied h dist k v] ! j) = y"
      using assms by (intro exI [of _ i]) (simp add: occ_update)
  next
    fix j assume "j \<noteq> i" "occ tb j" "mb_key (tb ! j) = x" "mb_value (tb ! j) = y"
    then show "\<exists>j. occ (tb[i := bucket_occupied h dist k v]) j \<and>
        mb_key (tb[i := bucket_occupied h dist k v] ! j) = x \<and>
        mb_value (tb[i := bucket_occupied h dist k v] ! j) = y"
      using assms by (intro exI [of _ j]) (simp add: occ_update)
  qed
qed

lemma unat_dist_Suc: "tb_shape tb \<Longrightarrow> unat (dist :: 16 word) = d \<Longrightarrow> Suc d < length tb \<Longrightarrow> unat (dist + 1) = Suc d"
  using tb_shape_len [of tb] by (simp add: unat_word_ariths unsigned_1)

lemma tb_has_put_empty:
  assumes "i < length tb" "\<not> occ tb i"
  shows "tb_has (tb[i := bucket_occupied h dist k v]) x y \<longleftrightarrow> (x = k \<and> y = v) \<or> tb_has tb x y"
  unfolding tb_has_put [OF assms(1)] unfolding tb_has_def using assms(2) by auto

lemma tb_has_put_swap:
  assumes "occ tb i"
  shows "(x = mb_key (tb ! i) \<and> y = mb_value (tb ! i)) \<or> tb_has (tb[i := bucket_occupied h dist k v]) x y \<longleftrightarrow>
    (x = k \<and> y = v) \<or> tb_has tb x y"
proof -
  have i: "i < length tb" using assms by (simp add: occ_def)
  show ?thesis
    unfolding tb_has_put [OF i] unfolding tb_has_def using assms by auto
qed

text \<open>An empty slot lies ahead, at \<open>n\<close> slots from the current one.\<close>

definition empty_at :: "map_bucket list \<Rightarrow> nat \<Rightarrow> nat \<Rightarrow> bool" where
  "empty_at tb i n \<longleftrightarrow> mb_state (tb ! slot tb i n) = BEmpty"

lemma empty_at_next:
  assumes "tb_shape tb" "empty_at tb i (Suc n)"
  shows "empty_at tb ((i + 1) mod length tb) n"
proof -
  have "((i + 1) mod length tb + n) mod length tb = (i + Suc n) mod length tb"
    by (simp add: mod_add_left_eq)
  with assms(2) show ?thesis
    by (simp only: empty_at_def slot_def)
qed

subsection \<open>Placing an entry\<close>

lemma empty_at_update:
  assumes "tb_shape tb" "i < length tb" "empty_at tb i n" "occ tb i" "mb_state b = BOccupied"
  shows "empty_at (tb[i := b]) i n"
proof -
  have "slot tb i n \<noteq> i"
    using assms(3,4) by (auto simp: empty_at_def occ_def)
  then show ?thesis
    using assms(1,3) by (simp add: empty_at_def)
qed

lemma not_occ_empty: "robin_hood sip tb \<Longrightarrow> i < length tb \<Longrightarrow> \<not> occ tb i \<longleftrightarrow> mb_state (tb ! i) = BEmpty"
  using robin_hoodD(8) [of sip tb i] by (auto simp: occ_def)

lemma rehash_bucket_places:
  "robin_hood sip tb \<Longrightarrow> pending sip tb h k d \<Longrightarrow> unat dist = d \<Longrightarrow> i = slot tb (unat h) d \<Longrightarrow>
   empty_at tb i n \<Longrightarrow>
   \<exists>tb'. rehash_bucket h k v i dist tb = Some tb' \<and> robin_hood sip tb' \<and> length tb' = length tb \<and>
     (\<forall>x y. tb_has tb' x y \<longleftrightarrow> (x = k \<and> y = v) \<or> tb_has tb x y)"
proof (induction n arbitrary: tb h k v d dist i)
  case (0 tb h k v d dist i)
  have sh: "tb_shape tb" and il: "i < length tb"
    using robin_hoodD(1) [OF 0(1)] 0(4) by simp_all
  have e: "mb_state (tb ! i) = BEmpty"
    using 0(5) il by (simp add: empty_at_def slot_def)
  have dl: "d < length tb"
    using chain_less [OF sh _ il e] 0(2) unfolding pending_def by blast
  have no: "\<not> occ tb i"
    using e by (simp add: occ_def)
  show ?case
    using robin_hood_put [OF 0(1,2,3) dl 0(4)] no e tb_has_put_empty [OF il no]
    by (subst rehash_bucket.simps) simp
next
  case (Suc n tb h k v d dist i)
  note rh = Suc.prems(1) and p = Suc.prems(2) and dd = Suc.prems(3) and i = Suc.prems(4)
  have sh: "tb_shape tb" and il: "i < length tb"
    using robin_hoodD(1) [OF rh] i by simp_all
  have el: "slot tb i (Suc n) < length tb" "mb_state (tb ! slot tb i (Suc n)) = BEmpty"
    using Suc.prems(5) sh by (simp_all add: empty_at_def)
  have dl: "d < length tb"
    using chain_less [OF sh _ el] p unfolding pending_def by blast
  show ?case
  proof (cases "occ tb i")
    case False
    then have "mb_state (tb ! i) = BEmpty"
      using not_occ_empty [OF rh il] by simp
    then show ?thesis
      using robin_hood_put [OF rh p dd dl i] False tb_has_put_empty [OF il False]
      by (subst rehash_bucket.simps) simp
  next
    case o: True
    have st: "mb_state (tb ! i) = BOccupied"
      using o by (simp add: occ_def)
    have nxt: "(i + 1) AND (length tb - 1) = (i + 1) mod length tb"
      using sh by (rule mask_mod)
    show ?thesis
    proof (cases "mb_probe_dist (tb ! i) < dist")
      case weak: True
      let ?b = "bucket_occupied h dist k v" and ?f = "tb ! i"
      let ?e = "unat (mb_probe_dist ?f)"
      have w: "?e < d"
        using weak dd by (simp add: word_less_nat_alt)
      have rh': "robin_hood sip (tb[i := ?b])"
        using robin_hood_put [OF rh p dd dl i] w by blast
      have p': "pending sip (tb[i := ?b]) (mb_hash ?f) (mb_key ?f) (Suc ?e)"
        by (rule pending_displaced [OF rh p dd dl i o w])
      have e': "empty_at (tb[i := ?b]) ((i + 1) mod length tb) n"
        using empty_at_next [of "tb[i := ?b]" i n] empty_at_update [OF sh il Suc.prems(5) o, of ?b] sh by simp
      have i': "(i + 1) mod length tb = slot (tb[i := ?b]) (unat (mb_hash ?f)) (Suc ?e)"
        using robin_hoodD(4) [OF rh o] by (metis Suc_eq_plus1 add_Suc_right mod_Suc_eq slot_def slot_update)
      have d': "unat (mb_probe_dist ?f + 1) = Suc ?e"
        using unat_dist_Suc [OF sh refl] w dl by simp
      obtain tb' where tb': "rehash_bucket (mb_hash ?f) (mb_key ?f) (mb_value ?f) ((i + 1) mod length tb)
          (mb_probe_dist ?f + 1) (tb[i := ?b]) = Some tb'" "robin_hood sip tb'" "length tb' = length tb"
          "\<forall>x y. tb_has tb' x y \<longleftrightarrow> (x = mb_key ?f \<and> y = mb_value ?f) \<or> tb_has (tb[i := ?b]) x y"
        using Suc.IH [OF rh' p' d' i' e', of "mb_value ?f"] by auto
      have "rehash_bucket h k v i dist tb = Some tb'"
        using tb'(1) st weak nxt by (subst rehash_bucket.simps) simp
      then show ?thesis
        using tb' tb_has_put_swap [OF o] by auto
    next
      case strong: False
      have s: "d \<le> unat (mb_probe_dist (tb ! i))"
        using strong dd by (simp add: word_less_nat_alt)
      have ch: "chain tb h (Suc d)"
        using p o s i unfolding pending_def by (blast intro: chain_Suc)
      then have p': "pending sip tb h k (Suc d)"
        using p unfolding pending_def by blast
      have sl: "Suc d < length tb"
        by (rule chain_less [OF sh ch el])
      have i': "(i + 1) mod length tb = slot tb (unat h) (Suc d)"
        using i by (simp add: slot_def mod_Suc_eq)
      obtain tb' where tb': "rehash_bucket h k v ((i + 1) mod length tb) (dist + 1) tb = Some tb'"
          "robin_hood sip tb'" "length tb' = length tb"
          "\<forall>x y. tb_has tb' x y \<longleftrightarrow> (x = k \<and> y = v) \<or> tb_has tb x y"
        using Suc.IH [OF rh p' unat_dist_Suc [OF sh dd sl] i' empty_at_next [OF sh Suc.prems(5)], of v] by auto
      have "rehash_bucket h k v i dist tb = Some tb'"
        using tb'(1) st strong nxt by (subst rehash_bucket.simps) simp
      then show ?thesis
        using tb' by auto
    qed
  qed
qed

text \<open>With a fresh key, \<open>map_insert\<close> places its entry the same way.\<close>

lemma map_insert_loop_fresh:
  "robin_hood sip (mo_buckets m) \<Longrightarrow> pending sip (mo_buckets m) h k d \<Longrightarrow> unat dist = d \<Longrightarrow>
   i = slot (mo_buckets m) (unat h) d \<Longrightarrow> empty_at (mo_buckets m) i n \<Longrightarrow> rehash_bucket h k v i dist (mo_buckets m) = Some tb' \<Longrightarrow>
   map_insert_loop value h k v i dist m =
     Some (None, m\<lparr> mo_buckets := tb', mo_len := mo_len m + 1 \<rparr>)"
proof (induction n arbitrary: m h k v d dist i)
  case (0 m h k v d dist i)
  let ?tb = "mo_buckets m"
  have il: "i < length ?tb"
    using robin_hoodD(1) [OF 0(1)] 0(4) by simp
  have "mb_state (?tb ! i) = BEmpty"
    using 0(5) il by (simp add: empty_at_def slot_def)
  then show ?case
    using 0(6) by (subst (asm) rehash_bucket.simps, subst map_insert_loop.simps) simp
next
  case (Suc n m h k v d dist i)
  let ?tb = "mo_buckets m"
  note rh = Suc.prems(1) and p = Suc.prems(2) and dd = Suc.prems(3) and i = Suc.prems(4)
  have sh: "tb_shape ?tb" and il: "i < length ?tb"
    using robin_hoodD(1) [OF rh] i by simp_all
  have el: "slot ?tb i (Suc n) < length ?tb" "mb_state (?tb ! slot ?tb i (Suc n)) = BEmpty"
    using Suc.prems(5) sh by (simp_all add: empty_at_def)
  have dl: "d < length ?tb"
    using chain_less [OF sh _ el] p unfolding pending_def by blast
  have nxt: "(i + 1) AND (length ?tb - 1) = (i + 1) mod length ?tb"
    using sh by (rule mask_mod)
  show ?case
  proof (cases "occ ?tb i")
    case False
    then have "mb_state (?tb ! i) = BEmpty"
      using not_occ_empty [OF rh il] by simp
    then show ?thesis
      using Suc.prems(6) by (subst (asm) rehash_bucket.simps, subst map_insert_loop.simps) simp
  next
    case o: True
    have st: "mb_state (?tb ! i) = BOccupied"
      using o by (simp add: occ_def)
    have other: "\<not> values_equal_handles (mb_key (?tb ! i)) k"
      using p o values_equal_eq unfolding pending_def by blast
    show ?thesis
    proof (cases "mb_probe_dist (?tb ! i) < dist")
      case weak: True
      let ?b = "bucket_occupied h dist k v" and ?f = "?tb ! i"
      let ?m = "m\<lparr> mo_buckets := ?tb[i := ?b] \<rparr>"
      let ?e = "unat (mb_probe_dist ?f)"
      have w: "?e < d"
        using weak dd by (simp add: word_less_nat_alt)
      have rh': "robin_hood sip (mo_buckets ?m)"
        using robin_hood_put [OF rh p dd dl i] w by simp
      have p': "pending sip (mo_buckets ?m) (mb_hash ?f) (mb_key ?f) (Suc ?e)"
        using pending_displaced [OF rh p dd dl i o w] by simp
      have e': "empty_at (mo_buckets ?m) ((i + 1) mod length ?tb) n"
        using empty_at_next [of "?tb[i := ?b]" i n] empty_at_update [OF sh il Suc.prems(5) o, of ?b] sh by simp
      have i': "(i + 1) mod length ?tb = slot (mo_buckets ?m) (unat (mb_hash ?f)) (Suc ?e)"
        using robin_hoodD(4) [OF rh o]
        by simp (metis Suc_eq_plus1 add_Suc_right mod_Suc_eq slot_def)
      have d': "unat (mb_probe_dist ?f + 1) = Suc ?e"
        using unat_dist_Suc [OF sh refl] w dl by simp
      have "rehash_bucket (mb_hash ?f) (mb_key ?f) (mb_value ?f) ((i + 1) mod length ?tb)
          (mb_probe_dist ?f + 1) (mo_buckets ?m) = Some tb'"
        using Suc.prems(6) st weak nxt by (subst (asm) rehash_bucket.simps) (simp add: Let_def)
      from Suc.IH [OF rh' p' d' i' e' this] show ?thesis
        using st weak nxt other by (subst map_insert_loop.simps) simp
    next
      case strong: False
      have s: "d \<le> unat (mb_probe_dist (?tb ! i))"
        using strong dd by (simp add: word_less_nat_alt)
      have ch: "chain ?tb h (Suc d)"
        using p o s i unfolding pending_def by (blast intro: chain_Suc)
      then have p': "pending sip ?tb h k (Suc d)"
        using p unfolding pending_def by blast
      have sl: "Suc d < length ?tb"
        by (rule chain_less [OF sh ch el])
      have i': "(i + 1) mod length ?tb = slot ?tb (unat h) (Suc d)"
        using i by (simp add: slot_def mod_Suc_eq)
      have "rehash_bucket h k v ((i + 1) mod length ?tb) (dist + 1) ?tb = Some tb'"
        using Suc.prems(6) st strong nxt by (subst (asm) rehash_bucket.simps) (simp add: Let_def)
      from Suc.IH [OF rh p' unat_dist_Suc [OF sh dd sl] i' empty_at_next [OF sh Suc.prems(5)] this]
      show ?thesis
        using st strong nxt other by (subst map_insert_loop.simps) simp
    qed
  qed
qed

subsection \<open>Looking a key up\<close>

lemma map_get_loop_absent:
  "robin_hood sip tb \<Longrightarrow> pending sip tb h k d \<Longrightarrow> unat dist = d \<Longrightarrow> i = slot tb (unat h) d \<Longrightarrow>
   empty_at tb i n \<Longrightarrow> map_get_loop h k i dist tb = Some None"
proof (induction n arbitrary: d dist i)
  case (0 d dist i)
  have "i < length tb"
    using robin_hoodD(1) [OF 0(1)] 0(4) by simp
  then have "mb_state (tb ! i) = BEmpty"
    using 0(5) by (simp add: empty_at_def slot_def)
  then show ?case
    by (subst map_get_loop.simps) simp
next
  case (Suc n d dist i)
  note rh = Suc.prems(1) and p = Suc.prems(2) and dd = Suc.prems(3) and i = Suc.prems(4)
  have sh: "tb_shape tb" and il: "i < length tb"
    using robin_hoodD(1) [OF rh] i by simp_all
  have el: "slot tb i (Suc n) < length tb" "mb_state (tb ! slot tb i (Suc n)) = BEmpty"
    using Suc.prems(5) sh by (simp_all add: empty_at_def)
  have nxt: "(i + 1) AND (length tb - 1) = (i + 1) mod length tb"
    using sh by (rule mask_mod)
  show ?case
  proof (cases "occ tb i")
    case False
    then have "mb_state (tb ! i) = BEmpty"
      using not_occ_empty [OF rh il] by simp
    then show ?thesis
      by (subst map_get_loop.simps) simp
  next
    case o: True
    then have st: "mb_state (tb ! i) = BOccupied" by (simp add: occ_def)
    have other: "\<not> values_equal_handles (mb_key (tb ! i)) k"
      using p o values_equal_eq unfolding pending_def by blast
    show ?thesis
    proof (cases "mb_probe_dist (tb ! i) < dist")
      case True
      with st show ?thesis
        by (subst map_get_loop.simps) (simp add: Let_def)
    next
      case strong: False
      have s: "d \<le> unat (mb_probe_dist (tb ! i))"
        using strong dd by (simp add: word_less_nat_alt)
      have ch: "chain tb h (Suc d)"
        using p o s i unfolding pending_def by (blast intro: chain_Suc)
      then have p': "pending sip tb h k (Suc d)"
        using p unfolding pending_def by blast
      have sl: "Suc d < length tb"
        by (rule chain_less [OF sh ch el])
      have i': "(i + 1) mod length tb = slot tb (unat h) (Suc d)"
        using i by (simp add: slot_def mod_Suc_eq)
      from Suc.IH [OF rh p' unat_dist_Suc [OF sh dd sl] i' empty_at_next [OF sh Suc.prems(5)]]
      show ?thesis
        using st strong nxt other by (subst map_get_loop.simps) (simp add: Let_def)
    qed
  qed
qed

text \<open>The probe for a stored key, at distance \<open>d\<close> of the way to it.\<close>

lemma on_the_way:
  assumes rh: "robin_hood sip tb" and q: "occ tb q" and i: "i = slot tb (unat (mb_hash (tb ! q))) d"
    and d: "unat dist = d" "d < unat (mb_probe_dist (tb ! q))"
  shows "mb_state (tb ! i) = BOccupied" "\<not> mb_probe_dist (tb ! i) < dist"
    "\<not> values_equal_handles (mb_key (tb ! i)) (mb_key (tb ! q))"
    "(i + 1) AND (length tb - 1) = slot tb (unat (mb_hash (tb ! q))) (Suc d)"
    "unat (dist + 1) = Suc d"
proof -
  note R = robin_hoodD [OF rh]
  have o: "occ tb i" and le: "d \<le> unat (mb_probe_dist (tb ! i))"
    using R(6) [OF q] d(2) i unfolding chain_def by blast+
  show "mb_state (tb ! i) = BOccupied"
    using o by (simp add: occ_def)
  show "\<not> mb_probe_dist (tb ! i) < dist"
    using le d(1) by (simp add: word_less_nat_alt)
  have "i \<noteq> q"
    using slot_inj [OF R(1), of "unat (mb_hash (tb ! q))" d "unat (mb_probe_dist (tb ! q))"] R(4,5) [OF q] i d(2)
    by auto
  then show "\<not> values_equal_handles (mb_key (tb ! i)) (mb_key (tb ! q))"
    using R(7) [OF o q] values_equal_eq by blast
  show "(i + 1) AND (length tb - 1) = slot tb (unat (mb_hash (tb ! q))) (Suc d)"
    using i slot_next [OF R(1)] by (simp only: slot_def)
  show "unat (dist + 1) = Suc d"
    using unat_dist_Suc [OF R(1) d(1)] R(5) [OF q] d(2) by simp
qed

lemma map_get_loop_present:
  assumes rh: "robin_hood sip tb" and q: "occ tb q"
  shows "unat dist = d \<Longrightarrow> d \<le> unat (mb_probe_dist (tb ! q)) \<Longrightarrow> i = slot tb (unat (mb_hash (tb ! q))) d \<Longrightarrow>
    map_get_loop (mb_hash (tb ! q)) (mb_key (tb ! q)) i dist tb = Some (Some (tb ! q))"
proof (induction "unat (mb_probe_dist (tb ! q)) - d" arbitrary: d dist i)
  case 0
  then have "i = q" "\<not> mb_probe_dist (tb ! q) < dist"
    using robin_hoodD(4) [OF rh q] by (simp_all add: word_less_nat_alt)
  then show ?case
    using q values_equal_refl [OF robin_hoodD(2) [OF rh q]]
    by (subst map_get_loop.simps) (simp add: occ_def)
next
  case (Suc x)
  then have lt: "d < unat (mb_probe_dist (tb ! q))" by simp
  note way = on_the_way [OF rh q Suc.prems(3,1) lt]
  have "map_get_loop (mb_hash (tb ! q)) (mb_key (tb ! q)) ((i + 1) AND (length tb - 1)) (dist + 1) tb =
      Some (Some (tb ! q))"
    using Suc.hyps(2) lt way(4,5) by (intro Suc.hyps(1)) auto
  then show ?case
    using way by (subst map_get_loop.simps) (simp add: Let_def)
qed

lemma map_insert_loop_present:
  assumes rh: "robin_hood sip (mo_buckets m)" and q: "occ (mo_buckets m) q"
  defines "tb \<equiv> mo_buckets m"
  shows "unat dist = d \<Longrightarrow> d \<le> unat (mb_probe_dist (tb ! q)) \<Longrightarrow> i = slot tb (unat (mb_hash (tb ! q))) d \<Longrightarrow>
    map_insert_loop v (mb_hash (tb ! q)) (mb_key (tb ! q)) v' i dist m =
      Some (Some (mb_value (tb ! q)), m\<lparr> mo_buckets := tb[q := (tb ! q)\<lparr> mb_value := v \<rparr>] \<rparr>)"
proof (induction "unat (mb_probe_dist (tb ! q)) - d" arbitrary: d dist i)
  case 0
  then have "i = q"
    using robin_hoodD(4) [OF rh q] by (simp add: tb_def)
  then show ?case
    using q values_equal_refl [OF robin_hoodD(2) [OF rh q]]
    by (subst map_insert_loop.simps) (simp add: occ_def tb_def Let_def)
next
  case (Suc x)
  then have lt: "d < unat (mb_probe_dist (tb ! q))" by simp
  note way = on_the_way [OF rh [folded tb_def] q [folded tb_def] Suc.prems(3,1) lt]
  have "map_insert_loop v (mb_hash (tb ! q)) (mb_key (tb ! q)) v' ((i + 1) AND (length tb - 1)) (dist + 1) m =
      Some (Some (mb_value (tb ! q)), m\<lparr> mo_buckets := tb[q := (tb ! q)\<lparr> mb_value := v \<rparr>] \<rparr>)"
    using Suc.hyps(2) lt way(4,5) by (intro Suc.hyps(1)) auto
  then show ?case
    using way by (subst map_insert_loop.simps) (simp add: Let_def tb_def)
qed

lemma robin_hood_value:
  assumes rh: "robin_hood sip tb" and q: "occ tb q"
  shows "robin_hood sip (tb[q := (tb ! q)\<lparr> mb_value := v \<rparr>])" (is "robin_hood sip ?tb")
    and "tb_has (tb[q := (tb ! q)\<lparr> mb_value := v \<rparr>]) x y \<longleftrightarrow>
      (x = mb_key (tb ! q) \<and> y = v) \<or> (x \<noteq> mb_key (tb ! q) \<and> tb_has tb x y)"
proof -
  have same: "mb_state (?tb ! j) = mb_state (tb ! j)" "mb_hash (?tb ! j) = mb_hash (tb ! j)"
      "mb_probe_dist (?tb ! j) = mb_probe_dist (tb ! j)" "mb_key (?tb ! j) = mb_key (tb ! j)" for j
    using q by (simp_all add: occ_def nth_list_update)
  have occ: "occ ?tb j = occ tb j" for j
    by (simp add: occ_def same)
  have chain: "chain ?tb h d = chain tb h d" for h d
    by (simp add: chain_def occ same)
  show "robin_hood sip ?tb"
    using rh unfolding robin_hood_def occ same chain length_list_update tb_shape_update slot_update .
  have val: "mb_value (?tb ! j) = (if j = q then v else mb_value (tb ! j))" for j
    using q by (simp add: occ_def nth_list_update)
  show "tb_has ?tb x y \<longleftrightarrow> (x = mb_key (tb ! q) \<and> y = v) \<or> (x \<noteq> mb_key (tb ! q) \<and> tb_has tb x y)"
    unfolding tb_has_def occ same val using q robin_hoodD(7) [OF rh _ q] by auto metis
qed

end
