(* ===== verification/Runtime_MapRefine.thy ===== *)
theory Runtime_MapRefine
  imports Runtime_MapInv
begin

text \<open>
  Without removals the table refines a finite map; with them it does not.
\<close>

subsection \<open>Counting\<close>

definition tb_keys :: "map_bucket list \<Rightarrow> handle set" where
  "tb_keys tb = {k. \<exists>v. tb_has tb k v}"

lemma tb_keys_image: "tb_keys tb = (\<lambda>i. mb_key (tb ! i)) ` {i. occ tb i}"
  by (auto simp: tb_keys_def tb_has_def)

lemma finite_occ [simp]: "finite {i. occ tb i}"
  by (rule finite_subset [of _ "{..<length tb}"]) (auto simp: occ_def)

lemma card_occ: "robin_hood sip tb \<Longrightarrow> card {i. occ tb i} = card (tb_keys tb)"
  unfolding tb_keys_image by (rule card_image [symmetric]) (auto simp: inj_on_def dest: robin_hoodD(7))

lemma empty_ahead:
  assumes rh: "robin_hood sip tb" and "card (tb_keys tb) < length tb" "i < length tb"
  shows "\<exists>n. empty_at tb i n"
proof -
  have "\<exists>e<length tb. \<not> occ tb e"
  proof (rule ccontr)
    assume "\<not> (\<exists>e<length tb. \<not> occ tb e)"
    then have "{i. occ tb i} = {..<length tb}"
      by (auto simp: occ_def)
    then show False
      using assms(2) card_occ [OF rh] by simp
  qed
  then obtain e where e: "e < length tb" "mb_state (tb ! e) = BEmpty"
    using not_occ_empty [OF rh] by blast
  obtain n where "slot tb i n = e"
    using slot_surj [OF robin_hoodD(1) [OF rh] e(1)] by blast
  then show ?thesis
    using e(2) by (auto simp: empty_at_def)
qed

lemma pending_start:
  assumes "robin_hood sip tb" "rval_ok k" "k \<notin> tb_keys tb"
  shows "pending sip tb (hash_value sip k) k 0"
    and "map_bucket_index (length tb) h = slot tb (unat h) 0"
  using assms bucket_index_mod [OF robin_hoodD(1) [OF assms(1)]]
  by (auto simp: pending_def chain_def slot_def tb_keys_def tb_has_def)

lemma distinct_keys:
  assumes "robin_hood sip tb"
  shows "distinct (map mb_key (filter (\<lambda>b. mb_state b = BOccupied) tb))"
proof -
  have "distinct (map mb_key (filter P xs))"
    if "\<forall>i<length xs. \<forall>j<length xs. P (xs ! i) \<longrightarrow> P (xs ! j) \<longrightarrow> mb_key (xs ! i) = mb_key (xs ! j) \<longrightarrow> i = j"
    for P and xs :: "map_bucket list"
    using that
  proof (induction xs)
    case (Cons x xs)
    note inj = Cons.prems
    have "\<forall>i<length xs. \<forall>j<length xs. P (xs ! i) \<longrightarrow> P (xs ! j) \<longrightarrow> mb_key (xs ! i) = mb_key (xs ! j) \<longrightarrow> i = j"
      using Cons.prems by (metis Suc_less_eq diff_Suc_1 length_Cons nth_Cons_Suc)
    moreover have "mb_key x \<noteq> mb_key y" if x: "P x" and y: "y \<in> set xs" "P y" for y
    proof -
      obtain j where "j < length xs" "y = xs ! j"
        using y(1) by (metis in_set_conv_nth)
      then show ?thesis
        using inj x y(2) by (metis Suc_less_eq Zero_not_Suc length_Cons nth_Cons_0 nth_Cons_Suc zero_less_Suc)
    qed
    ultimately show ?case
      using Cons.IH by auto
  qed simp
  then show ?thesis
    using robin_hoodD(7) [OF assms] by (simp add: occ_def)
qed

lemma empty_table:
  assumes "tb_shape (replicate c bucket_default)"
  shows "robin_hood sip (replicate c bucket_default)" "\<not> tb_has (replicate c bucket_default) x y"
proof -
  have "\<not> occ (replicate c bucket_default) i" for i
    by (auto simp: occ_def bucket_default_def)
  then show "robin_hood sip (replicate c bucket_default)" "\<not> tb_has (replicate c bucket_default) x y"
    using assms by (auto simp: robin_hood_def tb_has_def bucket_default_def)
qed

subsection \<open>Rehashing\<close>

lemma rehash_buckets_all:
  "robin_hood sip new \<Longrightarrow> distinct (map mb_key (filter (\<lambda>b. mb_state b = BOccupied) bs)) \<Longrightarrow>
   \<forall>b\<in>set bs. mb_state b = BOccupied \<longrightarrow> rval_ok (mb_key b) \<and> mb_hash b = hash_value sip (mb_key b) \<and>
     mb_key b \<notin> tb_keys new \<Longrightarrow>
   card (tb_keys new) + length (filter (\<lambda>b. mb_state b = BOccupied) bs) < length new \<Longrightarrow>
   \<exists>new'. rehash_buckets bs new = Some new' \<and> robin_hood sip new' \<and> length new' = length new \<and>
     (\<forall>x y. tb_has new' x y \<longleftrightarrow> tb_has new x y \<or>
        (\<exists>b\<in>set bs. mb_state b = BOccupied \<and> mb_key b = x \<and> mb_value b = y))"
proof (induction bs arbitrary: new)
  case (Cons b bs)
  note rh = Cons.prems(1)
  show ?case
  proof (cases "mb_state b = BOccupied")
    case False
    then have rest: "\<exists>new'. rehash_buckets bs new = Some new' \<and> robin_hood sip new' \<and> length new' = length new \<and>
     (\<forall>x y. tb_has new' x y \<longleftrightarrow> tb_has new x y \<or>
        (\<exists>b\<in>set bs. mb_state b = BOccupied \<and> mb_key b = x \<and> mb_value b = y))"
      using Cons.prems by (intro Cons.IH) simp_all
    then show ?thesis
      using False by auto
  next
    case o: True
    then have key: "rval_ok (mb_key b)" "mb_hash b = hash_value sip (mb_key b)" "mb_key b \<notin> tb_keys new"
      using Cons.prems(3) by simp_all
    let ?i = "map_bucket_index (length new) (mb_hash b)"
    have i: "?i = slot new (unat (mb_hash b)) 0" "?i < length new"
      using pending_start(2) [OF rh key(1,3)] robin_hoodD(1) [OF rh] by simp_all
    obtain n where n: "empty_at new ?i n"
      using empty_ahead [OF rh _ i(2)] Cons.prems(4) by auto
    have pend: "pending sip new (mb_hash b) (mb_key b) 0"
      using pending_start(1) [OF rh key(1,3)] key(2) by simp
    have zero: "unat (0 :: 16 word) = 0" by simp
    obtain new1 where new1: "rehash_bucket (mb_hash b) (mb_key b) (mb_value b) ?i 0 new = Some new1"
        "robin_hood sip new1" "length new1 = length new"
        "\<forall>x y. tb_has new1 x y \<longleftrightarrow> (x = mb_key b \<and> y = mb_value b) \<or> tb_has new x y"
      using rehash_bucket_places [OF rh pend zero i(1) n, of "mb_value b"] by auto
    have keys: "tb_keys new1 = insert (mb_key b) (tb_keys new)"
      using new1(4) by (auto simp: tb_keys_def)
    moreover have "finite (tb_keys new)"
      by (simp add: tb_keys_image)
    ultimately have card: "card (tb_keys new1) = Suc (card (tb_keys new))"
      using key(3) by simp
    have fresh: "mb_key c \<noteq> mb_key b" if "c \<in> set bs" "mb_state c = BOccupied" for c
      using Cons.prems(2) o that by (auto simp: image_iff)
    have "\<exists>new'. rehash_buckets bs new1 = Some new' \<and> robin_hood sip new' \<and> length new' = length new1 \<and>
     (\<forall>x y. tb_has new' x y \<longleftrightarrow> tb_has new1 x y \<or>
        (\<exists>b\<in>set bs. mb_state b = BOccupied \<and> mb_key b = x \<and> mb_value b = y))"
      using Cons.prems(2-4) o keys card new1(2,3)
      by (intro Cons.IH) (auto dest: fresh)
    then show ?thesis
      using o new1 by auto
  qed
qed simp

definition map_repr :: "(bytes \<Rightarrow> u64) \<Rightarrow> map_object \<Rightarrow> (handle \<rightharpoonup> handle) \<Rightarrow> bool" where
  "map_repr sip m f \<longleftrightarrow> robin_hood sip (mo_buckets m) \<and> mo_tombstones m = 0 \<and> mo_len m = card (dom f) \<and>
     mo_len m < length (mo_buckets m) \<and> (\<forall>k v. tb_has (mo_buckets m) k v \<longleftrightarrow> f k = Some v)"

lemma map_repr_keys: "map_repr sip m f \<Longrightarrow> tb_keys (mo_buckets m) = dom f"
  by (auto simp: map_repr_def tb_keys_def)

lemma map_rehash_repr:
  assumes rep: "map_repr sip m f" and small: "length (mo_buckets m) \<le> 32768"
  shows "\<exists>m'. map_rehash m = Some m' \<and> map_repr sip m' f \<and> Suc (mo_len m') < length (mo_buckets m')"
proof -
  let ?tb = "mo_buckets m" and ?new = "replicate (2 * length (mo_buckets m)) bucket_default"
  have rh: "robin_hood sip ?tb" and has: "tb_has ?tb k v \<longleftrightarrow> f k = Some v" for k v
    using rep by (auto simp: map_repr_def)
  obtain k where k: "length ?tb = 2 ^ k" "3 \<le> k" "k \<le> 16"
    using robin_hoodD(1) [OF rh] unfolding tb_shape_def by blast
  have "(2::nat) ^ k \<le> 2 ^ 15"
    using small k(1) by simp
  then have "k \<le> 15"
    by (simp only: power_increasing_iff one_less_numeral_iff semiring_norm)
  then have sh: "tb_shape ?new"
    using k unfolding tb_shape_def by (intro exI [of _ "Suc k"]) simp
  have cap: "max (length ?tb * 2) 8 = 2 * length ?tb" and big: "8 \<le> length ?tb"
    using tb_shape_len [OF robin_hoodD(1) [OF rh]] by simp_all
  have filt: "length (filter (\<lambda>b. mb_state b = BOccupied) ?tb) = card (dom f)"
    using card_occ [OF rh] map_repr_keys [OF rep] by (simp add: length_filter_conv_card occ_def)
  have le: "card (dom f) \<le> length ?tb"
    using filt length_filter_le [of "\<lambda>b. mb_state b = BOccupied" ?tb] by simp
  have none: "tb_keys ?new = {}"
    using empty_table(2) [OF sh] by (simp add: tb_keys_def)
  have at: "mb_state b = BOccupied \<Longrightarrow> b \<in> set ?tb \<Longrightarrow> \<exists>i. occ ?tb i \<and> ?tb ! i = b" for b
    by (auto simp: occ_def in_set_conv_nth)
  have ok: "\<forall>b\<in>set ?tb. mb_state b = BOccupied \<longrightarrow> rval_ok (mb_key b) \<and> mb_hash b = hash_value sip (mb_key b)"
    using robin_hoodD(2,3) [OF rh] at by metis
  obtain new' where new': "rehash_buckets ?tb ?new = Some new'" "robin_hood sip new'" "length new' = length ?new"
      "\<forall>x y. tb_has new' x y \<longleftrightarrow> tb_has ?new x y \<or>
        (\<exists>b\<in>set ?tb. mb_state b = BOccupied \<and> mb_key b = x \<and> mb_value b = y)"
    using rehash_buckets_all [OF empty_table(1) [OF sh, of sip] distinct_keys [OF rh]] ok filt le big
    by (auto simp: none)
  have member: "(\<exists>b\<in>set ?tb. mb_state b = BOccupied \<and> mb_key b = x \<and> mb_value b = y) \<longleftrightarrow> tb_has ?tb x y" for x y
    unfolding tb_has_def occ_def by (metis in_set_conv_nth)
  have "tb_has new' x y \<longleftrightarrow> f x = Some y" for x y
    using new'(4) empty_table(2) [OF sh] unfolding member has by blast
  then show ?thesis
    using new'(1-3) rep le big cap by (simp add: map_rehash_def map_repr_def mult.commute)
qed

subsection \<open>Insertion and lookup refine a finite map\<close>

lemma map_insert_repr:
  assumes rep: "map_repr sip m f" and k: "rval_ok k" and v: "v \<noteq> None" and small: "mo_len m < 45875"
  shows "\<exists>m'. map_insert sip k v m = Some (f k, m') \<and> map_repr sip m' (f(k \<mapsto> v))"
proof -
  have sh: "tb_shape (mo_buckets m)"
    using rep robin_hoodD(1) unfolding map_repr_def by blast
  have ne: "mo_buckets m \<noteq> []"
    using tb_shape_len [OF sh] by auto
  have grown: "\<exists>m1. (if map_should_grow (mo_len m) (mo_tombstones m) (length (mo_buckets m)) then map_rehash m
      else Some m) = Some m1 \<and> map_repr sip m1 f \<and> Suc (mo_len m1) < length (mo_buckets m1)"
  proof (cases "map_should_grow (mo_len m) (mo_tombstones m) (length (mo_buckets m))")
    case True
    have "length (mo_buckets m) \<le> 32768"
    proof -
      obtain c where c: "length (mo_buckets m) = 2 ^ c" "c \<le> 16"
        using sh unfolding tb_shape_def by blast
      have "length (mo_buckets m) < 65536"
        using True small rep by (simp add: map_should_grow_def map_repr_def)
      then have "(2::nat) ^ c < 2 ^ 16"
        using c(1) by simp
      then have "c < 16"
        by (simp only: power_strict_increasing_iff one_less_numeral_iff semiring_norm)
      then have "(2::nat) ^ c \<le> 2 ^ 15"
        by (intro power_increasing) simp_all
      then show ?thesis
        using c(1) by simp
    qed
    then show ?thesis
      using map_rehash_repr [OF rep] True by auto
  next
    case False
    then show ?thesis
      using rep tb_shape_len [OF sh] by (simp add: map_should_grow_def map_repr_def)
  qed
  then obtain m1 where m1: "(if map_should_grow (mo_len m) (mo_tombstones m) (length (mo_buckets m))
      then map_rehash m else Some m) = Some m1" "map_repr sip m1 f" "Suc (mo_len m1) < length (mo_buckets m1)"
    by blast
  let ?tb = "mo_buckets m1" and ?h = "hash_value sip k"
  let ?i = "map_bucket_index (length ?tb) ?h"
  have rh: "robin_hood sip ?tb" and has: "tb_has ?tb x y \<longleftrightarrow> f x = Some y"
    and len: "mo_len m1 = card (dom f)" for x y
    using m1(2) by (auto simp: map_repr_def)
  have keys: "tb_keys ?tb = dom f"
    using m1(2) by (rule map_repr_keys)
  have eq: "map_insert sip k v m = map_insert_loop v ?h k v ?i 0 m1"
    using k v ne m1(1) by (cases k; cases v) (simp_all add: map_insert_def Let_def)
  have i: "?i = slot ?tb (unat ?h) 0" "?i < length ?tb"
    using bucket_index_mod [OF robin_hoodD(1) [OF rh]] robin_hoodD(1) [OF rh] slot_less [of ?tb "unat ?h" 0]
    by (simp_all add: slot_def)
  have zero: "unat (0 :: 16 word) = 0" by simp
  show ?thesis
  proof (cases "f k")
    case None
    then have fresh: "k \<notin> tb_keys ?tb"
      using keys by (simp add: domIff)
    obtain n where n: "empty_at ?tb ?i n"
      using empty_ahead [OF rh _ i(2)] m1(3) len keys by auto
    note pend = pending_start(1) [OF rh k fresh]
    obtain tb' where tb': "rehash_bucket ?h k v ?i 0 ?tb = Some tb'" "robin_hood sip tb'"
        "length tb' = length ?tb" "\<forall>x y. tb_has tb' x y \<longleftrightarrow> (x = k \<and> y = v) \<or> tb_has ?tb x y"
      using rehash_bucket_places [OF rh pend zero i(1) n, of v] by auto
    have "map_insert sip k v m = Some (f k, m1\<lparr> mo_buckets := tb', mo_len := mo_len m1 + 1 \<rparr>)"
      using map_insert_loop_fresh [OF rh pend zero i(1) n tb'(1), of v] None eq by simp
    moreover have "finite (dom f)"
      using keys by (metis tb_keys_image finite_occ finite_imageI)
    then have "map_repr sip (m1\<lparr> mo_buckets := tb', mo_len := mo_len m1 + 1 \<rparr>) (f(k \<mapsto> v))"
      using m1(2,3) tb'(2-4) None by (auto simp: map_repr_def domIff)
    ultimately show ?thesis by blast
  next
    case (Some old)
    then obtain q where q: "occ ?tb q" "mb_key (?tb ! q) = k" "mb_value (?tb ! q) = old"
      using has [of k old] unfolding tb_has_def by blast
    have h: "mb_hash (?tb ! q) = ?h"
      using robin_hoodD(3) [OF rh q(1)] q(2) by simp
    have "map_insert sip k v m = Some (f k, m1\<lparr> mo_buckets := ?tb[q := (?tb ! q)\<lparr> mb_value := v \<rparr>] \<rparr>)"
      using map_insert_loop_present [OF rh q(1) zero le0, of ?i v v] i(1) h q eq Some by simp
    moreover have "map_repr sip (m1\<lparr> mo_buckets := ?tb[q := (?tb ! q)\<lparr> mb_value := v \<rparr>] \<rparr>) (f(k \<mapsto> v))"
      using m1(2) robin_hood_value [OF rh q(1), of v] q(2) Some
      by (auto simp: map_repr_def insert_absorb domIff)
    ultimately show ?thesis by blast
  qed
qed

lemma map_get_entry_repr:
  assumes rep: "map_repr sip m f" and k: "rval_ok k"
  shows "case f k of None \<Rightarrow> map_get_entry sip m k = Some None
    | Some v \<Rightarrow> \<exists>b. map_get_entry sip m k = Some (Some b) \<and> mb_value b = v"
proof -
  let ?tb = "mo_buckets m" and ?h = "hash_value sip k"
  let ?i = "map_bucket_index (length ?tb) ?h"
  have rh: "robin_hood sip ?tb" and has: "tb_has ?tb x y \<longleftrightarrow> f x = Some y"
    and len: "mo_len m = card (dom f)" and room: "mo_len m < length ?tb" for x y
    using rep by (auto simp: map_repr_def)
  have keys: "tb_keys ?tb = dom f"
    using rep by (rule map_repr_keys)
  have sh: "tb_shape ?tb"
    using robin_hoodD(1) [OF rh] .
  have i: "?i = slot ?tb (unat ?h) 0" "?i < length ?tb"
    using bucket_index_mod [OF sh] slot_less [OF sh, of "unat ?h" 0] by (simp_all add: slot_def)
  have eq: "map_get_entry sip m k = map_get_loop ?h k ?i 0 ?tb"
    using k tb_shape_len [OF sh] by (cases k) (auto simp: map_get_entry_def Let_def)
  have zero: "unat (0 :: 16 word) = 0" by simp
  show ?thesis
  proof (cases "f k")
    case None
    then have fresh: "k \<notin> tb_keys ?tb"
      using keys by (simp add: domIff)
    obtain n where n: "empty_at ?tb ?i n"
      using empty_ahead [OF rh _ i(2)] room len keys by auto
    show ?thesis
      using map_get_loop_absent [OF rh pending_start(1) [OF rh k fresh] zero i(1) n] None eq by simp
  next
    case (Some v)
    then obtain q where q: "occ ?tb q" "mb_key (?tb ! q) = k" "mb_value (?tb ! q) = v"
      using has [of k v] unfolding tb_has_def by blast
    have h: "mb_hash (?tb ! q) = ?h"
      using robin_hoodD(3) [OF rh q(1)] q(2) by simp
    then show ?thesis
      using map_get_loop_present [OF rh q(1) zero le0, of ?i] i(1) q eq Some by simp
  qed
qed

lemma power_from_spec: "n \<le> 2 ^ fuel * p \<Longrightarrow> \<exists>j. power_from fuel p n = 2 ^ j * p \<and> n \<le> 2 ^ j * p \<and>
    (j = 0 \<or> 2 ^ j * p < 2 * n)"
proof (induction fuel arbitrary: p)
  case (Suc fuel)
  show ?case
  proof (cases "n \<le> p")
    case False
    have "n \<le> 2 ^ fuel * (2 * p)"
      using Suc.prems by (simp add: mult.assoc mult.left_commute)
    from Suc.IH [OF this] obtain j where "power_from fuel (2 * p) n = 2 ^ j * (2 * p)" "n \<le> 2 ^ j * (2 * p)"
        "j = 0 \<or> 2 ^ j * (2 * p) < 2 * n"
      by blast
    with False show ?thesis
      by (intro exI [of _ "Suc j"]) (auto simp: mult.assoc mult.left_commute)
  qed (auto intro!: exI [of _ 0])
qed (auto intro!: exI [of _ 0])

lemma next_power_of_two_spec:
  assumes "n \<le> 45874"
  shows "\<exists>j\<le>16. next_power_of_two n = 2 ^ j \<and> n \<le> 2 ^ j"
proof -
  obtain j where j: "next_power_of_two n = 2 ^ j" "n \<le> 2 ^ j" "j = 0 \<or> 2 ^ j < 2 * n"
    using power_from_spec [of n 64 1] assms by (auto simp: next_power_of_two_def)
  have "j \<le> 16"
  proof (rule ccontr)
    assume "\<not> j \<le> 16"
    then have "(2::nat) ^ 17 \<le> 2 ^ j"
      by (intro power_increasing) simp_all
    then show False
      using j(3) assms \<open>\<not> j \<le> 16\<close> by auto
  qed
  with j show ?thesis by blast
qed

lemma alloc_entries_repr:
  "map_repr sip m f \<Longrightarrow> \<forall>(k, v)\<in>set kvs. rval_ok k \<and> v \<noteq> None \<Longrightarrow> mo_len m + length kvs \<le> 45875 \<Longrightarrow>
   \<exists>m'. alloc_entries sip kvs m = Some m' \<and> map_repr sip m' (f ++ map_of (rev kvs))"
proof (induction kvs arbitrary: m f)
  case (Cons kv kvs)
  obtain k v where kv: "kv = (k, v)" by (cases kv)
  have ok: "rval_ok k" "v \<noteq> None" "k \<noteq> None"
    using Cons.prems(2) kv rval_ok_not_None by auto
  obtain m1 where m1: "map_insert sip k v m = Some (f k, m1)" "map_repr sip m1 (f(k \<mapsto> v))"
    using map_insert_repr [OF Cons.prems(1) ok(1,2)] Cons.prems(3) by auto
  have fin: "finite (dom f)"
    using map_repr_keys [OF Cons.prems(1)] by (metis tb_keys_image finite_occ finite_imageI)
  have "mo_len m1 \<le> Suc (mo_len m)"
    using m1(2) Cons.prems(1) card_insert_le_m1 [of "Suc (card (dom f))" "dom f" k] fin
    by (auto simp: map_repr_def card_insert_if)
  then have small: "mo_len m1 + length kvs \<le> 45875"
    using Cons.prems(3) by simp
  have rest: "\<forall>(k, v)\<in>set kvs. rval_ok k \<and> v \<noteq> None"
    using Cons.prems(2) by simp
  from Cons.IH [OF m1(2) rest small] obtain m' where
    m': "alloc_entries sip kvs m1 = Some m'" "map_repr sip m' (f(k \<mapsto> v) ++ map_of (rev kvs))"
    by blast
  have eq: "f ++ map_of (rev (kv # kvs)) = f(k \<mapsto> v) ++ map_of (rev kvs)"
    by (simp add: kv)
  show ?case
  proof (intro exI conjI)
    show "alloc_entries sip (kv # kvs) m = Some m'"
      using m1(1) m'(1) ok(2,3) unfolding kv alloc_entries.simps by (simp del: not_None_eq)
    show "map_repr sip m' (f ++ map_of (rev (kv # kvs)))"
      unfolding eq by (rule m'(2))
  qed
qed simp

text \<open>
  C10: a map built from a list of entries (at most 45874, keys without a null inside) is built without
  looping, holds one entry for each different key, and a lookup returns the last value given for the
  key, or \<open>absent\<close>: the table with its displacements and rehashes is a finite map.
\<close>

theorem map_refines_finite_map:
  assumes "\<forall>(k, v)\<in>set kvs. rval_ok k \<and> v \<noteq> None" "length kvs \<le> 45874"
  shows "\<exists>m. alloc_map sip kvs = Some m \<and> coral_map_length m = card (fst ` set kvs) \<and>
    (\<forall>k. rval_ok k \<longrightarrow> coral_map_get sip m k =
       Some (case map_of (rev kvs) k of Some v \<Rightarrow> v | None \<Rightarrow> Some RUnit))"
proof -
  obtain j where j: "j \<le> 16" "next_power_of_two (length kvs) = 2 ^ j"
    using next_power_of_two_spec [OF assms(2)] by blast
  let ?c = "max (next_power_of_two (length kvs)) 8"
  let ?m = "\<lparr> mo_buckets = replicate ?c bucket_default, mo_len = 0, mo_tombstones = 0 \<rparr>"
  have "?c = 2 ^ max j 3"
  proof (cases "j \<le> 3")
    case True
    then have "(2::nat) ^ j \<le> 2 ^ 3"
      by (intro power_increasing) simp_all
    with True j(2) show ?thesis by (simp add: max_def)
  next
    case False
    then have "(2::nat) ^ 3 \<le> 2 ^ j"
      by (intro power_increasing) simp_all
    with False j(2) show ?thesis by (simp add: max_def)
  qed
  then have sh: "tb_shape (replicate ?c bucket_default)"
    unfolding tb_shape_def using j(1) by (intro exI [of _ "max j 3"]) simp
  have "map_repr sip ?m Map.empty"
    using empty_table [OF sh] by (simp add: map_repr_def)
  from alloc_entries_repr [OF this assms(1)] obtain m where
    m: "alloc_map sip kvs = Some m" "map_repr sip m (map_of (rev kvs))"
    using assms(2) by (auto simp: alloc_map_def Let_def)
  have "coral_map_length m = card (fst ` set kvs)"
    using m(2) by (simp add: map_repr_def coral_map_length_def dom_map_of_conv_image_fst)
  moreover have "coral_map_get sip m k = Some (case map_of (rev kvs) k of Some v \<Rightarrow> v | None \<Rightarrow> Some RUnit)"
    if k: "rval_ok k" for k
  proof -
    have "v \<noteq> None" if "map_of (rev kvs) k = Some v" for v
      using map_of_SomeD [OF that] assms(1) by auto
    then show ?thesis
      using map_get_entry_repr [OF m(2) k] k
      by (cases "map_of (rev kvs) k") (auto simp: coral_map_get_def)
  qed
  ultimately show ?thesis
    using m(1) by blast
qed

theorem map_refines_finite_map_witness:
  "\<forall>sip. \<exists>m. alloc_map sip [(Some (RString [97]), Some RUnit), (Some (RList [Some (RNumber 1)]), Some (RBool 1)),
       (Some (RString [97]), Some (RNumber 5))] = Some m \<and>
     coral_map_get sip m (Some (RString [97])) = Some (Some (RNumber 5)) \<and>
     coral_map_get sip m (Some (RNumber 1)) = Some (Some RUnit)"
proof
  fix sip
  show "\<exists>m. alloc_map sip [(Some (RString [97]), Some RUnit), (Some (RList [Some (RNumber 1)]), Some (RBool 1)),
       (Some (RString [97]), Some (RNumber 5))] = Some m \<and>
     coral_map_get sip m (Some (RString [97])) = Some (Some (RNumber 5)) \<and>
     coral_map_get sip m (Some (RNumber 1)) = Some (Some RUnit)"
    using map_refines_finite_map [of "[(Some (RString [97]), Some RUnit),
      (Some (RList [Some (RNumber 1)]), Some (RBool 1)), (Some (RString [97]), Some (RNumber 5))]" sip]
    by auto
qed

subsection \<open>Removals\<close>

definition empty_map :: map_object where
  "empty_map = \<lparr> mo_buckets = replicate 8 bucket_default, mo_len = 0, mo_tombstones = 0 \<rparr>"

lemma alloc_small: "length kvs \<le> 8 \<Longrightarrow> alloc_map sip kvs = alloc_entries sip kvs empty_map"
proof -
  assume "length kvs \<le> 8"
  moreover have "(64::nat) = Suc (Suc (Suc (Suc 60)))" by simp
  ultimately have "next_power_of_two (length kvs) \<le> 8"
    unfolding next_power_of_two_def by (simp only: power_from.simps) auto
  then show ?thesis
    by (simp add: alloc_map_def empty_map_def Let_def max_def)
qed

lemma map_insert_8:
  assumes "length (mo_buckets m) = 8" "mo_len m + mo_tombstones m < 6" "k \<noteq> None" "v \<noteq> None"
  shows "map_insert sip k v m =
    map_insert_loop v (hash_value sip k) k v (unat (hash_value sip k) mod 8) 0 m"
proof -
  have "tb_shape (mo_buckets m)"
    unfolding tb_shape_def by (rule exI [of _ 3]) (simp add: assms(1))
  then have "map_bucket_index 8 h = unat h mod 8" for h
    using bucket_index_mod [of "mo_buckets m" h] assms(1) by simp
  then show ?thesis
    using assms by (cases k; cases v) (auto simp: map_insert_def map_should_grow_def Let_def)
qed

lemma map_ops_8:
  assumes "length (mo_buckets m) = 8" "k \<noteq> None"
  shows "coral_map_remove sip k m = map_remove_loop 8 (hash_value sip k) k (unat (hash_value sip k) mod 8) m"
    and "map_get_entry sip m k = map_get_loop (hash_value sip k) k (unat (hash_value sip k) mod 8) 0 (mo_buckets m)"
proof -
  have "tb_shape (mo_buckets m)"
    unfolding tb_shape_def by (rule exI [of _ 3]) (simp add: assms(1))
  then have "map_bucket_index 8 h = unat h mod 8" for h
    using bucket_index_mod [of "mo_buckets m" h] assms(1) by simp
  then show "coral_map_remove sip k m = map_remove_loop 8 (hash_value sip k) k (unat (hash_value sip k) mod 8) m"
    "map_get_entry sip m k = map_get_loop (hash_value sip k) k (unat (hash_value sip k) mod 8) 0 (mo_buckets m)"
    using assms by (cases k; auto simp: coral_map_remove_def map_get_entry_def Let_def)+
qed

abbreviation table8 :: "map_bucket list \<Rightarrow> nat \<Rightarrow> nat \<Rightarrow> map_object" where
  "table8 bs len tombs \<equiv> \<lparr> mo_buckets = bs @ replicate (8 - length bs) bucket_default, mo_len = len, mo_tombstones = tombs \<rparr>"

lemma values_differ: "a \<noteq> b \<Longrightarrow> \<not> values_equal_handles a b"
  using values_equal_eq by blast

lemma probe_step:
  "map_insert_loop value h k v idx dist m =
     (let bucket = mo_buckets m ! idx; next = (idx + 1) AND (length (mo_buckets m) - 1) in
      if mb_state bucket \<noteq> BOccupied then
        Some (None, m\<lparr> mo_buckets := (mo_buckets m)[idx := bucket_occupied h dist k v],
          mo_len := mo_len m + 1,
          mo_tombstones := (if mb_state bucket = BTombstone then mo_tombstones m - 1 else mo_tombstones m) \<rparr>)
      else if mb_hash bucket = h \<and> values_equal_handles (mb_key bucket) k then
        Some (Some (mb_value bucket), m\<lparr> mo_buckets := (mo_buckets m)[idx := bucket\<lparr> mb_value := value \<rparr>] \<rparr>)
      else if mb_probe_dist bucket < dist then
        map_insert_loop value (mb_hash bucket) (mb_key bucket) (mb_value bucket) next (mb_probe_dist bucket + 1)
          (m\<lparr> mo_buckets := (mo_buckets m)[idx := bucket_occupied h dist k v] \<rparr>)
      else map_insert_loop value h k v next (dist + 1) m)"
  by (rule map_insert_loop.simps)

text \<open>Tables of eight slots with the entries written out.\<close>

definition tombstone :: "u64 \<Rightarrow> 16 word \<Rightarrow> map_bucket" where
  "tombstone h dist = \<lparr> mb_state = BTombstone, mb_hash = h, mb_probe_dist = dist, mb_key = None, mb_value = None \<rparr>"

lemma replicate_8: "replicate 8 x = [x, x, x, x, x, x, x, x]"
  by (simp add: numeral_eq_Suc)

lemma next_of_8: "n AND Suc (Suc (Suc (Suc (Suc (Suc (Suc 0)))))) = n mod 8"
proof -
  have "n AND (2 ^ 3 - 1) = n mod 2 ^ 3"
    by (simp only: mask_eq_exp_minus_1 [symmetric] take_bit_eq_mask [symmetric] take_bit_eq_mod)
  moreover have "(2::nat) ^ 3 - 1 = Suc (Suc (Suc (Suc (Suc (Suc (Suc 0))))))" "(2::nat) ^ 3 = 8"
    by simp_all
  ultimately show ?thesis
    by (simp only:)
qed

lemma remove_step:
  "0 < n \<Longrightarrow> map_remove_loop n hash key idx m =
     (let bucket = mo_buckets m ! idx; next = (idx + 1) AND (length (mo_buckets m) - 1) in
      case mb_state bucket of
        BEmpty \<Rightarrow> m
      | BOccupied \<Rightarrow>
          if mb_hash bucket = hash \<and> values_equal_handles (mb_key bucket) key then
            m\<lparr> mo_buckets := (mo_buckets m)[idx := bucket\<lparr> mb_state := BTombstone, mb_key := None, mb_value := None \<rparr>],
               mo_len := mo_len m - 1, mo_tombstones := mo_tombstones m + 1 \<rparr>
          else map_remove_loop (n - 1) hash key next m
      | BTombstone \<Rightarrow> map_remove_loop (n - 1) hash key next m)"
  by (cases n) (simp_all only: map_remove_loop.simps diff_Suc_1 less_irrefl simp_thms)

lemmas table_simps = next_of_8 replicate_8 empty_map_def bucket_default_def Let_def values_differ values_equal_refl
  map_ops_8 map_insert_8

lemma three_at_home:
  assumes "rval_ok a" "rval_ok b" "rval_ok e" "distinct [a, b, e]" "va \<noteq> None" "vb \<noteq> None" "ve \<noteq> None"
    "unat (hash_value sip a) mod 8 = 0" "unat (hash_value sip b) mod 8 = 0" "unat (hash_value sip e) mod 8 = 0"
  shows "alloc_map sip [(a, va), (b, vb), (e, ve)] = Some \<lparr> mo_buckets = [
      bucket_occupied (hash_value sip a) 0 a va, bucket_occupied (hash_value sip b) 1 b vb,
      bucket_occupied (hash_value sip e) 2 e ve, bucket_default, bucket_default, bucket_default, bucket_default,
      bucket_default], mo_len = 3, mo_tombstones = 0 \<rparr>"
proof -
  have ne: "a \<noteq> None" "b \<noteq> None" "e \<noteq> None"
    using assms(1-3) rval_ok_not_None by blast+
  note d = assms(4-10) ne
  show ?thesis
    using d
    by (simp add: alloc_small table_simps probe_step del: not_None_eq split del: if_split)
qed


text \<open>
  C27: the finite map does not survive removals. With the keys \<open>a\<close>, \<open>b\<close>, \<open>e\<close> of home slot 0 and \<open>y\<close>
  of home slot 1 in a table of eight slots: after \<open>b\<close> is removed and \<open>y\<close> set, \<open>e\<close> is no longer
  found though it was never removed, since \<open>y\<close> takes the tombstone at distance 0 and the probe for \<open>e\<close>
  stops there; and after \<open>a\<close> is removed and \<open>b\<close> set again, \<open>b\<close> is stored twice, so that the length is 2
  and removing \<open>b\<close> brings its old value back.
\<close>

theorem map_removal_breaks_lookup:
  assumes "rval_ok a" "rval_ok b" "rval_ok e" "rval_ok y" "distinct [a, b, e, y]"
    "va \<noteq> None" "vb \<noteq> None" "ve \<noteq> None" "vy \<noteq> None"
    "unat (hash_value sip a) mod 8 = 0" "unat (hash_value sip b) mod 8 = 0"
    "unat (hash_value sip e) mod 8 = 0" "unat (hash_value sip y) mod 8 = 1"
  shows "do { m \<leftarrow> alloc_map sip [(a, va), (b, vb), (e, ve)];
      m \<leftarrow> coral_map_set sip False y vy (coral_map_remove sip b m);
      coral_map_get sip m e } = Some (Some RUnit) \<and>
    do { m \<leftarrow> alloc_map sip [(a, va), (b, vb)];
      m \<leftarrow> coral_map_set sip False b vy (coral_map_remove sip a m);
      v \<leftarrow> coral_map_get sip (coral_map_remove sip b m) b;
      Some (coral_map_length m, v) } = Some (2, vb)"
proof -
  have ne: "a \<noteq> None" "b \<noteq> None" "e \<noteq> None" "y \<noteq> None"
    using assms(1-4) rval_ok_not_None by blast+
  note d = assms(5-13) ne
  have some: "(case v of None \<Rightarrow> Some RUnit | Some x \<Rightarrow> Some x) = v" if "v \<noteq> None" for v
    using that by (cases v) simp_all
  have three: "alloc_map sip [(a, va), (b, vb), (e, ve)] = Some \<lparr> mo_buckets = [
      bucket_occupied (hash_value sip a) 0 a va, bucket_occupied (hash_value sip b) 1 b vb,
      bucket_occupied (hash_value sip e) 2 e ve, bucket_default, bucket_default, bucket_default, bucket_default,
      bucket_default], mo_len = 3, mo_tombstones = 0 \<rparr>"
    using assms by (intro three_at_home) simp_all
  have "do { m \<leftarrow> alloc_map sip [(a, va), (b, vb), (e, ve)];
      m \<leftarrow> coral_map_set sip False y vy (coral_map_remove sip b m);
      coral_map_get sip m e } = Some (Some RUnit)"
    using d assms(2)
    by (simp add: three coral_map_set_def coral_map_get_def table_simps remove_step probe_step
      map_get_loop.simps del: not_None_eq split del: if_split)
  moreover have "do { m \<leftarrow> alloc_map sip [(a, va), (b, vb)];
      m \<leftarrow> coral_map_set sip False b vy (coral_map_remove sip a m);
      v \<leftarrow> coral_map_get sip (coral_map_remove sip b m) b;
      Some (coral_map_length m, v) } = Some (2, vb)"
    using d assms(1,2)
    by (simp add: alloc_small coral_map_set_def coral_map_get_def table_simps remove_step probe_step
      map_get_loop.simps coral_map_length_def some del: not_None_eq split del: if_split)
  ultimately show ?thesis ..
qed

theorem map_removal_breaks_lookup_witness:
  "\<exists>sip. do { m \<leftarrow> alloc_map sip [(Some (RBool 0), Some RUnit), (Some (RBool 1), Some RUnit), (Some (RBool 2), Some RUnit)];
      m \<leftarrow> coral_map_set sip False (Some (RBool 3)) (Some RUnit) (coral_map_remove sip (Some (RBool 1)) m);
      coral_map_get sip m (Some (RBool 2)) } = Some (Some RUnit) \<and>
    do { m \<leftarrow> alloc_map sip [(Some (RBool 0), Some RUnit), (Some (RBool 1), Some (RNumber 1))];
      m \<leftarrow> coral_map_set sip False (Some (RBool 1)) (Some (RNumber 2)) (coral_map_remove sip (Some (RBool 0)) m);
      v \<leftarrow> coral_map_get sip (coral_map_remove sip (Some (RBool 1)) m) (Some (RBool 1));
      Some (coral_map_length m, v) } = Some (2, Some (RNumber 1))"
proof -
  define sip :: "bytes \<Rightarrow> u64" where "sip = (\<lambda>bs. if bs = [1, 3] then 1 else 0)"
  have h: "hash_value sip (Some (RBool b)) = (if b = 3 then 1 else 0)" for b
    by (subst hash_value.simps) (simp add: sip_def)
  from map_removal_breaks_lookup [of "Some (RBool 0)" "Some (RBool 1)" "Some (RBool 2)" "Some (RBool 3)"
    "Some RUnit" "Some RUnit" "Some RUnit" "Some RUnit" sip]
    map_removal_breaks_lookup [of "Some (RBool 0)" "Some (RBool 1)" "Some (RBool 2)" "Some (RBool 3)"
    "Some RUnit" "Some (RNumber 1)" "Some RUnit" "Some (RNumber 2)" sip]
  show ?thesis
    by (intro exI [of _ sip]) (simp add: h)
qed

end
