(* ===== verification/NanBox.thy ===== *)
theory NanBox
  imports Coral_Prelude
begin

text \<open>
  The NaN-boxed value representation of \<open>runtime/src/nanbox.rs\<close>. A value is one 64-bit word;
  an IEEE double is represented by its bits (\<open>f64::to_bits\<close>). The arithmetic unit itself
  (\<open>+\<close>, \<open>-\<close>, \<open>*\<close>, \<open>/\<close>, \<open>%\<close> on doubles) is a parameter of the \<open>fast_\<close>
  operations; comparison of doubles is defined on the bits.
\<close>

type_synonym f64 = u64
type_synonym nanbox = u64

subsection \<open>Constants\<close>

definition QNAN_PREFIX :: u64 where "QNAN_PREFIX = 0x7FF8000000000000"
definition QNAN_MASK :: u64 where "QNAN_MASK = 0xFFF8000000000000"
definition TAG_SHIFT :: nat where "TAG_SHIFT = 48"
definition TAG_MASK :: u64 where "TAG_MASK = 0x0007000000000000"
definition PAYLOAD_MASK :: u64 where "PAYLOAD_MASK = 0x0000FFFFFFFFFFFF"
definition TAG_HEAP :: u64 where "TAG_HEAP = 0"
definition TAG_BOOL :: u64 where "TAG_BOOL = 1"
definition TAG_UNIT :: u64 where "TAG_UNIT = 2"
definition TAG_NONE :: u64 where "TAG_NONE = 3"
definition TAG_ERROR :: u64 where "TAG_ERROR = 4"
definition TAG_CANONICAL_NAN :: u64 where "TAG_CANONICAL_NAN = 7"

definition TRUE_BITS :: u64 where
  "TRUE_BITS = QNAN_PREFIX OR push_bit TAG_SHIFT TAG_BOOL OR 1"
definition FALSE_BITS :: u64 where
  "FALSE_BITS = QNAN_PREFIX OR push_bit TAG_SHIFT TAG_BOOL"
definition UNIT_BITS :: u64 where
  "UNIT_BITS = QNAN_PREFIX OR push_bit TAG_SHIFT TAG_UNIT"
definition NONE_BITS :: u64 where
  "NONE_BITS = QNAN_PREFIX OR push_bit TAG_SHIFT TAG_NONE"
definition CANONICAL_NAN_BITS :: u64 where
  "CANONICAL_NAN_BITS = QNAN_PREFIX OR push_bit TAG_SHIFT TAG_CANONICAL_NAN"

named_theorems nanbox_consts \<open>the numeric values of the constants\<close>

lemmas nanbox_raw [nanbox_consts] =
  QNAN_PREFIX_def QNAN_MASK_def TAG_SHIFT_def TAG_MASK_def PAYLOAD_MASK_def
  TAG_HEAP_def TAG_BOOL_def TAG_UNIT_def TAG_NONE_def TAG_ERROR_def TAG_CANONICAL_NAN_def

lemma TRUE_BITS_eq [nanbox_consts]: "TRUE_BITS = 0x7FF9000000000001"
  by (simp add: TRUE_BITS_def nanbox_raw)

lemma FALSE_BITS_eq [nanbox_consts]: "FALSE_BITS = 0x7FF9000000000000"
  by (simp add: FALSE_BITS_def nanbox_raw)

lemma UNIT_BITS_eq [nanbox_consts]: "UNIT_BITS = 0x7FFA000000000000"
  by (simp add: UNIT_BITS_def nanbox_raw)

lemma NONE_BITS_eq [nanbox_consts]: "NONE_BITS = 0x7FFB000000000000"
  by (simp add: NONE_BITS_def nanbox_raw)

lemma CANONICAL_NAN_BITS_eq [nanbox_consts]: "CANONICAL_NAN_BITS = 0x7FFF000000000000"
  by (simp add: CANONICAL_NAN_BITS_def nanbox_raw)

subsection \<open>Doubles by their bits\<close>

definition F64_NAN :: f64 where "F64_NAN = 0x7FF8000000000000"

definition f64_magnitude :: "f64 \<Rightarrow> u64" where
  "f64_magnitude b = b AND 0x7FFFFFFFFFFFFFFF"

definition f64_is_nan :: "f64 \<Rightarrow> bool" where
  "f64_is_nan b \<longleftrightarrow> 0x7FF0000000000000 < f64_magnitude b"

text \<open>The order of the non-NaN doubles: sign and magnitude, with the two zeros equal.\<close>

definition f64_key :: "f64 \<Rightarrow> int" where
  "f64_key b = (if bit b 63 then - uint (f64_magnitude b) else uint (f64_magnitude b))"

definition f64_eq :: "f64 \<Rightarrow> f64 \<Rightarrow> bool" where
  "f64_eq a b \<longleftrightarrow> \<not> f64_is_nan a \<and> \<not> f64_is_nan b \<and> f64_key a = f64_key b"

definition f64_lt :: "f64 \<Rightarrow> f64 \<Rightarrow> bool" where
  "f64_lt a b \<longleftrightarrow> \<not> f64_is_nan a \<and> \<not> f64_is_nan b \<and> f64_key a < f64_key b"

lemma f64_eq_refl [simp]: "f64_eq a a \<longleftrightarrow> \<not> f64_is_nan a"
  by (simp add: f64_eq_def)

lemma f64_eq_sym: "f64_eq a b = f64_eq b a"
  by (auto simp: f64_eq_def)

subsection \<open>Constructors\<close>

definition from_number :: "f64 \<Rightarrow> nanbox" where
  "from_number n = (let bits = n in
     if (bits AND QNAN_MASK) = QNAN_PREFIX then CANONICAL_NAN_BITS else bits)"

definition from_bool :: "bool \<Rightarrow> nanbox" where
  "from_bool b = (if b then TRUE_BITS else FALSE_BITS)"

definition nb_unit :: nanbox where "nb_unit = UNIT_BITS"
definition nb_none :: nanbox where "nb_none = NONE_BITS"

text \<open>\<open>assert!\<close> panics in every build.\<close>

definition from_heap_ptr :: "u64 \<Rightarrow> (unit, nanbox) outcome" where
  "from_heap_ptr addr =
     (if addr AND NOT PAYLOAD_MASK \<noteq> 0 then Panic
      else Ok (QNAN_PREFIX OR push_bit TAG_SHIFT TAG_HEAP OR (addr AND PAYLOAD_MASK)))"

text \<open>\<open>debug_assert!\<close> panics in debug builds only; a release build masks the address.\<close>

definition from_error_ptr :: "bool \<Rightarrow> u64 \<Rightarrow> (unit, nanbox) outcome" where
  "from_error_ptr debug addr =
     (if debug \<and> addr AND NOT PAYLOAD_MASK \<noteq> 0 then Panic
      else Ok (QNAN_PREFIX OR push_bit TAG_SHIFT TAG_ERROR OR (addr AND PAYLOAD_MASK)))"

definition nb_from_bits :: "u64 \<Rightarrow> nanbox" where "nb_from_bits bits = bits"
definition nb_to_bits :: "nanbox \<Rightarrow> u64" where "nb_to_bits v = v"

subsection \<open>Classification\<close>

definition tag_bits :: "nanbox \<Rightarrow> u64" where
  "tag_bits v = drop_bit TAG_SHIFT (v AND TAG_MASK)"

definition is_number :: "nanbox \<Rightarrow> bool" where
  "is_number v \<longleftrightarrow> (v AND QNAN_MASK) \<noteq> QNAN_PREFIX \<or> v = CANONICAL_NAN_BITS"

definition is_heap_ptr :: "nanbox \<Rightarrow> bool" where
  "is_heap_ptr v \<longleftrightarrow>
     (v AND QNAN_MASK) = QNAN_PREFIX \<and> tag_bits v = TAG_HEAP \<and> v \<noteq> QNAN_PREFIX"

definition is_bool :: "nanbox \<Rightarrow> bool" where
  "is_bool v \<longleftrightarrow> (v AND QNAN_MASK) = QNAN_PREFIX \<and> tag_bits v = TAG_BOOL"

definition is_unit :: "nanbox \<Rightarrow> bool" where "is_unit v \<longleftrightarrow> v = UNIT_BITS"
definition is_none :: "nanbox \<Rightarrow> bool" where "is_none v \<longleftrightarrow> v = NONE_BITS"

definition is_error :: "nanbox \<Rightarrow> bool" where
  "is_error v \<longleftrightarrow> (v AND QNAN_MASK) = QNAN_PREFIX \<and> tag_bits v = TAG_ERROR"

definition is_immediate :: "nanbox \<Rightarrow> bool" where
  "is_immediate v \<longleftrightarrow> \<not> is_heap_ptr v \<and> \<not> is_error v"

subsection \<open>Extractors\<close>

definition as_number :: "nanbox \<Rightarrow> f64" where
  "as_number v = (if v = CANONICAL_NAN_BITS then F64_NAN
     else if (v AND QNAN_MASK) \<noteq> QNAN_PREFIX then v else 0)"

definition as_f64_unchecked :: "nanbox \<Rightarrow> f64" where "as_f64_unchecked v = v"

definition as_bool :: "nanbox \<Rightarrow> bool" where "as_bool v \<longleftrightarrow> v = TRUE_BITS"

definition is_truthy :: "nanbox \<Rightarrow> bool" where
  "is_truthy v =
     (if v = FALSE_BITS \<or> v = NONE_BITS \<or> v = UNIT_BITS then False
      else if is_error v then False
      else if is_number v then \<not> f64_eq (as_number v) 0
      else True)"

definition as_heap_ptr :: "nanbox \<Rightarrow> u64" where
  "as_heap_ptr v = (if is_heap_ptr v then v AND PAYLOAD_MASK else 0)"

definition as_heap_ptr_unchecked :: "nanbox \<Rightarrow> u64" where
  "as_heap_ptr_unchecked v = v AND PAYLOAD_MASK"

definition as_error_ptr :: "nanbox \<Rightarrow> u64" where
  "as_error_ptr v = (if is_error v then v AND PAYLOAD_MASK else 0)"

subsection \<open>Fast paths\<close>

text \<open>
  \<open>fast_add\<close>, \<open>fast_sub\<close>, \<open>fast_mul\<close>, \<open>fast_div\<close> and \<open>fast_rem\<close> differ only in
  the operation of the floating-point unit, which is the parameter \<open>fop\<close>.
\<close>

definition fast_arith :: "(f64 \<Rightarrow> f64 \<Rightarrow> f64) \<Rightarrow> nanbox \<Rightarrow> nanbox \<Rightarrow> nanbox option" where
  "fast_arith fop a b =
     (if is_number a \<and> is_number b then Some (from_number (fop (as_number a) (as_number b)))
      else None)"

definition fast_equals :: "nanbox \<Rightarrow> nanbox \<Rightarrow> bool option" where
  "fast_equals a b =
     (if is_number a \<and> is_number b then Some (f64_eq (as_number a) (as_number b))
      else if is_immediate a \<and> is_immediate b then Some (a = b)
      else None)"

definition fast_less_than :: "nanbox \<Rightarrow> nanbox \<Rightarrow> bool option" where
  "fast_less_than a b =
     (if is_number a \<and> is_number b then Some (f64_lt (as_number a) (as_number b)) else None)"

definition fast_greater_than :: "nanbox \<Rightarrow> nanbox \<Rightarrow> bool option" where
  "fast_greater_than a b =
     (if is_number a \<and> is_number b then Some (f64_lt (as_number b) (as_number a)) else None)"

text \<open>The classification the \<open>Debug\<close> formatter prints, in its order of tests.\<close>

datatype nb_view =
    NbNumber f64 | NbBool bool | NbUnit | NbNone | NbError u64 | NbHeap u64 | NbUnknown u64

definition nb_debug :: "nanbox \<Rightarrow> nb_view" where
  "nb_debug v =
     (if is_number v then NbNumber (as_number v)
      else if is_bool v then NbBool (as_bool v)
      else if is_unit v then NbUnit
      else if is_none v then NbNone
      else if is_error v then NbError (v AND PAYLOAD_MASK)
      else if is_heap_ptr v then NbHeap (v AND PAYLOAD_MASK)
      else NbUnknown v)"

definition nb_default :: nanbox where "nb_default = nb_unit"

subsection \<open>Masks\<close>

text \<open>The prefix test of a word assembled from prefix, tag and payload is decided by constants.\<close>

lemmas nanbox_bits =
  bit.conj_disj_distrib2 bit.conj_disj_distrib and.assoc nanbox_consts tag_bits_def

lemma payload_guard: "addr AND NOT PAYLOAD_MASK = 0 \<longleftrightarrow> addr AND PAYLOAD_MASK = addr"
proof
  assume "addr AND NOT PAYLOAD_MASK = 0"
  then have "(addr AND PAYLOAD_MASK) OR (addr AND NOT PAYLOAD_MASK) = addr AND PAYLOAD_MASK"
    by simp
  then show "addr AND PAYLOAD_MASK = addr"
    by (simp flip: bit.conj_disj_distrib)
next
  assume "addr AND PAYLOAD_MASK = addr"
  then have "addr AND NOT PAYLOAD_MASK = addr AND (PAYLOAD_MASK AND NOT PAYLOAD_MASK)"
    by (metis and.assoc)
  then show "addr AND NOT PAYLOAD_MASK = 0"
    by simp
qed

lemma payload_guard_bound: "addr AND NOT PAYLOAD_MASK = 0 \<longleftrightarrow> addr < 2 ^ 48"
proof -
  have "PAYLOAD_MASK = mask 48"
    by (simp add: PAYLOAD_MASK_def mask_eq_exp_minus_1)
  then have "addr AND PAYLOAD_MASK = take_bit 48 addr"
    by (simp add: take_bit_eq_mask)
  moreover have "take_bit 48 addr = addr \<longleftrightarrow> unat addr < 2 ^ 48"
    by (simp add: word_unat_eq_iff unsigned_take_bit_eq take_bit_nat_eq_self_iff)
  ultimately show ?thesis
    by (simp add: payload_guard word_less_nat_alt)
qed

lemma tagged_prefix [simp]:
  "((0x7FF8000000000000 OR (a AND PAYLOAD_MASK)) AND QNAN_MASK) = QNAN_PREFIX"
  "((0x7FFC000000000000 OR (a AND PAYLOAD_MASK)) AND QNAN_MASK) = QNAN_PREFIX"
  by (simp_all add: nanbox_bits)

lemma tagged_payload [simp]:
  "((0x7FF8000000000000 OR (a AND PAYLOAD_MASK)) AND PAYLOAD_MASK) = a AND PAYLOAD_MASK"
  "((0x7FFC000000000000 OR (a AND PAYLOAD_MASK)) AND PAYLOAD_MASK) = a AND PAYLOAD_MASK"
  by (simp_all add: nanbox_bits)

lemma tagged_tag [simp]:
  "tag_bits (0x7FF8000000000000 OR (a AND PAYLOAD_MASK)) = TAG_HEAP"
  "tag_bits (0x7FFC000000000000 OR (a AND PAYLOAD_MASK)) = TAG_ERROR"
  by (simp_all add: nanbox_bits)

lemma from_heap_ptr_Ok_iff:
  "from_heap_ptr a = Ok v \<longleftrightarrow> a < 2 ^ 48 \<and> v = 0x7FF8000000000000 OR (a AND PAYLOAD_MASK)"
  by (auto simp: from_heap_ptr_def payload_guard_bound QNAN_PREFIX_def TAG_HEAP_def)

lemma from_error_ptr_Ok_iff:
  "from_error_ptr debug a = Ok v \<longleftrightarrow>
     (debug \<longrightarrow> a < 2 ^ 48) \<and> v = 0x7FFC000000000000 OR (a AND PAYLOAD_MASK)"
  by (auto simp: from_error_ptr_def payload_guard_bound QNAN_PREFIX_def TAG_ERROR_def TAG_SHIFT_def
      simp flip: or.assoc)

subsection \<open>Classification\<close>

lemma const_prefix [simp]:
  "(TRUE_BITS AND QNAN_MASK) = QNAN_PREFIX" "(FALSE_BITS AND QNAN_MASK) = QNAN_PREFIX"
  "(UNIT_BITS AND QNAN_MASK) = QNAN_PREFIX" "(NONE_BITS AND QNAN_MASK) = QNAN_PREFIX"
  "(CANONICAL_NAN_BITS AND QNAN_MASK) = QNAN_PREFIX"
  by (simp_all add: nanbox_consts)

lemma const_tag [simp]:
  "tag_bits TRUE_BITS = TAG_BOOL" "tag_bits FALSE_BITS = TAG_BOOL"
  "tag_bits UNIT_BITS = TAG_UNIT" "tag_bits NONE_BITS = TAG_NONE"
  "tag_bits CANONICAL_NAN_BITS = TAG_CANONICAL_NAN"
  by (simp_all add: nanbox_consts tag_bits_def)

lemma tags_distinct [simp]:
  "TAG_HEAP \<noteq> TAG_BOOL" "TAG_HEAP \<noteq> TAG_UNIT" "TAG_HEAP \<noteq> TAG_NONE" "TAG_HEAP \<noteq> TAG_ERROR"
  "TAG_HEAP \<noteq> TAG_CANONICAL_NAN" "TAG_BOOL \<noteq> TAG_HEAP" "TAG_BOOL \<noteq> TAG_UNIT"
  "TAG_BOOL \<noteq> TAG_NONE" "TAG_BOOL \<noteq> TAG_ERROR" "TAG_BOOL \<noteq> TAG_CANONICAL_NAN"
  "TAG_UNIT \<noteq> TAG_HEAP" "TAG_UNIT \<noteq> TAG_BOOL" "TAG_UNIT \<noteq> TAG_NONE" "TAG_UNIT \<noteq> TAG_ERROR"
  "TAG_UNIT \<noteq> TAG_CANONICAL_NAN" "TAG_NONE \<noteq> TAG_HEAP" "TAG_NONE \<noteq> TAG_BOOL"
  "TAG_NONE \<noteq> TAG_UNIT" "TAG_NONE \<noteq> TAG_ERROR" "TAG_NONE \<noteq> TAG_CANONICAL_NAN"
  "TAG_ERROR \<noteq> TAG_HEAP" "TAG_ERROR \<noteq> TAG_BOOL" "TAG_ERROR \<noteq> TAG_UNIT"
  "TAG_ERROR \<noteq> TAG_NONE" "TAG_ERROR \<noteq> TAG_CANONICAL_NAN"
  "TAG_CANONICAL_NAN \<noteq> TAG_HEAP" "TAG_CANONICAL_NAN \<noteq> TAG_BOOL"
  "TAG_CANONICAL_NAN \<noteq> TAG_UNIT" "TAG_CANONICAL_NAN \<noteq> TAG_NONE"
  "TAG_CANONICAL_NAN \<noteq> TAG_ERROR"
  by (simp_all add: nanbox_raw)

lemmas nanbox_class =
  is_number_def is_bool_def is_unit_def is_none_def is_error_def is_heap_ptr_def

lemma bool_const_distinct [simp]: "TRUE_BITS \<noteq> FALSE_BITS" "FALSE_BITS \<noteq> TRUE_BITS"
  by (simp_all add: nanbox_consts)

lemma const_not_number [simp]:
  "TRUE_BITS \<noteq> CANONICAL_NAN_BITS" "FALSE_BITS \<noteq> CANONICAL_NAN_BITS"
  "UNIT_BITS \<noteq> CANONICAL_NAN_BITS" "NONE_BITS \<noteq> CANONICAL_NAN_BITS"
  "NONE_BITS \<noteq> UNIT_BITS" "UNIT_BITS \<noteq> NONE_BITS"
  by (metis const_tag tags_distinct)+

lemma tag_not_canonical [simp]:
  "tag_bits v = TAG_HEAP \<Longrightarrow> v \<noteq> CANONICAL_NAN_BITS" "tag_bits v = TAG_BOOL \<Longrightarrow> v \<noteq> CANONICAL_NAN_BITS"
  "tag_bits v = TAG_ERROR \<Longrightarrow> v \<noteq> CANONICAL_NAN_BITS"
  by auto

text \<open>Canonical form of a double: the positive quiet NaNs collapse to one.\<close>

definition canonical_f64 :: "f64 \<Rightarrow> f64" where
  "canonical_f64 n = (if (n AND QNAN_MASK) = QNAN_PREFIX then F64_NAN else n)"

lemma positive_qnan_is_nan: "(n AND QNAN_MASK) = QNAN_PREFIX \<Longrightarrow> f64_is_nan n"
proof -
  assume p: "(n AND QNAN_MASK) = QNAN_PREFIX"
  have "(n AND 0x7FFFFFFFFFFFFFFF) AND 0x7FF8000000000000 = (n AND QNAN_MASK) AND 0x7FF8000000000000"
    by (simp add: and.assoc QNAN_MASK_def)
  also have "\<dots> = 0x7FF8000000000000"
    by (simp add: p QNAN_PREFIX_def)
  finally have "0x7FF8000000000000 \<le> f64_magnitude n"
    unfolding f64_magnitude_def by (metis word_and_le2)
  moreover have "(0x7FF0000000000000 :: u64) < 0x7FF8000000000000"
    by simp
  ultimately show "f64_is_nan n"
    unfolding f64_is_nan_def by (rule order.strict_trans2 [rotated])
qed

lemma canonical_f64_nan: "f64_is_nan (canonical_f64 n) = f64_is_nan n"
  by (auto simp: canonical_f64_def positive_qnan_is_nan)
    (simp add: f64_is_nan_def f64_magnitude_def F64_NAN_def)

lemma from_number_is_number [simp]: "is_number (from_number n)"
  by (simp add: is_number_def from_number_def Let_def)

lemma as_number_from_number [simp]: "as_number (from_number n) = canonical_f64 n"
  by (auto simp: as_number_def from_number_def canonical_f64_def Let_def)

text \<open>How each constructor's word is seen by the formatter's classification.\<close>

lemma debug_from_number: "nb_debug (from_number n) = NbNumber (canonical_f64 n)"
  by (simp add: nb_debug_def)

lemma debug_from_bool: "nb_debug (from_bool b) = NbBool b"
  by (simp add: nb_debug_def from_bool_def nanbox_class as_bool_def)

lemma debug_unit: "nb_debug nb_unit = NbUnit"
  by (simp add: nb_debug_def nb_unit_def nanbox_class)

lemma debug_none: "nb_debug nb_none = NbNone"
  by (simp add: nb_debug_def nb_none_def nanbox_class)

lemma heap_word_null: "(0x7FF8000000000000 OR (a AND PAYLOAD_MASK) = QNAN_PREFIX) \<longleftrightarrow> a AND PAYLOAD_MASK = 0"
proof
  assume "0x7FF8000000000000 OR (a AND PAYLOAD_MASK) = QNAN_PREFIX"
  then have "(0x7FF8000000000000 OR (a AND PAYLOAD_MASK)) AND PAYLOAD_MASK = QNAN_PREFIX AND PAYLOAD_MASK"
    by simp
  then show "a AND PAYLOAD_MASK = 0"
    by (simp only: tagged_payload) (simp add: QNAN_PREFIX_def PAYLOAD_MASK_def)
qed (simp add: QNAN_PREFIX_def)

lemma debug_heap:
  assumes "a < 2 ^ 48" "a \<noteq> 0"
  shows "nb_debug (0x7FF8000000000000 OR (a AND PAYLOAD_MASK)) = NbHeap a"
proof -
  have a: "a AND PAYLOAD_MASK = a"
    using assms(1) by (simp add: payload_guard [symmetric] payload_guard_bound)
  let ?w = "0x7FF8000000000000 OR (a AND PAYLOAD_MASK)"
  have "?w \<noteq> UNIT_BITS" "?w \<noteq> NONE_BITS" "?w \<noteq> CANONICAL_NAN_BITS" "?w \<noteq> QNAN_PREFIX"
    using tagged_tag(1) [of a] heap_word_null [of a] assms(2) a by (metis const_tag tags_distinct)+
  moreover have "?w AND PAYLOAD_MASK = a"
    unfolding tagged_payload by (rule a)
  ultimately show ?thesis
    unfolding nb_debug_def nanbox_class by (simp del: tagged_payload)
qed

lemma debug_error:
  assumes "a < 2 ^ 48"
  shows "nb_debug (0x7FFC000000000000 OR (a AND PAYLOAD_MASK)) = NbError a"
proof -
  have a: "a AND PAYLOAD_MASK = a"
    using assms(1) by (simp add: payload_guard [symmetric] payload_guard_bound)
  let ?w = "0x7FFC000000000000 OR (a AND PAYLOAD_MASK)"
  have "?w \<noteq> UNIT_BITS" "?w \<noteq> NONE_BITS" "?w \<noteq> CANONICAL_NAN_BITS"
    using tagged_tag(2) [of a] by (metis const_tag tags_distinct)+
  moreover have "?w AND PAYLOAD_MASK = a"
    unfolding tagged_payload by (rule a)
  ultimately show ?thesis
    unfolding nb_debug_def nanbox_class by (simp del: tagged_payload)
qed

lemma f64_eq_zero: "f64_eq n 0 \<longleftrightarrow> f64_magnitude n = 0"
  by (auto simp: f64_eq_def f64_key_def f64_is_nan_def f64_magnitude_def uint_0_iff)

lemma f64_eq_trans: "f64_eq a b \<Longrightarrow> f64_eq b c \<Longrightarrow> f64_eq a c"
  by (simp add: f64_eq_def)

lemma nb_number_tag: "\<not> is_number v \<Longrightarrow> (v AND QNAN_MASK) = QNAN_PREFIX"
  by (simp add: is_number_def)

subsection \<open>Properties\<close>

text \<open>
  C34: round trip. Every constructor's word is classified as what was stored: a number comes back
  with its bits, except that a positive quiet NaN becomes the canonical NaN; booleans, unit and
  none come back as themselves; a non-null heap address and an error address below \<open>2^48\<close>
  come back unchanged.
\<close>

theorem nb_constructors_roundtrip:
  assumes heap: "from_heap_ptr a = Ok h" "a \<noteq> 0"
    and err: "from_error_ptr True e = Ok r"
  shows "nb_debug (from_number n) = NbNumber (canonical_f64 n) \<and>
    nb_debug (from_bool b) = NbBool b \<and> nb_debug nb_unit = NbUnit \<and> nb_debug nb_none = NbNone \<and>
    nb_debug h = NbHeap a \<and> as_heap_ptr h = a \<and> nb_debug r = NbError e \<and> as_error_ptr r = e"
proof -
  have h: "nb_debug h = NbHeap a"
    using heap by (simp add: from_heap_ptr_Ok_iff debug_heap)
  then have "as_heap_ptr h = a"
    by (auto simp: nb_debug_def as_heap_ptr_def split: if_splits)
  moreover have r: "nb_debug r = NbError e"
    using err by (simp add: from_error_ptr_Ok_iff debug_error)
  then have "as_error_ptr r = e"
    by (auto simp: nb_debug_def as_error_ptr_def split: if_splits)
  ultimately show ?thesis
    using h r debug_from_number debug_from_bool debug_unit debug_none by blast
qed

theorem nb_constructors_roundtrip_witness:
  "\<exists>h r. from_heap_ptr 0x7FFFABCD0010 = Ok h \<and> from_error_ptr True 16 = Ok r \<and>
     nb_debug h = NbHeap 0x7FFFABCD0010 \<and> as_heap_ptr h = 0x7FFFABCD0010 \<and>
     nb_debug r = NbError 16"
proof -
  have h: "from_heap_ptr 0x7FFFABCD0010 = Ok 0x7FF87FFFABCD0010"
    by (simp add: from_heap_ptr_def nanbox_consts)
  have r: "from_error_ptr True 16 = Ok 0x7FFC000000000010"
    by (simp add: from_error_ptr_def nanbox_consts)
  show ?thesis
    using nb_constructors_roundtrip [OF h _ r] h r by auto
qed

text \<open>
  No type confusion. Every 64-bit pattern satisfies at most one of the six type predicates,
  and none exactly when the formatter calls it unknown.
\<close>

theorem nb_kinds_exclusive:
  "length (filter (\<lambda>p. p v) [is_number, is_bool, is_unit, is_none, is_error, is_heap_ptr]) =
     (case nb_debug v of NbUnknown _ \<Rightarrow> 0 | _ \<Rightarrow> 1)"
  by (auto simp: nb_debug_def nanbox_class)

text \<open>
  Truthiness of every pattern by its class. False are the false word, unit, none, every error
  and the two zeros; NaN and every heap value are true.
\<close>

theorem nb_truthy_by_kind:
  "is_truthy v =
     (case nb_debug v of
        NbNumber n \<Rightarrow> f64_magnitude n \<noteq> 0
      | NbBool _ \<Rightarrow> v \<noteq> FALSE_BITS
      | NbUnit \<Rightarrow> False | NbNone \<Rightarrow> False | NbError _ \<Rightarrow> False
      | NbHeap _ \<Rightarrow> True | NbUnknown _ \<Rightarrow> True)"
proof (cases "is_number v")
  case True
  then have "v \<noteq> FALSE_BITS" "v \<noteq> NONE_BITS" "v \<noteq> UNIT_BITS" "\<not> is_error v"
    by (auto simp: nanbox_class)
  with True show ?thesis
    by (simp add: is_truthy_def nb_debug_def f64_eq_zero)
next
  case False
  then show ?thesis
    by (auto simp: is_truthy_def nb_debug_def nanbox_class)
qed

text \<open>
  The inline equality is symmetric, transitive, and reflexive on immediates except NaN; it
  answers exactly when neither operand is a heap value or an error.
\<close>

theorem nb_fast_equals_equivalence:
  "fast_equals a b = fast_equals b a \<and>
   (fast_equals a b = None \<longleftrightarrow> is_heap_ptr a \<or> is_error a \<or> is_heap_ptr b \<or> is_error b) \<and>
   (fast_equals a b = Some True \<and> fast_equals b c = Some True \<longrightarrow> fast_equals a c = Some True) \<and>
   (is_immediate a \<longrightarrow>
     fast_equals a a = Some (\<not> (is_number a \<and> f64_is_nan (as_number a))))"
proof (intro conjI impI)
  have imm: "is_number x \<Longrightarrow> is_immediate x" for x
    by (auto simp: is_immediate_def nanbox_class)
  show "fast_equals a b = fast_equals b a"
    by (auto simp: fast_equals_def f64_eq_sym)
  show "fast_equals a b = None \<longleftrightarrow> is_heap_ptr a \<or> is_error a \<or> is_heap_ptr b \<or> is_error b"
    using imm [of a] imm [of b] by (auto simp: fast_equals_def is_immediate_def)
  show "fast_equals a b = Some True \<and> fast_equals b c = Some True \<Longrightarrow> fast_equals a c = Some True"
    by (auto simp: fast_equals_def split: if_splits intro: f64_eq_trans)
  show "is_immediate a \<Longrightarrow> fast_equals a a = Some (\<not> (is_number a \<and> f64_is_nan (as_number a)))"
    by (auto simp: fast_equals_def)
qed

text \<open>The two zeros are equal words for the fast path although their bits differ.\<close>

theorem nb_fast_equals_equivalence_witness:
  "fast_equals 0 0x8000000000000000 = Some True \<and> fast_equals 0x8000000000000000 0 = Some True \<and>
   fast_equals 0 0 = Some True \<and> is_immediate TRUE_BITS \<and>
   fast_equals TRUE_BITS TRUE_BITS = Some True"
proof -
  have z: "fast_equals 0 0x8000000000000000 = Some True" and i: "is_immediate TRUE_BITS"
    and b: "\<not> is_number TRUE_BITS"
    by (simp_all add: fast_equals_def is_immediate_def nanbox_class tag_bits_def nanbox_consts
        as_number_def f64_eq_def f64_is_nan_def f64_magnitude_def f64_key_def)
  show ?thesis
    using z i b nb_fast_equals_equivalence [of 0 "0x8000000000000000" 0]
      nb_fast_equals_equivalence [of TRUE_BITS 0 0] by auto
qed

text \<open>
  The null address passes the guard of \<open>from_heap_ptr\<close>, but its word is none of the classes, and
  is true: \<open>is_heap_ptr\<close> excludes it.
\<close>

lemma nb_null_heap_ptr:
  "from_heap_ptr 0 = Ok QNAN_PREFIX \<and> nb_debug QNAN_PREFIX = NbUnknown QNAN_PREFIX \<and>
   is_immediate QNAN_PREFIX \<and> is_truthy QNAN_PREFIX"
  by (simp add: from_heap_ptr_def nb_debug_def is_immediate_def is_truthy_def nanbox_class
      tag_bits_def nanbox_consts)

end
