(* ===== verification/Runtime_Heap.thy ===== *)
theory Runtime_Heap
  imports Runtime_Map NanBox Coral_Map
begin

text \<open>
  The reference-counted heap of the runtime (\<open>src/runtime/src/lib.rs\<close>, \<open>rc_deferred.rs\<close>): boxes with tag,
  flags, epoch, owner, count and payload, the pools they are recycled through, the constructors of values.
  An address is a 64-bit word, 0 the null pointer. What the source does through raw pointers has a value
  only where Rust defines it: an operation is \<open>None\<close> when it reads a box that is not allocated or an
  object of another type than it casts to, or when it does not return. The box a pointer owns is its
  payload. The threads' interleavings are not modelled: one thread runs, so locks are free and a
  compare-and-exchange succeeds.
\<close>

subsection \<open>Boxes\<close>

type_synonym addr = u64

definition FLAG_INLINE_STRING :: u8 where "FLAG_INLINE_STRING = 1"
definition FLAG_LIST_ITER :: u8 where "FLAG_LIST_ITER = 2"
definition FLAG_MAP_ITER :: u8 where "FLAG_MAP_ITER = 4"
definition FLAG_FROZEN :: u8 where "FLAG_FROZEN = 8"
definition FLAG_ERR :: u8 where "FLAG_ERR = 16"
definition FLAG_ABSENT :: u8 where "FLAG_ABSENT = 32"
definition FLAG_COW :: u8 where "FLAG_COW = 64"
definition FLAG_STACK :: u8 where "FLAG_STACK = 128"
definition VALUE_POOL_LIMIT :: nat where "VALUE_POOL_LIMIT = 8192"
definition LOCAL_POOL_LIMIT :: nat where "LOCAL_POOL_LIMIT = 256"
definition FLAG_HAS_WEAK_REFS :: u8 where "FLAG_HAS_WEAK_REFS = 1"

datatype vtag = VNumber | VBool | VString | VList | VMap | VStore | VActor | VUnit | VClosure | VBytes | VTagged

fun vtag_byte :: "vtag \<Rightarrow> u8" where
  "vtag_byte VNumber = 0"
| "vtag_byte VBool = 1"
| "vtag_byte VString = 2"
| "vtag_byte VList = 3"
| "vtag_byte VMap = 4"
| "vtag_byte VStore = 5"
| "vtag_byte VActor = 6"
| "vtag_byte VUnit = 7"
| "vtag_byte VClosure = 8"
| "vtag_byte VBytes = 9"
| "vtag_byte VTagged = 10"

definition vtag_try_from :: "u8 \<Rightarrow> vtag option" where
  "vtag_try_from b =
     (if b = 0 then Some VNumber else if b = 1 then Some VBool else if b = 2 then Some VString
      else if b = 3 then Some VList else if b = 4 then Some VMap else if b = 5 then Some VStore
      else if b = 6 then Some VActor else if b = 7 then Some VUnit else if b = 8 then Some VClosure
      else if b = 9 then Some VBytes else if b = 10 then Some VTagged else None)"

record gc_bucket =
  gb_state :: bucket_state
  gb_hash :: u64
  gb_probe_dist :: u16
  gb_key :: addr
  gb_value :: addr

text \<open>
  What a payload pointer owns. A closure has its release function or not, and the captures of its
  environment as NaN-boxed words, \<open>None\<close> when the environment is null; a tagged value has its fields.
\<close>

datatype heap_object =
    OString bytes
  | OBytes bytes
  | OList "addr list"
  | OListIter "addr list" nat
  | OF64List "f64 list"
  | OMap "gc_bucket list" nat nat
  | OMapIter "gc_bucket list" nat
  | OClosure bool "nanbox list option"
  | OActor u64
  | OTagged bytes "addr list"
  | OStruct "addr list"
  | OError u32 addr u64

datatype gc_payload = PNumber f64 | PInline bytes | PPtr "heap_object option"

record gc_value =
  gv_tag :: u8
  gv_flags :: u8
  gv_epoch :: u16
  gv_owner :: u32
  gv_rc :: u64
  gv_payload :: gc_payload

definition gv_new :: "vtag \<Rightarrow> u8 \<Rightarrow> gc_payload \<Rightarrow> u32 \<Rightarrow> gc_value" where
  "gv_new tag flags payload thread = \<lparr> gv_tag = vtag_byte tag, gv_flags = flags, gv_epoch = 0, gv_owner = thread,
     gv_rc = 1, gv_payload = payload \<rparr>"

definition gv_unit :: "u32 \<Rightarrow> gc_value" where
  "gv_unit = gv_new VUnit 0 (PInline (replicate 40 0))"

definition gv_number :: "f64 \<Rightarrow> u32 \<Rightarrow> gc_value" where
  "gv_number n = gv_new VNumber 0 (PNumber n)"

definition gv_boolean :: "bool \<Rightarrow> u32 \<Rightarrow> gc_value" where
  "gv_boolean b = gv_new VBool 0 (PInline ((if b then 1 else 0) # replicate 39 0))"

definition gv_from_heap :: "vtag \<Rightarrow> heap_object \<Rightarrow> u32 \<Rightarrow> gc_value" where
  "gv_from_heap tag ob = gv_new tag 0 (PPtr (Some ob))"

definition gv_from_heap_with_flags :: "vtag \<Rightarrow> u8 \<Rightarrow> heap_object \<Rightarrow> u32 \<Rightarrow> gc_value" where
  "gv_from_heap_with_flags tag flags ob = gv_new tag flags (PPtr (Some ob))"

definition gv_inline_string :: "bytes \<Rightarrow> u32 \<Rightarrow> gc_value" where
  "gv_inline_string bs = gv_new VString (FLAG_INLINE_STRING OR push_bit 1 (of_nat (length bs)))
     (PInline (bs @ replicate (40 - length bs) 0))"

definition gv_error :: "heap_object \<Rightarrow> u32 \<Rightarrow> gc_value" where
  "gv_error metadata = gv_new VUnit FLAG_ERR (PPtr (Some metadata))"

definition gv_absent :: "u32 \<Rightarrow> gc_value" where
  "gv_absent = gv_new VUnit FLAG_ABSENT (PInline (replicate 40 0))"

definition gv_has :: "u8 \<Rightarrow> gc_value \<Rightarrow> bool" where
  "gv_has flag v \<longleftrightarrow> gv_flags v AND flag \<noteq> 0"

definition gv_is_inline_string :: "gc_value \<Rightarrow> bool" where
  "gv_is_inline_string v \<longleftrightarrow> gv_tag v = vtag_byte VString \<and> gv_has FLAG_INLINE_STRING v"

text \<open>The payload read as a pointer; a payload that is none has no value.\<close>

definition gv_heap_ptr :: "gc_value \<Rightarrow> heap_object option option" where
  "gv_heap_ptr v = (case gv_payload v of PPtr p \<Rightarrow> Some p | _ \<Rightarrow> None)"

definition gv_is_err :: "gc_value \<Rightarrow> bool" where
  "gv_is_err v \<longleftrightarrow> \<not> gv_has FLAG_INLINE_STRING v \<and> gv_has FLAG_ERR v"

definition gv_is_absent :: "gc_value \<Rightarrow> bool" where
  "gv_is_absent v \<longleftrightarrow> \<not> gv_has FLAG_INLINE_STRING v \<and> gv_has FLAG_ABSENT v"

definition gv_is_ok :: "gc_value \<Rightarrow> bool" where
  "gv_is_ok v \<longleftrightarrow> gv_has FLAG_INLINE_STRING v \<or> \<not> gv_has (FLAG_ERR OR FLAG_ABSENT) v"

definition inline_string_len :: "u8 \<Rightarrow> nat" where
  "inline_string_len flags = unat (drop_bit 1 (flags AND NOT FLAG_INLINE_STRING))"

text \<open>Read inline, the bytes of a pointer are not determined: no value unless none are read.\<close>

definition gv_inline_bytes :: "gc_value \<Rightarrow> nat \<Rightarrow> bytes option" where
  "gv_inline_bytes v n = (if n = 0 then Some [] else case gv_payload v of PInline bs \<Rightarrow> Some (take n bs) | _ \<Rightarrow> None)"

definition gv_string_to_bytes :: "gc_value \<Rightarrow> bytes option" where
  "gv_string_to_bytes v = (case vtag_try_from (gv_tag v) of
       Some VString \<Rightarrow>
         if gv_is_inline_string v then gv_inline_bytes v (inline_string_len (gv_flags v))
         else (case gv_heap_ptr v of None \<Rightarrow> None | Some None \<Rightarrow> Some []
           | Some (Some (OString bs)) \<Rightarrow> Some bs | _ \<Rightarrow> None)
     | Some VBytes \<Rightarrow> (case gv_heap_ptr v of None \<Rightarrow> None | Some None \<Rightarrow> Some []
           | Some (Some (OBytes bs)) \<Rightarrow> Some bs | _ \<Rightarrow> None)
     | _ \<Rightarrow> Some [])"

subsection \<open>The state of the runtime\<close>

datatype color = Black | Gray | White | Purple

record cycle_info =
  ci_color :: color
  ci_buffered :: bool
  ci_birth_epoch :: u64

record cycle_detector =
  cd_info :: "(addr, cycle_info) hmap"
  cd_young_roots :: "addr list"
  cd_old_roots :: "addr list"
  cd_roots :: "addr list"
  cd_collecting :: bool
  cd_cycles_detected :: u64
  cd_values_collected :: u64
  cd_current_epoch :: u64
  cd_young_collections :: u64
  cd_full_collections :: u64

text \<open>
  \<open>gc_queue\<close> is the release queue with its limit, \<open>gc_queue_busy\<close> whether it is being flushed (its cell
  is then borrowed). The counters are the statics of \<open>lib.rs\<close> that the modelled operations change;
  the counts of bytes and slots are left out.
\<close>

record gc =
  gc_heap :: "addr \<rightharpoonup> gc_value"
  gc_local_pool :: "addr list"
  gc_pool :: "addr list"
  gc_queue :: "(addr list \<times> nat) option"
  gc_queue_busy :: bool
  gc_local_roots :: "addr list"
  gc_pending :: bool
  gc_det :: cycle_detector
  gc_auto :: bool
  gc_cycle_counter :: u64
  gc_live :: u64
  gc_retains :: u64
  gc_saturated :: u64
  gc_releases :: u64
  gc_underflows :: u64
  gc_hits :: u64
  gc_misses :: u64

text \<open>The system allocator, which gives the address of a new box, and the number of the running thread.\<close>

record gc_env =
  ge_malloc :: "gc \<Rightarrow> addr"
  ge_thread :: u32

definition gc_set :: "addr \<Rightarrow> gc_value \<Rightarrow> gc \<Rightarrow> gc" where
  "gc_set a v g = g\<lparr> gc_heap := (gc_heap g)(a \<mapsto> v) \<rparr>"

fun gc_each :: "('a \<Rightarrow> 'g \<Rightarrow> 'g option) \<Rightarrow> 'a list \<Rightarrow> 'g \<Rightarrow> 'g option" where
  "gc_each f [] g = Some g"
| "gc_each f (x # xs) g = do { g \<leftarrow> f x g; gc_each f xs g }"

lemma gc_each_mono [partial_function_mono]:
  assumes "\<And>x g. mono_option (\<lambda>f. B f x g)"
  shows "mono_option (\<lambda>f. gc_each (B f) xs g)"
  by (induction xs arbitrary: g) (auto intro!: partial_function_mono assms)

lemma gc_each_append: "gc_each f (xs @ ys) g = do { g \<leftarrow> gc_each f xs g; gc_each f ys g }"
  by (induction xs arbitrary: g) (simp_all split: Option.bind_split)

subsection \<open>Allocation\<close>

definition pop_last :: "'a list \<Rightarrow> ('a \<times> 'a list) option" where
  "pop_last xs = (if xs = [] then None else Some (last xs, butlast xs))"

definition alloc_value :: "gc_env \<Rightarrow> gc_value \<Rightarrow> gc \<Rightarrow> addr \<times> gc" where
  "alloc_value E v g =
     (let g = g\<lparr> gc_live := gc_live g + 1 \<rparr> in
      case pop_last (gc_local_pool g) of
        Some (handle, pool) \<Rightarrow> (handle, gc_set handle v (g\<lparr> gc_local_pool := pool, gc_hits := gc_hits g + 1 \<rparr>))
      | None \<Rightarrow> (case pop_last (gc_pool g) of
          Some (handle, pool) \<Rightarrow> (handle, gc_set handle v (g\<lparr> gc_pool := pool, gc_hits := gc_hits g + 1 \<rparr>))
        | None \<Rightarrow> (let handle = ge_malloc E g in (handle, gc_set handle v (g\<lparr> gc_misses := gc_misses g + 1 \<rparr>)))))"

text \<open>Whether the box went to a pool: only a box that did not is given back to the allocator.\<close>

definition recycle_value_box :: "addr \<Rightarrow> gc \<Rightarrow> (bool \<times> gc) option" where
  "recycle_value_box handle g = do {
     v \<leftarrow> gc_heap g handle;
     let has_weak = gv_has FLAG_HAS_WEAK_REFS v;
     let cleared = gc_set handle (v\<lparr> gv_rc := 0, gv_owner := 0 \<rparr>) g;
     Some (if length (gc_local_pool g) < LOCAL_POOL_LIMIT then
             (True, cleared\<lparr> gc_local_pool := gc_local_pool g @ [handle] \<rparr>)
           else if length (gc_pool g) < VALUE_POOL_LIMIT \<or> has_weak then
             (True, cleared\<lparr> gc_pool := gc_pool g @ [handle] \<rparr>)
           else if has_weak then (True, g)
           else (False, g))
   }"

definition dealloc_value_box :: "addr \<Rightarrow> gc \<Rightarrow> gc option" where
  "dealloc_value_box handle g = do {
     (recycled, g) \<leftarrow> recycle_value_box handle (g\<lparr> gc_live := gc_live g - 1 \<rparr>);
     Some (if recycled then g else g\<lparr> gc_heap := (gc_heap g)(handle := None) \<rparr>)
   }"

text \<open>\<open>ReleaseQueue::push\<close> of \<open>rc_deferred.rs\<close>: beyond its limit the queue forgets.\<close>

definition queue_push :: "addr \<Rightarrow> addr list \<times> nat \<Rightarrow> addr list \<times> nat" where
  "queue_push a = (\<lambda>(queue, limit). if length queue < limit then (queue @ [a], limit) else (queue, limit))"

subsection \<open>Retaining\<close>

text \<open>A count of zero is left alone; the \<open>debug_assert!\<close> of that branch checks nothing in a release build.\<close>

definition coral_value_retain :: "addr \<Rightarrow> gc \<Rightarrow> gc option" where
  "coral_value_retain a g =
     (if a = 0 then Some g
      else do {
        v \<leftarrow> gc_heap g a;
        Some (if gv_has FLAG_STACK v then g
          else if gv_rc v = 0 then g
          else if gv_rc v = - 1 then g\<lparr> gc_saturated := gc_saturated g + 1 \<rparr>
          else gc_set a (v\<lparr> gv_rc := gv_rc v + 1 \<rparr>) (g\<lparr> gc_retains := gc_retains g + 1 \<rparr>))
      })"

definition coral_value_retain_many :: "addr list \<Rightarrow> gc \<Rightarrow> gc option" where
  "coral_value_retain_many = gc_each coral_value_retain"

subsection \<open>Constructors\<close>

definition coral_make_number :: "gc_env \<Rightarrow> f64 \<Rightarrow> gc \<Rightarrow> addr \<times> gc" where
  "coral_make_number E n = alloc_value E (gv_number n (ge_thread E))"

definition coral_make_bool :: "gc_env \<Rightarrow> u8 \<Rightarrow> gc \<Rightarrow> addr \<times> gc" where
  "coral_make_bool E b = alloc_value E (gv_boolean (b \<noteq> 0) (ge_thread E))"

definition coral_make_unit :: "gc_env \<Rightarrow> gc \<Rightarrow> addr \<times> gc" where
  "coral_make_unit E = alloc_value E (gv_unit (ge_thread E))"

definition coral_make_absent :: "gc_env \<Rightarrow> gc \<Rightarrow> addr \<times> gc" where
  "coral_make_absent E = alloc_value E (gv_absent (ge_thread E))"

definition coral_make_string :: "gc_env \<Rightarrow> bytes \<Rightarrow> gc \<Rightarrow> addr \<times> gc" where
  "coral_make_string E bs =
     (if length bs \<le> 22 then alloc_value E (gv_inline_string bs (ge_thread E))
      else alloc_value E (gv_from_heap VString (OString bs) (ge_thread E)))"

definition coral_make_bytes :: "gc_env \<Rightarrow> bytes \<Rightarrow> gc \<Rightarrow> addr \<times> gc" where
  "coral_make_bytes E bs = alloc_value E (gv_from_heap VBytes (OBytes bs) (ge_thread E))"

definition coral_make_error_with_span :: "gc_env \<Rightarrow> u32 \<Rightarrow> bytes \<Rightarrow> u64 \<Rightarrow> gc \<Rightarrow> addr \<times> gc" where
  "coral_make_error_with_span E code name origin_span g =
     (let (name_handle, g) = coral_make_string E name g
      in alloc_value E (gv_error (OError code name_handle origin_span) (ge_thread E)) g)"

definition coral_make_error :: "gc_env \<Rightarrow> u32 \<Rightarrow> bytes \<Rightarrow> gc \<Rightarrow> addr \<times> gc" where
  "coral_make_error E code name g =
     (let (name_handle, g) = coral_make_string E name g
      in alloc_value E (gv_error (OError code name_handle 0) (ge_thread E)) g)"

text \<open>A list retains its items, and drops the null handles among them.\<close>

definition gc_alloc_list :: "addr list \<Rightarrow> gc \<Rightarrow> (heap_object \<times> gc) option" where
  "gc_alloc_list items g = do {
     g \<leftarrow> coral_value_retain_many items g;
     Some (OList (filter (\<lambda>h. h \<noteq> 0) items), g)
   }"

definition coral_make_list :: "gc_env \<Rightarrow> addr list \<Rightarrow> gc \<Rightarrow> (addr \<times> gc) option" where
  "coral_make_list E items g = do {
     (ob, g) \<leftarrow> gc_alloc_list items g;
     Some (alloc_value E (gv_from_heap VList ob (ge_thread E)) g)
   }"

text \<open>\<open>coral_make_list_hinted\<close>: 1 puts the list on the stack, 4 makes it copied on write.\<close>

definition coral_make_list_hinted :: "gc_env \<Rightarrow> addr list \<Rightarrow> u8 \<Rightarrow> gc \<Rightarrow> (addr \<times> gc) option" where
  "coral_make_list_hinted E items hint g = do {
     (handle, g) \<leftarrow> coral_make_list E items g;
     if handle = 0 then Some (handle, g)
     else do {
       v \<leftarrow> gc_heap g handle;
       Some (handle,
         if hint = 1 then gc_set handle (v\<lparr> gv_rc := - 1, gv_flags := gv_flags v OR FLAG_STACK \<rparr>) g
         else if hint = 4 then gc_set handle (v\<lparr> gv_flags := gv_flags v OR FLAG_COW \<rparr>) g
         else g)
     }
   }"

definition coral_make_tagged :: "gc_env \<Rightarrow> bytes \<Rightarrow> addr list \<Rightarrow> gc \<Rightarrow> (addr \<times> gc) option" where
  "coral_make_tagged E name flds g = do {
     g \<leftarrow> gc_each coral_value_retain (filter (\<lambda>h. h \<noteq> 0) flds) g;
     Some (alloc_value E (gv_new VTagged 0 (PPtr (Some (OTagged name flds))) (ge_thread E)) g)
   }"

definition coral_make_struct :: "gc_env \<Rightarrow> addr list \<Rightarrow> gc \<Rightarrow> (addr \<times> gc) option" where
  "coral_make_struct E flds g = do {
     g \<leftarrow> gc_each coral_value_retain (filter (\<lambda>h. h \<noteq> 0) flds) g;
     Some (alloc_value E (gv_from_heap VStore (OStruct flds) (ge_thread E)) g)
   }"

definition coral_make_unboxed_f64_list :: "gc_env \<Rightarrow> f64 list \<Rightarrow> gc \<Rightarrow> addr \<times> gc" where
  "coral_make_unboxed_f64_list E items =
     (let v = gv_from_heap VList (OF64List items) (ge_thread E)
      in alloc_value E (v\<lparr> gv_flags := gv_flags v OR FLAG_LIST_ITER \<rparr>))"

definition coral_make_closure :: "gc_env \<Rightarrow> bool \<Rightarrow> bool \<Rightarrow> nanbox list option \<Rightarrow> gc \<Rightarrow> addr \<times> gc" where
  "coral_make_closure E invoke release env g =
     (if \<not> invoke then coral_make_unit E g
      else alloc_value E (gv_from_heap VClosure (OClosure release env) (ge_thread E)) g)"

text \<open>A NaN-boxed word as a handle: an immediate gets a box of its own, a pointer a reference more.\<close>

definition nb_to_handle :: "gc_env \<Rightarrow> nanbox \<Rightarrow> gc \<Rightarrow> (addr \<times> gc) option" where
  "nb_to_handle E w g =
     (if is_number w then Some (coral_make_number E (as_number w) g)
      else if is_bool w then Some (alloc_value E (gv_boolean (as_bool w) (ge_thread E)) g)
      else if is_unit w then Some (coral_make_unit E g)
      else if is_none w then Some (coral_make_absent E g)
      else if is_heap_ptr w \<or> is_error w then
        (let ptr = as_heap_ptr w in map_option (\<lambda>g. (ptr, g)) (if ptr \<noteq> 0 then coral_value_retain ptr g else Some g))
      else Some (coral_make_unit E g))"

end
