(* ===== verification/Runtime_Gc.thy ===== *)
theory Runtime_Gc
  imports Runtime_Heap
begin

text \<open>
  Releasing (\<open>rc_ops.rs\<close> and \<open>drop_heap_value\<close> of \<open>lib.rs\<close>), the cycle detector (\<open>cycle_detector.rs\<close>) and weak
  references (\<open>weak_ref.rs\<close>). Sets of addresses are lists without repetition.
\<close>

subsection \<open>Children\<close>

definition get_occupied :: "gc_bucket list \<Rightarrow> addr list" where
  "get_occupied buckets = concat (map (\<lambda>b. [gb_key b, gb_value b]) (filter (\<lambda>b. gb_state b = BOccupied) buckets))"

text \<open>
  \<open>drop_heap_collect_children\<close>: the handles a box gives up, and the captures its release function
  releases. An object read as one of another type has no value.
\<close>

definition drop_children :: "gc_value \<Rightarrow> (addr list \<times> nanbox list) option" where
  "drop_children v =
     (if gv_is_err v then (case gv_heap_ptr v of
         Some None \<Rightarrow> Some ([], [])
       | Some (Some (OError code name origin)) \<Rightarrow> Some (if name \<noteq> 0 then [name] else [], [])
       | _ \<Rightarrow> None)
      else case vtag_try_from (gv_tag v) of
        Some VString \<Rightarrow>
          if gv_is_inline_string v then Some ([], [])
          else (case gv_heap_ptr v of Some None \<Rightarrow> Some ([], []) | Some (Some (OString bs)) \<Rightarrow> Some ([], []) | _ \<Rightarrow> None)
      | Some VBytes \<Rightarrow>
          (case gv_heap_ptr v of Some None \<Rightarrow> Some ([], []) | Some (Some (OBytes bs)) \<Rightarrow> Some ([], []) | _ \<Rightarrow> None)
      | Some VList \<Rightarrow> (case gv_heap_ptr v of
            Some None \<Rightarrow> Some ([], [])
          | Some (Some ob) \<Rightarrow> if gv_has FLAG_LIST_ITER v
              then (case ob of OListIter items i \<Rightarrow> Some (items, []) | _ \<Rightarrow> None)
              else (case ob of OList items \<Rightarrow> Some (items, []) | _ \<Rightarrow> None)
          | None \<Rightarrow> None)
      | Some VMap \<Rightarrow> (case gv_heap_ptr v of
            Some None \<Rightarrow> Some ([], [])
          | Some (Some ob) \<Rightarrow> if gv_has FLAG_MAP_ITER v
              then (case ob of OMapIter buckets i \<Rightarrow> Some (get_occupied buckets, []) | _ \<Rightarrow> None)
              else (case ob of OMap buckets n t \<Rightarrow> Some (get_occupied buckets, []) | _ \<Rightarrow> None)
          | None \<Rightarrow> None)
      | Some VClosure \<Rightarrow> (case gv_heap_ptr v of
            Some None \<Rightarrow> Some ([], [])
          | Some (Some (OClosure release env)) \<Rightarrow>
              Some ([], if release then (case env of Some captures \<Rightarrow> captures | None \<Rightarrow> []) else [])
          | _ \<Rightarrow> None)
      | Some VActor \<Rightarrow>
          (case gv_heap_ptr v of Some None \<Rightarrow> Some ([], []) | Some (Some (OActor n)) \<Rightarrow> Some ([], []) | _ \<Rightarrow> None)
      | Some VTagged \<Rightarrow> (case gv_heap_ptr v of
            Some None \<Rightarrow> Some ([], [])
          | Some (Some (OTagged name flds)) \<Rightarrow> Some (filter (\<lambda>h. h \<noteq> 0) flds, [])
          | _ \<Rightarrow> None)
      | _ \<Rightarrow> Some ([], []))"

definition is_container :: "gc_value \<Rightarrow> bool" where
  "is_container v \<longleftrightarrow> vtag_try_from (gv_tag v) \<in> {Some VList, Some VMap, Some VStore, Some VTagged, Some VClosure}"

definition keep_handle :: "gc_env \<Rightarrow> nanbox \<Rightarrow> addr list \<times> gc \<Rightarrow> (addr list \<times> gc) option" where
  "keep_handle E w = (\<lambda>(children, g). do {
     (handle, g) \<leftarrow> nb_to_handle E w g;
     Some (if handle \<noteq> 0 then children @ [handle] else children, g)
   })"

definition nonnull :: "addr list \<Rightarrow> addr list" where
  "nonnull = filter (\<lambda>h. h \<noteq> 0)"

definition get_children :: "gc_env \<Rightarrow> addr \<Rightarrow> gc \<Rightarrow> (addr list \<times> gc) option" where
  "get_children E handle g =
     (if handle = 0 then Some ([], g)
      else do {
        v \<leftarrow> gc_heap g handle;
        (case vtag_try_from (gv_tag v) of
          Some VList \<Rightarrow> (case gv_heap_ptr v of
              Some None \<Rightarrow> Some ([], g)
            | Some (Some (OList items)) \<Rightarrow> Some (nonnull items, g)
            | _ \<Rightarrow> None)
        | Some VMap \<Rightarrow> (case gv_heap_ptr v of
              Some None \<Rightarrow> Some ([], g)
            | Some (Some (OMap buckets n t)) \<Rightarrow> Some (nonnull (get_occupied buckets), g)
            | _ \<Rightarrow> None)
        | Some VTagged \<Rightarrow> (case gv_heap_ptr v of
              Some None \<Rightarrow> Some ([], g)
            | Some (Some (OTagged name flds)) \<Rightarrow> Some (nonnull flds, g)
            | _ \<Rightarrow> None)
        | Some VClosure \<Rightarrow> (case gv_heap_ptr v of
              Some None \<Rightarrow> Some ([], g)
            | Some (Some (OClosure release env)) \<Rightarrow>
                (case env of Some captures \<Rightarrow> gc_each (keep_handle E) captures ([], g) | None \<Rightarrow> Some ([], g))
            | _ \<Rightarrow> None)
        | _ \<Rightarrow> Some ([], g))
      })"

subsection \<open>Candidate roots\<close>

definition hs_insert :: "'a \<Rightarrow> 'a list \<Rightarrow> 'a list" where
  "hs_insert x xs = (if x \<in> set xs then xs else xs @ [x])"

definition hs_remove :: "'a \<Rightarrow> 'a list \<Rightarrow> 'a list" where
  "hs_remove x = filter (\<lambda>y. y \<noteq> x)"

definition cycle_info_default :: cycle_info where
  "cycle_info_default = \<lparr> ci_color = Black, ci_buffered = False, ci_birth_epoch = 0 \<rparr>"

definition cycle_detector_default :: cycle_detector where
  "cycle_detector_default = \<lparr> cd_info = [], cd_young_roots = [], cd_old_roots = [], cd_roots = [],
     cd_collecting = False, cd_cycles_detected = 0, cd_values_collected = 0, cd_current_epoch = 0,
     cd_young_collections = 0, cd_full_collections = 0 \<rparr>"

text \<open>\<open>det.info.entry(addr).or_default()\<close>.\<close>

definition info_of :: "addr \<Rightarrow> cycle_detector \<Rightarrow> cycle_info" where
  "info_of addr det = (case hm_get addr (cd_info det) of Some i \<Rightarrow> i | None \<Rightarrow> cycle_info_default)"

definition set_info :: "addr \<Rightarrow> cycle_info \<Rightarrow> cycle_detector \<Rightarrow> cycle_detector" where
  "set_info addr i det = det\<lparr> cd_info := hm_insert addr i (cd_info det) \<rparr>"

definition set_color :: "addr \<Rightarrow> color \<Rightarrow> cycle_detector \<Rightarrow> cycle_detector" where
  "set_color addr c det = set_info addr ((info_of addr det)\<lparr> ci_color := c \<rparr>) det"

definition gc_det_map :: "(cycle_detector \<Rightarrow> cycle_detector) \<Rightarrow> gc \<Rightarrow> gc" where
  "gc_det_map f g = g\<lparr> gc_det := f (gc_det g) \<rparr>"

definition buffer_root :: "addr \<Rightarrow> cycle_detector \<Rightarrow> cycle_detector" where
  "buffer_root addr det =
     (let info = info_of addr det;
          info = (if ci_color info \<noteq> Purple
            then info\<lparr> ci_color := Purple, ci_birth_epoch := cd_current_epoch det, ci_buffered := True \<rparr> else info);
          det = set_info addr info det
      in det\<lparr> cd_young_roots := hs_insert addr (cd_young_roots det), cd_roots := hs_insert addr (cd_roots det) \<rparr>)"

definition flush_root :: "addr \<Rightarrow> gc \<Rightarrow> gc option" where
  "flush_root addr g =
     (if addr = 0 then Some g
      else do {
        v \<leftarrow> gc_heap g addr;
        Some (if is_container v then gc_det_map (buffer_root addr) g else g)
      })"

definition flush_local_roots :: "gc \<Rightarrow> gc option" where
  "flush_local_roots g = gc_each flush_root (gc_local_roots g) (g\<lparr> gc_local_roots := [] \<rparr>)"

definition flush_all_thread_local_roots :: "gc \<Rightarrow> gc option" where
  "flush_all_thread_local_roots g = flush_local_roots (g\<lparr> gc_pending := True \<rparr>)"

definition LOCAL_BUFFER_THRESHOLD :: nat where
  "LOCAL_BUFFER_THRESHOLD = 256"

definition possible_root :: "addr \<Rightarrow> gc \<Rightarrow> gc option" where
  "possible_root handle g =
     (if handle = 0 then Some g
      else do {
        v \<leftarrow> gc_heap g handle;
        if \<not> is_container v then Some g
        else do {
          g \<leftarrow> if gc_pending g then map_option (\<lambda>g. g\<lparr> gc_pending := False \<rparr>) (flush_local_roots g) else Some g;
          let g = g\<lparr> gc_local_roots := gc_local_roots g @ [handle] \<rparr>;
          if LOCAL_BUFFER_THRESHOLD \<le> length (gc_local_roots g) then flush_local_roots g else Some g
        }
      })"

definition notify_value_freed :: "addr \<Rightarrow> gc \<Rightarrow> gc" where
  "notify_value_freed addr = (if addr = 0 then id else gc_det_map (\<lambda>det. det\<lparr>
     cd_roots := hs_remove addr (cd_roots det), cd_young_roots := hs_remove addr (cd_young_roots det),
     cd_old_roots := hs_remove addr (cd_old_roots det), cd_info := hm_remove addr (cd_info det) \<rparr>))"

subsection \<open>Marking and scanning\<close>

partial_function (option) mark_gray :: "gc_env \<Rightarrow> addr \<Rightarrow> gc \<Rightarrow> gc option" where
  "mark_gray E handle g =
     (if handle = 0 then Some g
      else let info = info_of handle (gc_det g) in
        if ci_color info = Gray then Some (gc_det_map (set_info handle info) g)
        else do {
          (children, g) \<leftarrow> get_children E handle (gc_det_map (set_color handle Gray) g);
          gc_each (mark_gray E) children g
        })"

partial_function (option) scan_black :: "gc_env \<Rightarrow> addr \<Rightarrow> gc \<Rightarrow> gc option" where
  "scan_black E handle g =
     (if handle = 0 then Some g
      else let info = info_of handle (gc_det g) in
        if ci_color info = Black then Some (gc_det_map (set_info handle info) g)
        else do {
          (children, g) \<leftarrow> get_children E handle (gc_det_map (set_color handle Black) g);
          gc_each (scan_black E) children g
        })"

definition color_of :: "addr \<Rightarrow> gc \<Rightarrow> color" where
  "color_of addr g = ci_color (info_of addr (gc_det g))"

partial_function (option) gc_scan :: "gc_env \<Rightarrow> addr \<Rightarrow> gc \<Rightarrow> gc option" where
  "gc_scan E handle g =
     (if handle = 0 then Some g
      else if color_of handle g \<noteq> Gray then Some g
      else do {
        v \<leftarrow> gc_heap g handle;
        if 0 < gv_rc v then scan_black E handle g
        else do {
          (children, g) \<leftarrow> get_children E handle (gc_det_map (set_color handle White) g);
          gc_each (gc_scan E) children g
        }
      })"

definition mark_root :: "gc_env \<Rightarrow> addr \<Rightarrow> gc \<Rightarrow> gc option" where
  "mark_root E addr g =
     (if addr = 0 then Some g
      else case hm_get addr (cd_info (gc_det g)) of
        None \<Rightarrow> Some (gc_det_map (\<lambda>det. det\<lparr> cd_roots := hs_remove addr (cd_roots det) \<rparr>) g)
      | Some info \<Rightarrow> do {
          v \<leftarrow> gc_heap g addr;
          if ci_color info = Purple \<and> 0 < gv_rc v then mark_gray E addr g
          else Some (gc_det_map (\<lambda>det.
            let det = set_info addr (info\<lparr> ci_buffered := False \<rparr>) det;
                det = det\<lparr> cd_roots := hs_remove addr (cd_roots det) \<rparr>
            in if ci_color info = Black \<and> gv_rc v = 0 then det\<lparr> cd_info := hm_remove addr (cd_info det) \<rparr> else det) g)
        })"

definition mark_roots :: "gc_env \<Rightarrow> gc \<Rightarrow> gc option" where
  "mark_roots E g = gc_each (mark_root E) (cd_roots (gc_det g)) g"

definition scan_roots :: "gc_env \<Rightarrow> gc \<Rightarrow> gc option" where
  "scan_roots E g = gc_each (gc_scan E) (cd_roots (gc_det g)) g"

subsection \<open>A collection\<close>

definition unbuffer :: "addr \<Rightarrow> cycle_detector \<Rightarrow> cycle_detector" where
  "unbuffer addr det = (case hm_get addr (cd_info det) of
       Some info \<Rightarrow> set_info addr (info\<lparr> ci_buffered := False \<rparr>) det | None \<Rightarrow> det)"

text \<open>The first half of \<open>collect_roots\<close>: the garbage among the roots.\<close>

definition find_garbage :: "gc \<Rightarrow> addr list \<times> gc" where
  "find_garbage g =
     (let roots = cd_roots (gc_det g);
          garbage = filter (\<lambda>addr. hm_contains addr (cd_info (gc_det g)) \<and> color_of addr g = White) roots;
          g = gc_det_map (\<lambda>det. (fold unbuffer roots det)\<lparr> cd_roots := [] \<rparr>) g
      in (garbage, if garbage = [] then g else gc_det_map (\<lambda>det. det\<lparr>
            cd_cycles_detected := cd_cycles_detected det + 1,
            cd_values_collected := cd_values_collected det + of_nat (length garbage) \<rparr>) g))"

definition FULL_COLLECTION_INTERVAL :: u64 where
  "FULL_COLLECTION_INTERVAL = 5"

text \<open>The opening of \<open>collect_cycles\<close>: nothing when a collection is under way.\<close>

definition begin_collection :: "cycle_detector \<Rightarrow> cycle_detector option" where
  "begin_collection det =
     (if cd_collecting det then None
      else let det = det\<lparr> cd_collecting := True, cd_current_epoch := cd_current_epoch det + 1 \<rparr> in
        Some (if cd_current_epoch det mod FULL_COLLECTION_INTERVAL = 0
          then det\<lparr> cd_roots := fold hs_insert (cd_old_roots det) (cd_young_roots det),
            cd_full_collections := cd_full_collections det + 1 \<rparr>
          else det\<lparr> cd_roots := cd_young_roots det, cd_young_collections := cd_young_collections det + 1 \<rparr>))"

definition end_collection :: "cycle_detector \<Rightarrow> cycle_detector" where
  "end_collection det = det\<lparr>
     cd_old_roots := fold hs_insert (filter (\<lambda>addr. hm_contains addr (cd_info det)) (cd_young_roots det)) (cd_old_roots det),
     cd_young_roots := [], cd_collecting := False \<rparr>"

definition whiten :: "addr \<Rightarrow> gc \<Rightarrow> bool \<times> gc" where
  "whiten addr g =
     (if hm_contains addr (cd_info (gc_det g)) \<and> color_of addr g = White then (True, gc_det_map (set_color addr Black) g)
      else (False, g))"

definition notify_value_deallocated :: "addr \<Rightarrow> gc \<Rightarrow> gc option" where
  "notify_value_deallocated handle g =
     (if handle = 0 then Some g
      else do { v \<leftarrow> gc_heap g handle; Some (gc_set handle (v\<lparr> gv_epoch := gv_epoch v + 1 \<rparr>) g) })"

text \<open>
  \<open>drop_heap_value_for_gc\<close>: the object goes, its children are not touched; only the name of an error and
  what the release function of a closure releases are given back.
\<close>

definition drop_for_gc :: "gc_value \<Rightarrow> (addr list \<times> nanbox list) option" where
  "drop_for_gc v = map_option (\<lambda>(children, captures). (if gv_is_err v then children else [], captures)) (drop_children v)"

subsection \<open>Releasing\<close>

text \<open>
  Releasing, dropping and collecting call each other: a call is one of the source's functions with its
  argument. \<open>CDrop\<close> is the loop over the worklist of \<open>drop_heap_value\<close>, \<open>CValue\<close> its beginning and
  \<open>CWhite\<close> is \<open>collect_white\<close>.
\<close>

datatype gc_call = CRelease addr | CValue addr | CDrop "addr list" | CWhite addr | CCollect

definition nb_release_target :: "nanbox \<Rightarrow> addr" where
  "nb_release_target w = (if is_heap_ptr w then as_heap_ptr w else 0)"

definition CYCLE_COLLECTION_THRESHOLD :: u64 where
  "CYCLE_COLLECTION_THRESHOLD = 1000"

text \<open>
  The counting half of \<open>coral_value_release\<close>: whether the last reference is gone. The branches for frozen and
  other values differ in the atomicity of the access only; a count of zero is an underflow that is counted
  (and stops a debug build, by its \<open>debug_assert!\<close>).
\<close>

definition release_count :: "addr \<Rightarrow> gc_value \<Rightarrow> gc \<Rightarrow> bool \<times> gc" where
  "release_count a v g =
     (if gv_rc v = 0 then (False, g\<lparr> gc_underflows := gc_underflows g + 1 \<rparr>)
      else (gv_rc v = 1, gc_set a (v\<lparr> gv_rc := gv_rc v - 1 \<rparr>) (g\<lparr> gc_releases := gc_releases g + 1 \<rparr>)))"

partial_function (option) gc_run :: "gc_env \<Rightarrow> gc_call \<Rightarrow> gc \<Rightarrow> gc option" where
  "gc_run E call g = (case call of
     CRelease a \<Rightarrow>
       if a = 0 then Some g
       else do {
         v \<leftarrow> gc_heap g a;
         if gv_has FLAG_STACK v then Some g
         else let (last, g) = release_count a v g in
           if gv_rc v = 0 then Some g
           else if \<not> last then do {
             g \<leftarrow> possible_root a g;
             if gc_auto g then
               let count = gc_cycle_counter g; g = g\<lparr> gc_cycle_counter := count + 1 \<rparr> in
               if count mod CYCLE_COLLECTION_THRESHOLD = 0 then gc_run E CCollect g else Some g
             else Some g
           }
           else do {
             g \<leftarrow> notify_value_deallocated a g;
             let g = notify_value_freed a g;
             (case gc_queue g of
               Some q \<Rightarrow>
                 if gc_queue_busy g then do { g \<leftarrow> gc_run E (CValue a) g; dealloc_value_box a g }
                 else Some (g\<lparr> gc_queue := Some (queue_push a q) \<rparr>)
             | None \<Rightarrow> do { g \<leftarrow> gc_run E (CValue a) g; dealloc_value_box a g })
           }
       }
   | CValue a \<Rightarrow> do {
       v \<leftarrow> gc_heap g a;
       (children, captures) \<leftarrow> drop_children v;
       g \<leftarrow> gc_each (\<lambda>w. gc_run E (CRelease (nb_release_target w))) captures g;
       gc_run E (CDrop children) (gc_set a (gv_unit (ge_thread E)) g)
     }
   | CDrop work \<Rightarrow> (case pop_last work of
       None \<Rightarrow> Some g
     | Some (child, work) \<Rightarrow>
         if child = 0 then gc_run E (CDrop work) g
         else do {
           v \<leftarrow> gc_heap g child;
           let (last, g) = release_count child v g;
           if gv_rc v = 0 then gc_run E (CDrop work) g
           else if \<not> last then do { g \<leftarrow> possible_root child g; gc_run E (CDrop work) g }
           else do {
             g \<leftarrow> notify_value_deallocated child g;
             let g = notify_value_freed child g;
             v \<leftarrow> gc_heap g child;
             (children, captures) \<leftarrow> drop_children v;
             g \<leftarrow> gc_each (\<lambda>w. gc_run E (CRelease (nb_release_target w))) captures g;
             g \<leftarrow> dealloc_value_box child (gc_set child (gv_unit (ge_thread E)) g);
             gc_run E (CDrop (work @ children)) g
           }
         })
   | CWhite a \<Rightarrow>
       if a = 0 then Some g
       else let (is_white, g) = whiten a g in
         if \<not> is_white then Some g
         else do {
           (children, g) \<leftarrow> get_children E a g;
           g \<leftarrow> gc_each (\<lambda>c. gc_run E (CWhite c)) children g;
           g \<leftarrow> notify_value_deallocated a g;
           v \<leftarrow> gc_heap g a;
           (names, captures) \<leftarrow> drop_for_gc v;
           g \<leftarrow> gc_each (\<lambda>c. gc_run E (CRelease c)) names g;
           g \<leftarrow> gc_each (\<lambda>w. gc_run E (CRelease (nb_release_target w))) captures g;
           g \<leftarrow> dealloc_value_box a (gc_set a (gv_unit (ge_thread E)) g);
           Some (gc_det_map (\<lambda>det. det\<lparr> cd_info := hm_remove a (cd_info det) \<rparr>) g)
         }
   | CCollect \<Rightarrow> do {
       g \<leftarrow> flush_all_thread_local_roots g;
       (case begin_collection (gc_det g) of
         None \<Rightarrow> Some g
       | Some det \<Rightarrow> do {
           g \<leftarrow> mark_roots E (g\<lparr> gc_det := det \<rparr>);
           g \<leftarrow> scan_roots E g;
           let (garbage, g) = find_garbage g;
           g \<leftarrow> gc_each (\<lambda>c. gc_run E (CWhite c)) garbage g;
           Some (gc_det_map end_collection g)
         })
     })"

definition coral_value_release :: "gc_env \<Rightarrow> addr \<Rightarrow> gc \<Rightarrow> gc option" where
  "coral_value_release E a = gc_run E (CRelease a)"

definition drop_heap_value :: "gc_env \<Rightarrow> addr \<Rightarrow> gc \<Rightarrow> gc option" where
  "drop_heap_value E a = gc_run E (CValue a)"

definition collect_white :: "gc_env \<Rightarrow> addr \<Rightarrow> gc \<Rightarrow> gc option" where
  "collect_white E a = gc_run E (CWhite a)"

definition collect_cycles :: "gc_env \<Rightarrow> gc \<Rightarrow> gc option" where
  "collect_cycles E = gc_run E CCollect"

definition coral_value_release_many :: "gc_env \<Rightarrow> addr list \<Rightarrow> gc \<Rightarrow> gc option" where
  "coral_value_release_many E = gc_each (coral_value_release E)"

end
