(* ===== verification/Runtime_GcOps.thy ===== *)
theory Runtime_GcOps
  imports Runtime_Gc
begin

text \<open>
  What the runtime does with the boxes of \<open>Runtime_Heap\<close>: weak references (\<open>weak_ref.rs\<close>), the release queue
  (\<open>rc_ops.rs\<close>), error values (\<open>error_ffi.rs\<close>), structs and freezing (\<open>lib.rs\<close>), pushing to and iterating a
  list (\<open>list_ops.rs\<close>).
\<close>

subsection \<open>Weak references\<close>

record weak_ref =
  wr_target :: addr
  wr_epoch :: u16

definition weak_ref_new :: "addr \<Rightarrow> gc \<Rightarrow> (weak_ref option \<times> gc) option" where
  "weak_ref_new target g =
     (if target = 0 then Some (None, g)
      else do {
        v \<leftarrow> gc_heap g target;
        let g = gc_set target (v\<lparr> gv_flags := gv_flags v OR FLAG_HAS_WEAK_REFS \<rparr>) g;
        Some (Some \<lparr> wr_target = target, wr_epoch = gv_epoch v \<rparr>, g)
      })"

definition weak_ref_upgrade :: "weak_ref \<Rightarrow> gc \<Rightarrow> (addr option \<times> gc) option" where
  "weak_ref_upgrade w g =
     (if wr_target w = 0 then Some (None, g)
      else do {
        v \<leftarrow> gc_heap g (wr_target w);
        if gv_epoch v \<noteq> wr_epoch w then Some (None, g)
        else do { g \<leftarrow> coral_value_retain (wr_target w) g; Some (Some (wr_target w), g) }
      })"

definition weak_ref_is_alive :: "weak_ref \<Rightarrow> gc \<Rightarrow> bool option" where
  "weak_ref_is_alive w g =
     (if wr_target w = 0 then Some False
      else do { v \<leftarrow> gc_heap g (wr_target w); Some (gv_epoch v = wr_epoch w) })"

definition weak_ref_clone :: "weak_ref \<Rightarrow> weak_ref" where
  "weak_ref_clone w = \<lparr> wr_target = wr_target w, wr_epoch = wr_epoch w \<rparr>"

definition weak_ref_count :: "addr \<Rightarrow> u64" where
  "weak_ref_count handle = 0"

definition coral_make_weak_ref :: "addr \<Rightarrow> gc \<Rightarrow> (weak_ref option \<times> gc) option" where
  "coral_make_weak_ref = weak_ref_new"

definition coral_weak_ref_upgrade :: "weak_ref option \<Rightarrow> gc \<Rightarrow> (addr \<times> gc) option" where
  "coral_weak_ref_upgrade w g = (case w of
       None \<Rightarrow> Some (0, g)
     | Some w \<Rightarrow> do {
         (target, g) \<leftarrow> weak_ref_upgrade w g;
         Some (case target of Some a \<Rightarrow> a | None \<Rightarrow> 0, g)
       })"

definition coral_weak_ref_is_alive :: "weak_ref option \<Rightarrow> gc \<Rightarrow> u8 option" where
  "coral_weak_ref_is_alive w g = (case w of
       None \<Rightarrow> Some 0
     | Some w \<Rightarrow> do { b \<leftarrow> weak_ref_is_alive w g; Some (if b then 1 else 0) })"

subsection \<open>The release queue\<close>

definition release_queue_init :: "nat \<Rightarrow> gc \<Rightarrow> gc" where
  "release_queue_init limit g = (if gc_queue_busy g then g else g\<lparr> gc_queue := Some ([], max limit 1024) \<rparr>)"

definition release_queue_flush :: "gc_env \<Rightarrow> gc \<Rightarrow> gc option" where
  "release_queue_flush E g =
     (if gc_queue_busy g then Some g
      else case gc_queue g of
        None \<Rightarrow> Some g
      | Some (queue, limit) \<Rightarrow> do {
          g \<leftarrow> gc_each (\<lambda>a g. do { g \<leftarrow> drop_heap_value E a g; dealloc_value_box a g }) queue
            (g\<lparr> gc_queue := Some ([], limit), gc_queue_busy := True \<rparr>);
          Some (g\<lparr> gc_queue_busy := False \<rparr>)
        })"

definition coral_batch_release :: "gc_env \<Rightarrow> addr list \<Rightarrow> gc \<Rightarrow> gc option" where
  "coral_batch_release = coral_value_release_many"

subsection \<open>The cycle detector's controls\<close>

definition reset_cycle_detector :: "gc \<Rightarrow> gc" where
  "reset_cycle_detector g = g\<lparr> gc_local_roots := [], gc_pending := False,
     gc_det := (gc_det g)\<lparr> cd_info := [], cd_roots := [], cd_young_roots := [], cd_old_roots := [],
       cd_collecting := False, cd_current_epoch := 0, cd_young_collections := 0, cd_full_collections := 0 \<rparr> \<rparr>"

definition set_auto_cycle_collection :: "u8 \<Rightarrow> gc \<Rightarrow> gc" where
  "set_auto_cycle_collection enabled g = g\<lparr> gc_auto := (enabled \<noteq> 0) \<rparr>"

definition cycle_stats :: "gc \<Rightarrow> u64 \<times> u64" where
  "cycle_stats g = (cd_cycles_detected (gc_det g), cd_values_collected (gc_det g))"

definition generational_stats :: "gc \<Rightarrow> u64 \<times> u64" where
  "generational_stats g = (cd_young_collections (gc_det g), cd_full_collections (gc_det g))"

definition cycle_roots_count :: "gc \<Rightarrow> u64" where
  "cycle_roots_count g = of_nat (length (cd_roots (gc_det g)))"

subsection \<open>Error values\<close>

definition read_or :: "'a \<Rightarrow> (gc_value \<Rightarrow> 'a) \<Rightarrow> addr \<Rightarrow> gc \<Rightarrow> 'a option" where
  "read_or dflt f a g = (if a = 0 then Some dflt else map_option f (gc_heap g a))"

definition coral_is_err :: "addr \<Rightarrow> gc \<Rightarrow> u8 option" where
  "coral_is_err = read_or 0 (\<lambda>v. if gv_is_err v then 1 else 0)"

definition coral_is_absent :: "addr \<Rightarrow> gc \<Rightarrow> u8 option" where
  "coral_is_absent = read_or 0 (\<lambda>v. if gv_is_absent v then 1 else 0)"

definition coral_is_ok :: "addr \<Rightarrow> gc \<Rightarrow> u8 option" where
  "coral_is_ok = read_or 0 (\<lambda>v. if gv_is_ok v then 1 else 0)"

text \<open>The metadata of an error: its code and the handle of its name.\<close>

definition gv_error_metadata :: "gc_value \<Rightarrow> (u32 \<times> addr) option option" where
  "gv_error_metadata v =
     (if gv_is_err v then (case gv_heap_ptr v of Some (Some (OError code name origin)) \<Rightarrow> Some (Some (code, name)) | _ \<Rightarrow> None)
      else Some None)"

definition coral_error_name :: "gc_env \<Rightarrow> addr \<Rightarrow> gc \<Rightarrow> (addr \<times> gc) option" where
  "coral_error_name E a g =
     (if a = 0 then Some (coral_make_unit E g)
      else do {
        v \<leftarrow> gc_heap g a;
        m \<leftarrow> gv_error_metadata v;
        (case m of
          Some (code, name) \<Rightarrow> do { g \<leftarrow> coral_value_retain name g; Some (name, g) }
        | None \<Rightarrow> Some (coral_make_unit E g))
      })"

definition coral_error_code :: "addr \<Rightarrow> gc \<Rightarrow> u32 option" where
  "coral_error_code a g =
     (if a = 0 then Some 0
      else do {
        v \<leftarrow> gc_heap g a;
        m \<leftarrow> gv_error_metadata v;
        Some (case m of Some (code, name) \<Rightarrow> code | None \<Rightarrow> 0)
      })"

definition coral_value_or :: "addr \<Rightarrow> addr \<Rightarrow> gc \<Rightarrow> (addr \<times> gc) option" where
  "coral_value_or a dflt g =
     (if a = 0 then do { g \<leftarrow> coral_value_retain dflt g; Some (dflt, g) }
      else do {
        v \<leftarrow> gc_heap g a;
        let result = (if gv_is_ok v then a else dflt);
        g \<leftarrow> coral_value_retain result g;
        Some (result, g)
      })"

subsection \<open>Structs\<close>

definition gc_struct :: "addr \<Rightarrow> gc \<Rightarrow> (gc_value \<times> addr list) option" where
  "gc_struct a g = do {
     v \<leftarrow> gc_heap g a;
     p \<leftarrow> gv_heap_ptr v;
     (case p of Some (OStruct flds) \<Rightarrow> Some (v, flds) | _ \<Rightarrow> None)
   }"

definition coral_struct_get :: "addr \<Rightarrow> nat \<Rightarrow> gc \<Rightarrow> (addr \<times> gc) option" where
  "coral_struct_get store index g =
     (if store = 0 then Some (0, g)
      else do {
        (v, flds) \<leftarrow> gc_struct store g;
        if index < length flds then do { g \<leftarrow> coral_value_retain (flds ! index) g; Some (flds ! index, g) }
        else Some (0, g)
      })"

definition coral_struct_set :: "gc_env \<Rightarrow> addr \<Rightarrow> nat \<Rightarrow> addr \<Rightarrow> gc \<Rightarrow> gc option" where
  "coral_struct_set E store index value g =
     (if store = 0 then Some g
      else do {
        (v, flds) \<leftarrow> gc_struct store g;
        if index < length flds then do {
          g \<leftarrow> coral_value_release E (flds ! index) g;
          g \<leftarrow> coral_value_retain value g;
          (v, flds) \<leftarrow> gc_struct store g;
          Some (gc_set store (v\<lparr> gv_payload := PPtr (Some (OStruct (flds[index := value]))) \<rparr>) g)
        }
        else Some g
      })"

definition coral_struct_field_count :: "addr \<Rightarrow> gc \<Rightarrow> nat option" where
  "coral_struct_field_count store g =
     (if store = 0 then Some 0 else map_option (\<lambda>(v, flds). length flds) (gc_struct store g))"

subsection \<open>Freezing\<close>

definition is_frozen :: "addr \<Rightarrow> gc \<Rightarrow> bool option" where
  "is_frozen = read_or False (gv_has FLAG_FROZEN)"

text \<open>\<open>list_from_value\<close>; an object of another type has no value.\<close>

definition gv_list :: "gc_value \<Rightarrow> addr list option option" where
  "gv_list v =
     (if gv_tag v \<noteq> vtag_byte VList then Some None
      else case gv_heap_ptr v of Some None \<Rightarrow> Some None | Some (Some (OList items)) \<Rightarrow> Some (Some items) | _ \<Rightarrow> None)"

definition gv_map :: "gc_value \<Rightarrow> gc_bucket list option option" where
  "gv_map v =
     (if gv_tag v \<noteq> vtag_byte VMap then Some None
      else case gv_heap_ptr v of Some None \<Rightarrow> Some None | Some (Some (OMap buckets n t)) \<Rightarrow> Some (Some buckets) | _ \<Rightarrow> None)"

definition freeze_children :: "gc_value \<Rightarrow> addr list option" where
  "freeze_children v = (case vtag_try_from (gv_tag v) of
       Some VList \<Rightarrow> map_option (\<lambda>items. case items of Some items \<Rightarrow> items | None \<Rightarrow> []) (gv_list v)
     | Some VMap \<Rightarrow> map_option (\<lambda>buckets. case buckets of Some buckets \<Rightarrow> get_occupied buckets | None \<Rightarrow> []) (gv_map v)
     | _ \<Rightarrow> Some [])"

partial_function (option) freeze_value :: "addr \<Rightarrow> gc \<Rightarrow> gc option" where
  "freeze_value handle g =
     (if handle = 0 then Some g
      else do {
        v \<leftarrow> gc_heap g handle;
        children \<leftarrow> freeze_children v;
        gc_each freeze_value children (gc_set handle (v\<lparr> gv_flags := gv_flags v OR FLAG_FROZEN, gv_owner := 0 \<rparr>) g)
      })"

subsection \<open>Lists\<close>

definition cow_ensure_unique :: "addr \<Rightarrow> gc \<Rightarrow> gc option" where
  "cow_ensure_unique list g =
     (if list = 0 then Some g
      else do {
        v \<leftarrow> gc_heap g list;
        if \<not> gv_has FLAG_COW v then Some g
        else do {
          items \<leftarrow> gv_list v;
          g \<leftarrow> (case items of Some items \<Rightarrow> coral_value_retain_many items g | None \<Rightarrow> Some g);
          v \<leftarrow> gc_heap g list;
          Some (gc_set list (v\<lparr> gv_flags := gv_flags v AND NOT FLAG_COW \<rparr>) g)
        }
      })"

definition coral_list_push :: "gc_env \<Rightarrow> addr \<Rightarrow> addr \<Rightarrow> gc \<Rightarrow> (addr \<times> gc) option" where
  "coral_list_push E list value g =
     (if list = 0 then Some (coral_make_unit E g)
      else do {
        frozen \<leftarrow> is_frozen list g;
        if frozen then Some (coral_make_unit E g)
        else do {
          g \<leftarrow> cow_ensure_unique list g;
          v \<leftarrow> gc_heap g list;
          items \<leftarrow> gv_list v;
          (case items of
            None \<Rightarrow> Some (coral_make_unit E g)
          | Some items \<Rightarrow> do {
              g \<leftarrow> coral_value_retain value g;
              v \<leftarrow> gc_heap g list;
              let g = (if value \<noteq> 0 then gc_set list (v\<lparr> gv_payload := PPtr (Some (OList (items @ [value]))) \<rparr>) g else g);
              g \<leftarrow> coral_value_retain list g;
              Some (list, g)
            })
        }
      })"

definition coral_list_iter :: "gc_env \<Rightarrow> addr \<Rightarrow> gc \<Rightarrow> (addr \<times> gc) option" where
  "coral_list_iter E list g =
     (if list = 0 then Some (coral_make_unit E g)
      else do {
        v \<leftarrow> gc_heap g list;
        items \<leftarrow> gv_list v;
        (case items of
          None \<Rightarrow> Some (coral_make_unit E g)
        | Some items \<Rightarrow> do {
            g \<leftarrow> coral_value_retain_many items g;
            Some (alloc_value E (gv_from_heap_with_flags VList FLAG_LIST_ITER (OListIter items 0) (ge_thread E)) g)
          })
      })"

definition coral_list_iter_next :: "gc_env \<Rightarrow> addr \<Rightarrow> gc \<Rightarrow> (addr \<times> gc) option" where
  "coral_list_iter_next E iter g =
     (if iter = 0 then Some (coral_make_unit E g)
      else do {
        v \<leftarrow> gc_heap g iter;
        if gv_tag v \<noteq> vtag_byte VList \<or> \<not> gv_has FLAG_LIST_ITER v then Some (coral_make_unit E g)
        else do {
          p \<leftarrow> gv_heap_ptr v;
          (case p of
            None \<Rightarrow> Some (coral_make_unit E g)
          | Some (OListIter items index) \<Rightarrow>
              if length items \<le> index then Some (coral_make_unit E g)
              else do {
                let g = gc_set iter (v\<lparr> gv_payload := PPtr (Some (OListIter items (index + 1))) \<rparr>) g;
                if items ! index = 0 then Some (coral_make_unit E g)
                else do { g \<leftarrow> coral_value_retain (items ! index) g; Some (items ! index, g) }
              }
          | _ \<Rightarrow> None)
        }
      })"

end
