(* ===== verification/Runtime_GcCounts.thy ===== *)
theory Runtime_GcCounts
  imports Runtime_GcOps "HOL-Library.Multiset"
begin

text \<open>
  Exact counts. The references of a heap are the multiset of the children of its live boxes; a heap is
  exact for a multiset of handles when every count is the number of handles and references to its box.
\<close>

subsection \<open>Counts\<close>

definition gv_kids :: "gc_value \<Rightarrow> addr list" where
  "gv_kids v = (case drop_children v of Some (hs, _) \<Rightarrow> nonnull hs | None \<Rightarrow> [])"

definition live_at :: "(addr \<rightharpoonup> gc_value) \<Rightarrow> addr set" where
  "live_at h = {a. \<exists>v. h a = Some v \<and> gv_rc v \<noteq> 0}"

definition heap_refs :: "(addr \<rightharpoonup> gc_value) \<Rightarrow> addr multiset" where
  "heap_refs h = (\<Sum>a \<in> live_at h. mset (gv_kids (the (h a))))"

definition rc_of :: "(addr \<rightharpoonup> gc_value) \<Rightarrow> addr \<Rightarrow> nat" where
  "rc_of h a = (case h a of Some v \<Rightarrow> unat (gv_rc v) | None \<Rightarrow> 0)"

text \<open>
  A box the counting covers: no stack flag, the payload its tag and flags call for, no iterator and no
  captured variables. A struct is covered, but gives up none of its fields.
\<close>

definition gv_plain :: "gc_value \<Rightarrow> bool" where
  "gv_plain v \<longleftrightarrow> \<not> gv_has FLAG_STACK v \<and> (\<exists>hs. drop_children v = Some (hs, [])) \<and>
     (gv_is_err v \<longrightarrow> gv_tag v = vtag_byte VUnit) \<and>
     (gv_tag v = vtag_byte VList \<longrightarrow> \<not> gv_has FLAG_LIST_ITER v) \<and>
     (gv_tag v = vtag_byte VMap \<longrightarrow> \<not> gv_has FLAG_MAP_ITER v) \<and>
     (\<forall>release env. gv_payload v = PPtr (Some (OClosure release env)) \<longrightarrow> env = None \<or> env = Some [])"

definition rc_exact :: "(addr \<rightharpoonup> gc_value) \<Rightarrow> addr multiset \<Rightarrow> bool" where
  "rc_exact h R \<longleftrightarrow> finite (dom h) \<and> h 0 = None \<and>
     (\<forall>a. a \<noteq> 0 \<longrightarrow> count (R + heap_refs h) a = rc_of h a) \<and>
     (\<forall>a v. h a = Some v \<longrightarrow> gv_rc v \<noteq> 0 \<longrightarrow> gv_plain v)"

lemma finite_live: "finite (dom h) \<Longrightarrow> finite (live_at h)"
  by (rule finite_subset [of _ "dom h"]) (auto simp: live_at_def)

lemma live_atI: "h a = Some v \<Longrightarrow> gv_rc v \<noteq> 0 \<Longrightarrow> a \<in> live_at h"
  by (simp add: live_at_def)

lemma rc_of_live: "rc_of h a \<noteq> 0 \<longleftrightarrow> a \<in> live_at h"
  by (auto simp: rc_of_def live_at_def unat_gt_0 split: option.splits)

lemma live_at_upd: "live_at (h(a \<mapsto> v)) = (if gv_rc v = 0 then live_at h - {a} else insert a (live_at h))"
  by (auto simp: live_at_def split: if_splits)

text \<open>The references of the box at an address, none when it is dead.\<close>

definition refs_at :: "(addr \<rightharpoonup> gc_value) \<Rightarrow> addr \<Rightarrow> addr multiset" where
  "refs_at h a = (if a \<in> live_at h then mset (gv_kids (the (h a))) else {#})"

lemma heap_refs_split:
  assumes "finite (dom h)"
  shows "heap_refs h = refs_at h a + (\<Sum>b \<in> live_at h - {a}. mset (gv_kids (the (h b))))"
proof (cases "a \<in> live_at h")
  case True
  then show ?thesis
    using finite_live [OF assms] by (simp add: heap_refs_def refs_at_def sum.remove [of _ a])
qed (simp add: heap_refs_def refs_at_def)

lemma heap_refs_upd:
  assumes "finite (dom h)"
  shows "heap_refs (h(a \<mapsto> v)) + refs_at h a = heap_refs h + (if gv_rc v = 0 then {#} else mset (gv_kids v))"
proof -
  have fin: "finite (dom (h(a \<mapsto> v)))"
    using assms by simp
  have "live_at (h(a \<mapsto> v)) - {a} = live_at h - {a}"
    by (auto simp: live_at_upd)
  then have rest: "(\<Sum>b \<in> live_at (h(a \<mapsto> v)) - {a}. mset (gv_kids (the ((h(a \<mapsto> v)) b)))) =
      (\<Sum>b \<in> live_at h - {a}. mset (gv_kids (the (h b))))"
    by (intro sum.cong) auto
  have "refs_at (h(a \<mapsto> v)) a = (if gv_rc v = 0 then {#} else mset (gv_kids v))"
    by (simp add: refs_at_def live_at_upd)
  then show ?thesis
    using heap_refs_split [OF fin, of a] heap_refs_split [OF assms, of a] rest by (simp add: ac_simps)
qed

text \<open>Updates that keep the contents of a live box.\<close>

lemma gv_has_header [simp]: "gv_has f (v\<lparr> gv_rc := n \<rparr>) = gv_has f v" "gv_has f (v\<lparr> gv_epoch := e \<rparr>) = gv_has f v"
  by (simp_all add: gv_has_def)

lemma gv_tag_header [simp]: "gv_tag (v\<lparr> gv_rc := n \<rparr>) = gv_tag v" "gv_tag (v\<lparr> gv_epoch := e \<rparr>) = gv_tag v"
  by simp_all

lemma gv_heap_ptr_header [simp]: "gv_heap_ptr (v\<lparr> gv_rc := n \<rparr>) = gv_heap_ptr v"
    "gv_heap_ptr (v\<lparr> gv_epoch := e \<rparr>) = gv_heap_ptr v"
  by (simp_all add: gv_heap_ptr_def)

lemma drop_children_header [simp]: "drop_children (v\<lparr> gv_rc := n \<rparr>) = drop_children v"
    "drop_children (v\<lparr> gv_epoch := e \<rparr>) = drop_children v"
  unfolding drop_children_def gv_is_err_def gv_is_inline_string_def
  by (simp_all only: gv_has_header gv_heap_ptr_header gv_tag_header)

lemma gv_kids_header [simp]: "gv_kids (v\<lparr> gv_rc := n \<rparr>) = gv_kids v" "gv_kids (v\<lparr> gv_epoch := e \<rparr>) = gv_kids v"
  by (simp_all add: gv_kids_def)

lemma gv_plain_rc [simp]: "gv_plain (v\<lparr> gv_rc := n \<rparr>) = gv_plain v"
  by (simp add: gv_plain_def gv_is_err_def)

lemma heap_refs_rc:
  assumes "finite (dom h)" "h a = Some v" "gv_rc v \<noteq> 0" "n \<noteq> 0"
  shows "heap_refs (h(a \<mapsto> v\<lparr> gv_rc := n \<rparr>)) = heap_refs h"
  using heap_refs_upd [OF assms(1), of a "v\<lparr> gv_rc := n \<rparr>"] assms live_atI [of h a v]
  by (simp add: refs_at_def)

lemma heap_refs_dead:
  assumes "finite (dom h)" "h a = Some v" "gv_rc v \<noteq> 0" "gv_rc u = 0"
  shows "heap_refs (h(a \<mapsto> u)) + mset (gv_kids v) = heap_refs h"
  using heap_refs_upd [OF assms(1), of a u] assms live_atI [of h a v] by (simp add: refs_at_def)

lemma heap_refs_new:
  assumes "finite (dom h)" "a \<notin> live_at h" "gv_rc u \<noteq> 0"
  shows "heap_refs (h(a \<mapsto> u)) = heap_refs h + mset (gv_kids u)"
  using heap_refs_upd [OF assms(1), of a u] assms by (simp add: refs_at_def)

lemma rc_of_upd: "rc_of (h(a \<mapsto> v)) b = (if b = a then unat (gv_rc v) else rc_of h b)"
  by (simp add: rc_of_def)

lemma zero_notin_kids: "0 \<notin> set (gv_kids v)"
  by (auto simp: gv_kids_def nonnull_def split: option.splits prod.splits)

text \<open>A handle that counts is live.\<close>

lemma rc_exact_live:
  assumes "rc_exact h R" "a \<in># R + heap_refs h" "a \<noteq> 0"
  obtains v where "h a = Some v" "gv_rc v \<noteq> 0" "gv_plain v"
proof -
  have "count (R + heap_refs h) a \<noteq> 0"
    using assms(2) by (simp only: count_eq_zero_iff not_not)
  moreover have "count (R + heap_refs h) a = rc_of h a"
    using assms(1,3) unfolding rc_exact_def by blast
  ultimately have "rc_of h a \<noteq> 0"
    by (simp only: not_False_eq_True)
  then have "a \<in> live_at h"
    using rc_of_live [of h a] by blast
  then show ?thesis
    using assms(1) by (auto simp: live_at_def rc_exact_def intro: that)
qed

lemma kid_counts:
  assumes "finite (dom h)" "h a = Some v" "gv_rc v \<noteq> 0" "k \<in> set (gv_kids v)"
  shows "k \<in># heap_refs h"
  using heap_refs_split [OF assms(1), of a] assms live_atI [of h a v] by (auto simp: refs_at_def)

lemma heap_refs_kid:
  assumes "finite (dom h)" "k \<in># heap_refs h"
  obtains a v where "h a = Some v" "gv_rc v \<noteq> 0" "k \<in> set (gv_kids v)"
proof -
  have "\<exists>a \<in> live_at h. k \<in># mset (gv_kids (the (h a)))"
    using assms(2) by (simp add: heap_refs_def set_mset_sum [OF finite_live [OF assms(1)]])
  then show ?thesis
    by (auto simp: live_at_def intro: that)
qed

subsection \<open>Steps on the counts\<close>

lemma rc_exact_decrement:
  assumes "rc_exact h (add_mset a R)" "a \<noteq> 0" "h a = Some v" "1 < gv_rc v"
  shows "rc_exact (h(a \<mapsto> v\<lparr> gv_rc := gv_rc v - 1 \<rparr>)) R"
proof -
  have ne: "gv_rc v \<noteq> 0" "gv_rc v - 1 \<noteq> 0"
    using assms(4) by auto
  have "unat (gv_rc v - 1) = unat (gv_rc v) - 1"
    using ne(1) by (simp add: unat_minus_one)
  moreover have "unat (gv_rc v) \<noteq> 0"
    using ne(1) by (simp add: unat_eq_0)
  ultimately have dec: "rc_of (h(a \<mapsto> v\<lparr> gv_rc := gv_rc v - 1 \<rparr>)) b + (if b = a then 1 else 0) = rc_of h b" for b
    using assms(3) by (auto simp: rc_of_def)
  have fin: "finite (dom h)"
    using assms(1) by (simp add: rc_exact_def)
  have eq: "count (add_mset a R + heap_refs h) b = rc_of h b" if "b \<noteq> 0" for b
    using assms(1) that unfolding rc_exact_def by blast
  have "count (R + heap_refs (h(a \<mapsto> v\<lparr> gv_rc := gv_rc v - 1 \<rparr>))) b = rc_of (h(a \<mapsto> v\<lparr> gv_rc := gv_rc v - 1 \<rparr>)) b"
    if "b \<noteq> 0" for b
    using eq [OF that] dec [of b] by (auto simp: heap_refs_rc [OF fin assms(3) ne] split: if_splits)
  then show ?thesis
    using assms ne fin by (auto simp: rc_exact_def split: if_splits)
qed

lemma rc_exact_increment:
  assumes "rc_exact h R" "h a = Some v" "gv_rc v \<noteq> 0" "gv_rc v \<noteq> - 1"
  shows "rc_exact (h(a \<mapsto> v\<lparr> gv_rc := gv_rc v + 1 \<rparr>)) (add_mset a R)"
proof -
  have ne: "gv_rc v + 1 \<noteq> 0"
    using assms(4) by (metis add.right_neutral add_diff_cancel_left' add_uminus_conv_diff diff_0 add.commute)
  have "unat (gv_rc v + 1) = unat (gv_rc v) + 1"
    using ne by (metis add.commute unatSuc Suc_eq_plus1)
  then have inc: "rc_of (h(a \<mapsto> v\<lparr> gv_rc := gv_rc v + 1 \<rparr>)) b = rc_of h b + (if b = a then 1 else 0)" for b
    using assms(2) by (auto simp: rc_of_def)
  have fin: "finite (dom h)"
    using assms(1) by (simp add: rc_exact_def)
  have "count (add_mset a R + heap_refs (h(a \<mapsto> v\<lparr> gv_rc := gv_rc v + 1 \<rparr>))) b =
      rc_of (h(a \<mapsto> v\<lparr> gv_rc := gv_rc v + 1 \<rparr>)) b" if "b \<noteq> 0" for b
    using assms(1) that inc [of b] by (auto simp: rc_exact_def heap_refs_rc [OF fin assms(2,3) ne])
  then show ?thesis
    using assms ne fin by (auto simp: rc_exact_def split: if_splits)
qed

text \<open>The last reference: the box dies and its children become pending.\<close>

lemma rc_exact_die:
  assumes "rc_exact h (add_mset a R)" "a \<noteq> 0" "h a = Some v" "gv_rc v = 1" "gv_rc u = 0"
  shows "rc_exact (h(a \<mapsto> u)) (R + mset (gv_kids v))"
proof -
  have fin: "finite (dom h)"
    using assms(1) by (simp add: rc_exact_def)
  have refs: "heap_refs h = heap_refs (h(a \<mapsto> u)) + mset (gv_kids v)"
    using heap_refs_dead [OF fin assms(3) _ assms(5)] assms(4) by simp
  have one: "rc_of h a = 1"
    using assms(3,4) by (simp add: rc_of_def)
  have eq: "count (add_mset a R + heap_refs h) b = rc_of h b" if "b \<noteq> 0" for b
    using assms(1) that unfolding rc_exact_def by blast
  have "count (R + mset (gv_kids v) + heap_refs (h(a \<mapsto> u))) b = rc_of (h(a \<mapsto> u)) b" if "b \<noteq> 0" for b
    using eq [OF that] one assms(5) by (auto simp: refs rc_of_upd simp del: One_nat_def split: if_splits)
  then show ?thesis
    using assms fin by (auto simp: rc_exact_def)
qed

text \<open>A new box, or a dead one reused, with its first reference; its children give up theirs.\<close>

lemma rc_exact_born:
  assumes "rc_exact h (R + mset (gv_kids u))" "a \<notin> live_at h" "a \<noteq> 0" "gv_rc u = 1" "gv_plain u"
  shows "rc_exact (h(a \<mapsto> u)) (add_mset a R)"
proof -
  have fin: "finite (dom h)"
    using assms(1) by (simp add: rc_exact_def)
  have refs: "heap_refs (h(a \<mapsto> u)) = heap_refs h + mset (gv_kids u)"
    using heap_refs_new [OF fin assms(2)] assms(4) by simp
  have zero: "rc_of h a = 0"
    using assms(2) rc_of_live [of h a] by blast
  have eq: "count (R + mset (gv_kids u) + heap_refs h) b = rc_of h b" if "b \<noteq> 0" for b
    using assms(1) that unfolding rc_exact_def by blast
  have "count (add_mset a R + heap_refs (h(a \<mapsto> u))) b = rc_of (h(a \<mapsto> u)) b" if "b \<noteq> 0" for b
    using eq [OF that] zero assms(4) by (auto simp: refs rc_of_upd)
  then show ?thesis
    using assms fin by (auto simp: rc_exact_def)
qed

end
