(* ===== verification/Runtime_GcQuiet.thy ===== *)
theory Runtime_GcQuiet
  imports Runtime_GcCounts
begin

text \<open>
  The cycle detector on an exact heap: marking and scanning return and change the detector's data only,
  no box turns white, and a collection gives nothing back. Marking and scanning are the same walk with
  another colour, the locale \<open>painter\<close>.
\<close>

subsection \<open>The collector finds nothing\<close>

lemma vtag_try_from_byte [simp]: "vtag_try_from (vtag_byte t) = Some t"
  by (cases t) (simp_all add: vtag_try_from_def)

lemma vtag_try_from_Some: "vtag_try_from b = Some t \<Longrightarrow> b = vtag_byte t"
  by (auto simp: vtag_try_from_def split: if_splits)

lemma plain_get_children:
  assumes "gv_plain v" "gc_heap g a = Some v" "a \<noteq> 0"
  obtains ks where "get_children E a g = Some (ks, g)" "set ks \<subseteq> set (gv_kids v)"
proof -
  obtain hs where hs: "drop_children v = Some (hs, [])"
    using assms(1) by (auto simp: gv_plain_def)
  then have kids: "gv_kids v = nonnull hs"
    by (simp add: gv_kids_def)
  have "\<exists>ks. get_children E a g = Some (ks, g) \<and> set ks \<subseteq> set (gv_kids v)"
  proof (cases "gv_is_err v")
    case True
    then have "gv_tag v = vtag_byte VUnit"
      using assms(1) by (simp add: gv_plain_def)
    then show ?thesis
      using assms by (simp add: get_children_def del: vtag_byte.simps)
  next
    case False
    have cl: "gv_payload v = PPtr (Some (OClosure release env)) \<Longrightarrow> env = None \<or> env = Some []" for release env
      using assms(1) by (simp add: gv_plain_def)
    show ?thesis
    proof (cases "vtag_try_from (gv_tag v)")
      case None
      then show ?thesis using assms by (simp add: get_children_def)
    next
      case (Some t)
      then have tag: "gv_tag v = vtag_byte t"
        by (simp add: vtag_try_from_Some)
      have iter: "t = VList \<Longrightarrow> \<not> gv_has FLAG_LIST_ITER v" "t = VMap \<Longrightarrow> \<not> gv_has FLAG_MAP_ITER v"
        using assms(1) by (simp_all add: gv_plain_def tag del: vtag_byte.simps)
      show ?thesis
        using hs assms(2,3) False Some cl iter
        by (cases t) (auto simp: get_children_def drop_children_def kids gv_heap_ptr_def nonnull_def
          split: gc_payload.splits option.splits heap_object.splits if_splits)
    qed
  qed
  then show ?thesis
    using that by blast
qed

text \<open>What leaves everything but the detector's own data alone.\<close>

definition gc_same :: "gc \<Rightarrow> gc \<Rightarrow> bool" where
  "gc_same g g' \<longleftrightarrow> g' = g\<lparr> gc_local_roots := gc_local_roots g', gc_pending := gc_pending g', gc_det := gc_det g' \<rparr> \<and>
     cycle_stats g' = cycle_stats g"

definition det_addrs :: "gc \<Rightarrow> addr set" where
  "det_addrs g = set (gc_local_roots g) \<union> fst ` set (cd_info (gc_det g)) \<union> set (cd_young_roots (gc_det g)) \<union>
     set (cd_old_roots (gc_det g)) \<union> set (cd_roots (gc_det g))"

definition det_good :: "gc \<Rightarrow> bool" where
  "det_good g \<longleftrightarrow> det_addrs g \<subseteq> dom (gc_heap g) \<and> (\<forall>a. color_of a g \<noteq> White)"

lemma gc_same_refl [simp]: "gc_same g g"
  by (simp add: gc_same_def)

lemma gc_same_trans: "gc_same g g' \<Longrightarrow> gc_same g' g'' \<Longrightarrow> gc_same g g''"
  by (cases g, cases g', cases g'') (simp add: gc_same_def cycle_stats_def)

lemma gc_each_keeps:
  assumes "I g" "\<And>x g. x \<in> set xs \<Longrightarrow> I g \<Longrightarrow> \<exists>g'. f x g = Some g' \<and> I g'"
  shows "\<exists>g'. gc_each f xs g = Some g' \<and> I g'"
  using assms
proof (induction xs arbitrary: g)
  case (Cons x xs)
  then obtain g1 where "f x g = Some g1" "I g1"
    by (metis list.set_intros(1))
  with Cons show ?case by simp
qed simp

lemma gc_same_heap: "gc_same g g' \<Longrightarrow> gc_heap g' = gc_heap g"
  unfolding gc_same_def by (metis gc.select_convs(1) gc.surjective gc.update_convs(6-8))

lemma det_good_intro:
  "det_good g \<Longrightarrow> gc_heap g' = gc_heap g \<Longrightarrow> det_addrs g' \<subseteq> det_addrs g \<union> dom (gc_heap g) \<Longrightarrow>
   (\<And>a. color_of a g' = White \<Longrightarrow> color_of a g = White) \<Longrightarrow> det_good g'"
  by (simp add: det_good_def) blast

text \<open>Changes of the detector's data at allocated addresses.\<close>

lemma gc_same_det: "cd_cycles_detected (f (gc_det g)) = cd_cycles_detected (gc_det g) \<Longrightarrow>
    cd_values_collected (f (gc_det g)) = cd_values_collected (gc_det g) \<Longrightarrow> gc_same g (gc_det_map f g)"
  by (simp add: gc_same_def gc_det_map_def cycle_stats_def)

lemma info_of_set_info: "info_of b (set_info a i det) = (if b = a then i else info_of b det)"
  by (simp add: info_of_def set_info_def)

lemma color_of_set_info: "color_of b (gc_det_map (set_info a i) g) = (if b = a then ci_color i else color_of b g)"
  by (simp add: color_of_def gc_det_map_def info_of_set_info)

lemma set_hs_insert [simp]: "set (hs_insert x xs) = insert x (set xs)"
  by (auto simp: hs_insert_def)

lemma set_hs_remove [simp]: "set (hs_remove x xs) = set xs - {x}"
  by (auto simp: hs_remove_def)

lemma set_fold_hs_insert [simp]: "set (fold hs_insert xs ys) = set xs \<union> set ys"
  by (induction xs arbitrary: ys) auto

lemma det_addrs_set_info: "det_addrs (gc_det_map (set_info a i) g) = insert a (det_addrs g)"
  by (auto simp: det_addrs_def gc_det_map_def set_info_def fst_set_hm_insert)

lemma gc_heap_det_map [simp]: "gc_heap (gc_det_map f g) = gc_heap g"
  by (simp add: gc_det_map_def)

lemma set_info_good:
  assumes "det_good g" "a \<in> dom (gc_heap g)" "ci_color i \<noteq> White"
  shows "det_good (gc_det_map (set_info a i) g) \<and> gc_same g (gc_det_map (set_info a i) g)"
proof
  show "det_good (gc_det_map (set_info a i) g)"
    using assms by (auto simp: det_good_def det_addrs_set_info color_of_set_info)
  show "gc_same g (gc_det_map (set_info a i) g)"
    by (rule gc_same_det) (simp_all add: set_info_def)
qed

subsubsection \<open>Painting\<close>

text \<open>
  \<open>mark_gray\<close> and \<open>scan_black\<close> paint everything that can be reached with one colour; each new address they
  paint is one less to paint.
\<close>

definition unpainted :: "color \<Rightarrow> gc \<Rightarrow> addr set" where
  "unpainted c g = {a \<in> live_at (gc_heap g). color_of a g \<noteq> c}"

lemma finite_unpainted: "finite (dom (gc_heap g)) \<Longrightarrow> finite (unpainted c g)"
  by (rule finite_subset [OF _ finite_live [of "gc_heap g"]]) (auto simp: unpainted_def)

text \<open>Since \<open>g0\<close> only the detector's data changed, and its roots are \<open>rts\<close>.\<close>

definition calm :: "gc \<Rightarrow> addr list \<Rightarrow> gc \<Rightarrow> bool" where
  "calm g0 rts g \<longleftrightarrow> gc_same g0 g \<and> det_good g \<and> cd_roots (gc_det g) = rts"

lemma calm_heap: "calm g0 rts g \<Longrightarrow> gc_heap g = gc_heap g0"
  by (simp add: calm_def gc_same_heap)

lemma calm_good: "calm g0 rts g \<Longrightarrow> det_good g"
  by (simp add: calm_def)

lemma set_info_calm:
  assumes "calm g0 rts g" "a \<in> dom (gc_heap g)" "ci_color i \<noteq> White"
  shows "calm g0 rts (gc_det_map (set_info a i) g)"
proof -
  have "cd_roots (gc_det (gc_det_map (set_info a i) g)) = cd_roots (gc_det g)"
    by (simp add: gc_det_map_def set_info_def)
  with assms show ?thesis
    using set_info_good [of g a i] by (auto simp: calm_def intro: gc_same_trans)
qed

locale painter =
  fixes E :: gc_env and f :: "addr \<Rightarrow> gc \<Rightarrow> gc option" and c :: color
  assumes paint: "f handle g =
     (if handle = 0 then Some g
      else let info = info_of handle (gc_det g) in
        if ci_color info = c then Some (gc_det_map (set_info handle info) g)
        else do {
          (children, g) \<leftarrow> get_children E handle (gc_det_map (set_color handle c) g);
          gc_each f children g
        })"
    and not_white: "c \<noteq> White"
begin

lemma paint_bounded:
  assumes exact: "rc_exact (gc_heap g0) R"
  shows "calm g0 rts g \<Longrightarrow> card (unpainted c g) \<le> n \<Longrightarrow> handle = 0 \<or> handle \<in> live_at (gc_heap g0) \<Longrightarrow>
    \<exists>g'. f handle g = Some g' \<and> calm g0 rts g' \<and> card (unpainted c g') \<le> n"
proof (induction n arbitrary: handle g rule: less_induct)
  case (less n)
  have heap: "gc_heap g = gc_heap g0"
    using less.prems(1) by (rule calm_heap)
  have fin: "finite (dom (gc_heap g0))"
    using exact by (simp add: rc_exact_def)
  show ?case
  proof (cases "handle = 0")
    case True
    then show ?thesis using less.prems by (subst paint) simp
  next
    case False
    then have live: "handle \<in> live_at (gc_heap g0)"
      using less.prems(3) by simp
    then obtain v where v: "gc_heap g0 handle = Some v" "gv_rc v \<noteq> 0"
      by (auto simp: live_at_def)
    have dom: "handle \<in> dom (gc_heap g)"
      using v heap by auto
    show ?thesis
    proof (cases "color_of handle g = c")
      case True
      then have eq: "ci_color (info_of handle (gc_det g)) = c"
        by (simp add: color_of_def)
      have "unpainted c (gc_det_map (set_info handle (info_of handle (gc_det g))) g) = unpainted c g"
        using True by (auto simp: unpainted_def color_of_set_info eq)
      then show ?thesis
        using False not_white eq set_info_calm [OF less.prems(1) dom, of "info_of handle (gc_det g)"] less.prems(2)
        by (subst paint) (simp add: Let_def)
    next
      case unlike: False
      define g1 where "g1 = gc_det_map (set_color handle c) g"
      have g1: "g1 = gc_det_map (set_info handle (info_of handle (gc_det g)\<lparr> ci_color := c \<rparr>)) g"
        by (simp add: g1_def set_color_def gc_det_map_def)
      have ok1: "calm g0 rts g1"
        unfolding g1 using less.prems(1) dom not_white by (intro set_info_calm) simp_all
      have heap1: "gc_heap g1 = gc_heap g0"
        using ok1 by (rule calm_heap)
      have "unpainted c g1 = unpainted c g - {handle}"
        by (auto simp: unpainted_def g1 color_of_set_info)
      moreover have "handle \<in> unpainted c g"
        using unlike live heap by (simp add: unpainted_def)
      ultimately have less1: "card (unpainted c g1) < n"
        using less.prems(2) card_Diff1_less [OF finite_unpainted, of g handle c] fin heap by auto
      obtain ks where ks: "get_children E handle g1 = Some (ks, g1)" "set ks \<subseteq> set (gv_kids v)"
        using exact v False heap1 plain_get_children [of v g1 handle E]
        by (auto simp: rc_exact_def)
      have kids: "k = 0 \<or> k \<in> live_at (gc_heap g0)" if "k \<in> set ks" for k
      proof -
        have "k \<in># R + heap_refs (gc_heap g0)"
          using kid_counts [OF fin v, of k] ks(2) that by auto
        then show ?thesis
          using exact by (cases "k = 0") (auto elim!: rc_exact_live simp: live_at_def)
      qed
      have "\<exists>g'. gc_each f ks g1 = Some g' \<and> (calm g0 rts g' \<and> card (unpainted c g') \<le> card (unpainted c g1))"
      proof (rule gc_each_keeps)
        fix k g'
        assume "k \<in> set ks" "calm g0 rts g' \<and> card (unpainted c g') \<le> card (unpainted c g1)"
        then show "\<exists>g''. f k g' = Some g'' \<and> (calm g0 rts g'' \<and> card (unpainted c g'') \<le> card (unpainted c g1))"
          using less.IH [OF less1, of g' k] kids by blast
      qed (simp add: ok1)
      then obtain g' where "gc_each f ks g1 = Some g'" "calm g0 rts g'" "card (unpainted c g') \<le> n"
        using less1 by auto
      then show ?thesis
        using False unlike ks(1) unfolding color_of_def
        by (subst paint) (simp add: Let_def g1_def [symmetric])
    qed
  qed
qed

lemma returns:
  assumes "rc_exact (gc_heap g0) R" "calm g0 rts g" "handle = 0 \<or> handle \<in> live_at (gc_heap g0)"
  obtains g' where "f handle g = Some g'" "calm g0 rts g'"
  using paint_bounded [OF assms(1,2) order_refl assms(3)] by blast

end

interpretation gray: painter E "mark_gray E" Gray for E
  by unfold_locales (rule mark_gray.simps, simp)

interpretation black: painter E "scan_black E" Black for E
  by unfold_locales (rule scan_black.simps, simp)

lemma calm_trans: "calm g0 rts g1 \<Longrightarrow> calm g1 rts' g2 \<Longrightarrow> calm g0 rts' g2"
  by (auto simp: calm_def intro: gc_same_trans)

lemma calm_map:
  assumes "calm g0 rts g" "cd_cycles_detected (f (gc_det g)) = cd_cycles_detected (gc_det g)"
    "cd_values_collected (f (gc_det g)) = cd_values_collected (gc_det g)"
    "det_addrs (gc_det_map f g) \<subseteq> det_addrs g"
    "\<And>b. color_of b (gc_det_map f g) = White \<Longrightarrow> color_of b g = White"
  shows "calm g0 (cd_roots (f (gc_det g))) (gc_det_map f g)"
proof -
  have "gc_same g (gc_det_map f g)"
    using assms(2,3) by (rule gc_same_det)
  moreover have "det_good (gc_det_map f g)"
    using assms by (intro det_good_intro [OF calm_good [OF assms(1)]]) auto
  ultimately show ?thesis
    using assms(1) by (auto simp: calm_def gc_det_map_def intro: gc_same_trans)
qed

subsubsection \<open>The phases of a collection\<close>

text \<open>A root that stays a root is live.\<close>

lemma mark_root_returns:
  assumes "rc_exact (gc_heap g0) R" "calm g0 rts g"
  obtains g' rts' where "mark_root E a g = Some g'" "calm g0 rts' g'" "set rts' \<subseteq> set rts"
    "a = 0 \<or> a \<notin> set rts' \<or> a \<in> live_at (gc_heap g0)"
proof (cases "a = 0")
  case True
  then show ?thesis using that [of g rts] assms by (simp add: mark_root_def)
next
  case ne: False
  let ?drop = "\<lambda>det. det\<lparr> cd_roots := hs_remove a (cd_roots det) \<rparr>"
  have heap: "gc_heap g = gc_heap g0"
    using assms(2) by (rule calm_heap)
  have drop: "calm g0 (hs_remove a rts) (gc_det_map ?drop g1)" if "calm g0 rts g1" for g1
    using calm_map [of g0 rts g1 ?drop] that
    by (auto simp: det_addrs_def gc_det_map_def color_of_def info_of_def calm_def)
  show ?thesis
  proof (cases "hm_get a (cd_info (gc_det g))")
    case None
    then show ?thesis
      using ne that [OF _ drop [OF assms(2)]] by (auto simp: mark_root_def)
  next
    case (Some info)
    then have "a \<in> fst ` set (cd_info (gc_det g))"
      using hm_get_None [of a "cd_info (gc_det g)"] by fastforce
    then have "a \<in> det_addrs g"
      by (simp add: det_addrs_def)
    then obtain v where v: "gc_heap g a = Some v"
      using assms(2) by (auto simp: calm_def det_good_def)
    have white: "ci_color info \<noteq> White"
    proof -
      have "color_of a g = ci_color info"
        using Some by (simp add: color_of_def info_of_def)
      moreover have "color_of a g \<noteq> White"
        using assms(2) unfolding calm_def det_good_def by blast
      ultimately show ?thesis by simp
    qed
    show ?thesis
    proof (cases "ci_color info = Purple \<and> 0 < gv_rc v")
      case True
      then have "a \<in> live_at (gc_heap g0)"
        using v heap by (auto simp: live_at_def)
      moreover from this obtain g' where "mark_gray E a g = Some g'" "calm g0 rts g'"
        using gray.returns [OF assms, of a E] by blast
      ultimately show ?thesis
        using ne Some v True by (intro that [of g' rts]) (simp_all add: mark_root_def)
    next
      case False
      let ?g1 = "gc_det_map (set_info a (info\<lparr> ci_buffered := False \<rparr>)) g"
      let ?g2 = "gc_det_map ?drop ?g1"
      have "calm g0 rts ?g1"
        using v white by (intro set_info_calm [OF assms(2)]) auto
      then have c2: "calm g0 (hs_remove a rts) ?g2"
        by (rule drop)
      let ?forget = "\<lambda>det. det\<lparr> cd_info := hm_remove a (cd_info det) \<rparr>"
      have "det_addrs (gc_det_map ?forget ?g2) \<subseteq> det_addrs ?g2"
        by (auto simp: det_addrs_def gc_det_map_def hm_remove_def)
      moreover have "color_of b ?g2 = White" if "color_of b (gc_det_map ?forget ?g2) = White" for b
        using that by (cases "b = a") (simp_all add: color_of_def gc_det_map_def info_of_def cycle_info_default_def)
      moreover have "cd_roots (?forget (gc_det ?g2)) = hs_remove a rts"
        using c2 by (simp add: calm_def)
      ultimately have c3: "calm g0 (hs_remove a rts) (gc_det_map ?forget ?g2)"
        using calm_map [OF c2, of ?forget] by simp
      let ?r = "if ci_color info = Black \<and> gv_rc v = 0 then gc_det_map ?forget ?g2 else ?g2"
      have "mark_root E a g = Some ?r"
        using ne Some v False by (auto simp: mark_root_def gc_det_map_def Let_def)
      moreover have "calm g0 (hs_remove a rts) ?r"
        using c2 c3 by (simp only: split: if_split) blast
      ultimately show ?thesis
        using that [of ?r "hs_remove a rts"] by auto
    qed
  qed
qed

lemma mark_roots_returns:
  assumes "rc_exact (gc_heap g0) R" "calm g0 rts g"
  obtains g' rts' where "mark_roots E g = Some g'" "calm g0 rts' g'" "set rts' \<subseteq> live_at (gc_heap g0)"
proof -
  have "\<exists>g' rts'. gc_each (mark_root E) xs g = Some g' \<and> calm g0 rts' g' \<and> set rts' \<subseteq> set rts \<and>
      (\<forall>a \<in> set rts'. a \<in> set xs \<longrightarrow> a = 0 \<or> a \<in> live_at (gc_heap g0))"
    if "calm g0 rts g" for xs
    using that
  proof (induction xs arbitrary: rts g)
    case Nil
    then show ?case by (intro exI [of _ g] exI [of _ rts]) simp
  next
    case (Cons x xs)
    obtain g1 rts1 where 1: "mark_root E x g = Some g1" "calm g0 rts1 g1" "set rts1 \<subseteq> set rts"
        "x = 0 \<or> x \<notin> set rts1 \<or> x \<in> live_at (gc_heap g0)"
      using mark_root_returns [OF assms(1) Cons.prems, of E x] by blast
    obtain g2 rts2 where 2: "gc_each (mark_root E) xs g1 = Some g2" "calm g0 rts2 g2" "set rts2 \<subseteq> set rts1"
        "\<forall>a \<in> set rts2. a \<in> set xs \<longrightarrow> a = 0 \<or> a \<in> live_at (gc_heap g0)"
      using Cons.IH [OF 1(2)] by blast
    show ?case
      using 1 2 by (intro exI [of _ g2] exI [of _ rts2]) auto
  qed
  from this [OF assms(2), of rts] obtain g' rts' where
    g': "gc_each (mark_root E) rts g = Some g'" "calm g0 rts' g'" "set rts' \<subseteq> set rts"
      "\<forall>a \<in> set rts'. a \<in> set rts \<longrightarrow> a = 0 \<or> a \<in> live_at (gc_heap g0)"
    by blast
  have "gc_heap g' = gc_heap g0"
    using g'(2) by (rule calm_heap)
  then have "set rts' \<subseteq> dom (gc_heap g0)"
    using g'(2) by (auto simp: calm_def det_good_def det_addrs_def)
  moreover have "0 \<notin> dom (gc_heap g0)"
    using assms(1) by (auto simp: rc_exact_def)
  ultimately have "set rts' \<subseteq> live_at (gc_heap g0)"
    using g'(3,4) by blast
  then show ?thesis
    using that g'(1,2) assms(2) by (simp add: mark_roots_def calm_def)
qed

lemma gc_scan_live:
  assumes "rc_exact (gc_heap g0) R" "calm g0 rts g" "a \<in> live_at (gc_heap g0)"
  shows "\<exists>g'. gc_scan E a g = Some g' \<and> calm g0 rts g'"
proof -
  obtain v where "gc_heap g a = Some v" "0 < gv_rc v"
    using assms(3) calm_heap [OF assms(2)] by (auto simp: live_at_def word_gt_0)
  then show ?thesis
    using black.returns [OF assms(1,2), of a E] assms
    by (subst gc_scan.simps) auto
qed

lemma scan_roots_returns:
  assumes "rc_exact (gc_heap g0) R" "calm g0 rts g" "set rts \<subseteq> live_at (gc_heap g0)"
  obtains g' where "scan_roots E g = Some g'" "calm g0 rts g'"
proof -
  have "\<exists>g'. gc_each (gc_scan E) rts g = Some g' \<and> calm g0 rts g'"
    using assms gc_scan_live [OF assms(1)] by (intro gc_each_keeps) auto
  moreover have "cd_roots (gc_det g) = rts"
    using assms(2) by (simp add: calm_def)
  ultimately show ?thesis
    using that by (auto simp: scan_roots_def)
qed

subsubsection \<open>A whole collection\<close>

lemma is_container_null: "0 \<notin> dom (gc_heap g) \<Longrightarrow> a \<in> dom (gc_heap g) \<Longrightarrow> a \<noteq> 0"
  by blast

lemma buffer_root_calm:
  assumes "calm g0 rts g" "a \<in> dom (gc_heap g)"
  shows "calm g0 (hs_insert a rts) (gc_det_map (buffer_root a) g)"
proof -
  define i where "i = (let info = info_of a (gc_det g) in if ci_color info \<noteq> Purple
    then info\<lparr> ci_color := Purple, ci_birth_epoch := cd_current_epoch (gc_det g), ci_buffered := True \<rparr> else info)"
  let ?g1 = "gc_det_map (set_info a i) g"
  let ?add = "\<lambda>det. det\<lparr> cd_young_roots := hs_insert a (cd_young_roots det), cd_roots := hs_insert a (cd_roots det) \<rparr>"
  have eq: "gc_det_map (buffer_root a) g = gc_det_map ?add ?g1"
    by (simp add: gc_det_map_def buffer_root_def i_def Let_def)
  have "ci_color i \<noteq> White"
    by (simp add: i_def Let_def)
  then have c1: "calm g0 rts ?g1"
    using assms by (intro set_info_calm)
  have "det_addrs (gc_det_map ?add ?g1) = det_addrs ?g1"
    by (auto simp: det_addrs_def gc_det_map_def set_info_def fst_set_hm_insert)
  moreover have "color_of b (gc_det_map ?add ?g1) = color_of b ?g1" for b
    by (simp add: color_of_def gc_det_map_def info_of_def)
  ultimately show ?thesis
    using calm_map [OF c1, of ?add] c1 by (simp add: eq calm_def)
qed

definition quiet :: "gc \<Rightarrow> gc \<Rightarrow> bool" where
  "quiet g0 g \<longleftrightarrow> gc_same g0 g \<and> det_good g"

lemma quiet_calm: "quiet g0 g \<longleftrightarrow> calm g0 (cd_roots (gc_det g)) g"
  by (simp add: quiet_def calm_def)

lemma calm_quiet: "calm g0 rts g \<Longrightarrow> quiet g0 g"
  by (simp add: quiet_def calm_def)

lemma quiet_heap: "quiet g0 g \<Longrightarrow> gc_heap g = gc_heap g0"
  by (simp add: quiet_def gc_same_heap)

lemma quiet_refl [simp]: "quiet g g \<longleftrightarrow> det_good g"
  by (simp add: quiet_def)

lemma quiet_trans: "quiet g0 g1 \<Longrightarrow> quiet g1 g2 \<Longrightarrow> quiet g0 g2"
  by (auto simp: quiet_def intro: gc_same_trans)

text \<open>Changes of the pending flag and of the thread's buffer.\<close>

lemma quiet_local:
  assumes "quiet g0 g" "set l \<subseteq> dom (gc_heap g)"
  shows "quiet g0 (g\<lparr> gc_local_roots := l, gc_pending := p \<rparr>)"
proof -
  have "gc_same g (g\<lparr> gc_local_roots := l, gc_pending := p \<rparr>)"
    by (simp add: gc_same_def cycle_stats_def)
  then show ?thesis
    using assms by (auto simp: quiet_def det_good_def det_addrs_def color_of_def intro: gc_same_trans)
qed

lemma flush_root_quiet:
  assumes "quiet g0 g" "a \<in> dom (gc_heap g)"
  shows "\<exists>g'. flush_root a g = Some g' \<and> quiet g0 g'"
proof -
  obtain v where "gc_heap g a = Some v"
    using assms(2) by auto
  then show ?thesis
    using buffer_root_calm [OF assms(1) [unfolded quiet_calm] assms(2)] assms(1)
    by (auto simp: flush_root_def dest: calm_quiet)
qed

lemma flush_local_quiet:
  assumes "quiet g0 g"
  obtains g' where "flush_local_roots g = Some g'" "quiet g0 g'"
proof -
  have dom: "set (gc_local_roots g) \<subseteq> dom (gc_heap g0)"
    using assms quiet_heap [OF assms] by (auto simp: quiet_def det_good_def det_addrs_def)
  have "quiet g0 (g\<lparr> gc_local_roots := [] \<rparr>)"
    using quiet_local [OF assms, of "[]" "gc_pending g"] by simp
  then have "\<exists>g'. gc_each flush_root (gc_local_roots g) (g\<lparr> gc_local_roots := [] \<rparr>) = Some g' \<and> quiet g0 g'"
    using dom by (intro gc_each_keeps flush_root_quiet) (simp_all add: quiet_heap subset_iff)
  then show ?thesis
    using that by (auto simp: flush_local_roots_def)
qed

lemma possible_root_quiet:
  assumes "quiet g0 g" "a \<in> dom (gc_heap g)"
  obtains g' where "possible_root a g = Some g'" "quiet g0 g'"
proof -
  obtain v where v: "gc_heap g a = Some v"
    using assms(2) by auto
  show ?thesis
  proof (cases "a = 0 \<or> \<not> is_container v")
    case True
    then show ?thesis using that assms(1) v by (auto simp: possible_root_def)
  next
    case False
    obtain g1 where g1: "(if gc_pending g then map_option (\<lambda>g. g\<lparr> gc_pending := False \<rparr>) (flush_local_roots g) else Some g) = Some g1"
        "quiet g0 g1"
    proof (cases "gc_pending g")
      case True
      obtain g' where g': "flush_local_roots g = Some g'" "quiet g0 g'"
        using flush_local_quiet [OF assms(1)] .
      have "set (gc_local_roots g') \<subseteq> dom (gc_heap g')"
        using g'(2) by (auto simp: quiet_def det_good_def det_addrs_def)
      then have "quiet g0 (g'\<lparr> gc_pending := False \<rparr>)"
        using quiet_local [OF g'(2), of "gc_local_roots g'" False] by simp
      then show ?thesis using that g'(1) True by simp
    qed (use that assms(1) in simp)
    let ?g2 = "g1\<lparr> gc_local_roots := gc_local_roots g1 @ [a] \<rparr>"
    have "set (gc_local_roots g1 @ [a]) \<subseteq> dom (gc_heap g1)"
      using g1(2) assms quiet_heap [OF g1(2)] quiet_heap [OF assms(1)] by (auto simp: quiet_def det_good_def det_addrs_def)
    then have "quiet g0 ?g2"
      using quiet_local [OF g1(2), of "gc_local_roots g1 @ [a]" "gc_pending g1"] by simp
    then obtain g3 where "flush_local_roots ?g2 = Some g3" "quiet g0 g3"
      using flush_local_quiet by blast
    then show ?thesis
      using that False v g1(1) \<open>quiet g0 ?g2\<close>
      by (cases "LOCAL_BUFFER_THRESHOLD \<le> length (gc_local_roots ?g2)") (auto simp: possible_root_def)
  qed
qed

lemma unbuffer_color: "ci_color (info_of b (unbuffer a det)) = ci_color (info_of b det)"
  by (simp add: unbuffer_def info_of_set_info split: option.split) (simp add: info_of_def)

lemma unbuffer_keys: "fst ` set (cd_info (unbuffer a det)) = fst ` set (cd_info det)"
  by (auto simp: unbuffer_def set_info_def fst_set_hm_insert hm_get_def image_iff split: option.split dest!: map_of_SomeD)
    force+

lemma unbuffer_rest: "cd_young_roots (unbuffer a det) = cd_young_roots det" "cd_old_roots (unbuffer a det) = cd_old_roots det"
    "cd_cycles_detected (unbuffer a det) = cd_cycles_detected det" "cd_values_collected (unbuffer a det) = cd_values_collected det"
  by (simp_all add: unbuffer_def set_info_def split: option.split)

lemma fold_unbuffer:
  "ci_color (info_of b (fold unbuffer xs det)) = ci_color (info_of b det)"
  "fst ` set (cd_info (fold unbuffer xs det)) = fst ` set (cd_info det)"
  "cd_young_roots (fold unbuffer xs det) = cd_young_roots det" "cd_old_roots (fold unbuffer xs det) = cd_old_roots det"
  "cd_cycles_detected (fold unbuffer xs det) = cd_cycles_detected det"
  "cd_values_collected (fold unbuffer xs det) = cd_values_collected det"
  by (induction xs arbitrary: det) (simp_all add: unbuffer_color unbuffer_keys unbuffer_rest)

lemma end_collection_stats: "cd_cycles_detected (end_collection det) = cd_cycles_detected det"
    "cd_values_collected (end_collection det) = cd_values_collected det"
  by (simp_all add: end_collection_def)

lemma collect_quiet:
  assumes "rc_exact (gc_heap g) R" "det_good g"
  obtains g' where "collect_cycles E g = Some g'" "quiet g g'"
proof -
  have "quiet g (g\<lparr> gc_pending := True \<rparr>)"
  proof -
    have "set (gc_local_roots g) \<subseteq> dom (gc_heap g)"
      using assms(2) by (auto simp: det_good_def det_addrs_def)
    then show ?thesis
      using quiet_local [of g g "gc_local_roots g" True] assms(2) by simp
  qed
  then obtain g1 where g1: "flush_all_thread_local_roots g = Some g1" "quiet g g1"
    unfolding flush_all_thread_local_roots_def using flush_local_quiet by blast
  show ?thesis
  proof (cases "begin_collection (gc_det g1)")
    case None
    then show ?thesis
      using that [of g1] g1 by (simp add: collect_cycles_def gc_run.simps [of E CCollect])
  next
    case (Some det)
    let ?g2 = "g1\<lparr> gc_det := det \<rparr>"
    have "det_addrs ?g2 \<subseteq> det_addrs g1" "gc_same g1 ?g2" "color_of b ?g2 = color_of b g1" for b
      using Some by (auto simp: begin_collection_def Let_def det_addrs_def gc_same_def cycle_stats_def color_of_def info_of_def
        split: if_splits)
    then have "quiet g ?g2"
      using g1(2) by (auto simp: quiet_def det_good_def intro: gc_same_trans)
    then have c2: "calm g (cd_roots (gc_det ?g2)) ?g2"
      by (simp only: quiet_calm)
    obtain g3 rts3 where 3: "mark_roots E ?g2 = Some g3" "calm g rts3 g3" "set rts3 \<subseteq> live_at (gc_heap g)"
      using mark_roots_returns [OF assms(1) c2] .
    obtain g4 where 4: "scan_roots E g3 = Some g4" "calm g rts3 g4"
      using scan_roots_returns [OF assms(1) 3(2,3)] .
    have "color_of b g4 \<noteq> White" for b
      using 4(2) by (simp add: calm_def det_good_def)
    then have fg: "find_garbage g4 = ([], gc_det_map (\<lambda>det. (fold unbuffer rts3 det)\<lparr> cd_roots := [] \<rparr>) g4)"
      using 4(2) by (simp add: find_garbage_def calm_def Let_def)
    let ?un = "\<lambda>det. (fold unbuffer rts3 det)\<lparr> cd_roots := [] \<rparr>"
    let ?g5 = "gc_det_map ?un g4"
    have "color_of b ?g5 = color_of b g4" for b
    proof -
      have "info_of b (d\<lparr> cd_roots := [] \<rparr>) = info_of b d" for d
        by (simp add: info_of_def)
      then show ?thesis
        by (simp add: color_of_def gc_det_map_def fold_unbuffer)
    qed
    moreover have "det_addrs ?g5 \<subseteq> det_addrs g4"
      by (auto simp: det_addrs_def gc_det_map_def fold_unbuffer)
    ultimately have "calm g [] ?g5"
      using calm_map [OF 4(2), of ?un] by (simp add: fold_unbuffer)
    moreover have "det_addrs (gc_det_map end_collection ?g5) \<subseteq> det_addrs ?g5"
      by (auto simp: det_addrs_def gc_det_map_def end_collection_def)
    moreover have "color_of b (gc_det_map end_collection ?g5) = color_of b ?g5" for b
      by (simp add: color_of_def gc_det_map_def end_collection_def info_of_def)
    ultimately have "calm g (cd_roots (end_collection (gc_det ?g5))) (gc_det_map end_collection ?g5)"
      by (intro calm_map) (simp_all add: end_collection_stats)
    then have "quiet g (gc_det_map end_collection ?g5)"
      by (rule calm_quiet)
    moreover have "collect_cycles E g = Some (gc_det_map end_collection ?g5)"
      using g1(1) Some 3(1) 4(1) by (simp add: collect_cycles_def gc_run.simps [of E CCollect] fg)
    ultimately show ?thesis
      using that by blast
  qed
qed

end
