(* ===== verification/Runtime_GcInv.thy ===== *)
theory Runtime_GcInv
  imports Runtime_GcQuiet
begin

text \<open>
  The invariant of the runtime's heap, and what giving up one reference does to it: a shared box keeps
  its contents, the last reference empties the box, passes its children on and returns it to a pool.
\<close>

subsection \<open>The invariant of the heap\<close>

text \<open>
  \<open>R\<close> are the handles held outside the heap. Every count is exact; the boxes without references are those
  in the pools; the live counter is right; and the pools have room, so that no box is given back.
\<close>

definition gc_inv :: "gc \<Rightarrow> addr multiset \<Rightarrow> bool" where
  "gc_inv g R \<longleftrightarrow> rc_exact (gc_heap g) R \<and> distinct (gc_local_pool g @ gc_pool g) \<and>
     set (gc_local_pool g @ gc_pool g) = dom (gc_heap g) - live_at (gc_heap g) \<and> gc_queue g = None \<and>
     gc_live g = of_nat (card (live_at (gc_heap g))) \<and> det_good g \<and>
     card (dom (gc_heap g)) \<le> LOCAL_POOL_LIMIT + VALUE_POOL_LIMIT"

lemma gc_inv_same:
  assumes "gc_inv g R" "gc_heap g' = gc_heap g" "gc_local_pool g' = gc_local_pool g" "gc_pool g' = gc_pool g"
    "gc_queue g' = gc_queue g" "gc_live g' = gc_live g" "det_good g'"
  shows "gc_inv g' R"
  using assms by (simp add: gc_inv_def)

lemma gc_same_fields:
  assumes "gc_same g g'"
  shows "gc_local_pool g' = gc_local_pool g" "gc_pool g' = gc_pool g" "gc_queue g' = gc_queue g" "gc_live g' = gc_live g"
    "gc_auto g' = gc_auto g" "gc_queue_busy g' = gc_queue_busy g" "gc_cycle_counter g' = gc_cycle_counter g"
proof -
  have eq: "g' = g\<lparr> gc_local_roots := gc_local_roots g', gc_pending := gc_pending g', gc_det := gc_det g' \<rparr>"
    using assms by (simp only: gc_same_def)
  show "gc_local_pool g' = gc_local_pool g" by (subst eq) simp
  show "gc_pool g' = gc_pool g" by (subst eq) simp
  show "gc_queue g' = gc_queue g" by (subst eq) simp
  show "gc_live g' = gc_live g" by (subst eq) simp
  show "gc_auto g' = gc_auto g" by (subst eq) simp
  show "gc_queue_busy g' = gc_queue_busy g" by (subst eq) simp
  show "gc_cycle_counter g' = gc_cycle_counter g" by (subst eq) simp
qed

lemma gc_inv_quiet: "gc_inv g R \<Longrightarrow> quiet g g' \<Longrightarrow> gc_inv g' R"
  by (erule gc_inv_same) (simp_all add: quiet_heap gc_same_fields quiet_def)

lemma gc_inv_exact: "gc_inv g R \<Longrightarrow> rc_exact (gc_heap g) R"
  by (simp add: gc_inv_def)

lemma gc_inv_good: "gc_inv g R \<Longrightarrow> det_good g"
  by (simp add: gc_inv_def)

text \<open>Live boxes keep their contents.\<close>

definition shrinks :: "(addr \<rightharpoonup> gc_value) \<Rightarrow> (addr \<rightharpoonup> gc_value) \<Rightarrow> bool" where
  "shrinks h h' \<longleftrightarrow> dom h' = dom h \<and> (\<forall>b v'. h' b = Some v' \<longrightarrow> gv_rc v' \<noteq> 0 \<longrightarrow>
     (\<exists>v n. h b = Some v \<and> gv_rc v \<noteq> 0 \<and> v' = v\<lparr> gv_rc := n \<rparr>))"

lemma shrinksD:
  assumes "shrinks h h'" "h' b = Some v'" "gv_rc v' \<noteq> 0"
  obtains v n where "h b = Some v" "gv_rc v \<noteq> 0" "v' = v\<lparr> gv_rc := n \<rparr>"
  using assms unfolding shrinks_def by blast

lemma shrinks_refl [simp]: "shrinks h h"
  unfolding shrinks_def by (metis gc_value.surjective gc_value.update_convs(5))

lemma shrinks_trans:
  assumes "shrinks h h1" "shrinks h1 h2"
  shows "shrinks h h2"
  unfolding shrinks_def
proof (intro conjI allI impI)
  show "dom h2 = dom h"
    using assms by (simp add: shrinks_def)
  fix b v2
  assume "h2 b = Some v2" "gv_rc v2 \<noteq> 0"
  with assms(2) obtain v1 n1 where v1: "h1 b = Some v1" "gv_rc v1 \<noteq> 0" "v2 = v1\<lparr> gv_rc := n1 \<rparr>"
    by (rule shrinksD)
  from assms(1) v1(1,2) obtain v n where "h b = Some v" "gv_rc v \<noteq> 0" "v1 = v\<lparr> gv_rc := n \<rparr>"
    by (rule shrinksD)
  then have "h b = Some v \<and> gv_rc v \<noteq> 0 \<and> v2 = v\<lparr> gv_rc := n1 \<rparr>"
    using v1(3) by simp
  then show "\<exists>v n. h b = Some v \<and> gv_rc v \<noteq> 0 \<and> v2 = v\<lparr> gv_rc := n \<rparr>"
    by blast
qed

lemma shrinks_refs:
  assumes "shrinks h h'" "finite (dom h)" "k \<in># heap_refs h'"
  shows "k \<in># heap_refs h"
proof -
  have "finite (dom h')"
    using assms(1,2) by (simp add: shrinks_def)
  then obtain b v' where v': "h' b = Some v'" "gv_rc v' \<noteq> 0" "k \<in> set (gv_kids v')"
    using assms(3) by (rule heap_refs_kid)
  with assms(1) obtain v n where "h b = Some v" "gv_rc v \<noteq> 0" "v' = v\<lparr> gv_rc := n \<rparr>"
    by (metis shrinksD)
  with v'(3) show ?thesis
    using kid_counts [OF assms(2), of b v k] by simp
qed

lemma shrinks_dead:
  assumes "h a = Some v" "gv_rc u = 0"
  shows "shrinks h (h(a \<mapsto> u))"
proof -
  have "\<exists>v n. h b = Some v \<and> gv_rc v \<noteq> 0 \<and> v' = v\<lparr> gv_rc := n \<rparr>"
    if "(h(a \<mapsto> u)) b = Some v'" "gv_rc v' \<noteq> 0" for b v'
  proof -
    have "h b = Some v'"
      using that assms(2) by (cases "b = a") auto
    moreover have "v' = v'\<lparr> gv_rc := gv_rc v' \<rparr>"
      by simp
    ultimately show ?thesis using that(2) by blast
  qed
  then show ?thesis
    using assms(1) by (auto simp: shrinks_def)
qed

lemma shrinks_rc:
  assumes "h a = Some v" "gv_rc v \<noteq> 0"
  shows "shrinks h (h(a \<mapsto> v\<lparr> gv_rc := n \<rparr>))"
proof -
  have "\<exists>v n. h b = Some v \<and> gv_rc v \<noteq> 0 \<and> v' = v\<lparr> gv_rc := n \<rparr>"
    if "(h(a \<mapsto> v\<lparr> gv_rc := n \<rparr>)) b = Some v'" "gv_rc v' \<noteq> 0" for b v'
  proof (cases "b = a")
    case False
    then have "h b = Some v'" "v' = v'\<lparr> gv_rc := gv_rc v' \<rparr>"
      using that(1) by auto
    then show ?thesis using that(2) by blast
  qed (use that assms in auto)
  then show ?thesis
    using assms(1) by (auto simp: shrinks_def)
qed

subsection \<open>One reference given up\<close>

lemma gc_heap_set [simp]: "gc_heap (gc_set a v g) = (gc_heap g)(a \<mapsto> v)"
  by (simp add: gc_set_def)

lemma det_good_heap:
  assumes "det_good g" "gc_det g' = gc_det g" "gc_local_roots g' = gc_local_roots g" "dom (gc_heap g') = dom (gc_heap g)"
  shows "det_good g'"
  using assms by (simp add: det_good_def det_addrs_def color_of_def)

lemma live_rc_pos: "gc_inv g (add_mset a R) \<Longrightarrow> a \<noteq> 0 \<Longrightarrow> (\<And>v. gc_heap g a = Some v \<Longrightarrow> gv_rc v \<noteq> 0 \<Longrightarrow> gv_plain v \<Longrightarrow> thesis) \<Longrightarrow> thesis"
  by (rule rc_exact_live [OF gc_inv_exact, of g "add_mset a R" a]) auto

lemma gc_inv_decrement:
  assumes "gc_inv g (add_mset a R)" "a \<noteq> 0" "gc_heap g a = Some v" "gv_rc v \<noteq> 0" "gv_rc v \<noteq> 1"
  shows "gc_inv (gc_set a (v\<lparr> gv_rc := gv_rc v - 1 \<rparr>) (g\<lparr> gc_releases := n \<rparr>)) R"
proof -
  have "1 < gv_rc v"
    using assms(4,5) by (simp add: word_less_nat_alt word_unat_eq_iff)
  moreover have "live_at ((gc_heap g)(a \<mapsto> v\<lparr> gv_rc := gv_rc v - 1 \<rparr>)) = live_at (gc_heap g)"
    using assms(3-5) by (auto simp: live_at_upd live_at_def)
  moreover have "det_good (gc_set a (v\<lparr> gv_rc := gv_rc v - 1 \<rparr>) (g\<lparr> gc_releases := n \<rparr>))"
    using assms(3) by (intro det_good_heap [OF gc_inv_good [OF assms(1)]]) (auto simp: gc_set_def)
  moreover have "dom ((gc_heap g)(a \<mapsto> v\<lparr> gv_rc := gv_rc v - 1 \<rparr>)) = dom (gc_heap g)"
    using assms(3) by auto
  ultimately show ?thesis
    using rc_exact_decrement [OF gc_inv_exact [OF assms(1)] assms(2,3)] assms(1)
    unfolding gc_inv_def gc_heap_set by (simp add: gc_set_def)
qed

lemma gv_unit_simps [simp]: "gv_rc (gv_unit t) = 1" "gv_kids (gv_unit t) = []" "gv_plain (gv_unit t)"
    "drop_children (gv_unit t) = Some ([], [])"
proof -
  have flags: "gv_has f (gv_unit t) = False" for f
    by (simp add: gv_has_def gv_unit_def gv_new_def)
  have tag: "gv_tag (gv_unit t) = vtag_byte VUnit"
    by (simp add: gv_unit_def gv_new_def)
  show d: "drop_children (gv_unit t) = Some ([], [])"
    unfolding drop_children_def gv_is_err_def flags tag vtag_try_from_byte by simp
  show "gv_rc (gv_unit t) = 1"
    by (simp add: gv_unit_def gv_new_def)
  show "gv_kids (gv_unit t) = []"
    by (simp add: d gv_kids_def nonnull_def)
  show "gv_plain (gv_unit t)"
    unfolding gv_plain_def d flags tag gv_is_err_def by (simp add: gv_unit_def gv_new_def)
qed

text \<open>The last reference: the emptied box is still there, as a unit with one reference.\<close>

definition emptied :: "gc_env \<Rightarrow> addr \<Rightarrow> gc \<Rightarrow> gc" where
  "emptied E a g = gc_set a (gv_unit (ge_thread E)) (notify_value_freed a (g\<lparr> gc_releases := gc_releases g + 1 \<rparr>))"

lemma notify_freed_color: "color_of b (notify_value_freed a g) = (if b = a \<and> a \<noteq> 0 then Black else color_of b g)"
  by (simp add: notify_value_freed_def gc_det_map_def color_of_def info_of_def cycle_info_default_def)

lemma notify_freed_good: "det_good g \<Longrightarrow> det_good (notify_value_freed a g)"
  unfolding det_good_def notify_freed_color
  by (auto simp: notify_value_freed_def det_addrs_def gc_det_map_def hm_remove_def)

lemma notify_freed_fields [simp]: "gc_heap (notify_value_freed a g) = gc_heap g"
    "gc_local_pool (notify_value_freed a g) = gc_local_pool g" "gc_pool (notify_value_freed a g) = gc_pool g"
    "gc_queue (notify_value_freed a g) = gc_queue g" "gc_live (notify_value_freed a g) = gc_live g"
    "gc_releases (notify_value_freed a g) = gc_releases g" "gc_queue_busy (notify_value_freed a g) = gc_queue_busy g"
  by (simp_all add: notify_value_freed_def gc_det_map_def)

lemma gc_inv_emptied:
  assumes "gc_inv g (add_mset a R)" "a \<noteq> 0" "gc_heap g a = Some v" "gv_rc v = 1"
  shows "gc_inv (emptied E a g) (add_mset a (R + mset (gv_kids v)))"
proof -
  let ?u = "gv_unit (ge_thread E)"
  have dead: "rc_exact ((gc_heap g)(a \<mapsto> v\<lparr> gv_rc := 0 \<rparr>)) (R + mset (gv_kids v))"
    using gc_inv_exact [OF assms(1)] assms(2-4) by (intro rc_exact_die) simp_all
  have "rc_exact ((gc_heap g)(a \<mapsto> v\<lparr> gv_rc := 0 \<rparr>, a \<mapsto> ?u)) (add_mset a (R + mset (gv_kids v)))"
    using dead assms(2) by (intro rc_exact_born) (simp_all add: live_at_upd)
  then have "rc_exact ((gc_heap g)(a \<mapsto> ?u)) (add_mset a (R + mset (gv_kids v)))"
    by simp
  moreover have "live_at ((gc_heap g)(a \<mapsto> ?u)) = live_at (gc_heap g)"
    using assms(3,4) by (auto simp: live_at_upd live_at_def)
  moreover have "dom ((gc_heap g)(a \<mapsto> ?u)) = dom (gc_heap g)"
    using assms(3) by auto
  moreover have "det_good (emptied E a g)"
  proof -
    have "det_good (g\<lparr> gc_releases := gc_releases g + 1 \<rparr>)"
      by (rule det_good_heap [OF gc_inv_good [OF assms(1)]]) simp_all
    from notify_freed_good [OF this, of a] show ?thesis
      unfolding emptied_def by (rule det_good_heap) (use assms(3) in \<open>auto simp: gc_set_def\<close>)
  qed
  ultimately show ?thesis
    using assms(1) unfolding gc_inv_def emptied_def gc_heap_set
    by (simp add: gc_set_def)
qed

text \<open>Giving the emptied box back to a pool.\<close>

lemma pools_have_room:
  assumes "gc_inv g R" "a \<in> live_at (gc_heap g)"
  shows "length (gc_local_pool g) < LOCAL_POOL_LIMIT \<or> length (gc_pool g) < VALUE_POOL_LIMIT"
proof -
  have fin: "finite (dom (gc_heap g))"
    using gc_inv_exact [OF assms(1)] by (simp add: rc_exact_def)
  have "length (gc_local_pool g @ gc_pool g) = card (dom (gc_heap g) - live_at (gc_heap g))"
    using assms(1) distinct_card [of "gc_local_pool g @ gc_pool g"] by (simp add: gc_inv_def)
  also have "\<dots> < card (dom (gc_heap g))"
  proof -
    have "a \<in> dom (gc_heap g)"
      using assms(2) by (auto simp: live_at_def)
    then show ?thesis
      using assms(2) fin by (intro psubset_card_mono) auto
  qed
  also have "\<dots> \<le> LOCAL_POOL_LIMIT + VALUE_POOL_LIMIT"
    using assms(1) by (simp add: gc_inv_def)
  finally show ?thesis
    by auto
qed

lemma dealloc_returns:
  assumes "gc_inv g (add_mset a R)" "a \<noteq> 0" "gc_heap g a = Some v" "gv_rc v = 1" "gv_kids v = []"
  obtains g' where "dealloc_value_box a g = Some g'" "gc_inv g' R"
    "gc_heap g' = (gc_heap g)(a \<mapsto> v\<lparr> gv_rc := 0, gv_owner := 0 \<rparr>)" "gc_queue_busy g' = gc_queue_busy g"
proof -
  let ?u = "v\<lparr> gv_rc := 0, gv_owner := 0 \<rparr>"
  let ?h = "(gc_heap g)(a \<mapsto> ?u)"
  have live: "a \<in> live_at (gc_heap g)"
    using assms(3,4) by (simp add: live_at_def)
  have exact: "rc_exact ?h R"
    using rc_exact_die [OF gc_inv_exact [OF assms(1)] assms(2,3,4), of ?u] assms(5) by simp
  have lv: "live_at ?h = live_at (gc_heap g) - {a}"
    by (simp add: live_at_upd)
  have dom: "dom ?h = dom (gc_heap g)"
    using assms(3) by auto
  have fin: "finite (live_at (gc_heap g))"
    using gc_inv_exact [OF assms(1)] by (simp add: rc_exact_def finite_live)
  have "card (live_at (gc_heap g)) = Suc (card (live_at ?h))"
    using card.remove [OF fin live] by (simp add: lv)
  then have count: "gc_live g - 1 = of_nat (card (live_at ?h))"
    using assms(1) by (simp add: gc_inv_def)
  have notin: "a \<notin> set (gc_local_pool g @ gc_pool g)"
    using assms(1) live by (simp add: gc_inv_def)
  have pools: "set (gc_local_pool g @ gc_pool g) = dom (gc_heap g) - live_at (gc_heap g)"
    using assms(1) by (simp add: gc_inv_def)
  have pools': "insert a (set (gc_local_pool g) \<union> set (gc_pool g)) = dom ?h - live_at ?h"
    using pools live assms(3) unfolding lv dom by auto
  show ?thesis
  proof (cases "length (gc_local_pool g) < LOCAL_POOL_LIMIT")
    case True
    let ?g = "(gc_set a ?u (g\<lparr> gc_live := gc_live g - 1 \<rparr>))\<lparr> gc_local_pool := gc_local_pool g @ [a] \<rparr>"
    have "dealloc_value_box a g = Some ?g"
      using assms(3) True by (simp add: dealloc_value_box_def recycle_value_box_def Let_def gc_set_def)
    moreover have "det_good ?g"
      using assms(3) by (intro det_good_heap [OF gc_inv_good [OF assms(1)]]) (auto simp: gc_set_def)
    then have "gc_inv ?g R"
      using assms(1) exact notin pools' count dom by (auto simp: gc_inv_def gc_set_def)
    ultimately show ?thesis
      using that [of ?g] by (simp add: gc_set_def)
  next
    case False
    then have room: "length (gc_pool g) < VALUE_POOL_LIMIT"
      using pools_have_room [OF assms(1) live] by simp
    let ?g = "(gc_set a ?u (g\<lparr> gc_live := gc_live g - 1 \<rparr>))\<lparr> gc_pool := gc_pool g @ [a] \<rparr>"
    have "dealloc_value_box a g = Some ?g"
      using assms(3) False room by (simp add: dealloc_value_box_def recycle_value_box_def Let_def gc_set_def)
    moreover have "det_good ?g"
      using assms(3) by (intro det_good_heap [OF gc_inv_good [OF assms(1)]]) (auto simp: gc_set_def)
    then have "gc_inv ?g R"
      using assms(1) exact notin pools' count dom by (auto simp: gc_inv_def gc_set_def)
    ultimately show ?thesis
      using that [of ?g] by (simp add: gc_set_def)
  qed
qed

subsection \<open>Releasing\<close>

lemma emptied_eq:
  "gc_set a (gv_unit (ge_thread E)) (notify_value_freed a (gc_set a w (g\<lparr> gc_releases := gc_releases g + 1 \<rparr>))) = emptied E a g"
  by (simp add: emptied_def notify_value_freed_def gc_set_def gc_det_map_def)

lemma plain_drop: "gv_plain v \<Longrightarrow> (\<And>hs. drop_children v = Some (hs, []) \<Longrightarrow> gv_kids v = nonnull hs \<Longrightarrow> thesis) \<Longrightarrow> thesis"
  by (auto simp: gv_plain_def gv_kids_def)

lemma run_drop_Nil: "gc_run E (CDrop []) g = Some g"
  by (simp add: gc_run.simps [of E "CDrop []"] pop_last_def)

lemma run_drop_null: "gc_run E (CDrop (work @ [0])) g = gc_run E (CDrop work) g"
  by (simp add: gc_run.simps [of E "CDrop (work @ [0])"] pop_last_def)

lemma run_drop_shared:
  assumes "c \<noteq> 0" "gc_heap g c = Some v" "gv_rc v \<noteq> 0" "gv_rc v \<noteq> 1"
  shows "gc_run E (CDrop (work @ [c])) g = do {
    g \<leftarrow> possible_root c (gc_set c (v\<lparr> gv_rc := gv_rc v - 1 \<rparr>) (g\<lparr> gc_releases := gc_releases g + 1 \<rparr>));
    gc_run E (CDrop work) g }"
  using assms by (simp add: gc_run.simps [of E "CDrop (work @ [c])"] pop_last_def release_count_def)

lemma run_drop_last:
  assumes "c \<noteq> 0" "gc_heap g c = Some v" "gv_rc v = 1" "drop_children v = Some (hs, [])"
  shows "gc_run E (CDrop (work @ [c])) g = do {
    g \<leftarrow> dealloc_value_box c (emptied E c g);
    gc_run E (CDrop (work @ hs)) g }"
proof -
  have "drop_children (v\<lparr> gv_rc := 0, gv_epoch := e \<rparr>) = Some (hs, [])" for e
    using assms(4) by (metis drop_children_header)
  then show ?thesis
    using assms
    by (simp add: gc_run.simps [of E "CDrop (work @ [c])"] pop_last_def release_count_def notify_value_deallocated_def)
      (simp add: emptied_def gc_set_def notify_value_freed_def gc_det_map_def)
qed

text \<open>What is left to do: the entries of the children lists, counted with nulls.\<close>

definition entries_of :: "gc_value \<Rightarrow> nat" where
  "entries_of v = (case drop_children v of Some (hs, _) \<Rightarrow> length hs | None \<Rightarrow> 0)"

definition heap_entries :: "(addr \<rightharpoonup> gc_value) \<Rightarrow> nat" where
  "heap_entries h = (\<Sum>a \<in> live_at h. entries_of (the (h a)))"

lemma entries_header [simp]: "entries_of (v\<lparr> gv_rc := n \<rparr>) = entries_of v"
  by (simp add: entries_of_def)

lemma heap_entries_upd:
  assumes "finite (live_at h)" "a \<in> live_at h" "h a = Some v"
  shows "heap_entries (h(a \<mapsto> u)) + entries_of v = heap_entries h + (if gv_rc u = 0 then 0 else entries_of u)"
proof -
  have same: "(\<Sum>b \<in> live_at h - {a}. entries_of (the ((h(a \<mapsto> u)) b))) = (\<Sum>b \<in> live_at h - {a}. entries_of (the (h b)))"
    by (intro sum.cong) auto
  show ?thesis
    using sum.remove [OF assms(1,2), of "\<lambda>b. entries_of (the (h b))"]
      sum.remove [OF assms(1,2), of "\<lambda>b. entries_of (the ((h(a \<mapsto> u)) b))"] same assms(2,3)
    by (simp add: heap_entries_def live_at_upd insert_absorb)
qed

lemma possible_root_inv:
  assumes "gc_inv g R" "gc_heap g a \<noteq> None"
  obtains g' where "possible_root a g = Some g'" "gc_inv g' R" "quiet g g'"
proof -
  have "a \<in> dom (gc_heap g)"
    using assms(2) by blast
  then obtain g' where g': "possible_root a g = Some g'" "quiet g g'"
    using possible_root_quiet [of g g a] gc_inv_good [OF assms(1)] by auto
  then show ?thesis
    using that gc_inv_quiet [OF assms(1)] by blast
qed

lemma drop_loop:
  assumes "gc_inv g (R + mset work)"
  shows "\<exists>g'. gc_run E (CDrop work) g = Some g' \<and> gc_inv g' R \<and> shrinks (gc_heap g) (gc_heap g')"
  using assms
proof (induction "heap_entries (gc_heap g) + length work" arbitrary: g work rule: less_induct)
  case less
  show ?case
  proof (cases work rule: rev_cases)
    case Nil
    then show ?thesis using less.prems by (simp add: run_drop_Nil)
  next
    case (snoc work' c)
    have inv: "gc_inv g (add_mset c (R + mset work'))"
      using less.prems snoc by simp
    show ?thesis
    proof (cases "c = 0")
      case True
      have "gc_inv g (R + mset work')"
        using inv True by (auto simp: gc_inv_def rc_exact_def)
      then show ?thesis
        using less.hyps [of g work'] snoc True by (simp add: run_drop_null)
    next
      case False
      then obtain v where v: "gc_heap g c = Some v" "gv_rc v \<noteq> 0" "gv_plain v"
        using live_rc_pos [OF inv] by blast
      have fin: "finite (live_at (gc_heap g))"
        using gc_inv_exact [OF inv] by (simp add: rc_exact_def finite_live)
      have live: "c \<in> live_at (gc_heap g)"
        using v by (simp add: live_at_def)
      show ?thesis
      proof (cases "gv_rc v = 1")
        case shared: False
        let ?g1 = "gc_set c (v\<lparr> gv_rc := gv_rc v - 1 \<rparr>) (g\<lparr> gc_releases := gc_releases g + 1 \<rparr>)"
        have inv1: "gc_inv ?g1 (R + mset work')"
          using gc_inv_decrement [OF inv False v(1,2) shared] .
        then obtain g2 where g2: "possible_root c ?g1 = Some g2" "gc_inv g2 (R + mset work')" "quiet ?g1 g2"
          by (rule possible_root_inv [of _ _ c]) (auto simp: gc_set_def)
        have heap: "gc_heap g2 = (gc_heap g)(c \<mapsto> v\<lparr> gv_rc := gv_rc v - 1 \<rparr>)"
          using quiet_heap [OF g2(3)] by (simp add: gc_set_def)
        have "gv_rc v - 1 \<noteq> 0"
          using shared by simp
        then have "heap_entries (gc_heap g2) = heap_entries (gc_heap g)"
          using heap_entries_upd [OF fin live v(1), of "v\<lparr> gv_rc := gv_rc v - 1 \<rparr>"] by (simp add: heap)
        then obtain g3 where "gc_run E (CDrop work') g2 = Some g3" "gc_inv g3 R" "shrinks (gc_heap g2) (gc_heap g3)"
          using less.hyps [of g2 work'] g2(2) snoc by auto
        moreover have "shrinks (gc_heap g) (gc_heap g2)"
          unfolding heap using v by (intro shrinks_rc)
        ultimately show ?thesis
          using run_drop_shared [OF False v(1,2) shared] g2(1) snoc by (auto intro: shrinks_trans)
      next
        case last: True
        obtain hs where hs: "drop_children v = Some (hs, [])" "gv_kids v = nonnull hs"
          using plain_drop [OF v(3)] by blast
        have inv1: "gc_inv (emptied E c g) (add_mset c (R + mset work' + mset (nonnull hs)))"
          using gc_inv_emptied [OF inv False v(1) last] hs(2) by simp
        obtain g2 where g2: "dealloc_value_box c (emptied E c g) = Some g2" "gc_inv g2 (R + mset work' + mset (nonnull hs))"
            "gc_heap g2 = (gc_heap (emptied E c g))(c \<mapsto> (gv_unit (ge_thread E))\<lparr> gv_rc := 0, gv_owner := 0 \<rparr>)"
          by (rule dealloc_returns [OF inv1 False]) (auto simp: emptied_def gc_set_def)
        have heap: "gc_heap g2 = (gc_heap g)(c \<mapsto> (gv_unit (ge_thread E))\<lparr> gv_rc := 0, gv_owner := 0 \<rparr>)"
          using g2(3) by (simp add: emptied_def)
        have "heap_entries (gc_heap g2) + length hs = heap_entries (gc_heap g)"
          using heap_entries_upd [OF fin live v(1), of "(gv_unit (ge_thread E))\<lparr> gv_rc := 0, gv_owner := 0 \<rparr>"] hs(1)
          by (simp add: heap entries_of_def)
        moreover have "gc_inv g2 (R + mset (work' @ hs))"
          using g2(2) by (simp add: gc_inv_def rc_exact_def nonnull_def mset_filter ac_simps)
        ultimately obtain g3 where "gc_run E (CDrop (work' @ hs)) g2 = Some g3" "gc_inv g3 R" "shrinks (gc_heap g2) (gc_heap g3)"
          using less.hyps [of g2 "work' @ hs"] snoc by auto
        moreover have "shrinks (gc_heap g) (gc_heap g2)"
          unfolding heap using v(1) by (intro shrinks_dead) simp_all
        ultimately show ?thesis
          using run_drop_last [OF False v(1) last hs(1)] g2(1) snoc by (auto intro: shrinks_trans)
      qed
    qed
  qed
qed

end
