(* ===== verification/Runtime_GcRelease.thy ===== *)
theory Runtime_GcRelease
  imports Runtime_GcInv
begin

text \<open>
  Releasing a reference: it returns, keeps the invariant without the handle, and leaves every live box its
  contents. From that, what stays reachable and what is left when all handles are gone.
\<close>

lemma run_release_last:
  assumes "a \<noteq> 0" "gc_heap g a = Some v" "gv_rc v = 1" "drop_children v = Some (hs, [])" "\<not> gv_has FLAG_STACK v" "gc_queue g = None"
  shows "gc_run E (CRelease a) g = do { g \<leftarrow> gc_run E (CDrop hs) (emptied E a g); dealloc_value_box a g }"
proof -
  let ?v = "v\<lparr> gv_rc := 0, gv_epoch := gv_epoch v + 1 \<rparr>"
  let ?g1 = "notify_value_freed a (gc_set a ?v (g\<lparr> gc_releases := gc_releases g + 1 \<rparr>))"
  have "gc_run E (CRelease a) g = do { g \<leftarrow> gc_run E (CValue a) ?g1; dealloc_value_box a g }"
    using assms by (simp add: gc_run.simps [of E "CRelease a"] release_count_def notify_value_deallocated_def)
      (simp add: gc_set_def notify_value_freed_def gc_det_map_def)
  moreover have "drop_children ?v = Some (hs, [])"
    using assms(4) by (metis drop_children_header)
  then have "gc_run E (CValue a) ?g1 = gc_run E (CDrop hs) (gc_set a (gv_unit (ge_thread E)) ?g1)"
    by (simp add: gc_run.simps [of E "CValue a"])
  ultimately show ?thesis
    by (simp add: emptied_eq)
qed

lemma run_release_shared:
  assumes "a \<noteq> 0" "gc_heap g a = Some v" "gv_rc v \<noteq> 0" "gv_rc v \<noteq> 1" "\<not> gv_has FLAG_STACK v"
  shows "gc_run E (CRelease a) g = do {
    g \<leftarrow> possible_root a (gc_set a (v\<lparr> gv_rc := gv_rc v - 1 \<rparr>) (g\<lparr> gc_releases := gc_releases g + 1 \<rparr>));
    if gc_auto g then
      let count = gc_cycle_counter g; g = g\<lparr> gc_cycle_counter := count + 1 \<rparr> in
      if count mod CYCLE_COLLECTION_THRESHOLD = 0 then collect_cycles E g else Some g
    else Some g }"
  unfolding collect_cycles_def using assms by (simp add: gc_run.simps [of E "CRelease a"] release_count_def)

lemma collect_inv:
  assumes "gc_inv g R"
  obtains g' where "collect_cycles E g = Some g'" "gc_inv g' R" "quiet g g'"
  using collect_quiet [OF gc_inv_exact [OF assms] gc_inv_good [OF assms], of E] gc_inv_quiet [OF assms] by blast

lemma gc_inv_nonnull: "gc_inv g (R + mset (nonnull hs)) \<longleftrightarrow> gc_inv g (R + mset hs)"
proof -
  have "count (R + mset (nonnull hs) + X) b = count (R + mset hs + X) b" if "b \<noteq> 0" for b X
    using that by (simp add: nonnull_def mset_filter)
  then show ?thesis
    unfolding gc_inv_def rc_exact_def by simp
qed

lemma release_shared_returns:
  assumes "gc_inv g (add_mset a R)" "a \<noteq> 0" "gc_heap g a = Some v" "gv_rc v \<noteq> 1"
  obtains g' where "coral_value_release E a g = Some g'" "gc_inv g' R"
    "gc_heap g' = (gc_heap g)(a \<mapsto> v\<lparr> gv_rc := gv_rc v - 1 \<rparr>)"
proof -
  obtain u where "gc_heap g a = Some u" "gv_rc u \<noteq> 0" "gv_plain u"
    using live_rc_pos [OF assms(1,2)] by blast
  then have ne: "gv_rc v \<noteq> 0" and stack: "\<not> gv_has FLAG_STACK v"
    using assms(3) by (auto simp: gv_plain_def)
  let ?g1 = "gc_set a (v\<lparr> gv_rc := gv_rc v - 1 \<rparr>) (g\<lparr> gc_releases := gc_releases g + 1 \<rparr>)"
  have "gc_inv ?g1 R"
    using gc_inv_decrement [OF assms(1-3) ne assms(4)] .
  then obtain g2 where g2: "possible_root a ?g1 = Some g2" "gc_inv g2 R" "quiet ?g1 g2"
    by (rule possible_root_inv [of _ _ a]) (auto simp: gc_set_def)
  have heap2: "gc_heap g2 = (gc_heap g)(a \<mapsto> v\<lparr> gv_rc := gv_rc v - 1 \<rparr>)"
    using quiet_heap [OF g2(3)] by simp
  let ?g3 = "g2\<lparr> gc_cycle_counter := gc_cycle_counter g2 + 1 \<rparr>"
  have "det_good ?g3"
    by (rule det_good_heap [OF gc_inv_good [OF g2(2)]]) simp_all
  then have inv3: "gc_inv ?g3 R"
    by (intro gc_inv_same [OF g2(2)]) simp_all
  obtain g4 where g4: "collect_cycles E ?g3 = Some g4" "gc_inv g4 R" "quiet ?g3 g4"
    using collect_inv [OF inv3] .
  have heap4: "gc_heap g4 = gc_heap g2"
    using quiet_heap [OF g4(3)] by simp
  have run: "coral_value_release E a g = (if gc_auto g2 then
      if gc_cycle_counter g2 mod CYCLE_COLLECTION_THRESHOLD = 0 then Some g4 else Some ?g3 else Some g2)"
    unfolding coral_value_release_def run_release_shared [OF assms(2,3) ne assms(4) stack] g2(1)
    by (simp add: Let_def g4(1))
  consider "coral_value_release E a g = Some g2" | "coral_value_release E a g = Some ?g3" | "coral_value_release E a g = Some g4"
    using run by (simp split: if_splits)
  then show ?thesis
  proof cases
    case 1
    then show ?thesis using g2(2) heap2 by (rule that)
  next
    case 2
    then show ?thesis using inv3 by (rule that) (use heap2 in simp)
  next
    case 3
    then show ?thesis using g4(2) by (rule that) (use heap2 heap4 in simp)
  qed
qed

lemma release_last_returns:
  assumes "gc_inv g (add_mset a R)" "a \<noteq> 0" "gc_heap g a = Some v" "gv_rc v = 1"
  obtains g' where "coral_value_release E a g = Some g'" "gc_inv g' R" "shrinks (gc_heap g) (gc_heap g')"
    "gc_heap g' a = Some ((gv_unit (ge_thread E))\<lparr> gv_rc := 0, gv_owner := 0 \<rparr>)"
proof -
  have plain: "gv_plain v" and stack: "\<not> gv_has FLAG_STACK v"
    using live_rc_pos [OF assms(1,2)] assms(3) by (auto simp: gv_plain_def)
  obtain hs where hs: "drop_children v = Some (hs, [])" "gv_kids v = nonnull hs"
    using plain_drop [OF plain] by blast
  let ?e = "emptied E a g"
  have "gc_inv ?e (add_mset a R + mset (nonnull hs))"
    using gc_inv_emptied [OF assms] hs(2) by simp
  then have "gc_inv ?e (add_mset a R + mset hs)"
    by (simp only: gc_inv_nonnull)
  then obtain g2 where g2: "gc_run E (CDrop hs) ?e = Some g2" "gc_inv g2 (add_mset a R)" "shrinks (gc_heap ?e) (gc_heap g2)"
    using drop_loop by blast
  obtain w where w: "gc_heap g2 a = Some w" "gv_rc w \<noteq> 0"
    using live_rc_pos [OF g2(2) assms(2)] by blast
  with g2(3) obtain u n where "gc_heap ?e a = Some u" "w = u\<lparr> gv_rc := n \<rparr>"
    by (rule shrinksD)
  then have w': "w = (gv_unit (ge_thread E))\<lparr> gv_rc := n \<rparr>"
    by (simp add: emptied_def)
  have fin: "finite (dom (gc_heap g))" "finite (dom (gc_heap ?e))" "finite (dom (gc_heap g2))"
    using gc_inv_exact [OF assms(1)] gc_inv_exact [OF g2(2)] by (simp_all add: rc_exact_def emptied_def)
  have "count (add_mset a R + heap_refs (gc_heap g)) a = 1"
    using gc_inv_exact [OF assms(1)] assms(2-4) unfolding rc_exact_def rc_of_def by (metis option.simps(5) unat_1)
  then have none: "count R a = 0" "a \<notin># heap_refs (gc_heap g)"
    by (auto simp: count_eq_zero_iff)
  have "a \<notin># heap_refs (gc_heap g2)"
  proof
    assume "a \<in># heap_refs (gc_heap g2)"
    then have "a \<in># heap_refs (gc_heap ?e)"
      using shrinks_refs [OF g2(3) fin(2)] by blast
    then obtain b x where "gc_heap ?e b = Some x" "gv_rc x \<noteq> 0" "a \<in> set (gv_kids x)"
      by (rule heap_refs_kid [OF fin(2)])
    then have "gc_heap g b = Some x" "gv_rc x \<noteq> 0" "a \<in> set (gv_kids x)"
      by (auto simp: emptied_def split: if_splits)
    then show False
      using kid_counts [OF fin(1)] none(2) by blast
  qed
  moreover have "count (add_mset a R + heap_refs (gc_heap g2)) a = unat (gv_rc w)"
    using gc_inv_exact [OF g2(2)] assms(2) w(1) unfolding rc_exact_def rc_of_def by (metis option.simps(5))
  ultimately have "unat (gv_rc w) = 1"
    using none(1) by (simp add: not_in_iff)
  then have rc1: "gv_rc w = 1"
    by (metis unat_1 word_unat_eq_iff)
  obtain g3 where g3: "dealloc_value_box a g2 = Some g3" "gc_inv g3 R"
      "gc_heap g3 = (gc_heap g2)(a \<mapsto> w\<lparr> gv_rc := 0, gv_owner := 0 \<rparr>)"
    using dealloc_returns [OF g2(2) assms(2) w(1) rc1] by (metis gv_kids_header(1) gv_unit_simps(2) w')
  have "shrinks (gc_heap g) (gc_heap g3)"
    unfolding shrinks_def
  proof (intro conjI allI impI)
    have "dom (gc_heap g2) = dom (gc_heap ?e)"
      using g2(3) by (simp add: shrinks_def)
    then show "dom (gc_heap g3) = dom (gc_heap g)"
      using assms(3) w(1) g3(3) by (auto simp: emptied_def)
    fix b v'
    assume b: "gc_heap g3 b = Some v'" "gv_rc v' \<noteq> 0"
    then have "b \<noteq> a" "gc_heap g2 b = Some v'"
      using g3(3) by (auto split: if_splits)
    with g2(3) b(2) obtain x n where "gc_heap ?e b = Some x" "gv_rc x \<noteq> 0" "v' = x\<lparr> gv_rc := n \<rparr>"
      by (metis shrinksD)
    then show "\<exists>v n. gc_heap g b = Some v \<and> gv_rc v \<noteq> 0 \<and> v' = v\<lparr> gv_rc := n \<rparr>"
      using \<open>b \<noteq> a\<close> by (auto simp: emptied_def)
  qed
  moreover have "gc_queue g = None"
    using assms(1) by (simp add: gc_inv_def)
  ultimately show ?thesis
    using that [of g3] run_release_last [OF assms(2-4) hs(1) stack, of E] g2(1) g3 w'
    by (simp add: coral_value_release_def)
qed

lemma release_returns:
  assumes "gc_inv g (add_mset a R)"
  obtains g' where "coral_value_release E a g = Some g'" "gc_inv g' R" "shrinks (gc_heap g) (gc_heap g')"
proof (cases "a = 0")
  case True
  then have "gc_inv g R"
    using assms by (auto simp: gc_inv_def rc_exact_def)
  then show ?thesis
    using that [of g] True by (simp add: coral_value_release_def gc_run.simps [of E "CRelease 0"])
next
  case False
  then obtain v where v: "gc_heap g a = Some v" "gv_rc v \<noteq> 0"
    using live_rc_pos [OF assms] by blast
  show ?thesis
  proof (cases "gv_rc v = 1")
    case True
    then show ?thesis
      using release_last_returns [OF assms False v(1)] that by blast
  next
    case shared: False
    obtain g' where "coral_value_release E a g = Some g'" "gc_inv g' R"
        "gc_heap g' = (gc_heap g)(a \<mapsto> v\<lparr> gv_rc := gv_rc v - 1 \<rparr>)"
      using release_shared_returns [OF assms False v(1) shared] .
    then show ?thesis
      using that shrinks_rc [of "gc_heap g" a v] v by simp
  qed
qed

subsection \<open>What is reachable stays\<close>

inductive reached :: "(addr \<rightharpoonup> gc_value) \<Rightarrow> addr multiset \<Rightarrow> addr \<Rightarrow> bool" for h R where
  reached_handle: "r \<in># R \<Longrightarrow> r \<noteq> 0 \<Longrightarrow> reached h R r"
| reached_child: "reached h R a \<Longrightarrow> h a = Some v \<Longrightarrow> k \<in> set (gv_kids v) \<Longrightarrow> reached h R k"

lemma reached_stays:
  assumes "reached h R b" "rc_exact h' R" "shrinks h h'"
  shows "\<exists>v n. h b = Some v \<and> n \<noteq> 0 \<and> h' b = Some (v\<lparr> gv_rc := n \<rparr>)"
  using assms(1)
proof induction
  case (reached_handle r)
  then obtain v' where v': "h' r = Some v'" "gv_rc v' \<noteq> 0"
    using rc_exact_live [OF assms(2), of r] by auto
  with assms(3) obtain v n where "h r = Some v" "v' = v\<lparr> gv_rc := n \<rparr>"
    by (rule shrinksD)
  with v' show ?case by auto
next
  case (reached_child a v k)
  then obtain n where a: "n \<noteq> 0" "h' a = Some (v\<lparr> gv_rc := n \<rparr>)"
    by auto
  have fin: "finite (dom h')"
    using assms(2) by (simp add: rc_exact_def)
  have "k \<in># heap_refs h'"
    using kid_counts [OF fin a(2)] a(1) reached_child.hyps(3) by simp
  moreover have "k \<noteq> 0"
    using zero_notin_kids reached_child.hyps(3) by metis
  ultimately obtain v' where v': "h' k = Some v'" "gv_rc v' \<noteq> 0"
    using rc_exact_live [OF assms(2), of k] by auto
  with assms(3) obtain u m where "h k = Some u" "v' = u\<lparr> gv_rc := m \<rparr>"
    by (rule shrinksD)
  with v' show ?case by auto
qed

subsection \<open>Nothing is left of a heap without cycles\<close>

lemma release_many_returns:
  assumes "gc_inv g (R + mset hs)"
  shows "\<exists>g'. coral_value_release_many E hs g = Some g' \<and> gc_inv g' R \<and> shrinks (gc_heap g) (gc_heap g')"
  using assms
proof (induction hs arbitrary: g)
  case Nil
  then show ?case by (simp add: coral_value_release_many_def)
next
  case (Cons a hs)
  then obtain g1 where g1: "coral_value_release E a g = Some g1" "gc_inv g1 (R + mset hs)" "shrinks (gc_heap g) (gc_heap g1)"
    using release_returns [of g a "R + mset hs" E] by auto
  from Cons.IH [OF g1(2)] show ?case
    using g1 by (auto simp: coral_value_release_many_def intro: shrinks_trans)
qed

definition points_to :: "(addr \<rightharpoonup> gc_value) \<Rightarrow> (addr \<times> addr) set" where
  "points_to h = {(a, k). \<exists>v. h a = Some v \<and> gv_rc v \<noteq> 0 \<and> k \<in> set (gv_kids v)}"

lemma unreferenced_empty:
  assumes "rc_exact h {#}" "acyclic (points_to h)"
  shows "live_at h = {}"
proof (rule ccontr)
  assume "live_at h \<noteq> {}"
  have fin: "finite (dom h)" "finite (live_at h)"
    using assms(1) by (simp_all add: rc_exact_def finite_live)
  have "points_to h \<subseteq> live_at h \<times> live_at h"
  proof
    fix p
    assume "p \<in> points_to h"
    then obtain a k v where p: "p = (a, k)" "h a = Some v" "gv_rc v \<noteq> 0" "k \<in> set (gv_kids v)"
      by (auto simp: points_to_def)
    have "k \<noteq> 0"
      using zero_notin_kids p(4) by metis
    then obtain u where "h k = Some u" "gv_rc u \<noteq> 0"
      using rc_exact_live [OF assms(1), of k] kid_counts [OF fin(1) p(2-4)] by auto
    then show "p \<in> live_at h \<times> live_at h"
      using p by (simp add: live_at_def)
  qed
  then have "finite (points_to h)"
    using fin(2) by (meson finite_SigmaI finite_subset)
  then have "wf (points_to h)"
    using assms(2) by (rule finite_acyclic_wf)
  then obtain m where m: "m \<in> live_at h" "\<And>b. (b, m) \<in> points_to h \<Longrightarrow> b \<notin> live_at h"
    using \<open>live_at h \<noteq> {}\<close> by (metis ex_in_conv wf_eq_minimal)
  have "m \<noteq> 0"
    using m(1) assms(1) by (auto simp: live_at_def rc_exact_def)
  then have "count (heap_refs h) m = rc_of h m"
    using assms(1) by (simp add: rc_exact_def)
  then have "m \<in># heap_refs h"
    using m(1) rc_of_live [of h m] by (metis count_eq_zero_iff)
  then obtain b v where "h b = Some v" "gv_rc v \<noteq> 0" "m \<in> set (gv_kids v)"
    by (rule heap_refs_kid [OF fin(1)])
  then have "(b, m) \<in> points_to h" "b \<in> live_at h"
    by (auto simp: points_to_def live_at_def)
  then show False
    using m(2) by blast
qed

lemma shrinks_points_to: "shrinks h h' \<Longrightarrow> points_to h' \<subseteq> points_to h"
proof
  fix p
  assume s: "shrinks h h'" and "p \<in> points_to h'"
  then obtain a k v' where p: "p = (a, k)" "h' a = Some v'" "gv_rc v' \<noteq> 0" "k \<in> set (gv_kids v')"
    by (auto simp: points_to_def)
  from s p(2,3) obtain v n where "h a = Some v" "gv_rc v \<noteq> 0" "v' = v\<lparr> gv_rc := n \<rparr>"
    by (rule shrinksD)
  then show "p \<in> points_to h"
    using p by (auto simp: points_to_def)
qed

end
