(* ===== verification/Runtime_GcRun.thy ===== *)
theory Runtime_GcRun
  imports Runtime_GcRelease
begin

text \<open>
  Programs on the heap: the constructors, pushing, retaining and releasing as steps of the relation
  \<open>rt_run\<close>, which keep the counts exact, and the properties of the runtime's memory. The witnesses run small
  programs with an allocator that takes the first free address.
\<close>

subsection \<open>New boxes\<close>

definition pool_limit :: nat where
  "pool_limit = LOCAL_POOL_LIMIT + VALUE_POOL_LIMIT"

text \<open>The allocator gives a fresh address, at least while fewer boxes exist than the pools can hold.\<close>

definition malloc_ok :: "gc_env \<Rightarrow> bool" where
  "malloc_ok E \<longleftrightarrow> (\<forall>g. card (dom (gc_heap g)) < pool_limit \<longrightarrow> gc_heap g 0 = None \<longrightarrow>
     ge_malloc E g \<noteq> 0 \<and> gc_heap g (ge_malloc E g) = None)"

lemma pop_last_Some: "pop_last xs = Some (x, ys) \<longleftrightarrow> xs = ys @ [x]"
  by (auto simp: pop_last_def)

lemma pop_last_None: "pop_last xs = None \<longleftrightarrow> xs = []"
  by (simp add: pop_last_def)

lemma gc_inv_born:
  assumes "gc_inv g (R + mset (gv_kids u))" "gv_rc u = 1" "gv_plain u" "a \<noteq> 0" "a \<notin> live_at (gc_heap g)"
    "distinct (l @ p)" "set (l @ p) = set (gc_local_pool g @ gc_pool g) - {a}"
    "card (insert a (dom (gc_heap g))) \<le> pool_limit"
    "gc_heap g' = (gc_heap g)(a \<mapsto> u)" "gc_local_pool g' = l" "gc_pool g' = p" "gc_queue g' = gc_queue g"
    "gc_live g' = gc_live g + 1" "gc_det g' = gc_det g" "gc_local_roots g' = gc_local_roots g"
  shows "gc_inv g' (add_mset a R)"
proof -
  have exact: "rc_exact (gc_heap g') (add_mset a R)"
    using rc_exact_born [OF gc_inv_exact [OF assms(1)] assms(5,4,2,3)] assms(9) by simp
  have live: "live_at (gc_heap g') = insert a (live_at (gc_heap g))"
    using assms(2,9) by (simp add: live_at_upd)
  have fin: "finite (live_at (gc_heap g))"
    using gc_inv_exact [OF assms(1)] by (simp add: rc_exact_def finite_live)
  have dom: "dom (gc_heap g') = insert a (dom (gc_heap g))"
    using assms(9) by simp
  have "det_good g'"
    using gc_inv_good [OF assms(1)] assms(14,15) dom by (auto simp: det_good_def det_addrs_def color_of_def)
  moreover have "set (l @ p) = dom (gc_heap g') - live_at (gc_heap g')"
    using assms(1,5,7) unfolding live dom gc_inv_def by auto
  moreover have "gc_live g' = of_nat (card (live_at (gc_heap g')))"
    using assms(1,5,13) fin by (simp add: live gc_inv_def)
  ultimately show ?thesis
    using exact assms(1,6,8,10-12) dom by (simp add: gc_inv_def pool_limit_def)
qed

lemma alloc_inv:
  assumes "gc_inv g (R + mset (gv_kids u))" "gv_rc u = 1" "gv_plain u" "malloc_ok E"
    "card (dom (gc_heap g)) < pool_limit" "alloc_value E u g = (a, g')"
  shows "gc_inv g' (add_mset a R)" "a \<noteq> 0" "gc_heap g' = (gc_heap g)(a \<mapsto> u)"
proof -
  have null: "gc_heap g 0 = None" and pools: "distinct (gc_local_pool g @ gc_pool g)"
      "set (gc_local_pool g @ gc_pool g) = dom (gc_heap g) - live_at (gc_heap g)"
    using assms(1) by (simp_all add: gc_inv_def rc_exact_def)
  have reuse: "a \<noteq> 0 \<and> a \<notin> live_at (gc_heap g) \<and> card (insert a (dom (gc_heap g))) \<le> pool_limit"
    if "a \<in> set (gc_local_pool g @ gc_pool g)" for a
  proof -
    have "a \<in> dom (gc_heap g) - live_at (gc_heap g)"
      using that pools(2) by blast
    then show ?thesis
      using null assms(5) by (auto simp: insert_absorb)
  qed
  have "gc_inv g' (add_mset a R) \<and> a \<noteq> 0 \<and> gc_heap g' = (gc_heap g)(a \<mapsto> u)"
  proof (cases "pop_last (gc_local_pool g)")
    case (Some p)
    obtain l where l: "gc_local_pool g = l @ [a]"
        "g' = gc_set a u (g\<lparr> gc_live := gc_live g + 1, gc_local_pool := l, gc_hits := gc_hits g + 1 \<rparr>)"
      using assms(6) Some by (cases p) (auto simp: alloc_value_def Let_def pop_last_Some)
    have "gc_inv g' (add_mset a R)"
      by (rule gc_inv_born [OF assms(1-3), of _ l "gc_pool g"])
        (use reuse [of a] pools(1) l in \<open>auto simp: gc_set_def\<close>)
    then show ?thesis using l reuse [of a] by simp
  next
    case none: None
    show ?thesis
    proof (cases "pop_last (gc_pool g)")
      case (Some p)
      obtain l where l: "gc_pool g = l @ [a]"
          "g' = gc_set a u (g\<lparr> gc_live := gc_live g + 1, gc_pool := l, gc_hits := gc_hits g + 1 \<rparr>)"
        using assms(6) Some none by (cases p) (auto simp: alloc_value_def Let_def pop_last_Some)
      have "gc_inv g' (add_mset a R)"
        by (rule gc_inv_born [OF assms(1-3), of _ "gc_local_pool g" l])
          (use reuse [of a] pools(1) l in \<open>auto simp: gc_set_def\<close>)
      then show ?thesis using l reuse [of a] by simp
    next
      case None
      have a: "a = ge_malloc E (g\<lparr> gc_live := gc_live g + 1 \<rparr>)"
          "g' = gc_set a u (g\<lparr> gc_live := gc_live g + 1, gc_misses := gc_misses g + 1 \<rparr>)"
        using assms(6) none None by (auto simp: alloc_value_def Let_def)
      then have fresh: "a \<noteq> 0" "gc_heap g a = None"
        using assms(4) [unfolded malloc_ok_def, rule_format, of "g\<lparr> gc_live := gc_live g + 1 \<rparr>"] assms(5) null
        by simp_all
      then have "a \<notin> live_at (gc_heap g)" "a \<notin> dom (gc_heap g)"
        by (auto simp: live_at_def)
      moreover have "card (insert a (dom (gc_heap g))) \<le> pool_limit"
        using assms(5) card_insert_le_m1 [of pool_limit "dom (gc_heap g)" a] by simp
      ultimately have "gc_inv g' (add_mset a R)"
        using fresh(1) none None a(2)
        by (intro gc_inv_born [OF assms(1-3), of _ "[]" "[]"]) (auto simp: gc_set_def pop_last_None)
      then show ?thesis using fresh(1) a(2) by simp
    qed
  qed
  then show "gc_inv g' (add_mset a R)" "a \<noteq> 0" "gc_heap g' = (gc_heap g)(a \<mapsto> u)"
    by blast+
qed

subsection \<open>Retaining\<close>

lemma rc_bound:
  assumes "rc_exact h R" "h a = Some v"
  shows "unat (gv_rc v) \<le> size R + size (heap_refs h)"
proof -
  have "a \<noteq> 0"
    using assms by (auto simp: rc_exact_def)
  then have "unat (gv_rc v) = count (R + heap_refs h) a"
    using assms by (simp add: rc_exact_def rc_of_def)
  also have "\<dots> \<le> size (R + heap_refs h)"
    by (rule count_le_size)
  finally show ?thesis by simp
qed

text \<open>There is room for \<open>n\<close> more references.\<close>

definition countable_refs :: "nat \<Rightarrow> gc \<Rightarrow> addr multiset \<Rightarrow> bool" where
  "countable_refs n g R \<longleftrightarrow> size R + size (heap_refs (gc_heap g)) + n < 2 ^ 64"

lemma retain_returns:
  assumes "gc_inv g R" "a \<in># R" "a \<noteq> 0" "countable_refs 1 g R"
  obtains v g' where "gc_heap g a = Some v" "gv_rc v \<noteq> 0" "gv_plain v" "coral_value_retain a g = Some g'"
    "gc_inv g' (add_mset a R)" "gc_heap g' = (gc_heap g)(a \<mapsto> v\<lparr> gv_rc := gv_rc v + 1 \<rparr>)"
    "heap_refs (gc_heap g') = heap_refs (gc_heap g)"
proof -
  obtain v where v: "gc_heap g a = Some v" "gv_rc v \<noteq> 0" "gv_plain v"
    using rc_exact_live [OF gc_inv_exact [OF assms(1)], of a] assms(2,3) by auto
  have "unat (gv_rc v) < 2 ^ 64 - 1"
    using rc_bound [OF gc_inv_exact [OF assms(1)] v(1)] assms(4) by (simp add: countable_refs_def)
  moreover have "unat (- 1 :: u64) = 2 ^ 64 - 1"
    by (simp add: unsigned_minus_1_eq_mask mask_eq_exp_minus_1)
  ultimately have top: "gv_rc v \<noteq> - 1"
    by auto
  let ?g = "gc_set a (v\<lparr> gv_rc := gv_rc v + 1 \<rparr>) (g\<lparr> gc_retains := gc_retains g + 1 \<rparr>)"
  have ne: "gv_rc v + 1 \<noteq> 0"
    using top by (metis add_eq_0_iff2)
  have live: "live_at (gc_heap ?g) = live_at (gc_heap g)"
    using v ne by (auto simp: live_at_upd live_at_def)
  have dom: "dom (gc_heap ?g) = dom (gc_heap g)"
    using v(1) by auto
  have good: "det_good ?g"
    using v(1) by (intro det_good_heap [OF gc_inv_good [OF assms(1)]]) (auto simp: gc_set_def)
  have exact: "rc_exact (gc_heap ?g) (add_mset a R)"
    using rc_exact_increment [OF gc_inv_exact [OF assms(1)] v(1,2) top] by simp
  have "gc_inv ?g (add_mset a R)"
    using assms(1) exact good unfolding gc_inv_def live dom by (simp add: gc_set_def)
  moreover have "coral_value_retain a g = Some ?g"
    using v assms(3) top by (simp add: coral_value_retain_def gv_plain_def)
  moreover have "heap_refs (gc_heap ?g) = heap_refs (gc_heap g)"
    using gc_inv_exact [OF assms(1)] v ne by (simp add: heap_refs_rc rc_exact_def)
  ultimately show ?thesis
    using that [OF v] by simp
qed

lemma retain_many_returns:
  assumes "gc_inv g R" "set items \<subseteq> insert 0 (set_mset R)" "countable_refs (length items) g R"
  shows "\<exists>g'. gc_each coral_value_retain items g = Some g' \<and> gc_inv g' (R + mset (nonnull items)) \<and>
    dom (gc_heap g') = dom (gc_heap g)"
  using assms
proof (induction items arbitrary: g R)
  case Nil
  then show ?case by (simp add: nonnull_def)
next
  case (Cons a items)
  show ?case
  proof (cases "a = 0")
    case True
    have "countable_refs (length items) g R"
      using Cons.prems(3) by (simp add: countable_refs_def)
    then show ?thesis
      using Cons.IH [of g R] Cons.prems True by (simp add: coral_value_retain_def nonnull_def)
  next
    case False
    have "a \<in># R" "countable_refs 1 g R"
      using Cons.prems(2,3) False by (auto simp: countable_refs_def)
    then obtain v g1 where g1: "gc_heap g a = Some v" "coral_value_retain a g = Some g1" "gc_inv g1 (add_mset a R)"
        "gc_heap g1 = (gc_heap g)(a \<mapsto> v\<lparr> gv_rc := gv_rc v + 1 \<rparr>)" "heap_refs (gc_heap g1) = heap_refs (gc_heap g)"
      using retain_returns [OF Cons.prems(1) _ False] by metis
    have "countable_refs (length items) g1 (add_mset a R)"
      using Cons.prems(3) g1(5) by (simp add: countable_refs_def)
    moreover have "set items \<subseteq> insert 0 (set_mset (add_mset a R))"
      using Cons.prems(2) by auto
    ultimately obtain g2 where "gc_each coral_value_retain items g1 = Some g2"
        "gc_inv g2 (add_mset a R + mset (nonnull items))" "dom (gc_heap g2) = dom (gc_heap g1)"
      using Cons.IH [OF g1(3)] by blast
    then show ?thesis
      using g1(1,2,4) False by (auto simp: nonnull_def)
  qed
qed

subsection \<open>The constructors\<close>

lemma flag_word: "w AND 128 = 0 \<Longrightarrow> x AND 128 = 0 \<Longrightarrow> (w OR x) AND (128::u8) = 0"
  by (simp add: bit.conj_disj_distrib2)

lemma plain_flagless:
  assumes "gv_flags v = 0" "drop_children v = Some (hs, [])" "\<forall>release env. gv_payload v \<noteq> PPtr (Some (OClosure release env))"
  shows "gv_plain v"
  using assms by (simp add: gv_plain_def gv_has_def gv_is_err_def)

lemma new_fields [simp]: "gv_rc (gv_new t f p n) = 1" "gv_tag (gv_new t f p n) = vtag_byte t" "gv_flags (gv_new t f p n) = f"
    "gv_payload (gv_new t f p n) = p"
  by (simp_all add: gv_new_def)

lemma drop_scalar: "t \<in> {VNumber, VBool, VUnit, VStore} \<Longrightarrow> f AND FLAG_ERR = 0 \<Longrightarrow> drop_children (gv_new t f p n) = Some ([], [])"
  unfolding drop_children_def gv_is_err_def gv_has_def new_fields vtag_try_from_byte by auto

lemma drop_object:
  "drop_children (gv_new VString 0 (PPtr (Some (OString bs))) n) = Some ([], [])"
  "drop_children (gv_new VBytes 0 (PPtr (Some (OBytes bs))) n) = Some ([], [])"
  "drop_children (gv_new VList 0 (PPtr (Some (OList items))) n) = Some (items, [])"
  "drop_children (gv_new VTagged 0 (PPtr (Some (OTagged name items))) n) = Some (nonnull items, [])"
  unfolding drop_children_def gv_is_err_def gv_has_def gv_is_inline_string_def gv_heap_ptr_def new_fields vtag_try_from_byte
  by (simp_all add: nonnull_def)

text \<open>A value with a flag-free header and no children, one reference to its first holder.\<close>

definition scalar :: "gc_value \<Rightarrow> bool" where
  "scalar v \<longleftrightarrow> gv_rc v = 1 \<and> gv_plain v \<and> gv_kids v = []"

lemma kids_drop: "drop_children v = Some (hs, cs) \<Longrightarrow> gv_kids v = nonnull hs"
  by (simp add: gv_kids_def)

lemma scalar_number: "scalar (gv_number x n)"
  by (simp add: scalar_def gv_number_def kids_drop [OF drop_scalar] nonnull_def plain_flagless [OF _ drop_scalar])

lemma scalar_boolean: "scalar (gv_boolean b n)"
  by (simp add: scalar_def gv_boolean_def kids_drop [OF drop_scalar] nonnull_def plain_flagless [OF _ drop_scalar])

lemma scalar_unit: "scalar (gv_unit n)"
  by (simp add: scalar_def)

lemma scalar_absent: "scalar (gv_absent n)"
proof -
  have d: "drop_children (gv_absent n) = Some ([], [])"
    unfolding gv_absent_def by (rule drop_scalar) (simp_all add: FLAG_ABSENT_def FLAG_ERR_def)
  have "gv_plain (gv_absent n)"
    unfolding gv_plain_def d by (simp add: gv_absent_def gv_has_def gv_is_err_def FLAG_ABSENT_def FLAG_ERR_def FLAG_STACK_def)
  then show ?thesis
    by (simp add: scalar_def kids_drop [OF d] nonnull_def) (simp add: gv_absent_def)
qed

lemma scalar_inline_string:
  assumes "length bs \<le> 22"
  shows "scalar (gv_inline_string bs n)"
proof -
  have "length bs \<in> set [0..<23]"
    using assms by simp
  moreover have "\<forall>n \<in> set [0..<23]. (1 OR push_bit 1 (word_of_nat n)) AND (128::u8) = 0 \<and>
      (1 OR push_bit 1 (word_of_nat n)) AND (1::u8) = 1"
    by (simp add: upt_rec)
  ultimately have flags: "(1 OR push_bit 1 (word_of_nat (length bs))) AND (128::u8) = 0"
    "(1 OR push_bit 1 (word_of_nat (length bs))) AND (1::u8) = 1"
    by blast+
  note flags = flags flags [simplified]
  have d: "drop_children (gv_inline_string bs n) = Some ([], [])"
    unfolding drop_children_def gv_is_err_def gv_has_def gv_is_inline_string_def gv_inline_string_def new_fields vtag_try_from_byte
    by (simp add: FLAG_INLINE_STRING_def flags)
  have "gv_plain (gv_inline_string bs n)"
    unfolding gv_plain_def d
    by (simp add: gv_inline_string_def gv_has_def gv_is_err_def FLAG_INLINE_STRING_def FLAG_STACK_def flags)
  then show ?thesis
    by (simp add: scalar_def kids_drop [OF d] nonnull_def) (simp add: gv_inline_string_def)
qed

lemma scalar_heap_string: "scalar (gv_from_heap VString (OString bs) n)" "scalar (gv_from_heap VBytes (OBytes bs) n)"
  by (simp_all add: scalar_def gv_from_heap_def kids_drop [OF drop_object(1)] kids_drop [OF drop_object(2)] nonnull_def
    plain_flagless [OF _ drop_object(1)] plain_flagless [OF _ drop_object(2)])

lemma scalar_alloc:
  assumes "gc_inv g R" "scalar u" "malloc_ok E" "card (dom (gc_heap g)) < pool_limit" "alloc_value E u g = (a, g')"
  shows "gc_inv g' (add_mset a R)"
proof -
  have "gc_inv g (R + mset (gv_kids u))" "gv_rc u = 1" "gv_plain u"
    using assms(1,2) by (simp_all add: scalar_def)
  then show ?thesis
    using alloc_inv(1) assms(3-5) by blast
qed

lemma make_list_inv:
  assumes "gc_inv g R" "set items \<subseteq> insert 0 (set_mset R)" "countable_refs (length items) g R" "malloc_ok E"
    "card (dom (gc_heap g)) < pool_limit" "coral_make_list E items g = Some (a, g')"
  shows "gc_inv g' (add_mset a R)"
proof -
  obtain g1 where g1: "gc_each coral_value_retain items g = Some g1" "gc_inv g1 (R + mset (nonnull items))"
      "dom (gc_heap g1) = dom (gc_heap g)"
    using retain_many_returns [OF assms(1-3)] by blast
  let ?u = "gv_new VList 0 (PPtr (Some (OList (nonnull items)))) (ge_thread E)"
  have "alloc_value E ?u g1 = (a, g')"
    using assms(6) g1(1)
    by (simp add: coral_make_list_def gc_alloc_list_def coral_value_retain_many_def gv_from_heap_def nonnull_def)
  moreover have "gv_kids ?u = nonnull items"
    by (simp add: kids_drop [OF drop_object(3)] nonnull_def)
  moreover have "gv_plain ?u"
    by (rule plain_flagless [OF _ drop_object(3)]) simp_all
  ultimately show ?thesis
    using g1(2,3) assms(4,5) by (intro alloc_inv(1) [of g1 R ?u]) simp_all
qed

lemma make_tagged_inv:
  assumes "gc_inv g R" "set flds \<subseteq> insert 0 (set_mset R)" "countable_refs (length flds) g R" "malloc_ok E"
    "card (dom (gc_heap g)) < pool_limit" "coral_make_tagged E name flds g = Some (a, g')"
  shows "gc_inv g' (add_mset a R)"
proof -
  have "set (nonnull flds) \<subseteq> insert 0 (set_mset R)" "countable_refs (length (nonnull flds)) g R"
  proof -
    show "set (nonnull flds) \<subseteq> insert 0 (set_mset R)"
      using assms(2) by (auto simp: nonnull_def)
    have "length (nonnull flds) \<le> length flds"
      by (simp add: nonnull_def)
    then show "countable_refs (length (nonnull flds)) g R"
      using assms(3) unfolding countable_refs_def by linarith
  qed
  from retain_many_returns [OF assms(1) this] obtain g1 where g1: "gc_each coral_value_retain (nonnull flds) g = Some g1" "gc_inv g1 (R + mset (nonnull flds))"
      "dom (gc_heap g1) = dom (gc_heap g)"
    by (auto simp: nonnull_def)
  let ?u = "gv_new VTagged 0 (PPtr (Some (OTagged name flds))) (ge_thread E)"
  have "alloc_value E ?u g1 = (a, g')"
    using assms(6) g1(1) by (simp add: coral_make_tagged_def nonnull_def)
  moreover have "gv_kids ?u = nonnull flds"
    by (simp add: kids_drop [OF drop_object(4)] nonnull_def)
  moreover have "gv_plain ?u"
    by (rule plain_flagless [OF _ drop_object(4)]) simp_all
  ultimately show ?thesis
    using g1(2,3) assms(4,5) by (intro alloc_inv(1) [of g1 R ?u]) simp_all
qed

subsection \<open>Pushing to a list\<close>

lemma list_box:
  assumes "gv_plain x" "gv_list x = Some (Some items)"
  defines "u items' \<equiv> x\<lparr> gv_payload := PPtr (Some (OList items')) \<rparr>"
  shows "gv_kids x = nonnull items" "gv_kids (u items') = nonnull items'" "gv_plain (u items')" "gv_rc (u items') = gv_rc x"
proof -
  have tag: "gv_tag x = vtag_byte VList" and ptr: "gv_heap_ptr x = Some (Some (OList items))"
    using assms(2) by (auto simp: gv_list_def split: if_splits option.splits heap_object.splits simp del: vtag_byte.simps)
  have "vtag_byte VList \<noteq> vtag_byte VUnit"
    by simp
  then have flags: "\<not> gv_is_err x" "\<not> gv_has FLAG_LIST_ITER x" "\<not> gv_has FLAG_STACK x"
    using assms(1) tag unfolding gv_plain_def by metis+
  have d: "drop_children x = Some (items, [])"
    unfolding drop_children_def tag ptr vtag_try_from_byte using flags by simp
  have u: "gv_has f (u items') = gv_has f x" "gv_tag (u items') = vtag_byte VList" "gv_is_err (u items') = gv_is_err x"
      "gv_heap_ptr (u items') = Some (Some (OList items'))" "gv_rc (u items') = gv_rc x" for f items'
    using tag by (simp_all add: u_def gv_has_def gv_is_err_def gv_heap_ptr_def)
  have d': "drop_children (u items') = Some (items', [])" for items'
    unfolding drop_children_def u vtag_try_from_byte using flags by simp
  show "gv_kids x = nonnull items" "gv_kids (u items') = nonnull items'" "gv_rc (u items') = gv_rc x"
    by (simp_all add: kids_drop [OF d] kids_drop [OF d'] u)
  show "gv_plain (u items')"
    unfolding gv_plain_def d' u using flags by (simp add: u_def)
qed

lemma push_inv:
  assumes "gc_inv g R" "list \<in># R" "list \<noteq> 0" "k \<in># R" "countable_refs 2 g R"
    "gc_heap g list = Some b" "gv_list b = Some (Some items)" "\<not> gv_has FLAG_FROZEN b" "\<not> gv_has FLAG_COW b"
    "coral_list_push E list k g = Some (r, g')"
  shows "gc_inv g' (add_mset list R)"
proof -
  have lne: "vtag_byte VList \<noteq> 0" by simp
  obtain v g1 where g1: "coral_value_retain k g = Some g1" "gc_inv g1 (if k = 0 then R else add_mset k R)"
      "gc_heap g1 list = Some v" "gv_rc v \<noteq> 0" "gv_plain v" "gv_list v = Some (Some items)"
      "heap_refs (gc_heap g1) = heap_refs (gc_heap g)"
  proof (cases "k = 0")
    case True
    obtain w where "gc_heap g list = Some w" "gv_rc w \<noteq> 0" "gv_plain w"
      using rc_exact_live [OF gc_inv_exact [OF assms(1)], of list] assms(2,3) by auto
    then show ?thesis
      using that [of g b] assms(1,6,7) True by (simp add: coral_value_retain_def)
  next
    case False
    have "countable_refs 1 g R"
      using assms(5) by (simp add: countable_refs_def)
    then obtain x g1 where x: "gc_heap g k = Some x" "coral_value_retain k g = Some g1" "gc_inv g1 (add_mset k R)"
        "gc_heap g1 = (gc_heap g)(k \<mapsto> x\<lparr> gv_rc := gv_rc x + 1 \<rparr>)" "heap_refs (gc_heap g1) = heap_refs (gc_heap g)"
      using retain_returns [OF assms(1,4) False] by metis
    obtain w where w: "gc_heap g1 list = Some w" "gv_rc w \<noteq> 0" "gv_plain w"
      using rc_exact_live [OF gc_inv_exact [OF x(3)], of list] assms(2,3) by auto
    have "gv_list (y\<lparr> gv_rc := n \<rparr>) = gv_list y" for y n
      by (simp add: gv_list_def)
    then have "gv_list w = Some (Some items)"
      using w(1) x(1,4) assms(6,7) by (cases "list = k") auto
    then show ?thesis
      using that [of g1 w] x w False by simp
  qed
  let ?u = "v\<lparr> gv_payload := PPtr (Some (OList (items @ [k]))) \<rparr>"
  define g2 where "g2 = (if k \<noteq> 0 then gc_set list ?u g1 else g1)"
  note box = list_box [OF g1(5,6)]
  have fin: "finite (dom (gc_heap g1))"
    using gc_inv_exact [OF g1(2)] by (simp add: rc_exact_def)
  have g2: "gc_inv g2 R \<and> size (heap_refs (gc_heap g2)) \<le> size (heap_refs (gc_heap g)) + 1"
  proof (cases "k = 0")
    case True
    then show ?thesis using g1(2,7) by (simp add: g2_def)
  next
    case False
    have live: "list \<in> live_at (gc_heap g1)"
      using g1(3,4) by (simp add: live_at_def)
    have "heap_refs ((gc_heap g1)(list \<mapsto> ?u)) + mset (nonnull items) = heap_refs (gc_heap g1) + mset (nonnull (items @ [k]))"
      using heap_refs_upd [OF fin, of list ?u] live g1(3,4) box(1,2,4) by (simp add: refs_at_def)
    then have refs: "heap_refs ((gc_heap g1)(list \<mapsto> ?u)) = add_mset k (heap_refs (gc_heap g1))"
      using False by (simp add: nonnull_def)
    have exact1: "rc_exact (gc_heap g1) (add_mset k R)"
      using gc_inv_exact [OF g1(2)] False by simp
    have "rc_of ((gc_heap g1)(list \<mapsto> ?u)) c = rc_of (gc_heap g1) c" for c
      using g1(3) box(4) by (simp add: rc_of_def)
    then have exact: "rc_exact ((gc_heap g1)(list \<mapsto> ?u)) R"
      using exact1 box(3) assms(3) by (auto simp: rc_exact_def refs)
    have same: "live_at ((gc_heap g1)(list \<mapsto> ?u)) = live_at (gc_heap g1)" "dom ((gc_heap g1)(list \<mapsto> ?u)) = dom (gc_heap g1)"
      using live g1(3,4) box(4) by (auto simp: live_at_upd)
    have "det_good g2"
      using g1(3) by (intro det_good_heap [OF gc_inv_good [OF g1(2)]]) (auto simp: g2_def gc_set_def)
    then show ?thesis
      using g1(2,7) exact same False refs unfolding gc_inv_def g2_def by (simp add: gc_set_def)
  qed
  have "countable_refs 1 g2 R"
    using g2 assms(5) by (simp add: countable_refs_def)
  then obtain g3 where g3: "coral_value_retain list g2 = Some g3" "gc_inv g3 (add_mset list R)"
    using retain_returns [OF _ assms(2,3)] g2 by metis
  have "coral_list_push E list k g = Some (list, g3)"
    using assms(3,6-9) g1(1,3) g3(1)
    by (simp add: coral_list_push_def is_frozen_def read_or_def cow_ensure_unique_def g2_def)
  then show ?thesis
    using assms(10) g3(2) by simp
qed

subsection \<open>Running programs\<close>

definition gc_init :: gc where
  "gc_init = \<lparr> gc_heap = Map.empty, gc_local_pool = [], gc_pool = [], gc_queue = None, gc_queue_busy = False,
     gc_local_roots = [], gc_pending = False, gc_det = cycle_detector_default, gc_auto = True, gc_cycle_counter = 0,
     gc_live = 0, gc_retains = 0, gc_saturated = 0, gc_releases = 0, gc_underflows = 0, gc_hits = 0, gc_misses = 0 \<rparr>"

definition has_room :: "gc \<Rightarrow> bool" where
  "has_room g \<longleftrightarrow> card (dom (gc_heap g)) < pool_limit"

text \<open>
  The calls a program makes, with the handles it holds: constructors, pushing to a list it does not share
  frozen or on write, retaining, releasing, collecting.
\<close>

inductive rt_run :: "gc_env \<Rightarrow> gc \<Rightarrow> addr multiset \<Rightarrow> bool" for E where
  rt_start: "rt_run E gc_init {#}"
| rt_number: "rt_run E g R \<Longrightarrow> has_room g \<Longrightarrow> coral_make_number E n g = (a, g') \<Longrightarrow> rt_run E g' (add_mset a R)"
| rt_bool: "rt_run E g R \<Longrightarrow> has_room g \<Longrightarrow> coral_make_bool E b g = (a, g') \<Longrightarrow> rt_run E g' (add_mset a R)"
| rt_unit: "rt_run E g R \<Longrightarrow> has_room g \<Longrightarrow> coral_make_unit E g = (a, g') \<Longrightarrow> rt_run E g' (add_mset a R)"
| rt_absent: "rt_run E g R \<Longrightarrow> has_room g \<Longrightarrow> coral_make_absent E g = (a, g') \<Longrightarrow> rt_run E g' (add_mset a R)"
| rt_string: "rt_run E g R \<Longrightarrow> has_room g \<Longrightarrow> coral_make_string E bs g = (a, g') \<Longrightarrow> rt_run E g' (add_mset a R)"
| rt_bytes: "rt_run E g R \<Longrightarrow> has_room g \<Longrightarrow> coral_make_bytes E bs g = (a, g') \<Longrightarrow> rt_run E g' (add_mset a R)"
| rt_list: "rt_run E g R \<Longrightarrow> has_room g \<Longrightarrow> set items \<subseteq> insert 0 (set_mset R) \<Longrightarrow> countable_refs (length items) g R \<Longrightarrow>
    coral_make_list E items g = Some (a, g') \<Longrightarrow> rt_run E g' (add_mset a R)"
| rt_tagged: "rt_run E g R \<Longrightarrow> has_room g \<Longrightarrow> set flds \<subseteq> insert 0 (set_mset R) \<Longrightarrow> countable_refs (length flds) g R \<Longrightarrow>
    coral_make_tagged E name flds g = Some (a, g') \<Longrightarrow> rt_run E g' (add_mset a R)"
| rt_push: "rt_run E g R \<Longrightarrow> l \<in># R \<Longrightarrow> k \<in># R \<Longrightarrow> l \<noteq> 0 \<Longrightarrow> countable_refs 2 g R \<Longrightarrow> gc_heap g l = Some b \<Longrightarrow>
    gv_list b = Some (Some items) \<Longrightarrow> \<not> gv_has FLAG_FROZEN b \<Longrightarrow> \<not> gv_has FLAG_COW b \<Longrightarrow>
    coral_list_push E l k g = Some (r, g') \<Longrightarrow> rt_run E g' (add_mset l R)"
| rt_retain: "rt_run E g R \<Longrightarrow> a \<in># R \<Longrightarrow> a \<noteq> 0 \<Longrightarrow> countable_refs 1 g R \<Longrightarrow> coral_value_retain a g = Some g' \<Longrightarrow>
    rt_run E g' (add_mset a R)"
| rt_release: "rt_run E g (add_mset a R) \<Longrightarrow> coral_value_release E a g = Some g' \<Longrightarrow> rt_run E g' R"
| rt_collect: "rt_run E g R \<Longrightarrow> collect_cycles E g = Some g' \<Longrightarrow> rt_run E g' R"

lemma gc_inv_init: "gc_inv gc_init {#}"
proof -
  have "live_at (gc_heap gc_init) = {}"
    by (simp add: live_at_def gc_init_def)
  moreover have "heap_refs (gc_heap gc_init) = {#}"
    by (simp add: heap_refs_def live_at_def gc_init_def)
  ultimately show ?thesis
    by (simp add: gc_inv_def rc_exact_def rc_of_def det_good_def det_addrs_def gc_init_def cycle_detector_default_def
      color_of_def info_of_def cycle_info_default_def)
qed

lemma rt_run_inv:
  assumes "rt_run E g R" "malloc_ok E"
  shows "gc_inv g R"
  using assms(1)
proof induction
  case rt_start
  then show ?case by (rule gc_inv_init)
next
  case (rt_number g R n a g')
  then show ?case
    using scalar_alloc [OF _ scalar_number assms(2)] by (auto simp: has_room_def coral_make_number_def)
next
  case (rt_bool g R b a g')
  then show ?case
    using scalar_alloc [OF _ scalar_boolean assms(2)] by (auto simp: has_room_def coral_make_bool_def)
next
  case (rt_unit g R a g')
  then show ?case
    using scalar_alloc [OF _ scalar_unit assms(2)] by (auto simp: has_room_def coral_make_unit_def)
next
  case (rt_absent g R a g')
  then show ?case
    using scalar_alloc [OF _ scalar_absent assms(2)] by (auto simp: has_room_def coral_make_absent_def)
next
  case (rt_string g R bs a g')
  then show ?case
    using scalar_alloc [OF _ scalar_inline_string assms(2)] scalar_alloc [OF _ scalar_heap_string(1) assms(2)]
    by (auto simp: has_room_def coral_make_string_def split: if_splits)
next
  case (rt_bytes g R bs a g')
  then show ?case
    using scalar_alloc [OF _ scalar_heap_string(2) assms(2)] by (auto simp: has_room_def coral_make_bytes_def)
next
  case (rt_list g R items a g')
  then show ?case
    using make_list_inv [OF _ _ _ assms(2)] by (auto simp: has_room_def)
next
  case (rt_tagged g R flds name a g')
  then show ?case
    using make_tagged_inv [OF _ _ _ assms(2)] by (auto simp: has_room_def)
next
  case (rt_push g R l k b items r g')
  then show ?case
    using push_inv [of g R l k b items E r g'] by simp
next
  case (rt_retain g R a g')
  then show ?case
    using retain_returns [of g R a] by (metis option.inject)
next
  case (rt_release g a R g')
  then show ?case
    using release_returns [of g a R E] by (metis option.inject)
next
  case (rt_collect g R g')
  then show ?case
    using collect_inv [of g R E] by (metis option.inject)
qed

subsection \<open>Weak references\<close>

text \<open>
  Making a weak reference sets the flag bit that marks inline strings; for anything but strings and
  errors this is harmless.
\<close>

definition weakened :: "gc_value \<Rightarrow> gc_value" where
  "weakened v = v\<lparr> gv_flags := gv_flags v OR FLAG_HAS_WEAK_REFS \<rparr>"

lemma weakened_fields [simp]: "gv_epoch (weakened v) = gv_epoch v" "gv_rc (weakened v) = gv_rc v" "gv_tag (weakened v) = gv_tag v"
    "gv_payload (weakened v) = gv_payload v" "gv_heap_ptr (weakened v) = gv_heap_ptr v"
  by (simp_all add: weakened_def gv_heap_ptr_def)

lemma weakened_flag:
  "gv_has FLAG_INLINE_STRING (weakened v)"
  "f AND 1 = 0 \<Longrightarrow> gv_has f (weakened v) = gv_has f v"
proof -
  show "gv_has FLAG_INLINE_STRING (weakened v)"
    by (simp add: gv_has_def weakened_def FLAG_INLINE_STRING_def FLAG_HAS_WEAK_REFS_def bit.conj_disj_distrib2)
  assume "f AND 1 = 0"
  then have "1 AND f = 0"
    by (simp add: and.commute)
  then show "gv_has f (weakened v) = gv_has f v"
    by (simp add: gv_has_def weakened_def FLAG_HAS_WEAK_REFS_def bit.conj_disj_distrib2)
qed

lemma weakened_drop:
  assumes "\<not> gv_is_err v" "gv_tag v \<noteq> vtag_byte VString"
  shows "drop_children (weakened v) = drop_children v"
proof -
  have "\<not> gv_is_err (weakened v)"
    by (simp add: gv_is_err_def weakened_flag(1))
  moreover have "gv_has FLAG_LIST_ITER (weakened v) = gv_has FLAG_LIST_ITER v" "gv_has FLAG_MAP_ITER (weakened v) = gv_has FLAG_MAP_ITER v"
    by (rule weakened_flag; simp add: FLAG_LIST_ITER_def FLAG_MAP_ITER_def)+
  moreover have "\<not> gv_is_inline_string (weakened v)" "\<not> gv_is_inline_string v"
    using assms(2) by (simp_all add: gv_is_inline_string_def del: vtag_byte.simps)
  ultimately show ?thesis
    using assms(1) unfolding drop_children_def weakened_fields by (simp only: if_False simp_thms)
qed

lemma weakened_plain:
  assumes "gv_plain v" "\<not> gv_is_err v" "gv_tag v \<noteq> vtag_byte VString"
  shows "gv_plain (weakened v)" "gv_kids (weakened v) = gv_kids v"
proof -
  have err: "\<not> gv_is_err (weakened v)"
    by (simp add: gv_is_err_def weakened_flag(1))
  have flags: "gv_has FLAG_LIST_ITER (weakened v) = gv_has FLAG_LIST_ITER v" "gv_has FLAG_MAP_ITER (weakened v) = gv_has FLAG_MAP_ITER v"
      "gv_has FLAG_STACK (weakened v) = gv_has FLAG_STACK v"
    by (rule weakened_flag; simp add: FLAG_LIST_ITER_def FLAG_MAP_ITER_def FLAG_STACK_def)+
  show "gv_plain (weakened v)"
    using assms(1) err unfolding gv_plain_def weakened_drop [OF assms(2,3)] flags weakened_fields by blast
  show "gv_kids (weakened v) = gv_kids v"
    by (simp add: gv_kids_def weakened_drop [OF assms(2,3)])
qed

lemma weak_ref_new_inv:
  assumes "gc_inv g R" "gc_heap g a = Some v" "gv_rc v \<noteq> 0" "\<not> gv_is_err v" "gv_tag v \<noteq> vtag_byte VString"
  shows "gc_inv (gc_set a (weakened v) g) R"
proof -
  have fin: "finite (dom (gc_heap g))" and plain: "gv_plain v"
    using gc_inv_exact [OF assms(1)] assms(2,3) by (auto simp: rc_exact_def)
  note w = weakened_plain [OF plain assms(4,5)]
  have "heap_refs ((gc_heap g)(a \<mapsto> weakened v)) = heap_refs (gc_heap g)"
    using heap_refs_upd [OF fin, of a "weakened v"] live_atI [of "gc_heap g" a v] assms(2,3) w(2) by (simp add: refs_at_def)
  moreover have "rc_of ((gc_heap g)(a \<mapsto> weakened v)) b = rc_of (gc_heap g) b" for b
    using assms(2) by (simp add: rc_of_def)
  ultimately have exact: "rc_exact (gc_heap (gc_set a (weakened v) g)) R"
    using gc_inv_exact [OF assms(1)] w(1) assms(2) by (auto simp: rc_exact_def)
  have same: "live_at (gc_heap (gc_set a (weakened v) g)) = live_at (gc_heap g)"
      "dom (gc_heap (gc_set a (weakened v) g)) = dom (gc_heap g)"
    using assms(2,3) by (auto simp: live_at_upd live_at_def)
  have "det_good (gc_set a (weakened v) g)"
    using assms(2) by (intro det_good_heap [OF gc_inv_good [OF assms(1)]]) (auto simp: gc_set_def)
  then show ?thesis
    using assms(1) exact unfolding gc_inv_def same by (simp add: gc_set_def)
qed

subsection \<open>An allocator, and small programs\<close>

definition first_free :: "gc \<Rightarrow> addr" where
  "first_free g = hd (filter (\<lambda>a. gc_heap g a = None) (map of_nat [1..<pool_limit + 1]))"

definition env1 :: gc_env where
  "env1 = \<lparr> ge_malloc = first_free, ge_thread = 1 \<rparr>"

lemma unat_of_nat_eq: "n < 2 ^ LENGTH('a) \<Longrightarrow> unat (of_nat n :: 'a::len word) = n"
  by (simp add: unat_of_nat take_bit_nat_eq_self)

lemma malloc_env1: "malloc_ok env1"
  unfolding malloc_ok_def
proof (intro allI impI)
  fix g :: gc
  assume room: "card (dom (gc_heap g)) < pool_limit"
  have limit: "pool_limit < 2 ^ 64"
    by (simp add: pool_limit_def LOCAL_POOL_LIMIT_def VALUE_POOL_LIMIT_def)
  let ?as = "map of_nat [1..<pool_limit + 1] :: addr list"
  have inj: "inj_on (of_nat :: nat \<Rightarrow> addr) {1..<pool_limit + 1}"
  proof (rule inj_onI)
    fix x y :: nat
    assume "x \<in> {1..<pool_limit + 1}" "y \<in> {1..<pool_limit + 1}" "(of_nat x :: addr) = of_nat y"
    moreover from this have "unat (of_nat x :: addr) = x" "unat (of_nat y :: addr) = y"
      using limit by (intro unat_of_nat_eq; simp)+
    ultimately show "x = y"
      by metis
  qed
  have "card (set ?as) = pool_limit"
    unfolding set_map set_upt card_image [OF inj] by simp
  then have "\<not> set ?as \<subseteq> dom (gc_heap g)"
    using room card_mono [of "dom (gc_heap g)" "set ?as"] by auto
  then have "filter (\<lambda>a. gc_heap g a = None) ?as \<noteq> []"
    by (auto simp: filter_empty_conv)
  then have "ge_malloc env1 g \<in> set (filter (\<lambda>a. gc_heap g a = None) ?as)"
    unfolding env1_def first_free_def by (simp only: gc_env.simps hd_in_set not_False_eq_True)
  then have mem: "ge_malloc env1 g \<in> of_nat ` {1..<pool_limit + 1}" "gc_heap g (ge_malloc env1 g) = None"
    unfolding set_filter set_map set_upt by blast+
  then obtain n where n: "n \<in> {1..<pool_limit + 1}" "ge_malloc env1 g = of_nat n" "gc_heap g (ge_malloc env1 g) = None"
    by blast
  have "unat (of_nat n :: addr) = n"
    using n(1) limit by (intro unat_of_nat_eq) simp
  then have "(of_nat n :: addr) \<noteq> 0"
    using n(1) by auto
  then show "ge_malloc env1 g \<noteq> 0 \<and> gc_heap g (ge_malloc env1 g) = None"
    using n by simp
qed

lemma room_init: "card (dom (gc_heap gc_init)) < pool_limit"
  by (simp add: gc_init_def pool_limit_def LOCAL_POOL_LIMIT_def)

lemma first_number:
  obtains n g where "coral_make_number env1 0 gc_init = (n, g)" "gc_inv g {#n#}" "n \<noteq> 0" "gc_heap g = [n \<mapsto> gv_number 0 1]"
proof -
  obtain n g where ng: "coral_make_number env1 0 gc_init = (n, g)"
    by (metis surj_pair)
  then have al: "alloc_value env1 (gv_number 0 1) gc_init = (n, g)"
    by (simp add: coral_make_number_def env1_def)
  have sc: "gc_inv gc_init ({#} + mset (gv_kids (gv_number 0 1)))" "gv_rc (gv_number 0 1) = 1" "gv_plain (gv_number 0 1)"
    using gc_inv_init scalar_number [of 0 1] by (simp_all add: scalar_def)
  note a = alloc_inv [OF sc malloc_env1 room_init al]
  show ?thesis
    using that [OF ng] a by (simp add: gc_init_def)
qed

definition list_value :: "addr list \<Rightarrow> gc_value" where
  "list_value items = gv_new VList 0 (PPtr (Some (OList items))) 1"

lemma first_list:
  obtains a g where "coral_make_list env1 [] gc_init = Some (a, g)" "gc_inv g {#a#}" "a \<noteq> 0" "gc_heap g = [a \<mapsto> list_value []]"
proof -
  obtain a g where al: "alloc_value env1 (list_value []) gc_init = (a, g)"
    by (metis surj_pair)
  then have ag: "coral_make_list env1 [] gc_init = Some (a, g)"
    by (simp add: coral_make_list_def gc_alloc_list_def coral_value_retain_many_def list_value_def gv_from_heap_def env1_def)
  have "gv_kids (list_value []) = []" "gv_plain (list_value [])"
    unfolding list_value_def by (simp add: kids_drop [OF drop_object(3)] nonnull_def, rule plain_flagless [OF _ drop_object(3)]) simp_all
  then have sc: "gc_inv gc_init ({#} + mset (gv_kids (list_value [])))" "gv_rc (list_value []) = 1" "gv_plain (list_value [])"
    using gc_inv_init by (simp_all add: list_value_def)
  note a = alloc_inv [OF sc malloc_env1 room_init al]
  show ?thesis
    using that [OF ag] a by (simp add: gc_init_def)
qed

subsection \<open>The properties\<close>

text \<open>
  C2: Whatever a program does to the heap with the modelled calls, every count is the number of handles the
  program holds plus the number of references from live boxes, the boxes without references are those in
  the pools, and the live counter counts the live boxes.
\<close>

theorem runtime_counts_exact:
  assumes "rt_run E g R" "malloc_ok E"
  shows "(\<forall>a v. gc_heap g a = Some v \<longrightarrow> unat (gv_rc v) = count (R + heap_refs (gc_heap g)) a \<and>
      (gv_rc v = 0 \<longleftrightarrow> a \<in> set (gc_local_pool g @ gc_pool g))) \<and>
    gc_live g = of_nat (card (live_at (gc_heap g)))"
proof -
  have inv: "gc_inv g R"
    using rt_run_inv [OF assms] .
  have "unat (gv_rc v) = count (R + heap_refs (gc_heap g)) a \<and> (gv_rc v = 0 \<longleftrightarrow> a \<in> set (gc_local_pool g @ gc_pool g))"
    if "gc_heap g a = Some v" for a v
  proof
    have "a \<noteq> 0"
      using that gc_inv_exact [OF inv] by (auto simp: rc_exact_def)
    then show "unat (gv_rc v) = count (R + heap_refs (gc_heap g)) a"
      using that gc_inv_exact [OF inv] by (simp add: rc_exact_def rc_of_def)
    have "set (gc_local_pool g @ gc_pool g) = dom (gc_heap g) - live_at (gc_heap g)"
      using inv by (simp add: gc_inv_def)
    then show "gv_rc v = 0 \<longleftrightarrow> a \<in> set (gc_local_pool g @ gc_pool g)"
      using that by (auto simp: live_at_def)
  qed
  moreover have "gc_live g = of_nat (card (live_at (gc_heap g)))"
    using inv by (simp add: gc_inv_def)
  ultimately show ?thesis
    by blast
qed

theorem runtime_counts_exact_witness:
  "\<exists>n g. coral_make_number env1 0 gc_init = (n, g) \<and> gc_live g = of_nat (card (live_at (gc_heap g)))"
proof -
  obtain n g where ng: "coral_make_number env1 0 gc_init = (n, g)"
    by (metis surj_pair)
  have "rt_run env1 g {#n#}"
    by (rule rt_number [OF rt_start _ ng]) (simp add: has_room_def room_init)
  then show ?thesis
    using runtime_counts_exact [of env1 g "{#n#}"] malloc_env1 ng by blast
qed

text \<open>
  C3: Releasing a handle returns and keeps the counts exact for the handles left; every box reachable from
  those is still there with its contents.
\<close>

theorem release_keeps_counts:
  assumes "gc_inv g (add_mset a R)"
  shows "\<exists>g'. coral_value_release E a g = Some g' \<and> gc_inv g' R \<and>
    (\<forall>b. reached (gc_heap g) R b \<longrightarrow> (\<exists>v n. gc_heap g b = Some v \<and> n \<noteq> 0 \<and> gc_heap g' b = Some (v\<lparr> gv_rc := n \<rparr>)))"
proof -
  obtain g' where "coral_value_release E a g = Some g'" "gc_inv g' R" "shrinks (gc_heap g) (gc_heap g')"
    using release_returns [OF assms] .
  then show ?thesis
    using reached_stays gc_inv_exact by blast
qed

theorem release_keeps_counts_witness:
  "\<exists>a g g'. coral_make_list env1 [] gc_init = Some (a, g) \<and> coral_value_release env1 a g = Some g' \<and> gc_inv g' {#}"
proof -
  obtain a g where "coral_make_list env1 [] gc_init = Some (a, g)" "gc_inv g {#a#}"
    by (rule first_list)
  then show ?thesis
    using release_keeps_counts [of g a "{#}" env1] by auto
qed

text \<open>
  C9: When the references of a heap form no cycle, releasing all handles frees every box: all of them end
  in the pools and the live counter is zero.
\<close>

theorem acyclic_heap_is_freed:
  assumes "gc_inv g (mset hs)" "acyclic (points_to (gc_heap g))"
  shows "\<exists>g'. coral_value_release_many E hs g = Some g' \<and> live_at (gc_heap g') = {} \<and> gc_live g' = 0 \<and>
    set (gc_local_pool g' @ gc_pool g') = dom (gc_heap g)"
proof -
  obtain g' where g': "coral_value_release_many E hs g = Some g'" "gc_inv g' {#}" "shrinks (gc_heap g) (gc_heap g')"
    using release_many_returns [of g "{#}" hs E] assms(1) by auto
  have "acyclic (points_to (gc_heap g'))"
    using shrinks_points_to [OF g'(3)] assms(2) by (rule acyclic_subset [rotated])
  then have "live_at (gc_heap g') = {}"
    using unreferenced_empty gc_inv_exact [OF g'(2)] by blast
  then show ?thesis
    using g' by (auto simp: gc_inv_def shrinks_def)
qed

theorem acyclic_heap_is_freed_witness:
  "\<exists>n g l h g'. coral_make_number env1 0 gc_init = (n, g) \<and> coral_make_list env1 [n] g = Some (l, h) \<and>
     coral_value_release_many env1 [l, n] h = Some g' \<and> live_at (gc_heap g') = {}"
proof -
  obtain n g where g: "coral_make_number env1 0 gc_init = (n, g)" "gc_inv g {#n#}" "n \<noteq> 0" "gc_heap g = [n \<mapsto> gv_number 0 1]"
    by (rule first_number)
  have kids: "gv_kids (gv_number 0 1) = []"
    using scalar_number [of 0 1] by (simp add: scalar_def)
  have refs: "heap_refs (gc_heap g) = {#}"
    using g(4) kids by (auto simp: heap_refs_def live_at_def gv_number_def)
  have "countable_refs 1 g {#n#}"
    by (simp add: countable_refs_def refs)
  then obtain g1 where g1: "coral_value_retain n g = Some g1" "gc_inv g1 {#n, n#}"
      "gc_heap g1 = [n \<mapsto> (gv_number 0 1)\<lparr> gv_rc := gv_rc (gv_number 0 1) + 1 \<rparr>]"
    by (rule retain_returns [OF g(2) _ g(3), rotated]) (use g(4) in auto)
  obtain l h where al: "alloc_value env1 (list_value [n]) g1 = (l, h)"
    by (metis surj_pair)
  have list: "coral_make_list env1 [n] g = Some (l, h)"
    using al g1(1) g(3)
    by (simp add: coral_make_list_def gc_alloc_list_def coral_value_retain_many_def list_value_def gv_from_heap_def env1_def)
  have d: "drop_children (list_value [n]) = Some ([n], [])"
    unfolding list_value_def by (rule drop_object(3))
  have kids_l: "gv_kids (list_value [n]) = [n]"
    using g(3) by (simp add: kids_drop [OF d] nonnull_def)
  have "gv_plain (list_value [n])"
    unfolding list_value_def by (rule plain_flagless [OF _ drop_object(3)]) simp_all
  then have sc: "gc_inv g1 ({#n#} + mset (gv_kids (list_value [n])))" "gv_rc (list_value [n]) = 1" "gv_plain (list_value [n])"
    using g1(2) kids_l by (simp_all add: list_value_def)
  have room: "card (dom (gc_heap g1)) < pool_limit"
    by (simp add: g1(3) pool_limit_def LOCAL_POOL_LIMIT_def)
  note a = alloc_inv [OF sc malloc_env1 room al]
  have "gc_inv h (mset [l, n])"
    using a(1) by (simp add: add_mset_commute)
  moreover have "points_to (gc_heap h) \<subseteq> {(l, n)}"
    using a(3) g1(3) kids_l kids by (auto simp: points_to_def split: if_splits)
  moreover have "l \<noteq> n"
  proof
    assume "l = n"
    then have h: "gc_heap h = [n \<mapsto> list_value [n]]"
      using a(3) g1(3) by simp
    have "heap_refs (gc_heap h) = {#n#}"
      using kids_l by (simp add: h heap_refs_def live_at_def list_value_def)
    have "count (add_mset l {#n#} + heap_refs (gc_heap h)) n = rc_of (gc_heap h) n"
      using gc_inv_exact [OF a(1)] g(3) unfolding rc_exact_def by blast
    then show False
      unfolding \<open>heap_refs (gc_heap h) = {#n#}\<close> \<open>l = n\<close> by (simp add: h rc_of_def list_value_def)
  qed
  then have "acyclic {(l, n)}"
    by (auto simp: acyclic_def trancl_insert)
  ultimately have "acyclic (points_to (gc_heap h))"
    by (meson acyclic_subset)
  then show ?thesis
    using acyclic_heap_is_freed [of h "[l, n]" env1] \<open>gc_inv h (mset [l, n])\<close> g(1) list by blast
qed

text \<open>
  C11: A cycle collection leaves the heap as it was, whatever garbage cycles it holds: marking never
  subtracts the references inside a cycle, so no live count reaches zero and no box turns white.
\<close>

theorem collector_reclaims_nothing:
  assumes "gc_inv g R"
  shows "\<exists>g'. collect_cycles E g = Some g' \<and> gc_heap g' = gc_heap g \<and> gc_live g' = gc_live g \<and> cycle_stats g' = cycle_stats g"
proof -
  obtain g' where "collect_cycles E g = Some g'" "quiet g g'"
    using collect_inv [OF assms] .
  then show ?thesis
    by (auto simp: quiet_heap quiet_def gc_same_fields) (auto simp: gc_same_def)
qed

theorem collector_reclaims_nothing_witness:
  "\<exists>a g g1 g2 g3 g'. coral_make_list env1 [] gc_init = Some (a, g) \<and> coral_list_push env1 a a g = Some (a, g1) \<and>
     coral_value_release env1 a g1 = Some g2 \<and> coral_value_release env1 a g2 = Some g3 \<and> gc_inv g3 {#} \<and>
     collect_cycles env1 g3 = Some g' \<and> a \<in> live_at (gc_heap g')"
proof -
  obtain a g where g: "coral_make_list env1 [] gc_init = Some (a, g)" "gc_inv g {#a#}" "a \<noteq> 0" "gc_heap g = [a \<mapsto> list_value []]"
    by (rule first_list)
  let ?v = "(list_value [a])\<lparr> gv_rc := 3 \<rparr>"
  have flags: "\<not> gv_has f (list_value [])" "gv_list (list_value []) = Some (Some [])" for f
    by (simp_all add: gv_has_def list_value_def gv_list_def gv_heap_ptr_def gv_new_def)
  have "\<exists>g1. coral_list_push env1 a a g = Some (a, g1) \<and> gc_heap g1 = [a \<mapsto> ?v]"
    using g(3,4) flags
    by (simp add: coral_list_push_def is_frozen_def read_or_def cow_ensure_unique_def coral_value_retain_def gc_set_def)
      (simp add: list_value_def gv_new_def gv_has_def)
  then obtain g1 where g1: "coral_list_push env1 a a g = Some (a, g1)" "gc_heap g1 = [a \<mapsto> ?v]"
    by blast
  have refs: "heap_refs (gc_heap g) = {#}"
    by (simp add: g(4) heap_refs_def live_at_def list_value_def kids_drop [OF drop_object(3)] nonnull_def)
  have inv1: "gc_inv g1 (add_mset a {#a#})"
    using push_inv [OF g(2) _ g(3) _ _ _ flags(2) flags(1) flags(1) g1(1)] g(4) refs by (simp add: countable_refs_def)
  obtain g2 where g2: "coral_value_release env1 a g1 = Some g2" "gc_inv g2 {#a#}"
      "gc_heap g2 = (gc_heap g1)(a \<mapsto> ?v\<lparr> gv_rc := gv_rc ?v - 1 \<rparr>)"
    by (rule release_shared_returns [OF inv1 g(3), of ?v env1]) (use g1(2) in simp_all)
  have two: "gc_heap g2 a = Some ((list_value [a])\<lparr> gv_rc := 2 \<rparr>)"
    using g2(3) by simp
  obtain g3 where g3: "coral_value_release env1 a g2 = Some g3" "gc_inv g3 {#}"
      "gc_heap g3 = (gc_heap g2)(a \<mapsto> (list_value [a])\<lparr> gv_rc := 2, gv_rc := gv_rc ((list_value [a])\<lparr> gv_rc := 2 \<rparr>) - 1 \<rparr>)"
    by (rule release_shared_returns [of g2 a "{#}" "(list_value [a])\<lparr> gv_rc := 2 \<rparr>" env1]) (use g2(2) g(3) two in simp_all)
  then have "a \<in> live_at (gc_heap g3)"
    by (simp add: live_at_def)
  then show ?thesis
    using collector_reclaims_nothing [OF g3(2), of env1] g(1) g1(1) g2(1) g3(1,2) by metis
qed

text \<open>
  C15: A weak reference is still alive after the last reference to its target was released, and upgrading it
  hands out the freed box: dropping resets the epoch that had just been raised. (In a release build; in a
  debug build the \<open>debug_assert!\<close> of the retain in \<open>upgrade\<close> stops the program at that box.)
\<close>

theorem weak_ref_outlives_target:
  assumes "gc_inv g (add_mset a R)" "gc_heap g a = Some v" "gv_rc v = 1" "gv_epoch v = 0" "\<not> gv_is_err v"
    "gv_tag v \<noteq> vtag_byte VString" "weak_ref_new a g = Some (Some w, g1)"
  shows "\<exists>g2. coral_value_release E a g1 = Some g2 \<and> a \<notin> live_at (gc_heap g2) \<and> weak_ref_is_alive w g2 = Some True \<and>
    weak_ref_upgrade w g2 = Some (Some a, g2)"
proof -
  have ne: "a \<noteq> 0"
    using gc_inv_exact [OF assms(1)] assms(2) by (auto simp: rc_exact_def)
  have g1: "g1 = gc_set a (weakened v) g" and w: "w = \<lparr> wr_target = a, wr_epoch = 0 \<rparr>"
    using assms(2,4,7) ne by (auto simp: weak_ref_new_def weakened_def)
  have inv: "gc_inv g1 (add_mset a R)"
    unfolding g1 using assms(1-3,5,6) by (intro weak_ref_new_inv) simp_all
  obtain g2 where g2: "coral_value_release E a g1 = Some g2" "gc_inv g2 R"
      "gc_heap g2 a = Some ((gv_unit (ge_thread E))\<lparr> gv_rc := 0, gv_owner := 0 \<rparr>)"
    by (rule release_last_returns [OF inv ne, of "weakened v" E]) (use assms(3) g1 in simp_all)
  have unit: "gv_epoch ((gv_unit (ge_thread E))\<lparr> gv_rc := 0, gv_owner := 0 \<rparr>) = 0"
    by (simp add: gv_unit_def gv_new_def)
  have dead: "a \<notin> live_at (gc_heap g2)"
    using g2(3) by (simp add: live_at_def)
  have alive: "weak_ref_is_alive w g2 = Some True"
    using ne g2(3) unit by (simp add: weak_ref_is_alive_def w)
  have "coral_value_retain a g2 = Some g2"
    using ne g2(3) by (simp add: coral_value_retain_def)
  then have "weak_ref_upgrade w g2 = Some (Some a, g2)"
    using ne g2(3) unit by (simp add: weak_ref_upgrade_def w)
  with g2(1) dead alive show ?thesis by blast
qed

theorem weak_ref_outlives_target_witness:
  "\<exists>n g w g1 g2. coral_make_number env1 0 gc_init = (n, g) \<and> weak_ref_new n g = Some (Some w, g1) \<and>
     coral_value_release env1 n g1 = Some g2 \<and> n \<notin> live_at (gc_heap g2) \<and> weak_ref_is_alive w g2 = Some True"
proof -
  obtain n g where g: "coral_make_number env1 0 gc_init = (n, g)" "gc_inv g {#n#}" "n \<noteq> 0" "gc_heap g = [n \<mapsto> gv_number 0 1]"
    by (rule first_number)
  obtain w g1 where w: "weak_ref_new n g = Some (Some w, g1)"
    using g(3,4) by (simp add: weak_ref_new_def)
  have "\<not> gv_is_err (gv_number 0 1)"
    by (simp add: gv_is_err_def gv_has_def gv_number_def)
  then show ?thesis
    using weak_ref_outlives_target [OF g(2) _ _ _ _ _ w, of "gv_number 0 1" env1] g w
    by (auto simp: gv_number_def gv_new_def)
qed

text \<open>
  C22: Making a weak reference to a long string makes it read as the empty string, and making one to an error
  makes it count as a success: the flag for weak references is the flag for inline strings.
\<close>

theorem weak_ref_changes_value:
  assumes "22 < length bs" "coral_make_string E bs g = (a, g1)" "weak_ref_new a g1 = Some (w, g2)" "a \<noteq> 0"
    "coral_make_error E code name g = (e, h1)" "weak_ref_new e h1 = Some (u, h2)" "e \<noteq> 0"
  shows "do { v \<leftarrow> gc_heap g1 a; gv_string_to_bytes v } = Some bs \<and> do { v \<leftarrow> gc_heap g2 a; gv_string_to_bytes v } = Some [] \<and>
    coral_is_err e h1 = Some 1 \<and> coral_is_err e h2 = Some 0 \<and> coral_is_ok e h2 = Some 1"
proof -
  have alloc: "gc_heap g' a = Some v" if "alloc_value E v g = (a, g')" for v g a g'
    using that by (auto simp: alloc_value_def Let_def split: option.splits)
  let ?s = "gv_from_heap VString (OString bs) (ge_thread E)"
  have s: "gc_heap g1 a = Some ?s"
    using assms(1,2) by (intro alloc) (simp add: coral_make_string_def)
  then have s2: "gc_heap g2 a = Some (weakened ?s)"
    using assms(3,4) by (auto simp: weak_ref_new_def weakened_def)
  have 1: "gv_string_to_bytes ?s = Some bs"
    unfolding gv_string_to_bytes_def gv_from_heap_def new_fields vtag_try_from_byte
    by (simp add: gv_is_inline_string_def gv_has_def gv_heap_ptr_def)
  have "gv_is_inline_string (weakened ?s)"
    unfolding gv_is_inline_string_def weakened_fields by (simp add: weakened_flag(1) gv_from_heap_def del: vtag_byte.simps)
  moreover have "gv_flags (weakened ?s) = 1"
    by (simp add: weakened_def gv_from_heap_def FLAG_HAS_WEAK_REFS_def)
  moreover have "vtag_try_from (gv_tag ?s) = Some VString"
    unfolding gv_from_heap_def new_fields by (rule vtag_try_from_byte)
  ultimately have 2: "gv_string_to_bytes (weakened ?s) = Some []"
    unfolding gv_string_to_bytes_def weakened_fields
    by (simp add: gv_inline_bytes_def inline_string_len_def FLAG_INLINE_STRING_def)
  obtain nm g0 where "coral_make_string E name g = (nm, g0)"
    by (metis surj_pair)
  then have e: "gc_heap h1 e = Some (gv_error (OError code nm 0) (ge_thread E))"
    using assms(5) by (intro alloc) (simp add: coral_make_error_def)
  then have e2: "gc_heap h2 e = Some (weakened (gv_error (OError code nm 0) (ge_thread E)))"
    using assms(6,7) by (auto simp: weak_ref_new_def weakened_def)
  have "coral_is_err e h1 = Some 1"
    using e assms(7)
    by (simp add: coral_is_err_def read_or_def gv_is_err_def gv_has_def gv_error_def FLAG_INLINE_STRING_def FLAG_ERR_def)
  moreover have "coral_is_err e h2 = Some 0" "coral_is_ok e h2 = Some 1"
    using e2 assms(7) by (simp_all add: coral_is_err_def coral_is_ok_def read_or_def gv_is_err_def gv_is_ok_def weakened_flag(1))
  ultimately show ?thesis
    using s s2 1 2 by simp
qed

theorem weak_ref_changes_value_witness:
  "\<exists>a g1 w g2. coral_make_string env1 (replicate 23 65) gc_init = (a, g1) \<and> weak_ref_new a g1 = Some (w, g2) \<and>
     do { v \<leftarrow> gc_heap g1 a; gv_string_to_bytes v } = Some (replicate 23 65) \<and>
     do { v \<leftarrow> gc_heap g2 a; gv_string_to_bytes v } = Some []"
proof -
  have new: "gc_inv g' (add_mset a R) \<and> a \<noteq> 0 \<and> (\<exists>w g2. weak_ref_new a g' = Some (w, g2))"
    if "gc_inv g (R + mset (gv_kids u))" "gv_rc u = 1" "gv_plain u" "card (dom (gc_heap g)) < pool_limit"
      "alloc_value env1 u g = (a, g')" for g R u a g'
    using alloc_inv [OF that(1-3) malloc_env1 that(4,5)] by (simp add: weak_ref_new_def)
  let ?s = "gv_from_heap VString (OString (replicate 23 65)) 1" and ?n = "gv_inline_string [] 1"
  obtain a g1 where a: "alloc_value env1 ?s gc_init = (a, g1)"
    by (metis surj_pair)
  have s: "coral_make_string env1 (replicate 23 65) gc_init = (a, g1)"
    using a by (simp add: coral_make_string_def env1_def)
  have "gc_inv gc_init ({#} + mset (gv_kids ?s))" "gv_rc ?s = 1" "gv_plain ?s"
    using gc_inv_init scalar_heap_string(1) [of "replicate 23 65" 1] by (simp_all add: scalar_def)
  from new [OF this room_init a] obtain w g2 where w: "a \<noteq> 0" "weak_ref_new a g1 = Some (w, g2)"
    by blast
  obtain m h0 where m: "alloc_value env1 ?n gc_init = (m, h0)"
    by (metis surj_pair)
  have "gc_inv gc_init ({#} + mset (gv_kids ?n))" "gv_rc ?n = 1" "gv_plain ?n"
    using gc_inv_init scalar_inline_string [of "[]" 1] by (simp_all add: scalar_def)
  note h0 = alloc_inv [OF this malloc_env1 room_init m]
  let ?e = "gv_error (OError 1 m 0) 1"
  obtain e h1 where e: "alloc_value env1 ?e h0 = (e, h1)"
    by (metis surj_pair)
  have err: "coral_make_error env1 1 [] gc_init = (e, h1)"
    using m e by (simp add: coral_make_error_def coral_make_string_def env1_def)
  have is_err: "gv_is_err ?e"
    by (simp add: gv_is_err_def gv_has_def gv_error_def FLAG_INLINE_STRING_def FLAG_ERR_def)
  have d: "drop_children ?e = Some ([m], [])"
    using h0(2) is_err by (simp add: drop_children_def gv_error_def gv_heap_ptr_def)
  have plain: "gv_plain ?e"
    unfolding gv_plain_def d by (simp add: gv_error_def gv_has_def FLAG_STACK_def FLAG_ERR_def)
  have kids: "gc_inv h0 ({#} + mset (gv_kids ?e))"
    using h0(1,2) by (simp add: kids_drop [OF d] nonnull_def)
  have room: "card (dom (gc_heap h0)) < pool_limit"
    by (simp add: h0(3) gc_init_def pool_limit_def LOCAL_POOL_LIMIT_def)
  from new [OF kids _ plain room e] obtain u h2 where u: "e \<noteq> 0" "weak_ref_new e h1 = Some (u, h2)"
    by (auto simp: gv_error_def)
  show ?thesis
    using weak_ref_changes_value [OF _ s w(2,1) err u(2,1)] s w(2) by auto
qed

text \<open>
  C24: With full pools, a container released twice is given back to the allocator while the buffer of candidate
  roots still names it: the next collection reads freed memory.
\<close>

theorem freed_box_stays_a_root:
  assumes "gc_heap g a = Some v" "a \<noteq> 0" "gv_rc v = 2" "is_container v" "drop_children v = Some ([], [])"
    "\<not> gv_has FLAG_STACK v" "gc_queue g = None" "\<not> gc_pending g" "\<not> gc_auto g"
    "length (gc_local_roots g) + 1 < LOCAL_BUFFER_THRESHOLD"
    "LOCAL_POOL_LIMIT \<le> length (gc_local_pool g)" "VALUE_POOL_LIMIT \<le> length (gc_pool g)"
  shows "\<exists>g'. coral_value_release_many E [a, a] g = Some g' \<and> gc_heap g' a = None \<and> a \<in> set (gc_local_roots g') \<and>
    collect_cycles E g' = None"
proof -
  let ?v1 = "v\<lparr> gv_rc := 1 \<rparr>"
  let ?g1 = "(gc_set a ?v1 (g\<lparr> gc_releases := gc_releases g + 1 \<rparr>))\<lparr> gc_local_roots := gc_local_roots g @ [a] \<rparr>"
  have "is_container ?v1"
    using assms(4) by (simp add: is_container_def)
  then have "possible_root a (gc_set a ?v1 (g\<lparr> gc_releases := gc_releases g + 1 \<rparr>)) = Some ?g1"
    using assms(2,8,10) by (simp add: possible_root_def gc_set_def)
  then have 1: "coral_value_release E a g = Some ?g1"
    using run_release_shared [OF assms(2,1) _ _ assms(6), of E] assms(3,9)
    by (simp add: coral_value_release_def gc_set_def)
  let ?u = "gv_unit (ge_thread E)"
  have heap: "gc_heap (emptied E a ?g1) a = Some ?u"
    by (simp add: emptied_def)
  have pools: "gc_local_pool (emptied E a ?g1) = gc_local_pool g" "gc_pool (emptied E a ?g1) = gc_pool g"
    by (simp_all add: emptied_def gc_set_def)
  have "\<not> gv_has FLAG_HAS_WEAK_REFS ?u"
    by (simp add: gv_has_def gv_unit_def)
  then have "dealloc_value_box a (emptied E a ?g1) = Some ((emptied E a ?g1)\<lparr> gc_live := gc_live (emptied E a ?g1) - 1,
      gc_heap := (gc_heap (emptied E a ?g1))(a := None) \<rparr>)"
    using heap pools assms(11,12) by (simp add: dealloc_value_box_def recycle_value_box_def Let_def)
  moreover have "coral_value_release E a ?g1 = do { g \<leftarrow> gc_run E (CDrop []) (emptied E a ?g1); dealloc_value_box a g }"
    unfolding coral_value_release_def using assms by (intro run_release_last [of _ _ ?v1]) (simp_all add: gc_set_def)
  ultimately obtain g2 where g2: "coral_value_release E a ?g1 = Some g2" "gc_heap g2 a = None"
      "gc_local_roots g2 = gc_local_roots g @ [a]"
    by (simp add: run_drop_Nil) (auto simp: emptied_def gc_set_def notify_value_freed_def gc_det_map_def)
  have flush: "gc_each flush_root (xs @ [a]) h = None" if "gc_heap h a = None" for xs h
    using that
  proof (induction xs arbitrary: h)
    case Nil
    then show ?case using assms(2) by (simp add: flush_root_def)
  next
    case (Cons x xs)
    have "gc_heap h' = gc_heap h" if "flush_root x h = Some h'" for h'
      using that by (auto simp: flush_root_def split: if_splits bind_splits)
    then show ?case
      using Cons by (cases "flush_root x h") auto
  qed
  have "flush_local_roots (g2\<lparr> gc_pending := True \<rparr>) = None"
    using g2(2,3) by (simp add: flush_local_roots_def flush)
  then have "collect_cycles E g2 = None"
    by (simp add: collect_cycles_def gc_run.simps [of E CCollect] flush_all_thread_local_roots_def)
  then show ?thesis
    using 1 g2 by (simp add: coral_value_release_many_def)
qed

theorem freed_box_stays_a_root_witness:
  "\<exists>g'. coral_value_release_many env1 [16, 16] (gc_init\<lparr> gc_heap := [16 \<mapsto> (list_value [])\<lparr> gv_rc := 2 \<rparr>], gc_auto := False,
     gc_local_pool := map of_nat [100..<356], gc_pool := map of_nat [1000..<9192] \<rparr>) = Some g' \<and>
     gc_heap g' 16 = None \<and> collect_cycles env1 g' = None"
proof -
  have d: "drop_children ((list_value [])\<lparr> gv_rc := 2 \<rparr>) = Some ([], [])"
    unfolding drop_children_header list_value_def by (rule drop_object(3))
  have c: "is_container ((list_value [])\<lparr> gv_rc := 2 \<rparr>)"
    unfolding is_container_def gv_tag_header list_value_def new_fields vtag_try_from_byte by simp
  have s: "\<not> gv_has FLAG_STACK ((list_value [])\<lparr> gv_rc := 2 \<rparr>)"
    by (simp add: gv_has_def list_value_def)
  show ?thesis
    using freed_box_stays_a_root [of "gc_init\<lparr> gc_heap := [16 \<mapsto> (list_value [])\<lparr> gv_rc := 2 \<rparr>], gc_auto := False,
        gc_local_pool := map of_nat [100..<356], gc_pool := map of_nat [1000..<9192] \<rparr>" 16 "(list_value [])\<lparr> gv_rc := 2 \<rparr>" env1]
      d c s
    by (auto simp: gc_init_def LOCAL_BUFFER_THRESHOLD_def LOCAL_POOL_LIMIT_def VALUE_POOL_LIMIT_def simp del: upt_rec_numeral)
qed

end
