(* ===== verification/Encoding.thy ===== *)
theory Encoding
  imports Coral_Prelude
begin

text \<open>
  The text encodings of \<open>runtime/src/encoding_ops.rs\<close>: base64, hexadecimal and URL percent
  encoding, over byte strings (a Rust string is its UTF-8 bytes). The \<open>coral_*\<close> entry points
  unpack a value handle, call these and wrap the result; the model starts after the unpacking.
\<close>

subsection \<open>Base64\<close>

definition BASE64_CHARS :: bytes where
  "BASE64_CHARS = bstr ''ABCDEFGHIJKLMNOPQRSTUVWXYZabcdefghijklmnopqrstuvwxyz0123456789+/''"

text \<open>The character of the six bits that start at bit \<open>k\<close> of the 24-bit group \<open>n\<close>.\<close>

definition b64_char :: "u32 \<Rightarrow> nat \<Rightarrow> u8" where
  "b64_char n k = BASE64_CHARS ! unat (drop_bit k n AND 0x3F)"

definition b64_group :: "u8 \<Rightarrow> u8 \<Rightarrow> u8 \<Rightarrow> u32" where
  "b64_group a b c = push_bit 16 (ucast a) OR push_bit 8 (ucast b) OR ucast c"

text \<open>The loop \<open>while i + 2 < len\<close> and the two cases of the remainder after it.\<close>

fun base64_encode_bytes :: "bytes \<Rightarrow> bytes" where
  "base64_encode_bytes (a # b # c # rest) =
     (let n = b64_group a b c in
      b64_char n 18 # b64_char n 12 # b64_char n 6 # b64_char n 0 # base64_encode_bytes rest)"
| "base64_encode_bytes [a, b] =
     (let n = b64_group a b 0 in
      [b64_char n 18, b64_char n 12, b64_char n 6, byt (CHR ''='')])"
| "base64_encode_bytes [a] =
     (let n = b64_group a 0 0 in
      [b64_char n 18, b64_char n 12, byt (CHR ''=''), byt (CHR ''='')])"
| "base64_encode_bytes [] = []"

definition base64_decode_byte :: "u8 \<Rightarrow> u8 option" where
  "base64_decode_byte c =
     (if byt (CHR ''A'') \<le> c \<and> c \<le> byt (CHR ''Z'') then Some (c - byt (CHR ''A''))
      else if byt (CHR ''a'') \<le> c \<and> c \<le> byt (CHR ''z'') then Some (c - byt (CHR ''a'') + 26)
      else if byt (CHR ''0'') \<le> c \<and> c \<le> byt (CHR ''9'') then Some (c - byt (CHR ''0'') + 52)
      else if c = byt (CHR ''+'') then Some 62
      else if c = byt (CHR ''/'') then Some 63
      else None)"

text \<open>\<open>u8::is_ascii_whitespace\<close>: space, tab, line feed, form feed, carriage return.\<close>

definition byte_is_ascii_whitespace :: "u8 \<Rightarrow> bool" where
  "byte_is_ascii_whitespace b \<longleftrightarrow> b = 32 \<or> b = 9 \<or> b = 10 \<or> b = 12 \<or> b = 13"

text \<open>
  The decoding loop takes four bytes at a time. It is entered only with a length that is a
  multiple of four; the last equation is the out-of-range index that the guard excludes.
\<close>

fun base64_decode_groups :: "bytes \<Rightarrow> bytes option" where
  "base64_decode_groups [] = Some []"
| "base64_decode_groups (w # x # y # z # rest) =
     (case base64_decode_byte w of None \<Rightarrow> None | Some a \<Rightarrow>
      case base64_decode_byte x of None \<Rightarrow> None | Some b \<Rightarrow>
      let r1 = push_bit 2 a OR drop_bit 4 b in
      if y \<noteq> byt (CHR ''='') then
        case base64_decode_byte y of None \<Rightarrow> None | Some c \<Rightarrow>
        let r2 = push_bit 4 (b AND 0x0F) OR drop_bit 2 c in
        if z \<noteq> byt (CHR ''='') then
          case base64_decode_byte z of None \<Rightarrow> None | Some d \<Rightarrow>
          let r3 = push_bit 6 (c AND 0x03) OR d in
          map_option (\<lambda>r. r1 # r2 # r3 # r) (base64_decode_groups rest)
        else map_option (\<lambda>r. r1 # r2 # r) (base64_decode_groups rest)
      else map_option (\<lambda>r. r1 # r) (base64_decode_groups rest))"
| "base64_decode_groups _ = None"

definition base64_decode_bytes :: "bytes \<Rightarrow> bytes option" where
  "base64_decode_bytes data =
     (let filtered = filter (\<lambda>b. \<not> byte_is_ascii_whitespace b) data in
      if length filtered mod 4 \<noteq> 0 then None else base64_decode_groups filtered)"

subsection \<open>Hexadecimal\<close>

definition HEX_LOWER :: bytes where "HEX_LOWER = bstr ''0123456789abcdef''"
definition HEX_UPPER :: bytes where "HEX_UPPER = bstr ''0123456789ABCDEF''"

text \<open>\<open>format!("{:02x}", b)\<close>.\<close>

definition fmt_02x :: "u8 \<Rightarrow> bytes" where
  "fmt_02x b = [HEX_LOWER ! unat (drop_bit 4 b), HEX_LOWER ! unat (b AND 0xF)]"

definition hex_encode_bytes :: "bytes \<Rightarrow> bytes" where
  "hex_encode_bytes data = concat (map fmt_02x data)"

definition hex_digit :: "u8 \<Rightarrow> u8 option" where
  "hex_digit b =
     (if byt (CHR ''0'') \<le> b \<and> b \<le> byt (CHR ''9'') then Some (b - byt (CHR ''0''))
      else if byt (CHR ''a'') \<le> b \<and> b \<le> byt (CHR ''f'') then Some (b - byt (CHR ''a'') + 10)
      else if byt (CHR ''A'') \<le> b \<and> b \<le> byt (CHR ''F'') then Some (b - byt (CHR ''A'') + 10)
      else None)"

fun hex_decode_pairs :: "bytes \<Rightarrow> bytes option" where
  "hex_decode_pairs [] = Some []"
| "hex_decode_pairs (x # y # rest) =
     (case hex_digit x of None \<Rightarrow> None | Some hi \<Rightarrow>
      case hex_digit y of None \<Rightarrow> None | Some lo \<Rightarrow>
      map_option (\<lambda>r. (push_bit 4 hi OR lo) # r) (hex_decode_pairs rest))"
| "hex_decode_pairs _ = None"

definition hex_decode_bytes :: "bytes \<Rightarrow> bytes option" where
  "hex_decode_bytes data =
     (if length data mod 2 \<noteq> 0 then None else hex_decode_pairs data)"

subsection \<open>URL percent encoding\<close>

definition byte_is_alphanumeric :: "u8 \<Rightarrow> bool" where
  "byte_is_alphanumeric b \<longleftrightarrow>
     (byt (CHR ''0'') \<le> b \<and> b \<le> byt (CHR ''9'')) \<or>
     (byt (CHR ''A'') \<le> b \<and> b \<le> byt (CHR ''Z'')) \<or>
     (byt (CHR ''a'') \<le> b \<and> b \<le> byt (CHR ''z''))"

definition is_url_unreserved :: "u8 \<Rightarrow> bool" where
  "is_url_unreserved b \<longleftrightarrow> byte_is_alphanumeric b \<or> b = byt (CHR ''-'') \<or> b = byt (CHR ''_'') \<or>
     b = byt (CHR ''.'') \<or> b = byt (CHR ''~'')"

fun url_encode_bytes :: "bytes \<Rightarrow> bytes" where
  "url_encode_bytes [] = []"
| "url_encode_bytes (b # bs) =
     (if is_url_unreserved b then b # url_encode_bytes bs
      else byt (CHR ''%'') # HEX_UPPER ! unat (drop_bit 4 b) # HEX_UPPER ! unat (b AND 0xF)
        # url_encode_bytes bs)"

text \<open>
  The decoding loop: a percent sign with two bytes after it (\<open>i + 2 < len\<close>) that are hexadecimal
  digits is one byte; anything else is copied, with \<open>+\<close> as a space.
\<close>

definition url_plain :: "u8 \<Rightarrow> u8" where
  "url_plain b = (if b = byt (CHR ''+'') then byt (CHR '' '') else b)"

fun url_decode_bytes :: "bytes \<Rightarrow> bytes" where
  "url_decode_bytes [] = []"
| "url_decode_bytes (b # x # y # rest) =
     (if b = byt (CHR ''%'') then
        (case (hex_digit x, hex_digit y) of
           (Some hi, Some lo) \<Rightarrow> (push_bit 4 hi OR lo) # url_decode_bytes rest
         | _ \<Rightarrow> url_plain b # url_decode_bytes (x # y # rest))
      else url_plain b # url_decode_bytes (x # y # rest))"
| "url_decode_bytes (b # bs) = url_plain b # url_decode_bytes bs"

subsection \<open>Tables\<close>

lemma BASE64_CHARS_eq: "BASE64_CHARS =
    [65, 66, 67, 68, 69, 70, 71, 72, 73, 74, 75, 76, 77, 78, 79, 80, 81, 82, 83, 84, 85, 86,
     87, 88, 89, 90, 97, 98, 99, 100, 101, 102, 103, 104, 105, 106, 107, 108, 109, 110, 111,
     112, 113, 114, 115, 116, 117, 118, 119, 120, 121, 122, 48, 49, 50, 51, 52, 53, 54, 55, 56,
     57, 43, 47]"
  by (simp add: BASE64_CHARS_def bstr_def)

lemma HEX_LOWER_eq: "HEX_LOWER =
    [48, 49, 50, 51, 52, 53, 54, 55, 56, 57, 97, 98, 99, 100, 101, 102]"
  by (simp add: HEX_LOWER_def bstr_def)

lemma HEX_UPPER_eq: "HEX_UPPER =
    [48, 49, 50, 51, 52, 53, 54, 55, 56, 57, 65, 66, 67, 68, 69, 70]"
  by (simp add: HEX_UPPER_def bstr_def)

lemma b64_decode_table: "map base64_decode_byte BASE64_CHARS = map (\<lambda>n. Some (of_nat n)) [0..<64]"
  by (simp add: BASE64_CHARS_eq base64_decode_byte_def upt_rec)

lemma b64_table_plain:
  "list_all (\<lambda>c. c \<noteq> byt (CHR ''='') \<and> \<not> byte_is_ascii_whitespace c) BASE64_CHARS"
  by (simp add: BASE64_CHARS_eq byte_is_ascii_whitespace_def)

lemma hex_lower_table: "map hex_digit HEX_LOWER = map (\<lambda>n. Some (of_nat n)) [0..<16]"
  by (simp add: HEX_LOWER_eq hex_digit_def upt_rec)

lemma hex_upper_table: "map hex_digit HEX_UPPER = map (\<lambda>n. Some (of_nat n)) [0..<16]"
  by (simp add: HEX_UPPER_eq hex_digit_def upt_rec)

lemma map_nth_eq: "map f xs = map g [0..<n] \<Longrightarrow> k < n \<Longrightarrow> f (xs ! k) = g k"
proof -
  assume e: "map f xs = map g [0..<n]" and k: "k < n"
  have "length xs = n"
    using arg_cong [OF e, of length] by simp
  then show ?thesis
    using arg_cong [OF e, of "\<lambda>l. l ! k"] k by simp
qed

lemma six_bits: "unat (w AND 0x3F) < 64" for w :: u32
proof -
  have "w AND 0x3F \<le> 0x3F"
    by (rule word_and_le1)
  then show ?thesis by (simp add: word_le_nat_alt)
qed

lemma b64_char_decode [simp]:
  "base64_decode_byte (b64_char n k) = Some (ucast (drop_bit k n AND 0x3F))"
  using map_nth_eq [OF b64_decode_table six_bits [of "drop_bit k n"]]
  by (simp add: b64_char_def)

lemma b64_char_in [simp]: "b64_char n k \<in> set BASE64_CHARS"
proof -
  have "length BASE64_CHARS = 64" by (simp add: BASE64_CHARS_eq)
  then show ?thesis
    using six_bits [of "drop_bit k n"] by (simp add: b64_char_def)
qed

lemma b64_char_plain: "b64_char n k \<noteq> byt (CHR ''='')" "\<not> byte_is_ascii_whitespace (b64_char n k)"
  using b64_table_plain b64_char_in [of n k] by (auto simp: list_all_iff simp del: b64_char_in)

lemmas b64_char_plain_simps [simp] = b64_char_plain b64_char_plain(1) [simplified]

text \<open>Three bytes go through four six-bit groups and come back.\<close>

lemma b64_first: "push_bit 2 (ucast (drop_bit 18 (b64_group a b c) AND 0x3F)) OR
    drop_bit 4 (ucast (drop_bit 12 (b64_group a b c) AND 0x3F)) = a"
  by (rule u8_eqI) (simp_all add: b64_group_def bit_simps)

lemma b64_second: "push_bit 4 (ucast (drop_bit 12 (b64_group a b c) AND 0x3F) AND 0x0F) OR
    drop_bit 2 (ucast (drop_bit 6 (b64_group a b c) AND 0x3F)) = b"
  by (rule u8_eqI) (simp_all add: b64_group_def bit_simps)

lemma b64_third: "push_bit 6 (ucast (drop_bit 6 (b64_group a b c) AND 0x3F) AND 0x03) OR
    ucast (drop_bit 0 (b64_group a b c) AND 0x3F) = c"
  by (rule u8_eqI) (simp_all add: b64_group_def bit_simps)

lemmas b64_parts [simp] = b64_first [simplified] b64_second [simplified] b64_third [simplified]

lemma length_base64_encode: "length (base64_encode_bytes d) = 4 * ((length d + 2) div 3)"
proof (induction d rule: base64_encode_bytes.induct)
  case (1 a b c rest)
  have "(length (a # b # c # rest) + 2) div 3 = Suc ((length rest + 2) div 3)"
    by simp
  with 1 show ?case by (simp add: Let_def)
qed (simp_all add: Let_def)

lemma set_base64_encode: "set (base64_encode_bytes d) \<subseteq> insert (byt (CHR ''='')) (set BASE64_CHARS)"
  by (induction d rule: base64_encode_bytes.induct) (auto simp: Let_def)

lemma base64_encode_no_whitespace: "x \<in> set (base64_encode_bytes d) \<Longrightarrow> \<not> byte_is_ascii_whitespace x"
proof -
  assume "x \<in> set (base64_encode_bytes d)"
  with set_base64_encode [of d] have "x = byt (CHR ''='') \<or> x \<in> set BASE64_CHARS"
    by blast
  moreover have "\<not> byte_is_ascii_whitespace (byt (CHR ''=''))"
    by (simp add: byte_is_ascii_whitespace_def)
  ultimately show ?thesis
    using b64_table_plain by (auto simp: list_all_iff)
qed

lemma base64_groups_encode: "base64_decode_groups (base64_encode_bytes d) = Some d"
  by (induction d rule: base64_encode_bytes.induct) (simp_all add: Let_def)

lemma nibble_bounds: "unat (drop_bit 4 b) < 16" "unat (b AND 0xF) < 16" for b :: u8
proof -
  have "b AND 0xF \<le> 0xF"
    by (rule word_and_le1)
  then show "unat (b AND 0xF) < 16" by (simp add: word_le_nat_alt)
  have "unat b < 256"
    using unsigned_less [of b] by simp
  then show "unat (drop_bit 4 b) < 16"
    by (simp add: drop_bit_eq_div unat_div)
qed

lemma nibbles_join: "push_bit 4 (drop_bit 4 b) OR (b AND 0xF) = b" for b :: u8
  by (rule u8_eqI) (simp_all add: bit_simps)

lemma hex_digit_tables [simp]:
  "hex_digit (HEX_LOWER ! unat (drop_bit 4 b)) = Some (drop_bit 4 b)"
  "hex_digit (HEX_LOWER ! unat (b AND 0xF)) = Some (b AND 0xF)"
  "hex_digit (HEX_UPPER ! unat (drop_bit 4 b)) = Some (drop_bit 4 b)"
  "hex_digit (HEX_UPPER ! unat (b AND 0xF)) = Some (b AND 0xF)"
  using map_nth_eq [OF hex_lower_table nibble_bounds(1)] map_nth_eq [OF hex_lower_table nibble_bounds(2)]
    map_nth_eq [OF hex_upper_table nibble_bounds(1)] map_nth_eq [OF hex_upper_table nibble_bounds(2)]
  by simp_all

subsection \<open>Properties\<close>

text \<open>
  C40: base64 decodes what it encodes, and the encoding has the standard length, four characters
  for every three bytes begun.
\<close>

theorem base64_roundtrip:
  "base64_decode_bytes (base64_encode_bytes d) = Some d \<and>
   length (base64_encode_bytes d) = 4 * ((length d + 2) div 3)"
proof -
  have "filter (\<lambda>b. \<not> byte_is_ascii_whitespace b) (base64_encode_bytes d) = base64_encode_bytes d"
    by (simp add: filter_id_conv base64_encode_no_whitespace)
  then show ?thesis
    by (simp add: base64_decode_bytes_def length_base64_encode base64_groups_encode)
qed

lemma hex_pairs_encode: "hex_decode_pairs (hex_encode_bytes d) = Some d"
  by (induction d) (simp_all add: hex_encode_bytes_def fmt_02x_def nibbles_join)

lemma length_hex_encode: "length (hex_encode_bytes d) = 2 * length d"
  by (induction d) (simp_all add: hex_encode_bytes_def fmt_02x_def)

text \<open>Hexadecimal decodes what it encodes, two digits for every byte.\<close>

theorem hex_roundtrip:
  "hex_decode_bytes (hex_encode_bytes d) = Some d \<and> length (hex_encode_bytes d) = 2 * length d"
  by (simp add: hex_decode_bytes_def hex_pairs_encode length_hex_encode)

lemma url_decode_plain:
  "b \<noteq> byt (CHR ''%'') \<Longrightarrow> url_decode_bytes (b # bs) = url_plain b # url_decode_bytes bs"
  by (cases bs rule: remdups_adj.cases) auto

lemma hex_upper_unreserved: "n < 16 \<Longrightarrow> is_url_unreserved (HEX_UPPER ! n)"
proof -
  have "list_all is_url_unreserved HEX_UPPER"
    by (simp add: HEX_UPPER_eq is_url_unreserved_def byte_is_alphanumeric_def)
  moreover have "length HEX_UPPER = 16"
    by (simp add: HEX_UPPER_eq)
  moreover assume "n < 16"
  ultimately show ?thesis
    by (simp add: list_all_length)
qed

lemma set_url_encode:
  "set (url_encode_bytes d) \<subseteq> insert (byt (CHR ''%'')) {b. is_url_unreserved b}"
  by (induction d) (auto intro: hex_upper_unreserved nibble_bounds)

lemma url_decode_encode: "url_decode_bytes (url_encode_bytes d) = d"
proof (induction d)
  case (Cons b d)
  show ?case
  proof (cases "is_url_unreserved b")
    case True
    then have "b \<noteq> byt (CHR ''%'')" "b \<noteq> byt (CHR ''+'')"
      by (auto simp: is_url_unreserved_def byte_is_alphanumeric_def)
    with True Cons show ?thesis
      by (simp add: url_decode_plain url_plain_def)
  next
    case False
    with Cons show ?thesis by (simp add: nibbles_join)
  qed
qed simp

text \<open>
  Percent encoding is undone by the decoder for every byte string, the plus sign and the
  percent sign included, and the encoded text uses unreserved characters and percent signs only.
\<close>

theorem url_roundtrip:
  "url_decode_bytes (url_encode_bytes d) = d \<and>
   set (url_encode_bytes d) \<subseteq> insert (byt (CHR ''%'')) {b. is_url_unreserved b}"
  by (intro conjI url_decode_encode set_url_encode)

end
