(* ===== verification/Utf8.thy ===== *)
theory Utf8
  imports Coral_Prelude
begin

text \<open>
  UTF-8 as the store uses it: a Rust \<open>String\<close> is a byte string that satisfies \<open>valid_utf8\<close>,
  \<open>as_bytes\<close> is the identity, and \<open>String::from_utf8_lossy\<close> copies every well-formed
  sequence and replaces each ill-formed prefix by U+FFFD. The step is the standard library's
  (\<open>core::str::lossy\<close>): well-formedness by first byte, and the number of bytes consumed.
\<close>

definition utf8_char_width :: "u8 \<Rightarrow> nat" where
  "utf8_char_width b = (if b < 0x80 then 1 else if b < 0xC2 then 0 else if b < 0xE0 then 2
     else if b < 0xF0 then 3 else if b < 0xF5 then 4 else 0)"

text \<open>\<open>safe_get\<close> reads 0 past the end, which is no continuation byte.\<close>

definition safe_get :: "bytes \<Rightarrow> nat \<Rightarrow> u8" where
  "safe_get bs i = (if i < length bs then bs ! i else 0)"

definition is_cont :: "u8 \<Rightarrow> bool" where
  "is_cont b \<longleftrightarrow> b AND 192 = 128"

definition second_ok3 :: "u8 \<Rightarrow> u8 \<Rightarrow> bool" where
  "second_ok3 b c \<longleftrightarrow> (b = 0xE0 \<and> 0xA0 \<le> c \<and> c \<le> 0xBF) \<or>
     (0xE1 \<le> b \<and> b \<le> 0xEC \<and> 0x80 \<le> c \<and> c \<le> 0xBF) \<or>
     (b = 0xED \<and> 0x80 \<le> c \<and> c \<le> 0x9F) \<or>
     (0xEE \<le> b \<and> b \<le> 0xEF \<and> 0x80 \<le> c \<and> c \<le> 0xBF)"

definition second_ok4 :: "u8 \<Rightarrow> u8 \<Rightarrow> bool" where
  "second_ok4 b c \<longleftrightarrow> (b = 0xF0 \<and> 0x90 \<le> c \<and> c \<le> 0xBF) \<or>
     (0xF1 \<le> b \<and> b \<le> 0xF3 \<and> 0x80 \<le> c \<and> c \<le> 0xBF) \<or>
     (b = 0xF4 \<and> 0x80 \<le> c \<and> c \<le> 0x8F)"

text \<open>Whether the sequence at the front is well formed, and how many bytes it takes.\<close>

definition utf8_step :: "bytes \<Rightarrow> bool \<times> nat" where
  "utf8_step bs = (let b = safe_get bs 0; w = utf8_char_width b in
     if w = 1 then (True, 1)
     else if w = 2 then (if is_cont (safe_get bs 1) then (True, 2) else (False, 1))
     else if w = 3 then
       (if \<not> second_ok3 b (safe_get bs 1) then (False, 1)
        else if is_cont (safe_get bs 2) then (True, 3) else (False, 2))
     else if w = 4 then
       (if \<not> second_ok4 b (safe_get bs 1) then (False, 1)
        else if \<not> is_cont (safe_get bs 2) then (False, 2)
        else if is_cont (safe_get bs 3) then (True, 4) else (False, 3))
     else (False, 1))"

lemma utf8_step_pos: "0 < snd (utf8_step bs)"
  by (auto simp: utf8_step_def Let_def)

lemma utf8_step_shrinks: "(ok, k) = utf8_step bs \<Longrightarrow> bs \<noteq> [] \<Longrightarrow> length bs - k < length bs"
  using utf8_step_pos [of bs] by (cases bs) (auto dest: arg_cong [of _ _ snd])

definition REPLACEMENT :: bytes where
  "REPLACEMENT = [0xEF, 0xBF, 0xBD]"

function from_utf8_lossy :: "bytes \<Rightarrow> bytes" where
  "from_utf8_lossy bs =
     (if bs = [] then []
      else (case utf8_step bs of (ok, k) \<Rightarrow>
        (if ok then take k bs else REPLACEMENT) @ from_utf8_lossy (drop k bs)))"
  by pat_completeness auto
termination
  by (relation "measure length") (auto dest: utf8_step_shrinks)

function valid_utf8 :: "bytes \<Rightarrow> bool" where
  "valid_utf8 bs =
     (if bs = [] then True
      else (case utf8_step bs of (ok, k) \<Rightarrow> ok \<and> valid_utf8 (drop k bs)))"
  by pat_completeness auto
termination
  by (relation "measure length") (auto dest: utf8_step_shrinks)

declare from_utf8_lossy.simps [simp del] valid_utf8.simps [simp del]

lemma valid_utf8_Nil [simp]: "valid_utf8 []"
  by (subst valid_utf8.simps) simp

lemma from_utf8_lossy_Nil [simp]: "from_utf8_lossy [] = []"
  by (subst from_utf8_lossy.simps) simp

lemma from_utf8_lossy_valid: "valid_utf8 bs \<Longrightarrow> from_utf8_lossy bs = bs"
proof (induction bs rule: valid_utf8.induct)
  case (1 bs)
  show ?case
  proof (cases "bs = []")
    case False
    obtain ok k where s: "utf8_step bs = (ok, k)" by fastforce
    with 1 False have "ok" "from_utf8_lossy (drop k bs) = drop k bs"
      by (auto simp: valid_utf8.simps [of bs])
    with s False show ?thesis
      by (simp add: from_utf8_lossy.simps [of bs])
  qed simp
qed

lemma valid_utf8_ascii: "list_all (\<lambda>b. b < 0x80) bs \<Longrightarrow> valid_utf8 bs"
proof (induction bs)
  case (Cons b bs)
  then show ?case
    by (subst valid_utf8.simps) (simp add: utf8_step_def safe_get_def utf8_char_width_def)
qed simp

subsection \<open>Characters of a string\<close>

text \<open>\<open>char::encode_utf8\<close>.\<close>

definition encode_utf8 :: "rchar \<Rightarrow> bytes" where
  "encode_utf8 c =
     (if c < 0x80 then [of_nat c]
      else if c < 0x800 then [of_nat (0xC0 + c div 64), of_nat (0x80 + c mod 64)]
      else if c < 0x10000 then
        [of_nat (0xE0 + c div 4096), of_nat (0x80 + c div 64 mod 64), of_nat (0x80 + c mod 64)]
      else [of_nat (0xF0 + c div 262144), of_nat (0x80 + c div 4096 mod 64),
        of_nat (0x80 + c div 64 mod 64), of_nat (0x80 + c mod 64)])"

lemma length_encode_utf8: "length (encode_utf8 c) = len_utf8 c"
  by (simp add: encode_utf8_def len_utf8_def)

text \<open>\<open>char::from_u32\<close>: no surrogates, nothing above U+10FFFF.\<close>

definition is_scalar :: "nat \<Rightarrow> bool" where
  "is_scalar c \<longleftrightarrow> c < 0xD800 \<or> (0xE000 \<le> c \<and> c < 0x110000)"

definition utf8_encode :: "rstr \<Rightarrow> bytes" where
  "utf8_encode s = concat (map encode_utf8 s)"

text \<open>\<open>str::chars\<close> of a well-formed string.\<close>

fun utf8_chars :: "bytes \<Rightarrow> rstr" where
  "utf8_chars [] = []"
| "utf8_chars (a # bs) =
     (if a < 0x80 then unat a # utf8_chars bs
      else (case bs of [] \<Rightarrow> []
        | b # bs1 \<Rightarrow>
            if a < 0xE0 then (unat a mod 32 * 64 + unat b mod 64) # utf8_chars bs1
            else (case bs1 of [] \<Rightarrow> []
              | c # bs2 \<Rightarrow>
                  if a < 0xF0 then (unat a mod 16 * 4096 + unat b mod 64 * 64 + unat c mod 64) # utf8_chars bs2
                  else (case bs2 of [] \<Rightarrow> []
                    | d # bs3 \<Rightarrow> (unat a mod 8 * 262144 + unat b mod 64 * 4096 + unat c mod 64 * 64 +
                        unat d mod 64) # utf8_chars bs3))))"

lemma unat_byte: "n < 256 \<Longrightarrow> unat (of_nat n :: u8) = n"
  by (simp add: unat_of_nat take_bit_eq_mod)

lemma byte_less: "n < 256 \<Longrightarrow> k < 256 \<Longrightarrow> (of_nat n :: u8) < of_nat k \<longleftrightarrow> n < k"
  by (simp add: word_less_nat_alt unat_byte)

lemma utf8_lead_mods:
  "(0xC0 + q) mod 32 = q mod (32 :: nat)" "(0xE0 + q) mod 16 = q mod (16 :: nat)"
  "(0xF0 + q) mod 8 = q mod (8 :: nat)" "(0x80 + q) mod 64 = q mod (64 :: nat)"
  using mod_mult_self1 [of q 6 32] mod_mult_self1 [of q 14 16] mod_mult_self1 [of q 30 8] mod_mult_self1 [of q 2 64]
  by (simp_all add: add.commute)

lemma split_64:
  "c = 64 * (c div 64) + c mod (64 :: nat)" "c div 64 = 64 * (c div 4096) + c div 64 mod (64 :: nat)"
  "c div 4096 = 64 * (c div 262144) + c div 4096 mod (64 :: nat)"
  using div_mult2_eq [of c 64 64] div_mult2_eq [of c 4096 64] by simp_all

lemma utf8_chars_encode: "c < 0x110000 \<Longrightarrow> utf8_chars (encode_utf8 c @ bs) = c # utf8_chars bs"
proof -
  assume c: "c < 0x110000"
  have b: "(of_nat n :: u8) < 0x80 \<longleftrightarrow> n < 0x80" "(of_nat n :: u8) < 0xE0 \<longleftrightarrow> n < 0xE0"
    "(of_nat n :: u8) < 0xF0 \<longleftrightarrow> n < 0xF0" if "n < 256" for n
    using that byte_less [of n "0x80"] byte_less [of n "0xE0"] byte_less [of n "0xF0"] by simp_all
  consider "c < 0x80" | "0x80 \<le> c" "c < 0x800" | "0x800 \<le> c" "c < 0x10000" | "0x10000 \<le> c" by linarith
  then show ?thesis
  proof cases
    case 1
    then show ?thesis by (simp add: encode_utf8_def b unat_byte)
  next
    case 2
    define q r where q_def: "q = c div 64" and r_def: "r = c mod 64"
    have "q * 64 + r = c" "r < 64" "q < 32" "2 \<le> q" using 2 split_64(1) [of c] unfolding q_def r_def by linarith+
    then show ?thesis using 2
      by (simp only: encode_utf8_def q_def [symmetric] r_def [symmetric]) (simp add: b unat_byte utf8_lead_mods del: of_nat_add)
  next
    case 3
    define q r s where q_def: "q = c div 4096" and r_def: "r = c div 64 mod 64" and s_def: "s = c mod 64"
    have "q * 4096 + r * 64 + s = c" "r < 64" "q < 16" "s < 64" using 3 split_64(1,2) [of c] unfolding q_def r_def s_def by linarith+
    then show ?thesis using 3
      by (simp only: encode_utf8_def q_def [symmetric] r_def [symmetric] s_def [symmetric]) (simp add: b unat_byte utf8_lead_mods del: of_nat_add)
  next
    case 4
    define p q r s where p_def: "p = c div 262144" and q_def: "q = c div 4096 mod 64" and r_def: "r = c div 64 mod 64" and s_def: "s = c mod 64"
    have "p * 262144 + q * 4096 + r * 64 + s = c" "r < 64" "q < 64" "s < 64" "p < 8" using c 4 split_64 [of c] unfolding p_def q_def r_def s_def by linarith+
    then show ?thesis using 4
      by (simp only: encode_utf8_def p_def [symmetric] q_def [symmetric] r_def [symmetric] s_def [symmetric]) (simp add: b unat_byte utf8_lead_mods del: of_nat_add)
  qed
qed

lemma utf8_chars_utf8_encode: "\<forall>c \<in> set s. c < 0x110000 \<Longrightarrow> utf8_chars (utf8_encode s) = s"
  by (induction s) (simp_all add: utf8_encode_def utf8_chars_encode)

lemma length_utf8_encode: "length (utf8_encode s) = utf8_len s"
  by (induction s) (simp_all add: utf8_encode_def length_encode_utf8)

subsection \<open>Well-formed strings are the encodings of characters\<close>

lemmas byte_nat = word_less_nat_alt word_le_nat_alt word_unat_eq_iff

lemma is_cont_nat: "is_cont b \<longleftrightarrow> 128 \<le> unat b \<and> unat b < 192"
proof -
  have "is_cont b \<longleftrightarrow> drop_bit 6 b = 2"
  proof
    assume h: "is_cont b"
    show "drop_bit 6 b = 2"
    proof (rule u8_eqI)
      have "bit (b AND 192) n \<longleftrightarrow> bit (128 :: u8) n" for n
        using h by (simp add: is_cont_def)
      from this [of 6] this [of 7]
      show "bit (drop_bit 6 b) 0 = bit (2 :: u8) 0" "bit (drop_bit 6 b) 1 = bit (2 :: u8) 1"
        by (simp_all add: bit_simps)
    qed (simp_all add: bit_simps)
  next
    assume h: "drop_bit 6 b = 2"
    have "bit (drop_bit 6 b) n \<longleftrightarrow> bit (2 :: u8) n" for n
      using h by simp
    from this [of 0] this [of 1] show "is_cont b"
      unfolding is_cont_def by (intro u8_eqI) (simp_all add: bit_simps)
  qed
  also have "\<dots> \<longleftrightarrow> unat b div 64 = 2"
    by (simp add: word_unat_eq_iff unat_drop_bit_eq drop_bit_eq_div unat_div)
  also have "\<dots> \<longleftrightarrow> 128 \<le> unat b \<and> unat b < 192"
    by auto
  finally show ?thesis .
qed

lemma utf8_char_width_nat:
  "utf8_char_width b = (if unat b < 128 then 1 else if unat b < 194 then 0 else if unat b < 224 then 2
     else if unat b < 240 then 3 else if unat b < 245 then 4 else 0)"
  by (simp add: utf8_char_width_def byte_nat)

lemma second_ok3_nat:
  "second_ok3 b c \<longleftrightarrow> 224 \<le> unat b \<and> unat b < 240 \<and> 128 \<le> unat c \<and> unat c < 192 \<and>
     (unat b = 224 \<longrightarrow> 160 \<le> unat c) \<and> (unat b = 237 \<longrightarrow> unat c < 160)"
  by (auto simp: second_ok3_def byte_nat)

lemma second_ok4_nat:
  "second_ok4 b c \<longleftrightarrow> 240 \<le> unat b \<and> unat b < 245 \<and> 128 \<le> unat c \<and> unat c < 192 \<and>
     (unat b = 240 \<longrightarrow> 144 \<le> unat c) \<and> (unat b = 244 \<longrightarrow> unat c < 144)"
  by (auto simp: second_ok4_def byte_nat)

lemmas utf8_nat = is_cont_nat utf8_char_width_nat second_ok3_nat second_ok4_nat

lemma utf8_step_encode:
  assumes "is_scalar c"
  shows "utf8_step (encode_utf8 c @ bs) = (True, len_utf8 c)"
proof -
  consider "c < 0x80" | "0x80 \<le> c" "c < 0x800" | "0x800 \<le> c" "c < 0x10000" | "0x10000 \<le> c" by linarith
  then show ?thesis
  proof cases
    case 1
    then show ?thesis
      by (simp add: utf8_step_def encode_utf8_def safe_get_def utf8_nat unat_byte)
  next
    case 2
    define q r where q_def: "q = c div 64" and r_def: "r = c mod 64"
    have "q * 64 + r = c" "r < 64" "q < 32" "2 \<le> q"
      using 2 split_64(1) [of c] unfolding q_def r_def by linarith+
    then show ?thesis using 2
      by (simp only: encode_utf8_def len_utf8_def q_def [symmetric] r_def [symmetric])
        (simp add: utf8_step_def safe_get_def utf8_nat unat_byte del: of_nat_add)
  next
    case 3
    define q r s where q_def: "q = c div 4096" and r_def: "r = c div 64 mod 64" and s_def: "s = c mod 64"
    have *: "q * 4096 + r * 64 + s = c" "r < 64" "q < 16" "s < 64"
      using 3 split_64(1,2) [of c] unfolding q_def r_def s_def by linarith+
    have "q = 0 \<longrightarrow> 32 \<le> r" "q = 13 \<longrightarrow> r < 32"
      using * 3 assms unfolding is_scalar_def by linarith+
    with * 3 show ?thesis
      by (simp only: encode_utf8_def len_utf8_def q_def [symmetric] r_def [symmetric] s_def [symmetric])
        (simp add: utf8_step_def safe_get_def utf8_nat unat_byte del: of_nat_add)
  next
    case 4
    define p q r s where p_def: "p = c div 262144" and q_def: "q = c div 4096 mod 64"
      and r_def: "r = c div 64 mod 64" and s_def: "s = c mod 64"
    have *: "p * 262144 + q * 4096 + r * 64 + s = c" "r < 64" "q < 64" "s < 64" "p < 5"
      using assms 4 split_64 [of c] unfolding p_def q_def r_def s_def is_scalar_def by linarith+
    have "p = 0 \<longrightarrow> 16 \<le> q" "p = 4 \<longrightarrow> q < 16"
      using * 4 assms unfolding is_scalar_def by linarith+
    with * 4 show ?thesis
      by (simp only: encode_utf8_def len_utf8_def p_def [symmetric] q_def [symmetric] r_def [symmetric] s_def [symmetric])
        (simp add: utf8_step_def safe_get_def utf8_nat unat_byte del: of_nat_add)
  qed
qed

lemma encode_utf8_ne [simp]: "encode_utf8 c \<noteq> []"
  by (simp add: encode_utf8_def)

lemma valid_utf8_encode_append: "is_scalar c \<Longrightarrow> valid_utf8 (encode_utf8 c @ bs) \<longleftrightarrow> valid_utf8 bs"
  by (subst valid_utf8.simps) (simp add: utf8_step_encode length_encode_utf8 [symmetric])

lemma valid_utf8_encode: "list_all is_scalar s \<Longrightarrow> valid_utf8 (utf8_encode s)"
  by (induction s) (simp_all add: utf8_encode_def valid_utf8_encode_append)

lemma join_64: "s < 64 \<Longrightarrow> (x * 64 + s) div 64 = x \<and> (x * 64 + s) mod 64 = (s :: nat)"
  by simp

lemma utf8_step_inv:
  assumes "utf8_step bs = (True, k)" "bs \<noteq> []"
  shows "\<exists>c. is_scalar c \<and> take k bs = encode_utf8 c"
proof -
  obtain a bs1 where bs: "bs = a # bs1" using assms(2) by (cases bs) auto
  have of: "of_nat (unat w) = w" for w :: u8 by simp
  consider "k = 1" "unat a < 128" | "k = 2" "unat a < 224" "194 \<le> unat a" "is_cont (safe_get bs 1)"
    | "k = 3" "224 \<le> unat a" "unat a < 240" "second_ok3 a (safe_get bs 1)" "is_cont (safe_get bs 2)"
    | "k = 4" "240 \<le> unat a" "unat a < 245" "second_ok4 a (safe_get bs 1)" "is_cont (safe_get bs 2)" "is_cont (safe_get bs 3)"
    using assms(1) by (auto simp: bs utf8_step_def Let_def safe_get_def utf8_char_width_nat split: if_splits)
  then show ?thesis
  proof cases
    case 1
    then show ?thesis
      by (intro exI [of _ "unat a"]) (simp add: bs encode_utf8_def is_scalar_def)
  next
    case 2
    then obtain b bs2 where b: "bs1 = b # bs2" "128 \<le> unat b" "unat b < 192"
      by (cases bs1) (auto simp: bs safe_get_def is_cont_nat split: if_splits)
    define q r where "q = unat a - 192" and "r = unat b - 128"
    then have qr: "unat a = 192 + q" "unat b = 128 + r" "q < 32" "2 \<le> q" "r < 64" using 2 b by auto
    have "encode_utf8 (q * 64 + r) = [of_nat (unat a), of_nat (unat b)]"
      unfolding qr(1,2) encode_utf8_def using qr(3-) by (simp del: of_nat_add)
    with 2 b qr(3-) show ?thesis
      by (intro exI [of _ "q * 64 + r"]) (simp add: bs is_scalar_def)
  next
    case 3
    then obtain b c bs3 where b: "bs1 = b # c # bs3" "128 \<le> unat b" "unat b < 192" "128 \<le> unat c" "unat c < 192"
      "unat a = 224 \<longrightarrow> 160 \<le> unat b" "unat a = 237 \<longrightarrow> unat b < 160"
      by (cases bs1; cases "tl bs1") (auto simp: bs safe_get_def is_cont_nat second_ok3_nat split: if_splits)
    define q r s where "q = unat a - 224" and "r = unat b - 128" and "s = unat c - 128"
    then have qr: "unat a = 224 + q" "unat b = 128 + r" "unat c = 128 + s" and
      l: "q < 16" "r < 64" "s < 64" "q = 0 \<longrightarrow> 32 \<le> r" "q = 13 \<longrightarrow> r < 32" using 3 b by auto
    define n where "n = q * 4096 + r * 64 + s"
    have n: "n div 4096 = q" "n div 64 mod 64 = r" "n mod 64 = s"
    proof -
      have "n = (q * 64 + r) * 64 + s" by (simp add: n_def)
      then have "n div 64 = q * 64 + r" "n mod 64 = s" by (simp_all only: join_64 [OF l(3)])
      then show "n div 4096 = q" "n div 64 mod 64 = r" "n mod 64 = s"
        using join_64 [OF l(2)] div_mult2_eq [of n 64 64] by simp_all
    qed
    have lim: "2048 \<le> n" "n < 65536" "is_scalar n"
    proof -
      show "2048 \<le> n" "n < 65536"
        using l by (auto simp: n_def)
      consider "q < 13" | "q = 13" | "13 < q" by linarith
      then show "is_scalar n"
        unfolding is_scalar_def n_def using l by cases auto
    qed
    have "encode_utf8 n = [of_nat (unat a), of_nat (unat b), of_nat (unat c)]"
      unfolding qr encode_utf8_def n using lim by simp
    with 3 b lim show ?thesis by (intro exI [of _ n]) (simp add: bs)
  next
    case 4
    then obtain b c d bs4 where b: "bs1 = b # c # d # bs4" "128 \<le> unat b" "unat b < 192" "128 \<le> unat c" "unat c < 192"
      "128 \<le> unat d" "unat d < 192" "unat a = 240 \<longrightarrow> 144 \<le> unat b" "unat a = 244 \<longrightarrow> unat b < 144"
      by (cases bs1; cases "tl bs1"; cases "tl (tl bs1)") (auto simp: bs safe_get_def is_cont_nat second_ok4_nat split: if_splits)
    define p q r s where "p = unat a - 240" and "q = unat b - 128" and "r = unat c - 128" and "s = unat d - 128"
    then have qr: "unat a = 240 + p" "unat b = 128 + q" "unat c = 128 + r" "unat d = 128 + s" and
      l: "p < 5" "q < 64" "r < 64" "s < 64" "p = 0 \<longrightarrow> 16 \<le> q" "p = 4 \<longrightarrow> q < 16" using 4 b by auto
    define n where "n = p * 262144 + q * 4096 + r * 64 + s"
    have n: "n div 262144 = p" "n div 4096 mod 64 = q" "n div 64 mod 64 = r" "n mod 64 = s"
    proof -
      define x where "x = p * 64 + q"
      have "n = (x * 64 + r) * 64 + s" by (simp add: n_def x_def)
      then have "n div 64 = x * 64 + r" "n mod 64 = s" by (simp_all only: join_64 [OF l(4)])
      moreover from this have "n div 4096 = x" "n div 64 mod 64 = r"
        using join_64 [OF l(3), of x] div_mult2_eq [of n 64 64] by simp_all
      moreover have "x div 64 = p" "x mod 64 = q"
        using join_64 [OF l(2), of p] by (simp_all add: x_def)
      ultimately show "n div 262144 = p" "n div 4096 mod 64 = q" "n div 64 mod 64 = r" "n mod 64 = s"
        using div_mult2_eq [of n 4096 64] by simp_all
    qed
    have lim: "65536 \<le> n" "is_scalar n"
      using l by (auto simp: n_def is_scalar_def)
    have "encode_utf8 n = [of_nat (unat a), of_nat (unat b), of_nat (unat c), of_nat (unat d)]"
      unfolding qr encode_utf8_def n using lim by simp
    with 4 b lim show ?thesis by (intro exI [of _ n]) (simp add: bs)
  qed
qed

lemma valid_utf8_text:
  "valid_utf8 bs \<Longrightarrow> utf8_encode (utf8_chars bs) = bs \<and> list_all is_scalar (utf8_chars bs)"
proof (induction bs rule: valid_utf8.induct)
  case (1 bs)
  show ?case
  proof (cases "bs = []")
    case False
    obtain k where k: "utf8_step bs = (True, k)" "valid_utf8 (drop k bs)"
      using 1(2) False by (auto simp: valid_utf8.simps [of bs] split: prod.splits)
    then obtain c where c: "is_scalar c" "take k bs = encode_utf8 c"
      using utf8_step_inv False by blast
    then have bs: "bs = encode_utf8 c @ drop k bs"
      by (metis append_take_drop_id)
    have "utf8_chars bs = c # utf8_chars (drop k bs)"
      using c(1) utf8_chars_encode [of c "drop k bs"] by (subst bs) (auto simp: is_scalar_def)
    moreover have "utf8_encode (utf8_chars (drop k bs)) = drop k bs" "list_all is_scalar (utf8_chars (drop k bs))"
      using 1(1) [OF False k(1) [symmetric] k(2)] by auto
    ultimately show ?thesis
      using bs c(1) by (simp add: utf8_encode_def)
  qed (simp add: utf8_encode_def)
qed

end
