(* ===== verification/Store_Base.thy ===== *)
theory Store_Base
  imports Utf8
begin

text \<open>
  What the files of \<open>runtime/src/store\<close> share (\<open>store/mod.rs\<close>): I/O errors, the magic
  numbers and versions of the file formats, the one-byte tags of stored values and of log entries,
  and the CRC-32 checksum that \<open>binary.rs\<close> and \<open>wal.rs\<close> both define.
\<close>

subsection \<open>Errors\<close>

text \<open>An \<open>io::Error\<close> by its kind and message.\<close>

datatype io_kind = NotFound | AlreadyExists | InvalidInput | InvalidData | UnexpectedEof

type_synonym io_error = "io_kind \<times> string"
type_synonym 'a io = "(io_error, 'a) outcome"

definition hex_char :: "nat \<Rightarrow> char" where
  "hex_char n = ''0123456789abcdef'' ! n"

text \<open>\<open>{:02x}\<close> of a byte.\<close>

definition show_02x :: "u8 \<Rightarrow> string" where
  "show_02x b = [hex_char (unat b div 16), hex_char (unat b mod 16)]"

subsection \<open>File formats\<close>

definition INDEX_MAGIC :: bytes where "INDEX_MAGIC = bstr ''CORALIDX''"
definition BINARY_MAGIC :: bytes where "BINARY_MAGIC = bstr ''CORALBIN''"
definition WAL_MAGIC :: bytes where "WAL_MAGIC = bstr ''CORALWAL''"

definition INDEX_VERSION :: u32 where "INDEX_VERSION = 1"
definition BINARY_VERSION :: u32 where "BINARY_VERSION = 1"
definition WAL_VERSION :: u32 where "WAL_VERSION = 1"

lemma magic_lengths [simp, codec_simps]:
  "length INDEX_MAGIC = 8" "length BINARY_MAGIC = 8" "length WAL_MAGIC = 8"
  by (simp_all add: INDEX_MAGIC_def BINARY_MAGIC_def WAL_MAGIC_def bstr_def)

subsection \<open>Tags\<close>

datatype value_tag =
    TagUnit | TagBool | TagInt | TagFloat | TagString | TagBytes | TagList | TagMap | TagNone
  | TagReference

fun value_tag_byte :: "value_tag \<Rightarrow> u8" where
  "value_tag_byte TagUnit = 0x00"
| "value_tag_byte TagBool = 0x01"
| "value_tag_byte TagInt = 0x02"
| "value_tag_byte TagFloat = 0x03"
| "value_tag_byte TagString = 0x04"
| "value_tag_byte TagBytes = 0x05"
| "value_tag_byte TagList = 0x06"
| "value_tag_byte TagMap = 0x07"
| "value_tag_byte TagNone = 0x08"
| "value_tag_byte TagReference = 0xFF"

definition value_tag_try_from :: "u8 \<Rightarrow> value_tag io" where
  "value_tag_try_from v =
     (if v = 0x00 then Ok TagUnit else if v = 0x01 then Ok TagBool
      else if v = 0x02 then Ok TagInt else if v = 0x03 then Ok TagFloat
      else if v = 0x04 then Ok TagString else if v = 0x05 then Ok TagBytes
      else if v = 0x06 then Ok TagList else if v = 0x07 then Ok TagMap
      else if v = 0x08 then Ok TagNone else if v = 0xFF then Ok TagReference
      else Err (InvalidData, ''unknown value tag: 0x'' @ show_02x v))"

lemma value_tag_roundtrip [simp]: "value_tag_try_from (value_tag_byte t) = Ok t"
  by (cases t) (simp_all add: value_tag_try_from_def)

datatype wal_op = OpInsert | OpUpdate | OpDelete | OpCommit | OpCheckpoint

fun wal_op_byte :: "wal_op \<Rightarrow> u8" where
  "wal_op_byte OpInsert = 0x01"
| "wal_op_byte OpUpdate = 0x02"
| "wal_op_byte OpDelete = 0x03"
| "wal_op_byte OpCommit = 0x10"
| "wal_op_byte OpCheckpoint = 0x20"

definition wal_op_try_from :: "u8 \<Rightarrow> wal_op io" where
  "wal_op_try_from v =
     (if v = 0x01 then Ok OpInsert else if v = 0x02 then Ok OpUpdate
      else if v = 0x03 then Ok OpDelete else if v = 0x10 then Ok OpCommit
      else if v = 0x20 then Ok OpCheckpoint
      else Err (InvalidData, ''unknown WAL entry type: 0x'' @ show_02x v))"

lemma wal_op_roundtrip [simp]: "wal_op_try_from (wal_op_byte t) = Ok t"
  by (cases t) (simp_all add: wal_op_try_from_def)

text \<open>The index flags.\<close>

definition FLAG_ACTIVE :: u16 where "FLAG_ACTIVE = 0x0000"
definition FLAG_DELETED :: u16 where "FLAG_DELETED = 0x0001"
definition FLAG_SOFT_DELETED :: u16 where "FLAG_SOFT_DELETED = 0x0002"
definition FLAG_COMPRESSED :: u16 where "FLAG_COMPRESSED = 0x0004"

subsection \<open>CRC-32\<close>

text \<open>One turn of the inner loop, the eight turns for a byte, and the loop over the data.\<close>

definition crc_turn :: "u32 \<Rightarrow> u32" where
  "crc_turn crc = (if crc AND 1 \<noteq> 0 then drop_bit 1 crc XOR 0xEDB88320 else drop_bit 1 crc)"

definition crc_byte :: "u32 \<Rightarrow> u8 \<Rightarrow> u32" where
  "crc_byte crc byte = (crc_turn ^^ 8) (crc XOR ucast byte)"

definition crc32 :: "bytes \<Rightarrow> u32" where
  "crc32 data = NOT (foldl crc_byte 0xFFFFFFFF data)"

text \<open>
  The top bit of a turn's result tells which branch was taken, so a turn can be undone; hence a
  change of one byte is never cancelled by the bytes after it.
\<close>

lemma xor_cancel_right [simp]: "a XOR k = b XOR k \<longleftrightarrow> a = b" for a b k :: u32
  by (rule iffI, drule arg_cong [of _ _ "\<lambda>x. x XOR k"]) (simp_all add: xor.assoc)

lemma xor_cancel_left [simp]: "k XOR a = k XOR b \<longleftrightarrow> a = b" for a b k :: u32
  by (simp add: xor.commute [of k])

lemma crc_turn_top: "bit (crc_turn c) 31 \<longleftrightarrow> bit c 0"
proof -
  have "c AND 1 \<noteq> 0 \<longleftrightarrow> bit c 0"
    by (simp add: and_one_eq bit_0 odd_iff_mod_2_eq_one)
  moreover have "\<not> bit (drop_bit 1 c) 31" and "bit (0xEDB88320 :: u32) 31"
    by (auto simp: bit_simps dest: bit_imp_le_length)
  ultimately show ?thesis
    by (simp add: crc_turn_def bit_xor_iff)
qed

lemma inj_crc_turn: "inj crc_turn"
proof (rule injI)
  fix c d :: u32 assume eq: "crc_turn c = crc_turn d"
  have low: "bit c 0 = bit d 0"
    using crc_turn_top [of c] crc_turn_top [of d] eq by simp
  moreover have one: "x AND 1 \<noteq> 0 \<longleftrightarrow> bit x 0" for x :: u32
    by (simp add: and_one_eq bit_0 odd_iff_mod_2_eq_one)
  ultimately have shift: "drop_bit 1 c = drop_bit 1 d"
    using eq by (auto simp: crc_turn_def split: if_splits)
  show "c = d"
  proof (rule bit_word_eqI)
    fix n assume "n < LENGTH(32)"
    show "bit c n = bit d n"
    proof (cases n)
      case 0
      with low show ?thesis by simp
    next
      case (Suc m)
      then show ?thesis
        using arg_cong [OF shift, of "\<lambda>w. bit w m"] by (simp add: bit_simps)
    qed
  qed
qed

lemma inj_crc_turns: "inj (crc_turn ^^ n)"
  by (induction n) (auto simp: inj_def dest: injD [OF inj_crc_turn])

lemma crc_byte_inj_byte: "crc_byte c a = crc_byte c b \<Longrightarrow> a = b"
proof -
  assume "crc_byte c a = crc_byte c b"
  then have "c XOR ucast a = c XOR ucast b"
    unfolding crc_byte_def by (rule injD [OF inj_crc_turns])
  then have "(ucast a :: u32) = ucast b"
    by simp
  moreover have "ucast (ucast x :: u32) = x" for x :: u8
    by (rule bit_word_eqI) (simp add: bit_simps)
  ultimately show "a = b"
    by metis
qed

lemma crc_byte_inj_crc: "crc_byte c a = crc_byte d a \<Longrightarrow> c = d"
  unfolding crc_byte_def by (drule injD [OF inj_crc_turns]) simp

lemma crc_fold_inj: "foldl crc_byte c xs = foldl crc_byte d xs \<Longrightarrow> c = d"
  by (induction xs arbitrary: c d) (auto dest: crc_byte_inj_crc)

lemma crc32_byte_inj: "crc32 (xs @ a # ys) = crc32 (xs @ b # ys) \<Longrightarrow> a = b"
proof -
  assume "crc32 (xs @ a # ys) = crc32 (xs @ b # ys)"
  then have "foldl crc_byte (crc_byte (foldl crc_byte 0xFFFFFFFF xs) a) ys =
      foldl crc_byte (crc_byte (foldl crc_byte 0xFFFFFFFF xs) b) ys"
    by (simp add: crc32_def)
  then show ?thesis
    by (blast dest: crc_fold_inj crc_byte_inj_byte)
qed

text \<open>
  C39: the checksum detects every change confined to one byte: two byte strings that differ in
  exactly one position never have the same CRC-32.
\<close>

theorem crc32_detects_byte_change:
  "crc32 (xs @ a # ys) = crc32 (xs @ b # ys) \<longleftrightarrow> a = b"
  by (blast dest: crc32_byte_inj)

end
