(* ===== verification/Store_Codec.thy ===== *)
theory Store_Codec
  imports Store_Base
begin

text \<open>
  Files and the two contracts of the binary formats. A file is its contents: \<open>write_at\<close> is \<open>seek\<close>
  and \<open>write_all\<close> (a write past the end fills the gap with zeros), \<open>read_exact_at\<close> is \<open>seek\<close> and
  \<open>read_exact\<close>; I/O errors other than those a short file causes are not modelled. A
  \<open>sized_codec\<close> writes a header or an entry of fixed size, which its reader takes back from where it
  was written; a \<open>stream_codec\<close> appends self-delimiting items, which its reader takes back from any
  position of a buffer, one after another.
\<close>

subsection \<open>Files\<close>

definition write_at :: "bytes \<Rightarrow> nat \<Rightarrow> bytes \<Rightarrow> bytes" where
  "write_at file off data =
     take off file @ replicate (off - length file) 0 @ data @ drop (off + length data) file"

definition read_exact_at :: "bytes \<Rightarrow> nat \<Rightarrow> nat \<Rightarrow> bytes io" where
  "read_exact_at file off n =
     (if length file < off + n then Err (UnexpectedEof, ''failed to fill whole buffer'')
      else Ok (slice off (off + n) file))"

lemma length_write_at [simp]: "length (write_at file off data) = max (length file) (off + length data)"
  by (auto simp: write_at_def)

lemma read_exact_at_Ok [outcome_simps]:
  "read_exact_at file off n = Ok d \<longleftrightarrow> off + n \<le> length file \<and> d = slice off (off + n) file"
  by (auto simp: read_exact_at_def)

lemma slice_write_at: "slice off (off + length data) (write_at file off data) = data"
  by (simp add: slice_def write_at_def)

lemma slice_write_at_before: "hi \<le> off \<Longrightarrow> hi \<le> length file \<Longrightarrow> slice lo hi (write_at file off data) = slice lo hi file"
  by (simp add: slice_def write_at_def drop_take min_absorb1)

lemma slice_write_at_after:
  "off + length data \<le> lo \<Longrightarrow> off \<le> length file \<Longrightarrow> slice lo hi (write_at file off data) = slice lo hi file"
  by (simp add: slice_def write_at_def)

subsection \<open>Slices of a buffer\<close>

lemma slice_append: "lo \<le> mid \<Longrightarrow> mid \<le> hi \<Longrightarrow> slice lo mid xs @ slice mid hi xs = slice lo hi xs"
  using take_add [of "mid - lo" "hi - mid" "drop lo xs"] by (simp add: slice_def add.commute)

lemma drop_appendD: "drop n data = xs @ ys \<Longrightarrow> drop (n + length xs) data = ys"
  by (metis add.commute append_eq_conv_conj drop_drop)

lemma drop_ConsD: "drop n data = x # xs \<Longrightarrow> n < length data \<and> data ! n = x \<and> drop (Suc n) data = xs"
  by (metis drop_eq_Nil2 Cons_nth_drop_Suc list.discI list.inject not_le)

lemma drop_slice: "drop n data = xs @ ys \<Longrightarrow> slice n (n + length xs) data = xs"
  by (simp add: slice_def)

lemma drop_len: "drop n data = xs @ ys \<Longrightarrow> n \<le> length data \<Longrightarrow> n + length xs \<le> length data"
  by (drule arg_cong [of _ _ length]) simp

subsection \<open>Fixed-size encodings\<close>

locale sized_codec =
  fixes enc :: "'a \<Rightarrow> bytes" and dec :: "bytes \<Rightarrow> 'a io" and size :: nat and ok :: "'a \<Rightarrow> bool"
  assumes enc_size: "ok x \<Longrightarrow> length (enc x) = size"
    and dec_enc: "ok x \<Longrightarrow> dec (enc x) = Ok x"
begin

lemma read_back:
  assumes "ok x" "slice off (off + size) file = enc x" "off + size \<le> length file"
  shows "obind (read_exact_at file off size) dec = Ok x"
  using assms by (simp add: read_exact_at_def dec_enc)

lemma read_written: "ok x \<Longrightarrow> obind (read_exact_at (write_at file off (enc x)) off size) dec = Ok x"
  using slice_write_at [of off "enc x" "file"] by (intro read_back) (auto simp: enc_size)

lemma enc_inj: "ok x \<Longrightarrow> ok y \<Longrightarrow> enc x = enc y \<longleftrightarrow> x = y"
  by (metis dec_enc outcome.inject(1))

end

subsection \<open>Self-delimiting encodings\<close>

fun read_n :: "(bytes \<Rightarrow> nat \<Rightarrow> ('a \<times> nat) io) \<Rightarrow> bytes \<Rightarrow> nat \<Rightarrow> nat \<Rightarrow> ('a list \<times> nat) io" where
  "read_n dec data 0 pos = Ok ([], pos)"
| "read_n dec data (Suc n) pos = obind (dec data pos) (\<lambda>(x, p).
     omap (\<lambda>(xs, q). (x # xs, q)) (read_n dec data n p))"

locale stream_codec =
  fixes enc :: "'a \<Rightarrow> bytes" and dec :: "bytes \<Rightarrow> nat \<Rightarrow> ('a \<times> nat) io" and ok :: "'a \<Rightarrow> bool"
  assumes dec_at: "ok x \<Longrightarrow> length data < 2 ^ 63 \<Longrightarrow> pos \<le> length data \<Longrightarrow> drop pos data = enc x @ rest \<Longrightarrow>
      dec data pos = Ok (x, pos + length (enc x))"
begin

lemma dec_front: "ok x \<Longrightarrow> length (enc x @ rest) < 2 ^ 63 \<Longrightarrow> dec (enc x @ rest) 0 = Ok (x, length (enc x))"
  using dec_at [of x "enc x @ rest" 0 rest] by simp

lemma read_n_at:
  assumes "\<forall>x \<in> set xs. ok x" "length data < 2 ^ 63" "pos \<le> length data"
    and "drop pos data = concat (map enc xs) @ rest"
  shows "read_n dec data (length xs) pos = Ok (xs, pos + length (concat (map enc xs)))"
  using assms
proof (induction xs arbitrary: pos)
  case (Cons x xs)
  then have d: "drop pos data = enc x @ (concat (map enc xs) @ rest)"
    by simp
  have "read_n dec data (length xs) (pos + length (enc x)) =
      Ok (xs, pos + length (enc x) + length (concat (map enc xs)))"
    using Cons.prems drop_appendD [OF d] drop_len [OF d] by (intro Cons.IH) auto
  with dec_at [OF _ _ _ d] Cons.prems show ?case
    by (simp add: add.assoc)
qed simp

end

end
