(* ===== verification/Store_Value.thy ===== *)
theory Store_Value
  imports Store_Codec
begin

text \<open>
  Stored values and their binary codec (\<open>runtime/src/store/binary.rs\<close>): variable-length
  integers, \<open>StoredValue\<close> with its order, \<open>serialize\<close> and \<open>deserialize\<close>.

  A position is a natural number; the data are shorter than \<open>2^63\<close> bytes, Rust's bound on an
  allocation. A length read from the data is added to the position in \<open>usize\<close>: the sum that
  overflows panics (in a release build the wrapped range is then rejected by the slice). The
  recursion depth of \<open>deserialize\<close> is bounded by the bytes left, which is the fuel.
\<close>

subsection \<open>Variable-length integers\<close>

lemma varint_shift_less: "drop_bit 7 v \<noteq> 0 \<Longrightarrow> unat (drop_bit 7 v) < unat v" for v :: u64
proof -
  assume nz: "drop_bit 7 v \<noteq> 0"
  have "unat (drop_bit 7 v) = unat v div 128"
    by (simp add: drop_bit_eq_div unat_div)
  moreover from nz have "unat (drop_bit 7 v) \<noteq> 0"
    by (simp add: unat_eq_0)
  ultimately show ?thesis
    by simp
qed

function write_varint :: "u64 \<Rightarrow> bytes" where
  "write_varint value =
     (let byte = ucast (value AND 0x7F); value' = drop_bit 7 value in
      if value' \<noteq> 0 then (byte OR 0x80) # write_varint value' else [byte])"
  by pat_completeness auto
termination
  by (relation "measure unat") (auto intro: varint_shift_less)

declare write_varint.simps [simp del]

text \<open>The reading loop over the accumulated value, the shift and the position.\<close>

function read_varint_loop :: "bytes \<Rightarrow> u64 \<Rightarrow> nat \<Rightarrow> nat \<Rightarrow> (u64 \<times> nat) io" where
  "read_varint_loop data value shift pos =
     (if length data \<le> pos then Err (UnexpectedEof, ''truncated varint'')
      else let byte = data ! pos; value' = value OR push_bit shift (ucast (byte AND 0x7F)) in
        if byte AND 0x80 = 0 then Ok (value', Suc pos)
        else if 64 \<le> shift + 7 then Err (InvalidData, ''varint too long'')
        else read_varint_loop data value' (shift + 7) (Suc pos))"
  by pat_completeness auto
termination by (relation "measure (\<lambda>(data, value, shift, pos). length data - pos)") auto

declare read_varint_loop.simps [simp del]

definition read_varint :: "bytes \<Rightarrow> nat \<Rightarrow> (u64 \<times> nat) io" where
  "read_varint data pos = read_varint_loop data 0 0 pos"

subsection \<open>Stored values\<close>

text \<open>A 64-bit integer and a double are their bits; a string is its UTF-8 bytes.\<close>

datatype stored_value =
    SUnit
  | SNone
  | SBool bool
  | SInt u64
  | SFloat u64
  | SString bytes
  | SBytes bytes
  | SList "stored_value list"
  | SMap "(bytes \<times> stored_value) list"

datatype ordering = Less | Equal | Greater

definition cmp_of :: "('a :: linorder) \<Rightarrow> 'a \<Rightarrow> ordering" where
  "cmp_of a b = (if a < b then Less else if a = b then Equal else Greater)"

text \<open>Lexicographic comparison of byte strings.\<close>

fun bytes_cmp :: "bytes \<Rightarrow> bytes \<Rightarrow> ordering" where
  "bytes_cmp [] [] = Equal"
| "bytes_cmp [] (_ # _) = Less"
| "bytes_cmp (_ # _) [] = Greater"
| "bytes_cmp (a # as) (b # bs) = (if a < b then Less else if b < a then Greater else bytes_cmp as bs)"

fun sv_tag :: "stored_value \<Rightarrow> nat" where
  "sv_tag SUnit = 0"
| "sv_tag SNone = 1"
| "sv_tag (SBool _) = 2"
| "sv_tag (SInt _) = 3"
| "sv_tag (SFloat _) = 4"
| "sv_tag (SString _) = 5"
| "sv_tag (SBytes _) = 6"
| "sv_tag (SList _) = 7"
| "sv_tag (SMap _) = 8"

text \<open>\<open>Ord::cmp\<close>: by tag, then integers signed, doubles by their bits, the rest as written.\<close>

fun sv_cmp_same :: "stored_value \<Rightarrow> stored_value \<Rightarrow> ordering" where
  "sv_cmp_same (SInt a) (SInt b) = cmp_of (sint a) (sint b)"
| "sv_cmp_same (SFloat a) (SFloat b) = cmp_of a b"
| "sv_cmp_same (SString a) (SString b) = bytes_cmp a b"
| "sv_cmp_same (SBool a) (SBool b) = cmp_of a b"
| "sv_cmp_same (SBytes a) (SBytes b) = bytes_cmp a b"
| "sv_cmp_same _ _ = Equal"

definition sv_cmp :: "stored_value \<Rightarrow> stored_value \<Rightarrow> ordering" where
  "sv_cmp a b = (let t1 = sv_tag a; t2 = sv_tag b in
     if t1 \<noteq> t2 then cmp_of t1 t2 else sv_cmp_same a b)"

fun sv_serialize :: "stored_value \<Rightarrow> bytes" where
  "sv_serialize SUnit = [value_tag_byte TagUnit]"
| "sv_serialize SNone = [value_tag_byte TagNone]"
| "sv_serialize (SBool b) = [value_tag_byte TagBool, if b then 1 else 0]"
| "sv_serialize (SInt i) = value_tag_byte TagInt # to_le 8 i"
| "sv_serialize (SFloat f) = value_tag_byte TagFloat # to_le 8 f"
| "sv_serialize (SString s) = value_tag_byte TagString # write_varint (of_nat (length s)) @ s"
| "sv_serialize (SBytes b) = value_tag_byte TagBytes # write_varint (of_nat (length b)) @ b"
| "sv_serialize (SList items) =
     value_tag_byte TagList # write_varint (of_nat (length items)) @ concat (map sv_serialize items)"
| "sv_serialize (SMap pairs) =
     value_tag_byte TagMap # write_varint (of_nat (length pairs)) @
     concat (map (\<lambda>(k, v). write_varint (of_nat (length k)) @ k @ sv_serialize v) pairs)"

text \<open>
  \<open>*pos + len > data.len()\<close> with the addition in \<open>usize\<close>: \<open>Panic\<close> when the sum overflows.
\<close>

definition check_len :: "bytes \<Rightarrow> nat \<Rightarrow> u64 \<Rightarrow> string \<Rightarrow> unit io" where
  "check_len data pos len msg =
     (if 2 ^ 64 \<le> pos + unat len then Panic
      else if length data < pos + unat len then Err (UnexpectedEof, msg)
      else Ok ())"

text \<open>
  \<open>Vec::with_capacity(len)\<close> panics when the capacity in bytes exceeds \<open>isize::MAX\<close>: an element
  of a list takes 32 bytes (tag and payload), one of a map 56 (a string and a value).
\<close>

definition with_capacity :: "nat \<Rightarrow> u64 \<Rightarrow> unit io" where
  "with_capacity elem len = (if 2 ^ 63 \<le> elem * unat len then Panic else Ok ())"

definition read_u64_at :: "bytes \<Rightarrow> nat \<Rightarrow> string \<Rightarrow> (u64 \<times> nat) io" where
  "read_u64_at data pos msg =
     (if length data < pos + 8 then Err (UnexpectedEof, msg)
      else Ok (from_le (slice pos (pos + 8) data), pos + 8))"

function
  sv_deser :: "nat \<Rightarrow> bytes \<Rightarrow> nat \<Rightarrow> (stored_value \<times> nat) io" and
  sv_items :: "nat \<Rightarrow> bytes \<Rightarrow> nat \<Rightarrow> nat \<Rightarrow> (stored_value list \<times> nat) io" and
  sv_pairs :: "nat \<Rightarrow> bytes \<Rightarrow> nat \<Rightarrow> nat \<Rightarrow> ((bytes \<times> stored_value) list \<times> nat) io"
where
  "sv_deser 0 data pos = Panic"
| "sv_deser (Suc fuel) data pos =
     (if length data \<le> pos then Err (UnexpectedEof, ''unexpected end of data'')
      else obind (value_tag_try_from (data ! pos)) (\<lambda>tag.
        let pos = Suc pos in
        case tag of
          TagUnit \<Rightarrow> Ok (SUnit, pos)
        | TagNone \<Rightarrow> Ok (SNone, pos)
        | TagBool \<Rightarrow>
            (if length data \<le> pos then Err (UnexpectedEof, ''missing bool value'')
             else Ok (SBool (data ! pos \<noteq> 0), Suc pos))
        | TagInt \<Rightarrow> omap (\<lambda>(v, p). (SInt v, p)) (read_u64_at data pos ''missing int value'')
        | TagFloat \<Rightarrow> omap (\<lambda>(v, p). (SFloat v, p)) (read_u64_at data pos ''missing float value'')
        | TagString \<Rightarrow> obind (read_varint data pos) (\<lambda>(len, pos).
            obind (check_len data pos len ''missing string data'') (\<lambda>_.
            Ok (SString (from_utf8_lossy (slice pos (pos + unat len) data)), pos + unat len)))
        | TagBytes \<Rightarrow> obind (read_varint data pos) (\<lambda>(len, pos).
            obind (check_len data pos len ''missing bytes data'') (\<lambda>_.
            Ok (SBytes (slice pos (pos + unat len) data), pos + unat len)))
        | TagList \<Rightarrow> obind (read_varint data pos) (\<lambda>(len, pos).
            obind (with_capacity 32 len) (\<lambda>_.
            omap (\<lambda>(vs, p). (SList vs, p)) (sv_items fuel data (unat len) pos)))
        | TagMap \<Rightarrow> obind (read_varint data pos) (\<lambda>(len, pos).
            obind (with_capacity 56 len) (\<lambda>_.
            omap (\<lambda>(vs, p). (SMap vs, p)) (sv_pairs fuel data (unat len) pos)))
        | TagReference \<Rightarrow>
            omap (\<lambda>(v, p). (SInt v, p)) (read_u64_at data pos ''missing reference value'')))"
| "sv_items fuel data 0 pos = Ok ([], pos)"
| "sv_items fuel data (Suc n) pos = obind (sv_deser fuel data pos) (\<lambda>(v, p).
     omap (\<lambda>(vs, q). (v # vs, q)) (sv_items fuel data n p))"
| "sv_pairs fuel data 0 pos = Ok ([], pos)"
| "sv_pairs fuel data (Suc n) pos = obind (read_varint data pos) (\<lambda>(key_len, pos).
     obind (check_len data pos key_len ''missing map key'') (\<lambda>_.
     let key = from_utf8_lossy (slice pos (pos + unat key_len) data) in
     obind (sv_deser fuel data (pos + unat key_len)) (\<lambda>(v, p).
     omap (\<lambda>(vs, q). ((key, v) # vs, q)) (sv_pairs fuel data n p))))"
  by pat_completeness auto
termination
  by (relation "measures
      [\<lambda>x. case x of Inl (f, d, p) \<Rightarrow> f | Inr (Inl (f, d, n, p)) \<Rightarrow> f | Inr (Inr (f, d, n, p)) \<Rightarrow> f,
       \<lambda>x. case x of Inl _ \<Rightarrow> 0 | Inr (Inl (f, d, n, p)) \<Rightarrow> Suc n | Inr (Inr (f, d, n, p)) \<Rightarrow> Suc n]")
    auto

declare sv_deser.simps(2) [simp del]

definition sv_deserialize :: "bytes \<Rightarrow> nat \<Rightarrow> (stored_value \<times> nat) io" where
  "sv_deserialize data pos = sv_deser (Suc (length data)) data pos"

lemma mask7: "(0x7F :: u64) = mask 7" "(0x7F :: u8) = mask 7" "(0x80 :: u8) = push_bit 7 1"
  by (simp_all add: mask_eq_exp_minus_1)

lemma varint_byte:
  fixes v :: u64
  defines "b \<equiv> ucast (v AND 0x7F) :: u8"
  shows "b AND 0x80 = 0" "(b OR 0x80) AND 0x80 \<noteq> 0" "b AND 0x7F = b" "(b OR 0x80) AND 0x7F = b"
    "ucast b = v AND 0x7F"
proof -
  have bit_b: "bit b n \<longleftrightarrow> n < 7 \<and> bit v n" for n
    unfolding b_def mask7 by (auto simp: bit_ucast_iff bit_and_iff bit_mask_iff)
  have bit80: "bit (0x80 :: u8) n \<longleftrightarrow> n = 7" for n
    unfolding mask7 bit_push_bit_iff bit_1_iff by auto
  have bit7F: "bit (0x7F :: u8) n \<longleftrightarrow> n < 7" for n
    unfolding mask7 by (auto simp: bit_mask_iff)
  show "b AND 0x80 = 0"
    by (rule bit_word_eqI) (unfold bit_and_iff bit_b bit80, auto)
  have "bit ((b OR 0x80) AND 0x80) 7"
    unfolding bit_and_iff bit_or_iff bit80 by simp
  then show "(b OR 0x80) AND 0x80 \<noteq> 0"
    by auto
  show "b AND 0x7F = b" "(b OR 0x80) AND 0x7F = b"
    by (rule bit_word_eqI; unfold bit_and_iff bit_or_iff bit_b bit80 bit7F; auto)+
  show "ucast b = v AND 0x7F"
    by (rule bit_word_eqI) (auto simp: bit_and_iff bit_ucast_iff bit_b mask7 bit_mask_iff)
qed

lemma varint_split:
  "push_bit s (v AND 0x7F) OR push_bit (s + 7) (drop_bit 7 v) = push_bit s v" for v :: u64
proof (rule bit_word_eqI)
  fix n assume n: "n < LENGTH(64)"
  show "bit (push_bit s (v AND 0x7F) OR push_bit (s + 7) (drop_bit 7 v)) n = bit (push_bit s v) n"
  proof (cases "n < s + 7")
    case True
    then show ?thesis
      using n unfolding mask7 by (auto simp: bit_simps)
  next
    case False
    then have "7 + (n - (s + 7)) = n - s"
      by simp
    with False show ?thesis
      using n unfolding mask7 by (auto simp: bit_simps)
  qed
qed

lemma read_write_varint_loop:
  assumes "drop pos data = write_varint v @ rest" "unat v < 2 ^ (64 - s)" "s < 64"
  shows "read_varint_loop data acc s pos = Ok (acc OR push_bit s v, pos + length (write_varint v))"
  using assms
proof (induction v arbitrary: acc s pos rule: write_varint.induct)
  case (1 v)
  define b where "b = (ucast (v AND 0x7F) :: u8)"
  note vb = varint_byte [of v, folded b_def]
  have lt: "pos < length data"
    using 1(2) by (cases "pos < length data") (auto simp: write_varint.simps [of v] Let_def split: if_splits)
  show ?case
  proof (cases "drop_bit 7 v = 0")
    case True
    have w: "write_varint v = [b]"
      using True by (simp add: write_varint.simps [of v] b_def)
    then have "data ! pos = b"
      using 1(2) lt by (metis Cons_nth_drop_Suc append_Cons list.inject)
    moreover have "v AND 0x7F = v"
      using varint_split [of 0 v] True by simp
    ultimately show ?thesis
      using lt w vb by (simp add: read_varint_loop.simps [of data acc s pos])
  next
    case False
    have w: "write_varint v = (b OR 0x80) # write_varint (drop_bit 7 v)"
      using False by (simp add: write_varint.simps [of v] b_def)
    then have nth: "data ! pos = b OR 0x80" and rest: "drop (Suc pos) data = write_varint (drop_bit 7 v) @ rest"
      using 1(2) lt by (auto simp flip: Cons_nth_drop_Suc)
    have div: "unat (drop_bit 7 v) = unat v div 128"
      by (simp add: drop_bit_eq_div unat_div)
    with False have big: "128 \<le> unat v"
      by (metis div_less not_less unat_eq_0)
    have s: "s + 7 < 64"
    proof (rule ccontr)
      assume "\<not> ?thesis"
      then have "(2::nat) ^ (64 - s) \<le> 2 ^ 7"
        by (intro power_increasing) auto
      with 1(3) big show False by simp
    qed
    have "unat (drop_bit 7 v) < 2 ^ (64 - (s + 7))"
    proof -
      have "(2::nat) ^ (64 - s) = 2 ^ (64 - (s + 7)) * 128"
        using s power_add [of "2::nat" "64 - (s + 7)" 7] by simp
      with 1(3) div show ?thesis
        by (simp add: less_mult_imp_div_less)
    qed
    from 1(1) [OF refl refl False rest this s]
    show ?thesis
      using lt nth w vb s varint_split [of s v]
      by (simp add: read_varint_loop.simps [of data acc s pos] or.assoc)
  qed
qed

lemma read_write_varint [codec_simps]:
  "drop pos data = write_varint v @ rest \<Longrightarrow>
   read_varint data pos = Ok (v, pos + length (write_varint v))"
  using read_write_varint_loop [of pos data v rest 0 0] unsigned_less [of v]
  by (simp add: read_varint_def)

text \<open>Positions only move forward, and stay within the data.\<close>

lemma read_varint_loop_pos:
  "read_varint_loop data acc shift pos = Ok (v, p) \<Longrightarrow> pos < p \<and> p \<le> length data"
proof (induction data acc shift pos rule: read_varint_loop.induct)
  case (1 data acc shift pos)
  from 1(2) show ?case
    by (simp add: read_varint_loop.simps [of data acc shift pos] Let_def split: if_splits)
      (fastforce dest: 1(1) [OF _ refl refl])+
qed

lemma read_varint_pos: "read_varint data pos = Ok (v, p) \<Longrightarrow> pos < p \<and> p \<le> length data"
  unfolding read_varint_def by (rule read_varint_loop_pos)

lemma check_len_Ok [outcome_simps]:
  "check_len data pos len msg = Ok u \<longleftrightarrow> pos + unat len \<le> length data \<and> pos + unat len < 2 ^ 64"
  by (auto simp: check_len_def)

lemma with_capacity_Ok [outcome_simps]:
  "with_capacity elem len = Ok u \<longleftrightarrow> elem * unat len < 2 ^ 63"
  by (auto simp: with_capacity_def)

lemma read_u64_at_Ok [outcome_simps]:
  "read_u64_at data pos msg = Ok (v, p) \<longleftrightarrow>
     p = pos + 8 \<and> p \<le> length data \<and> v = from_le (slice pos p data)"
  by (auto simp: read_u64_at_def)

lemma sv_items_pos:
  assumes "\<And>pos v p. sv_deser fuel data pos = Ok (v, p) \<Longrightarrow> pos < p \<and> p \<le> length data"
  shows "sv_items fuel data n pos = Ok (vs, q) \<Longrightarrow> pos \<le> length data \<Longrightarrow> pos \<le> q \<and> q \<le> length data"
proof (induction n arbitrary: pos vs)
  case (Suc n)
  then obtain v p vs' where "sv_deser fuel data pos = Ok (v, p)" "sv_items fuel data n p = Ok (vs', q)"
    by (auto simp: outcome_simps)
  with Suc.IH [of p vs'] assms show ?case
    by fastforce
qed simp

lemma sv_pairs_pos:
  assumes "\<And>pos v p. sv_deser fuel data pos = Ok (v, p) \<Longrightarrow> pos < p \<and> p \<le> length data"
  shows "sv_pairs fuel data n pos = Ok (vs, q) \<Longrightarrow> pos \<le> length data \<Longrightarrow> pos \<le> q \<and> q \<le> length data"
proof (induction n arbitrary: pos vs)
  case (Suc n)
  then obtain l r v p vs' where "read_varint data pos = Ok (l, r)" "sv_deser fuel data (r + unat l) = Ok (v, p)"
    "sv_pairs fuel data n p = Ok (vs', q)"
    by (auto simp: outcome_simps Let_def)
  with Suc.IH [of p vs'] assms show ?case
    by (fastforce dest!: read_varint_pos)
qed simp

lemma sv_deser_pos: "sv_deser fuel data pos = Ok (v, p) \<Longrightarrow> pos < p \<and> p \<le> length data"
proof (induction fuel arbitrary: pos v p)
  case (Suc fuel)
  obtain tag where lt: "pos < length data" and tag: "value_tag_try_from (data ! pos) = Ok tag"
    using Suc(2) by (auto simp: sv_deser.simps(2) outcome_simps split: if_splits)
  have items: "p < q \<and> q \<le> length data"
    if "sv_items fuel data n r = Ok (vs, q)" "p < r" "r \<le> length data" for n p r vs q
    using sv_items_pos [OF _ that(1) that(3)] Suc.IH that(2) by fastforce
  have pairs: "p < q \<and> q \<le> length data"
    if "sv_pairs fuel data n r = Ok (vs, q)" "p < r" "r \<le> length data" for n p r vs q
    using sv_pairs_pos [OF _ that(1) that(3)] Suc.IH that(2) by fastforce
  show ?case
    using Suc(2) lt tag
    by (cases tag) (auto simp: sv_deser.simps(2) outcome_simps split: if_splits dest!: read_varint_pos items [of _ _ _ _ pos] pairs [of _ _ _ _ pos])
qed simp

text \<open>Fuel: more than the bytes left is enough, and the amount does not matter then.\<close>

lemma sv_items_fuel:
  assumes "\<And>p. pos \<le> p \<Longrightarrow> sv_deser f data p = sv_deser g data p"
  shows "sv_items f data n pos = sv_items g data n pos"
  using assms
proof (induction n arbitrary: pos)
  case (Suc n)
  have "sv_items f data n p = sv_items g data n p" if "sv_deser g data pos = Ok (v, p)" for v p
    using that by (intro Suc) (auto dest: sv_deser_pos)
  with Suc.prems show ?case
    by (auto intro!: obind_cong)
qed simp

lemma sv_pairs_fuel:
  assumes "\<And>p. pos \<le> p \<Longrightarrow> sv_deser f data p = sv_deser g data p"
  shows "sv_pairs f data n pos = sv_pairs g data n pos"
  using assms
proof (induction n arbitrary: pos)
  case (Suc n)
  have "sv_deser f data p = sv_deser g data p" if "pos < p" for p
    using that Suc.prems by simp
  moreover have "sv_pairs f data n p = sv_pairs g data n p" if "pos < p" for p
    using that Suc.prems by (intro Suc) simp
  ultimately show ?case
    by (auto simp: Let_def intro!: obind_cong dest!: read_varint_pos sv_deser_pos)
qed simp

lemma sv_deser_fuel:
  "length data - pos < f \<Longrightarrow> length data - pos < g \<Longrightarrow> sv_deser f data pos = sv_deser g data pos"
proof (induction f arbitrary: g pos)
  case (Suc f)
  then obtain g' where g: "g = Suc g'"
    by (cases g) auto
  show ?case
  proof (cases "pos < length data")
    case True
    have eq: "sv_deser f data p = sv_deser g' data p" if "pos < p" for p
      using that Suc.prems g True by (intro Suc.IH) auto
    have "sv_items f data n p = sv_items g' data n p" "sv_pairs f data n p = sv_pairs g' data n p"
      if "pos < p" for n p
      using that eq by (auto intro: sv_items_fuel sv_pairs_fuel)
    then show ?thesis
      unfolding g sv_deser.simps(2)
      by (auto simp: Let_def intro!: obind_cong dest!: read_varint_pos split: value_tag.split)
  qed (simp add: g sv_deser.simps(2))
qed simp

text \<open>
  The values Rust can hold: strings are UTF-8, and no allocation exceeds \<open>isize::MAX\<close> bytes.
\<close>

fun wf_value :: "stored_value \<Rightarrow> bool" where
  "wf_value (SString s) \<longleftrightarrow> valid_utf8 s \<and> length s < 2 ^ 63"
| "wf_value (SBytes b) \<longleftrightarrow> length b < 2 ^ 63"
| "wf_value (SList vs) \<longleftrightarrow> 32 * length vs < 2 ^ 63 \<and> (\<forall>v \<in> set vs. wf_value v)"
| "wf_value (SMap ps) \<longleftrightarrow> 56 * length ps < 2 ^ 63 \<and>
     (\<forall>(k, v) \<in> set ps. valid_utf8 k \<and> length k < 2 ^ 63 \<and> wf_value v)"
| "wf_value _ \<longleftrightarrow> True"

lemma unat_of_nat_u64: "n < 2 ^ 64 \<Longrightarrow> unat (of_nat n :: u64) = n"
  by (simp add: unat_of_nat take_bit_nat_eq_self)

lemma read_u64_at_le:
  assumes "drop pos data = to_le 8 w @ rest" "pos \<le> length data"
  shows "read_u64_at data pos msg = Ok (w, pos + 8)"
  using drop_slice [OF assms(1)] drop_len [OF assms] by (simp add: read_u64_at_def)

lemma read_sized:
  assumes "drop pos data = write_varint (of_nat (length s)) @ s @ rest" "length data < 2 ^ 63"
    "pos \<le> length data" "length s < 2 ^ 63"
  defines "p \<equiv> pos + length (write_varint (of_nat (length s)))"
  shows "read_varint data pos = Ok (of_nat (length s), p)" "unat (of_nat (length s) :: u64) = length s"
    "check_len data p (of_nat (length s)) msg = Ok ()" "slice p (p + length s) data = s"
    "drop (p + length s) data = rest" "p + length s \<le> length data"
proof -
  note d = drop_appendD [OF assms(1), folded p_def]
  have p: "p \<le> length data"
    unfolding p_def by (rule drop_len [OF assms(1,3)])
  show "read_varint data pos = Ok (of_nat (length s), p)"
    using read_write_varint [OF assms(1)] by (simp add: p_def)
  show u: "unat (of_nat (length s) :: u64) = length s"
    using assms(4) by (intro unat_of_nat_u64) simp
  show l: "p + length s \<le> length data"
    by (rule drop_len [OF d p])
  show "check_len data p (of_nat (length s)) msg = Ok ()"
    using l assms(2) by (simp add: outcome_simps u)
  show "slice p (p + length s) data = s" "drop (p + length s) data = rest"
    using drop_slice [OF d] drop_appendD [OF d] by auto
qed

lemma sv_items_serialize:
  assumes "\<And>v pos rest. v \<in> set vs \<Longrightarrow> drop pos data = sv_serialize v @ rest \<Longrightarrow> pos \<le> length data \<Longrightarrow>
      sv_deser fuel data pos = Ok (v, pos + length (sv_serialize v))"
    and "drop pos data = concat (map sv_serialize vs) @ rest" "pos \<le> length data"
  shows "sv_items fuel data (length vs) pos = Ok (vs, pos + length (concat (map sv_serialize vs)))"
  using assms
proof (induction vs arbitrary: pos)
  case (Cons v vs)
  have d: "drop pos data = sv_serialize v @ (concat (map sv_serialize vs) @ rest)"
    using Cons.prems(2) by simp
  have "sv_items fuel data (length vs) (pos + length (sv_serialize v)) =
      Ok (vs, pos + length (sv_serialize v) + length (concat (map sv_serialize vs)))"
    using Cons.prems(1,3) drop_appendD [OF d] drop_len [OF d] by (intro Cons.IH) auto
  with Cons.prems(1) [OF _ d Cons.prems(3)] show ?case
    by (simp add: add.assoc)
qed simp

abbreviation pair_bytes :: "bytes \<times> stored_value \<Rightarrow> bytes" where
  "pair_bytes \<equiv> \<lambda>(k, v). write_varint (of_nat (length k)) @ k @ sv_serialize v"

lemma sv_pairs_serialize:
  assumes "\<And>k v pos rest. (k, v) \<in> set ps \<Longrightarrow> drop pos data = sv_serialize v @ rest \<Longrightarrow>
      pos \<le> length data \<Longrightarrow> sv_deser fuel data pos = Ok (v, pos + length (sv_serialize v))"
    and "drop pos data = concat (map pair_bytes ps) @ rest" "pos \<le> length data"
    and "\<forall>(k, v) \<in> set ps. valid_utf8 k \<and> length k < 2 ^ 63" "length data < 2 ^ 63"
  shows "sv_pairs fuel data (length ps) pos = Ok (ps, pos + length (concat (map pair_bytes ps)))"
  using assms
proof (induction ps arbitrary: pos)
  case (Cons p ps)
  obtain k v where p: "p = (k, v)"
    by (cases p)
  let ?r = "sv_serialize v @ (concat (map pair_bytes ps) @ rest)"
  have "drop pos data = write_varint (of_nat (length k)) @ k @ ?r"
    using Cons.prems(2) by (simp add: p)
  note k = read_sized [OF this Cons.prems(5,3)]
  have kl: "valid_utf8 k" "length k < 2 ^ 63"
    using Cons.prems(4) p by auto
  define q where "q = pos + length (write_varint (of_nat (length k))) + length k"
  have d: "drop q data = ?r" and q: "q \<le> length data"
    using k(5,6) [OF kl(2)] by (simp_all add: q_def)
  have v: "sv_deser fuel data q = Ok (v, q + length (sv_serialize v))"
    by (rule Cons.prems(1) [OF _ d q, of k]) (simp add: p)
  have "sv_pairs fuel data (length ps) (q + length (sv_serialize v)) =
      Ok (ps, q + length (sv_serialize v) + length (concat (map pair_bytes ps)))"
    using Cons.prems drop_appendD [OF d] drop_len [OF d q] by (intro Cons.IH) auto
  with v k(1-4) [OF kl(2)] kl show ?case
    by (simp add: p q_def from_utf8_lossy_valid add.assoc)
qed simp

lemma length_concat_member: "x \<in> set xs \<Longrightarrow> length (f x) \<le> length (concat (map f xs))"
  by (induction xs) auto

declare value_tag_byte.simps [simp del]

lemma sv_deser_serialize:
  assumes "wf_value v" "length data < 2 ^ 63" "drop pos data = sv_serialize v @ rest"
    "pos \<le> length data" "length (sv_serialize v) \<le> fuel"
  shows "sv_deser fuel data pos = Ok (v, pos + length (sv_serialize v))"
  using assms
proof (induction fuel arbitrary: v pos rest)
  case 0
  then show ?case by (cases v) auto
next
  case (Suc fuel)
  have start: "sv_deser (Suc fuel) data pos = Ok (v, pos + length (sv_serialize v))"
    if "sv_serialize v = value_tag_byte t # bs"
      "pos < length data \<Longrightarrow> data ! pos = value_tag_byte t \<Longrightarrow> drop (Suc pos) data = bs @ rest \<Longrightarrow>
       Suc pos \<le> length data \<Longrightarrow>
       sv_deser (Suc fuel) data pos = Ok (v, pos + length (sv_serialize v))" for t bs
    using that drop_ConsD [of pos data "value_tag_byte t" "bs @ rest"] Suc.prems(3) by auto
  note step = sv_deser.simps(2) value_tag_roundtrip
  show ?case
  proof (cases v)
    case SUnit
    show ?thesis by (rule start [of TagUnit "[]"]) (simp_all add: SUnit step)
  next
    case SNone
    show ?thesis by (rule start [of TagNone "[]"]) (simp_all add: SNone step)
  next
    case (SBool b)
    show ?thesis
    proof (rule start [of TagBool "[if b then 1 else 0]"], goal_cases)
      case 2
      then have "Suc pos < length data" "data ! Suc pos = (if b then 1 else 0)"
        using drop_ConsD [of "Suc pos" data "if b then 1 else 0" rest] by auto
      with 2 show ?case
        by (cases b) (simp_all add: SBool step)
    qed (simp add: SBool)
  next
    case (SInt i)
    show ?thesis
      by (rule start [of TagInt "to_le 8 i"]) (simp_all add: SInt step read_u64_at_le)
  next
    case (SFloat i)
    show ?thesis
      by (rule start [of TagFloat "to_le 8 i"]) (simp_all add: SFloat step read_u64_at_le)
  next
    case (SString s)
    show ?thesis
    proof (rule start [of TagString "write_varint (of_nat (length s)) @ s"], goal_cases)
      case 2
      then have "drop (Suc pos) data = write_varint (of_nat (length s)) @ s @ rest"
        by simp
      note r = read_sized [OF this Suc.prems(2) 2(4)]
      have s: "length s < 2 ^ 63"
        using Suc.prems(1) by (simp add: SString)
      show ?case
        using 2 Suc.prems(1) r [OF s] by (simp add: SString step from_utf8_lossy_valid)
    qed (simp add: SString)
  next
    case (SBytes s)
    show ?thesis
    proof (rule start [of TagBytes "write_varint (of_nat (length s)) @ s"], goal_cases)
      case 2
      then have "drop (Suc pos) data = write_varint (of_nat (length s)) @ s @ rest"
        by simp
      note r = read_sized [OF this Suc.prems(2) 2(4)]
      have s: "length s < 2 ^ 63"
        using Suc.prems(1) by (simp add: SBytes)
      show ?case
        using 2 Suc.prems(1) r [OF s] by (simp add: SBytes step)
    qed (simp add: SBytes)
  next
    case (SList vs)
    let ?n = "write_varint (of_nat (length vs))" and ?c = "concat (map sv_serialize vs)"
    show ?thesis
    proof (rule start [of TagList "?n @ ?c"], goal_cases)
      case 2
      have d: "drop (Suc pos) data = ?n @ (?c @ rest)"
        using 2 by simp
      have wf: "length vs < 2 ^ 64" "32 * length vs < 2 ^ 63"
        using Suc.prems(1) by (simp_all add: SList)
      have "sv_items fuel data (length vs) (Suc pos + length ?n) = Ok (vs, Suc pos + length ?n + length ?c)"
      proof (rule sv_items_serialize [OF _ drop_appendD [OF d] drop_len [OF d 2(4)]])
        fix v pos rest
        assume "v \<in> set vs" "drop pos data = sv_serialize v @ rest" "pos \<le> length data"
        then show "sv_deser fuel data pos = Ok (v, pos + length (sv_serialize v))"
          using Suc.prems length_concat_member [of v vs sv_serialize] by (intro Suc.IH) (auto simp: SList)
      qed
      with 2 wf read_write_varint [OF d] show ?case
        by (simp add: SList step with_capacity_def unat_of_nat_u64)
    qed (simp add: SList)
  next
    case (SMap ps)
    let ?n = "write_varint (of_nat (length ps))" and ?c = "concat (map pair_bytes ps)"
    show ?thesis
    proof (rule start [of TagMap "?n @ ?c"], goal_cases)
      case 2
      have d: "drop (Suc pos) data = ?n @ (?c @ rest)"
        using 2 by simp
      have wf: "length ps < 2 ^ 64" "56 * length ps < 2 ^ 63"
        using Suc.prems(1) by (simp_all add: SMap)
      have "sv_pairs fuel data (length ps) (Suc pos + length ?n) = Ok (ps, Suc pos + length ?n + length ?c)"
      proof (rule sv_pairs_serialize [OF _ drop_appendD [OF d] drop_len [OF d 2(4)] _ Suc.prems(2)])
        fix k v pos rest
        assume "(k, v) \<in> set ps" "drop pos data = sv_serialize v @ rest" "pos \<le> length data"
        then show "sv_deser fuel data pos = Ok (v, pos + length (sv_serialize v))"
          using Suc.prems length_concat_member [of "(k, v)" ps pair_bytes]
          by (intro Suc.IH) (auto simp: SMap)
      qed (use Suc.prems(1) in \<open>auto simp: SMap\<close>)
      with 2 wf read_write_varint [OF d] show ?case
        by (simp add: SMap step with_capacity_def unat_of_nat_u64)
    qed (simp add: SMap)
  qed
qed

interpretation varint: stream_codec write_varint read_varint "\<lambda>_. True"
  by unfold_locales (rule read_write_varint)

interpretation sv: stream_codec sv_serialize sv_deserialize wf_value
proof unfold_locales
  fix v data pos rest
  assume a: "wf_value v" "length data < 2 ^ 63" "pos \<le> length data" "drop pos data = sv_serialize v @ rest"
  have "length (sv_serialize v) \<le> Suc (length data)"
    using arg_cong [OF a(4), of length] by simp
  then show "sv_deserialize data pos = Ok (v, pos + length (sv_serialize v))"
    unfolding sv_deserialize_def using sv_deser_serialize [OF a(1,2,4,3)] by blast
qed

text \<open>
  C14: reading back what was written gives the value and the position after it, wherever the bytes
  stand in the data and whatever follows them.
\<close>

theorem stored_value_roundtrip:
  assumes "wf_value v" "length (pre @ sv_serialize v @ rest) < 2 ^ 63"
  shows "sv_deserialize (pre @ sv_serialize v @ rest) (length pre) =
    Ok (v, length pre + length (sv_serialize v))"
  using assms by (intro sv.dec_at) simp_all

lemma stored_value_roundtrip_witness:
  "let v = SMap [(bstr ''k'', SList [SInt 5, SNone, SBool True, SString (bstr ''hey'')])] in
   sv_deserialize ([7] @ sv_serialize v @ [9, 9]) 1 = Ok (v, 1 + length (sv_serialize v))"
proof -
  define v where "v = SMap [(bstr ''k'', SList [SInt 5, SNone, SBool True, SString (bstr ''hey'')])]"
  have "wf_value v" "length ([7] @ sv_serialize v @ [9, 9]) < 2 ^ 63"
    by (simp_all add: v_def bstr_def valid_utf8_ascii write_varint.simps)
  from stored_value_roundtrip [OF this] show ?thesis
    by (simp add: Let_def flip: v_def)
qed

text \<open>
  On any data at all, a successful read moves the position forward and never past the end, so
  a loop that deserializes until the end of the data terminates; and the fuel of the model is
  immaterial: any amount above the number of bytes left gives the result of \<open>deserialize\<close>.
\<close>

theorem sv_deserialize_progress:
  "(\<forall>v p. sv_deserialize data pos = Ok (v, p) \<longrightarrow> pos < p \<and> p \<le> length data) \<and>
   (\<forall>fuel. length data - pos < fuel \<longrightarrow> sv_deser fuel data pos = sv_deserialize data pos)"
  unfolding sv_deserialize_def
  by (intro conjI allI impI; (erule sv_deser_pos [THEN conjunct1] sv_deser_pos [THEN conjunct2])?)
    (rule sv_deser_fuel; simp)

lemma sv_deserialize_progress_witness:
  "sv_deserialize [9, 1, 2] 1 = Ok (SBool True, 3) \<and> (1::nat) < 3 \<and> sv_deser 7 [9, 1, 2] 1 = Ok (SBool True, 3)"
proof -
  have *: "sv_deserialize [9, 1, 2] 1 = Ok (SBool True, 3)"
    by (simp add: sv_deserialize_def sv_deser.simps(2) value_tag_try_from_def)
  with sv_deserialize_progress [of "[9, 1, 2]" 1] show ?thesis
    by auto
qed

subsection \<open>The order\<close>

fun swap_ord :: "ordering \<Rightarrow> ordering" where
  "swap_ord Less = Greater"
| "swap_ord Equal = Equal"
| "swap_ord Greater = Less"

lemma swap_ord_swap [simp]: "swap_ord (swap_ord x) = x"
  by (cases x) auto

lemma cmp_of_laws [simp]:
  "swap_ord (cmp_of a b) = cmp_of b a" "cmp_of a b = Equal \<longleftrightarrow> a = b" "cmp_of a b = Less \<longleftrightarrow> a < b"
  "cmp_of a b = Greater \<longleftrightarrow> b < a"
  by (auto simp: cmp_of_def)

lemma bytes_cmp_swap: "swap_ord (bytes_cmp a b) = bytes_cmp b a"
  by (induction a b rule: bytes_cmp.induct) auto

lemma bytes_cmp_eq: "bytes_cmp a b = Equal \<longleftrightarrow> a = b"
  by (induction a b rule: bytes_cmp.induct) auto

lemma bytes_cmp_trans: "bytes_cmp a b = Less \<Longrightarrow> bytes_cmp b c = Less \<Longrightarrow> bytes_cmp a c = Less"
proof (induction a arbitrary: b c)
  case Nil
  then show ?case by (cases b; cases c) auto
next
  case (Cons x a)
  then obtain y b' z c' where "b = y # b'" "c = z # c'"
    by (cases b; cases c) auto
  with Cons show ?case
    by (auto split: if_splits)
qed

lemma sv_cmp_same_swap: "sv_tag a = sv_tag b \<Longrightarrow> swap_ord (sv_cmp_same a b) = sv_cmp_same b a"
  by (cases a; cases b) (simp_all add: bytes_cmp_swap)

lemma sv_cmp_same_trans:
  "sv_tag a = sv_tag b \<Longrightarrow> sv_tag b = sv_tag c \<Longrightarrow> sv_cmp_same a b \<noteq> Greater \<Longrightarrow>
   sv_cmp_same b c \<noteq> Greater \<Longrightarrow> sv_cmp_same a c \<noteq> Greater"
proof -
  have bytes: "bytes_cmp x z \<noteq> Greater" if "bytes_cmp x y \<noteq> Greater" "bytes_cmp y z \<noteq> Greater" for x y z
    using that bytes_cmp_trans [of x y z] bytes_cmp_eq [of x y] bytes_cmp_eq [of y z]
    by (cases "bytes_cmp x y"; cases "bytes_cmp y z") auto
  assume "sv_tag a = sv_tag b" "sv_tag b = sv_tag c" "sv_cmp_same a b \<noteq> Greater" "sv_cmp_same b c \<noteq> Greater"
  then show ?thesis
    by (cases a; cases b; cases c) (auto dest: bytes)
qed

lemma sint_eq_u64: "sint a = sint b \<longleftrightarrow> a = b" for a b :: u64
  by (auto intro: signed_word_eqI)

text \<open>Where \<open>cmp\<close> says \<open>Equal\<close>: the same value, or two lists, or two maps.\<close>

lemma sv_cmp_same_eq:
  "sv_tag a = sv_tag b \<Longrightarrow> sv_cmp_same a b = Equal \<longleftrightarrow> a = b \<or> sv_tag a = 7 \<or> sv_tag a = 8"
  by (cases a; cases b) (simp_all add: bytes_cmp_eq sint_eq_u64)

lemma sv_cmp_swap: "swap_ord (sv_cmp a b) = sv_cmp b a"
  using sv_cmp_same_swap [of a b] by (simp add: sv_cmp_def Let_def)

lemma sv_cmp_trans: "sv_cmp a b \<noteq> Greater \<Longrightarrow> sv_cmp b c \<noteq> Greater \<Longrightarrow> sv_cmp a c \<noteq> Greater"
  using sv_cmp_same_trans [of a b c] by (auto simp: sv_cmp_def Let_def split: if_splits)

lemma sv_cmp_refl [simp]: "sv_cmp a a = Equal"
  using sv_cmp_same_eq [of a a] by (simp add: sv_cmp_def)

text \<open>
  C38: \<open>Ord for StoredValue\<close> is a total preorder, as an ordered index needs (swapping the
  arguments reverses the answer, and \<open>not greater\<close> is transitive); it tells two values apart
  unless both are lists or both are maps, which it always calls equal.
\<close>

theorem sv_cmp_total_preorder:
  "swap_ord (sv_cmp a b) = sv_cmp b a \<and>
   (sv_cmp a b = Greater \<or> sv_cmp b c = Greater \<or> sv_cmp a c = Less \<or> sv_cmp a c = Equal) \<and>
   (sv_cmp a b = Equal \<longleftrightarrow> a = b \<or> (\<exists>xs ys. a = SList xs \<and> b = SList ys) \<or>
      (\<exists>ps qs. a = SMap ps \<and> b = SMap qs))"
proof (intro conjI)
  show "swap_ord (sv_cmp a b) = sv_cmp b a"
    by (rule sv_cmp_swap)
  have "sv_cmp a b = Greater \<or> sv_cmp b c = Greater \<or> sv_cmp a c \<noteq> Greater"
    using sv_cmp_trans by blast
  then show "sv_cmp a b = Greater \<or> sv_cmp b c = Greater \<or> sv_cmp a c = Less \<or> sv_cmp a c = Equal"
    by (cases "sv_cmp a c") auto
  have "sv_tag a = 7 \<longleftrightarrow> (\<exists>xs. a = SList xs)" "sv_tag a = 8 \<longleftrightarrow> (\<exists>ps. a = SMap ps)" for a
    by (cases a; simp)+
  then show "sv_cmp a b = Equal \<longleftrightarrow> a = b \<or> (\<exists>xs ys. a = SList xs \<and> b = SList ys) \<or>
      (\<exists>ps qs. a = SMap ps \<and> b = SMap qs)"
    using sv_cmp_same_eq [of a b] by (auto simp: sv_cmp_def Let_def split: if_splits)
qed

end
