(* ===== verification/Store_Uuid.thy ===== *)
theory Store_Uuid
  imports Store_Value
begin

text \<open>
  Object identifiers (\<open>runtime/src/store/uuid7.rs\<close>): 16 bytes with a 48-bit millisecond
  timestamp, a 12-bit counter and 62 random bits around the version and variant fields. The two
  atomics of the generator are its explicit state; calls are one after another (the interleaving of
  several threads between the loads and stores is not modelled), and the random bits and the clock
  are arguments.
\<close>

type_synonym uuid7 = bytes

record uuid_state =
  LAST_TIMESTAMP :: u64
  COUNTER :: u64

definition uuid_init :: uuid_state where
  "uuid_init = \<lparr> LAST_TIMESTAMP = 0, COUNTER = 0 \<rparr>"

definition uuid_nil :: uuid7 where
  "uuid_nil = replicate 16 0"

definition uuid_is_nil :: "uuid7 \<Rightarrow> bool" where
  "uuid_is_nil u \<longleftrightarrow> u = replicate 16 0"

text \<open>\<open>(w >> k) & 0xFF\<close> as a byte.\<close>

definition byte_at :: "nat \<Rightarrow> u64 \<Rightarrow> u8" where
  "byte_at k w = ucast (drop_bit k w AND 0xFF)"

definition uuid_next_counter :: "u64 \<Rightarrow> uuid_state \<Rightarrow> u64 \<times> uuid_state" where
  "uuid_next_counter timestamp_ms st =
     (if timestamp_ms = LAST_TIMESTAMP st then (COUNTER st, st\<lparr>COUNTER := COUNTER st + 1\<rparr>)
      else (0, \<lparr> LAST_TIMESTAMP = timestamp_ms, COUNTER = 1 \<rparr>))"

definition uuid_layout :: "u64 \<Rightarrow> u64 \<Rightarrow> u64 \<Rightarrow> uuid7" where
  "uuid_layout ts counter random =
     (let rand_a = ucast (counter AND 0x0FFF) :: u16 in
     [byte_at 40 ts, byte_at 32 ts, byte_at 24 ts, byte_at 16 ts, byte_at 8 ts, ucast (ts AND 0xFF),
      0x70 OR ucast (drop_bit 8 rand_a AND 0x0F), ucast (rand_a AND 0xFF),
      0x80 OR ucast (drop_bit 56 random AND 0x3F), byte_at 48 random, byte_at 40 random,
      byte_at 32 random, byte_at 24 random, byte_at 16 random, byte_at 8 random,
      ucast (random AND 0xFF)])"

definition uuid_from_timestamp :: "u64 \<Rightarrow> u64 \<Rightarrow> uuid_state \<Rightarrow> uuid7 \<times> uuid_state" where
  "uuid_from_timestamp timestamp_ms random st =
     (let (counter, st') = uuid_next_counter timestamp_ms st
      in (uuid_layout timestamp_ms counter random, st'))"

definition uuid_from_slice :: "bytes \<Rightarrow> (string, uuid7) outcome" where
  "uuid_from_slice s = (if length s \<noteq> 16 then Err ''UUID must be 16 bytes'' else Ok s)"

text \<open>\<open>timestamp_ms\<close>, \<open>version\<close>, \<open>variant\<close>, \<open>is_valid\<close>.\<close>

definition uuid_timestamp_ms :: "uuid7 \<Rightarrow> u64" where
  "uuid_timestamp_ms u = push_bit 40 (ucast (u ! 0)) OR push_bit 32 (ucast (u ! 1)) OR
     push_bit 24 (ucast (u ! 2)) OR push_bit 16 (ucast (u ! 3)) OR push_bit 8 (ucast (u ! 4)) OR
     ucast (u ! 5)"

definition uuid_version :: "uuid7 \<Rightarrow> u8" where
  "uuid_version u = drop_bit 4 (u ! 6) AND 0x0F"

definition uuid_variant :: "uuid7 \<Rightarrow> u8" where
  "uuid_variant u = drop_bit 6 (u ! 8) AND 0x03"

definition uuid_is_valid :: "uuid7 \<Rightarrow> bool" where
  "uuid_is_valid u \<longleftrightarrow> uuid_version u = 7 \<and> uuid_variant u = 2"

subsection \<open>Text\<close>

definition uuid_to_string :: "uuid7 \<Rightarrow> rstr" where
  "uuid_to_string u = rs (concat (map show_02x (slice 0 4 u)) @ ''-'' @
     concat (map show_02x (slice 4 6 u)) @ ''-'' @ concat (map show_02x (slice 6 8 u)) @ ''-'' @
     concat (map show_02x (slice 8 10 u)) @ ''-'' @ concat (map show_02x (slice 10 16 u)))"

text \<open>\<open>u8::from_str_radix(s, 16)\<close> on a two-byte string, which may start with a plus sign.\<close>

definition to_digit16 :: "rchar \<Rightarrow> nat option" where
  "to_digit16 c = (if ch (CHR ''0'') \<le> c \<and> c \<le> ch (CHR ''9'') then Some (c - ch (CHR ''0''))
     else if ch (CHR ''a'') \<le> c \<and> c \<le> ch (CHR ''f'') then Some (c - ch (CHR ''a'') + 10)
     else if ch (CHR ''A'') \<le> c \<and> c \<le> ch (CHR ''F'') then Some (c - ch (CHR ''A'') + 10) else None)"

fun u8_from_hex2 :: "rstr \<Rightarrow> u8 option" where
  "u8_from_hex2 [a, b] = (if a = ch (CHR ''+'') then map_option of_nat (to_digit16 b)
     else case (to_digit16 a, to_digit16 b) of
       (Some x, Some y) \<Rightarrow> Some (of_nat (16 * x + y)) | _ \<Rightarrow> None)"
| "u8_from_hex2 _ = None"

text \<open>\<open>s[2*i..2*i+2]\<close> panics when an end of the range is inside a character.\<close>

fun split_bytes :: "nat \<Rightarrow> rstr \<Rightarrow> (rstr \<times> rstr) option" where
  "split_bytes 0 s = Some ([], s)"
| "split_bytes n [] = None"
| "split_bytes n (c # s) = (if len_utf8 c \<le> n
     then map_option (\<lambda>(a, b). (c # a, b)) (split_bytes (n - len_utf8 c) s) else None)"

fun uuid_parse_bytes :: "nat \<Rightarrow> rstr \<Rightarrow> (string, uuid7) outcome" where
  "uuid_parse_bytes 0 hex = Ok []"
| "uuid_parse_bytes (Suc n) hex =
     (case split_bytes 2 hex of None \<Rightarrow> Panic
      | Some (two, rest) \<Rightarrow>
          (case u8_from_hex2 two of None \<Rightarrow> Err ''invalid hex character in UUID''
           | Some b \<Rightarrow> omap (\<lambda>bs. b # bs) (uuid_parse_bytes n rest)))"

definition uuid_parse :: "rstr \<Rightarrow> (string, uuid7) outcome" where
  "uuid_parse s =
     (let hex = filter (\<lambda>c. c \<noteq> ch (CHR ''-'')) (str_trim s) in
      if utf8_len hex \<noteq> 32 then Err ''invalid UUID string length'' else uuid_parse_bytes 16 hex)"

subsection \<open>The fields of a generated identifier\<close>

lemma bit_byte_at: "bit (byte_at k w) n \<longleftrightarrow> n < 8 \<and> bit w (k + n)"
proof -
  have "(0xFF :: u64) = mask 8"
    by (simp add: mask_eq_exp_minus_1)
  then show ?thesis
    unfolding byte_at_def by (simp only: bit_ucast_iff bit_and_iff bit_mask_iff bit_drop_bit_eq) auto
qed

lemma byte_at_0: "ucast (w AND 0xFF) = byte_at 0 w"
  by (simp add: byte_at_def)

lemma uuid_timestamp_layout: "uuid_timestamp_ms (uuid_layout ts c r) = take_bit 48 ts"
proof (rule bit_word_eqI)
  fix n assume n: "n < LENGTH(64)"
  consider "n < 8" | "8 \<le> n \<and> n < 16" | "16 \<le> n \<and> n < 24" | "24 \<le> n \<and> n < 32" | "32 \<le> n \<and> n < 40"
    | "40 \<le> n \<and> n < 48" | "48 \<le> n"
    by linarith
  then show "bit (uuid_timestamp_ms (uuid_layout ts c r)) n = bit (take_bit 48 ts) n"
    using n unfolding uuid_timestamp_ms_def uuid_layout_def Let_def byte_at_0
    by cases (auto simp: bit_simps bit_byte_at)
qed

lemma uuid_version_layout: "uuid_version (uuid_layout ts c r) = 7"
proof -
  have "drop_bit 4 (0x70 OR ucast (x AND 0x0F) :: u8) AND 0x0F = 7" for x :: u16
    by (rule u8_eqI) (simp_all add: bit_simps)
  then show ?thesis
    unfolding uuid_version_def uuid_layout_def Let_def by simp
qed

lemma uuid_variant_layout: "uuid_variant (uuid_layout ts c r) = 2"
proof -
  have "drop_bit 6 (0x80 OR ucast (x AND 0x3F) :: u8) AND 0x03 = 2" for x :: u64
    by (rule u8_eqI) (simp_all add: bit_simps)
  then show ?thesis
    unfolding uuid_variant_def uuid_layout_def Let_def by simp
qed

text \<open>
  A generated identifier has exactly the requested timestamp (its low 48 bits), version 7 and
  the RFC variant, whatever the generator's state and the random bits.
\<close>

theorem uuid_from_timestamp_fields:
  "let u = fst (uuid_from_timestamp ts random st) in
   length u = 16 \<and> uuid_timestamp_ms u = take_bit 48 ts \<and> uuid_is_valid u"
  by (simp add: uuid_from_timestamp_def uuid_is_valid_def uuid_version_layout uuid_variant_layout
      uuid_timestamp_layout Let_def split: prod.split) (simp add: uuid_layout_def Let_def)

subsection \<open>Text\<close>

lemma uuid_hex_char:
  assumes "n < 16"
  shows "to_digit16 (of_char (hex_char n)) = Some n" "of_char (hex_char n) \<noteq> ch (CHR ''-'')"
    "of_char (hex_char n) \<noteq> ch (CHR ''+'')" "\<not> is_whitespace (of_char (hex_char n))"
    "len_utf8 (of_char (hex_char n)) = 1"
proof -
  have "list_all (\<lambda>n. to_digit16 (of_char (hex_char n)) = Some n \<and>
      of_char (hex_char n) \<noteq> ch (CHR ''-'') \<and> of_char (hex_char n) \<noteq> ch (CHR ''+'') \<and>
      \<not> is_whitespace (of_char (hex_char n)) \<and> len_utf8 (of_char (hex_char n)) = 1) [0..<16]"
    by (simp add: upt_rec hex_char_def to_digit16_def is_whitespace_def len_utf8_def)
  with assms show "to_digit16 (of_char (hex_char n)) = Some n" "of_char (hex_char n) \<noteq> ch (CHR ''-'')"
    "of_char (hex_char n) \<noteq> ch (CHR ''+'')" "\<not> is_whitespace (of_char (hex_char n))"
    "len_utf8 (of_char (hex_char n)) = 1"
    by (auto simp: list_all_iff)
qed

lemma u8_div16: "unat b div 16 < 16" for b :: u8
proof -
  have "unat b < 2 ^ LENGTH(8)"
    by (rule unsigned_less)
  then show ?thesis
    by simp
qed

definition uuid_hex :: "bytes \<Rightarrow> rstr" where
  "uuid_hex bs = rs (concat (map show_02x bs))"

lemma uuid_hex_simps [simp]:
  "uuid_hex [] = []"
  "uuid_hex (b # bs) = of_char (hex_char (unat b div 16)) # of_char (hex_char (unat b mod 16)) # uuid_hex bs"
  "uuid_hex (xs @ ys) = uuid_hex xs @ uuid_hex ys"
  by (simp_all add: uuid_hex_def rs_def show_02x_def)

lemma filter_uuid_hex [simp]: "filter (\<lambda>c. c \<noteq> ch (CHR ''-'')) (uuid_hex bs) = uuid_hex bs"
  using uuid_hex_char(2) u8_div16 by (induction bs) auto

lemma uuid_hex_no_space: "c \<in> set (uuid_hex bs) \<Longrightarrow> \<not> is_whitespace c"
  using uuid_hex_char(4) u8_div16 by (induction bs) auto

lemma utf8_len_uuid_hex [simp]: "utf8_len (uuid_hex bs) = 2 * length bs"
  using uuid_hex_char(5) u8_div16 by (induction bs) auto

lemma uuid_parse_hex: "uuid_parse_bytes (length bs) (uuid_hex bs) = Ok bs"
proof (induction bs)
  case (Cons b bs)
  have "split_bytes 2 (x # y # s) = Some ([x, y], s)" if "len_utf8 x = 1" "len_utf8 y = 1" for x y s
    using that by (simp add: numeral_2_eq_2)
  moreover have "of_nat (16 * (unat b div 16) + unat b mod 16) = b"
    by (simp only: mult_div_mod_eq) simp
  ultimately show ?case
    using Cons uuid_hex_char [OF u8_div16 [of b]] uuid_hex_char [of "unat b mod 16"]
    by simp
qed simp

lemma str_trim_id: "(\<And>c. c \<in> set s \<Longrightarrow> \<not> is_whitespace c) \<Longrightarrow> str_trim s = s"
proof -
  assume s: "\<And>c. c \<in> set s \<Longrightarrow> \<not> is_whitespace c"
  have "dropWhile is_whitespace xs = xs" if "set xs \<subseteq> set s" for xs
    using that s by (cases xs) auto
  then show ?thesis
    by (simp add: str_trim_def)
qed

lemma uuid_to_string_eq:
  "uuid_to_string u = uuid_hex (slice 0 4 u) @ [45] @ uuid_hex (slice 4 6 u) @ [45] @
     uuid_hex (slice 6 8 u) @ [45] @ uuid_hex (slice 8 10 u) @ [45] @ uuid_hex (slice 10 16 u)"
  by (simp add: uuid_to_string_def uuid_hex_def rs_def)

lemma uuid_parse_print:
  assumes "length u = 16"
  shows "uuid_parse (uuid_to_string u) = Ok u"
proof -
  have "str_trim (uuid_to_string u) = uuid_to_string u"
    by (rule str_trim_id) (auto simp: uuid_to_string_eq is_whitespace_def dest: uuid_hex_no_space)
  moreover have "filter (\<lambda>c. c \<noteq> ch (CHR ''-'')) (uuid_to_string u) = uuid_hex u"
  proof -
    have "filter (\<lambda>c. c \<noteq> ch (CHR ''-'')) (uuid_to_string u) = uuid_hex (slice 0 4 u @ slice 4 6 u @
        slice 6 8 u @ slice 8 10 u @ slice 10 16 u)"
      using filter_uuid_hex by (simp add: uuid_to_string_eq)
    also have "slice 0 4 u @ slice 4 6 u @ slice 6 8 u @ slice 8 10 u @ slice 10 16 u = u"
      using assms by (simp add: slice_append slice_all)
    finally show ?thesis .
  qed
  ultimately show ?thesis
    using uuid_parse_hex [of u] assms by (simp add: uuid_parse_def)
qed

text \<open>
  C36: parsing the printed form of an identifier gives the identifier back, dashes and all, for
  every 16 bytes.
\<close>

theorem uuid_text_roundtrip:
  assumes "length u = 16"
  shows "uuid_parse (uuid_to_string u) = Ok u"
  using assms by (rule uuid_parse_print)

lemma uuid_text_roundtrip_witness:
  "uuid_parse (uuid_to_string (map of_nat [0..<16])) = Ok (map of_nat [0..<16])"
  by (rule uuid_text_roundtrip) simp

subsection \<open>Order within a millisecond\<close>

lemma uuid_counter_bytes:
  assumes "unat c < 4096"
  defines "r \<equiv> ucast (c AND 0x0FFF) :: u16"
  shows "unat (0x70 OR ucast (drop_bit 8 r AND 0x0F) :: u8) = 112 + unat c div 256"
    "unat (ucast (r AND 0xFF) :: u8) = unat c mod 256"
proof -
  have "c AND 0x0FFF = take_bit 12 c"
    by (simp add: take_bit_eq_mask mask_eq_exp_minus_1)
  moreover have "take_bit 12 c = c"
    using assms(1) by (intro word_unat_eq_iff [THEN iffD2]) (simp add: unsigned_take_bit_eq take_bit_nat_eq_self)
  ultimately have r: "unat r = unat c"
    using assms(1) by (simp add: r_def unsigned_ucast_eq take_bit_nat_eq_self)
  have rm: "r AND 0xFF = take_bit 8 r" for r :: u16
    by (simp add: take_bit_eq_mask mask_eq_exp_minus_1)
  show "unat (ucast (r AND 0xFF) :: u8) = unat c mod 256"
    by (simp only: rm unsigned_ucast_eq unsigned_take_bit_eq r) (simp add: take_bit_eq_mod)
  let ?x = "drop_bit 8 r AND 0x0F"
  have "unat ?x = unat c div 256"
  proof -
    have "?x = take_bit 4 (drop_bit 8 r)"
      by (simp add: take_bit_eq_mask mask_eq_exp_minus_1)
    then have "unat ?x = take_bit 4 (unat r div 256)"
      by (simp add: unsigned_take_bit_eq drop_bit_eq_div unat_div)
    moreover have "unat c div 256 < 16"
      using assms(1) by simp
    ultimately show ?thesis
      by (simp add: r take_bit_nat_eq_self)
  qed
  moreover from this have "unat ?x < 16"
    using assms(1) by simp
  ultimately have x: "unat (ucast ?x :: u8) = unat c div 256"
    by (simp only: unsigned_ucast_eq) (simp add: take_bit_nat_eq_self)
  have "0x70 OR ucast ?x = (0x70 + ucast ?x :: u8)"
    by (rule disjunctive_add_eq_or [symmetric], rule u8_eqI) (simp_all add: bit_simps)
  with x assms(1) show "unat (0x70 OR ucast ?x :: u8) = 112 + unat c div 256"
    by (simp only: unat_word_ariths(1)) simp
qed

text \<open>The identifiers made by successive calls with one timestamp, for the given random words.\<close>

fun uuid_run :: "u64 \<Rightarrow> u64 list \<Rightarrow> uuid_state \<Rightarrow> uuid7 list" where
  "uuid_run ts [] st = []"
| "uuid_run ts (random # randoms) st =
     (let (u, st') = uuid_from_timestamp ts random st in u # uuid_run ts randoms st')"

lemma uuid_run_nth:
  "LAST_TIMESTAMP st = ts \<Longrightarrow> i < length randoms \<Longrightarrow>
   uuid_run ts randoms st ! i = uuid_layout ts (COUNTER st + of_nat i) (randoms ! i)"
proof (induction randoms arbitrary: st i)
  case (Cons r rs)
  then show ?case
    by (cases i) (simp_all add: uuid_from_timestamp_def uuid_next_counter_def add.assoc)
qed simp

lemma uuid_run_fresh_nth:
  assumes "LAST_TIMESTAMP st \<noteq> ts" "i < length randoms"
  shows "uuid_run ts randoms st ! i = uuid_layout ts (of_nat i) (randoms ! i)"
proof (cases randoms)
  case (Cons r rs)
  with assms show ?thesis
    by (cases i) (simp_all add: uuid_from_timestamp_def uuid_next_counter_def uuid_run_nth)
qed (use assms in simp)

lemma bytes_cmp_at_6:
  "unat a < unat b \<or> unat a = unat b \<and> unat c < unat d \<Longrightarrow>
   bytes_cmp (p # q # r # s # t # u # a # c # xs) (p # q # r # s # t # u # b # d # ys) = Less"
  by (auto simp: word_less_nat_alt dest: word_unat_eq_iff [THEN iffD2])

lemma uuid_layout_less:
  assumes "unat c < unat d" "unat d < 4096"
  shows "bytes_cmp (uuid_layout ts c r) (uuid_layout ts d r') = Less"
proof -
  have c: "unat c < 4096"
    using assms by simp
  note b = uuid_counter_bytes [OF c] uuid_counter_bytes [OF assms(2)]
  have "unat c div 256 < unat d div 256 \<or> unat c div 256 = unat d div 256 \<and> unat c mod 256 < unat d mod 256"
    using assms(1) div_le_mono [of "unat c" "unat d" 256] mult_div_mod_eq [of 256 "unat c"]
      mult_div_mod_eq [of 256 "unat d"] by linarith
  with b show ?thesis
    unfolding uuid_layout_def Let_def
    by (intro bytes_cmp_at_6) (simp only: nat_add_left_cancel_less add_left_cancel)
qed

text \<open>
  C35: the identifiers of one millisecond are generated in strictly increasing byte order, whatever
  the random bits, as long as fewer than 4097 are made in it (the counter has 12 bits).
\<close>

theorem uuid_monotone_in_millisecond:
  assumes "LAST_TIMESTAMP st \<noteq> ts" "length randoms \<le> 4096" "i < j" "j < length randoms"
  shows "bytes_cmp (uuid_run ts randoms st ! i) (uuid_run ts randoms st ! j) = Less"
proof -
  have "unat (of_nat n :: u64) = n" if "n < 4096" for n
    using that by (intro unat_of_nat_u64) simp
  then show ?thesis
    using assms by (simp add: uuid_run_fresh_nth uuid_layout_less)
qed

lemma uuid_monotone_in_millisecond_witness:
  "bytes_cmp (uuid_run 5 [9, 0, 7] uuid_init ! 1) (uuid_run 5 [9, 0, 7] uuid_init ! 2) = Less"
  by (rule uuid_monotone_in_millisecond) (simp_all add: uuid_init_def)

end
