(* ===== verification/Store_Record.thy ===== *)
theory Store_Record
  imports Store_Uuid
begin

text \<open>
  The binary store file (\<open>runtime/src/store/binary.rs\<close>): its 64-byte header, the 24-byte record
  headers, \<open>BinaryWriter\<close> and \<open>BinaryReader\<close>. A file is its contents, \<open>None\<close> when it does not
  exist. The hash of the store type, a result of the standard
  library's \<open>DefaultHasher\<close>, is the argument \<open>hash\<close>.
\<close>

subsection \<open>Headers\<close>

definition FILE_HEADER_SIZE :: nat where "FILE_HEADER_SIZE = 64"
definition RECORD_HEADER_SIZE :: nat where "RECORD_HEADER_SIZE = 24"

record binary_file_header =
  bh_magic :: bytes
  bh_version :: u32
  bh_store_type_hash :: u64
  bh_schema_version :: u32
  bh_object_count :: u64
  bh_file_size :: u64
  bh_free_space_offset :: u64
  bh_checksum :: u64

definition binary_file_header_new :: "u64 \<Rightarrow> binary_file_header" where
  "binary_file_header_new hash = \<lparr> bh_magic = BINARY_MAGIC, bh_version = BINARY_VERSION,
     bh_store_type_hash = hash, bh_schema_version = 1, bh_object_count = 0,
     bh_file_size = of_nat FILE_HEADER_SIZE, bh_free_space_offset = 0, bh_checksum = 0 \<rparr>"

definition binary_file_header_serialize :: "binary_file_header \<Rightarrow> bytes" where
  "binary_file_header_serialize h = bh_magic h @ to_le 4 (bh_version h) @
     to_le 8 (bh_store_type_hash h) @ to_le 4 (bh_schema_version h) @ to_le 8 (bh_object_count h) @
     to_le 8 (bh_file_size h) @ to_le 8 (bh_free_space_offset h) @ to_le 8 (bh_checksum h) @
     replicate 8 0"

definition binary_file_header_deserialize :: "bytes \<Rightarrow> binary_file_header io" where
  "binary_file_header_deserialize data =
     (let magic = slice 0 8 data; version = from_le (slice 8 12 data) in
      if magic \<noteq> BINARY_MAGIC then Err (InvalidData, ''invalid binary file magic'')
      else if version > BINARY_VERSION then Err (InvalidData, ''unsupported binary version'')
      else Ok \<lparr> bh_magic = magic, bh_version = version,
        bh_store_type_hash = from_le (slice 12 20 data), bh_schema_version = from_le (slice 20 24 data),
        bh_object_count = from_le (slice 24 32 data), bh_file_size = from_le (slice 32 40 data),
        bh_free_space_offset = from_le (slice 40 48 data), bh_checksum = from_le (slice 48 56 data) \<rparr>)"

record record_header =
  rh_record_length :: u32
  rh_flags :: u16
  rh_field_count :: u16
  rh_index :: u64
  rh_version :: u32
  rh_checksum :: u32

definition record_header_serialize :: "record_header \<Rightarrow> bytes" where
  "record_header_serialize h = to_le 4 (rh_record_length h) @ to_le 2 (rh_flags h) @
     to_le 2 (rh_field_count h) @ to_le 8 (rh_index h) @ to_le 4 (rh_version h) @
     to_le 4 (rh_checksum h)"

definition record_header_deserialize :: "bytes \<Rightarrow> record_header" where
  "record_header_deserialize data = \<lparr> rh_record_length = from_le (slice 0 4 data),
     rh_flags = from_le (slice 4 6 data), rh_field_count = from_le (slice 6 8 data),
     rh_index = from_le (slice 8 16 data), rh_version = from_le (slice 16 20 data),
     rh_checksum = from_le (slice 20 24 data) \<rparr>"

subsection \<open>Writing\<close>

type_synonym field_list = "(bytes \<times> stored_value) list"

record binary_writer =
  bw_header :: binary_file_header
  bw_write_offset :: u64

text \<open>Opening creates the file with a fresh header, or loads and checks the header that is there.\<close>

definition binary_writer_load :: "bytes \<Rightarrow> u64 \<Rightarrow> binary_writer io" where
  "binary_writer_load file hash =
     obind (read_exact_at file 0 FILE_HEADER_SIZE) (\<lambda>buf.
     obind (binary_file_header_deserialize buf) (\<lambda>header.
     if bh_store_type_hash header \<noteq> hash then Err (InvalidData, ''store type mismatch'')
     else Ok \<lparr> bw_header = header, bw_write_offset = bh_file_size header \<rparr>))"

definition binary_writer_open :: "bytes option \<Rightarrow> u64 \<Rightarrow> (binary_writer \<times> bytes) io" where
  "binary_writer_open file hash = (case file of
       Some contents \<Rightarrow> omap (\<lambda>w. (w, contents)) (binary_writer_load contents hash)
     | None \<Rightarrow> (let header = binary_file_header_new hash in
         Ok (\<lparr> bw_header = header, bw_write_offset = of_nat FILE_HEADER_SIZE \<rparr>,
             write_at [] 0 (binary_file_header_serialize header))))"

definition field_bytes :: "bytes \<times> stored_value \<Rightarrow> bytes" where
  "field_bytes = (\<lambda>(name, v). write_varint (of_nat (length name)) @ name @ sv_serialize v)"

definition record_payload :: "uuid7 \<Rightarrow> u64 \<Rightarrow> u64 \<Rightarrow> u64 \<Rightarrow> field_list \<Rightarrow> bytes" where
  "record_payload uuid created_at updated_at deleted_at flds = uuid @ to_le 8 created_at @
     to_le 8 updated_at @ to_le 8 deleted_at @ concat (map field_bytes flds)"

text \<open>
  The length field and the field count are truncated to their widths by \<open>as\<close>. Returns the offset
  and the total length, the writer and the file.
\<close>

definition binary_write_record ::
    "u64 \<Rightarrow> u32 \<Rightarrow> uuid7 \<Rightarrow> u64 \<Rightarrow> u64 \<Rightarrow> u64 \<Rightarrow> field_list \<Rightarrow> binary_writer \<Rightarrow> bytes \<Rightarrow>
     (u64 \<times> u32) \<times> binary_writer \<times> bytes" where
  "binary_write_record index version uuid created_at updated_at deleted_at flds w file =
     (let payload = record_payload uuid created_at updated_at deleted_at flds;
          record_length = of_nat (RECORD_HEADER_SIZE + length payload) :: u32;
          header = \<lparr> rh_record_length = record_length, rh_flags = FLAG_ACTIVE,
            rh_field_count = of_nat (length flds), rh_index = index, rh_version = version,
            rh_checksum = crc32 payload \<rparr>;
          padding = (8 - unat record_length mod 8) mod 8;
          total_length = unat record_length + padding;
          offset = bw_write_offset w;
          file = write_at file (unat offset) (record_header_serialize header @ payload @ replicate padding 0);
          end_offset = offset + of_nat total_length;
          h = (bw_header w)\<lparr> bh_object_count := bh_object_count (bw_header w) + 1, bh_file_size := end_offset \<rparr>
      in ((offset, of_nat total_length), \<lparr> bw_header = h, bw_write_offset = end_offset \<rparr>,
          write_at file 0 (binary_file_header_serialize h)))"

subsection \<open>Reading\<close>

record binary_record =
  br_index :: u64
  br_version :: u32
  br_flags :: u16
  br_uuid :: uuid7
  br_created_at :: u64
  br_updated_at :: u64
  br_deleted_at :: u64
  br_fields :: field_list

definition binary_reader_open :: "bytes option \<Rightarrow> binary_file_header io" where
  "binary_reader_open file = (case file of
       None \<Rightarrow> Err (NotFound, ''No such file or directory'')
     | Some contents \<Rightarrow> obind (read_exact_at contents 0 FILE_HEADER_SIZE) binary_file_header_deserialize)"

text \<open>The name is sliced out of the payload without a check: out of range, it panics.\<close>

fun read_fields :: "bytes \<Rightarrow> nat \<Rightarrow> nat \<Rightarrow> (field_list \<times> nat) io" where
  "read_fields payload 0 pos = Ok ([], pos)"
| "read_fields payload (Suc n) pos = obind (read_varint payload pos) (\<lambda>(name_len, pos).
     if length payload < pos + unat name_len then Panic
     else let name = from_utf8_lossy (slice pos (pos + unat name_len) payload) in
       obind (sv_deserialize payload (pos + unat name_len)) (\<lambda>(v, p).
       omap (\<lambda>(fs, q). ((name, v) # fs, q)) (read_fields payload n p)))"

text \<open>
  The length of the payload is the record's less the header's, in \<open>usize\<close>: a smaller length field
  underflows and panics (as the allocation of the wrapped length would); a payload without room
  for the system fields panics when it is sliced.
\<close>

definition binary_read_record :: "bytes \<Rightarrow> u64 \<Rightarrow> binary_record io" where
  "binary_read_record file offset =
     obind (read_exact_at file (unat offset) RECORD_HEADER_SIZE) (\<lambda>buf.
     let header = record_header_deserialize buf in
     if unat (rh_record_length header) < RECORD_HEADER_SIZE then Panic
     else obind (read_exact_at file (unat offset + RECORD_HEADER_SIZE)
                   (unat (rh_record_length header) - RECORD_HEADER_SIZE)) (\<lambda>payload.
       if crc32 payload \<noteq> rh_checksum header then Err (InvalidData, ''record checksum mismatch'')
       else if length payload < 40 then Panic
       else obind (read_fields payload (unat (rh_field_count header)) 40) (\<lambda>(flds, pos).
         Ok \<lparr> br_index = rh_index header, br_version = rh_version header, br_flags = rh_flags header,
           br_uuid = slice 0 16 payload, br_created_at = from_le (slice 16 24 payload),
           br_updated_at = from_le (slice 24 32 payload),
           br_deleted_at = from_le (slice 32 40 payload), br_fields = flds \<rparr>)))"

subsection \<open>Headers read back\<close>

definition file_header_ok :: "binary_file_header \<Rightarrow> bool" where
  "file_header_ok h \<longleftrightarrow> bh_magic h = BINARY_MAGIC \<and> bh_version h \<le> BINARY_VERSION"

interpretation file_header: sized_codec binary_file_header_serialize binary_file_header_deserialize
  FILE_HEADER_SIZE file_header_ok
  by unfold_locales
    (simp_all add: file_header_ok_def binary_file_header_serialize_def FILE_HEADER_SIZE_def
      binary_file_header_deserialize_def Let_def slice_skip slice_here not_less [symmetric])

interpretation record_header: sized_codec record_header_serialize "\<lambda>d. Ok (record_header_deserialize d)"
  RECORD_HEADER_SIZE "\<lambda>_. True"
  by unfold_locales
    (simp_all add: record_header_serialize_def record_header_deserialize_def RECORD_HEADER_SIZE_def
      slice_skip slice_here slice_all)

lemma file_header_new_ok [simp]: "file_header_ok (binary_file_header_new hash)"
  by (simp add: file_header_ok_def binary_file_header_new_def)

subsection \<open>Fields read back\<close>

definition read_field :: "bytes \<Rightarrow> nat \<Rightarrow> ((bytes \<times> stored_value) \<times> nat) io" where
  "read_field payload pos = obind (read_varint payload pos) (\<lambda>(name_len, pos).
     if length payload < pos + unat name_len then Panic
     else let name = from_utf8_lossy (slice pos (pos + unat name_len) payload) in
       omap (\<lambda>(v, p). ((name, v), p)) (sv_deserialize payload (pos + unat name_len)))"

lemma obind_omap: "obind (omap f m) g = obind m (\<lambda>x. g (f x))"
  by (cases m) auto

lemma read_fields_read_n: "read_fields payload n pos = read_n read_field payload n pos"
proof (induction n arbitrary: pos)
  case (Suc n)
  have "read_fields payload (Suc n) pos = obind (read_field payload pos) (\<lambda>(x, p).
      omap (\<lambda>(xs, q). (x # xs, q)) (read_fields payload n p))"
    by (cases "read_varint payload pos")
      (auto simp: read_field_def Let_def obind_omap intro!: obind_cong split: prod.split)
  then show ?case
    by (simp add: Suc)
qed simp

definition field_ok :: "bytes \<times> stored_value \<Rightarrow> bool" where
  "field_ok = (\<lambda>(name, v). valid_utf8 name \<and> length name < 2 ^ 63 \<and> wf_value v)"

interpretation field: stream_codec field_bytes read_field field_ok
proof unfold_locales
  fix f data pos rest
  assume ok: "field_ok f" and len: "length data < 2 ^ 63" and pos: "pos \<le> length data"
    and d: "drop pos data = field_bytes f @ rest"
  obtain name v where f: "f = (name, v)"
    by (cases f)
  have wf: "valid_utf8 name" "length name < 2 ^ 63" "wf_value v"
    using ok by (simp_all add: field_ok_def f)
  have "drop pos data = write_varint (of_nat (length name)) @ name @ (sv_serialize v @ rest)"
    using d by (simp add: f field_bytes_def)
  note n = read_sized [OF this len pos wf(2)]
  from n sv.dec_at [OF wf(3) len n(6,5)] show "read_field data pos = Ok (f, pos + length (field_bytes f))"
    by (simp add: read_field_def f field_bytes_def from_utf8_lossy_valid wf add.assoc)
qed

lemma read_fields_written:
  assumes "\<forall>f \<in> set fs. field_ok f" "length (pre @ concat (map field_bytes fs)) < 2 ^ 63"
  shows "\<exists>p. read_fields (pre @ concat (map field_bytes fs)) (length fs) (length pre) = Ok (fs, p)"
  using field.read_n_at [OF assms(1,2), of "length pre" "[]"] by (simp add: read_fields_read_n)

subsection \<open>The writer's invariant\<close>

definition writer_ok :: "binary_writer \<Rightarrow> bytes \<Rightarrow> bool" where
  "writer_ok w file \<longleftrightarrow> file_header_ok (bw_header w) \<and>
     bh_file_size (bw_header w) = bw_write_offset w \<and> unat (bw_write_offset w) = length file \<and>
     FILE_HEADER_SIZE \<le> length file \<and> 8 dvd length file \<and>
     slice 0 FILE_HEADER_SIZE file = binary_file_header_serialize (bw_header w)"

text \<open>What fits the widths of the format.\<close>

definition record_fits :: "uuid7 \<Rightarrow> field_list \<Rightarrow> bytes \<Rightarrow> bool" where
  "record_fits uuid flds file \<longleftrightarrow> length uuid = 16 \<and> length flds < 2 ^ 16 \<and> (\<forall>f \<in> set flds. field_ok f) \<and>
     72 + length (concat (map field_bytes flds)) < 2 ^ 32 \<and> length file < 2 ^ 63"

text \<open>The header \<open>write_record\<close> writes, its padding, and the writer it leaves.\<close>

definition new_record_header :: "u64 \<Rightarrow> u32 \<Rightarrow> bytes \<Rightarrow> field_list \<Rightarrow> record_header" where
  "new_record_header index version payload flds = \<lparr> rh_record_length = of_nat (24 + length payload),
     rh_flags = FLAG_ACTIVE, rh_field_count = of_nat (length flds), rh_index = index,
     rh_version = version, rh_checksum = crc32 payload \<rparr>"

definition padding8 :: "nat \<Rightarrow> nat" where
  "padding8 n = (8 - n mod 8) mod 8"

lemma padding8: "8 dvd n + padding8 n" "padding8 n < 8"
proof -
  obtain q r where n: "n = 8 * q + r" "r < 8"
    by (metis mult_div_mod_eq mod_less_divisor zero_less_numeral)
  then have "n + padding8 n = 8 * q \<or> n + padding8 n = 8 * (q + 1)"
    by (cases "r = 0") (simp_all add: padding8_def)
  then show "8 dvd n + padding8 n"
    by (metis dvd_triv_left)
qed (simp add: padding8_def)

lemma unat_of_nat_u32: "n < 2 ^ 32 \<Longrightarrow> unat (of_nat n :: u32) = n"
  by (simp add: unat_of_nat take_bit_nat_eq_self)

lemma unat_of_nat_u16: "n < 2 ^ 16 \<Longrightarrow> unat (of_nat n :: u16) = n"
  by (simp add: unat_of_nat take_bit_nat_eq_self)

lemma binary_write_record_parts:
  assumes "record_fits uuid flds file" "writer_ok w file"
    and "binary_write_record index version uuid c u d flds w file = ((off, tot), w', file')"
  defines "payload \<equiv> record_payload uuid c u d flds"
  defines "body \<equiv> record_header_serialize (new_record_header index version payload flds) @ payload @
      replicate (padding8 (24 + length payload)) 0"
  shows "off = bw_write_offset w" "unat tot = length body" "unat (bw_write_offset w') = length file + length body"
    "bw_header w' = (bw_header w)\<lparr> bh_object_count := bh_object_count (bw_header w) + 1,
       bh_file_size := bw_write_offset w' \<rparr>"
    "file' = write_at (write_at file (length file) body) 0 (binary_file_header_serialize (bw_header w'))"
    "8 dvd length body" "length body = 24 + length payload + padding8 (24 + length payload)"
proof -
  have len: "length payload = 40 + length (concat (map field_bytes flds))"
    using assms(1) by (simp add: payload_def record_payload_def record_fits_def)
  then have fits: "24 + length payload + 8 < 2 ^ 32"
    using assms(1) by (simp add: record_fits_def)
  then have rl: "unat (of_nat (RECORD_HEADER_SIZE + length payload) :: u32) = 24 + length payload"
    by (subst unat_of_nat_u32) (simp_all add: RECORD_HEADER_SIZE_def)
  note pad = padding8 [of "24 + length payload"]
  show body: "length body = 24 + length payload + padding8 (24 + length payload)"
    by (simp add: body_def record_header.enc_size RECORD_HEADER_SIZE_def)
  with pad show "8 dvd length body"
    by simp
  have parts: "off = bw_write_offset w \<and> tot = of_nat (length body) \<and>
      bw_write_offset w' = bw_write_offset w + of_nat (length body) \<and>
      bw_header w' = (bw_header w)\<lparr> bh_object_count := bh_object_count (bw_header w) + 1,
       bh_file_size := bw_write_offset w' \<rparr> \<and>
      file' = write_at (write_at file (unat (bw_write_offset w)) body) 0 (binary_file_header_serialize (bw_header w'))"
    using assms(3)
    unfolding binary_write_record_def Let_def payload_def [symmetric] rl padding8_def [symmetric]
    unfolding body [unfolded body_def] body_def
    by (auto simp: new_record_header_def RECORD_HEADER_SIZE_def body [unfolded body_def])
  have wo: "unat (bw_write_offset w) = length file"
    using assms(2) by (simp add: writer_ok_def)
  show "off = bw_write_offset w"
    "bw_header w' = (bw_header w)\<lparr> bh_object_count := bh_object_count (bw_header w) + 1,
       bh_file_size := bw_write_offset w' \<rparr>"
    "file' = write_at (write_at file (length file) body) 0 (binary_file_header_serialize (bw_header w'))"
    using parts wo by auto
  have "length body < 2 ^ 32"
    using body pad fits by simp
  then show "unat tot = length body"
    using parts by (simp add: unat_of_nat_u32)
  have "length file + length body < 2 ^ 64"
    using assms(1) \<open>length body < 2 ^ 32\<close> by (simp add: record_fits_def)
  then show "unat (bw_write_offset w') = length file + length body"
    using parts wo \<open>length body < 2 ^ 32\<close> by (simp add: unat_word_ariths unat_of_nat take_bit_nat_eq_self)
qed


text \<open>Rewriting the header in place leaves everything after it, and the length, as they were.\<close>

lemma slice_write_header:
  assumes "file_header_ok h" "64 \<le> lo" "64 \<le> length file"
  shows "slice lo hi (write_at file 0 (binary_file_header_serialize h)) = slice lo hi file"
  using assms file_header.enc_size [of h] by (intro slice_write_at_after) (auto simp: FILE_HEADER_SIZE_def)

lemma file_header_ok_update [simp]:
  "file_header_ok (h\<lparr> bh_object_count := n, bh_file_size := m \<rparr>) = file_header_ok h"
  by (simp add: file_header_ok_def)

lemma binary_write_record_slices:
  assumes "record_fits uuid flds file" "writer_ok w file"
    and "binary_write_record index version uuid c u d flds w file = (r, w', file')"
  defines "payload \<equiv> record_payload uuid c u d flds"
  shows "length file + 24 + length payload \<le> length file'"
    "slice (length file) (length file + 24) file' =
       record_header_serialize (new_record_header index version payload flds)"
    "slice (length file + 24) (length file + 24 + length payload) file' = payload"
    "64 \<le> lo \<Longrightarrow> hi \<le> length file \<Longrightarrow> slice lo hi file' = slice lo hi file"
    "writer_ok w' file'"
proof -
  obtain off tot where r: "r = (off, tot)"
    by (cases r)
  define rh where "rh = record_header_serialize (new_record_header index version payload flds)"
  define body where "body = rh @ payload @ replicate (padding8 (24 + length payload)) 0"
  note parts = binary_write_record_parts [OF assms(1,2) assms(3) [unfolded r], folded payload_def, folded rh_def,
      folded body_def]
  have w: "file_header_ok (bw_header w)" "64 \<le> length file" "8 dvd length file"
    using assms(2) by (simp_all add: writer_ok_def FILE_HEADER_SIZE_def)
  have h: "file_header_ok (bw_header w')" "length (binary_file_header_serialize (bw_header w')) = 64"
    using w(1) parts(4) file_header.enc_size [of "bw_header w'"] by (simp_all add: FILE_HEADER_SIZE_def)
  have rh: "length rh = 24"
    unfolding rh_def by (simp add: record_header.enc_size RECORD_HEADER_SIZE_def)
  have mid: "slice lo hi file' = slice lo hi (write_at file (length file) body)" if "64 \<le> lo" for lo hi
    unfolding parts(5) using that w h by (intro slice_write_header) auto
  have app: "write_at file (length file) body = file @ body"
    by (simp add: write_at_def)
  show "length file + 24 + length payload \<le> length file'"
    using parts(7) by (simp add: parts(5))
  show "slice (length file) (length file + 24) file' = rh"
    using w rh by (simp add: mid app slice_skip) (simp add: slice_skip slice_here body_def)
  show "slice (length file + 24) (length file + 24 + length payload) file' = payload"
    using w rh by (simp add: mid app slice_skip) (simp add: slice_skip slice_here body_def)
  show "slice lo hi file' = slice lo hi file" if "64 \<le> lo" "hi \<le> length file" for lo hi
    unfolding mid [OF that(1)] app using that by (simp add: slice_def)
  show "writer_ok w' file'"
    unfolding writer_ok_def using w h parts slice_write_at [of 0 "binary_file_header_serialize (bw_header w')"]
    by (simp add: FILE_HEADER_SIZE_def)
qed


text \<open>A read depends only on the bytes of its record.\<close>

lemma binary_read_record_kept:
  assumes "binary_read_record file off = Ok r"
    and same: "\<And>lo hi. unat off \<le> lo \<Longrightarrow> hi \<le> length file \<Longrightarrow> slice lo hi file' = slice lo hi file"
    and "length file \<le> length file'"
  shows "binary_read_record file' off = Ok r"
proof -
  have read: "read_exact_at file' lo n = Ok d" if "read_exact_at file lo n = Ok d" "unat off \<le> lo" for lo n d
    using that same [of lo "lo + n"] assms(3) by (simp add: outcome_simps)
  have hdr: "read_exact_at file (unat off) RECORD_HEADER_SIZE = Ok d \<Longrightarrow>
      read_exact_at file' (unat off) RECORD_HEADER_SIZE = Ok d" for d
    by (rule read) simp_all
  have body: "read_exact_at file (unat off + RECORD_HEADER_SIZE) n = Ok d \<Longrightarrow>
      read_exact_at file' (unat off + RECORD_HEADER_SIZE) n = Ok d" for d n
    by (rule read) simp_all
  obtain buf where buf: "read_exact_at file (unat off) RECORD_HEADER_SIZE = Ok buf"
    and rl: "\<not> unat (rh_record_length (record_header_deserialize buf)) < RECORD_HEADER_SIZE"
    using assms(1) by (auto simp: binary_read_record_def outcome_simps Let_def split: if_splits)
  with assms(1) obtain payload where payload: "read_exact_at file (unat off + RECORD_HEADER_SIZE)
      (unat (rh_record_length (record_header_deserialize buf)) - RECORD_HEADER_SIZE) = Ok payload"
    by (auto simp: binary_read_record_def Let_def obind_Ok_iff)
  show ?thesis
    using assms(1) hdr [OF buf] body [OF payload] buf payload rl
    by (simp add: binary_read_record_def Let_def split del: if_split)
qed

lemma binary_record_read_back:
  assumes "writer_ok w file" "record_fits uuid flds file"
    and "binary_write_record index version uuid created updated deleted flds w file = ((off, tot), w', file')"
  shows "binary_read_record file' off = Ok \<lparr> br_index = index, br_version = version,
      br_flags = FLAG_ACTIVE, br_uuid = uuid, br_created_at = created, br_updated_at = updated,
      br_deleted_at = deleted, br_fields = flds \<rparr> \<and> 8 dvd unat off \<and>
    (\<forall>o' r. 64 \<le> unat o' \<longrightarrow> binary_read_record file o' = Ok r \<longrightarrow> binary_read_record file' o' = Ok r)"
proof (intro conjI allI impI)
  define pre where "pre = uuid @ to_le 8 created @ to_le 8 updated @ to_le 8 deleted"
  define payload where "payload = record_payload uuid created updated deleted flds"
  have payload: "payload = pre @ concat (map field_bytes flds)"
    by (simp add: payload_def record_payload_def pre_def)
  have pre: "length pre = 40"
    using assms(2) by (simp add: pre_def record_fits_def)
  define h where "h = new_record_header index version payload flds"
  note s = binary_write_record_slices [OF assms(2,1,3), folded payload_def, folded h_def]
  have off: "unat off = length file" and dvd: "8 dvd length file"
    using binary_write_record_parts(1) [OF assms(2,1,3)] assms(1) by (auto simp: writer_ok_def)
  then show "8 dvd unat off"
    by simp
  have rl: "unat (rh_record_length h) = 24 + length payload"
    unfolding h_def new_record_header_def using assms(2) pre
    by (simp only: record_header.select_convs, subst unat_of_nat_u32) (simp_all add: payload record_fits_def)
  have fc: "unat (rh_field_count h) = length flds"
    unfolding h_def new_record_header_def using assms(2)
    by (simp only: record_header.select_convs, subst unat_of_nat_u16) (simp_all add: record_fits_def)
  have h: "rh_checksum h = crc32 payload" "rh_index h = index" "rh_version h = version" "rh_flags h = FLAG_ACTIVE"
    by (simp_all add: h_def new_record_header_def)
  have len: "\<not> length payload < 40"
    using pre by (simp add: payload)
  have hd: "record_header_deserialize (record_header_serialize h) = h"
    using record_header.dec_enc [of h] by simp
  have r1: "read_exact_at file' (unat off) RECORD_HEADER_SIZE = Ok (record_header_serialize h)"
    using s(1,2) by (simp add: outcome_simps off RECORD_HEADER_SIZE_def)
  have r2: "read_exact_at file' (unat off + RECORD_HEADER_SIZE) (length payload) = Ok payload"
    using s(1,3) by (simp add: outcome_simps off RECORD_HEADER_SIZE_def)
  have "length payload < 2 ^ 63" "\<forall>f \<in> set flds. field_ok f"
    using assms(2) pre by (simp_all add: payload record_fits_def)
  then obtain p where f: "read_fields payload (length flds) 40 = Ok (flds, p)"
    using read_fields_written [of flds pre] by (auto simp: payload pre)
  have parts: "slice 0 16 payload = uuid" "slice 16 24 payload = to_le 8 created"
    "slice 24 32 payload = to_le 8 updated" "slice 32 40 payload = to_le 8 deleted"
    using assms(2) by (simp_all add: payload pre_def record_fits_def slice_skip slice_here)
  show "binary_read_record file' off = Ok \<lparr> br_index = index, br_version = version,
      br_flags = FLAG_ACTIVE, br_uuid = uuid, br_created_at = created, br_updated_at = updated,
      br_deleted_at = deleted, br_fields = flds \<rparr>"
    unfolding binary_read_record_def r1 obind.simps Let_def hd rl fc h parts
    by (simp add: RECORD_HEADER_SIZE_def r2 [unfolded RECORD_HEADER_SIZE_def] len f parts)
next
  fix o' :: u64 and r
  assume o': "64 \<le> unat o'" and r: "binary_read_record file o' = Ok r"
  note s = binary_write_record_slices [OF assms(2,1,3)]
  show "binary_read_record file' o' = Ok r"
  proof (rule binary_read_record_kept [OF r])
    show "slice lo hi file' = slice lo hi file" if "unat o' \<le> lo" "hi \<le> length file" for lo hi
      by (rule s(4)) (use that o' in simp_all)
    show "length file \<le> length file'"
      using s(1) by simp
  qed
qed

lemma binary_writer_reopen:
  assumes "writer_ok w file" "bh_store_type_hash (bw_header w) = hash"
  shows "binary_writer_open (Some file) hash = Ok (w, file)"
proof -
  have "obind (read_exact_at file 0 FILE_HEADER_SIZE) binary_file_header_deserialize = Ok (bw_header w)"
    using assms(1) by (intro file_header.read_back) (simp_all add: writer_ok_def)
  then show ?thesis
    using assms by (auto simp: binary_writer_open_def binary_writer_load_def outcome_simps writer_ok_def)
qed

lemma binary_writer_new:
  "binary_writer_open None hash = Ok (w, file) \<Longrightarrow> writer_ok w file \<and> bh_store_type_hash (bw_header w) = hash"
  using file_header.enc_size [of "binary_file_header_new hash"]
  by (auto simp: binary_writer_open_def Let_def writer_ok_def write_at_def slice_all FILE_HEADER_SIZE_def)
    (simp_all add: binary_file_header_new_def FILE_HEADER_SIZE_def)

lemma binary_write_record_keeps:
  assumes "record_fits uuid flds file" "writer_ok w file"
    and "binary_write_record index version uuid c u d flds w file = (r, w', file')"
  shows "writer_ok w' file'" "bh_store_type_hash (bw_header w') = bh_store_type_hash (bw_header w)"
    "bh_object_count (bw_header w') = bh_object_count (bw_header w) + 1"
proof -
  obtain off tot where r: "r = (off, tot)"
    by (cases r)
  note p = binary_write_record_parts [OF assms(1,2) assms(3) [unfolded r]]
  show "writer_ok w' file'"
    by (rule binary_write_record_slices(5) [OF assms])
  show "bh_store_type_hash (bw_header w') = bh_store_type_hash (bw_header w)"
    "bh_object_count (bw_header w') = bh_object_count (bw_header w) + 1"
    by (simp_all add: p(4))
qed

text \<open>
  C12: a record written to a well-formed store file is read back, field for field, at the offset
  \<open>write_record\<close> returned, which is a multiple of 8; and every record readable before the write
  is read the same after it.
\<close>

theorem binary_record_roundtrip:
  assumes "writer_ok w file" "record_fits uuid flds file"
    and "binary_write_record index version uuid created updated deleted flds w file = ((off, tot), w', file')"
  shows "binary_read_record file' off = Ok \<lparr> br_index = index, br_version = version,
      br_flags = FLAG_ACTIVE, br_uuid = uuid, br_created_at = created, br_updated_at = updated,
      br_deleted_at = deleted, br_fields = flds \<rparr> \<and> 8 dvd unat off \<and>
    (\<forall>o' r. 64 \<le> unat o' \<longrightarrow> binary_read_record file o' = Ok r \<longrightarrow> binary_read_record file' o' = Ok r)"
  by (rule binary_record_read_back [OF assms])

text \<open>
  C31: the writer keeps its invariant: opening a new file establishes it, every \<open>write_record\<close>
  that fits preserves it, and a writer that reopens the file resumes exactly where it was left.
\<close>

theorem binary_writer_invariant:
  assumes "writer_ok w file" "record_fits uuid flds file"
    and "binary_write_record index version uuid c u d flds w file = (r, w', file')"
    and "bh_store_type_hash (bw_header w) = hash"
  shows "writer_ok w' file' \<and> binary_writer_open (Some file') hash = Ok (w', file') \<and>
    bh_object_count (bw_header w') = bh_object_count (bw_header w) + 1 \<and>
    (\<forall>w0 f0. binary_writer_open None hash = Ok (w0, f0) \<longrightarrow> writer_ok w0 f0)"
  using binary_write_record_keeps [OF assms(2,1,3)] assms(4) binary_writer_new
  by (auto intro: binary_writer_reopen)


lemma new_writer_ok:
  "writer_ok \<lparr> bw_header = binary_file_header_new hash, bw_write_offset = 64 \<rparr>
     (binary_file_header_serialize (binary_file_header_new hash))"
  using file_header.enc_size [of "binary_file_header_new hash"]
  by (auto simp: writer_ok_def slice_all FILE_HEADER_SIZE_def)
    (simp_all add: binary_file_header_new_def FILE_HEADER_SIZE_def)

lemma small_record_fits:
  "record_fits uuid_nil [(bstr ''n'', SInt 5)] (binary_file_header_serialize (binary_file_header_new hash))"
  using file_header.enc_size [of "binary_file_header_new hash"]
  by (simp add: record_fits_def uuid_nil_def field_ok_def field_bytes_def bstr_def valid_utf8_ascii
      write_varint.simps FILE_HEADER_SIZE_def)

lemma binary_record_roundtrip_witness:
  "case binary_write_record 1 2 uuid_nil 10 11 0 [(bstr ''n'', SInt 5)]
       \<lparr> bw_header = binary_file_header_new 7, bw_write_offset = 64 \<rparr>
       (binary_file_header_serialize (binary_file_header_new 7)) of ((off, tot), w', file') \<Rightarrow>
     binary_read_record file' off = Ok \<lparr> br_index = 1, br_version = 2, br_flags = FLAG_ACTIVE,
       br_uuid = uuid_nil, br_created_at = 10, br_updated_at = 11, br_deleted_at = 0,
       br_fields = [(bstr ''n'', SInt 5)] \<rparr>"
  using binary_record_roundtrip [OF new_writer_ok small_record_fits] by (auto split: prod.split)

lemma binary_writer_invariant_witness:
  "case binary_write_record 1 2 uuid_nil 10 11 0 [(bstr ''n'', SInt 5)]
       \<lparr> bw_header = binary_file_header_new 7, bw_write_offset = 64 \<rparr>
       (binary_file_header_serialize (binary_file_header_new 7)) of (r, w', file') \<Rightarrow>
     binary_writer_open (Some file') 7 = Ok (w', file')"
proof -
  have "bh_store_type_hash (bw_header \<lparr> bw_header = binary_file_header_new 7, bw_write_offset = 64 \<rparr>) = 7"
    by (simp add: binary_file_header_new_def)
  note w = binary_writer_invariant [OF new_writer_ok small_record_fits _ this]
  show ?thesis
    using w by (auto split: prod.split)
qed

end
