(* ===== verification/Store_Index.thy ===== *)
theory Store_Index
  imports Store_Record Coral_Map "HOL-Library.Multiset"
begin

text \<open>
  The primary index (\<open>runtime/src/store/index.rs\<close>): the 64-byte header and entries of the index
  file, and \<open>PrimaryIndex\<close> with its two hash maps. Loading allocates for the count in the header;
  that the allocation succeeds is assumed.
\<close>

subsection \<open>Header and entries\<close>

definition HEADER_SIZE :: nat where "HEADER_SIZE = 64"
definition ENTRY_SIZE :: nat where "ENTRY_SIZE = 64"

record index_header =
  ih_magic :: bytes
  ih_version :: u32
  ih_entry_count :: u64
  ih_next_index :: u64
  ih_bloom_filter_offset :: u64
  ih_checksum :: u64
  ih_reserved :: bytes

definition index_header_new :: index_header where
  "index_header_new = \<lparr> ih_magic = INDEX_MAGIC, ih_version = INDEX_VERSION, ih_entry_count = 0,
     ih_next_index = 1, ih_bloom_filter_offset = 0, ih_checksum = 0, ih_reserved = replicate 16 0 \<rparr>"

definition index_header_serialize :: "index_header \<Rightarrow> bytes" where
  "index_header_serialize h = ih_magic h @ to_le 4 (ih_version h) @ to_le 8 (ih_entry_count h) @
     to_le 8 (ih_next_index h) @ to_le 8 (ih_bloom_filter_offset h) @ to_le 8 (ih_checksum h) @
     replicate 20 0"

definition index_header_deserialize :: "bytes \<Rightarrow> index_header io" where
  "index_header_deserialize data =
     (let magic = slice 0 8 data; version = from_le (slice 8 12 data) in
      if magic \<noteq> INDEX_MAGIC then Err (InvalidData, ''invalid index file magic'')
      else if version > INDEX_VERSION then Err (InvalidData, ''unsupported index version'')
      else Ok \<lparr> ih_magic = magic, ih_version = version,
        ih_entry_count = from_le (slice 12 20 data), ih_next_index = from_le (slice 20 28 data),
        ih_bloom_filter_offset = from_le (slice 28 36 data), ih_checksum = from_le (slice 36 44 data),
        ih_reserved = replicate 16 0 \<rparr>)"

record index_entry =
  ie_index :: u64
  ie_uuid :: bytes
  ie_binary_offset :: u64
  ie_binary_length :: u32
  ie_json_offset :: u64
  ie_json_length :: u32
  ie_flags :: u16
  ie_version :: u16

definition index_entry_new :: "u64 \<Rightarrow> uuid7 \<Rightarrow> index_entry" where
  "index_entry_new index uuid = \<lparr> ie_index = index, ie_uuid = uuid, ie_binary_offset = 0,
     ie_binary_length = 0, ie_json_offset = 0, ie_json_length = 0, ie_flags = FLAG_ACTIVE,
     ie_version = 1 \<rparr>"

definition index_entry_serialize :: "index_entry \<Rightarrow> bytes" where
  "index_entry_serialize e = to_le 8 (ie_index e) @ ie_uuid e @ to_le 8 (ie_binary_offset e) @
     to_le 4 (ie_binary_length e) @ to_le 8 (ie_json_offset e) @ to_le 4 (ie_json_length e) @
     to_le 2 (ie_flags e) @ to_le 2 (ie_version e) @ replicate 12 0"

definition index_entry_deserialize :: "bytes \<Rightarrow> index_entry" where
  "index_entry_deserialize data = \<lparr> ie_index = from_le (slice 0 8 data), ie_uuid = slice 8 24 data,
     ie_binary_offset = from_le (slice 24 32 data), ie_binary_length = from_le (slice 32 36 data),
     ie_json_offset = from_le (slice 36 44 data), ie_json_length = from_le (slice 44 48 data),
     ie_flags = from_le (slice 48 50 data), ie_version = from_le (slice 50 52 data) \<rparr>"

definition ie_is_deleted :: "index_entry \<Rightarrow> bool" where
  "ie_is_deleted e \<longleftrightarrow> ie_flags e AND FLAG_DELETED \<noteq> 0"

definition ie_is_soft_deleted :: "index_entry \<Rightarrow> bool" where
  "ie_is_soft_deleted e \<longleftrightarrow> ie_flags e AND FLAG_SOFT_DELETED \<noteq> 0"

definition ie_mark_deleted :: "index_entry \<Rightarrow> index_entry" where
  "ie_mark_deleted e = e\<lparr> ie_flags := ie_flags e OR FLAG_DELETED, ie_binary_offset := 0 \<rparr>"

definition ie_mark_soft_deleted :: "index_entry \<Rightarrow> index_entry" where
  "ie_mark_soft_deleted e = e\<lparr> ie_flags := ie_flags e OR FLAG_SOFT_DELETED \<rparr>"

subsection \<open>\<open>PrimaryIndex\<close>\<close>

record primary_index =
  pi_header :: index_header
  pi_by_index :: "(u64, index_entry) hmap"
  pi_uuid_to_index :: "(bytes, u64) hmap"
  pi_dirty :: bool

text \<open>The loop of \<open>load\<close>: it stops at the count, or where the file has no whole entry left.\<close>

fun pi_load_entries :: "nat \<Rightarrow> bytes \<Rightarrow> (u64, index_entry) hmap \<Rightarrow> (bytes, u64) hmap \<Rightarrow>
    (u64, index_entry) hmap \<times> (bytes, u64) hmap" where
  "pi_load_entries 0 data by_index by_uuid = (by_index, by_uuid)"
| "pi_load_entries (Suc n) data by_index by_uuid =
     (if length data < ENTRY_SIZE then (by_index, by_uuid)
      else let entry = index_entry_deserialize (take ENTRY_SIZE data) in
        pi_load_entries n (drop ENTRY_SIZE data) (hm_insert (ie_index entry) entry by_index)
          (hm_insert (ie_uuid entry) (ie_index entry) by_uuid))"

definition pi_load :: "bytes \<Rightarrow> primary_index io" where
  "pi_load file =
     obind (read_exact_at file 0 HEADER_SIZE) (\<lambda>buf.
     obind (index_header_deserialize buf) (\<lambda>header.
     let (by_index, by_uuid) = pi_load_entries (unat (ih_entry_count header)) (drop HEADER_SIZE file) [] []
     in Ok \<lparr> pi_header = header, pi_by_index = by_index, pi_uuid_to_index = by_uuid, pi_dirty = False \<rparr>))"

definition pi_open :: "bytes option \<Rightarrow> primary_index io" where
  "pi_open file = (case file of Some contents \<Rightarrow> pi_load contents
     | None \<Rightarrow> Ok \<lparr> pi_header = index_header_new, pi_by_index = [], pi_uuid_to_index = [], pi_dirty = False \<rparr>)"

text \<open>The index and the file after \<open>save\<close>.\<close>

definition pi_save :: "primary_index \<Rightarrow> bytes option \<Rightarrow> primary_index \<times> bytes option" where
  "pi_save pi file =
     (if \<not> pi_dirty pi then (pi, file)
      else let header = (pi_header pi)\<lparr> ih_entry_count := of_nat (length (pi_by_index pi)) \<rparr>;
               entries = sort_key ie_index (map snd (pi_by_index pi))
           in (pi\<lparr> pi_header := header, pi_dirty := False \<rparr>,
               Some (index_header_serialize header @ concat (map index_entry_serialize entries))))"

definition pi_allocate_index :: "primary_index \<Rightarrow> u64 \<times> primary_index" where
  "pi_allocate_index pi = (let index = ih_next_index (pi_header pi) in
     (index, pi\<lparr> pi_header := (pi_header pi)\<lparr> ih_next_index := index + 1 \<rparr>, pi_dirty := True \<rparr>))"

definition pi_insert :: "index_entry \<Rightarrow> primary_index \<Rightarrow> primary_index" where
  "pi_insert entry pi = pi\<lparr> pi_uuid_to_index := hm_insert (ie_uuid entry) (ie_index entry) (pi_uuid_to_index pi),
     pi_by_index := hm_insert (ie_index entry) entry (pi_by_index pi), pi_dirty := True \<rparr>"

definition pi_get_by_index :: "u64 \<Rightarrow> primary_index \<Rightarrow> index_entry option" where
  "pi_get_by_index index pi = hm_get index (pi_by_index pi)"

definition pi_get_by_uuid :: "bytes \<Rightarrow> primary_index \<Rightarrow> index_entry option" where
  "pi_get_by_uuid uuid pi =
     Option.bind (hm_get uuid (pi_uuid_to_index pi)) (\<lambda>idx. hm_get idx (pi_by_index pi))"

definition pi_update :: "index_entry \<Rightarrow> primary_index \<Rightarrow> bool \<times> primary_index" where
  "pi_update entry pi = (if hm_contains (ie_index entry) (pi_by_index pi)
     then (True, pi\<lparr> pi_by_index := hm_insert (ie_index entry) entry (pi_by_index pi), pi_dirty := True \<rparr>)
     else (False, pi))"

text \<open>\<open>get_mut\<close> followed by a change in place.\<close>

definition pi_modify :: "u64 \<Rightarrow> (index_entry \<Rightarrow> index_entry) \<Rightarrow> primary_index \<Rightarrow> bool \<times> primary_index" where
  "pi_modify index f pi = (case hm_get index (pi_by_index pi) of
       Some entry \<Rightarrow> (True, pi\<lparr> pi_by_index := hm_insert index (f entry) (pi_by_index pi), pi_dirty := True \<rparr>)
     | None \<Rightarrow> (False, pi))"

definition pi_update_offsets ::
    "u64 \<Rightarrow> u64 \<Rightarrow> u32 \<Rightarrow> u64 \<Rightarrow> u32 \<Rightarrow> primary_index \<Rightarrow> bool \<times> primary_index" where
  "pi_update_offsets index binary_offset binary_length json_offset json_length =
     pi_modify index (\<lambda>entry. entry\<lparr> ie_binary_offset := binary_offset, ie_binary_length := binary_length,
       ie_json_offset := json_offset, ie_json_length := json_length \<rparr>)"

definition pi_mark_deleted :: "u64 \<Rightarrow> primary_index \<Rightarrow> bool \<times> primary_index" where
  "pi_mark_deleted index = pi_modify index ie_mark_deleted"

definition pi_mark_soft_deleted :: "u64 \<Rightarrow> primary_index \<Rightarrow> bool \<times> primary_index" where
  "pi_mark_soft_deleted index = pi_modify index ie_mark_soft_deleted"

text \<open>\<open>saturating_add(1)\<close> on the entry's \<open>u16\<close> version.\<close>

definition saturating_inc16 :: "u16 \<Rightarrow> u16" where
  "saturating_inc16 v = (if v = 0xFFFF then v else v + 1)"

definition pi_increment_version :: "u64 \<Rightarrow> primary_index \<Rightarrow> u16 option \<times> primary_index" where
  "pi_increment_version index pi = (case hm_get index (pi_by_index pi) of
       Some entry \<Rightarrow> (let v = saturating_inc16 (ie_version entry) in (Some v,
         pi\<lparr> pi_by_index := hm_insert index (entry\<lparr> ie_version := v \<rparr>) (pi_by_index pi), pi_dirty := True \<rparr>))
     | None \<Rightarrow> (None, pi))"

definition pi_all_active :: "primary_index \<Rightarrow> index_entry list" where
  "pi_all_active pi = filter (\<lambda>e. \<not> ie_is_deleted e) (map snd (pi_by_index pi))"

definition pi_count :: "primary_index \<Rightarrow> nat" where
  "pi_count pi = length (filter (\<lambda>e. \<not> ie_is_deleted e) (map snd (pi_by_index pi)))"

definition pi_len :: "primary_index \<Rightarrow> nat" where
  "pi_len pi = length (pi_by_index pi)"

subsection \<open>What is written is read back\<close>

definition index_header_ok :: "index_header \<Rightarrow> bool" where
  "index_header_ok h \<longleftrightarrow> ih_magic h = INDEX_MAGIC \<and> ih_version h \<le> INDEX_VERSION \<and> ih_reserved h = replicate 16 0"

interpretation index_header: sized_codec index_header_serialize index_header_deserialize
  HEADER_SIZE index_header_ok
  by unfold_locales
    (simp_all add: index_header_ok_def index_header_serialize_def HEADER_SIZE_def
      index_header_deserialize_def Let_def slice_skip slice_here not_less [symmetric])

interpretation index_entry: sized_codec index_entry_serialize "\<lambda>d. Ok (index_entry_deserialize d)"
  ENTRY_SIZE "\<lambda>e. length (ie_uuid e) = 16"
  by unfold_locales
    (simp_all add: index_entry_serialize_def index_entry_deserialize_def ENTRY_SIZE_def
      slice_skip slice_here slice_all)

definition pi_ok :: "primary_index \<Rightarrow> bool" where
  "pi_ok pi \<longleftrightarrow> index_header_ok (pi_header pi) \<and> hm_keys_ok (pi_by_index pi) \<and>
     (\<forall>(k, e) \<in> set (pi_by_index pi). ie_index e = k \<and> length (ie_uuid e) = 16) \<and>
     (\<forall>uuid i. hm_get uuid (pi_uuid_to_index pi) = Some i \<longleftrightarrow>
        (\<exists>e. hm_get i (pi_by_index pi) = Some e \<and> ie_uuid e = uuid))"

lemma pi_ok_get: "pi_ok pi \<Longrightarrow> hm_get k (pi_by_index pi) = Some e \<Longrightarrow> ie_index e = k \<and> length (ie_uuid e) = 16"
  by (auto simp: pi_ok_def hm_get_Some)

lemma pi_get_by_uuid_iff:
  "pi_ok pi \<Longrightarrow> pi_get_by_uuid uuid pi = Some e \<longleftrightarrow> (\<exists>i. pi_get_by_index i pi = Some e \<and> ie_uuid e = uuid)"
proof -
  assume ok: "pi_ok pi"
  then have u: "hm_get uuid (pi_uuid_to_index pi) = Some i \<longleftrightarrow>
      (\<exists>e. hm_get i (pi_by_index pi) = Some e \<and> ie_uuid e = uuid)" for i
    unfolding pi_ok_def by blast
  show ?thesis
  proof
    assume "pi_get_by_uuid uuid pi = Some e"
    then obtain i where "hm_get uuid (pi_uuid_to_index pi) = Some i" "hm_get i (pi_by_index pi) = Some e"
      by (auto simp: pi_get_by_uuid_def bind_eq_Some_conv)
    then have "hm_get i (pi_by_index pi) = Some e" "ie_uuid e = uuid"
      using u [of i] by auto
    then show "\<exists>i. pi_get_by_index i pi = Some e \<and> ie_uuid e = uuid"
      by (auto simp: pi_get_by_index_def)
  next
    assume "\<exists>i. pi_get_by_index i pi = Some e \<and> ie_uuid e = uuid"
    then obtain i where i: "hm_get i (pi_by_index pi) = Some e" "ie_uuid e = uuid"
      by (auto simp: pi_get_by_index_def)
    with u have "hm_get uuid (pi_uuid_to_index pi) = Some i"
      by blast
    with i show "pi_get_by_uuid uuid pi = Some e"
      by (simp add: pi_get_by_uuid_def)
  qed
qed

lemma pi_load_entries_serialize:
  assumes "\<forall>e \<in> set es. length (ie_uuid e) = 16"
  shows "pi_load_entries (length es) (concat (map index_entry_serialize es)) bi bu =
    (fold (\<lambda>e. hm_insert (ie_index e) e) es bi, fold (\<lambda>e. hm_insert (ie_uuid e) (ie_index e)) es bu)"
  using assms
proof (induction es arbitrary: bi bu)
  case (Cons e es)
  then have "length (index_entry_serialize e) = ENTRY_SIZE"
    "index_entry_deserialize (index_entry_serialize e) = e"
    using index_entry.enc_size index_entry.dec_enc [of e] by auto
  with Cons show ?case
    by (simp add: Let_def)
qed simp

lemma option_eqI: "(\<And>x. a = Some x \<longleftrightarrow> b = Some x) \<Longrightarrow> a = b"
  by (cases a; cases b) auto

lemma hm_get_fold_insert:
  "distinct (map f es) \<Longrightarrow> hm_get k (fold (\<lambda>e. hm_insert (f e) (g e)) es m) =
     (case map_of (map (\<lambda>e. (f e, g e)) es) k of Some v \<Rightarrow> Some v | None \<Rightarrow> hm_get k m)"
proof (induction es arbitrary: m)
  case (Cons e es)
  then have "map_of (map (\<lambda>e. (f e, g e)) es) (f e) = None"
    by (simp add: map_of_eq_None_iff comp_def image_image)
  moreover have "hm_get k (fold (\<lambda>e. hm_insert (f e) (g e)) es (hm_insert (f e) (g e) m)) =
      (case map_of (map (\<lambda>e. (f e, g e)) es) k of Some v \<Rightarrow> Some v
       | None \<Rightarrow> hm_get k (hm_insert (f e) (g e) m))"
    using Cons.prems by (intro Cons.IH) simp
  ultimately show ?case
    by (cases "k = f e") (simp_all split: option.split)
qed simp

lemma pi_ok_uuid_inj:
  assumes "pi_ok pi" "(i, e) \<in> set (pi_by_index pi)" "(j, e') \<in> set (pi_by_index pi)" "ie_uuid e = ie_uuid e'"
  shows "e = e'"
proof -
  have e: "hm_get i (pi_by_index pi) = Some e" "hm_get j (pi_by_index pi) = Some e'"
    using assms by (auto simp: pi_ok_def hm_get_Some)
  have u: "hm_get uuid (pi_uuid_to_index pi) = Some i \<longleftrightarrow>
      (\<exists>e. hm_get i (pi_by_index pi) = Some e \<and> ie_uuid e = uuid)" for uuid i
    using assms(1) unfolding pi_ok_def by blast
  have "hm_get (ie_uuid e) (pi_uuid_to_index pi) = Some i" "hm_get (ie_uuid e) (pi_uuid_to_index pi) = Some j"
    using u e assms(4) by auto
  with e show ?thesis
    by simp
qed

lemma pi_ok_entries:
  assumes "pi_ok pi"
  shows "distinct (map ie_index (map snd (pi_by_index pi)))" "distinct (map ie_uuid (map snd (pi_by_index pi)))"
    "\<forall>e \<in> set (map snd (pi_by_index pi)). length (ie_uuid e) = 16"
    "set (map (\<lambda>e. (ie_index e, e)) (map snd (pi_by_index pi))) = set (pi_by_index pi)"
proof -
  have eq: "map ie_index (map snd (pi_by_index pi)) = map fst (pi_by_index pi)"
    using assms by (auto simp: pi_ok_def)
  then show d: "distinct (map ie_index (map snd (pi_by_index pi)))"
    using assms by (simp only: pi_ok_def hm_keys_ok_def)
  show "\<forall>e \<in> set (map snd (pi_by_index pi)). length (ie_uuid e) = 16"
    using assms by (auto simp: pi_ok_def)
  have "map (\<lambda>e. (ie_index e, e)) (map snd (pi_by_index pi)) = pi_by_index pi"
    using assms by (auto simp: pi_ok_def intro!: map_idI)
  then show "set (map (\<lambda>e. (ie_index e, e)) (map snd (pi_by_index pi))) = set (pi_by_index pi)"
    by simp
  have "inj_on ie_uuid (set (map snd (pi_by_index pi)))"
    using pi_ok_uuid_inj [OF assms] by (auto simp: inj_on_def)
  moreover have "distinct (map snd (pi_by_index pi))"
    using d distinct_map by blast
  ultimately show "distinct (map ie_uuid (map snd (pi_by_index pi)))"
    by (simp only: distinct_map)
qed

text \<open>
  C26: an index that is saved and loaded answers every lookup, by number and by identifier, as
  before, with the same next number and as many entries; its invariant is kept.
\<close>

theorem index_save_load:
  assumes "pi_ok pi" "pi_dirty pi" "length (pi_by_index pi) < 2 ^ 63"
    and "pi_save pi file = (pi', file')"
  shows "\<exists>loaded. pi_open file' = Ok loaded \<and> pi_ok loaded \<and>
    (\<forall>i. pi_get_by_index i loaded = pi_get_by_index i pi) \<and>
    (\<forall>u. pi_get_by_uuid u loaded = pi_get_by_uuid u pi) \<and>
    ih_next_index (pi_header loaded) = ih_next_index (pi_header pi) \<and> pi_len loaded = pi_len pi"
proof -
  define h where "h = (pi_header pi)\<lparr> ih_entry_count := of_nat (length (pi_by_index pi)) \<rparr>"
  define es where "es = sort_key ie_index (map snd (pi_by_index pi))"
  define bi where "bi = fold (\<lambda>e. hm_insert (ie_index e) e) es []"
  define bu where "bu = fold (\<lambda>e. hm_insert (ie_uuid e) (ie_index e)) es []"
  define loaded where "loaded = \<lparr> pi_header = h, pi_by_index = bi, pi_uuid_to_index = bu, pi_dirty = False \<rparr>"
  have file': "file' = Some (index_header_serialize h @ concat (map index_entry_serialize es))"
    using assms(2,4) by (auto simp: pi_save_def Let_def h_def es_def)
  have h: "index_header_ok h" "unat (ih_entry_count h) = length es"
    using assms(1,3) by (simp_all add: h_def pi_ok_def index_header_ok_def es_def unat_of_nat_u64)
  note ents = pi_ok_entries [OF assms(1)]
  have set_es: "set es = set (map snd (pi_by_index pi))" and mset: "mset es = mset (map snd (pi_by_index pi))"
    by (simp_all add: es_def)
  have dist: "distinct (map ie_index es)" "distinct (map ie_uuid es)"
    using ents(1,2) mset by (metis mset_map mset_eq_imp_distinct_iff)+
  have "length (index_header_serialize h) = 64"
    using index_header.enc_size [OF h(1)] by (simp add: HEADER_SIZE_def)
  then have "pi_open file' = Ok loaded"
    using index_header.dec_enc [OF h(1)] pi_load_entries_serialize [of es "[]" "[]"] ents(3) h(2)
    by (simp add: pi_open_def file' pi_load_def read_exact_at_def HEADER_SIZE_def slice_here set_es
        loaded_def bi_def bu_def)
  have bi: "hm_get i bi = hm_get i (pi_by_index pi)" for i
  proof -
    have "map_of (map (\<lambda>e. (ie_index e, e)) es) = map_of (pi_by_index pi)"
      using ents(4) set_es assms(1) dist(1)
      by (subst map_of_inject_set) (simp_all add: comp_def image_image pi_ok_def hm_keys_ok_def)
    then show ?thesis
      unfolding bi_def hm_get_fold_insert [OF dist(1), where g = "\<lambda>e. e"]
      by (simp add: hm_get_def split: option.split)
  qed
  have mem: "hm_get i (pi_by_index pi) = Some e \<longleftrightarrow> e \<in> set es \<and> ie_index e = i" for i e
  proof -
    have "hm_get i bi = map_of (map (\<lambda>e. (ie_index e, e)) es) i"
      unfolding bi_def hm_get_fold_insert [OF dist(1), where g = "\<lambda>e. e"] by (simp split: option.split)
    then show ?thesis
      using dist(1) by (subst bi [symmetric], simp, subst map_of_eq_Some_iff) (auto simp: comp_def)
  qed
  have bu: "hm_get u bu = hm_get u (pi_uuid_to_index pi)" for u
  proof -
    have "map_of (map (\<lambda>e. (ie_uuid e, ie_index e)) es) u = Some i \<longleftrightarrow> hm_get u (pi_uuid_to_index pi) = Some i" for i
    proof -
      have "map_of (map (\<lambda>e. (ie_uuid e, ie_index e)) es) u = Some i \<longleftrightarrow>
          (\<exists>e \<in> set es. ie_uuid e = u \<and> ie_index e = i)"
        using dist(2) by (subst map_of_eq_Some_iff) (auto simp: comp_def)
      also have "\<dots> \<longleftrightarrow> (\<exists>e. hm_get i (pi_by_index pi) = Some e \<and> ie_uuid e = u)"
        by (auto simp: mem)
      also have "\<dots> \<longleftrightarrow> hm_get u (pi_uuid_to_index pi) = Some i"
        using assms(1) by (simp add: pi_ok_def)
      finally show ?thesis .
    qed
    then have "map_of (map (\<lambda>e. (ie_uuid e, ie_index e)) es) u = hm_get u (pi_uuid_to_index pi)"
      by (rule option_eqI)
    then show ?thesis
      unfolding bu_def using dist(2) by (simp add: hm_get_fold_insert split: option.split)
  qed
  have keys: "hm_keys_ok bi"
  proof -
    have "hm_keys_ok (fold (\<lambda>e. hm_insert (f e) e) xs m)" if "hm_keys_ok m"
      for f :: "index_entry \<Rightarrow> u64" and xs m
      using that by (induction xs arbitrary: m) auto
    then show ?thesis
      by (simp add: bi_def)
  qed
  have set_bi: "set bi = set (pi_by_index pi)"
    using bi keys assms(1) by (auto simp: pi_ok_def simp flip: hm_get_Some)
  have "pi_ok loaded"
    using assms(1) bi bu keys set_bi h(1) by (simp add: pi_ok_def loaded_def)
  moreover have "length bi = length (pi_by_index pi)"
  proof -
    have "length (map fst bi) = length (map fst (pi_by_index pi))"
      using keys assms(1) set_bi by (simp only: pi_ok_def hm_keys_ok_def flip: distinct_card) simp
    then show ?thesis
      by simp
  qed
  ultimately show ?thesis
    using \<open>pi_open file' = Ok loaded\<close> bi bu
    by (auto simp: loaded_def pi_get_by_index_def pi_get_by_uuid_def h_def pi_len_def)
qed


subsection \<open>Every operation keeps the invariant\<close>

lemma pi_ok_modify:
  assumes "pi_ok pi" "\<And>e. ie_index (f e) = ie_index e \<and> ie_uuid (f e) = ie_uuid e"
    and "pi_modify i f pi = (found, pi')"
  shows "pi_ok pi'" "found \<longleftrightarrow> pi_get_by_index i pi \<noteq> None"
    "pi_get_by_index k pi' = (if k = i then map_option f (pi_get_by_index i pi) else pi_get_by_index k pi)"
    "pi_header pi' = pi_header pi" "pi_len pi' = pi_len pi"
proof -
  show "found \<longleftrightarrow> pi_get_by_index i pi \<noteq> None" "pi_header pi' = pi_header pi" "pi_len pi' = pi_len pi"
    "pi_get_by_index k pi' = (if k = i then map_option f (pi_get_by_index i pi) else pi_get_by_index k pi)"
    using assms(3) by (auto simp: pi_modify_def pi_get_by_index_def pi_len_def length_hm_insert split: option.splits)
  show "pi_ok pi'"
  proof (cases "hm_get i (pi_by_index pi)")
    case None
    with assms(1,3) show ?thesis by (simp add: pi_modify_def)
  next
    case (Some e)
    have e: "ie_index e = i" "length (ie_uuid e) = 16"
      using pi_ok_get [OF assms(1) Some] by auto
    have pi': "pi' = pi\<lparr> pi_by_index := hm_insert i (f e) (pi_by_index pi), pi_dirty := True \<rparr>"
      using assms(3) Some by (simp add: pi_modify_def)
    have u: "hm_get uuid (pi_uuid_to_index pi) = Some j \<longleftrightarrow>
        (\<exists>e. hm_get j (pi_by_index pi) = Some e \<and> ie_uuid e = uuid)" for uuid j
      using assms(1) unfolding pi_ok_def by blast
    have "hm_get uuid (pi_uuid_to_index pi) = Some j \<longleftrightarrow>
        (\<exists>x. hm_get j (hm_insert i (f e) (pi_by_index pi)) = Some x \<and> ie_uuid x = uuid)" for uuid j
      using assms(2) [of e] Some u [of uuid j] by (cases "j = i") auto
    moreover have "\<forall>(k, x) \<in> set (hm_insert i (f e) (pi_by_index pi)). ie_index x = k \<and> length (ie_uuid x) = 16"
      using assms(1,2) e by (auto simp: pi_ok_def set_hm_insert)
    ultimately show ?thesis
      using assms(1) by (simp add: pi' pi_ok_def)
  qed
qed

lemma pi_ok_insert:
  assumes "pi_ok pi" "length (ie_uuid e) = 16" "pi_get_by_index (ie_index e) pi = None"
    "hm_get (ie_uuid e) (pi_uuid_to_index pi) = None"
  shows "pi_ok (pi_insert e pi)"
proof -
  have u: "hm_get uuid (pi_uuid_to_index pi) = Some j \<longleftrightarrow>
      (\<exists>e. hm_get j (pi_by_index pi) = Some e \<and> ie_uuid e = uuid)" for uuid j
    using assms(1) unfolding pi_ok_def by blast
  have "hm_get uuid (hm_insert (ie_uuid e) (ie_index e) (pi_uuid_to_index pi)) = Some j \<longleftrightarrow>
      (\<exists>x. hm_get j (hm_insert (ie_index e) e (pi_by_index pi)) = Some x \<and> ie_uuid x = uuid)" for uuid j
    using assms(3,4) u [of uuid j] u [of uuid "ie_index e"]
    by (cases "j = ie_index e"; cases "uuid = ie_uuid e") (auto simp: pi_get_by_index_def)
  moreover have "\<forall>(k, x) \<in> set (hm_insert (ie_index e) e (pi_by_index pi)). ie_index x = k \<and> length (ie_uuid x) = 16"
    using assms(1,2) by (auto simp: pi_ok_def set_hm_insert)
  ultimately show ?thesis
    using assms(1) by (simp add: pi_insert_def pi_ok_def)
qed

lemma pi_get_by_uuid_None:
  "pi_ok pi \<Longrightarrow> pi_get_by_uuid u pi = None \<longleftrightarrow> hm_get u (pi_uuid_to_index pi) = None"
proof -
  assume "pi_ok pi"
  then have "hm_get u (pi_uuid_to_index pi) = Some j \<Longrightarrow> \<exists>e. hm_get j (pi_by_index pi) = Some e" for j
    unfolding pi_ok_def by blast
  then show ?thesis
    by (cases "hm_get u (pi_uuid_to_index pi)") (auto simp: pi_get_by_uuid_def)
qed

lemma deleted_flag: "(f OR FLAG_DELETED) AND FLAG_DELETED \<noteq> 0" for f :: u16
proof -
  have "bit ((f OR 1) AND 1) 0"
    by (simp add: bit_simps)
  then show ?thesis
    by (auto simp: FLAG_DELETED_def)
qed

text \<open>
  C32: the index keeps its invariant (the two maps describe the same entries): inserting an entry
  with a new number and identifier makes it the answer to both lookups and changes no other; marking
  an entry deleted succeeds exactly when it exists, keeps it in the index with its flag set and its
  offset cleared, and takes it out of the active entries.
\<close>

theorem index_insert_delete:
  assumes "pi_ok pi" "length (ie_uuid e) = 16" "pi_get_by_index (ie_index e) pi = None"
    "pi_get_by_uuid (ie_uuid e) pi = None" "pi_mark_deleted i pi = (found, pi')"
  shows "pi_ok (pi_insert e pi) \<and> pi_len (pi_insert e pi) = pi_len pi + 1 \<and>
    pi_get_by_index k (pi_insert e pi) = (if k = ie_index e then Some e else pi_get_by_index k pi) \<and>
    pi_get_by_uuid (ie_uuid e) (pi_insert e pi) = Some e \<and>
    pi_ok pi' \<and> found = (pi_get_by_index i pi \<noteq> None) \<and> pi_len pi' = pi_len pi \<and>
    pi_get_by_index k pi' = (if k = i then map_option ie_mark_deleted (pi_get_by_index i pi)
      else pi_get_by_index k pi) \<and>
    (\<forall>x \<in> set (pi_all_active pi'). ie_index x \<noteq> i)"
proof (intro conjI)
  have mark: "ie_index (ie_mark_deleted e) = ie_index e \<and> ie_uuid (ie_mark_deleted e) = ie_uuid e" for e
    by (simp add: ie_mark_deleted_def)
  note m = pi_ok_modify [OF assms(1) mark assms(5) [unfolded pi_mark_deleted_def]]
  show "pi_ok pi'" "found = (pi_get_by_index i pi \<noteq> None)" "pi_len pi' = pi_len pi"
    "pi_get_by_index k pi' = (if k = i then map_option ie_mark_deleted (pi_get_by_index i pi)
      else pi_get_by_index k pi)"
    by (fact m)+
  show "pi_ok (pi_insert e pi)"
    using assms pi_ok_insert by (simp add: pi_get_by_uuid_None)
  show "pi_len (pi_insert e pi) = pi_len pi + 1"
    using assms(3) by (simp add: pi_len_def pi_insert_def length_hm_insert pi_get_by_index_def)
  show "pi_get_by_index k (pi_insert e pi) = (if k = ie_index e then Some e else pi_get_by_index k pi)"
    by (simp add: pi_get_by_index_def pi_insert_def)
  show "pi_get_by_uuid (ie_uuid e) (pi_insert e pi) = Some e"
    by (simp add: pi_get_by_uuid_def pi_insert_def)
  show "\<forall>x \<in> set (pi_all_active pi'). ie_index x \<noteq> i"
  proof
    fix x
    assume "x \<in> set (pi_all_active pi')"
    then obtain k where k: "(k, x) \<in> set (pi_by_index pi')" "\<not> ie_is_deleted x"
      by (auto simp: pi_all_active_def)
    with m(1) have x: "ie_index x = k" "pi_get_by_index k pi' = Some x"
      by (auto simp: pi_ok_def pi_get_by_index_def hm_get_Some)
    show "ie_index x \<noteq> i"
    proof
      assume "ie_index x = i"
      then obtain y where "x = ie_mark_deleted y"
        using x m(3) [of k] by (cases "pi_get_by_index i pi") auto
      with k(2) show False
        using deleted_flag by (simp add: ie_is_deleted_def ie_mark_deleted_def)
    qed
  qed
qed


definition pi_new :: primary_index where
  "pi_new = \<lparr> pi_header = index_header_new, pi_by_index = [], pi_uuid_to_index = [], pi_dirty = False \<rparr>"

lemma pi_ok_new: "pi_ok pi_new"
  by (simp add: pi_new_def pi_ok_def index_header_ok_def index_header_new_def)

lemma pi_new_get [simp]: "pi_get_by_index i pi_new = None" "pi_get_by_uuid u pi_new = None"
  by (simp_all add: pi_new_def pi_get_by_index_def pi_get_by_uuid_def)

lemma pi_new_maps [simp]: "pi_uuid_to_index pi_new = []" "pi_by_index pi_new = []"
  by (simp_all add: pi_new_def)

lemma index_save_load_witness:
  "\<exists>loaded. pi_open (snd (pi_save (pi_insert (index_entry_new 1 uuid_nil) pi_new) None)) = Ok loaded \<and>
     pi_get_by_index 1 loaded = Some (index_entry_new 1 uuid_nil)"
proof -
  let ?pi = "pi_insert (index_entry_new 1 uuid_nil) pi_new"
  have "pi_ok ?pi"
    by (rule pi_ok_insert [OF pi_ok_new]) (simp_all add: index_entry_new_def uuid_nil_def)
  moreover have "pi_dirty ?pi" "length (pi_by_index ?pi) < 2 ^ 63"
    by (simp_all add: pi_insert_def pi_new_def)
  ultimately show ?thesis
    using index_save_load [of ?pi None "fst (pi_save ?pi None)" "snd (pi_save ?pi None)"]
    by (auto simp: pi_insert_def pi_get_by_index_def index_entry_new_def)
qed

lemma index_insert_delete_witness:
  "pi_ok (snd (pi_mark_deleted 1 (pi_insert (index_entry_new 1 uuid_nil) pi_new))) \<and>
   pi_all_active (snd (pi_mark_deleted 1 (pi_insert (index_entry_new 1 uuid_nil) pi_new))) = [] \<and>
   pi_ok (pi_insert (index_entry_new 2 (replicate 16 1)) (pi_insert (index_entry_new 1 uuid_nil) pi_new))"
proof -
  let ?pi = "pi_insert (index_entry_new 1 uuid_nil) pi_new"
  have ok: "pi_ok ?pi"
    by (rule pi_ok_insert [OF pi_ok_new]) (simp_all add: index_entry_new_def uuid_nil_def)
  have "pi_get_by_uuid (replicate 16 1) ?pi = None" "pi_get_by_index 2 ?pi = None"
    by (simp_all add: pi_insert_def pi_get_by_uuid_def pi_get_by_index_def pi_new_def index_entry_new_def
        uuid_nil_def)
  then show ?thesis
    using index_insert_delete [of ?pi "index_entry_new 2 (replicate 16 1)" 1
        "fst (pi_mark_deleted 1 ?pi)" "snd (pi_mark_deleted 1 ?pi)" 1] ok
    by (auto simp: index_entry_new_def pi_mark_deleted_def pi_modify_def pi_insert_def pi_new_def
        pi_all_active_def ie_is_deleted_def ie_mark_deleted_def FLAG_ACTIVE_def FLAG_DELETED_def)
qed

end
