(* ===== verification/Store_Wal.thy ===== *)
theory Store_Wal
  imports Store_Record Coral_Map
begin

text \<open>
  The write-ahead log (\<open>runtime/src/store/wal.rs\<close>): segment headers, log entries and their field
  payloads; \<open>Store_WalLog\<close> has the writer and the reader of the segment files.
  A log directory is the list of its files, name and contents, in the order \<open>read_dir\<close> gives them.
  The clock and the hash of the store type are arguments; how many bytes a \<open>read\<close> returns is the
  argument \<open>rd\<close> of the iterator, a function of the bytes left.
\<close>

subsection \<open>Segment headers\<close>

definition WAL_HEADER_SIZE :: nat where "WAL_HEADER_SIZE = 64"
definition ENTRY_HEADER_SIZE :: nat where "ENTRY_HEADER_SIZE = 45"
definition DEFAULT_SEGMENT_SIZE :: u64 where "DEFAULT_SEGMENT_SIZE = 16 * 1024 * 1024"

record wal_header =
  wh_magic :: bytes
  wh_version :: u32
  wh_segment_number :: u64
  wh_first_lsn :: u64
  wh_last_committed_lsn :: u64
  wh_store_type_hash :: u64
  wh_flags :: u32
  wh_reserved :: bytes

definition wal_header_new :: "u64 \<Rightarrow> u64 \<Rightarrow> u64 \<Rightarrow> wal_header" where
  "wal_header_new hash segment_number first_lsn = \<lparr> wh_magic = WAL_MAGIC, wh_version = WAL_VERSION,
     wh_segment_number = segment_number, wh_first_lsn = first_lsn, wh_last_committed_lsn = 0,
     wh_store_type_hash = hash, wh_flags = 0, wh_reserved = replicate 12 0 \<rparr>"

definition wal_header_serialize :: "wal_header \<Rightarrow> bytes" where
  "wal_header_serialize h = wh_magic h @ to_le 4 (wh_version h) @ to_le 8 (wh_segment_number h) @
     to_le 8 (wh_first_lsn h) @ to_le 8 (wh_last_committed_lsn h) @ to_le 8 (wh_store_type_hash h) @
     to_le 4 (wh_flags h) @ wh_reserved h @ replicate 4 0"

definition wal_header_deserialize :: "bytes \<Rightarrow> wal_header io" where
  "wal_header_deserialize data =
     (let magic = slice 0 8 data; version = from_le (slice 8 12 data) in
      if magic \<noteq> WAL_MAGIC then Err (InvalidData, ''invalid WAL file magic'')
      else if version > WAL_VERSION then Err (InvalidData, ''unsupported WAL version'')
      else Ok \<lparr> wh_magic = magic, wh_version = version, wh_segment_number = from_le (slice 12 20 data),
        wh_first_lsn = from_le (slice 20 28 data), wh_last_committed_lsn = from_le (slice 28 36 data),
        wh_store_type_hash = from_le (slice 36 44 data), wh_flags = from_le (slice 44 48 data),
        wh_reserved = slice 48 60 data \<rparr>)"

subsection \<open>Entries\<close>

record wal_entry =
  we_lsn :: u64
  we_op_type :: wal_op
  we_timestamp_ms :: u64
  we_index :: u64
  we_uuid :: uuid7
  we_payload :: bytes

definition wal_field_bytes :: "bytes \<times> stored_value \<Rightarrow> bytes" where
  "wal_field_bytes = (\<lambda>(name, v). to_le 2 (of_nat (length name) :: u16) @ name @ sv_serialize v)"

definition serialize_fields :: "field_list \<Rightarrow> bytes" where
  "serialize_fields flds = to_le 4 (of_nat (length flds) :: u32) @ concat (map wal_field_bytes flds)"

text \<open>The loop stops early, without an error, where a name does not fit the data.\<close>

fun deserialize_fields_loop :: "bytes \<Rightarrow> nat \<Rightarrow> nat \<Rightarrow> field_list io" where
  "deserialize_fields_loop data 0 pos = Ok []"
| "deserialize_fields_loop data (Suc n) pos =
     (if length data < pos + 2 then Ok []
      else let name_len = unat (from_le (slice pos (pos + 2) data) :: u16); pos = pos + 2 in
        if length data < pos + name_len then Ok []
        else let name = from_utf8_lossy (slice pos (pos + name_len) data) in
          obind (sv_deserialize data (pos + name_len)) (\<lambda>(v, p).
          omap (\<lambda>fs. (name, v) # fs) (deserialize_fields_loop data n p)))"

definition deserialize_fields :: "bytes \<Rightarrow> field_list io" where
  "deserialize_fields data = (if length data < 4 then Ok []
     else deserialize_fields_loop data (unat (from_le (slice 0 4 data) :: u32)) 4)"

definition wal_entry_insert :: "u64 \<Rightarrow> u64 \<Rightarrow> u64 \<Rightarrow> uuid7 \<Rightarrow> field_list \<Rightarrow> wal_entry" where
  "wal_entry_insert now lsn index uuid flds = \<lparr> we_lsn = lsn, we_op_type = OpInsert,
     we_timestamp_ms = now, we_index = index, we_uuid = uuid, we_payload = serialize_fields flds \<rparr>"

definition wal_entry_update :: "u64 \<Rightarrow> u64 \<Rightarrow> u64 \<Rightarrow> uuid7 \<Rightarrow> field_list \<Rightarrow> wal_entry" where
  "wal_entry_update now lsn index uuid flds = \<lparr> we_lsn = lsn, we_op_type = OpUpdate,
     we_timestamp_ms = now, we_index = index, we_uuid = uuid, we_payload = serialize_fields flds \<rparr>"

definition wal_entry_delete :: "u64 \<Rightarrow> u64 \<Rightarrow> u64 \<Rightarrow> uuid7 \<Rightarrow> wal_entry" where
  "wal_entry_delete now lsn index uuid = \<lparr> we_lsn = lsn, we_op_type = OpDelete,
     we_timestamp_ms = now, we_index = index, we_uuid = uuid, we_payload = [] \<rparr>"

definition wal_entry_commit :: "u64 \<Rightarrow> u64 \<Rightarrow> wal_entry" where
  "wal_entry_commit now lsn = \<lparr> we_lsn = lsn, we_op_type = OpCommit,
     we_timestamp_ms = now, we_index = 0, we_uuid = uuid_nil, we_payload = [] \<rparr>"

definition wal_entry_checkpoint :: "u64 \<Rightarrow> u64 \<Rightarrow> wal_entry" where
  "wal_entry_checkpoint now lsn = \<lparr> we_lsn = lsn, we_op_type = OpCheckpoint,
     we_timestamp_ms = now, we_index = 0, we_uuid = uuid_nil, we_payload = [] \<rparr>"

definition wal_entry_body :: "wal_entry \<Rightarrow> bytes" where
  "wal_entry_body e = to_le 8 (we_lsn e) @ [wal_op_byte (we_op_type e)] @ to_le 8 (we_timestamp_ms e) @
     to_le 8 (we_index e) @ we_uuid e @ to_le 4 (of_nat (length (we_payload e)) :: u32) @ we_payload e"

definition wal_entry_serialize :: "wal_entry \<Rightarrow> bytes" where
  "wal_entry_serialize e = (let buf = wal_entry_body e in buf @ to_le 4 (crc32 buf))"

definition wal_entry_deserialize :: "bytes \<Rightarrow> (wal_entry \<times> nat) io" where
  "wal_entry_deserialize data =
     (if length data < ENTRY_HEADER_SIZE then Err (UnexpectedEof, ''truncated WAL entry header'')
      else obind (wal_op_try_from (data ! 8)) (\<lambda>op_type.
        let payload_len = unat (from_le (slice 41 45 data) :: u32);
            total_len = ENTRY_HEADER_SIZE + payload_len + 4 in
        if length data < total_len then Err (UnexpectedEof, ''truncated WAL entry'')
        else if crc32 (slice 0 (total_len - 4) data) \<noteq> from_le (slice (total_len - 4) total_len data)
        then Err (InvalidData, ''WAL entry CRC mismatch'')
        else Ok (\<lparr> we_lsn = from_le (slice 0 8 data), we_op_type = op_type,
            we_timestamp_ms = from_le (slice 9 17 data), we_index = from_le (slice 17 25 data),
            we_uuid = slice 25 41 data, we_payload = slice 45 (45 + payload_len) data \<rparr>, total_len)))"

definition wal_parse_payload :: "wal_entry \<Rightarrow> field_list io" where
  "wal_parse_payload e = deserialize_fields (we_payload e)"

subsection \<open>Entries read back\<close>

definition wal_entry_ok :: "wal_entry \<Rightarrow> bool" where
  "wal_entry_ok e \<longleftrightarrow> length (we_uuid e) = 16 \<and> length (we_payload e) < 2 ^ 32"

lemma length_wal_entry_body:
  "wal_entry_ok e \<Longrightarrow> length (wal_entry_body e) = 45 + length (we_payload e)"
  by (simp add: wal_entry_body_def wal_entry_ok_def)

lemma length_wal_entry_serialize:
  "wal_entry_ok e \<Longrightarrow> length (wal_entry_serialize e) = 49 + length (we_payload e)"
  by (simp add: wal_entry_serialize_def Let_def length_wal_entry_body)

text \<open>The header fields, from any data that begin with an entry's header.\<close>

lemma wal_entry_header_parts:
  assumes "wal_entry_ok e" "data = take 45 (wal_entry_body e) @ rest"
  shows "data ! 8 = wal_op_byte (we_op_type e)" "slice 0 8 data = to_le 8 (we_lsn e)"
    "slice 9 17 data = to_le 8 (we_timestamp_ms e)" "slice 17 25 data = to_le 8 (we_index e)"
    "slice 25 41 data = we_uuid e" "unat (from_le (slice 41 45 data) :: u32) = length (we_payload e)"
    "45 \<le> length data"
proof -
  have d: "data = to_le 8 (we_lsn e) @ [wal_op_byte (we_op_type e)] @ to_le 8 (we_timestamp_ms e) @
     to_le 8 (we_index e) @ we_uuid e @ to_le 4 (of_nat (length (we_payload e)) :: u32) @ rest"
    using assms by (simp add: wal_entry_body_def wal_entry_ok_def)
  have u: "length (we_uuid e) = 16"
    using assms(1) by (simp add: wal_entry_ok_def)
  show "data ! 8 = wal_op_byte (we_op_type e)" "slice 0 8 data = to_le 8 (we_lsn e)"
    "slice 9 17 data = to_le 8 (we_timestamp_ms e)" "slice 17 25 data = to_le 8 (we_index e)"
    "slice 25 41 data = we_uuid e" "45 \<le> length data"
    unfolding d using u by (simp_all add: nth_append slice_skip slice_here del: append_Cons)
  have "slice 41 45 data = to_le 4 (of_nat (length (we_payload e)) :: u32)"
    unfolding d using u by (simp add: slice_skip slice_here del: append_Cons)
  then show "unat (from_le (slice 41 45 data) :: u32) = length (we_payload e)"
    using assms(1) by (simp add: wal_entry_ok_def unat_of_nat_u32 del: of_nat_numeral)
qed

lemma wal_entry_deserialize_whole:
  assumes "wal_entry_ok e" "length payload = length (we_payload e)"
  defines "body \<equiv> take 45 (wal_entry_body e) @ payload"
  shows "wal_entry_deserialize (body @ to_le 4 crc @ rest) =
    (if crc32 body = crc then Ok (e\<lparr> we_payload := payload \<rparr>, 49 + length payload)
     else Err (InvalidData, ''WAL entry CRC mismatch''))"
proof -
  let ?d = "body @ to_le 4 crc @ rest"
  have len: "length body = 45 + length payload"
    using length_wal_entry_body [OF assms(1)] by (simp add: body_def)
  note h = wal_entry_header_parts [OF assms(1), of ?d "payload @ to_le 4 crc @ rest"]
  have op: "wal_op_try_from (?d ! 8) = Ok (we_op_type e)"
    using h(1) by (simp add: body_def)
  have s: "slice 0 (45 + length payload) ?d = body"
    "slice (45 + length payload) (49 + length payload) ?d = to_le 4 crc"
    "slice 45 (45 + length payload) ?d = payload"
    using len length_wal_entry_body [OF assms(1)] by (simp_all add: slice_skip slice_here) (simp add: body_def slice_skip slice_here)
  show ?thesis
    using h op s assms(2) len
    by (simp add: wal_entry_deserialize_def ENTRY_HEADER_SIZE_def Let_def body_def)
qed


lemma wal_entry_body_split: "wal_entry_ok e \<Longrightarrow> wal_entry_body e = take 45 (wal_entry_body e) @ we_payload e"
  by (simp add: wal_entry_body_def wal_entry_ok_def)

lemma wal_entry_deserialize_serialize:
  "wal_entry_ok e \<Longrightarrow> wal_entry_deserialize (wal_entry_serialize e @ rest) = Ok (e, 49 + length (we_payload e))"
  using wal_entry_deserialize_whole [of e "we_payload e" "crc32 (wal_entry_body e)" rest]
    wal_entry_body_split [of e]
  by (simp add: wal_entry_serialize_def Let_def)

lemma wal_entry_deserialize_prefix:
  assumes "wal_entry_ok e" "wal_entry_serialize e = d @ d'" "d' \<noteq> []"
  shows "\<exists>msg. wal_entry_deserialize d = Err (UnexpectedEof, msg)"
proof (cases "length d < 45")
  case False
  have len: "length d < 49 + length (we_payload e)"
    using arg_cong [OF assms(2), of length] assms(3) length_wal_entry_serialize [OF assms(1)]
    by (cases d') auto
  have "take 45 (wal_entry_body e) = take 45 d"
    using arg_cong [OF assms(2), of "take 45"] False assms(1)
    by (simp add: wal_entry_serialize_def Let_def length_wal_entry_body)
  then have "d = take 45 (wal_entry_body e) @ drop 45 d"
    by simp
  note h = wal_entry_header_parts [OF assms(1) this]
  then show ?thesis
    using len False by (simp add: wal_entry_deserialize_def ENTRY_HEADER_SIZE_def)
qed (simp add: wal_entry_deserialize_def ENTRY_HEADER_SIZE_def)

text \<open>
  C25: a log entry is read back from the front of any data, and nothing but the whole entry will
  do: every proper prefix of it (a write torn by a crash) is reported as an unexpected end of file,
  and one byte changed in its payload as a checksum mismatch.
\<close>

theorem wal_entry_roundtrip:
  assumes "wal_entry_ok e"
  shows "wal_entry_deserialize (wal_entry_serialize e @ rest) = Ok (e, length (wal_entry_serialize e)) \<and>
    (\<forall>d d'. wal_entry_serialize e = d @ d' \<longrightarrow> d' \<noteq> [] \<longrightarrow>
       (\<exists>msg. wal_entry_deserialize d = Err (UnexpectedEof, msg))) \<and>
    (\<forall>xs a b ys. we_payload e = xs @ a # ys \<longrightarrow> b \<noteq> a \<longrightarrow>
       wal_entry_deserialize (take 45 (wal_entry_body e) @ (xs @ b # ys) @ to_le 4 (crc32 (wal_entry_body e)) @ rest) =
         Err (InvalidData, ''WAL entry CRC mismatch''))"
proof (intro conjI allI impI)
  show "wal_entry_deserialize (wal_entry_serialize e @ rest) = Ok (e, length (wal_entry_serialize e))"
    using assms by (simp add: wal_entry_deserialize_serialize length_wal_entry_serialize)
  show "\<exists>msg. wal_entry_deserialize d = Err (UnexpectedEof, msg)"
    if "wal_entry_serialize e = d @ d'" "d' \<noteq> []" for d d'
    by (rule wal_entry_deserialize_prefix [OF assms that])
  fix xs a b ys
  assume p: "we_payload e = xs @ a # ys" and ab: "b \<noteq> a"
  let ?h = "take 45 (wal_entry_body e)"
  have "crc32 ((?h @ xs) @ b # ys) \<noteq> crc32 ((?h @ xs) @ a # ys)"
    using ab crc32_byte_inj [of "?h @ xs" b ys a] by blast
  moreover have "wal_entry_body e = (?h @ xs) @ a # ys"
    using wal_entry_body_split [OF assms] p by simp
  ultimately have "crc32 (?h @ xs @ b # ys) \<noteq> crc32 (wal_entry_body e)"
    by (metis append.assoc)
  then show "wal_entry_deserialize (?h @ (xs @ b # ys) @ to_le 4 (crc32 (wal_entry_body e)) @ rest) =
      Err (InvalidData, ''WAL entry CRC mismatch'')"
    using wal_entry_deserialize_whole [OF assms, of "xs @ b # ys" "crc32 (wal_entry_body e)" rest] p
    by simp
qed

lemma wal_entry_roundtrip_witness:
  "let e = wal_entry_insert 9 1 2 uuid_nil [] in
   wal_entry_ok e \<and> wal_entry_deserialize (wal_entry_serialize e @ [1, 2]) = Ok (e, length (wal_entry_serialize e))"
proof -
  have ok: "wal_entry_ok (wal_entry_insert 9 1 2 uuid_nil [])"
    by (simp add: wal_entry_ok_def wal_entry_insert_def uuid_nil_def serialize_fields_def)
  show ?thesis
    using wal_entry_roundtrip [OF ok, of "[1, 2]"] ok by (simp add: Let_def)
qed

subsection \<open>Field payloads read back\<close>

definition wal_field_ok :: "bytes \<times> stored_value \<Rightarrow> bool" where
  "wal_field_ok = (\<lambda>(name, v). valid_utf8 name \<and> length name < 2 ^ 16 \<and> wf_value v)"

lemma deserialize_fields_loop_at:
  assumes "\<forall>f \<in> set fs. wal_field_ok f" "length data < 2 ^ 63" "pos \<le> length data"
    and "drop pos data = concat (map wal_field_bytes fs) @ rest"
  shows "deserialize_fields_loop data (length fs) pos = Ok fs"
  using assms
proof (induction fs arbitrary: pos)
  case (Cons f fs)
  obtain name v where f: "f = (name, v)"
    by (cases f)
  have ok: "valid_utf8 name" "length name < 2 ^ 16" "wf_value v"
    using Cons.prems(1) by (auto simp: wal_field_ok_def f)
  let ?tail = "concat (map wal_field_bytes fs) @ rest"
  have d0: "drop pos data = to_le 2 (of_nat (length name) :: u16) @ (name @ sv_serialize v @ ?tail)"
    using Cons.prems(4) by (simp add: f wal_field_bytes_def)
  have d1: "drop (pos + 2) data = name @ (sv_serialize v @ ?tail)"
    using drop_appendD [OF d0] by simp
  have p1: "pos + 2 \<le> length data" and s0: "slice pos (pos + 2) data = to_le 2 (of_nat (length name) :: u16)"
    using drop_len [OF d0 Cons.prems(3)] drop_slice [OF d0] by simp_all
  have d2: "drop (pos + 2 + length name) data = sv_serialize v @ ?tail"
    using drop_appendD [OF d1] by simp
  have p2: "pos + 2 + length name \<le> length data" and s1: "slice (pos + 2) (pos + 2 + length name) data = name"
    using drop_len [OF d1 p1] drop_slice [OF d1] by simp_all
  have v: "sv_deserialize data (pos + 2 + length name) =
      Ok (v, pos + 2 + length name + length (sv_serialize v))"
    by (rule sv.dec_at [OF ok(3) Cons.prems(2) p2 d2])
  have "deserialize_fields_loop data (length fs) (pos + 2 + length name + length (sv_serialize v)) = Ok fs"
    using Cons.prems(1,2) drop_appendD [OF d2] drop_len [OF d2 p2] by (intro Cons.IH) auto
  moreover have "unat (of_nat (length name) :: u16) = length name"
    using ok(2) by (rule unat_of_nat_u16)
  ultimately show ?case
    using p1 p2 s0 s1 v ok by (simp add: f Let_def from_utf8_lossy_valid)
qed simp

lemma deserialize_fields_serialize:
  assumes "\<forall>f \<in> set flds. wal_field_ok f" "length flds < 2 ^ 32" "length (serialize_fields flds) < 2 ^ 63"
  shows "deserialize_fields (serialize_fields flds) = Ok flds"
proof -
  have "slice 0 4 (serialize_fields flds) = to_le 4 (of_nat (length flds) :: u32)"
    by (simp add: serialize_fields_def slice_here)
  moreover have "unat (of_nat (length flds) :: u32) = length flds"
    using assms(2) by (rule unat_of_nat_u32)
  moreover have "deserialize_fields_loop (serialize_fields flds) (length flds) 4 = Ok flds"
    using assms(1,3) by (intro deserialize_fields_loop_at) (simp_all add: serialize_fields_def)
  moreover have "4 \<le> length (serialize_fields flds)"
    by (simp add: serialize_fields_def)
  ultimately show ?thesis
    by (simp add: deserialize_fields_def)
qed

text \<open>
  The fields of a log entry are recovered from its payload, for names below 65536 bytes (the
  width of the length that is written) and fewer than \<open>2^32\<close> fields.
\<close>

theorem wal_fields_roundtrip:
  assumes "\<forall>f \<in> set flds. wal_field_ok f" "length flds < 2 ^ 32" "length (serialize_fields flds) < 2 ^ 63"
  shows "wal_parse_payload (wal_entry_insert now lsn index uuid flds) = Ok flds \<and>
    wal_parse_payload (wal_entry_update now lsn index uuid flds) = Ok flds"
  using deserialize_fields_serialize [OF assms]
  by (simp add: wal_parse_payload_def wal_entry_insert_def wal_entry_update_def)

lemma wal_fields_roundtrip_witness:
  "wal_parse_payload (wal_entry_insert 1 2 3 uuid_nil [(bstr ''a'', SInt 7), (bstr ''b'', SNone)]) =
     Ok [(bstr ''a'', SInt 7), (bstr ''b'', SNone)]"
  by (rule wal_fields_roundtrip [THEN conjunct1])
    (simp_all add: wal_field_ok_def bstr_def valid_utf8_ascii serialize_fields_def wal_field_bytes_def)

end
