(* ===== verification/Store_WalLog.thy ===== *)
theory Store_WalLog
  imports Store_Wal
begin

text \<open>
  The log on disk (\<open>runtime/src/store/wal.rs\<close>): segment file names, \<open>WalWriter\<close> with its buffered
  file, \<open>WalReader\<close> with the iterator over the segments; what is written and committed is what a
  reader replays.
\<close>

subsection \<open>Segment files\<close>

type_synonym wal_dir = "(string, bytes) hmap"

text \<open>\<open>format!("wal-{:016x}.log", segment)\<close>, and the number that \<open>parse::<u64>\<close> finds in a name.\<close>

definition segment_path :: "u64 \<Rightarrow> string" where
  "segment_path segment = ''wal-'' @ concat (map show_02x (rev (to_le 8 segment))) @ ''.log''"

fun parse_digits :: "nat \<Rightarrow> string \<Rightarrow> nat option" where
  "parse_digits acc [] = Some acc"
| "parse_digits acc (c # s) = (let d = of_char c :: nat in
     if 48 \<le> d \<and> d \<le> 57 then parse_digits (10 * acc + (d - 48)) s else None)"

definition parse_u64 :: "string \<Rightarrow> u64 option" where
  "parse_u64 s = (let s = (case s of c # t \<Rightarrow> if c = CHR ''+'' \<and> t \<noteq> [] then t else s | [] \<Rightarrow> s) in
     if s = [] then None
     else Option.bind (parse_digits 0 s) (\<lambda>n. if n < 2 ^ 64 then Some (of_nat n) else None))"

definition segment_number :: "string \<Rightarrow> u64 option" where
  "segment_number name = (if take 4 name = ''wal-'' \<and> drop (length name - 4) name = ''.log'' \<and> 8 \<le> length name
     then parse_u64 (slice 4 (length name - 4) name) else None)"

definition wal_read_header :: "bytes \<Rightarrow> wal_header io" where
  "wal_read_header contents = obind (read_exact_at contents 0 WAL_HEADER_SIZE) wal_header_deserialize"

subsection \<open>\<open>WalWriter\<close>\<close>

text \<open>
  \<open>ww_file\<close> is the buffered data of the open segment, \<open>None\<close> while no segment is open;
  \<open>BufWriter\<close> holds up to 8192 bytes and is flushed when it is dropped.
\<close>

record wal_writer =
  ww_store_hash :: u64
  ww_current_segment :: u64
  ww_current_lsn :: u64
  ww_file :: "bytes option"
  ww_file_size :: u64
  ww_max_segment_size :: u64
  ww_header :: wal_header

definition buf_write :: "bytes \<Rightarrow> bytes \<Rightarrow> bytes \<Rightarrow> bytes \<times> bytes" where
  "buf_write buf disk data =
     (let (buf, disk) = (if 8192 - length buf < length data then ([], disk @ buf) else (buf, disk))
      in if 8192 \<le> length data then (buf, disk @ data) else (buf @ data, disk))"

definition dir_append :: "string \<Rightarrow> bytes \<Rightarrow> wal_dir \<Rightarrow> wal_dir" where
  "dir_append name data dir =
     hm_insert name ((case hm_get name dir of Some c \<Rightarrow> c | None \<Rightarrow> []) @ data) dir"

text \<open>What is buffered goes to the file of the current segment.\<close>

definition ww_flush :: "wal_writer \<Rightarrow> wal_dir \<Rightarrow> wal_writer \<times> wal_dir" where
  "ww_flush w dir = (case ww_file w of None \<Rightarrow> (w, dir)
     | Some buf \<Rightarrow> (w\<lparr> ww_file := Some [] \<rparr>, dir_append (segment_path (ww_current_segment w)) buf dir))"

definition ww_ensure_segment :: "wal_writer \<Rightarrow> wal_dir \<Rightarrow> wal_writer \<times> wal_dir" where
  "ww_ensure_segment w dir =
     (if ww_file w \<noteq> None \<and> ww_file_size w < ww_max_segment_size w then (w, dir)
      else let dir = snd (ww_flush w dir);
               seg = (if ww_file w \<noteq> None then ww_current_segment w + 1 else ww_current_segment w);
               path = segment_path seg;
               contents = (case hm_get path dir of Some c \<Rightarrow> c | None \<Rightarrow> []) in
        if contents = []
        then let header = wal_header_new (ww_store_hash w) seg (ww_current_lsn w) in
          (w\<lparr> ww_current_segment := seg, ww_header := header, ww_file := Some [],
              ww_file_size := of_nat WAL_HEADER_SIZE \<rparr>,
           hm_insert path (wal_header_serialize header) dir)
        else (w\<lparr> ww_current_segment := seg, ww_file := Some [], ww_file_size := of_nat (length contents) \<rparr>, dir))"

definition ww_scan :: "string \<times> bytes \<Rightarrow> u64 \<times> u64 \<Rightarrow> u64 \<times> u64" where
  "ww_scan = (\<lambda>(name, contents) (latest_segment, latest_lsn).
     case segment_number name of
       Some num \<Rightarrow> if latest_segment \<le> num
         then (num, case wal_read_header contents of
             Ok header \<Rightarrow> if latest_lsn < wh_last_committed_lsn header then wh_last_committed_lsn header
               else latest_lsn
           | _ \<Rightarrow> latest_lsn)
         else (latest_segment, latest_lsn)
     | None \<Rightarrow> (latest_segment, latest_lsn))"

definition ww_open :: "u64 \<Rightarrow> wal_dir \<Rightarrow> wal_writer \<times> wal_dir" where
  "ww_open hash dir =
     (let (latest_segment, latest_lsn) = fold ww_scan dir (0, 0);
          current_lsn = (if 0 < latest_lsn then latest_lsn + 1 else 1)
      in ww_ensure_segment \<lparr> ww_store_hash = hash, ww_current_segment = latest_segment,
           ww_current_lsn = current_lsn, ww_file = None, ww_file_size = 0,
           ww_max_segment_size = DEFAULT_SEGMENT_SIZE,
           ww_header = wal_header_new hash latest_segment current_lsn \<rparr> dir)"

definition ww_write_entry :: "wal_entry \<Rightarrow> wal_writer \<Rightarrow> wal_dir \<Rightarrow> wal_writer \<times> wal_dir" where
  "ww_write_entry e w dir =
     (let (w, dir) = ww_ensure_segment w dir; data = wal_entry_serialize e in
      case ww_file w of None \<Rightarrow> (w, dir)
      | Some buf \<Rightarrow> (let (buf', out) = buf_write buf [] data in
          (w\<lparr> ww_file := Some buf', ww_file_size := ww_file_size w + of_nat (length data) \<rparr>,
           dir_append (segment_path (ww_current_segment w)) out dir)))"

definition ww_next_lsn :: "wal_writer \<Rightarrow> u64 \<times> wal_writer" where
  "ww_next_lsn w = (ww_current_lsn w, w\<lparr> ww_current_lsn := ww_current_lsn w + 1 \<rparr>)"

definition ww_sync :: "wal_writer \<Rightarrow> wal_dir \<Rightarrow> wal_writer \<times> wal_dir" where
  "ww_sync w dir = ww_flush w dir"

definition ww_update_header :: "wal_writer \<Rightarrow> wal_dir \<Rightarrow> wal_dir io" where
  "ww_update_header w dir = (let path = segment_path (ww_current_segment w) in
     case hm_get path dir of
       None \<Rightarrow> Err (NotFound, ''No such file or directory'')
     | Some contents \<Rightarrow> Ok (hm_insert path (write_at contents 0 (wal_header_serialize (ww_header w))) dir))"

definition ww_commit :: "u64 \<Rightarrow> wal_writer \<Rightarrow> wal_dir \<Rightarrow> (u64 \<times> wal_writer \<times> wal_dir) io" where
  "ww_commit now w dir =
     (let (lsn, w) = ww_next_lsn w;
          (w, dir) = ww_write_entry (wal_entry_commit now lsn) w dir;
          (w, dir) = ww_sync w dir;
          w = w\<lparr> ww_header := (ww_header w)\<lparr> wh_last_committed_lsn := lsn \<rparr> \<rparr>
      in omap (\<lambda>dir. (lsn, w, dir)) (ww_update_header w dir))"

definition ww_checkpoint :: "u64 \<Rightarrow> wal_writer \<Rightarrow> wal_dir \<Rightarrow> u64 \<times> wal_writer \<times> wal_dir" where
  "ww_checkpoint now w dir =
     (let (lsn, w) = ww_next_lsn w;
          (w, dir) = ww_write_entry (wal_entry_checkpoint now lsn) w dir
      in (lsn, ww_sync w dir))"

definition ww_truncate_before :: "u64 \<Rightarrow> wal_writer \<Rightarrow> wal_dir \<Rightarrow> wal_dir" where
  "ww_truncate_before lsn w dir = filter (\<lambda>(name, contents).
     \<not> (case segment_number name of
          Some num \<Rightarrow> num < ww_current_segment w \<and>
            (case wal_read_header contents of Ok header \<Rightarrow> wh_last_committed_lsn header < lsn | _ \<Rightarrow> False)
        | None \<Rightarrow> False)) dir"

subsection \<open>\<open>WalReader\<close> and its iterator\<close>

record wal_iter =
  wi_segments :: "(u64 \<times> bytes) list"
  wi_current_segment :: nat
  wi_file :: "bytes option"
  wi_buffer :: bytes
  wi_buffer_pos :: nat
  wi_start_lsn :: u64

definition wal_segments :: "wal_dir \<Rightarrow> (u64 \<times> bytes) list" where
  "wal_segments dir = sort_key fst (List.map_filter
     (\<lambda>(name, contents). map_option (\<lambda>num. (num, contents)) (segment_number name)) dir)"

definition wal_entries_from :: "u64 \<Rightarrow> wal_dir \<Rightarrow> wal_iter" where
  "wal_entries_from start_lsn dir = \<lparr> wi_segments = wal_segments dir, wi_current_segment = 0,
     wi_file = None, wi_buffer = [], wi_buffer_pos = 0, wi_start_lsn = start_lsn \<rparr>"

text \<open>
  One turn of the loop of \<open>next\<close>: an answer (\<open>Inr\<close>) or another turn (\<open>Inl\<close>). The first half
  takes an entry from the buffer, the second half opens the next segment or reads more of the
  open one, of whose \<open>n\<close> bytes left \<open>rd n + 1\<close> are read (or all, if there are fewer).
\<close>

definition wal_iter_read :: "(nat \<Rightarrow> nat) \<Rightarrow> wal_iter \<Rightarrow> wal_iter" where
  "wal_iter_read rd it = (case wi_file it of
       None \<Rightarrow> it
     | Some [] \<Rightarrow> it\<lparr> wi_file := None, wi_current_segment := Suc (wi_current_segment it) \<rparr>
     | Some rest \<Rightarrow> it\<lparr> wi_file := Some (drop (Suc (rd (length rest))) rest),
         wi_buffer := drop (wi_buffer_pos it) (wi_buffer it) @ take (Suc (rd (length rest))) rest,
         wi_buffer_pos := 0 \<rparr>)"

definition wal_iter_fill :: "(nat \<Rightarrow> nat) \<Rightarrow> wal_iter \<Rightarrow> wal_iter + wal_entry io option" where
  "wal_iter_fill rd it =
     (if wi_file it \<noteq> None then Inl (wal_iter_read rd it)
      else if length (wi_segments it) \<le> wi_current_segment it then Inr None
      else let contents = snd (wi_segments it ! wi_current_segment it) in
        if length contents < WAL_HEADER_SIZE
        then Inl (it\<lparr> wi_current_segment := Suc (wi_current_segment it) \<rparr>)
        else Inl (wal_iter_read rd (it\<lparr> wi_file := Some (drop WAL_HEADER_SIZE contents),
          wi_buffer := [], wi_buffer_pos := 0 \<rparr>)))"

definition wal_iter_turn :: "(nat \<Rightarrow> nat) \<Rightarrow> wal_iter \<Rightarrow> wal_iter + (wal_entry io option \<times> wal_iter)" where
  "wal_iter_turn rd it =
     (let fill = (case wal_iter_fill rd it of Inl it' \<Rightarrow> Inl it' | Inr r \<Rightarrow> Inr (r, it)) in
      if wi_buffer_pos it < length (wi_buffer it)
      then case wal_entry_deserialize (drop (wi_buffer_pos it) (wi_buffer it)) of
          Ok (e, len) \<Rightarrow> (let it' = it\<lparr> wi_buffer_pos := wi_buffer_pos it + len \<rparr> in
            if wi_start_lsn it \<le> we_lsn e then Inr (Some (Ok e), it') else Inl it')
        | Err (UnexpectedEof, msg) \<Rightarrow> fill
        | Err err \<Rightarrow> Inr (Some (Err err), it)
        | Panic \<Rightarrow> Inr (Some Panic, it)
      else fill)"

subsection \<open>The loop of the iterator terminates\<close>

lemma wal_entry_deserialize_len:
  "wal_entry_deserialize data = Ok (e, len) \<Longrightarrow> 49 \<le> len \<and> len \<le> length data"
  by (auto simp: wal_entry_deserialize_def outcome_simps Let_def ENTRY_HEADER_SIZE_def split: if_splits)

definition wal_iter_weight :: "wal_iter \<Rightarrow> nat" where
  "wal_iter_weight it = (case wi_file it of Some rest \<Rightarrow> Suc (length rest)
     | None \<Rightarrow> if wi_current_segment it < length (wi_segments it)
         then Suc (Suc (length (snd (wi_segments it ! wi_current_segment it)))) else 0)"

definition wal_iter_rel :: "(wal_iter \<times> wal_iter) set" where
  "wal_iter_rel = measures [\<lambda>it. length (wi_segments it) - wi_current_segment it, wal_iter_weight,
     \<lambda>it. length (wi_buffer it) - wi_buffer_pos it]"

lemma wal_iter_read_less:
  "wi_file it = Some r \<Longrightarrow> (wal_iter_read rd it, it) \<in> wal_iter_rel"
  by (cases r) (auto simp: wal_iter_read_def wal_iter_rel_def wal_iter_weight_def)

lemma wal_iter_fill_less: "wal_iter_fill rd it = Inl it' \<Longrightarrow> (it', it) \<in> wal_iter_rel"
proof (cases "wi_file it")
  case None
  assume fill: "wal_iter_fill rd it = Inl it'"
  with None show ?thesis
    by (cases "drop WAL_HEADER_SIZE (snd (wi_segments it ! wi_current_segment it))")
      (auto simp: wal_iter_fill_def wal_iter_read_def wal_iter_rel_def wal_iter_weight_def Let_def
        dest!: arg_cong [of "drop _ _" _ length] split: if_splits)
next
  case (Some r)
  assume "wal_iter_fill rd it = Inl it'"
  with Some wal_iter_read_less [of it r rd] show ?thesis
    by (auto simp: wal_iter_fill_def)
qed

lemma wal_iter_turn_less: "wal_iter_turn rd it = Inl it' \<Longrightarrow> (it', it) \<in> wal_iter_rel"
proof -
  assume turn: "wal_iter_turn rd it = Inl it'"
  have fill: "(it', it) \<in> wal_iter_rel"
    if "(case wal_iter_fill rd it of Inl it' \<Rightarrow> Inl it' | Inr r \<Rightarrow> Inr (r, it)) =
      (Inl it' :: wal_iter + (wal_entry io option \<times> wal_iter))"
    using that by (auto intro: wal_iter_fill_less split: sum.splits)
  show ?thesis
    using turn fill
    by (auto simp: wal_iter_turn_def Let_def wal_iter_rel_def wal_iter_weight_def
        dest!: wal_entry_deserialize_len split: if_splits outcome.splits prod.splits io_kind.splits option.splits)
qed

text \<open>\<open>next\<close>: the answer, and the iterator after it.\<close>

function wal_iter_next :: "(nat \<Rightarrow> nat) \<Rightarrow> wal_iter \<Rightarrow> wal_entry io option \<times> wal_iter" where
  "wal_iter_next rd it = (case wal_iter_turn rd it of Inr r \<Rightarrow> r | Inl it' \<Rightarrow> wal_iter_next rd it')"
  by pat_completeness auto
termination
proof (relation "inv_image wal_iter_rel snd")
  show "wf (inv_image wal_iter_rel snd)"
    by (simp add: wal_iter_rel_def)
qed (auto intro: wal_iter_turn_less)

declare wal_iter_next.simps [simp del]

subsection \<open>The iterator replays the log\<close>

definition log_bytes :: "wal_entry list \<Rightarrow> bytes" where
  "log_bytes es = concat (map wal_entry_serialize es)"

lemma log_bytes_simps [simp]:
  "log_bytes [] = []" "log_bytes (e # es) = wal_entry_serialize e @ log_bytes es"
  "log_bytes (es @ fs) = log_bytes es @ log_bytes fs"
  by (simp_all add: log_bytes_def)

text \<open>A segment file that holds the given entries.\<close>

definition segment_holds :: "bytes \<Rightarrow> wal_entry list \<Rightarrow> bool" where
  "segment_holds contents es \<longleftrightarrow> WAL_HEADER_SIZE \<le> length contents \<and>
     drop WAL_HEADER_SIZE contents = log_bytes es \<and> (\<forall>e \<in> set es. wal_entry_ok e)"

text \<open>The entries an iterator has not looked at yet.\<close>

definition wal_iter_rest :: "wal_iter \<Rightarrow> wal_entry list \<Rightarrow> bool" where
  "wal_iter_rest it es \<longleftrightarrow> (case wi_file it of
     Some rest \<Rightarrow> (\<exists>es1 ess. drop (wi_buffer_pos it) (wi_buffer it) @ rest = log_bytes es1 \<and>
       (\<forall>e \<in> set es1. wal_entry_ok e) \<and> es = es1 @ concat ess \<and>
       list_all2 segment_holds (map snd (drop (Suc (wi_current_segment it)) (wi_segments it))) ess)
   | None \<Rightarrow> drop (wi_buffer_pos it) (wi_buffer it) = [] \<and> (\<exists>ess. es = concat ess \<and>
       list_all2 segment_holds (map snd (drop (wi_current_segment it) (wi_segments it))) ess))"

lemma wal_iter_read_rest:
  assumes "wi_file it = Some rest" "wal_iter_rest it es"
    "rest = [] \<Longrightarrow> drop (wi_buffer_pos it) (wi_buffer it) = []"
  shows "wal_iter_rest (wal_iter_read rd it) es"
proof (cases rest)
  case Nil
  with assms have e: "drop (wi_buffer_pos it) (wi_buffer it) = []"
    by simp
  have "es1 = []" if "log_bytes es1 = []" "\<forall>e \<in> set es1. wal_entry_ok e" for es1
    using that length_wal_entry_serialize [of "hd es1"] by (cases es1) auto
  with assms(1,2) e Nil show ?thesis
    by (fastforce simp: wal_iter_rest_def wal_iter_read_def)
next
  case (Cons b r)
  with assms(1,2) show ?thesis
    by (simp add: wal_iter_rest_def wal_iter_read_def) 
qed

lemma wal_iter_read_start [simp]: "wi_start_lsn (wal_iter_read rd it) = wi_start_lsn it"
  by (simp add: wal_iter_read_def split: option.split list.split)

lemma wal_iter_fill_rest:
  assumes "wal_iter_rest it es"
    and "wi_file it = Some [] \<Longrightarrow> drop (wi_buffer_pos it) (wi_buffer it) = []"
  shows "case wal_iter_fill rd it of Inl it' \<Rightarrow> wal_iter_rest it' es | Inr r \<Rightarrow> r = None \<and> es = []"
proof (cases "wi_file it")
  case (Some rest)
  then have "wal_iter_rest (wal_iter_read rd it) es"
    using assms by (intro wal_iter_read_rest) auto
  with Some show ?thesis
    by (simp add: wal_iter_fill_def)
next
  case None
  obtain ess where es: "es = concat ess" and
    ess: "list_all2 segment_holds (map snd (drop (wi_current_segment it) (wi_segments it))) ess"
    using None assms(1) by (auto simp: wal_iter_rest_def)
  show ?thesis
  proof (cases "wi_current_segment it < length (wi_segments it)")
    case False
    with None es ess show ?thesis
      by (simp add: wal_iter_fill_def)
  next
    case True
    define contents where "contents = snd (wi_segments it ! wi_current_segment it)"
    have "drop (wi_current_segment it) (wi_segments it) =
        wi_segments it ! wi_current_segment it # drop (Suc (wi_current_segment it)) (wi_segments it)"
      using True by (simp add: Cons_nth_drop_Suc)
    with ess obtain es1 ess' where e: "ess = es1 # ess'" "segment_holds contents es1"
      "list_all2 segment_holds (map snd (drop (Suc (wi_current_segment it)) (wi_segments it))) ess'"
      by (auto simp: list_all2_Cons1 contents_def)
    let ?it = "it\<lparr> wi_file := Some (drop WAL_HEADER_SIZE contents), wi_buffer := [], wi_buffer_pos := 0 \<rparr>"
    have "wal_iter_rest ?it es"
      using e es by (auto simp: wal_iter_rest_def segment_holds_def)
    then have "wal_iter_rest (wal_iter_read rd ?it) es"
      by (intro wal_iter_read_rest [where rest = "drop WAL_HEADER_SIZE contents"]) simp_all
    with None True e(2) show ?thesis
      by (simp add: wal_iter_fill_def Let_def segment_holds_def flip: contents_def)
  qed
qed

abbreviation wanted :: "u64 \<Rightarrow> wal_entry list \<Rightarrow> wal_entry list" where
  "wanted lsn \<equiv> filter (\<lambda>e. lsn \<le> we_lsn e)"

lemma append_overlap:
  assumes "d @ rest = s @ t"
  shows "length s \<le> length d \<Longrightarrow> \<exists>d2. d = s @ d2 \<and> d2 @ rest = t"
    "\<not> length s \<le> length d \<Longrightarrow> \<exists>d'. s = d @ d' \<and> d' \<noteq> [] \<and> rest = d' @ t"
  using assms by (auto simp: append_eq_append_conv2)

lemma wal_iter_turn_rest:
  assumes "wal_iter_rest it es"
  shows "case wal_iter_turn rd it of
      Inl it' \<Rightarrow> wi_start_lsn it' = wi_start_lsn it \<and>
        (\<exists>es'. wal_iter_rest it' es' \<and> wanted (wi_start_lsn it) es' = wanted (wi_start_lsn it) es)
    | Inr (r, it') \<Rightarrow> (r = None \<and> es = []) \<or> (\<exists>e es'. r = Some (Ok e) \<and> wal_iter_rest it' es' \<and>
        wi_start_lsn it' = wi_start_lsn it \<and> wanted (wi_start_lsn it) es = e # wanted (wi_start_lsn it) es')"
proof -
  let ?d = "drop (wi_buffer_pos it) (wi_buffer it)"
  let ?fill = "case wal_iter_fill rd it of Inl it' \<Rightarrow> Inl it' | Inr r \<Rightarrow> Inr (r, it)"
  have lsn: "wal_iter_fill rd it = Inl it' \<Longrightarrow> wi_start_lsn it' = wi_start_lsn it" for it'
    by (auto simp: wal_iter_fill_def Let_def split: if_splits)
  have fill: ?thesis if "wal_iter_turn rd it = ?fill" "wi_file it = Some [] \<Longrightarrow> ?d = []"
  proof (cases "wal_iter_fill rd it")
    case (Inl it')
    then have "wal_iter_rest it' es"
      using wal_iter_fill_rest [OF assms that(2), of rd] by simp
    with Inl that(1) lsn [OF Inl] show ?thesis
      by (simp only: sum.case) blast
  next
    case (Inr r)
    then have "r = None \<and> es = []"
      using wal_iter_fill_rest [OF assms that(2), of rd] by simp
    with Inr that(1) show ?thesis
      by simp
  qed
  show ?thesis
  proof (cases "wi_buffer_pos it < length (wi_buffer it)")
    case False
    then show ?thesis
      by (intro fill) (simp_all add: wal_iter_turn_def)
  next
    case True
    then have d: "?d \<noteq> []"
      by simp
    then obtain rest es1 ess where wf: "wi_file it = Some rest" and
      log: "?d @ rest = log_bytes es1" "\<forall>e \<in> set es1. wal_entry_ok e" "es = es1 @ concat ess" and
      ess: "list_all2 segment_holds (map snd (drop (Suc (wi_current_segment it)) (wi_segments it))) ess"
      using assms by (auto simp: wal_iter_rest_def split: option.splits)
    from log(1) d obtain e es2 where es1: "es1 = e # es2"
      by (cases es1) auto
    then have ok: "wal_entry_ok e"
      using log(2) by simp
    show ?thesis
    proof (cases "length (wal_entry_serialize e) \<le> length ?d")
      case False
      then obtain d' where d': "wal_entry_serialize e = ?d @ d'" "d' \<noteq> []" "rest = d' @ log_bytes es2"
        using append_overlap(2) [of ?d rest "wal_entry_serialize e" "log_bytes es2"] log(1) by (auto simp: es1)
      then obtain msg where "wal_entry_deserialize ?d = Err (UnexpectedEof, msg)"
        using wal_entry_deserialize_prefix [OF ok] by blast
      then have "wal_iter_turn rd it = ?fill"
        using True by (simp add: wal_iter_turn_def)
      moreover have "rest \<noteq> []"
        using d' by simp
      ultimately show ?thesis
        using wf by (intro fill) simp_all
    next
      case True
      then obtain d2 where d2: "?d = wal_entry_serialize e @ d2" "d2 @ rest = log_bytes es2"
        using append_overlap(1) [of ?d rest "wal_entry_serialize e" "log_bytes es2"] log(1) by (auto simp: es1)
      let ?it = "it\<lparr> wi_buffer_pos := wi_buffer_pos it + length (wal_entry_serialize e) \<rparr>"
      have deser: "wal_entry_deserialize ?d = Ok (e, length (wal_entry_serialize e))"
        unfolding d2(1) by (simp add: wal_entry_deserialize_serialize [OF ok] length_wal_entry_serialize [OF ok])
      have "drop (wi_buffer_pos it + length (wal_entry_serialize e)) (wi_buffer it) = d2"
        by (rule drop_appendD [OF d2(1)])
      then have "wal_iter_rest ?it (es2 @ concat ess)"
        using wf d2(2) log(2) ess by (auto simp: wal_iter_rest_def es1)
      then show ?thesis
        using \<open>wi_buffer_pos it < length (wi_buffer it)\<close> deser log(3) es1
        by (auto simp: wal_iter_turn_def Let_def)
    qed
  qed
qed

lemma wal_iter_next_rest:
  assumes "wal_iter_rest it es"
  shows "case wal_iter_next rd it of (r, it') \<Rightarrow> (r = None \<and> wanted (wi_start_lsn it) es = []) \<or>
    (\<exists>e es'. r = Some (Ok e) \<and> wal_iter_rest it' es' \<and> wi_start_lsn it' = wi_start_lsn it \<and>
       wanted (wi_start_lsn it) es = e # wanted (wi_start_lsn it) es')"
  using assms
proof (induction rd it arbitrary: es rule: wal_iter_next.induct)
  case (1 rd it)
  note turn = wal_iter_turn_rest [OF 1(2), of rd]
  show ?case
  proof (cases "wal_iter_turn rd it")
    case (Inl it')
    with turn obtain es' where es': "wal_iter_rest it' es'" "wi_start_lsn it' = wi_start_lsn it"
      "wanted (wi_start_lsn it) es' = wanted (wi_start_lsn it) es"
      by auto
    show ?thesis
      using 1(1) [OF Inl es'(1)] Inl es'(2,3) by (simp add: wal_iter_next.simps [of rd it])
  next
    case (Inr r)
    with turn show ?thesis
      by (cases r) (auto simp: wal_iter_next.simps [of rd it])
  qed
qed

text \<open>The answers of the iterator, at most \<open>n\<close> of them, as a loop over it sees them.\<close>

fun wal_iter_take :: "nat \<Rightarrow> (nat \<Rightarrow> nat) \<Rightarrow> wal_iter \<Rightarrow> wal_entry io list" where
  "wal_iter_take 0 rd it = []"
| "wal_iter_take (Suc n) rd it = (case wal_iter_next rd it of
     (None, it') \<Rightarrow> [] | (Some r, it') \<Rightarrow> r # wal_iter_take n rd it')"

lemma wal_iter_take_rest:
  "wal_iter_rest it es \<Longrightarrow> wal_iter_take n rd it = map Ok (take n (wanted (wi_start_lsn it) es))"
proof (induction n arbitrary: it es)
  case (Suc n)
  show ?case
    using wal_iter_next_rest [OF Suc.prems, of rd] Suc.IH by (auto split: prod.splits)
qed simp

text \<open>
  C23: the iterator returns exactly the entries of the log from the starting number on, segment
  after segment in the order of their numbers, and then ends, however many bytes each read of a file
  returns.
\<close>

theorem wal_reader_replays:
  assumes "list_all2 segment_holds (map snd (wal_segments dir)) ess"
  shows "wal_iter_take n rd (wal_entries_from lsn dir) = map Ok (take n (wanted lsn (concat ess)))"
proof -
  have "wal_iter_rest (wal_entries_from lsn dir) (concat ess)"
    using assms by (auto simp: wal_iter_rest_def wal_entries_from_def)
  from wal_iter_take_rest [OF this] show ?thesis
    by (simp add: wal_entries_from_def)
qed

lemma wal_reader_replays_witness:
  "let e = wal_entry_delete 5 3 2 uuid_nil in
   wal_iter_take 9 (\<lambda>n. n div 2)
     (wal_entries_from 2 [(''wal-0.log'', replicate 64 0 @ wal_entry_serialize e), (''x'', [])]) = [Ok e]"
proof -
  let ?e = "wal_entry_delete 5 3 2 uuid_nil"
  let ?dir = "[(''wal-0.log'', replicate 64 0 @ wal_entry_serialize ?e), (''x'', [])]"
  have "list_all2 segment_holds (map snd (wal_segments ?dir)) [[?e]]"
    by (simp add: wal_segments_def map_filter_def segment_number_def slice_def parse_u64_def segment_holds_def
        WAL_HEADER_SIZE_def wal_entry_ok_def) (simp add: wal_entry_delete_def uuid_nil_def)
  from wal_reader_replays [OF this, of 9 "\<lambda>n. n div 2" 2] show ?thesis
    by (simp add: wal_entry_delete_def)
qed

text \<open>
  An entry that fails its checksum stops the iterator for good: \<open>next\<close> answers with the error
  and does not move, so every later call answers the same, and a loop over the iterator that skips
  errors, as recovery does, never ends.
\<close>

theorem wal_iter_stuck_on_corruption:
  assumes "wi_buffer_pos it < length (wi_buffer it)"
    and "wal_entry_deserialize (drop (wi_buffer_pos it) (wi_buffer it)) = Err (InvalidData, msg)"
  shows "wal_iter_next rd it = (Some (Err (InvalidData, msg)), it) \<and>
    wal_iter_take n rd it = replicate n (Err (InvalidData, msg))"
proof -
  have next_it: "wal_iter_next rd it = (Some (Err (InvalidData, msg)), it)"
    using assms by (simp add: wal_iter_next.simps [of rd it] wal_iter_turn_def)
  moreover have "wal_iter_take n rd it = replicate n (Err (InvalidData, msg))"
    using next_it by (induction n) simp_all
  ultimately show ?thesis ..
qed


lemma wal_iter_stuck_on_corruption_witness:
  "wal_iter_take 3 (\<lambda>n. n) \<lparr> wi_segments = [], wi_current_segment = 0, wi_file = None,
     wi_buffer = replicate 45 9, wi_buffer_pos = 0, wi_start_lsn = 0 \<rparr> =
   replicate 3 (Err (InvalidData, ''unknown WAL entry type: 0x09''))"
  by (rule wal_iter_stuck_on_corruption [THEN conjunct2])
    (simp_all add: wal_entry_deserialize_def ENTRY_HEADER_SIZE_def wal_op_try_from_def show_02x_def hex_char_def)

text \<open>
  Segment files are named in hexadecimal and their names are read back in decimal: the numbers
  below ten survive, segment ten is not recognised as a segment at all, and segment sixteen is taken
  for segment ten.
\<close>

theorem segment_names:
  "map (\<lambda>n. segment_number (segment_path n)) [0, 1, 2, 3, 4, 5, 6, 7, 8, 9] =
     map Some [0, 1, 2, 3, 4, 5, 6, 7, 8, 9] \<and>
   segment_number (segment_path 10) = None \<and> segment_number (segment_path 16) = Some 10"
  by (simp add: segment_number_def segment_path_def slice_def to_le_def upt_rec show_02x_def hex_char_def
      parse_u64_def)

subsection \<open>The writer's log\<close>

definition wal_header_ok :: "wal_header \<Rightarrow> bool" where
  "wal_header_ok h \<longleftrightarrow> wh_magic h = WAL_MAGIC \<and> wh_version h \<le> WAL_VERSION \<and> length (wh_reserved h) = 12"

interpretation wal_header: sized_codec wal_header_serialize wal_header_deserialize WAL_HEADER_SIZE wal_header_ok
  by unfold_locales
    (simp_all add: wal_header_ok_def wal_header_serialize_def WAL_HEADER_SIZE_def
      wal_header_deserialize_def Let_def slice_skip slice_here not_less [symmetric])

lemma wal_header_new_ok [simp]: "wal_header_ok (wal_header_new hash seg lsn)"
  by (simp add: wal_header_ok_def wal_header_new_def)

text \<open>
  A directory with one segment, number 0, whose file and buffer together hold the entries \<open>es\<close>.
\<close>

definition writer_holds :: "wal_writer \<Rightarrow> wal_dir \<Rightarrow> wal_entry list \<Rightarrow> bool" where
  "writer_holds w dir es \<longleftrightarrow> (\<exists>buf disk. ww_file w = Some buf \<and> dir = [(segment_path 0, disk)] \<and>
     WAL_HEADER_SIZE \<le> length disk \<and> drop WAL_HEADER_SIZE disk @ buf = log_bytes es \<and>
     (\<forall>e \<in> set es. wal_entry_ok e)) \<and> ww_current_segment w = 0 \<and>
     unat (ww_file_size w) = WAL_HEADER_SIZE + length (log_bytes es) \<and>
     ww_max_segment_size w = DEFAULT_SEGMENT_SIZE \<and> wal_header_ok (ww_header w)"

lemma writer_holds_open: "ww_open hash [] = (w, dir) \<Longrightarrow> writer_holds w dir []"
  using wal_header.enc_size [OF wal_header_new_ok [of hash 0 1]]
  by (auto simp: ww_open_def ww_ensure_segment_def ww_flush_def Let_def writer_holds_def WAL_HEADER_SIZE_def)

text \<open>The segment has room for another entry as long as it is below 16 MB.\<close>

definition segment_room :: "wal_entry list \<Rightarrow> bool" where
  "segment_room es \<longleftrightarrow> WAL_HEADER_SIZE + length (log_bytes es) < 2 ^ 24"

lemma ww_ensure_segment_room:
  "writer_holds w dir es \<Longrightarrow> segment_room es \<Longrightarrow> ww_ensure_segment w dir = (w, dir)"
  by (auto simp: writer_holds_def segment_room_def ww_ensure_segment_def word_less_nat_alt DEFAULT_SEGMENT_SIZE_def)

lemma buf_write_append: "buf_write buf [] data = (buf', out) \<Longrightarrow> out @ buf' = buf @ data"
  by (cases buf) (auto simp: buf_write_def Let_def split: if_splits)

lemma writer_holds_write:
  assumes "writer_holds w dir es" "segment_room es" "wal_entry_ok e" "ww_write_entry e w dir = (w', dir')"
  shows "writer_holds w' dir' (es @ [e])" "ww_current_lsn w' = ww_current_lsn w"
    "ww_header w' = ww_header w" "ww_store_hash w' = ww_store_hash w"
proof -
  obtain buf disk where w: "ww_file w = Some buf" "dir = [(segment_path 0, disk)]"
    "WAL_HEADER_SIZE \<le> length disk" "drop WAL_HEADER_SIZE disk @ buf = log_bytes es"
    "\<forall>e \<in> set es. wal_entry_ok e" "ww_current_segment w = 0"
    "unat (ww_file_size w) = WAL_HEADER_SIZE + length (log_bytes es)"
    "ww_max_segment_size w = DEFAULT_SEGMENT_SIZE" "wal_header_ok (ww_header w)"
    using assms(1) by (auto simp: writer_holds_def)
  obtain buf' out where bw: "buf_write buf [] (wal_entry_serialize e) = (buf', out)"
    by (cases "buf_write buf [] (wal_entry_serialize e)")
  have w': "w' = w\<lparr> ww_file := Some buf', ww_file_size := ww_file_size w + of_nat (length (wal_entry_serialize e)) \<rparr>"
    "dir' = [(segment_path 0, disk @ out)]"
    using assms(4) [unfolded ww_write_entry_def ww_ensure_segment_room [OF assms(1,2)]] bw w(1,2,6)
    by (auto simp: dir_append_def)
  have "unat (ww_file_size w + of_nat (length (wal_entry_serialize e))) =
      WAL_HEADER_SIZE + length (log_bytes es) + length (wal_entry_serialize e)"
  proof -
    have "length (wal_entry_serialize e) < 2 ^ 33" "WAL_HEADER_SIZE + length (log_bytes es) < 2 ^ 24"
      using assms(2,3) by (simp_all add: length_wal_entry_serialize wal_entry_ok_def segment_room_def)
    then show ?thesis
      using w(7) by (simp add: unat_word_ariths unat_of_nat take_bit_nat_eq_self)
  qed
  then show "writer_holds w' dir' (es @ [e])"
    using w w' assms(3) buf_write_append [OF bw] by (simp add: writer_holds_def)
  show "ww_current_lsn w' = ww_current_lsn w" "ww_header w' = ww_header w" "ww_store_hash w' = ww_store_hash w"
    by (simp_all add: w')
qed

lemma writer_holds_sync:
  assumes "writer_holds w dir es" "ww_sync w dir = (w', dir')"
  shows "writer_holds w' dir' es" "ww_file w' = Some []" "ww_current_lsn w' = ww_current_lsn w"
    "ww_header w' = ww_header w" "ww_store_hash w' = ww_store_hash w"
  using assms by (auto simp: ww_sync_def ww_flush_def writer_holds_def dir_append_def)

lemma segment_number_0: "segment_number (segment_path 0) = Some 0"
  by (simp add: segment_number_def segment_path_def slice_def to_le_def upt_rec show_02x_def hex_char_def
      parse_u64_def)

text \<open>Once the buffer is empty, the files hold the whole log.\<close>

lemma writer_holds_segments:
  assumes "writer_holds w dir es" "ww_file w = Some []"
  shows "list_all2 segment_holds (map snd (wal_segments dir)) [es]"
  using assms by (auto simp: writer_holds_def wal_segments_def segment_number_0 segment_holds_def map_filter_def)


lemma segment_room_prefix: "segment_room (es @ fs) \<Longrightarrow> segment_room es"
  by (simp add: segment_room_def)

lemma writer_holds_commit_ok:
  assumes "writer_holds w dir es" "segment_room es"
  shows "\<exists>r. ww_commit now w dir = Ok r"
  using assms
  by (auto simp: writer_holds_def ww_commit_def ww_next_lsn_def ww_write_entry_def ww_ensure_segment_def
      ww_sync_def ww_flush_def ww_update_header_def dir_append_def segment_room_def word_less_nat_alt
      DEFAULT_SEGMENT_SIZE_def Let_def split: prod.splits)

lemma writer_holds_next: "writer_holds w dir es \<Longrightarrow> writer_holds (snd (ww_next_lsn w)) dir es"
  by (simp add: writer_holds_def ww_next_lsn_def)

subsection \<open>The header of the segment\<close>

text \<open>The header on disk of the segment; appending to the file leaves it alone.\<close>

definition log_header :: "wal_dir \<Rightarrow> wal_header io" where
  "log_header dir = wal_read_header (case hm_get (segment_path 0) dir of Some c \<Rightarrow> c | None \<Rightarrow> [])"

lemma wal_read_header_append:
  "WAL_HEADER_SIZE \<le> length c \<Longrightarrow> wal_read_header (c @ data) = wal_read_header c"
  by (simp add: wal_read_header_def read_exact_at_def slice_def)

lemma log_header_append:
  "writer_holds w dir es \<Longrightarrow> log_header (dir_append (segment_path (ww_current_segment w)) data dir) = log_header dir"
  by (auto simp: writer_holds_def log_header_def dir_append_def wal_read_header_append)

lemma log_header_write:
  assumes "writer_holds w dir es" "segment_room es" "ww_write_entry e w dir = (w', dir')"
  shows "log_header dir' = log_header dir"
  using assms(3) log_header_append [OF assms(1)] unfolding ww_write_entry_def ww_ensure_segment_room [OF assms(1,2)]
  by (auto simp: Let_def split: option.splits prod.splits)

lemma log_header_flush: "writer_holds w dir es \<Longrightarrow> log_header (snd (ww_flush w dir)) = log_header dir"
  using log_header_append [of w dir es] by (auto simp: ww_flush_def split: option.split)

lemma unat_lt_2p: "unat (x :: u64) < 2 ^ 64"
  using unsigned_less [of x, where ?'a = nat] by simp

text \<open>Opening the directory again: the same log, numbered from the last committed number on.\<close>

lemma writer_holds_reopen:
  assumes "writer_holds w dir es" "ww_file w = Some []" "ww_open hash dir = (w', dir')"
  shows "writer_holds w' dir' es" "ww_file w' = Some []" "dir' = dir"
    "log_header dir = Ok h \<Longrightarrow> ww_current_lsn w' = wh_last_committed_lsn h + 1"
proof -
  obtain disk where disk: "dir = [(segment_path 0, disk)]" "WAL_HEADER_SIZE \<le> length disk"
    "drop WAL_HEADER_SIZE disk = log_bytes es" "\<forall>e \<in> set es. wal_entry_ok e"
    "unat (ww_file_size w) = WAL_HEADER_SIZE + length (log_bytes es)"
    using assms(1,2) by (auto simp: writer_holds_def)
  have len: "length disk = WAL_HEADER_SIZE + length (log_bytes es)"
    using disk(2,3) by (metis le_add_diff_inverse length_drop)
  then have size: "unat (of_nat (length disk) :: u64) = length disk"
    using disk(5) unat_lt_2p [of "ww_file_size w"] by (intro unat_of_nat_u64) simp
  have "disk \<noteq> []"
    using disk(2) by (auto simp: WAL_HEADER_SIZE_def)
  define lsn where "lsn = snd (ww_scan (segment_path 0, disk) (0, 0))"
  have scan: "ww_scan (segment_path 0, disk) (0, 0) = (0, lsn)"
    by (simp add: lsn_def ww_scan_def segment_number_0)
  define cur where "cur = (if 0 < lsn then lsn + 1 else 1)"
  have eq: "w' = \<lparr> ww_store_hash = hash, ww_current_segment = 0, ww_current_lsn = cur, ww_file = Some [],
      ww_file_size = of_nat (length disk), ww_max_segment_size = DEFAULT_SEGMENT_SIZE,
      ww_header = wal_header_new hash 0 cur \<rparr>" "dir' = dir"
    using assms(3) \<open>disk \<noteq> []\<close>
    by (simp_all add: ww_open_def disk(1) scan ww_ensure_segment_def ww_flush_def Let_def cur_def)
  show "ww_file w' = Some []" "dir' = dir"
    by (simp_all add: eq)
  show "writer_holds w' dir' es"
    using disk len size by (simp add: writer_holds_def eq)
  show "ww_current_lsn w' = wh_last_committed_lsn h + 1" if "log_header dir = Ok h"
    using that word_gt_0 [of "wh_last_committed_lsn h"]
    by (auto simp: log_header_def disk(1) eq cur_def lsn_def ww_scan_def segment_number_0)
qed

text \<open>A commit: one more entry, everything flushed, and its number in the segment's header.\<close>

lemma writer_holds_commit:
  assumes "writer_holds w dir es" "segment_room es" "ww_commit now w dir = Ok (lsn, w', dir')"
  shows "lsn = ww_current_lsn w" "ww_current_lsn w' = lsn + 1" "writer_holds w' dir' (es @ [wal_entry_commit now lsn])"
    "ww_file w' = Some []" "\<exists>c. dir' = [(segment_path 0, c)] \<and> wal_read_header c = Ok (ww_header w')"
    "wh_last_committed_lsn (ww_header w') = lsn" "ww_store_hash w' = ww_store_hash w"
proof -
  define w0 where "w0 = w\<lparr> ww_current_lsn := ww_current_lsn w + 1 \<rparr>"
  define e where "e = wal_entry_commit now (ww_current_lsn w)"
  obtain w1 dir1 where w1: "ww_write_entry e w0 dir = (w1, dir1)"
    by (cases "ww_write_entry e w0 dir")
  obtain w2 dir2 where w2: "ww_sync w1 dir1 = (w2, dir2)"
    by (cases "ww_sync w1 dir1")
  define w3 where "w3 = w2\<lparr> ww_header := (ww_header w2)\<lparr> wh_last_committed_lsn := ww_current_lsn w \<rparr> \<rparr>"
  have ok: "wal_entry_ok e"
    by (simp add: e_def wal_entry_commit_def wal_entry_ok_def uuid_nil_def)
  have "writer_holds w0 dir es"
    using assms(1) by (simp add: writer_holds_def w0_def)
  note s1 = writer_holds_write [OF this assms(2) ok w1]
  note s2 = writer_holds_sync [OF s1(1) w2]
  have h: "wal_header_ok (ww_header w3)"
    using s2(1) by (simp add: writer_holds_def w3_def wal_header_ok_def)
  obtain disk where disk: "dir2 = [(segment_path 0, disk)]" "WAL_HEADER_SIZE \<le> length disk"
    "drop WAL_HEADER_SIZE disk = log_bytes (es @ [e])" "ww_current_segment w2 = 0"
    using s2(1,2) by (auto simp: writer_holds_def)
  define c where "c = write_at disk 0 (wal_header_serialize (ww_header w3))"
  have eqs: "lsn = ww_current_lsn w" "w' = w3" "dir' = [(segment_path 0, c)]"
    using assms(3) disk(1,4) w1 w2
    by (auto simp: ww_commit_def ww_next_lsn_def ww_update_header_def w0_def e_def w3_def c_def)
  have c: "c = wal_header_serialize (ww_header w3) @ drop WAL_HEADER_SIZE disk"
    using wal_header.enc_size [OF h] by (simp add: c_def write_at_def)
  show "lsn = ww_current_lsn w" "ww_current_lsn w' = lsn + 1" "ww_file w' = Some []"
    "wh_last_committed_lsn (ww_header w') = lsn" "ww_store_hash w' = ww_store_hash w"
    using s1 s2 by (simp_all add: eqs w3_def w0_def)
  have "wal_read_header c = Ok (ww_header w3)"
    unfolding wal_read_header_def c_def by (rule wal_header.read_written [OF h]) 
  then show "\<exists>c. dir' = [(segment_path 0, c)] \<and> wal_read_header c = Ok (ww_header w')"
    by (simp add: eqs)
  have "drop WAL_HEADER_SIZE c = drop WAL_HEADER_SIZE disk" "WAL_HEADER_SIZE \<le> length c"
    using wal_header.enc_size [OF h] by (simp_all add: c)
  then show "writer_holds w' dir' (es @ [wal_entry_commit now lsn])"
    using s2(1,2) disk h by (simp add: writer_holds_def eqs w3_def e_def)
qed

subsection \<open>The numbered log\<close>

text \<open>
  What the owner of a log does with it: log an entry under the next number (as the operations of the
  engine do), commit, write a checkpoint, flush, or drop the writer, which flushes its buffer, and
  open the directory again.
\<close>

datatype wal_call = WcLog wal_entry | WcCommit u64 | WcCheckpoint u64 | WcSync | WcReopen

fun ww_call :: "u64 \<Rightarrow> wal_call \<Rightarrow> wal_writer \<times> wal_dir \<Rightarrow> (wal_writer \<times> wal_dir) io" where
  "ww_call hash (WcLog e) (w, dir) = (let (lsn, w) = ww_next_lsn w in Ok (ww_write_entry (e\<lparr> we_lsn := lsn \<rparr>) w dir))"
| "ww_call hash (WcCommit now) (w, dir) = omap snd (ww_commit now w dir)"
| "ww_call hash (WcCheckpoint now) (w, dir) = Ok (snd (ww_checkpoint now w dir))"
| "ww_call hash WcSync (w, dir) = Ok (ww_sync w dir)"
| "ww_call hash WcReopen (w, dir) = Ok (ww_open hash (snd (ww_flush w dir)))"

fun ww_calls :: "u64 \<Rightarrow> wal_call list \<Rightarrow> wal_writer \<times> wal_dir \<Rightarrow> (wal_writer \<times> wal_dir) io" where
  "ww_calls hash [] s = Ok s"
| "ww_calls hash (c # cs) s = obind (ww_call hash c s) (ww_calls hash cs)"

text \<open>
  The log as a specification: its entries, the next number and the last number that was committed,
  which is the one numbering resumes after when the log is opened again.
\<close>

record log_state =
  la_entries :: "wal_entry list"
  la_next :: u64
  la_committed :: u64

definition log_append :: "(u64 \<Rightarrow> wal_entry) \<Rightarrow> log_state \<Rightarrow> log_state" where
  "log_append entry l = l\<lparr> la_entries := la_entries l @ [entry (la_next l)], la_next := la_next l + 1 \<rparr>"

fun log_call :: "wal_call \<Rightarrow> log_state \<Rightarrow> log_state" where
  "log_call (WcLog e) l = log_append (\<lambda>lsn. e\<lparr> we_lsn := lsn \<rparr>) l"
| "log_call (WcCommit now) l = (log_append (wal_entry_commit now) l)\<lparr> la_committed := la_next l \<rparr>"
| "log_call (WcCheckpoint now) l = log_append (wal_entry_checkpoint now) l"
| "log_call WcSync l = l"
| "log_call WcReopen l = l\<lparr> la_next := la_committed l + 1 \<rparr>"

definition log_after :: "wal_call list \<Rightarrow> log_state" where
  "log_after cs = fold log_call cs \<lparr> la_entries = [], la_next = 1, la_committed = 0 \<rparr>"

text \<open>The writer and the directory implement the specification.\<close>

definition writer_refines :: "wal_writer \<Rightarrow> wal_dir \<Rightarrow> log_state \<Rightarrow> bool" where
  "writer_refines w dir l \<longleftrightarrow> writer_holds w dir (la_entries l) \<and> ww_current_lsn w = la_next l \<and>
     (\<exists>h. log_header dir = Ok h \<and> wh_last_committed_lsn h = la_committed l)"

fun call_ok :: "wal_call \<Rightarrow> bool" where
  "call_ok (WcLog e) \<longleftrightarrow> wal_entry_ok e"
| "call_ok _ \<longleftrightarrow> True"

lemma writer_refines_open:
  assumes "ww_open hash [] = (w, dir)"
  shows "writer_refines w dir \<lparr> la_entries = [], la_next = 1, la_committed = 0 \<rparr>"
proof -
  let ?h = "wal_header_new hash 0 1"
  have "read_exact_at (wal_header_serialize ?h) 0 WAL_HEADER_SIZE = Ok (wal_header_serialize ?h)"
    using wal_header.enc_size [OF wal_header_new_ok [of hash 0 1]] by (simp add: read_exact_at_def slice_all)
  then have "wal_read_header (wal_header_serialize ?h) = Ok ?h"
    using wal_header.dec_enc [OF wal_header_new_ok [of hash 0 1]] by (simp add: wal_read_header_def)
  moreover have "dir = [(segment_path 0, wal_header_serialize ?h)]" "ww_current_lsn w = 1"
    using assms by (auto simp: ww_open_def ww_ensure_segment_def ww_flush_def Let_def)
  ultimately show ?thesis
    using writer_holds_open [OF assms] by (simp add: writer_refines_def log_header_def) (simp add: wal_header_new_def)
qed

lemma writer_refines_log:
  assumes "writer_refines w dir l" "segment_room (la_entries l)" "wal_entry_ok (entry (la_next l))"
    and "ww_write_entry (entry (la_next l)) (snd (ww_next_lsn w)) dir = (w', dir')"
  shows "writer_refines w' dir' (log_append entry l)"
proof -
  have h: "writer_holds (snd (ww_next_lsn w)) dir (la_entries l)"
    using assms(1) by (simp add: writer_refines_def writer_holds_next)
  show ?thesis
    using assms(1) writer_holds_write [OF h assms(2,3,4)] log_header_write [OF h assms(2,4)]
    by (simp add: writer_refines_def log_append_def ww_next_lsn_def)
qed

lemma writer_refines_sync:
  assumes "writer_refines w dir l" "ww_sync w dir = (w', dir')"
  shows "writer_refines w' dir' l" "ww_file w' = Some []"
  using assms writer_holds_sync [of w dir "la_entries l" w' dir'] log_header_flush [of w dir "la_entries l"]
  by (auto simp: writer_refines_def ww_sync_def)

lemma writer_refines_commit:
  assumes "writer_refines w dir l" "segment_room (la_entries l)"
  shows "\<exists>w' dir'. ww_commit now w dir = Ok (la_next l, w', dir') \<and> ww_file w' = Some [] \<and>
    writer_refines w' dir' (log_call (WcCommit now) l)"
proof -
  have h: "writer_holds w dir (la_entries l)" "ww_current_lsn w = la_next l"
    using assms(1) by (simp_all add: writer_refines_def)
  obtain lsn w' dir' where c: "ww_commit now w dir = Ok (lsn, w', dir')"
    using writer_holds_commit_ok [OF h(1) assms(2)] by (metis prod_cases3)
  note W = writer_holds_commit [OF h(1) assms(2) c]
  have "log_header dir' = Ok (ww_header w')"
    using W(5) by (auto simp: log_header_def)
  then show ?thesis
    using c W h(2) by (auto simp: writer_refines_def log_append_def)
qed

lemma writer_refines_call:
  assumes "writer_refines w dir l" "segment_room (la_entries l)" "call_ok c"
  shows "\<exists>w' dir'. ww_call hash c (w, dir) = Ok (w', dir') \<and> writer_refines w' dir' (log_call c l)"
proof (cases c)
  case (WcLog e)
  obtain w' dir' where w': "ww_write_entry (e\<lparr> we_lsn := la_next l \<rparr>) (snd (ww_next_lsn w)) dir = (w', dir')"
    by (metis surj_pair)
  have "wal_entry_ok (e\<lparr> we_lsn := la_next l \<rparr>)"
    using assms(3) WcLog by (simp add: wal_entry_ok_def)
  then have "writer_refines w' dir' (log_append (\<lambda>lsn. e\<lparr> we_lsn := lsn \<rparr>) l)"
    using w' by (intro writer_refines_log [OF assms(1,2)])
  then show ?thesis
    using w' WcLog assms(1) by (simp add: writer_refines_def ww_next_lsn_def)
next
  case (WcCommit now)
  then show ?thesis using writer_refines_commit [OF assms(1,2), of now] by auto
next
  case (WcCheckpoint now)
  obtain w1 dir1 where w1: "ww_write_entry (wal_entry_checkpoint now (la_next l)) (snd (ww_next_lsn w)) dir = (w1, dir1)"
    by (metis surj_pair)
  obtain w2 dir2 where w2: "ww_sync w1 dir1 = (w2, dir2)" by (metis surj_pair)
  have "wal_entry_ok (wal_entry_checkpoint now (la_next l))"
    by (simp add: wal_entry_ok_def wal_entry_checkpoint_def uuid_nil_def)
  then have "writer_refines w1 dir1 (log_append (wal_entry_checkpoint now) l)"
    using w1 by (intro writer_refines_log [OF assms(1,2)])
  from writer_refines_sync(1) [OF this w2] show ?thesis
    using w1 w2 WcCheckpoint assms(1) by (simp add: writer_refines_def ww_checkpoint_def ww_next_lsn_def)
next
  case WcSync
  then show ?thesis using writer_refines_sync(1) [OF assms(1)] by (cases "ww_sync w dir") simp
next
  case WcReopen
  obtain w1 dir1 where w1: "ww_sync w dir = (w1, dir1)" by (metis surj_pair)
  obtain w2 dir2 where w2: "ww_open hash dir1 = (w2, dir2)" by (metis surj_pair)
  note R = writer_refines_sync [OF assms(1) w1]
  from R(1) obtain h where "log_header dir1 = Ok h" "wh_last_committed_lsn h = la_committed l"
    by (auto simp: writer_refines_def)
  with writer_holds_reopen [OF _ R(2) w2] R(1) have "writer_refines w2 dir2 (log_call WcReopen l)"
    by (auto simp: writer_refines_def)
  then show ?thesis using w1 w2 WcReopen by (simp add: ww_sync_def)
qed

lemma log_call_grows: "\<exists>es. la_entries (log_call c l) = la_entries l @ es"
  by (cases c) (simp_all add: log_append_def)

lemma segment_room_before:
  "segment_room (la_entries (fold log_call cs l)) \<Longrightarrow> segment_room (la_entries l)"
proof (induction cs arbitrary: l)
  case (Cons c cs)
  then have "segment_room (la_entries (log_call c l))" by simp
  then show ?case using log_call_grows [of c l] segment_room_prefix by auto
qed simp

lemma writer_refines_calls:
  assumes "writer_refines w dir l" "segment_room (la_entries (fold log_call cs l))" "\<forall>c \<in> set cs. call_ok c"
  shows "\<exists>w' dir'. ww_calls hash cs (w, dir) = Ok (w', dir') \<and> writer_refines w' dir' (fold log_call cs l)"
  using assms
proof (induction cs arbitrary: w dir l)
  case (Cons c cs)
  obtain w1 dir1 where w1: "ww_call hash c (w, dir) = Ok (w1, dir1)" "writer_refines w1 dir1 (log_call c l)"
    using writer_refines_call [OF Cons.prems(1) segment_room_before [OF Cons.prems(2)], of c hash] Cons.prems(3) by auto
  with Cons.IH [OF w1(2)] Cons.prems show ?case by simp
qed simp

text \<open>A log that is opened again before its entries are committed gives their numbers out once more.\<close>

lemma uncommitted_numbers_reused:
  "map we_lsn (la_entries (log_after [WcLog e, WcLog e, WcSync, WcReopen, WcLog e])) = [1, 2, 1]"
  by (simp add: log_after_def log_append_def)

text \<open>
  C13: a new log on which entries are logged, committed, checkpointed and flushed, and which is closed and
  opened again, in any order, never fails and holds what the specification says: after a commit, the
  files alone (the writer's buffer is not needed) replay, from any number on, exactly the entries under
  the numbers they were given, in order, the commit last; and a writer that opens the directory later
  numbers its entries from the one after the commit. All in the first segment, of 16 MB.
\<close>

theorem wal_commit_durable:
  assumes "\<forall>c \<in> set calls. call_ok c" "segment_room (la_entries (log_after calls))"
  shows "\<exists>w dir w' dir'. ww_calls hash calls (ww_open hash []) = Ok (w, dir) \<and>
    ww_commit now w dir = Ok (la_next (log_after calls), w', dir') \<and>
    wal_iter_take n rd (wal_entries_from start dir') = map Ok (take n (wanted start
      (la_entries (log_after calls) @ [wal_entry_commit now (la_next (log_after calls))]))) \<and>
    ww_current_lsn (fst (ww_open hash' dir')) = la_next (log_after calls) + 1"
proof -
  let ?l = "log_after calls"
  obtain w0 dir0 where w0: "ww_open hash [] = (w0, dir0)" by (metis surj_pair)
  obtain w dir where w: "ww_calls hash calls (w0, dir0) = Ok (w, dir)" "writer_refines w dir ?l"
    using writer_refines_calls [OF writer_refines_open [OF w0], of calls hash] assms by (auto simp: log_after_def)
  obtain w' dir' where c: "ww_commit now w dir = Ok (la_next ?l, w', dir')" "ww_file w' = Some []"
    "writer_refines w' dir' (log_call (WcCommit now) ?l)"
    using writer_refines_commit [OF w(2) assms(2)] by blast
  let ?es = "la_entries ?l @ [wal_entry_commit now (la_next ?l)]"
  have h: "writer_holds w' dir' ?es" "\<exists>h. log_header dir' = Ok h \<and> wh_last_committed_lsn h = la_next ?l"
    using c(3) by (simp_all add: writer_refines_def log_append_def)
  have "wal_iter_rest (wal_entries_from start dir') ?es"
    using writer_holds_segments [OF h(1) c(2)]
    by (auto simp: wal_iter_rest_def wal_entries_from_def intro!: exI [of _ "[?es]"])
  from wal_iter_take_rest [OF this] have "wal_iter_take n rd (wal_entries_from start dir') = map Ok (take n (wanted start ?es))"
    by (simp add: wal_entries_from_def)
  moreover have "ww_current_lsn (fst (ww_open hash' dir')) = la_next ?l + 1"
    using writer_holds_reopen(4) [OF h(1) c(2), of hash'] h(2) by (metis prod.collapse)
  ultimately show ?thesis using w0 w(1) c(1) by auto
qed

lemma wal_commit_durable_witness:
  "\<exists>w dir w' dir'. ww_calls 7 [WcLog (wal_entry_delete 5 0 2 uuid_nil), WcCommit 6, WcReopen,
       WcLog (wal_entry_delete 8 0 3 uuid_nil)] (ww_open 7 []) = Ok (w, dir) \<and>
     ww_commit 9 w dir = Ok (4, w', dir') \<and>
     wal_iter_take 9 (\<lambda>n. 4) (wal_entries_from 2 dir') =
       [Ok (wal_entry_commit 6 2), Ok (wal_entry_delete 8 3 3 uuid_nil), Ok (wal_entry_commit 9 4)] \<and>
     ww_current_lsn (fst (ww_open 7 dir')) = 5"
proof -
  let ?cs = "[WcLog (wal_entry_delete 5 0 2 uuid_nil), WcCommit 6, WcReopen, WcLog (wal_entry_delete 8 0 3 uuid_nil)]"
  have ok: "\<forall>c \<in> set ?cs. call_ok c"
    by (simp add: wal_entry_ok_def wal_entry_delete_def uuid_nil_def)
  have l: "la_entries (log_after ?cs) = [wal_entry_delete 5 1 2 uuid_nil, wal_entry_commit 6 2, wal_entry_delete 8 3 3 uuid_nil]"
    "la_next (log_after ?cs) = 4"
    by (simp_all add: log_after_def log_append_def wal_entry_delete_def wal_entry_commit_def)
  have "segment_room (la_entries (log_after ?cs))"
    unfolding l(1) by (simp add: segment_room_def WAL_HEADER_SIZE_def length_wal_entry_serialize wal_entry_ok_def
        wal_entry_delete_def wal_entry_commit_def uuid_nil_def)
  moreover have "map Ok (take 9 (wanted 2 (la_entries (log_after ?cs) @ [wal_entry_commit 9 (la_next (log_after ?cs))]))) =
      ([Ok (wal_entry_commit 6 2), Ok (wal_entry_delete 8 3 3 uuid_nil), Ok (wal_entry_commit 9 4)] :: wal_entry io list)"
    unfolding l by (simp add: wal_entry_delete_def wal_entry_commit_def word_le_nat_alt)
  moreover have "la_next (log_after ?cs) + 1 = 5"
    by (simp add: l)
  ultimately show ?thesis
    using wal_commit_durable [OF ok, of 7 9 9 "\<lambda>n. 4" 2 7] by (simp only: l(2))
qed

end
