(* ===== verification/Store_Secondary.thy ===== *)
theory Store_Secondary
  imports Store_Record Coral_Map NanBox
begin

text \<open>
  Secondary indexes (\<open>runtime/src/store/secondary_index.rs\<close>): a hash or an ordered index from the
  values of one field to the objects that have them, and the manager that keeps one index for each
  indexed field. Both maps are lists of groups, a key and its object numbers; they differ in when a
  key matches a value. A \<open>HashMap\<close> compares with \<open>==\<close> among equal hashes, and the hash of a double
  is that of its bits: a key matches the value it equals bit for bit, unless a NaN is in it. A
  \<open>BTreeMap\<close> matches where \<open>cmp\<close> says \<open>Equal\<close> and keeps its keys in order.
\<close>

subsection \<open>Groups\<close>

type_synonym groups = "(stored_value \<times> u64 list) list"

fun groups_find :: "(stored_value \<Rightarrow> stored_value \<Rightarrow> bool) \<Rightarrow> stored_value \<Rightarrow> groups \<Rightarrow> u64 list option" where
  "groups_find eq v [] = None"
| "groups_find eq v ((k, ids) # g) = (if eq k v then Some ids else groups_find eq v g)"

text \<open>\<open>entry(value).or_default().push(index)\<close>; \<open>before v k\<close> puts a new group in front of \<open>k\<close>.\<close>

fun groups_push :: "(stored_value \<Rightarrow> stored_value \<Rightarrow> bool) \<Rightarrow> (stored_value \<Rightarrow> stored_value \<Rightarrow> bool) \<Rightarrow>
    stored_value \<Rightarrow> u64 \<Rightarrow> groups \<Rightarrow> groups" where
  "groups_push eq before v i [] = [(v, [i])]"
| "groups_push eq before v i ((k, ids) # g) =
     (if eq k v then (k, ids @ [i]) # g
      else if before v k then (v, [i]) # (k, ids) # g
      else (k, ids) # groups_push eq before v i g)"

text \<open>\<open>get_mut(value)\<close>, \<open>retain\<close>, and removal of a group left empty.\<close>

fun groups_retain :: "(stored_value \<Rightarrow> stored_value \<Rightarrow> bool) \<Rightarrow> stored_value \<Rightarrow> u64 \<Rightarrow> groups \<Rightarrow> groups" where
  "groups_retain eq v i [] = []"
| "groups_retain eq v i ((k, ids) # g) =
     (if eq k v then (let ids = filter (\<lambda>id. id \<noteq> i) ids in if ids = [] then g else (k, ids) # g)
      else (k, ids) # groups_retain eq v i g)"

text \<open>
  The keys of a \<open>HashMap\<close> match when they are equal and not NaN. \<open>PartialEq\<close> holds between 0.0 and -0.0 too,
  which \<open>Hash\<close> tells apart, so that whether one finds the other is up to the table: here it does not.
\<close>

fun sv_has_nan :: "stored_value \<Rightarrow> bool" where
  "sv_has_nan (SFloat f) \<longleftrightarrow> f64_is_nan f"
| "sv_has_nan (SList vs) \<longleftrightarrow> (\<exists>v \<in> set vs. sv_has_nan v)"
| "sv_has_nan (SMap ps) \<longleftrightarrow> (\<exists>(k, v) \<in> set ps. sv_has_nan v)"
| "sv_has_nan _ \<longleftrightarrow> False"

definition hash_eq :: "stored_value \<Rightarrow> stored_value \<Rightarrow> bool" where
  "hash_eq k v \<longleftrightarrow> k = v \<and> \<not> sv_has_nan v"

definition ord_eq :: "stored_value \<Rightarrow> stored_value \<Rightarrow> bool" where
  "ord_eq k v \<longleftrightarrow> sv_cmp k v = Equal"

definition ord_before :: "stored_value \<Rightarrow> stored_value \<Rightarrow> bool" where
  "ord_before v k \<longleftrightarrow> sv_cmp v k = Less"

definition no_before :: "stored_value \<Rightarrow> stored_value \<Rightarrow> bool" where
  "no_before v k \<longleftrightarrow> False"

subsection \<open>\<open>SecondaryIndex\<close>\<close>

datatype secondary_index_kind = KHash | KOrdered

record secondary_index =
  si_field_name :: bytes
  si_kind :: secondary_index_kind
  si_hash :: groups
  si_ordered :: groups
  si_entries :: "u64 set"

definition si_new :: "bytes \<Rightarrow> secondary_index_kind \<Rightarrow> secondary_index" where
  "si_new field_name kind = \<lparr> si_field_name = field_name, si_kind = kind, si_hash = [],
     si_ordered = [], si_entries = {} \<rparr>"

definition si_insert :: "u64 \<Rightarrow> stored_value \<Rightarrow> secondary_index \<Rightarrow> secondary_index" where
  "si_insert index v si = (let si = si\<lparr> si_entries := insert index (si_entries si) \<rparr> in
     case si_kind si of
       KHash \<Rightarrow> si\<lparr> si_hash := groups_push hash_eq no_before v index (si_hash si) \<rparr>
     | KOrdered \<Rightarrow> si\<lparr> si_ordered := groups_push ord_eq ord_before v index (si_ordered si) \<rparr>)"

definition si_remove :: "u64 \<Rightarrow> stored_value \<Rightarrow> secondary_index \<Rightarrow> secondary_index" where
  "si_remove index v si =
     (if index \<notin> si_entries si then si
      else let si = si\<lparr> si_entries := si_entries si - {index} \<rparr> in
        case si_kind si of
          KHash \<Rightarrow> si\<lparr> si_hash := groups_retain hash_eq v index (si_hash si) \<rparr>
        | KOrdered \<Rightarrow> si\<lparr> si_ordered := groups_retain ord_eq v index (si_ordered si) \<rparr>)"

definition si_update :: "u64 \<Rightarrow> stored_value \<Rightarrow> stored_value \<Rightarrow> secondary_index \<Rightarrow> secondary_index" where
  "si_update index old_value new_value si = si_insert index new_value (si_remove index old_value si)"

definition si_find_eq :: "stored_value \<Rightarrow> secondary_index \<Rightarrow> u64 list" where
  "si_find_eq v si = (case (case si_kind si of
       KHash \<Rightarrow> groups_find hash_eq v (si_hash si)
     | KOrdered \<Rightarrow> groups_find ord_eq v (si_ordered si)) of Some ids \<Rightarrow> ids | None \<Rightarrow> [])"

text \<open>
  \<open>BTreeMap::range\<close> panics when the lower bound is above the upper bound, as the standard library documents;
  its present version does not for a map in which nothing was ever inserted.
\<close>

definition si_find_range :: "stored_value \<Rightarrow> stored_value \<Rightarrow> secondary_index \<Rightarrow> u64 list io" where
  "si_find_range lo hi si =
     (if si_kind si \<noteq> KOrdered then Ok []
      else if sv_cmp lo hi = Greater then Panic
      else Ok (concat (map snd (filter (\<lambda>(k, ids). sv_cmp lo k \<noteq> Greater \<and> sv_cmp k hi \<noteq> Greater)
        (si_ordered si)))))"

definition si_all_ids :: "secondary_index \<Rightarrow> u64 list" where
  "si_all_ids si = (case si_kind si of
       KHash \<Rightarrow> sort (concat (map snd (si_hash si)))
     | KOrdered \<Rightarrow> concat (map snd (si_ordered si)))"

definition si_cardinality :: "secondary_index \<Rightarrow> nat" where
  "si_cardinality si = (case si_kind si of
       KHash \<Rightarrow> length (si_hash si) | KOrdered \<Rightarrow> length (si_ordered si))"

definition si_len :: "secondary_index \<Rightarrow> nat" where
  "si_len si = card (si_entries si)"

definition si_clear :: "secondary_index \<Rightarrow> secondary_index" where
  "si_clear si = si\<lparr> si_hash := [], si_ordered := [], si_entries := {} \<rparr>"

subsection \<open>\<open>SecondaryIndexManager\<close>\<close>

type_synonym sim = "(bytes, secondary_index) hmap"

definition sim_create_index :: "bytes \<Rightarrow> secondary_index_kind \<Rightarrow> sim \<Rightarrow> sim io" where
  "sim_create_index field_name kind sim =
     (if hm_contains field_name sim then Err (AlreadyExists, ''Index already exists'')
      else Ok (hm_insert field_name (si_new field_name kind) sim))"

definition sim_drop_index :: "bytes \<Rightarrow> sim \<Rightarrow> bool \<times> sim" where
  "sim_drop_index field_name sim = (hm_contains field_name sim, hm_remove field_name sim)"

definition sim_indexed_fields :: "sim \<Rightarrow> bytes list" where
  "sim_indexed_fields sim = map fst sim"

fun sim_on_insert :: "u64 \<Rightarrow> field_list \<Rightarrow> sim \<Rightarrow> sim" where
  "sim_on_insert index [] sim = sim"
| "sim_on_insert index ((name, v) # flds) sim = sim_on_insert index flds
     (case hm_get name sim of Some si \<Rightarrow> hm_insert name (si_insert index v si) sim | None \<Rightarrow> sim)"

text \<open>\<open>fields.iter().find(|(n, _)| n == name)\<close> is the first field of that name.\<close>

definition sim_on_update :: "u64 \<Rightarrow> field_list \<Rightarrow> field_list \<Rightarrow> sim \<Rightarrow> sim" where
  "sim_on_update index old_fields new_fields sim = map (\<lambda>(name, si). (name,
     case (map_of old_fields (si_field_name si), map_of new_fields (si_field_name si)) of
       (Some ov, Some nv) \<Rightarrow> si_update index ov nv si
     | (Some ov, None) \<Rightarrow> si_remove index ov si
     | (None, Some nv) \<Rightarrow> si_insert index nv si
     | (None, None) \<Rightarrow> si)) sim"

fun sim_on_delete :: "u64 \<Rightarrow> field_list \<Rightarrow> sim \<Rightarrow> sim" where
  "sim_on_delete index [] sim = sim"
| "sim_on_delete index ((name, v) # flds) sim = sim_on_delete index flds
     (case hm_get name sim of Some si \<Rightarrow> hm_insert name (si_remove index v si) sim | None \<Rightarrow> sim)"

definition sim_rebuild :: "(u64 \<times> field_list \<times> bool) list \<Rightarrow> sim \<Rightarrow> sim" where
  "sim_rebuild objects sim = fold (\<lambda>(id, flds, is_deleted) sim.
     if is_deleted then sim else sim_on_insert id flds sim) objects (map (\<lambda>(n, si). (n, si_clear si)) sim)"

definition sim_find_eq :: "bytes \<Rightarrow> stored_value \<Rightarrow> sim \<Rightarrow> u64 list option" where
  "sim_find_eq field_name v sim = map_option (si_find_eq v) (hm_get field_name sim)"

definition sim_find_range :: "bytes \<Rightarrow> stored_value \<Rightarrow> stored_value \<Rightarrow> sim \<Rightarrow> u64 list io option" where
  "sim_find_range field_name lo hi sim = map_option (si_find_range lo hi) (hm_get field_name sim)"

subsection \<open>What a grouped index promises\<close>

text \<open>
  The groups of an index describe the indexed value of each object, \<open>vals\<close>: every group holds the
  objects whose value its key matches, no two keys match each other, and no object is left out.
\<close>

definition groups_hold :: "(stored_value \<Rightarrow> stored_value \<Rightarrow> bool) \<Rightarrow> (stored_value \<Rightarrow> stored_value \<Rightarrow> bool) \<Rightarrow>
    (stored_value \<Rightarrow> bool) \<Rightarrow> groups \<Rightarrow> (u64 \<rightharpoonup> stored_value) \<Rightarrow> bool" where
  "groups_hold eq lt ok g vals \<longleftrightarrow> sorted_wrt lt (map fst g) \<and>
     (\<forall>(k, ids) \<in> set g. distinct ids \<and> (\<forall>i. i \<in> set ids \<longleftrightarrow> (\<exists>w. vals i = Some w \<and> eq k w))) \<and>
     (\<forall>i w. vals i = Some w \<longrightarrow> ok w \<and> (\<exists>k \<in> fst ` set g. eq k w))"

locale grouping =
  fixes eq :: "stored_value \<Rightarrow> stored_value \<Rightarrow> bool" and lt :: "stored_value \<Rightarrow> stored_value \<Rightarrow> bool"
    and before :: "stored_value \<Rightarrow> stored_value \<Rightarrow> bool" and ok :: "stored_value \<Rightarrow> bool"
  assumes eq_refl: "ok v \<Longrightarrow> eq v v"
    and eq_sym: "eq a b \<Longrightarrow> eq b a"
    and eq_trans: "eq a b \<Longrightarrow> eq b c \<Longrightarrow> eq a c"
    and lt_not_eq: "lt a b \<Longrightarrow> \<not> eq a b"
    and before_lt: "before v k \<Longrightarrow> lt v k"
    and before_lt_trans: "before v k \<Longrightarrow> lt k k' \<Longrightarrow> lt v k'"
    and after_lt: "\<not> eq k v \<Longrightarrow> \<not> before v k \<Longrightarrow> lt k v"
begin

lemma holds_empty: "groups_hold eq lt ok [] Map.empty"
  by (simp add: groups_hold_def)

lemma find_split:
  "(case groups_find eq v g of
      Some ids \<Rightarrow> \<exists>k. (k, ids) \<in> set g \<and> eq k v | None \<Rightarrow> \<forall>k \<in> fst ` set g. \<not> eq k v)"
  by (induction g) (auto split: option.splits if_splits)

lemma find_holds:
  assumes "groups_hold eq lt ok g vals"
  shows "i \<in> set (case groups_find eq v g of Some ids \<Rightarrow> ids | None \<Rightarrow> []) \<longleftrightarrow> (\<exists>w. vals i = Some w \<and> eq w v)"
proof (cases "groups_find eq v g")
  case None
  then have "\<forall>k \<in> fst ` set g. \<not> eq k v"
    using find_split [of g v] by simp
  moreover have "vals i = Some w \<Longrightarrow> \<exists>k \<in> fst ` set g. eq k w" for w
    using assms unfolding groups_hold_def by blast
  ultimately have "\<not> eq w v" if "vals i = Some w" for w
    using that eq_trans by blast
  then show ?thesis
    using None by auto
next
  case (Some ids)
  then obtain k where k: "(k, ids) \<in> set g" "eq k v"
    using find_split [of g v] by auto
  then have "i \<in> set ids \<longleftrightarrow> (\<exists>w. vals i = Some w \<and> eq k w)"
    using assms unfolding groups_hold_def by blast
  moreover have "eq k w \<longleftrightarrow> eq w v" for w
    using k(2) eq_sym eq_trans by blast
  ultimately show ?thesis
    using Some by simp
qed

lemma find_distinct:
  "groups_hold eq lt ok g vals \<Longrightarrow> distinct (case groups_find eq v g of Some ids \<Rightarrow> ids | None \<Rightarrow> [])"
  using find_split [of g v] by (auto simp: groups_hold_def split: option.splits)

lemma push_split:
  assumes "sorted_wrt lt (map fst g)"
  obtains (old) g1 k ids g2 where "g = g1 @ (k, ids) # g2" "eq k v"
      "groups_push eq before v i g = g1 @ (k, ids @ [i]) # g2"
    | (new) g1 g2 where "g = g1 @ g2" "groups_push eq before v i g = g1 @ (v, [i]) # g2"
      "\<forall>k \<in> fst ` set g1. lt k v" "\<forall>k \<in> fst ` set g2. lt v k" "\<forall>k \<in> fst ` set g. \<not> eq k v"
  using assms
proof (induction g arbitrary: thesis)
  case Nil
  from Nil(2) [of "[]" "[]"] show ?case by simp
next
  case (Cons p g)
  obtain k ids where p: "p = (k, ids)"
    by (cases p)
  show ?case
  proof (cases "eq k v")
    case True
    from Cons.prems(1) [of "[]" k ids g] True p show ?thesis by simp
  next
    case neq: False
    show ?thesis
    proof (cases "before v k")
      case True
      then have "\<forall>k \<in> fst ` set (p # g). lt v k"
        using Cons.prems(3) p before_lt before_lt_trans by fastforce
      then show ?thesis
        using Cons.prems(2) [of "[]" "p # g"] neq True p
          by (auto dest: eq_sym lt_not_eq)
    next
      case False
      then have kv: "lt k v"
        using neq after_lt by blast
      show ?thesis
      proof (rule Cons.IH)
        fix g1 k' ids' g2
        assume "g = g1 @ (k', ids') # g2" "eq k' v" "groups_push eq before v i g = g1 @ (k', ids' @ [i]) # g2"
        with neq False p show thesis
          using Cons.prems(1) [of "p # g1" k' ids' g2] by simp
      next
        fix g1 g2
        assume "g = g1 @ g2" "groups_push eq before v i g = g1 @ (v, [i]) # g2"
          "\<forall>k \<in> fst ` set g1. lt k v" "\<forall>k \<in> fst ` set g2. lt v k" "\<forall>k \<in> fst ` set g. \<not> eq k v"
        with neq False p kv show thesis
          using Cons.prems(2) [of "p # g1" g2] by simp
      qed (use Cons.prems(3) in simp)
    qed
  qed
qed

lemma key_unique:
  assumes "sorted_wrt lt (map fst (g1 @ (k, ids) # g2))" "eq k v" "(k', ids') \<in> set g1 \<union> set g2"
  shows "\<not> eq k' v"
proof
  assume "eq k' v"
  then have "eq k k'" "eq k' k"
    using assms(2) eq_sym eq_trans by blast+
  moreover have "lt k' k \<or> lt k k'"
    using assms(1,3) by (auto simp: sorted_wrt_append)
  ultimately show False
    using lt_not_eq by blast
qed

lemma push_holds:
  assumes g: "groups_hold eq lt ok g vals" and i: "vals i = None" and v: "ok v"
  shows "groups_hold eq lt ok (groups_push eq before v i g) (vals(i \<mapsto> v))"
proof -
  have sorted: "sorted_wrt lt (map fst g)"
    and cont: "\<And>k ids. (k, ids) \<in> set g \<Longrightarrow> distinct ids \<and> (\<forall>i. i \<in> set ids \<longleftrightarrow> (\<exists>w. vals i = Some w \<and> eq k w))"
    and cover: "\<And>i w. vals i = Some w \<Longrightarrow> ok w \<and> (\<exists>k \<in> fst ` set g. eq k w)"
    using g unfolding groups_hold_def by blast+
  define P where "P = (\<lambda>(k', ids'). distinct ids' \<and>
    (\<forall>j. j \<in> set ids' \<longleftrightarrow> (\<exists>w. (vals(i \<mapsto> v)) j = Some w \<and> eq k' w)))"
  have other: "P (k', ids')" if "(k', ids') \<in> set g" "\<not> eq k' v" for k' ids'
    using cont [OF that(1)] that(2) i by (auto simp: P_def)
  from sorted show ?thesis
  proof (cases rule: push_split [where v = v and i = i])
    case (old g1 k ids g2)
    have rest: "\<not> eq k' v" if "(k', ids') \<in> set g1 \<union> set g2" for k' ids'
      using key_unique [of g1 k ids g2 v] that sorted old by blast
    have "P (k, ids @ [i])"
      using cont [of k ids] old(1,2) i by (auto simp: P_def)
    then have "\<forall>p \<in> set (g1 @ (k, ids @ [i]) # g2). P p"
      using other rest old(1) by auto
    moreover have "\<forall>j w. (vals(i \<mapsto> v)) j = Some w \<longrightarrow> ok w \<and> (\<exists>k' \<in> fst ` set (g1 @ (k, ids @ [i]) # g2). eq k' w)"
      using cover old(1,2) v by (fastforce split: if_splits)
    moreover have "sorted_wrt lt (map fst (g1 @ (k, ids @ [i]) # g2))"
      using sorted by (simp add: old(1))
    ultimately show ?thesis
      unfolding old(3) groups_hold_def P_def by blast
  next
    case (new g1 g2)
    have "P (v, [i])"
    proof -
      have "\<not> eq v w" if "vals j = Some w" for j w
        using cover [OF that] new(5) eq_sym eq_trans by blast
      then show ?thesis
        using eq_refl [OF v] by (auto simp: P_def)
    qed
    moreover have "\<forall>p \<in> set g. P p"
      using other new(5) by auto
    ultimately have "\<forall>p \<in> set (g1 @ (v, [i]) # g2). P p"
      using new(1) by auto
    moreover have "\<forall>j w. (vals(i \<mapsto> v)) j = Some w \<longrightarrow> ok w \<and> (\<exists>k' \<in> fst ` set (g1 @ (v, [i]) # g2). eq k' w)"
      using cover new(1) v eq_refl by (fastforce split: if_splits)
    moreover have "sorted_wrt lt (map fst (g1 @ (v, [i]) # g2))"
      using sorted new(1,3,4) by (auto simp: sorted_wrt_append)
    ultimately show ?thesis
      unfolding new(2) groups_hold_def P_def by blast
  qed
qed

lemma retain_split:
  obtains (found) g1 k ids g2 where "g = g1 @ (k, ids) # g2" "eq k v"
      "groups_retain eq v i g = g1 @ (let ids' = filter (\<lambda>id. id \<noteq> i) ids in if ids' = [] then g2 else (k, ids') # g2)"
    | (absent) "groups_retain eq v i g = g" "\<forall>k \<in> fst ` set g. \<not> eq k v"
proof (induction g arbitrary: thesis)
  case (Cons p g)
  obtain k ids where p: "p = (k, ids)"
    by (cases p)
  show ?case
  proof (cases "eq k v")
    case True
    from Cons.prems(1) [of "[]" k ids g] True p show ?thesis by (simp add: Let_def)
  next
    case False
    show ?thesis
    proof (rule Cons.IH)
      fix g1 k' ids' g2
      assume "g = g1 @ (k', ids') # g2" "eq k' v"
        "groups_retain eq v i g = g1 @ (let ids' = filter (\<lambda>id. id \<noteq> i) ids' in if ids' = [] then g2 else (k', ids') # g2)"
      with False p show thesis
        using Cons.prems(1) [of "p # g1" k' ids' g2] by simp
    next
      assume "groups_retain eq v i g = g" "\<forall>k \<in> fst ` set g. \<not> eq k v"
      with False p show thesis
        using Cons.prems(2) by simp
    qed
  qed
qed simp

lemma retain_holds:
  assumes g: "groups_hold eq lt ok g vals" and i: "vals i = Some v"
  shows "groups_hold eq lt ok (groups_retain eq v i g) (vals(i := None))"
proof -
  have sorted: "sorted_wrt lt (map fst g)"
    and cont: "\<And>k ids. (k, ids) \<in> set g \<Longrightarrow> distinct ids \<and> (\<forall>i. i \<in> set ids \<longleftrightarrow> (\<exists>w. vals i = Some w \<and> eq k w))"
    and cover: "\<And>i w. vals i = Some w \<Longrightarrow> ok w \<and> (\<exists>k \<in> fst ` set g. eq k w)"
    using g unfolding groups_hold_def by blast+
  define P where "P = (\<lambda>(k', ids'). distinct ids' \<and>
    (\<forall>j. j \<in> set ids' \<longleftrightarrow> (\<exists>w. (vals(i := None)) j = Some w \<and> eq k' w)))"
  have other: "P (k', ids')" if "(k', ids') \<in> set g" "\<not> eq k' v" for k' ids'
    using cont [OF that(1)] that(2) i by (auto simp: P_def)
  show ?thesis
  proof (cases rule: retain_split [of g v i])
    case absent
    with cover [OF i] show ?thesis by blast
  next
    case (found g1 k ids g2)
    define ids' where "ids' = filter (\<lambda>id. id \<noteq> i) ids"
    have rest: "\<not> eq k' v" if "(k', x) \<in> set g1 \<union> set g2" for k' x
      using key_unique [of g1 k ids g2 v] that sorted found by blast
    have own: "P (k, ids')"
      using cont [of k ids] found(1) by (auto simp: ids'_def P_def)
    let ?g = "g1 @ (if ids' = [] then g2 else (k, ids') # g2)"
    have r1: "\<forall>p \<in> set ?g. P p"
      using own other rest found(1) by auto
    have r2: "\<exists>k' \<in> fst ` set ?g. eq k' w" if w: "(vals(i := None)) j = Some w" for j w
    proof -
      have "vals j = Some w"
        using w by (auto split: if_splits)
      then obtain k' where k': "k' \<in> fst ` set g" "eq k' w"
        using cover by blast
      show ?thesis
      proof (cases "k' \<in> fst ` set g1 \<union> fst ` set g2")
        case True
        with k'(2) show ?thesis by auto
      next
        case False
        with k'(1) found(1) have "k' = k"
          by auto
        with own k'(2) w have "j \<in> set ids'"
          unfolding P_def by blast
        then have "ids' \<noteq> []"
          by auto
        with \<open>k' = k\<close> k'(2) show ?thesis
          by auto
      qed
    qed
    have r3: "sorted_wrt lt (map fst ?g)"
      using sorted found(1) by (auto simp: sorted_wrt_append)
    have r4: "groups_retain eq v i g = ?g"
      using found(3) by (simp add: ids'_def Let_def)
    have r5: "ok w" if "(vals(i := None)) j = Some w" for j w
      using that cover by (auto split: if_splits)
    show ?thesis
      unfolding r4 groups_hold_def using r1 r2 r3 r5 unfolding P_def by blast
  qed
qed

end

interpretation hash: grouping hash_eq "\<lambda>a b. \<not> hash_eq a b" no_before "\<lambda>v. \<not> sv_has_nan v"
  by unfold_locales (auto simp: hash_eq_def no_before_def)

lemma sv_cmp_less_trans:
  "sv_cmp a b = Less \<Longrightarrow> sv_cmp b c \<noteq> Greater \<Longrightarrow> sv_cmp a c = Less"
  "sv_cmp a b \<noteq> Greater \<Longrightarrow> sv_cmp b c = Less \<Longrightarrow> sv_cmp a c = Less"
proof -
  show "sv_cmp a c = Less" if "sv_cmp a b = Less" "sv_cmp b c \<noteq> Greater"
  proof (rule ccontr)
    assume "sv_cmp a c \<noteq> Less"
    then have "sv_cmp c a \<noteq> Greater"
      using sv_cmp_swap [of a c] by (cases "sv_cmp a c") auto
    then have "sv_cmp b a \<noteq> Greater"
      using sv_cmp_trans that(2) by blast
    then show False
      using sv_cmp_swap [of a b] that(1) by auto
  qed
  show "sv_cmp a c = Less" if "sv_cmp a b \<noteq> Greater" "sv_cmp b c = Less"
  proof (rule ccontr)
    assume "sv_cmp a c \<noteq> Less"
    then have "sv_cmp c a \<noteq> Greater"
      using sv_cmp_swap [of a c] by (cases "sv_cmp a c") auto
    then have "sv_cmp c b \<noteq> Greater"
      using sv_cmp_trans that(1) by blast
    then show False
      using sv_cmp_swap [of b c] that(2) by auto
  qed
qed

lemma sv_cmp_eq_sym: "sv_cmp a b = Equal \<Longrightarrow> sv_cmp b a = Equal"
  using sv_cmp_swap [of a b] by auto

lemma sv_cmp_eq_trans: "sv_cmp a b = Equal \<Longrightarrow> sv_cmp b c = Equal \<Longrightarrow> sv_cmp a c = Equal"
  using sv_cmp_trans [of a b c] sv_cmp_trans [of c b a] sv_cmp_eq_sym [of a b] sv_cmp_eq_sym [of b c]
    sv_cmp_swap [of a c]
  by (cases "sv_cmp a c") auto

lemma sv_cmp_eq_cong:
  assumes "sv_cmp k w = Equal"
  shows "sv_cmp lo k \<noteq> Greater \<longleftrightarrow> sv_cmp lo w \<noteq> Greater" "sv_cmp k hi \<noteq> Greater \<longleftrightarrow> sv_cmp w hi \<noteq> Greater"
  using assms sv_cmp_eq_sym [OF assms] sv_cmp_trans [of lo k w] sv_cmp_trans [of lo w k]
    sv_cmp_trans [of k w hi] sv_cmp_trans [of w k hi]
  by auto

lemma sv_cmp_greater: "sv_cmp k v \<noteq> Equal \<Longrightarrow> sv_cmp v k \<noteq> Less \<Longrightarrow> sv_cmp k v = Less"
  using sv_cmp_swap [of v k] by (cases "sv_cmp v k") auto

interpretation ord: grouping ord_eq "\<lambda>a b. sv_cmp a b = Less" ord_before "\<lambda>v. True"
  by unfold_locales
    (auto simp: ord_eq_def ord_before_def intro: sv_cmp_eq_sym sv_cmp_eq_trans sv_cmp_less_trans sv_cmp_greater)

text \<open>The values an index can hold, and when its key matches a value.\<close>

definition si_accepts :: "secondary_index_kind \<Rightarrow> stored_value \<Rightarrow> bool" where
  "si_accepts kind v \<longleftrightarrow> kind = KOrdered \<or> \<not> sv_has_nan v"

definition si_matches :: "secondary_index_kind \<Rightarrow> stored_value \<Rightarrow> stored_value \<Rightarrow> bool" where
  "si_matches kind w v = (case kind of KHash \<Rightarrow> hash_eq w v | KOrdered \<Rightarrow> ord_eq w v)"

text \<open>The index describes the indexed values \<open>vals\<close> of the objects.\<close>

definition si_holds :: "secondary_index \<Rightarrow> (u64 \<rightharpoonup> stored_value) \<Rightarrow> bool" where
  "si_holds si vals \<longleftrightarrow> si_entries si = dom vals \<and> (case si_kind si of
     KHash \<Rightarrow> groups_hold hash_eq (\<lambda>a b. \<not> hash_eq a b) (\<lambda>v. \<not> sv_has_nan v) (si_hash si) vals
   | KOrdered \<Rightarrow> groups_hold ord_eq (\<lambda>a b. sv_cmp a b = Less) (\<lambda>v. True) (si_ordered si) vals)"

lemma si_holds_new: "si_holds (si_new name kind) Map.empty"
  using hash.holds_empty ord.holds_empty
  by (simp add: si_holds_def si_new_def split: secondary_index_kind.split)

lemma si_kind_ops [simp]:
  "si_kind (si_insert i v si) = si_kind si" "si_kind (si_remove i v si) = si_kind si"
  "si_kind (si_new name kind) = kind"
  by (simp_all add: si_insert_def si_remove_def si_new_def Let_def split: secondary_index_kind.split)

lemma si_holds_insert:
  "si_holds si vals \<Longrightarrow> vals i = None \<Longrightarrow> si_accepts (si_kind si) v \<Longrightarrow>
   si_holds (si_insert i v si) (vals(i \<mapsto> v))"
  using hash.push_holds ord.push_holds
  by (cases "si_kind si") (auto simp: si_holds_def si_insert_def si_accepts_def Let_def)

lemma si_holds_remove:
  "si_holds si vals \<Longrightarrow> vals i = Some v \<Longrightarrow> si_holds (si_remove i v si) (vals(i := None))"
  using hash.retain_holds ord.retain_holds
  by (cases "si_kind si") (auto simp: si_holds_def si_remove_def Let_def)

lemma si_find_holds:
  "si_holds si vals \<Longrightarrow> set (si_find_eq v si) = {i. \<exists>w. vals i = Some w \<and> si_matches (si_kind si) w v} \<and>
     distinct (si_find_eq v si)"
  using hash.find_holds [of "si_hash si" vals _ v] ord.find_holds [of "si_ordered si" vals _ v]
    hash.find_distinct [of "si_hash si" vals v] ord.find_distinct [of "si_ordered si" vals v]
  by (cases "si_kind si") (simp_all add: si_holds_def si_find_eq_def si_matches_def set_eq_iff)

text \<open>
  C16: a secondary index refines the map from objects to their indexed values: after any insertion of
  a new object, removal or update of one with the value it has, the index describes the changed map,
  and \<open>find_eq\<close> answers each object whose value matches, once. (A hash index matches equal values and
  holds no NaN; an ordered index matches what \<open>cmp\<close> calls equal.)
\<close>

theorem secondary_index_refines:
  assumes "si_holds si vals"
  shows "set (si_find_eq v si) = {i. \<exists>w. vals i = Some w \<and> si_matches (si_kind si) w v} \<and>
    distinct (si_find_eq v si) \<and>
    (vals i = None \<longrightarrow> si_accepts (si_kind si) v \<longrightarrow> si_holds (si_insert i v si) (vals(i \<mapsto> v))) \<and>
    (vals i = Some w \<longrightarrow> si_holds (si_remove i w si) (vals(i := None))) \<and>
    (vals i = Some w \<longrightarrow> si_accepts (si_kind si) v \<longrightarrow> si_holds (si_update i w v si) (vals(i \<mapsto> v)))"
proof (intro conjI impI)
  assume "vals i = Some w" "si_accepts (si_kind si) v"
  with si_holds_insert [OF si_holds_remove [OF assms], of i w i v] show "si_holds (si_update i w v si) (vals(i \<mapsto> v))"
    by (simp add: si_update_def)
qed (use si_find_holds [OF assms] si_holds_insert [OF assms] si_holds_remove [OF assms] in auto)

lemma secondary_index_refines_witness:
  "set (si_find_eq (SInt 5) (si_insert 3 (SInt 5) (si_new (bstr ''age'') KHash))) = {3} \<and>
   si_holds (si_update 3 (SInt 5) (SInt 6) (si_insert 3 (SInt 5) (si_new (bstr ''age'') KHash)))
     [3 \<mapsto> SInt 6]"
proof -
  have "si_holds (si_insert 3 (SInt 5) (si_new (bstr ''age'') KHash)) [3 \<mapsto> SInt 5]"
    by (rule si_holds_insert [OF si_holds_new]) (simp_all add: si_accepts_def)
  from secondary_index_refines [OF this, of "SInt 5"] secondary_index_refines [OF this, of "SInt 6" 3 "SInt 5"]
  show ?thesis
    by (auto simp: si_matches_def hash_eq_def si_accepts_def)
qed

text \<open>
  C33: a range query on an ordered index answers exactly the objects whose value lies between the
  bounds; it panics exactly when the bounds are in the wrong order.
\<close>

theorem secondary_index_range:
  assumes "si_holds si vals" "si_kind si = KOrdered"
  shows "(si_find_range lo hi si = Panic \<longleftrightarrow> sv_cmp lo hi = Greater) \<and>
    (\<forall>ids. si_find_range lo hi si = Ok ids \<longrightarrow>
       set ids = {i. \<exists>w. vals i = Some w \<and> sv_cmp lo w \<noteq> Greater \<and> sv_cmp w hi \<noteq> Greater})"
proof (intro conjI allI impI)
  show "si_find_range lo hi si = Panic \<longleftrightarrow> sv_cmp lo hi = Greater"
    using assms(2) by (simp add: si_find_range_def)
  have h: "groups_hold ord_eq (\<lambda>a b. sv_cmp a b = Less) (\<lambda>v. True) (si_ordered si) vals"
    using assms(1,2) by (simp add: si_holds_def)
  have cont: "i \<in> set ids \<longleftrightarrow> (\<exists>w. vals i = Some w \<and> sv_cmp k w = Equal)" if "(k, ids) \<in> set (si_ordered si)" for k ids i
    using h that unfolding groups_hold_def ord_eq_def by blast
  have cover: "\<exists>k ids. (k, ids) \<in> set (si_ordered si) \<and> sv_cmp k w = Equal" if "vals i = Some w" for i w
  proof -
    have "\<exists>k \<in> fst ` set (si_ordered si). ord_eq k w"
      using h that unfolding groups_hold_def by blast
    then show ?thesis
      by (auto simp: ord_eq_def)
  qed
  fix ids
  assume "si_find_range lo hi si = Ok ids"
  then have ids: "ids = concat (map snd (filter (\<lambda>(k, ids). sv_cmp lo k \<noteq> Greater \<and> sv_cmp k hi \<noteq> Greater) (si_ordered si)))"
    using assms(2) by (auto simp: si_find_range_def split: if_splits)
  show "set ids = {i. \<exists>w. vals i = Some w \<and> sv_cmp lo w \<noteq> Greater \<and> sv_cmp w hi \<noteq> Greater}"
  proof (intro set_eqI iffI)
    fix i
    assume "i \<in> set ids"
    then obtain k xs where "(k, xs) \<in> set (si_ordered si)" "i \<in> set xs" and
      b: "sv_cmp lo k \<noteq> Greater" "sv_cmp k hi \<noteq> Greater"
      by (auto simp: ids)
    then obtain w where w: "vals i = Some w" "sv_cmp k w = Equal"
      using cont by blast
    with b sv_cmp_eq_cong [OF w(2)]
    show "i \<in> {i. \<exists>w. vals i = Some w \<and> sv_cmp lo w \<noteq> Greater \<and> sv_cmp w hi \<noteq> Greater}"
      by blast
  next
    fix i
    assume "i \<in> {i. \<exists>w. vals i = Some w \<and> sv_cmp lo w \<noteq> Greater \<and> sv_cmp w hi \<noteq> Greater}"
    then obtain w where w: "vals i = Some w" "sv_cmp lo w \<noteq> Greater" "sv_cmp w hi \<noteq> Greater"
      by blast
    then obtain k xs where k: "(k, xs) \<in> set (si_ordered si)" "sv_cmp k w = Equal"
      using cover by blast
    have "i \<in> set xs"
      using cont [OF k(1)] w(1) k(2) by blast
    with k(1) w(2,3) sv_cmp_eq_cong [OF k(2)] show "i \<in> set ids"
      by (fastforce simp: ids)
  qed
qed

lemma secondary_index_range_witness:
  "si_find_range (SInt 1) (SInt 9) (si_insert 3 (SInt 5) (si_new (bstr ''age'') KOrdered)) = Ok [3] \<and>
   set [3 :: u64] = {i. \<exists>w. [3 \<mapsto> SInt 5] i = Some w \<and> sv_cmp (SInt 1) w \<noteq> Greater \<and> sv_cmp w (SInt 9) \<noteq> Greater}"
proof -
  let ?si = "si_insert 3 (SInt 5) (si_new (bstr ''age'') KOrdered)"
  have h: "si_holds ?si [3 \<mapsto> SInt 5]"
    by (rule si_holds_insert [OF si_holds_new]) (simp_all add: si_accepts_def)
  have r: "si_find_range (SInt 1) (SInt 9) ?si = Ok [3]"
    by (simp add: si_find_range_def si_insert_def si_new_def sv_cmp_def cmp_of_def)
  have "si_kind ?si = KOrdered"
    by simp
  from secondary_index_range [OF h this, of "SInt 1" "SInt 9"] r show ?thesis
    by blast
qed

end
