(* ===== verification/Store_Jsonl.thy ===== *)
theory Store_Jsonl
  imports Store_Record Store_Uuid Coral_Map Coral_Span NanBox
begin

text \<open>
  The JSON-lines copy of the store (\<open>runtime/src/store/jsonl.rs\<close>): values to JSON, the parser of
  JSON, and the writer and reader of the file, one record a line. Text is handled by characters; the
  parser holds the characters left. Printing and parsing of a double are the standard library's and
  are the arguments \<open>show_f64\<close> and \<open>parse_f64\<close>.
\<close>

type_synonym 'a json_io = "(io_kind \<times> rstr, 'a) outcome"

abbreviation jerr :: "io_kind \<Rightarrow> string \<Rightarrow> 'a json_io" where
  "jerr kind message \<equiv> Err (kind, rs message)"

abbreviation DQUOTE :: rchar where "DQUOTE \<equiv> ch (CHR 0x22)"
abbreviation BSLASH :: rchar where "BSLASH \<equiv> ch (CHR 0x5C)"

subsection \<open>Values to JSON\<close>

text \<open>\<open>char::is_control\<close>: the category Cc.\<close>

definition is_control :: "rchar \<Rightarrow> bool" where
  "is_control c \<longleftrightarrow> c < 32 \<or> (127 \<le> c \<and> c < 160)"

definition lower_hex :: "nat \<Rightarrow> rchar" where
  "lower_hex n = (if n < 10 then 48 + n else 87 + n)"

text \<open>\<open>{:04x}\<close> of a number below \<open>2^16\<close>.\<close>

definition show_04x :: "nat \<Rightarrow> rstr" where
  "show_04x n = [lower_hex (n div 4096), lower_hex (n div 256 mod 16), lower_hex (n div 16 mod 16), lower_hex (n mod 16)]"

definition escape_json_char :: "rchar \<Rightarrow> rstr" where
  "escape_json_char c =
     (if c = DQUOTE then [BSLASH, DQUOTE] else if c = BSLASH then [BSLASH, BSLASH]
      else if c = 10 then BSLASH # rs ''n'' else if c = 13 then BSLASH # rs ''r''
      else if c = 9 then BSLASH # rs ''t''
      else if is_control c then BSLASH # rs ''u'' @ show_04x c else [c])"

definition escape_json_string :: "rstr \<Rightarrow> rstr" where
  "escape_json_string s = concat (map escape_json_char s)"

text \<open>The signed decimal of an \<open>i64\<close>.\<close>

definition show_i64 :: "u64 \<Rightarrow> rstr" where
  "show_i64 w = (if sint w < 0 then ch (CHR ''-'') # rs (show_nat (nat (- sint w))) else rs (show_nat (nat (sint w))))"

definition base64_char :: "nat \<Rightarrow> rchar" where
  "base64_char n = rs ''ABCDEFGHIJKLMNOPQRSTUVWXYZabcdefghijklmnopqrstuvwxyz0123456789+/'' ! n"

text \<open>A chunk of three bytes, of which the missing ones read 0.\<close>

definition base64_number :: "u8 \<Rightarrow> u8 \<Rightarrow> u8 \<Rightarrow> nat" where
  "base64_number a b c = unat a * 65536 + unat b * 256 + unat c"

fun json_base64 :: "bytes \<Rightarrow> rstr" where
  "json_base64 [] = []"
| "json_base64 [a] = (let n = base64_number a 0 0 in
     [base64_char (n div 262144 mod 64), base64_char (n div 4096 mod 64)] @ rs ''=='')"
| "json_base64 [a, b] = (let n = base64_number a b 0 in
     [base64_char (n div 262144 mod 64), base64_char (n div 4096 mod 64), base64_char (n div 64 mod 64)] @ rs ''='')"
| "json_base64 (a # b # c # bs) = (let n = base64_number a b c in
     [base64_char (n div 262144 mod 64), base64_char (n div 4096 mod 64), base64_char (n div 64 mod 64),
      base64_char (n mod 64)] @ json_base64 bs)"

definition f64_is_infinite :: "u64 \<Rightarrow> bool" where
  "f64_is_infinite f \<longleftrightarrow> f64_magnitude f = 0x7FF0000000000000"

definition json_quoted :: "rstr \<Rightarrow> rstr" where
  "json_quoted s = DQUOTE # escape_json_string s @ [DQUOTE]"

fun value_to_json :: "(u64 \<Rightarrow> rstr) \<Rightarrow> stored_value \<Rightarrow> rstr" where
  "value_to_json show_f64 SUnit = rs ''null''"
| "value_to_json show_f64 SNone = rs ''null''"
| "value_to_json show_f64 (SBool b) = (if b then rs ''true'' else rs ''false'')"
| "value_to_json show_f64 (SInt i) = show_i64 i"
| "value_to_json show_f64 (SFloat f) =
     (if f64_is_nan f then rs ''null'' else if f64_is_infinite f then rs ''null'' else show_f64 f)"
| "value_to_json show_f64 (SString s) = json_quoted (utf8_chars s)"
| "value_to_json show_f64 (SBytes b) = DQUOTE # json_base64 b @ [DQUOTE]"
| "value_to_json show_f64 (SList items) =
     rs ''['' @ join_with (rs '','') (map (value_to_json show_f64) items) @ rs '']''"
| "value_to_json show_f64 (SMap pairs) =
     rs ''{'' @ join_with (rs '','') (map (\<lambda>(k, v). json_quoted (utf8_chars k) @ rs '':'' @ value_to_json show_f64 v) pairs)
       @ rs ''}''"

subsection \<open>The parser\<close>

definition json_skip :: "rstr \<Rightarrow> rstr" where
  "json_skip s = dropWhile is_whitespace s"

definition json_expect :: "rchar \<Rightarrow> rstr \<Rightarrow> rstr json_io" where
  "json_expect e s = (case s of
       c # r \<Rightarrow> if c = e then Ok r
         else Err (InvalidData, rs ''expected '' @ [39, e, 39] @ rs '', got '' @ [39, c, 39])
     | [] \<Rightarrow> Err (UnexpectedEof, rs ''expected '' @ [39, e, 39]))"

text \<open>\<open>u32::from_str_radix(_, 16)\<close> on four characters; a plus sign is accepted.\<close>

definition json_hex :: "rstr \<Rightarrow> nat option" where
  "json_hex s = (let d = (case s of c # t \<Rightarrow> if c = ch (CHR ''+'') \<and> t \<noteq> [] then t else s | [] \<Rightarrow> s) in
     if d \<noteq> [] \<and> list_all is_ascii_hexdigit d
     then Some (foldl (\<lambda>v c. v * 16 + the (to_digit16 c)) 0 d) else None)"

function json_string_body :: "rstr \<Rightarrow> rstr \<Rightarrow> (rstr \<times> rstr) json_io" where
  "json_string_body acc [] = jerr UnexpectedEof ''unterminated string''"
| "json_string_body acc (c # s) =
     (if c = DQUOTE then Ok (acc, s)
      else if c = BSLASH then
        (case s of
           [] \<Rightarrow> jerr UnexpectedEof ''truncated escape''
         | e # r \<Rightarrow>
             if e = ch (CHR ''n'') then json_string_body (acc @ [10]) r
             else if e = ch (CHR ''r'') then json_string_body (acc @ [13]) r
             else if e = ch (CHR ''t'') then json_string_body (acc @ [9]) r
             else if e = ch (CHR ''u'') then
               (if length r < 4 then jerr UnexpectedEof ''truncated unicode escape''
                else json_string_body (acc @ (case json_hex (take 4 r) of
                    Some code \<Rightarrow> if is_scalar code then [code] else [] | None \<Rightarrow> [])) (drop 4 r))
             else json_string_body (acc @ [e]) r)
      else json_string_body (acc @ [c]) s)"
  by pat_completeness auto
termination
  by (relation "measure (\<lambda>(acc, s). length s)") auto

definition json_string :: "rstr \<Rightarrow> (rstr \<times> rstr) json_io" where
  "json_string s = obind (json_expect DQUOTE s) (json_string_body [])"

text \<open>\<open>parse::<i64>\<close> of an optional minus sign and digits.\<close>

definition json_digits_value :: "rstr \<Rightarrow> nat" where
  "json_digits_value s = foldl (\<lambda>v c. v * 10 + (c - 48)) 0 s"

definition parse_i64 :: "bool \<Rightarrow> rstr \<Rightarrow> u64 option" where
  "parse_i64 neg digits = (let n = json_digits_value digits in
     if digits = [] \<or> (if neg then 2 ^ 63 < n else 2 ^ 63 \<le> n) then None
     else Some (if neg then - of_nat n else of_nat n))"

definition json_number :: "(rstr \<Rightarrow> u64 option) \<Rightarrow> rstr \<Rightarrow> (stored_value \<times> rstr) json_io" where
  "json_number parse_f64 s =
     (let neg = (s \<noteq> [] \<and> hd s = ch (CHR ''-'')); s1 = (if neg then tl s else s);
          digits = takeWhile is_ascii_digit s1; s2 = dropWhile is_ascii_digit s1;
          has_dot = (s2 \<noteq> [] \<and> hd s2 = ch (CHR ''.''));
          s3 = (if has_dot then dropWhile is_ascii_digit (tl s2) else s2);
          has_exp = (s3 \<noteq> [] \<and> (hd s3 = ch (CHR ''e'') \<or> hd s3 = ch (CHR ''E'')));
          s4 = (if has_exp then tl s3 else s3);
          s5 = (if has_exp \<and> s4 \<noteq> [] \<and> (hd s4 = ch (CHR ''+'') \<or> hd s4 = ch (CHR ''-'')) then tl s4 else s4);
          s6 = (if has_exp then dropWhile is_ascii_digit s5 else s5) in
      if has_dot \<or> has_exp then
        (case parse_f64 (take (length s - length s6) s) of
           Some f \<Rightarrow> Ok (SFloat f, s6) | None \<Rightarrow> jerr InvalidData ''invalid float'')
      else (case parse_i64 neg digits of
           Some i \<Rightarrow> Ok (SInt i, s6) | None \<Rightarrow> jerr InvalidData ''invalid integer''))"

definition json_keyword :: "string \<Rightarrow> 'a \<Rightarrow> rstr \<Rightarrow> ('a \<times> rstr) json_io" where
  "json_keyword keyword v s =
     (if take (length keyword) s = rs keyword then Ok (v, drop (length keyword) s)
      else Err (InvalidData, rs ''expected '' @ 39 # rs keyword @ [39]))"

definition starts :: "char \<Rightarrow> rstr \<Rightarrow> bool" where
  "starts c s \<longleftrightarrow> s \<noteq> [] \<and> hd s = ch c"

definition comma_or :: "rchar \<Rightarrow> 'a json_io" where
  "comma_or e = Err (InvalidData, rs ''expected '' @ [39, ch (CHR '',''), 39] @ rs '' or '' @ [39, e, 39])"

text \<open>
  The recursive functions, with fuel for the calls; \<open>json_value_fuel\<close> shows that twice the characters
  left are enough. Running out of it is a panic.
\<close>

function json_value :: "nat \<Rightarrow> (rstr \<Rightarrow> u64 option) \<Rightarrow> rstr \<Rightarrow> (stored_value \<times> rstr) json_io"
  and json_array :: "nat \<Rightarrow> (rstr \<Rightarrow> u64 option) \<Rightarrow> stored_value list \<Rightarrow> rstr \<Rightarrow> (stored_value \<times> rstr) json_io"
  and json_object :: "nat \<Rightarrow> (rstr \<Rightarrow> u64 option) \<Rightarrow> (bytes \<times> stored_value) list \<Rightarrow> rstr \<Rightarrow> (stored_value \<times> rstr) json_io" where
  "json_value 0 parse_f64 s = Panic"
| "json_value (Suc fuel) parse_f64 s = (case s of
       [] \<Rightarrow> jerr UnexpectedEof ''unexpected end of JSON''
     | c # r \<Rightarrow>
         if c = DQUOTE then omap (\<lambda>(t, rest). (SString (utf8_encode t), rest)) (json_string s)
         else if c = ch (CHR ''-'') \<or> is_ascii_digit c then json_number parse_f64 s
         else if c = ch (CHR ''t'') then json_keyword ''true'' (SBool True) s
         else if c = ch (CHR ''f'') then json_keyword ''false'' (SBool False) s
         else if c = ch (CHR ''n'') then json_keyword ''null'' SNone s
         else if c = ch (CHR ''['') then json_array fuel parse_f64 [] r
         else if c = ch (CHR ''{'') then json_object fuel parse_f64 [] r
         else Err (InvalidData, rs ''unexpected character: '' @ [39, c, 39]))"
| "json_array 0 parse_f64 items s = Panic"
| "json_array (Suc fuel) parse_f64 items s = (let s = json_skip s in
     if starts (CHR '']'') s then Ok (SList items, tl s)
     else obind (json_value fuel parse_f64 s) (\<lambda>(v, rest). let rest = json_skip rest in
       if starts (CHR '','') rest then json_array fuel parse_f64 (items @ [v]) (tl rest)
       else if starts (CHR '']'') rest then json_array fuel parse_f64 (items @ [v]) rest
       else comma_or (ch (CHR '']''))))"
| "json_object 0 parse_f64 pairs s = Panic"
| "json_object (Suc fuel) parse_f64 pairs s = (let s = json_skip s in
     if starts (CHR ''}'') s then Ok (SMap pairs, tl s)
     else obind (json_string s) (\<lambda>(key, s).
       obind (json_expect (ch (CHR '':'')) (json_skip s)) (\<lambda>s.
       obind (json_value fuel parse_f64 (json_skip s)) (\<lambda>(v, rest). let rest = json_skip rest in
         if starts (CHR '','') rest then json_object fuel parse_f64 (pairs @ [(utf8_encode key, v)]) (tl rest)
         else if starts (CHR ''}'') rest then json_object fuel parse_f64 (pairs @ [(utf8_encode key, v)]) rest
         else comma_or (ch (CHR ''}''))))))"
  by pat_completeness auto
termination
  by (relation "measure (\<lambda>x. case x of Inl (n, _) \<Rightarrow> n | Inr (Inl (n, _)) \<Rightarrow> n | Inr (Inr (n, _)) \<Rightarrow> n)") simp_all

definition json_parse_value :: "(rstr \<Rightarrow> u64 option) \<Rightarrow> rstr \<Rightarrow> (stored_value \<times> rstr) json_io" where
  "json_parse_value parse_f64 s = json_value (2 * length s + 1) parse_f64 s"

subsection \<open>Records\<close>

record jsonl_record =
  jr_index :: u64
  jr_version :: u32
  jr_uuid :: uuid7
  jr_created_at :: u64
  jr_updated_at :: u64
  jr_deleted_at :: u64
  jr_fields :: "(bytes, stored_value) hmap"

text \<open>A key of the system fields, and the key and value of a user's field.\<close>

definition json_key :: "string \<Rightarrow> rstr" where
  "json_key name = DQUOTE # rs name @ DQUOTE # rs '':''"

definition json_field :: "(u64 \<Rightarrow> rstr) \<Rightarrow> bytes \<times> stored_value \<Rightarrow> rstr" where
  "json_field show_f64 = (\<lambda>(name, v). rs '','' @ json_quoted (utf8_chars name) @ rs '':'' @ value_to_json show_f64 v)"

definition jsonl_line ::
    "(u64 \<Rightarrow> rstr) \<Rightarrow> u64 \<Rightarrow> u32 \<Rightarrow> uuid7 \<Rightarrow> u64 \<Rightarrow> u64 \<Rightarrow> u64 \<Rightarrow> field_list \<Rightarrow> rstr" where
  "jsonl_line show_f64 index version uuid created_at updated_at deleted_at flds =
     rs ''{'' @ json_key ''_index'' @ rs (show_nat (unat index)) @
     rs '','' @ json_key ''_uuid'' @ DQUOTE # uuid_to_string uuid @ DQUOTE #
     rs '','' @ json_key ''_version'' @ rs (show_nat (unat version)) @
     rs '','' @ json_key ''_created_at'' @ show_i64 created_at @
     rs '','' @ json_key ''_updated_at'' @ show_i64 updated_at @
     (if 0 \<le> sint deleted_at then rs '','' @ json_key ''_deleted_at'' @ show_i64 deleted_at else []) @
     concat (map (json_field show_f64) flds) @ rs ''}'' @ [10]"

definition jsonl_set :: "rstr \<Rightarrow> stored_value \<Rightarrow> jsonl_record \<Rightarrow> jsonl_record json_io" where
  "jsonl_set key v r =
     (if key = rs ''_index'' then Ok (case v of SInt i \<Rightarrow> r\<lparr> jr_index := i \<rparr> | _ \<Rightarrow> r)
      else if key = rs ''_version'' then Ok (case v of SInt i \<Rightarrow> r\<lparr> jr_version := ucast i \<rparr> | _ \<Rightarrow> r)
      else if key = rs ''_uuid'' then
        (case v of SString s \<Rightarrow>
           (case uuid_parse (utf8_chars s) of Ok u \<Rightarrow> Ok (r\<lparr> jr_uuid := u \<rparr>)
            | Err m \<Rightarrow> jerr InvalidData m | Panic \<Rightarrow> Panic)
         | _ \<Rightarrow> Ok r)
      else if key = rs ''_created_at'' then Ok (case v of SInt i \<Rightarrow> r\<lparr> jr_created_at := i \<rparr> | _ \<Rightarrow> r)
      else if key = rs ''_updated_at'' then Ok (case v of SInt i \<Rightarrow> r\<lparr> jr_updated_at := i \<rparr> | _ \<Rightarrow> r)
      else if key = rs ''_deleted_at'' then Ok (case v of SInt i \<Rightarrow> r\<lparr> jr_deleted_at := i \<rparr> | _ \<Rightarrow> r)
      else Ok (r\<lparr> jr_fields := hm_insert (utf8_encode key) v (jr_fields r) \<rparr>))"

text \<open>One turn of the loop over the members of a line: the record and the text after the comma.\<close>

definition jsonl_member :: "(rstr \<Rightarrow> u64 option) \<Rightarrow> rstr \<Rightarrow> jsonl_record \<Rightarrow> (jsonl_record \<times> rstr) json_io" where
  "jsonl_member parse_f64 s r =
     obind (json_string s) (\<lambda>(key, s).
     obind (json_expect (ch (CHR '':'')) (json_skip s)) (\<lambda>s.
     obind (json_parse_value parse_f64 (json_skip s)) (\<lambda>(v, s).
     obind (jsonl_set key v r) (\<lambda>r.
       if json_skip s = [] then Ok (r, []) else omap (\<lambda>s. (r, s)) (json_expect (ch (CHR '','')) (json_skip s))))))"

fun jsonl_members :: "nat \<Rightarrow> (rstr \<Rightarrow> u64 option) \<Rightarrow> rstr \<Rightarrow> jsonl_record \<Rightarrow> jsonl_record json_io" where
  "jsonl_members 0 parse_f64 s r = Panic"
| "jsonl_members (Suc fuel) parse_f64 s r =
     (if json_skip s = [] then Ok r
      else obind (jsonl_member parse_f64 (json_skip s) r) (\<lambda>(r, s). jsonl_members fuel parse_f64 s r))"

text \<open>\<open>fresh\<close> is the identifier that \<open>Uuid7::new\<close> gives when the line has none.\<close>

definition parse_jsonl_record :: "(rstr \<Rightarrow> u64 option) \<Rightarrow> uuid7 \<Rightarrow> rstr \<Rightarrow> jsonl_record json_io" where
  "parse_jsonl_record parse_f64 fresh line =
     (let line = str_trim line in
      if line = [] \<or> hd line \<noteq> ch (CHR ''{'') \<or> last line \<noteq> ch (CHR ''}'')
      then jerr InvalidData ''invalid JSON object''
      else let members = butlast (tl line) in
        jsonl_members (length members + 1) parse_f64 members
          \<lparr> jr_index = 0, jr_version = 1, jr_uuid = fresh, jr_created_at = 0, jr_updated_at = 0,
            jr_deleted_at = - 1, jr_fields = [] \<rparr>)"

subsection \<open>The file\<close>

record jsonl_writer =
  jw_write_offset :: u64
  jw_line_count :: u64

text \<open>The line at the front, with its newline if it has one.\<close>

definition first_line :: "bytes \<Rightarrow> bytes" where
  "first_line bs = takeWhile (\<lambda>b. b \<noteq> 10) bs @ take 1 (dropWhile (\<lambda>b. b \<noteq> 10) bs)"

definition count_lines :: "bytes \<Rightarrow> nat" where
  "count_lines bs = length (filter (\<lambda>b. b = 10) bs) + (if bs = [] \<or> last bs = 10 then 0 else 1)"

definition jsonl_writer_open :: "bytes option \<Rightarrow> jsonl_writer \<times> bytes" where
  "jsonl_writer_open file = (case file of
       Some contents \<Rightarrow> (\<lparr> jw_write_offset = of_nat (length contents),
         jw_line_count = of_nat (count_lines contents) \<rparr>, contents)
     | None \<Rightarrow> (\<lparr> jw_write_offset = 0, jw_line_count = 0 \<rparr>, []))"

text \<open>The file's cursor is at its end; the offset and length are those the index stores.\<close>

definition jsonl_write_record ::
    "(u64 \<Rightarrow> rstr) \<Rightarrow> u64 \<Rightarrow> u32 \<Rightarrow> uuid7 \<Rightarrow> u64 \<Rightarrow> u64 \<Rightarrow> u64 \<Rightarrow> field_list \<Rightarrow> jsonl_writer \<Rightarrow> bytes \<Rightarrow>
     (u64 \<times> u32) \<times> jsonl_writer \<times> bytes" where
  "jsonl_write_record show_f64 index version uuid created_at updated_at deleted_at flds w file =
     (let data = utf8_encode (jsonl_line show_f64 index version uuid created_at updated_at deleted_at flds);
          len = of_nat (length data) :: u32 in
      ((jw_write_offset w, len),
       \<lparr> jw_write_offset = jw_write_offset w + ucast len, jw_line_count = jw_line_count w + 1 \<rparr>,
       file @ data))"

text \<open>\<open>read_line\<close> gives the next line, which must be UTF-8.\<close>

definition jsonl_read_line :: "bytes \<Rightarrow> rstr json_io" where
  "jsonl_read_line bs = (if valid_utf8 (first_line bs) then Ok (utf8_chars (first_line bs))
     else jerr InvalidData ''stream did not contain valid UTF-8'')"

definition jsonl_read_record :: "(rstr \<Rightarrow> u64 option) \<Rightarrow> uuid7 \<Rightarrow> bytes \<Rightarrow> u64 \<Rightarrow> jsonl_record json_io" where
  "jsonl_read_record parse_f64 fresh file offset =
     obind (jsonl_read_line (drop (unat offset) file)) (parse_jsonl_record parse_f64 fresh)"

lemma length_first_line: "bs \<noteq> [] \<Longrightarrow> 0 < length (first_line bs)"
  by (cases bs) (auto simp: first_line_def)

text \<open>The iterator: the bytes left and the offset of the next line; blank lines are skipped.\<close>

function jsonl_iter_next ::
    "(rstr \<Rightarrow> u64 option) \<Rightarrow> uuid7 \<Rightarrow> bytes \<Rightarrow> u64 \<Rightarrow> (u64 \<times> jsonl_record) json_io option \<times> bytes \<times> u64" where
  "jsonl_iter_next parse_f64 fresh bs offset =
     (let line = first_line bs; rest = drop (length line) bs; next = offset + of_nat (length line) in
      if bs = [] then (None, [], offset)
      else case jsonl_read_line bs of
          Ok text \<Rightarrow> if str_trim text = [] then jsonl_iter_next parse_f64 fresh rest next
            else (Some (omap (\<lambda>r. (offset, r)) (parse_jsonl_record parse_f64 fresh text)), rest, next)
        | Err e \<Rightarrow> (Some (Err e), rest, offset)
        | Panic \<Rightarrow> (Some Panic, rest, offset))"
  by pat_completeness auto
termination
  by (relation "measure (\<lambda>(p, u, bs, offset). length bs)") (auto intro!: diff_less length_first_line)

declare jsonl_iter_next.simps [simp del]

end
