(* ===== verification/Store_JsonlRead.thy ===== *)
theory Store_JsonlRead
  imports Store_Jsonl
begin

text \<open>
  What \<open>jsonl.rs\<close> writes, it reads: the parser undoes the printing of strings, numbers and values (up
  to what JSON cannot tell apart), and a record appended to the file is found at its offset.
\<close>

subsection \<open>Strings and numbers are read back\<close>

lemma to_digit16_lower_hex: "n < 16 \<Longrightarrow> to_digit16 (lower_hex n) = Some n"
  by (auto simp: to_digit16_def lower_hex_def)

lemma lower_hex_digit: "n < 16 \<Longrightarrow> is_ascii_hexdigit (lower_hex n) \<and> lower_hex n \<noteq> 43"
  by (auto simp: lower_hex_def is_ascii_hexdigit_def is_ascii_digit_def)

lemma hex4_value: "n < 65536 \<Longrightarrow> ((n div 4096 * 16 + n div 256 mod 16) * 16 + n div 16 mod 16) * 16 + n mod 16 = (n :: nat)"
proof -
  have "n div 4096 = n div 16 div 16 div 16" "n div 256 = n div 16 div 16"
    by (simp_all add: div_mult2_eq [symmetric])
  then show ?thesis by simp
qed

lemma json_hex_show: "n < 65536 \<Longrightarrow> json_hex (show_04x n) = Some n"
  using hex4_value [of n]
  by (simp add: json_hex_def show_04x_def Let_def lower_hex_digit to_digit16_lower_hex)

lemma length_show_04x [simp]: "length (show_04x n) = 4"
  by (simp add: show_04x_def)

lemma json_string_body_char:
  "json_string_body acc (escape_json_char c @ s) = json_string_body (acc @ [c]) s"
proof -
  consider "c \<in> {DQUOTE, BSLASH, 10, 13, 9}" | "c \<notin> {DQUOTE, BSLASH, 10, 13, 9}" "is_control c"
    | "c \<notin> {DQUOTE, BSLASH, 10, 13, 9}" "\<not> is_control c" by blast
  then show ?thesis
  proof cases
    case 2
    then have "c < 65536" "is_scalar c" by (auto simp: is_control_def is_scalar_def)
    with 2 show ?thesis by (simp add: escape_json_char_def rs_def json_hex_show)
  qed (auto simp: escape_json_char_def rs_def)
qed

lemma json_string_body_escaped:
  "json_string_body acc (escape_json_string t @ DQUOTE # rest) = Ok (acc @ t, rest)"
  by (induction t arbitrary: acc) (simp_all add: escape_json_string_def json_string_body_char)

lemma json_string_quoted [simp]: "json_string (json_quoted t @ rest) = Ok (t, rest)"
  using json_string_body_escaped [of "[]" t rest] by (simp add: json_string_def json_quoted_def json_expect_def)

lemma base64_char_plain: "n < 64 \<Longrightarrow> escape_json_char (base64_char n) = [base64_char n]"
proof -
  have "list_all (\<lambda>c. escape_json_char c = [c]) (rs ''ABCDEFGHIJKLMNOPQRSTUVWXYZabcdefghijklmnopqrstuvwxyz0123456789+/'')"
    by (simp add: rs_def escape_json_char_def is_control_def)
  then show "n < 64 \<Longrightarrow> ?thesis" by (simp add: base64_char_def list_all_length rs_def)
qed

lemma json_base64_plain: "escape_json_string (json_base64 b) = json_base64 b"
  by (induction b rule: json_base64.induct)
    (simp_all add: escape_json_string_def Let_def base64_char_plain escape_json_char_def [of 61] is_control_def rs_def)

text \<open>What may follow a number.\<close>

definition json_stop :: "rstr \<Rightarrow> bool" where
  "json_stop rest \<longleftrightarrow> rest = [] \<or> \<not> is_ascii_digit (hd rest) \<and> hd rest \<notin> {ch (CHR ''.''), ch (CHR ''e''), ch (CHR ''E'')}"

lemma show_nat_is_digits: "\<forall>c \<in> set (rs (show_nat n)). is_ascii_digit c"
proof (induction n rule: show_nat.induct)
  case (1 n)
  then show ?case
    by (subst show_nat.simps) (auto simp: rs_def is_ascii_digit_def of_char_of)
qed

lemma json_digits_value_show_nat: "json_digits_value (rs (show_nat n)) = n"
proof (induction n rule: show_nat.induct)
  case (1 n)
  then show ?case
    by (subst show_nat.simps) (auto simp: rs_def json_digits_value_def of_char_of)
qed

lemma show_nat_not_Nil [simp]: "show_nat n \<noteq> []"
  by (subst show_nat.simps) simp

lemma rs_eq_Nil [simp]: "rs s = [] \<longleftrightarrow> s = []"
  by (simp add: rs_def)

lemma takeWhile_digits: "\<forall>c \<in> set ds. is_ascii_digit c \<Longrightarrow> json_stop rest \<Longrightarrow>
    takeWhile is_ascii_digit (ds @ rest) = ds \<and> dropWhile is_ascii_digit (ds @ rest) = rest"
  by (cases rest) (auto simp: json_stop_def takeWhile_append2 dropWhile_append2)

lemma json_number_digits:
  assumes "json_stop rest"
  shows "json_number pf ((if neg then [ch (CHR ''-'')] else []) @ rs (show_nat n) @ rest) =
    (case parse_i64 neg (rs (show_nat n)) of Some i \<Rightarrow> Ok (SInt i, rest) | None \<Rightarrow> jerr InvalidData ''invalid integer'')"
proof -
  obtain d ds where d: "rs (show_nat n) = d # ds" "is_ascii_digit d"
    using show_nat_is_digits [of n] by (cases "rs (show_nat n)") (auto simp: rs_def)
  then have d45: "d \<noteq> 45" by (auto simp: is_ascii_digit_def)
  have r: "rest \<noteq> [] \<Longrightarrow> hd rest \<noteq> 46" "rest \<noteq> [] \<Longrightarrow> hd rest \<noteq> 101" "rest \<noteq> [] \<Longrightarrow> hd rest \<noteq> 69"
    using assms by (auto simp: json_stop_def)
  have tw: "takeWhile is_ascii_digit (d # ds @ rest) = d # ds" "dropWhile is_ascii_digit (d # ds @ rest) = rest"
    using takeWhile_digits [OF show_nat_is_digits assms, of n] d by simp_all
  show ?thesis
  proof (cases neg)
    case True
    then show ?thesis
      unfolding json_number_def Let_def by (simp add: d(1) tw r del: takeWhile.simps dropWhile.simps cong: option.case_cong conj_cong)
  next
    case False
    then show ?thesis
      unfolding json_number_def Let_def by (simp add: d(1) d45 tw r del: takeWhile.simps dropWhile.simps cong: option.case_cong conj_cong)
  qed
qed

lemma sint_u64_bounds: "- (2 ^ 63) \<le> sint i" "sint i < 2 ^ 63" for i :: u64
  using sint_range_size [of i] by (simp_all add: word_size)

lemma json_number_show_i64:
  assumes "json_stop rest"
  shows "json_number pf (show_i64 i @ rest) = Ok (SInt i, rest)"
proof (cases "sint i < 0")
  case True
  have "of_nat (nat (- sint i)) = (of_int (- sint i) :: u64)"
    using True by (simp add: of_nat_nat)
  then have "parse_i64 True (rs (show_nat (nat (- sint i)))) = Some i"
    using True sint_u64_bounds [of i] by (simp add: parse_i64_def Let_def json_digits_value_show_nat nat_le_iff not_less)
  with True json_number_digits [OF assms, of pf True "nat (- sint i)"] show ?thesis
    by (simp add: show_i64_def)
next
  case False
  have "of_nat (nat (sint i)) = (of_int (sint i) :: u64)"
    using False by (simp add: of_nat_nat)
  then have "parse_i64 False (rs (show_nat (nat (sint i)))) = Some i"
    using False sint_u64_bounds [of i] by (simp add: parse_i64_def Let_def json_digits_value_show_nat nat_less_iff not_le)
  with False json_number_digits [OF assms, of pf False "nat (sint i)"] show ?thesis
    by (simp add: show_i64_def)
qed

subsection \<open>Values are read back\<close>

declare json_value.simps [simp del] json_array.simps [simp del] json_object.simps [simp del]

text \<open>What JSON keeps of a value: unit and the doubles it cannot print become none, bytes their Base64.\<close>

fun json_norm :: "stored_value \<Rightarrow> stored_value" where
  "json_norm SUnit = SNone"
| "json_norm (SFloat f) = SNone"
| "json_norm (SBytes b) = SString (utf8_encode (json_base64 b))"
| "json_norm (SList items) = SList (map json_norm items)"
| "json_norm (SMap pairs) = SMap (map (\<lambda>(k, v). (k, json_norm v)) pairs)"
| "json_norm v = v"

fun json_ok :: "stored_value \<Rightarrow> bool" where
  "json_ok (SFloat f) \<longleftrightarrow> f64_is_nan f \<or> f64_is_infinite f"
| "json_ok (SString s) \<longleftrightarrow> valid_utf8 s"
| "json_ok (SList items) \<longleftrightarrow> (\<forall>v \<in> set items. json_ok v)"
| "json_ok (SMap pairs) \<longleftrightarrow> (\<forall>(k, v) \<in> set pairs. valid_utf8 k \<and> json_ok v)"
| "json_ok _ \<longleftrightarrow> True"

text \<open>The first character of a value: no space, no closing bracket.\<close>

definition value_start :: "rchar \<Rightarrow> bool" where
  "value_start c \<longleftrightarrow> \<not> is_whitespace c \<and> c \<notin> {ch (CHR '']''), ch (CHR ''}'')}"

lemma digit_value_start: "is_ascii_digit c \<Longrightarrow> value_start c"
  by (auto simp: value_start_def is_ascii_digit_def is_whitespace_def)

lemma value_start_ascii:
  "value_start DQUOTE" "value_start 45" "value_start 91" "value_start 123" "value_start 110" "value_start 116" "value_start 102"
  by (simp_all add: value_start_def is_whitespace_def)

lemma show_nat_start: "\<exists>d ds. rs (show_nat n) = d # ds \<and> is_ascii_digit d"
  using show_nat_is_digits [of n] by (cases "rs (show_nat n)") auto

lemma show_i64_start: "\<exists>c cs. show_i64 i = c # cs \<and> (c = 45 \<or> is_ascii_digit c)"
  using show_nat_start [of "nat (sint i)"] by (auto simp: show_i64_def)

lemma value_to_json_start: "json_ok v \<Longrightarrow> \<exists>c cs. value_to_json sf v = c # cs \<and> value_start c"
  using show_i64_start value_start_ascii digit_value_start
  by (cases v) (fastforce simp: json_quoted_def rs_def)+

lemma json_skip_start: "value_start c \<Longrightarrow> json_skip (c # s) = c # s"
  by (simp add: json_skip_def value_start_def)

lemma json_skip_value: "json_ok v \<Longrightarrow> json_skip (value_to_json sf v @ s) = value_to_json sf v @ s"
  using value_to_json_start [of v sf] by (auto simp: json_skip_start)

lemma json_skip_plain [simp]: "json_skip (34 # s) = 34 # s" "json_skip (44 # s) = 44 # s"
  "json_skip (58 # s) = 58 # s" "json_skip (93 # s) = 93 # s" "json_skip (125 # s) = 125 # s"
  by (simp_all add: json_skip_def is_whitespace_def)

lemma json_stop_plain [simp]: "json_stop (44 # s)" "json_stop (93 # s)" "json_stop (125 # s)"
  by (simp_all add: json_stop_def is_ascii_digit_def)

text \<open>That a value is read back, whatever follows it; the fuel is twice its length.\<close>

definition reads_back :: "(u64 \<Rightarrow> rstr) \<Rightarrow> (rstr \<Rightarrow> u64 option) \<Rightarrow> stored_value \<Rightarrow> bool" where
  "reads_back sf pf v \<longleftrightarrow> (\<forall>fuel rest. json_stop rest \<longrightarrow> 2 * length (value_to_json sf v) < fuel \<longrightarrow>
     json_value fuel pf (value_to_json sf v @ rest) = Ok (json_norm v, rest))"

lemma json_array_reads:
  assumes "\<forall>v \<in> set items. json_ok v \<and> reads_back sf pf v"
    "2 * length (join_with (rs '','') (map (value_to_json sf) items)) + 2 \<le> fuel"
  shows "json_array fuel pf acc (join_with (rs '','') (map (value_to_json sf) items) @ ch (CHR '']'') # rest) =
    Ok (SList (acc @ map json_norm items), rest)"
  using assms
proof (induction items arbitrary: acc fuel)
  case Nil
  then obtain f where "fuel = Suc f" by (cases fuel) auto
  then show ?case by (simp add: json_array.simps starts_def)
next
  case (Cons v items)
  then obtain f where f: "fuel = Suc f" by (cases fuel) auto
  let ?enc = "value_to_json sf"
  have v: "json_ok v" "reads_back sf pf v" using Cons.prems(1) by auto
  obtain c cs where c: "?enc v = c # cs" "value_start c" using value_to_json_start [OF v(1)] by blast
  then have nostart: "\<not> starts (CHR '']'') (?enc v @ s)" for s
    by (auto simp: starts_def value_start_def)
  have val: "json_value f pf (?enc v @ r) = Ok (json_norm v, r)"
    if "json_stop r" for r
    using v(2) that Cons.prems(2) f unfolding reads_back_def by (cases items) auto
  show ?case
  proof (cases items)
    case Nil
    obtain f' where f': "f = Suc f'" using Cons.prems(2) f c by (cases f) auto
    have "json_array fuel pf acc (?enc v @ ch (CHR '']'') # rest) = json_array f pf (acc @ [json_norm v]) (ch (CHR '']'') # rest)"
      using val [of "ch (CHR '']'') # rest"] nostart by (simp add: f json_array.simps(2) json_skip_value v(1) Let_def, simp add: starts_def)
    then show ?thesis by (simp add: Nil f' json_array.simps starts_def)
  next
    case (Cons w ws)
    let ?tail = "join_with (rs '','') (map ?enc items) @ ch (CHR '']'') # rest"
    have e: "join_with (rs '','') (map ?enc (v # items)) @ ch (CHR '']'') # rest = ?enc v @ ch (CHR '','') # ?tail"
      by (simp add: Cons rs_def)
    have "json_array fuel pf acc (?enc v @ ch (CHR '','') # ?tail) = json_array f pf (acc @ [json_norm v]) ?tail"
      using val [of "ch (CHR '','') # ?tail"] nostart [of "ch (CHR '']'') # rest"] nostart [of "ch (CHR '','') # ?tail"]
      by (simp add: f json_array.simps(2) json_skip_value v(1) Let_def, simp add: starts_def)
    also have "\<dots> = Ok (SList ((acc @ [json_norm v]) @ map json_norm items), rest)"
      using Cons.prems f Cons c by (intro Cons.IH) (auto simp: rs_def)
    finally show ?thesis by (simp only: e) simp
  qed
qed

abbreviation json_pair :: "(u64 \<Rightarrow> rstr) \<Rightarrow> bytes \<times> stored_value \<Rightarrow> rstr" where
  "json_pair sf \<equiv> \<lambda>(k, v). json_quoted (utf8_chars k) @ rs '':'' @ value_to_json sf v"

lemma json_object_step:
  assumes v: "json_ok v" "reads_back sf pf v" and k: "valid_utf8 k"
    and fuel: "2 * length (json_pair sf (k, v)) < Suc f" and e: "e \<in> {ch (CHR '',''), ch (CHR ''}'')}"
  shows "json_object (Suc f) pf acc (json_pair sf (k, v) @ e # rest) =
    json_object f pf (acc @ [(k, json_norm v)]) (if e = ch (CHR '','') then rest else e # rest)"
proof -
  have stop: "json_stop (e # rest)" using e by auto
  have val: "json_value f pf (value_to_json sf v @ e # rest) = Ok (json_norm v, e # rest)"
    using v(2) stop fuel unfolding reads_back_def by (simp add: json_quoted_def rs_def)
  have key: "json_string (json_quoted (utf8_chars k) @ s) = Ok (utf8_chars k, s)" for s
    by simp
  have quoted: "json_skip (json_quoted t @ s) = json_quoted t @ s" "\<not> starts (CHR ''}'') (json_quoted t @ s)" for t s
    by (simp_all add: json_quoted_def starts_def)
  have colon: "json_skip (rs '':'' @ s) = rs '':'' @ s" "json_expect 58 (rs '':'' @ s) = Ok s" for s
    by (simp_all add: rs_def json_skip_def is_whitespace_def json_expect_def)
  have "json_skip (e # rest) = e # rest" using e by auto
  then show ?thesis
    using val quoted(2) e
    by (simp add: json_object.simps(2) quoted(1) key colon json_skip_value v(1) Let_def valid_utf8_text k)
      (auto simp: starts_def)
qed

lemma json_object_reads:
  assumes "\<forall>(k, v) \<in> set pairs. valid_utf8 k \<and> json_ok v \<and> reads_back sf pf v"
    "2 * length (join_with (rs '','') (map (json_pair sf) pairs)) + 2 \<le> fuel"
  shows "json_object fuel pf acc (join_with (rs '','') (map (json_pair sf) pairs) @ ch (CHR ''}'') # rest) =
    Ok (SMap (acc @ map (\<lambda>(k, v). (k, json_norm v)) pairs), rest)"
  using assms
proof (induction pairs arbitrary: acc fuel)
  case Nil
  then obtain f where "fuel = Suc f" by (cases fuel) auto
  then show ?case by (simp add: json_object.simps starts_def)
next
  case (Cons p pairs)
  obtain k v where p: "p = (k, v)" by fastforce
  obtain f where f: "fuel = Suc f" using Cons.prems(2) by (cases fuel) auto
  have kv: "json_ok v" "reads_back sf pf v" "valid_utf8 k" using Cons.prems(1) p by auto
  show ?case
  proof (cases pairs)
    case Nil
    obtain f' where f': "f = Suc f'" using Cons.prems(2) f p by (cases f) (auto simp: Nil json_quoted_def)
    have "json_object fuel pf acc (json_pair sf (k, v) @ ch (CHR ''}'') # rest) =
        json_object f pf (acc @ [(k, json_norm v)]) (ch (CHR ''}'') # rest)"
      unfolding f by (subst json_object_step [OF kv]) (use Cons.prems(2) f p Nil in simp_all)
    then show ?thesis by (simp add: p Nil f' json_object.simps starts_def)
  next
    case (Cons q qs)
    let ?tail = "join_with (rs '','') (map (json_pair sf) pairs) @ ch (CHR ''}'') # rest"
    have e: "join_with (rs '','') (map (json_pair sf) (p # pairs)) @ ch (CHR ''}'') # rest = json_pair sf (k, v) @ ch (CHR '','') # ?tail"
      by (simp add: Cons rs_def p)
    have "json_object fuel pf acc (json_pair sf (k, v) @ ch (CHR '','') # ?tail) = json_object f pf (acc @ [(k, json_norm v)]) ?tail"
      unfolding f by (subst json_object_step [OF kv]) (use Cons.prems(2) f p Cons in \<open>simp_all add: rs_def\<close>)
    also have "\<dots> = Ok (SMap ((acc @ [(k, json_norm v)]) @ map (\<lambda>(k, v). (k, json_norm v)) pairs), rest)"
      using Cons.prems f Cons p by (intro Cons.IH) (auto simp: rs_def json_quoted_def)
    finally show ?thesis by (simp only: e) (simp add: p)
  qed
qed

lemma json_value_keywords:
  assumes "0 < fuel"
  shows "json_value fuel pf (rs ''null'' @ rest) = Ok (SNone, rest)"
    "json_value fuel pf (rs ''true'' @ rest) = Ok (SBool True, rest)"
    "json_value fuel pf (rs ''false'' @ rest) = Ok (SBool False, rest)"
  using assms by (cases fuel; simp add: json_value.simps rs_def json_keyword_def is_ascii_digit_def)+

lemma json_value_reads: "json_ok v \<Longrightarrow> reads_back sf pf v"
proof (induction sf v rule: value_to_json.induct)
  case (4 sf i)
  show ?case
    unfolding reads_back_def
  proof (intro allI impI)
    fix fuel rest
    assume stop: "json_stop rest" and fuel: "2 * length (value_to_json sf (SInt i)) < fuel"
    obtain c cs where c: "show_i64 i = c # cs" "c = 45 \<or> is_ascii_digit c" using show_i64_start by blast
    obtain f where "fuel = Suc f" using fuel by (cases fuel) auto
    with c json_number_show_i64 [OF stop, of pf i]
    show "json_value fuel pf (value_to_json sf (SInt i) @ rest) = Ok (json_norm (SInt i), rest)"
      by (auto simp: json_value.simps is_ascii_digit_def)
  qed
next
  case (6 sf s)
  show ?case
    unfolding reads_back_def
  proof (intro allI impI)
    fix fuel rest
    assume "2 * length (value_to_json sf (SString s)) < fuel"
    then obtain f where f: "fuel = Suc f" by (cases fuel) auto
    have "json_quoted (utf8_chars s) @ rest = DQUOTE # escape_json_string (utf8_chars s) @ DQUOTE # rest"
      by (simp add: json_quoted_def)
    then show "json_value fuel pf (value_to_json sf (SString s) @ rest) = Ok (json_norm (SString s), rest)"
      using json_string_quoted [of "utf8_chars s" rest] 6 by (simp add: f json_value.simps valid_utf8_text)
  qed
next
  case (7 sf b)
  show ?case
    unfolding reads_back_def
  proof (intro allI impI)
    fix fuel rest
    assume "2 * length (value_to_json sf (SBytes b)) < fuel"
    then obtain f where f: "fuel = Suc f" by (cases fuel) auto
    show "json_value fuel pf (value_to_json sf (SBytes b) @ rest) = Ok (json_norm (SBytes b), rest)"
      using json_string_quoted [of "json_base64 b" rest] by (simp add: f json_value.simps json_quoted_def json_base64_plain)
  qed
next
  case (8 sf items)
  then have "\<forall>v \<in> set items. json_ok v \<and> reads_back sf pf v" by auto
  from json_array_reads [OF this] show ?case
    unfolding reads_back_def by (auto simp: json_value.simps rs_def is_ascii_digit_def Suc_less_eq2)
next
  case (9 sf pairs)
  then have "\<forall>(k, v) \<in> set pairs. valid_utf8 k \<and> json_ok v \<and> reads_back sf pf v" by fastforce
  from json_object_reads [OF this] show ?case
    unfolding reads_back_def by (auto simp: json_value.simps rs_def is_ascii_digit_def Suc_less_eq2)
qed (auto simp: reads_back_def json_value_keywords)

subsection \<open>Records are read back\<close>

fun jsonl_sets :: "(bytes \<times> stored_value) list \<Rightarrow> jsonl_record \<Rightarrow> jsonl_record json_io" where
  "jsonl_sets [] r = Ok r"
| "jsonl_sets ((k, v) # ps) r = obind (jsonl_set (utf8_chars k) (json_norm v) r) (jsonl_sets ps)"

lemma length_join_with: "length (join_with sep xs) \<ge> length (concat xs)"
  by (induction sep xs rule: join_with.induct) auto

lemma jsonl_member_reads:
  assumes v: "json_ok v" and s: "s = [] \<or> (\<exists>t. s = ch (CHR '','') # t)"
  shows "jsonl_member pf (json_pair sf (k, v) @ s) r =
    obind (jsonl_set (utf8_chars k) (json_norm v) r) (\<lambda>r. Ok (r, tl s))"
proof -
  have stop: "json_stop s" "json_skip s = s"
    using s by (auto simp: json_stop_def json_skip_def is_ascii_digit_def is_whitespace_def)
  have val: "json_parse_value pf (value_to_json sf v @ s) = Ok (json_norm v, s)"
    using json_value_reads [OF v, of sf pf] stop(1) unfolding reads_back_def json_parse_value_def by simp
  have key: "json_string (json_quoted (utf8_chars k) @ t) = Ok (utf8_chars k, t)" for t by simp
  have colon: "json_skip (rs '':'' @ t) = rs '':'' @ t" "json_expect 58 (rs '':'' @ t) = Ok t" for t
    by (simp_all add: rs_def json_expect_def)
  have comma: "json_expect 44 (44 # t) = Ok t" for t
    by (simp add: json_expect_def)
  show ?thesis
    using s stop(2) val
    by (auto simp: jsonl_member_def key colon json_skip_value v comma)
qed

lemma jsonl_members_reads:
  assumes "\<forall>(k, v) \<in> set ps. json_ok v" "length ps < fuel"
  shows "jsonl_members fuel pf (join_with (rs '','') (map (json_pair sf) ps)) r = jsonl_sets ps r"
  using assms
proof (induction ps arbitrary: fuel r)
  case Nil
  then show ?case by (cases fuel) (auto simp: json_skip_def)
next
  case (Cons p ps)
  obtain k v where p: "p = (k, v)" by fastforce
  obtain f where f: "fuel = Suc f" using Cons.prems(2) by (cases fuel) auto
  define s where "s = (if ps = [] then [] else ch (CHR '','') # join_with (rs '','') (map (json_pair sf) ps))"
  have e: "join_with (rs '','') (map (json_pair sf) (p # ps)) = json_pair sf (k, v) @ s"
    by (cases ps) (auto simp: s_def p rs_def)
  have v: "json_ok v" using Cons.prems(1) p by auto
  have skip: "json_skip (json_pair sf (k, v) @ s) = json_pair sf (k, v) @ s"
    by (simp add: json_quoted_def)
  have ne: "json_pair sf (k, v) @ s \<noteq> []" by (simp add: json_quoted_def)
  have IH: "jsonl_members f pf (tl s) r = jsonl_sets ps r" for r
    using Cons.IH [of f r] Cons.prems f by (cases ps) (auto simp: s_def)
  have "jsonl_members fuel pf (json_pair sf (k, v) @ s) r =
      obind (jsonl_member pf (json_pair sf (k, v) @ s) r) (\<lambda>(r, s). jsonl_members f pf s r)"
    using ne by (simp only: f jsonl_members.simps skip if_False)
  also have "\<dots> = obind (obind (jsonl_set (utf8_chars k) (json_norm v) r) (\<lambda>r. Ok (r, tl s)))
      (\<lambda>(r, s). jsonl_members f pf s r)"
    by (subst jsonl_member_reads [OF v]) (auto simp: s_def)
  also have "\<dots> = jsonl_sets (p # ps) r"
    by (cases "jsonl_set (utf8_chars k) (json_norm v) r") (simp_all add: p IH)
  finally show ?case by (simp only: e)
qed

text \<open>The system fields of a record as members.\<close>

definition system_fields :: "u64 \<Rightarrow> u32 \<Rightarrow> uuid7 \<Rightarrow> u64 \<Rightarrow> u64 \<Rightarrow> u64 \<Rightarrow> field_list" where
  "system_fields index version uuid created_at updated_at deleted_at =
     [(bstr ''_index'', SInt index), (bstr ''_uuid'', SString (utf8_encode (uuid_to_string uuid))),
      (bstr ''_version'', SInt (ucast version)), (bstr ''_created_at'', SInt created_at),
      (bstr ''_updated_at'', SInt updated_at)] @
     (if 0 \<le> sint deleted_at then [(bstr ''_deleted_at'', SInt deleted_at)] else [])"

definition RESERVED :: "bytes list" where
  "RESERVED = map bstr [''_index'', ''_uuid'', ''_version'', ''_created_at'', ''_updated_at'', ''_deleted_at'']"

lemma reserved_names [simp]:
  "utf8_chars (bstr ''_index'') = rs ''_index''" "utf8_chars (bstr ''_uuid'') = rs ''_uuid''"
  "utf8_chars (bstr ''_version'') = rs ''_version''" "utf8_chars (bstr ''_created_at'') = rs ''_created_at''"
  "utf8_chars (bstr ''_updated_at'') = rs ''_updated_at''" "utf8_chars (bstr ''_deleted_at'') = rs ''_deleted_at''"
  by (simp_all add: bstr_def rs_def)

lemma json_key_quoted:
  "name \<in> {''_index'', ''_uuid'', ''_version'', ''_created_at'', ''_updated_at'', ''_deleted_at''} \<Longrightarrow>
   json_key name = json_quoted (rs name) @ rs '':''"
  by (auto simp: json_key_def json_quoted_def rs_def escape_json_string_def escape_json_char_def is_control_def)

lemma show_u64_i64: "unat w < 2 ^ 63 \<Longrightarrow> rs (show_nat (unat w)) = show_i64 w" for w :: u64
proof -
  assume "unat w < 2 ^ 63"
  then have "uint w < 2 ^ 63"
    using nat_less_iff [of "uint w" "2 ^ 63"] by simp
  then have "sint w = uint w"
    using signed_take_bit_int_eq_self [of 63 "uint w"] order.trans [OF _ uint_ge_0 [of w]] by (simp add: sint_uint)
  then show ?thesis by (simp add: show_i64_def)
qed

lemma unat_u32_less: "unat v < 2 ^ 32" for v :: u32
proof -
  have "unat v < 2 ^ LENGTH(32)" by (rule unsigned_less)
  then show ?thesis by simp
qed

lemma unat_ucast_u32: "unat (ucast v :: u64) = unat v" for v :: u32
  using unat_u32_less [of v] by (simp add: unsigned_ucast_eq take_bit_nat_eq_self)

lemma hex_char_plain: "n < 16 \<Longrightarrow> escape_json_char (of_char (hex_char n)) = [of_char (hex_char n)] \<and>
    32 < (of_char (hex_char n) :: nat) \<and> (of_char (hex_char n) :: nat) < 128"
proof -
  have "list_all (\<lambda>c. escape_json_char (of_char c) = [of_char c] \<and> 32 < (of_char c :: nat) \<and> (of_char c :: nat) < 128) ''0123456789abcdef''"
    by (simp add: escape_json_char_def is_control_def)
  then show "n < 16 \<Longrightarrow> ?thesis" by (simp add: hex_char_def list_all_length)
qed

lemma uuid_to_string_chars:
  assumes "c \<in> set (uuid_to_string u)"
  shows "escape_json_char c = [c] \<and> 32 < c \<and> c < 128"
proof -
  have hex: "c \<in> set (uuid_hex bs) \<Longrightarrow> \<exists>n < 16. c = of_char (hex_char n)" for bs
  proof (induction bs)
    case (Cons b bs)
    have "unat b div 16 < 16" "unat b mod 16 < 16" using u8_div16 by simp_all
    with Cons show ?case by (auto simp only: uuid_hex_simps list.set insert_iff)
  qed simp
  have "c = 45 \<or> (\<exists>n < 16. c = of_char (hex_char n))"
    using assms hex by (auto simp: uuid_to_string_eq)
  then show ?thesis
    using hex_char_plain by (auto simp: escape_json_char_def [of 45] is_control_def)
qed

lemma uuid_text_plain: "escape_json_string (uuid_to_string u) = uuid_to_string u"
proof -
  have "concat (map (\<lambda>c. [c]) s) = s" for s :: rstr by (induction s) auto
  moreover have "map escape_json_char (uuid_to_string u) = map (\<lambda>c. [c]) (uuid_to_string u)"
    using uuid_to_string_chars by (intro map_cong) auto
  ultimately show ?thesis by (simp only: escape_json_string_def)
qed

lemma uuid_text_utf8: "utf8_chars (utf8_encode (uuid_to_string u)) = uuid_to_string u"
  "valid_utf8 (utf8_encode (uuid_to_string u))"
  using uuid_to_string_chars [of _ u]
  by (fastforce intro!: utf8_chars_utf8_encode valid_utf8_encode simp: list_all_iff is_scalar_def)+

lemma jsonl_line_members:
  assumes "unat index < 2 ^ 63"
  shows "jsonl_line sf index version uuid created_at updated_at deleted_at flds =
    rs ''{'' @ join_with (rs '','') (map (json_pair sf)
      (system_fields index version uuid created_at updated_at deleted_at @ flds)) @ rs ''}'' @ [10]"
proof -
  have "unat version < 2 ^ 63"
    using unat_u32_less [of version] by simp
  then have v: "rs (show_nat (unat version)) = show_i64 (ucast version)"
    using show_u64_i64 [of "ucast version"] by (simp add: unat_ucast_u32)
  have join: "join_with (rs '','') (x # map (json_pair sf) fs) = x @ concat (map (json_field sf) fs)" for x fs
    by (induction fs arbitrary: x) (auto simp: json_field_def)
  have join2: "ys \<noteq> [] \<Longrightarrow> join_with (rs '','') (x # ys) = x @ rs '','' @ join_with (rs '','') ys" for x ys
    by (cases ys) auto
  have quoted: "json_quoted (uuid_to_string uuid) = DQUOTE # uuid_to_string uuid @ [DQUOTE]"
    by (simp add: json_quoted_def uuid_text_plain)
  show ?thesis
    using show_u64_i64 [OF assms] v
    by (simp add: jsonl_line_def system_fields_def json_key_quoted uuid_text_utf8 quoted join join2)
qed

text \<open>A line has no newline but its last character, and only scalar values.\<close>

abbreviation plain_char :: "rchar \<Rightarrow> bool" where
  "plain_char c \<equiv> is_scalar c \<and> c \<noteq> 10"

lemma plain_lower_hex: "n < 16 \<Longrightarrow> plain_char (lower_hex n)"
  by (simp add: lower_hex_def is_scalar_def)

lemma plain_escape: "list_all is_scalar s \<Longrightarrow> list_all plain_char (escape_json_string s)"
proof (induction s)
  case (Cons c s)
  have "is_control c \<Longrightarrow> list_all plain_char (show_04x c)"
    using plain_lower_hex [of "c div 4096"] plain_lower_hex [of "c div 256 mod 16"] plain_lower_hex [of "c div 16 mod 16"] plain_lower_hex [of "c mod 16"]
    by (auto simp: show_04x_def is_control_def)
  then have "list_all plain_char (escape_json_char c)"
    using Cons.prems by (auto simp: escape_json_char_def rs_def is_scalar_def)
  with Cons show ?case by (simp add: escape_json_string_def)
qed (simp add: escape_json_string_def)

lemma plain_quoted: "list_all is_scalar s \<Longrightarrow> list_all plain_char (json_quoted s)"
  using plain_escape [of s] by (simp add: json_quoted_def is_scalar_def)

lemma plain_join: "list_all plain_char sep \<Longrightarrow> \<forall>x \<in> set xs. list_all plain_char x \<Longrightarrow> list_all plain_char (join_with sep xs)"
  by (induction sep xs rule: join_with.induct) auto

lemma plain_rs: "list_all plain_char (rs s) \<longleftrightarrow> 10 \<notin> set (map of_char s :: nat list)"
proof -
  have "is_scalar (of_char c)" for c :: char
    unfolding is_scalar_def using nat_of_char_less_256 [of c] by linarith
  then show ?thesis by (auto simp: rs_def list_all_iff)
qed


lemma plain_digits: "list_all is_ascii_digit s \<Longrightarrow> list_all plain_char s"
  by (auto simp: list_all_iff is_ascii_digit_def is_scalar_def)

lemma plain_show_i64: "list_all plain_char (show_i64 i)"
  using plain_digits show_nat_is_digits by (auto simp: show_i64_def list_all_iff is_scalar_def)

lemma plain_base64: "list_all plain_char (json_base64 b)"
proof -
  have "list_all plain_char (rs ''ABCDEFGHIJKLMNOPQRSTUVWXYZabcdefghijklmnopqrstuvwxyz0123456789+/'')"
    unfolding plain_rs by simp
  then have "n < 64 \<Longrightarrow> plain_char (base64_char n)" for n
    by (simp add: base64_char_def list_all_length rs_def)
  then show ?thesis
    by (induction b rule: json_base64.induct) (simp_all add: Let_def plain_rs)
qed

lemma plain_value: "json_ok v \<Longrightarrow> list_all plain_char (value_to_json sf v)"
proof (induction sf v rule: value_to_json.induct)
  case (6 sf s)
  then show ?case using valid_utf8_text by (simp add: plain_quoted)
next
  case (7 sf b)
  then show ?case using plain_base64 [of b] by (simp add: is_scalar_def)
next
  case (8 sf items)
  then show ?case by (simp add: plain_rs plain_join)
next
  case (9 sf pairs)
  then have "\<forall>x \<in> set (map (json_pair sf) pairs). list_all plain_char x"
    using valid_utf8_text by (fastforce simp: plain_quoted plain_rs)
  then have "list_all plain_char (join_with (rs '','') (map (json_pair sf) pairs))"
    by (intro plain_join) (simp_all add: plain_rs)
  then show ?case by (simp add: plain_rs)
qed (auto simp: plain_rs plain_show_i64)

text \<open>The bytes of a line: one newline, at the end.\<close>

lemma utf8_encode_append [simp]: "utf8_encode (s @ t) = utf8_encode s @ utf8_encode t"
  by (simp add: utf8_encode_def)

lemma newline_not_in: "list_all plain_char s \<Longrightarrow> 10 \<notin> set (utf8_encode s)"
proof (induction s)
  case (Cons c s)
  have word: "(of_nat n :: u8) \<noteq> 10" if "n < 256" "n \<noteq> 10" for n
    using that by (simp add: word_unat_eq_iff unat_byte)
  have "10 \<notin> set (encode_utf8 c)"
  proof (cases "c < 0x80")
    case True
    then show ?thesis using Cons.prems word [of c] by (simp add: encode_utf8_def eq_commute)
  next
    case False
    have "(10 :: u8) \<noteq> of_nat (k + n)" if "10 < k" "k + n < 256" for k n
      using word [of "k + n"] that by (metis less_add_same_cancel1 not_add_less1)
    moreover have "c < 0x110000" using Cons.prems by (auto simp: is_scalar_def)
    ultimately show ?thesis
      using False unfolding encode_utf8_def by (auto simp del: of_nat_add)
  qed
  with Cons show ?case by (simp add: utf8_encode_def)
qed (simp add: utf8_encode_def)

lemma first_line_encode:
  assumes "list_all plain_char s"
  shows "first_line (utf8_encode (s @ [10]) @ later) = utf8_encode (s @ [10])"
proof -
  have nl: "utf8_encode [10] = [10]" by (simp add: utf8_encode_def encode_utf8_def)
  have "takeWhile (\<lambda>b. b \<noteq> 10) (utf8_encode s @ 10 # later) = utf8_encode s"
    "dropWhile (\<lambda>b. b \<noteq> 10) (utf8_encode s @ 10 # later) = 10 # later"
    using newline_not_in [OF assms] by (subst takeWhile_append2 dropWhile_append2; force)+
  then show ?thesis by (simp add: first_line_def nl)
qed

lemma json_system_fields:
  "\<forall>(k, v) \<in> set (system_fields index version uuid c u d). valid_utf8 k \<and> json_ok v"
proof -
  have "valid_utf8 (bstr s)" if "s \<in> {''_index'', ''_uuid'', ''_version'', ''_created_at'', ''_updated_at'', ''_deleted_at''}" for s
    using that by (intro valid_utf8_ascii) (auto simp: bstr_def)
  then show ?thesis
    by (auto simp: system_fields_def uuid_text_utf8)
qed

definition jsonl_user_fields :: "field_list \<Rightarrow> (bytes, stored_value) hmap \<Rightarrow> (bytes, stored_value) hmap" where
  "jsonl_user_fields flds m = fold (\<lambda>(k, v). hm_insert k v) (map (\<lambda>(k, v). (k, json_norm v)) flds) m"

lemma jsonl_set_user:
  assumes "valid_utf8 name" "name \<notin> set RESERVED"
  shows "jsonl_set (utf8_chars name) v r = Ok (r\<lparr> jr_fields := hm_insert name v (jr_fields r) \<rparr>)"
proof -
  have "name = bstr s" if "utf8_chars name = rs s" "utf8_encode (rs s) = bstr s" for s
    using valid_utf8_text [OF assms(1)] that by simp
  moreover have "utf8_encode (rs s) = bstr s"
    if "s \<in> {''_index'', ''_uuid'', ''_version'', ''_created_at'', ''_updated_at'', ''_deleted_at''}" for s
    using that by (auto simp: bstr_def rs_def utf8_encode_def encode_utf8_def)
  ultimately have "utf8_chars name \<notin> rs ` {''_index'', ''_uuid'', ''_version'', ''_created_at'', ''_updated_at'', ''_deleted_at''}"
    using assms(2) by (auto simp: RESERVED_def)
  then show ?thesis
    using valid_utf8_text [OF assms(1)] by (simp add: jsonl_set_def)
qed

lemma jsonl_sets_user:
  "\<forall>(k, v) \<in> set flds. valid_utf8 k \<and> k \<notin> set RESERVED \<Longrightarrow>
   jsonl_sets flds r = Ok (r\<lparr> jr_fields := jsonl_user_fields flds (jr_fields r) \<rparr>)"
  by (induction flds arbitrary: r) (auto simp: jsonl_user_fields_def jsonl_set_user)

lemma jsonl_sets_append: "jsonl_sets (xs @ ys) r = obind (jsonl_sets xs r) (jsonl_sets ys)"
proof (induction xs arbitrary: r)
  case (Cons p xs)
  obtain k v where "p = (k, v)" by fastforce
  with Cons show ?case by (cases "jsonl_set (utf8_chars k) (json_norm v) r") auto
qed simp

lemma rs_eq_iff [simp]: "rs s = rs t \<longleftrightarrow> s = t"
  unfolding rs_def by (rule inj_map_eq_map) (simp add: inj_on_def)

lemma jsonl_sets_system:
  assumes "length uuid = 16"
  shows "jsonl_sets (system_fields index version uuid c u d) r = Ok (r\<lparr> jr_index := index, jr_version := version,
     jr_uuid := uuid, jr_created_at := c, jr_updated_at := u,
     jr_deleted_at := (if 0 \<le> sint d then d else jr_deleted_at r) \<rparr>)"
proof -
  have "ucast (ucast version :: u64) = version"
    by (rule bit_word_eqI) (simp add: bit_simps)
  then show ?thesis
    by (simp add: system_fields_def jsonl_set_def uuid_text_utf8 uuid_parse_print [OF assms])
qed

lemma parse_jsonl_line:
  assumes "length uuid = 16" "unat index < 2 ^ 63" "\<forall>(k, v) \<in> set flds. valid_utf8 k \<and> k \<notin> set RESERVED \<and> json_ok v"
  shows "parse_jsonl_record pf fresh (jsonl_line sf index version uuid c u d flds) =
    Ok \<lparr> jr_index = index, jr_version = version, jr_uuid = uuid, jr_created_at = c, jr_updated_at = u,
         jr_deleted_at = (if 0 \<le> sint d then d else - 1), jr_fields = jsonl_user_fields flds [] \<rparr>"
proof -
  define ps where "ps = system_fields index version uuid c u d @ flds"
  define body where "body = join_with (rs '','') (map (json_pair sf) ps)"
  have ok: "\<forall>(k, v) \<in> set ps. json_ok v"
    using json_system_fields assms(3) by (fastforce simp: ps_def)
  have user: "\<forall>(k, v) \<in> set flds. valid_utf8 k \<and> k \<notin> set RESERVED"
    using assms(3) by auto
  have "jsonl_line sf index version uuid c u d flds = 123 # body @ [125, 10]"
    using jsonl_line_members [OF assms(2)] by (simp add: body_def ps_def rs_def)
  moreover have "str_trim (123 # body @ [125, 10]) = 123 # body @ [125]"
    by (simp add: str_trim_def is_whitespace_def)
  moreover have "length ps < length body + 1"
  proof -
    have "length (concat (map (json_pair sf) ps)) \<ge> length ps"
      by (induction ps) (auto simp: json_quoted_def)
    with length_join_with [of "map (json_pair sf) ps" "rs '',''"] show ?thesis
      unfolding body_def by simp
  qed
  ultimately show ?thesis
    using jsonl_members_reads [OF ok, of "length body + 1" pf sf]
    by (simp add: parse_jsonl_record_def body_def [symmetric] butlast_append)
      (simp add: ps_def jsonl_sets_append jsonl_sets_system [OF assms(1)] jsonl_sets_user [OF user])
qed

lemma plain_line:
  assumes "unat index < 2 ^ 63" "\<forall>(k, v) \<in> set flds. valid_utf8 k \<and> json_ok v"
  shows "\<exists>text. jsonl_line sf index version uuid c u d flds = text @ [10] \<and> list_all plain_char text"
proof -
  let ?ps = "system_fields index version uuid c u d @ flds"
  have pair: "list_all plain_char (json_pair sf p)" if "p \<in> set ?ps" for p
  proof -
    obtain k v where p: "p = (k, v)" by fastforce
    then have "valid_utf8 k" "json_ok v"
      using that assms(2) json_system_fields [of index version uuid c u d] by auto
    then have "list_all plain_char (json_quoted (utf8_chars k))" "list_all plain_char (value_to_json sf v)"
      using valid_utf8_text plain_quoted plain_value by blast+
    then show ?thesis by (simp add: p plain_rs)
  qed
  have "list_all plain_char (join_with (rs '','') (map (json_pair sf) ?ps))"
  proof (intro plain_join ballI)
    fix x assume "x \<in> set (map (json_pair sf) ?ps)"
    then obtain p where "p \<in> set ?ps" "x = json_pair sf p" unfolding set_map by (rule imageE)
    then show "list_all plain_char x" using pair by simp
  qed (simp add: plain_rs)
  then show ?thesis
    by (intro exI [of _ "rs ''{'' @ join_with (rs '','') (map (json_pair sf) ?ps) @ rs ''}''"])
      (simp add: jsonl_line_members [OF assms(1)] plain_rs)
qed

text \<open>
  C17: a record appended to the JSON-lines file is read back at the offset the writer returned, also
  when more has been appended since: the same number, version, identifier and times, and each field
  with what JSON keeps of its value. The hypotheses exclude what is lost: numbers from \<open>2^63\<close> on,
  which the parser refuses, fields named like the system's, and finite doubles, whose text is the
  standard library's.
\<close>

theorem jsonl_record_roundtrip:
  assumes "unat (jw_write_offset w) = length file" "length uuid = 16" "unat index < 2 ^ 63"
    "\<forall>(k, v) \<in> set flds. valid_utf8 k \<and> k \<notin> set RESERVED \<and> json_ok v" "distinct (map fst flds)"
    "jsonl_write_record sf index version uuid c u d flds w file = ((off, len), w', file')"
  shows "\<exists>r. jsonl_read_record pf fresh (file' @ later) off = Ok r \<and>
    jr_index r = index \<and> jr_version r = version \<and> jr_uuid r = uuid \<and> jr_created_at r = c \<and>
    jr_updated_at r = u \<and> jr_deleted_at r = (if 0 \<le> sint d then d else - 1) \<and>
    (\<forall>(k, v) \<in> set flds. hm_get k (jr_fields r) = Some (json_norm v))"
proof -
  let ?line = "jsonl_line sf index version uuid c u d flds"
  have off: "off = jw_write_offset w" "file' = file @ utf8_encode ?line"
    using assms(6) by (auto simp: jsonl_write_record_def Let_def)
  obtain chars where chars: "?line = chars @ [10]" "list_all plain_char chars"
    using plain_line [of index flds sf version uuid c u d] assms(3,4) by fastforce
  have "first_line (utf8_encode ?line @ later) = utf8_encode ?line"
    using first_line_encode [OF chars(2)] chars(1) by simp
  moreover have "list_all is_scalar ?line"
    using chars by (auto simp: list_all_iff is_scalar_def)
  then have "valid_utf8 (utf8_encode ?line)" "utf8_chars (utf8_encode ?line) = ?line"
    by (auto intro!: valid_utf8_encode utf8_chars_utf8_encode simp: list_all_iff is_scalar_def)
  ultimately have "jsonl_read_record pf fresh (file' @ later) off = parse_jsonl_record pf fresh ?line"
    using assms(1) by (simp add: jsonl_read_record_def off jsonl_read_line_def)
  moreover have "hm_get k (jsonl_user_fields flds []) = Some (json_norm v)" if "(k, v) \<in> set flds" for k v
    unfolding jsonl_user_fields_def
    by (rule hm.get_puts_distinct) (use assms(5) that in \<open>auto simp: comp_def case_prod_beta' intro!: rev_image_eqI\<close>)
  ultimately show ?thesis
    using parse_jsonl_line [OF assms(2,3,4), of pf fresh sf version c u d] by auto
qed

lemma jsonl_record_roundtrip_witness:
  "\<forall>sf pf. \<exists>r. jsonl_read_record pf (uuid_nil) (snd (snd (jsonl_write_record sf 7 1 (replicate 16 0) 5 6 (- 1)
      [(bstr ''name'', SString (bstr ''Ann'')), (bstr ''age'', SInt 30)] \<lparr> jw_write_offset = 0, jw_line_count = 0 \<rparr> []))) 0 = Ok r \<and>
    jr_index r = 7 \<and> hm_get (bstr ''age'') (jr_fields r) = Some (SInt 30)"
proof (intro allI)
  fix sf pf
  let ?flds = "[(bstr ''name'', SString (bstr ''Ann'')), (bstr ''age'', SInt 30)]"
  obtain off len w' file' where w: "jsonl_write_record sf 7 1 (replicate 16 0) 5 6 (- 1) ?flds
      \<lparr> jw_write_offset = 0, jw_line_count = 0 \<rparr> [] = ((off, len), w', file')"
    by (metis prod.collapse)
  then have "off = 0" by (auto simp: jsonl_write_record_def Let_def)
  moreover have "\<forall>(k, v) \<in> set ?flds. valid_utf8 k \<and> k \<notin> set RESERVED \<and> json_ok v"
    by (simp add: RESERVED_def bstr_def valid_utf8_ascii)
  moreover have "distinct (map fst ?flds)"
    by (simp add: bstr_def)
  ultimately show "\<exists>r. jsonl_read_record pf (uuid_nil) (snd (snd (jsonl_write_record sf 7 1 (replicate 16 0) 5 6 (- 1)
      ?flds \<lparr> jw_write_offset = 0, jw_line_count = 0 \<rparr> []))) 0 = Ok r \<and>
    jr_index r = 7 \<and> hm_get (bstr ''age'') (jr_fields r) = Some (SInt 30)"
    using jsonl_record_roundtrip [OF _ _ _ _ _ w, of pf uuid_nil "[]"] w by auto
qed

end
