(* ===== verification/Store_Config.thy ===== *)
theory Store_Config
  imports Coral_Map Store_Base
begin

text \<open>
  The configuration of a store (\<open>runtime/src/store/config.rs\<close>): its parts with their defaults, how
  the global part and a store's own part are merged, and the parser of the configuration file. Text
  is a list of characters, a duration its number of milliseconds, a path a text. The argument \<open>ck\<close> says
  whether the build checks arithmetic for overflow, as a debug build does, or wraps, as a release build.
\<close>

subsection \<open>The choices of a setting\<close>

datatype sync_mode = SyncNone | FDataSync | FSync | SyncFull
datatype compression = CompressNone | Lz4 | Zstd | Snappy
datatype index_type = BTree | HashIndex | Art
datatype eviction_policy = Lru | Lfu | Arc







subsection \<open>Numbers, durations and sizes\<close>



definition ends_with :: "rstr \<Rightarrow> rstr \<Rightarrow> bool" where
  "ends_with s suffix \<longleftrightarrow> length suffix \<le> length s \<and> drop (length s - length suffix) s = suffix"

definition starts_with :: "rstr \<Rightarrow> rstr \<Rightarrow> bool" where
  "starts_with s prefix \<longleftrightarrow> take (length prefix) s = prefix"


text \<open>A product of \<open>u64\<close>s, and one of several factors, from the left.\<close>

definition mul_u64 :: "bool \<Rightarrow> u64 \<Rightarrow> u64 \<Rightarrow> u64 io" where
  "mul_u64 ck a b = (if ck \<and> 2 ^ 64 \<le> unat a * unat b then Panic else Ok (a * b))"

fun mul_all :: "bool \<Rightarrow> u64 \<Rightarrow> u64 list \<Rightarrow> u64 io" where
  "mul_all ck num [] = Ok num"
| "mul_all ck num (f # fs) = obind (mul_u64 ck num f) (\<lambda>num. mul_all ck num fs)"



text \<open>
  \<open>f32::clamp\<close> between positive bounds, on bits: a number with the sign bit set is below them, NaN
  is neither below nor above, and stays.
\<close>

definition is_nan32 :: "u32 \<Rightarrow> bool" where
  "is_nan32 x \<longleftrightarrow> 0x7F800000 < x AND 0x7FFFFFFF"

definition f32_clamp :: "u32 \<Rightarrow> u32 \<Rightarrow> u32 \<Rightarrow> u32" where
  "f32_clamp lo hi x =
     (if is_nan32 x then x
      else if bit x 31 \<or> x < lo then lo else if hi < x then hi else x)"

subsection \<open>The configuration of a store\<close>

record storage_config =
  sc_binary_enabled :: bool
  sc_json_enabled :: bool
  sc_compression :: compression
  sc_compression_level :: u8

definition storage_config_default :: storage_config where
  "storage_config_default = \<lparr> sc_binary_enabled = True, sc_json_enabled = True,
     sc_compression = CompressNone, sc_compression_level = 3 \<rparr>"

record wal_config =
  wc_enabled :: bool
  wc_path :: "rstr option"
  wc_max_size :: u64
  wc_sync_mode :: sync_mode
  wc_checkpoint_interval :: nat
  wc_checkpoint_threshold :: u64

definition wal_config_default :: wal_config where
  "wal_config_default = \<lparr> wc_enabled = True, wc_path = None, wc_max_size = 64 * 1024 * 1024,
     wc_sync_mode = FSync, wc_checkpoint_interval = 300 * 1000, wc_checkpoint_threshold = 1000 \<rparr>"

record cache_config =
  cc_size :: u64
  cc_eviction_policy :: eviction_policy
  cc_preload :: bool
  cc_pin_hot_pages :: bool

definition cache_config_default :: cache_config where
  "cache_config_default = \<lparr> cc_size = 256 * 1024 * 1024, cc_eviction_policy = Lru,
     cc_preload = False, cc_pin_hot_pages = True \<rparr>"

record auto_persist_config =
  ap_enabled :: bool
  ap_batch_window :: nat
  ap_batch_max_size :: u64

definition auto_persist_config_default :: auto_persist_config where
  "auto_persist_config_default = \<lparr> ap_enabled = True, ap_batch_window = 10, ap_batch_max_size = 100 \<rparr>"

text \<open>Floats of 32 bits by their bits: 0.8 and 0.01, and below the bounds 0.1, 1.0, 0.001 and 0.5.\<close>

record index_config =
  ic_index_type :: index_type
  ic_page_size :: u32
  ic_fill_factor :: u32
  ic_bloom_filter :: bool
  ic_bloom_fpr :: u32

definition index_config_default :: index_config where
  "index_config_default = \<lparr> ic_index_type = BTree, ic_page_size = 4096, ic_fill_factor = 0x3F4CCCCD,
     ic_bloom_filter = True, ic_bloom_fpr = 0x3C23D70A \<rparr>"

record soft_delete_config =
  sd_enabled :: bool
  sd_retention_period :: nat
  sd_auto_vacuum :: bool
  sd_vacuum_interval :: nat

definition soft_delete_config_default :: soft_delete_config where
  "soft_delete_config_default = \<lparr> sd_enabled = True, sd_retention_period = 30 * 24 * 60 * 60 * 1000,
     sd_auto_vacuum = True, sd_vacuum_interval = 24 * 60 * 60 * 1000 \<rparr>"

record backup_config =
  bc_auto_backup :: bool
  bc_backup_path :: "rstr option"
  bc_backup_interval :: nat
  bc_backup_retention :: u32
  bc_incremental :: bool

definition backup_config_default :: backup_config where
  "backup_config_default = \<lparr> bc_auto_backup = False, bc_backup_path = None,
     bc_backup_interval = 24 * 60 * 60 * 1000, bc_backup_retention = 7, bc_incremental = True \<rparr>"

record field_index =
  fi_index_type :: index_type
  fi_unique :: bool

record global_config =
  gc_data_path :: rstr
  gc_storage :: storage_config
  gc_wal :: wal_config
  gc_cache :: cache_config
  gc_auto_persist :: auto_persist_config
  gc_index :: index_config
  gc_soft_delete :: soft_delete_config
  gc_backup :: backup_config


record store_type_config =
  st_data_path :: "rstr option"
  st_storage :: "storage_config option"
  st_wal :: "wal_config option"
  st_cache_priority :: "rstr option"
  st_auto_persist :: "auto_persist_config option"
  st_soft_delete :: "soft_delete_config option"
  st_indexes :: "(rstr, field_index) hmap"


record store_config =
  cfg_store_type :: rstr
  cfg_data_path :: rstr
  cfg_storage :: storage_config
  cfg_wal :: wal_config
  cfg_cache :: cache_config
  cfg_auto_persist :: auto_persist_config
  cfg_index :: index_config
  cfg_soft_delete :: soft_delete_config
  cfg_backup :: backup_config
  cfg_field_indexes :: "(rstr, field_index) hmap"

text \<open>\<open>PathBuf::join\<close>: an absolute path replaces the one it is joined to.\<close>

definition path_join :: "rstr \<Rightarrow> rstr \<Rightarrow> rstr" where
  "path_join base p = (if starts_with p (rs ''/'') \<or> base = [] then p
     else if ends_with base (rs ''/'') then base @ p else base @ rs ''/'' @ p)"

definition or_else :: "'a option \<Rightarrow> 'a \<Rightarrow> 'a" where
  "or_else x d = (case x of Some y \<Rightarrow> y | None \<Rightarrow> d)"

text \<open>The lower case of the store type, for its directory, is the standard library's: \<open>lower\<close>.\<close>

definition store_config_merge ::
    "(rstr \<Rightarrow> rstr) \<Rightarrow> rstr \<Rightarrow> global_config \<Rightarrow> store_type_config option \<Rightarrow> store_config" where
  "store_config_merge lower store_type g stc =
     \<lparr> cfg_store_type = store_type,
       cfg_data_path = or_else (Option.bind stc st_data_path) (path_join (gc_data_path g) (lower store_type)),
       cfg_storage = or_else (Option.bind stc st_storage) (gc_storage g),
       cfg_wal = or_else (Option.bind stc st_wal) (gc_wal g),
       cfg_cache = gc_cache g,
       cfg_auto_persist = or_else (Option.bind stc st_auto_persist) (gc_auto_persist g),
       cfg_index = gc_index g,
       cfg_soft_delete = or_else (Option.bind stc st_soft_delete) (gc_soft_delete g),
       cfg_backup = gc_backup g,
       cfg_field_indexes = or_else (map_option st_indexes stc) [] \<rparr>"

definition store_config_minimal :: "rstr \<Rightarrow> rstr \<Rightarrow> store_config" where
  "store_config_minimal store_type data_path =
     \<lparr> cfg_store_type = store_type, cfg_data_path = data_path, cfg_storage = storage_config_default,
       cfg_wal = wal_config_default, cfg_cache = cache_config_default,
       cfg_auto_persist = auto_persist_config_default, cfg_index = index_config_default,
       cfg_soft_delete = soft_delete_config_default, cfg_backup = backup_config_default,
       cfg_field_indexes = [] \<rparr>"

definition cfg_wal_path :: "store_config \<Rightarrow> rstr" where
  "cfg_wal_path c = or_else (wc_path (cfg_wal c)) (path_join (cfg_data_path c) (rs ''_wal''))"

definition cfg_index_path :: "store_config \<Rightarrow> rstr" where
  "cfg_index_path c = path_join (cfg_data_path c) (rs ''_index'')"

definition cfg_binary_path :: "store_config \<Rightarrow> rstr" where
  "cfg_binary_path c = path_join (cfg_data_path c) (rs ''data.bin'')"

definition cfg_jsonl_path :: "store_config \<Rightarrow> rstr" where
  "cfg_jsonl_path c = path_join (cfg_data_path c) (rs ''data.jsonl'')"

definition cfg_schema_path :: "store_config \<Rightarrow> rstr" where
  "cfg_schema_path c = path_join (cfg_data_path c) (rs ''schema.json'')"

definition cfg_primary_index_path :: "store_config \<Rightarrow> rstr" where
  "cfg_primary_index_path c = path_join (cfg_index_path c) (rs ''primary.idx'')"



subsection \<open>Settings\<close>




















subsection \<open>The file\<close>








subsection \<open>What the parser guarantees\<close>

definition level_ok :: "storage_config \<Rightarrow> bool" where
  "level_ok c \<longleftrightarrow> sc_compression_level c \<in> {1..9}"





lemma level_ok_default [simp]: "level_ok storage_config_default"
  by (simp add: level_ok_def storage_config_default_def)












subsection \<open>When the parser panics\<close>











lemma omap_Panic_iff [outcome_simps]: "omap f m = Panic \<longleftrightarrow> m = Panic"
  by (cases m) auto

lemma omap_Err_iff [outcome_simps]: "omap f m = Err e \<longleftrightarrow> m = Err e"
  by (cases m) auto

lemma rs_inject [simp]: "rs s = rs t \<longleftrightarrow> s = t"
proof -
  have "inj (of_char :: char \<Rightarrow> nat)" by (rule inj_of_char)
  then show ?thesis by (simp add: rs_def inj_map_eq_map)
qed



declare mul_all.simps [simp del]




















lemma obind_Panic_iff [outcome_simps]: "obind m f = Panic \<longleftrightarrow> m = Panic \<or> (\<exists>x. m = Ok x \<and> f x = Panic)"
  by (cases m) auto

lemma obind_Err_iff [outcome_simps]: "obind m f = Err e \<longleftrightarrow> m = Err e \<or> (\<exists>x. m = Ok x \<and> f x = Err e)"
  by (cases m) auto







text \<open>
  A fill factor of NaN goes through the clamp. The minutes \<open>307445734561825861m\<close> are a panic in a build
  that checks overflows, and 44 seconds in one that does not.
\<close>

lemma nan_is_not_clamped: "f32_clamp 0x3DCCCCCD 0x3F800000 0x7FC00000 = 0x7FC00000"
  by (simp add: f32_clamp_def is_nan32_def)

lemma minutes_wrap:
  "mul_all True 307445734561825861 [60] = Panic" "mul_all False 307445734561825861 [60] = Ok 44"
  by (simp_all add: mul_all.simps mul_u64_def)

end
