(* ===== verification/Store_Engine.thy ===== *)
theory Store_Engine
  imports Store_WalLog Store_Index Store_Secondary Store_Jsonl Store_Config
begin

text \<open>
  The storage engine (\<open>runtime/src/store/engine.rs\<close>) over the files of one store: the binary file, the
  JSON-lines copy, the primary index and the write-ahead log. An operation takes and returns the
  engine and its disk; errors of the operating system are not modelled, errors that the contents of
  the files cause are. A \<open>SharedStoreEngine\<close> is the engine behind a lock: its methods are these, one
  after the other.
\<close>

subsection \<open>State\<close>

text \<open>
  What is on disk in the directory of one store, and in the directory of its log; \<open>None\<close> is a file
  that does not exist.
\<close>

record engine_disk =
  ed_index :: "bytes option"
  ed_data :: "bytes option"
  ed_jsonl :: "bytes option"
  ed_wal :: wal_dir

record cached_object =
  co_index :: u64
  co_version :: u32
  co_uuid :: uuid7
  co_created_at :: u64
  co_updated_at :: u64
  co_deleted_at :: u64
  co_fields :: field_list
  co_dirty :: bool

record engine =
  en_store_type :: rstr
  en_config :: store_config
  en_index :: primary_index
  en_binary :: binary_writer
  en_jsonl :: jsonl_writer
  en_wal :: "wal_writer option"
  en_cache :: "(u64, cached_object) hmap"
  en_next_index :: u64
  en_dirty :: bool
  en_last_checkpoint_lsn :: u64
  en_secondary :: sim

type_synonym store = "engine \<times> engine_disk"

text \<open>
  What a call reads from outside: the milliseconds of the clock when it is read for the object and
  when it is read for the log, a fresh identifier, the standard library's text of a double and the
  hash of the store type.
\<close>

record ambient =
  am_now :: u64
  am_log_now :: u64
  am_uuid :: uuid7
  am_show_f64 :: "u64 \<Rightarrow> rstr"
  am_hash :: "rstr \<Rightarrow> u64"

definition cached_object_new :: "u64 \<Rightarrow> uuid7 \<Rightarrow> field_list \<Rightarrow> cached_object" where
  "cached_object_new now uuid flds = \<lparr> co_index = 0, co_version = 1, co_uuid = uuid,
     co_created_at = now, co_updated_at = now, co_deleted_at = - 1, co_fields = flds, co_dirty = True \<rparr>"

definition from_binary_record :: "binary_record \<Rightarrow> cached_object" where
  "from_binary_record r = \<lparr> co_index = br_index r, co_version = br_version r, co_uuid = br_uuid r,
     co_created_at = br_created_at r, co_updated_at = br_updated_at r, co_deleted_at = br_deleted_at r,
     co_fields = br_fields r, co_dirty = False \<rparr>"

definition co_is_deleted :: "cached_object \<Rightarrow> bool" where
  "co_is_deleted ob \<longleftrightarrow> 0 \<le> sint (co_deleted_at ob)"

subsection \<open>Logging and persisting\<close>

text \<open>An entry gets the next number of the log and is written; under \<open>FSync\<close> it is also flushed.\<close>

definition en_log :: "(u64 \<Rightarrow> wal_entry) \<Rightarrow> store \<Rightarrow> store" where
  "en_log entry = (\<lambda>(e, d). case en_wal e of
       None \<Rightarrow> (e, d)
     | Some w \<Rightarrow> (let (lsn, w) = ww_next_lsn w;
           (w, dir) = ww_write_entry (entry lsn) w (ed_wal d);
           (w, dir) = (if wc_sync_mode (cfg_wal (en_config e)) = FSync then ww_sync w dir else (w, dir))
         in (e\<lparr> en_wal := Some w \<rparr>, d\<lparr> ed_wal := dir \<rparr>)))"

definition file_contents :: "bytes option \<Rightarrow> bytes" where
  "file_contents f = (case f of Some c \<Rightarrow> c | None \<Rightarrow> [])"

definition persist_object :: "ambient \<Rightarrow> cached_object \<Rightarrow> store \<Rightarrow> store" where
  "persist_object am ob = (\<lambda>(e, d).
     let ((binary_offset, binary_len), bw, data) = binary_write_record (co_index ob) (co_version ob)
           (co_uuid ob) (co_created_at ob) (co_updated_at ob) (co_deleted_at ob) (co_fields ob)
           (en_binary e) (file_contents (ed_data d));
         ((jsonl_offset, jsonl_len), jw, jsonl) = jsonl_write_record (am_show_f64 am) (co_index ob)
           (co_version ob) (co_uuid ob) (co_created_at ob) (co_updated_at ob) (co_deleted_at ob) (co_fields ob)
           (en_jsonl e) (file_contents (ed_jsonl d));
         index = (if pi_get_by_index (co_index ob) (en_index e) \<noteq> None
           then snd (pi_update_offsets (co_index ob) binary_offset binary_len jsonl_offset jsonl_len (en_index e))
           else pi_insert ((index_entry_new (co_index ob) (co_uuid ob))\<lparr> ie_binary_offset := binary_offset,
             ie_binary_length := binary_len, ie_json_offset := jsonl_offset, ie_json_length := jsonl_len \<rparr>)
             (en_index e))
     in (e\<lparr> en_binary := bw, en_jsonl := jw, en_index := index \<rparr>, d\<lparr> ed_data := Some data, ed_jsonl := Some jsonl \<rparr>))"

subsection \<open>Reading\<close>

definition en_get :: "u64 \<Rightarrow> store \<Rightarrow> cached_object option io \<times> store" where
  "en_get index = (\<lambda>(e, d).
     if hm_contains index (en_cache e) then (Ok (hm_get index (en_cache e)), (e, d))
     else case pi_get_by_index index (en_index e) of
       None \<Rightarrow> (Ok None, (e, d))
     | Some entry \<Rightarrow>
         (case obind (binary_reader_open (ed_data d))
             (\<lambda>h. binary_read_record (file_contents (ed_data d)) (ie_binary_offset entry)) of
           Ok record \<Rightarrow> (let ob = from_binary_record record in
             (Ok (Some ob), (e\<lparr> en_cache := hm_insert index ob (en_cache e) \<rparr>, d)))
         | Err err \<Rightarrow> (Err err, (e, d))
         | Panic \<Rightarrow> (Panic, (e, d))))"

definition en_get_by_uuid :: "uuid7 \<Rightarrow> store \<Rightarrow> cached_object option io \<times> store" where
  "en_get_by_uuid uuid = (\<lambda>(e, d). case find (\<lambda>(k, ob). co_uuid ob = uuid) (en_cache e) of
       Some (k, ob) \<Rightarrow> (Ok (hm_get (co_index ob) (en_cache e)), (e, d))
     | None \<Rightarrow> (case pi_get_by_uuid uuid (en_index e) of
         Some entry \<Rightarrow> en_get (ie_index entry) (e, d)
       | None \<Rightarrow> (Ok None, (e, d))))"

subsection \<open>Changing\<close>

definition en_create :: "ambient \<Rightarrow> field_list \<Rightarrow> store \<Rightarrow> u64 \<times> store" where
  "en_create am flds s =
     (let (e, d) = s; uuid = am_uuid am; index = en_next_index e;
          e = e\<lparr> en_next_index := index + 1 \<rparr>;
          ob = (cached_object_new (am_now am) uuid flds)\<lparr> co_index := index \<rparr>;
          s = en_log (\<lambda>lsn. wal_entry_insert (am_log_now am) lsn index uuid flds) (e, d);
          (s, ob) = (if ap_enabled (cfg_auto_persist (en_config e))
            then (persist_object am ob s, ob\<lparr> co_dirty := False \<rparr>) else (s, ob));
          (e, d) = s
      in (index, e\<lparr> en_cache := hm_insert index ob (en_cache e),
           en_secondary := sim_on_insert index flds (en_secondary e), en_dirty := True \<rparr>, d))"

text \<open>
  The step \<open>update\<close> and \<open>update_field\<close> share once the object is in the cache: log, change, persist,
  reindex.
\<close>

definition en_replace :: "ambient \<Rightarrow> u64 \<Rightarrow> cached_object \<Rightarrow> field_list \<Rightarrow> store \<Rightarrow> store" where
  "en_replace am index ob flds s =
     (let s = en_log (\<lambda>lsn. wal_entry_update (am_log_now am) lsn index (co_uuid ob) flds) s;
          ob' = ob\<lparr> co_fields := flds, co_updated_at := am_now am, co_version := co_version ob + 1, co_dirty := True \<rparr>;
          (s, ob') = (if ap_enabled (cfg_auto_persist (en_config (fst s)))
            then (persist_object am ob' s, ob'\<lparr> co_dirty := False \<rparr>) else (s, ob'));
          (e, d) = s
      in (e\<lparr> en_cache := hm_insert index ob' (en_cache e),
           en_secondary := sim_on_update index (co_fields ob) flds (en_secondary e), en_dirty := True \<rparr>, d))"

definition en_update :: "ambient \<Rightarrow> u64 \<Rightarrow> field_list \<Rightarrow> store \<Rightarrow> unit io \<times> store" where
  "en_update am index flds s = (case en_get index s of
       (Ok _, s) \<Rightarrow> (Ok (), case hm_get index (en_cache (fst s)) of
           Some ob \<Rightarrow> en_replace am index ob flds s | None \<Rightarrow> s)
     | (Err err, s) \<Rightarrow> (Err err, s)
     | (Panic, s) \<Rightarrow> (Panic, s))"

text \<open>The first field of the name gets the value, or a new field is added.\<close>

fun set_field :: "bytes \<Rightarrow> stored_value \<Rightarrow> field_list \<Rightarrow> field_list" where
  "set_field name v [] = [(name, v)]"
| "set_field name v ((n, w) # flds) = (if n = name then (n, v) # flds else (n, w) # set_field name v flds)"

definition en_update_field :: "ambient \<Rightarrow> u64 \<Rightarrow> bytes \<Rightarrow> stored_value \<Rightarrow> store \<Rightarrow> unit io \<times> store" where
  "en_update_field am index name v s = (case en_get index s of
       (Ok _, s) \<Rightarrow> (Ok (), case hm_get index (en_cache (fst s)) of
           Some ob \<Rightarrow> en_replace am index ob (set_field name v (co_fields ob)) s | None \<Rightarrow> s)
     | (Err err, s) \<Rightarrow> (Err err, s)
     | (Panic, s) \<Rightarrow> (Panic, s))"

definition en_mark_deleted :: "ambient \<Rightarrow> u64 \<Rightarrow> cached_object \<Rightarrow> store \<Rightarrow> store" where
  "en_mark_deleted am index ob s =
     (let (e, d) = en_log (\<lambda>lsn. wal_entry_delete (am_log_now am) lsn index (co_uuid ob)) s;
          ob' = ob\<lparr> co_deleted_at := am_now am, co_updated_at := am_now am, co_version := co_version ob + 1,
            co_dirty := True \<rparr>
      in (e\<lparr> en_cache := hm_insert index ob' (en_cache e), en_index := snd (pi_mark_deleted index (en_index e)),
           en_secondary := sim_on_delete index (co_fields ob) (en_secondary e), en_dirty := True \<rparr>, d))"

definition en_delete :: "ambient \<Rightarrow> u64 \<Rightarrow> store \<Rightarrow> unit io \<times> store" where
  "en_delete am index s = (case en_get index s of
       (Ok _, s) \<Rightarrow> (Ok (), case hm_get index (en_cache (fst s)) of
           Some ob \<Rightarrow> if co_is_deleted ob then s else en_mark_deleted am index ob s
         | None \<Rightarrow> s)
     | (Err err, s) \<Rightarrow> (Err err, s)
     | (Panic, s) \<Rightarrow> (Panic, s))"

subsection \<open>Saving and listing\<close>

definition en_clean :: "u64 \<Rightarrow> engine \<Rightarrow> engine" where
  "en_clean index e = (case hm_get index (en_cache e) of
     Some ob \<Rightarrow> e\<lparr> en_cache := hm_insert index (ob\<lparr> co_dirty := False \<rparr>) (en_cache e) \<rparr> | None \<Rightarrow> e)"

definition en_save_object :: "ambient \<Rightarrow> u64 \<Rightarrow> store \<Rightarrow> store" where
  "en_save_object am index s =
     (let (e, d) = (case hm_get index (en_cache (fst s)) of Some ob \<Rightarrow> persist_object am ob s | None \<Rightarrow> s)
      in (en_clean index e, d))"

definition en_dirty_indices :: "engine \<Rightarrow> u64 list" where
  "en_dirty_indices e = map fst (filter (\<lambda>(idx, ob). co_dirty ob) (en_cache e))"

text \<open>
  The writer has just flushed to its segment file when \<open>commit\<close> rewrites the header, so the file is
  there and the error branch is not reached.
\<close>

definition en_save :: "ambient \<Rightarrow> store \<Rightarrow> unit io \<times> store" where
  "en_save am s =
     (let (e, d) = fold (en_save_object am) (en_dirty_indices (fst s)) s;
          (index, index_file) = pi_save (en_index e) (ed_index d);
          e = e\<lparr> en_index := index \<rparr>; d = d\<lparr> ed_index := index_file \<rparr> in
      case en_wal e of
        None \<Rightarrow> (Ok (), e\<lparr> en_dirty := False \<rparr>, d)
      | Some w \<Rightarrow> (case ww_commit (am_log_now am) w (ed_wal d) of
            Ok (lsn, w, dir) \<Rightarrow> (Ok (), e\<lparr> en_wal := Some w, en_dirty := False \<rparr>, d\<lparr> ed_wal := dir \<rparr>)
          | Err err \<Rightarrow> (Err err, e, d)
          | Panic \<Rightarrow> (Panic, e, d)))"

definition en_checkpoint :: "ambient \<Rightarrow> store \<Rightarrow> unit io \<times> store" where
  "en_checkpoint am s = (case en_save am s of
       (Ok u, e, d) \<Rightarrow> (Ok (), (case en_wal e of
           None \<Rightarrow> (e, d)
         | Some w \<Rightarrow> (let (lsn, w, dir) = ww_checkpoint (am_log_now am) w (ed_wal d) in
             (e\<lparr> en_wal := Some w, en_last_checkpoint_lsn := lsn \<rparr>,
              d\<lparr> ed_wal := ww_truncate_before lsn w dir \<rparr>))))
     | r \<Rightarrow> r)"

definition en_close :: "ambient \<Rightarrow> store \<Rightarrow> unit io \<times> store" where
  "en_close am s = en_save am s"

definition en_all :: "engine \<Rightarrow> u64 list" where
  "en_all e = remdups_adj (sort
     (map fst (filter (\<lambda>(idx, ob). \<not> co_is_deleted ob) (en_cache e)) @
      filter (\<lambda>i. \<not> hm_contains i (en_cache e) \<and>
         (case pi_get_by_index i (en_index e) of Some entry \<Rightarrow> \<not> ie_is_deleted entry | None \<Rightarrow> False))
        (map of_nat [1..<unat (en_next_index e)])))"

definition en_count :: "engine \<Rightarrow> u64" where
  "en_count e = of_nat (length (en_all e))"

record store_stats =
  ss_store_type :: rstr
  ss_total_objects :: u64
  ss_cached_objects :: u64
  ss_dirty_objects :: u64
  ss_binary_size :: u64
  ss_jsonl_size :: u64

definition en_stats :: "engine \<Rightarrow> store_stats" where
  "en_stats e = \<lparr> ss_store_type = en_store_type e, ss_total_objects = en_next_index e - 1,
     ss_cached_objects = of_nat (length (en_cache e)),
     ss_dirty_objects = of_nat (length (filter (\<lambda>(k, ob). co_dirty ob) (en_cache e))),
     ss_binary_size = bw_write_offset (en_binary e), ss_jsonl_size = jw_write_offset (en_jsonl e) \<rparr>"

subsection \<open>Secondary indexes\<close>

definition en_create_secondary_index :: "bytes \<Rightarrow> secondary_index_kind \<Rightarrow> engine \<Rightarrow> engine io" where
  "en_create_secondary_index field_name kind e =
     omap (\<lambda>sim. e\<lparr> en_secondary := sim_rebuild
         (map (\<lambda>(id, ob). (id, co_fields ob, co_is_deleted ob)) (en_cache e)) sim \<rparr>)
       (sim_create_index field_name kind (en_secondary e))"

definition en_drop_secondary_index :: "bytes \<Rightarrow> engine \<Rightarrow> bool \<times> engine" where
  "en_drop_secondary_index field_name e =
     (let (r, sim) = sim_drop_index field_name (en_secondary e) in (r, e\<lparr> en_secondary := sim \<rparr>))"

definition en_find_by_field :: "bytes \<Rightarrow> stored_value \<Rightarrow> engine \<Rightarrow> u64 list" where
  "en_find_by_field field_name v e = or_else (sim_find_eq field_name v (en_secondary e)) []"

definition en_find_by_field_range :: "bytes \<Rightarrow> stored_value \<Rightarrow> stored_value \<Rightarrow> engine \<Rightarrow> u64 list io" where
  "en_find_by_field_range field_name lo hi e = or_else (sim_find_range field_name lo hi (en_secondary e)) (Ok [])"

definition en_indexed_fields :: "engine \<Rightarrow> bytes list" where
  "en_indexed_fields e = sim_indexed_fields (en_secondary e)"

subsection \<open>Recovery\<close>

definition replay_wal_entry :: "wal_entry \<Rightarrow> engine \<Rightarrow> unit io \<times> engine" where
  "replay_wal_entry entry e = (let index = we_index entry; ts = we_timestamp_ms entry in
     case we_op_type entry of
       OpInsert \<Rightarrow> (case wal_parse_payload entry of
           Ok flds \<Rightarrow> (let ob = \<lparr> co_index = index, co_version = 1, co_uuid = we_uuid entry,
                 co_created_at = ts, co_updated_at = ts, co_deleted_at = - 1, co_fields = flds, co_dirty = False \<rparr>;
               e = e\<lparr> en_cache := hm_insert index ob (en_cache e),
                 en_secondary := sim_on_insert index flds (en_secondary e) \<rparr> in
             (Ok (), if en_next_index e \<le> index then e\<lparr> en_next_index := index + 1 \<rparr> else e))
         | Err err \<Rightarrow> (Err err, e) | Panic \<Rightarrow> (Panic, e))
     | OpUpdate \<Rightarrow> (case wal_parse_payload entry of
           Ok flds \<Rightarrow> (Ok (), case hm_get index (en_cache e) of
               Some ob \<Rightarrow> e\<lparr> en_cache := hm_insert index (ob\<lparr> co_fields := flds, co_updated_at := ts,
                     co_version := co_version ob + 1 \<rparr>) (en_cache e),
                   en_secondary := sim_on_update index (co_fields ob) flds (en_secondary e) \<rparr>
             | None \<Rightarrow> e)
         | Err err \<Rightarrow> (Err err, e) | Panic \<Rightarrow> (Panic, e))
     | OpDelete \<Rightarrow> (Ok (), case hm_get index (en_cache e) of
           Some ob \<Rightarrow> e\<lparr> en_cache := hm_insert index (ob\<lparr> co_deleted_at := ts \<rparr>) (en_cache e),
               en_secondary := sim_on_delete index (co_fields ob) (en_secondary e) \<rparr>
         | None \<Rightarrow> e)
     | OpCommit \<Rightarrow> (Ok (), e)
     | OpCheckpoint \<Rightarrow> (Ok (), e\<lparr> en_last_checkpoint_lsn := we_lsn entry \<rparr>))"

text \<open>
  The loop of \<open>recover\<close> skips the iterator's errors, after which the iterator is where it was
  (\<open>wal_iter_stuck_on_corruption\<close>): it may not end, and then has no value.
\<close>

partial_function (option) recover_loop :: "(nat \<Rightarrow> nat) \<Rightarrow> wal_iter \<Rightarrow> engine \<Rightarrow> (unit io \<times> engine) option" where
  "recover_loop rd it e = (case wal_iter_next rd it of
       (None, it) \<Rightarrow> Some (Ok (), e)
     | (Some (Ok entry), it) \<Rightarrow> (case replay_wal_entry entry e of
           (Ok u, e) \<Rightarrow> recover_loop rd it e
         | (Err err, e) \<Rightarrow> Some (Err err, e)
         | (Panic, e) \<Rightarrow> Some (Panic, e))
     | (Some (Err err), it) \<Rightarrow> recover_loop rd it e
     | (Some Panic, it) \<Rightarrow> Some (Panic, e))"

definition en_recover :: "(nat \<Rightarrow> nat) \<Rightarrow> store \<Rightarrow> (unit io \<times> engine) option" where
  "en_recover rd = (\<lambda>(e, d). if en_wal e = None then Some (Ok (), e)
     else recover_loop rd (wal_entries_from (en_last_checkpoint_lsn e) (ed_wal d)) e)"

text \<open>\<open>open\<close>, after which the disk has the files it created.\<close>

definition en_open :: "(nat \<Rightarrow> nat) \<Rightarrow> ambient \<Rightarrow> rstr \<Rightarrow> store_config \<Rightarrow> engine_disk \<Rightarrow> (engine io \<times> engine_disk) option" where
  "en_open rd am store_type config d = (let hash = am_hash am store_type in
     case pi_open (ed_index d) of
       Err err \<Rightarrow> Some (Err err, d) | Panic \<Rightarrow> Some (Panic, d)
     | Ok index \<Rightarrow> (case binary_writer_open (ed_data d) hash of
         Err err \<Rightarrow> Some (Err err, d) | Panic \<Rightarrow> Some (Panic, d)
       | Ok (bw, data) \<Rightarrow>
           (let (jw, jsonl) = jsonl_writer_open (ed_jsonl d);
                (wal, dir) = (if wc_enabled (cfg_wal config)
                  then (let (w, dir) = ww_open hash (ed_wal d) in (Some w, dir)) else (None, ed_wal d));
                d = d\<lparr> ed_data := Some data, ed_jsonl := Some jsonl, ed_wal := dir \<rparr>;
                e = \<lparr> en_store_type = store_type, en_config = config, en_index = index, en_binary = bw,
                  en_jsonl = jw, en_wal = wal, en_cache = [], en_next_index = of_nat (pi_len index) + 1,
                  en_dirty = False, en_last_checkpoint_lsn = 0, en_secondary = [] \<rparr>
            in map_option (\<lambda>(r, e). (omap (\<lambda>u. e) r, d)) (en_recover rd (e, d)))))"

subsection \<open>Compaction of the log\<close>

definition is_log_file :: "string \<Rightarrow> bool" where
  "is_log_file name \<longleftrightarrow> take 4 name = ''wal-'' \<and> 4 \<le> length name \<and> drop (length name - 4) name = ''.log''"

definition total_wal_size :: "wal_dir \<Rightarrow> u64" where
  "total_wal_size dir = (\<Sum>(name, c) \<leftarrow> filter (\<lambda>(name, c). is_log_file name) dir. of_nat (length c))"

definition latest_insert :: "wal_entry \<Rightarrow> (u64, wal_entry) hmap \<Rightarrow> (u64, wal_entry) hmap" where
  "latest_insert entry latest = (case we_op_type entry of
       OpCommit \<Rightarrow> latest | OpCheckpoint \<Rightarrow> latest
     | OpDelete \<Rightarrow> hm_insert (we_index entry) entry latest
     | _ \<Rightarrow> (if (case hm_get (we_index entry) latest of
           Some existing \<Rightarrow> we_lsn existing < we_lsn entry | None \<Rightarrow> True)
         then hm_insert (we_index entry) entry latest else latest))"

partial_function (option) latest_loop ::
    "(nat \<Rightarrow> nat) \<Rightarrow> wal_iter \<Rightarrow> (u64, wal_entry) hmap \<Rightarrow> (u64, wal_entry) hmap io option" where
  "latest_loop rd it latest = (case wal_iter_next rd it of
       (None, it) \<Rightarrow> Some (Ok latest)
     | (Some (Ok entry), it) \<Rightarrow> latest_loop rd it (latest_insert entry latest)
     | (Some (Err err), it) \<Rightarrow> latest_loop rd it latest
     | (Some Panic, it) \<Rightarrow> Some Panic)"

definition ww_rewrite :: "wal_entry \<Rightarrow> wal_writer \<times> wal_dir \<Rightarrow> wal_writer \<times> wal_dir" where
  "ww_rewrite entry = (\<lambda>(w, dir). let (lsn, w) = ww_next_lsn w in ww_write_entry (entry\<lparr> we_lsn := lsn \<rparr>) w dir)"

definition en_compact_wal :: "(nat \<Rightarrow> nat) \<Rightarrow> ambient \<Rightarrow> store \<Rightarrow> ((u64 \<times> u64) io \<times> store) option" where
  "en_compact_wal rd am s = (case en_save am s of
       (Err err, s) \<Rightarrow> Some (Err err, s) | (Panic, s) \<Rightarrow> Some (Panic, s)
     | (Ok u, e, d) \<Rightarrow> (case en_wal e of
         None \<Rightarrow> Some (Ok (0, 0), e, d)
       | Some w \<Rightarrow> (let old_size = total_wal_size (ed_wal d) in
           if old_size = 0 then Some (Ok (0, 0), e, d)
           else map_option (\<lambda>r. case r of
               Err err \<Rightarrow> (Err err, e, d) | Panic \<Rightarrow> (Panic, e, d)
             | Ok latest \<Rightarrow>
                 (let kept = filter (\<lambda>(idx, entry). we_op_type entry \<noteq> OpDelete) (sort_key fst latest);
                      dir = filter (\<lambda>(name, c). \<not> is_log_file name) (snd (ww_flush w (ed_wal d)));
                      (w, dir) = fold ww_rewrite (map snd kept) (ww_open (am_hash am (en_store_type e)) dir)
                  in case ww_commit (am_log_now am) w dir of
                      Ok (lsn, w, dir) \<Rightarrow> (Ok (old_size, total_wal_size dir),
                        e\<lparr> en_wal := Some w \<rparr>, d\<lparr> ed_wal := dir \<rparr>)
                    | Err err \<Rightarrow> (Err err, e\<lparr> en_wal := None \<rparr>, d\<lparr> ed_wal := dir \<rparr>)
                    | Panic \<Rightarrow> (Panic, e\<lparr> en_wal := None \<rparr>, d\<lparr> ed_wal := dir \<rparr>)))
             (latest_loop rd (wal_entries_from 0 (ed_wal d)) []))))"

end
