(* ===== verification/Store_EngineInv.thy ===== *)
theory Store_EngineInv
  imports Store_Engine
begin

text \<open>
  The invariant of a storage engine whose log is enabled and flushed at every entry: the cache is what
  replaying the log gives, the data files mention only numbers that were given out, and the log has
  one segment. The parts of an operation (logging, persisting, replaying) keep their shares of it.
\<close>

subsection \<open>Objects as the log describes them\<close>

text \<open>An object as a client sees it: its identifier, its fields and whether it is deleted.\<close>

type_synonym obj_view = "uuid7 \<times> field_list \<times> bool"
type_synonym store_view = "u64 \<rightharpoonup> obj_view"

definition co_view :: "cached_object \<Rightarrow> obj_view" where
  "co_view ob = (co_uuid ob, co_fields ob, co_is_deleted ob)"

definition cache_view :: "(u64, cached_object) hmap \<Rightarrow> store_view" where
  "cache_view c i = map_option co_view (hm_get i c)"

text \<open>What one log entry, and a whole log, do to the objects.\<close>

definition entry_view :: "wal_entry \<Rightarrow> store_view \<Rightarrow> store_view" where
  "entry_view en v = (let i = we_index en in case we_op_type en of
       OpInsert \<Rightarrow> (case wal_parse_payload en of Ok flds \<Rightarrow> v(i \<mapsto> (we_uuid en, flds, False)) | _ \<Rightarrow> v)
     | OpUpdate \<Rightarrow> (case wal_parse_payload en of
         Ok flds \<Rightarrow> v(i := map_option (\<lambda>(u, f, x). (u, flds, x)) (v i)) | _ \<Rightarrow> v)
     | OpDelete \<Rightarrow> v(i := map_option (\<lambda>(u, f, x). (u, f, True)) (v i))
     | _ \<Rightarrow> v)"

text \<open>Entries recovery accepts: well-formed, with a payload that parses and a time that fits an \<open>i64\<close>.\<close>

definition replayable :: "wal_entry \<Rightarrow> bool" where
  "replayable en \<longleftrightarrow> wal_entry_ok en \<and> 0 \<le> sint (we_timestamp_ms en) \<and>
     (we_op_type en \<in> {OpInsert, OpUpdate} \<longrightarrow> (\<exists>flds. wal_parse_payload en = Ok flds))"

lemma replay_wal_entry_view:
  assumes "replayable en"
  shows "\<exists>e'. replay_wal_entry en e = (Ok (), e') \<and>
    cache_view (en_cache e') = entry_view en (cache_view (en_cache e)) \<and>
    en_next_index e' = (if we_op_type en = OpInsert \<and> en_next_index e \<le> we_index en
      then we_index en + 1 else en_next_index e) \<and>
    en_store_type e' = en_store_type e \<and> en_config e' = en_config e \<and> en_index e' = en_index e \<and>
    en_binary e' = en_binary e \<and> en_jsonl e' = en_jsonl e \<and> en_wal e' = en_wal e"
proof (cases "we_op_type en")
  case OpInsert
  with assms obtain flds where "wal_parse_payload en = Ok flds"
    by (auto simp: replayable_def)
  with OpInsert show ?thesis
    by (auto simp: replay_wal_entry_def entry_view_def Let_def cache_view_def co_view_def co_is_deleted_def fun_eq_iff)
next
  case OpUpdate
  with assms obtain flds where "wal_parse_payload en = Ok flds"
    by (auto simp: replayable_def)
  with OpUpdate show ?thesis
    by (auto simp: replay_wal_entry_def entry_view_def Let_def cache_view_def co_view_def co_is_deleted_def
        fun_eq_iff split: option.split)
next
  case OpDelete
  with assms show ?thesis
    by (auto simp: replay_wal_entry_def entry_view_def Let_def cache_view_def co_view_def co_is_deleted_def
        replayable_def fun_eq_iff split: option.split)
qed (simp_all add: replay_wal_entry_def entry_view_def Let_def)

text \<open>The cache recovery leaves: keyed by the objects' own numbers, clean, and with data that fit.\<close>

definition cache_ok :: "(field_list \<Rightarrow> bool) \<Rightarrow> (u64, cached_object) hmap \<Rightarrow> bool" where
  "cache_ok fit c \<longleftrightarrow> hm_keys_ok c \<and>
     (\<forall>i ob. hm_get i c = Some ob \<longrightarrow> co_index ob = i \<and> length (co_uuid ob) = 16 \<and> fit (co_fields ob))"

lemma cache_ok_insert:
  "cache_ok fit c \<Longrightarrow> co_index ob = i \<Longrightarrow> length (co_uuid ob) = 16 \<Longrightarrow> fit (co_fields ob) \<Longrightarrow>
    cache_ok fit (hm_insert i ob c)"
  by (simp add: cache_ok_def)

lemma cache_okD:
  "cache_ok fit c \<Longrightarrow> hm_get i c = Some ob \<Longrightarrow> co_index ob = i"
  "cache_ok fit c \<Longrightarrow> hm_get i c = Some ob \<Longrightarrow> length (co_uuid ob) = 16"
  "cache_ok fit c \<Longrightarrow> hm_get i c = Some ob \<Longrightarrow> fit (co_fields ob)"
  by (simp_all add: cache_ok_def)

lemma cache_ok_Nil [simp]: "cache_ok fit []"
  by (simp add: cache_ok_def)

lemma replay_cache_ok:
  assumes "replayable en" "cache_ok fit (en_cache e)" "replay_wal_entry en e = (Ok (), e')"
    and "\<And>flds. we_op_type en \<in> {OpInsert, OpUpdate} \<Longrightarrow> wal_parse_payload en = Ok flds \<Longrightarrow> fit flds"
  shows "cache_ok fit (en_cache e')"
proof -
  have u: "length (we_uuid en) = 16"
    using assms(1) by (simp add: replayable_def wal_entry_ok_def)
  have ob: "co_index ob = we_index en \<and> length (co_uuid ob) = 16 \<and> fit (co_fields ob)"
    if "hm_get (we_index en) (en_cache e) = Some ob" for ob
    using cache_okD [OF assms(2) that] by simp
  show ?thesis
    using assms(2,3,4) u
    by (auto simp: replay_wal_entry_def Let_def intro!: cache_ok_insert dest!: ob
        split: wal_op.splits outcome.splits option.splits if_splits)
qed

subsection \<open>The loop of recovery\<close>

lemma recover_loop_log:
  assumes "wal_iter_rest it es" "wi_start_lsn it = 0" "\<forall>en \<in> set es. replayable en"
  shows "recover_loop rd it e = Some (Ok (), fold (\<lambda>en e. snd (replay_wal_entry en e)) es e)"
  using assms
proof (induction es arbitrary: it e)
  case Nil
  then have "fst (wal_iter_next rd it) = None"
    using wal_iter_next_rest [OF Nil(1), of rd] by (auto split: prod.splits)
  then show ?case
    by (subst recover_loop.simps) (auto split: prod.splits)
next
  case (Cons en es)
  obtain it' where it': "wal_iter_next rd it = (Some (Ok en), it')" "wal_iter_rest it' es" "wi_start_lsn it' = 0"
    using wal_iter_next_rest [OF Cons.prems(1), of rd] Cons.prems(2) by (auto split: prod.splits)
  obtain e' where "replay_wal_entry en e = (Ok (), e')"
    using replay_wal_entry_view [of en e] Cons.prems(3) by auto
  with it' Cons.IH [of it' e'] Cons.prems(3) show ?case
    by (subst recover_loop.simps) simp
qed

definition replay_log :: "wal_entry list \<Rightarrow> engine \<Rightarrow> engine" where
  "replay_log es e = fold (\<lambda>en e. snd (replay_wal_entry en e)) es e"

lemma replay_log_view:
  assumes "\<forall>en \<in> set es. replayable en"
  shows "cache_view (en_cache (replay_log es e)) = fold entry_view es (cache_view (en_cache e)) \<and>
    en_store_type (replay_log es e) = en_store_type e \<and> en_config (replay_log es e) = en_config e \<and>
    en_index (replay_log es e) = en_index e \<and> en_binary (replay_log es e) = en_binary e \<and>
    en_jsonl (replay_log es e) = en_jsonl e \<and> en_wal (replay_log es e) = en_wal e"
  using assms
proof (induction es arbitrary: e)
  case (Cons en es)
  then show ?case
    using replay_wal_entry_view [of en e] Cons.IH [of "snd (replay_wal_entry en e)"]
    by (auto simp: replay_log_def)
qed (simp add: replay_log_def)

lemma replay_log_cache_ok:
  assumes "\<forall>en \<in> set es. replayable en" "cache_ok fit (en_cache e)"
    and "\<forall>en \<in> set es. \<forall>flds. we_op_type en \<in> {OpInsert, OpUpdate} \<longrightarrow> wal_parse_payload en = Ok flds \<longrightarrow> fit flds"
  shows "cache_ok fit (en_cache (replay_log es e))"
  using assms
proof (induction es arbitrary: e)
  case (Cons en es)
  obtain e' where e': "replay_wal_entry en e = (Ok (), e')"
    using replay_wal_entry_view [of en e] Cons.prems(1) by auto
  have "cache_ok fit (en_cache e')"
    using replay_cache_ok [OF _ Cons.prems(2) e'] Cons.prems(1,3) by auto
  then show ?case
    using Cons.IH [of e'] Cons.prems(1,3) e' by (simp add: replay_log_def)
qed (simp add: replay_log_def)

text \<open>The numbers the log's insertions gave out.\<close>

definition log_indices :: "wal_entry list \<Rightarrow> u64 set" where
  "log_indices es = we_index ` {en \<in> set es. we_op_type en = OpInsert}"

lemma replay_log_next:
  assumes "\<forall>en \<in> set es. replayable en" "log_indices es \<subseteq> {1..<m}" "en_next_index e \<le> m"
    and "\<forall>i \<in> done. i < en_next_index e"
  shows "en_next_index (replay_log es e) \<le> m \<and> (\<forall>i \<in> done \<union> log_indices es. i < en_next_index (replay_log es e))"
  using assms
proof (induction es arbitrary: e "done")
  case (Cons en es)
  obtain e' where e': "replay_wal_entry en e = (Ok (), e')"
    and next_e': "en_next_index e' = (if we_op_type en = OpInsert \<and> en_next_index e \<le> we_index en
      then we_index en + 1 else en_next_index e)"
    using replay_wal_entry_view [of en e] Cons.prems(1) by auto
  define ins where "ins = (if we_op_type en = OpInsert then {we_index en} else {})"
  have idx: "log_indices (en # es) = ins \<union> log_indices es"
    by (auto simp: log_indices_def ins_def)
  have le: "we_index en + 1 \<le> m" "we_index en < we_index en + 1" if "we_op_type en = OpInsert"
  proof -
    have "we_index en < m"
      using that Cons.prems(2) by (auto simp: idx ins_def)
    then show "we_index en + 1 \<le> m" "we_index en < we_index en + 1"
      using unat_lt_2p [of m] by (auto simp: word_less_nat_alt word_le_nat_alt unat_word_ariths inc_le)
  qed
  have "en_next_index e' \<le> m" "\<forall>i \<in> done \<union> ins. i < en_next_index e'"
    using Cons.prems(3,4) le by (auto simp: next_e' ins_def)
  with Cons.IH [of e' "done \<union> ins"] Cons.prems(1,2) show ?case
    by (simp add: replay_log_def e' idx Un_assoc)
qed (simp add: replay_log_def log_indices_def)

subsection \<open>The data files\<close>

definition fields_fit :: "field_list \<Rightarrow> bool" where
  "fields_fit flds \<longleftrightarrow> length flds < 2 ^ 16 \<and> (\<forall>f \<in> set flds. wal_field_ok f) \<and>
     72 + length (concat (map field_bytes flds)) < 2 ^ 32 \<and> length (serialize_fields flds) < 2 ^ 32"

lemma fields_fit_record:
  "fields_fit flds \<Longrightarrow> length uuid = 16 \<Longrightarrow> length file < 2 ^ 63 \<Longrightarrow> record_fits uuid flds file"
  by (fastforce simp: fields_fit_def record_fits_def wal_field_ok_def field_ok_def)

text \<open>An index whose entries are for numbers in \<open>K\<close>.\<close>

definition pi_within :: "u64 set \<Rightarrow> primary_index \<Rightarrow> bool" where
  "pi_within K pi \<longleftrightarrow> index_header_ok (pi_header pi) \<and> hm_keys_ok (pi_by_index pi) \<and>
     (\<forall>i en. hm_get i (pi_by_index pi) = Some en \<longrightarrow> i \<in> K \<and> ie_index en = i \<and> length (ie_uuid en) = 16)"

lemma pi_within_insert:
  "pi_within K pi \<Longrightarrow> ie_index en \<in> K \<Longrightarrow> length (ie_uuid en) = 16 \<Longrightarrow> pi_within K (pi_insert en pi)"
  by (simp add: pi_within_def pi_insert_def)

lemma pi_within_modify:
  "pi_within K pi \<Longrightarrow> (\<And>en. ie_index (f en) = ie_index en \<and> ie_uuid (f en) = ie_uuid en) \<Longrightarrow>
    pi_within K (snd (pi_modify i f pi))"
  by (auto simp: pi_within_def pi_modify_def split: option.splits)

lemma pi_within_update_offsets: "pi_within K pi \<Longrightarrow> pi_within K (snd (pi_update_offsets i a b c d pi))"
  unfolding pi_update_offsets_def by (rule pi_within_modify) simp_all

lemma pi_within_mark_deleted: "pi_within K pi \<Longrightarrow> pi_within K (snd (pi_mark_deleted i pi))"
  unfolding pi_mark_deleted_def by (rule pi_within_modify) (simp_all add: ie_mark_deleted_def)

lemma pi_within_mono: "pi_within K pi \<Longrightarrow> K \<subseteq> L \<Longrightarrow> pi_within L pi"
  by (auto simp: pi_within_def)

lemma pi_within_len:
  assumes "pi_within K pi" "finite K"
  shows "pi_len pi \<le> card K"
proof -
  have "set (map fst (pi_by_index pi)) \<subseteq> K" "distinct (map fst (pi_by_index pi))"
    using assms(1) by (auto simp: pi_within_def hm_keys_ok_def hm_get_Some)
  then have "length (map fst (pi_by_index pi)) \<le> card K"
    using assms(2) by (metis card_mono distinct_card)
  then show ?thesis
    by (simp add: pi_len_def)
qed

text \<open>An index file that opens, to entries for numbers in \<open>K\<close>.\<close>

definition index_file_within :: "u64 set \<Rightarrow> bytes option \<Rightarrow> bool" where
  "index_file_within K f \<longleftrightarrow> (\<exists>pi. pi_open f = Ok pi \<and> pi_within K pi)"

lemma index_file_within_None: "index_file_within K None"
  by (simp add: index_file_within_def pi_open_def pi_within_def index_header_new_def index_header_ok_def)

lemma pi_load_saved:
  assumes "index_header_ok h" "unat (ih_entry_count h) = length es" "\<forall>e \<in> set es. length (ie_uuid e) = 16"
  shows "pi_load (index_header_serialize h @ concat (map index_entry_serialize es)) =
    Ok \<lparr> pi_header = h, pi_by_index = fold (\<lambda>e. hm_insert (ie_index e) e) es [],
         pi_uuid_to_index = fold (\<lambda>e. hm_insert (ie_uuid e) (ie_index e)) es [], pi_dirty = False \<rparr>"
proof -
  let ?file = "index_header_serialize h @ concat (map index_entry_serialize es)"
  have "read_exact_at ?file 0 HEADER_SIZE = Ok (index_header_serialize h)"
    using index_header.enc_size [OF assms(1)] by (simp add: read_exact_at_def slice_here)
  moreover have "index_header_deserialize (index_header_serialize h) = Ok h"
    by (rule index_header.dec_enc [OF assms(1)])
  moreover have "drop HEADER_SIZE ?file = concat (map index_entry_serialize es)"
    using index_header.enc_size [OF assms(1)] by simp
  ultimately show ?thesis
    using assms(2) pi_load_entries_serialize [OF assms(3)] by (simp add: pi_load_def)
qed

lemma pi_within_save:
  assumes "pi_within K pi" "finite K" "card K < 2 ^ 63" "index_file_within K f" "pi_save pi f = (pi', f')"
  shows "pi_within K pi'" "index_file_within K f'"
proof -
  show "pi_within K pi'"
    using assms(1,5) by (auto simp: pi_save_def Let_def pi_within_def index_header_ok_def split: if_splits)
  show "index_file_within K f'"
  proof (cases "pi_dirty pi")
    case False
    with assms(4,5) show ?thesis by (simp add: pi_save_def)
  next
    case True
    define h where "h = (pi_header pi)\<lparr> ih_entry_count := of_nat (length (pi_by_index pi)) \<rparr>"
    define es where "es = sort_key ie_index (map snd (pi_by_index pi))"
    have f': "f' = Some (index_header_serialize h @ concat (map index_entry_serialize es))"
      using True assms(5) by (auto simp: pi_save_def Let_def h_def es_def)
    have ent: "ie_index e \<in> K \<and> length (ie_uuid e) = 16 \<and> (ie_index e, e) \<in> set (pi_by_index pi)"
      if "e \<in> set es" for e
      using that assms(1) by (force simp: es_def pi_within_def hm_get_Some)
    have "map fst (pi_by_index pi) = map ie_index (map snd (pi_by_index pi))"
      using assms(1) by (auto simp: pi_within_def hm_get_Some)
    then have "distinct (map ie_index (map snd (pi_by_index pi)))"
      using assms(1) by (simp only: pi_within_def hm_keys_ok_def)
    moreover have "mset (map ie_index es) = mset (map ie_index (map snd (pi_by_index pi)))"
      by (simp only: es_def mset_map mset_sort)
    ultimately have dist: "distinct (map ie_index es)"
      by (metis mset_eq_imp_distinct_iff)
    have "unat (ih_entry_count h) = length es"
      using pi_within_len [OF assms(1,2)] assms(3) by (simp add: h_def es_def pi_len_def unat_of_nat_u64)
    moreover have "index_header_ok h"
      using assms(1) by (simp add: h_def pi_within_def index_header_ok_def)
    ultimately have load: "pi_open f' = Ok \<lparr> pi_header = h, pi_by_index = fold (\<lambda>e. hm_insert (ie_index e) e) es [],
         pi_uuid_to_index = fold (\<lambda>e. hm_insert (ie_uuid e) (ie_index e)) es [], pi_dirty = False \<rparr>"
      using pi_load_saved [of h es] ent by (simp add: pi_open_def f')
    have keys: "hm_keys_ok (fold (\<lambda>e. hm_insert (ie_index e) e) es m)" if "hm_keys_ok m" for m
      using that by (induction es arbitrary: m) auto
    have get: "hm_get i (fold (\<lambda>e. hm_insert (ie_index e) e) es []) = Some en \<Longrightarrow>
        i \<in> K \<and> ie_index en = i \<and> length (ie_uuid en) = 16" for i en
      using hm_get_fold_insert [OF dist, of i "\<lambda>e. e" "[]"] ent
      by (auto split: option.splits dest!: map_of_SomeD)
    show ?thesis
      using load keys get \<open>index_header_ok h\<close> by (auto simp: index_file_within_def pi_within_def)
  qed
qed

subsection \<open>Persisting\<close>

definition data_len :: "store \<Rightarrow> nat" where
  "data_len s = length (file_contents (ed_data (snd s)))"

definition data_ok :: "u64 \<Rightarrow> u64 set \<Rightarrow> store \<Rightarrow> bool" where
  "data_ok hash K s \<longleftrightarrow> pi_within K (en_index (fst s)) \<and> index_file_within K (ed_index (snd s)) \<and>
     (\<exists>file. ed_data (snd s) = Some file \<and> writer_ok (en_binary (fst s)) file) \<and>
     bh_store_type_hash (bw_header (en_binary (fst s))) = hash"

text \<open>The parts of a store that persisting leaves alone.\<close>

definition same_objects :: "store \<Rightarrow> store \<Rightarrow> bool" where
  "same_objects s s' \<longleftrightarrow> en_store_type (fst s') = en_store_type (fst s) \<and> en_config (fst s') = en_config (fst s) \<and>
     en_wal (fst s') = en_wal (fst s) \<and> en_next_index (fst s') = en_next_index (fst s) \<and>
     ed_wal (snd s') = ed_wal (snd s)"

lemma same_objects_refl [simp]: "same_objects s s"
  by (simp add: same_objects_def)

lemma same_objects_trans: "same_objects s s' \<Longrightarrow> same_objects s' s'' \<Longrightarrow> same_objects s s''"
  by (simp add: same_objects_def)

lemma persist_object_cases:
  obtains bw jw idx data jsonl bl jl len
  where "persist_object am ob (e, d) = (e\<lparr> en_binary := bw, en_jsonl := jw, en_index := idx \<rparr>,
      d\<lparr> ed_data := Some data, ed_jsonl := Some jsonl \<rparr>)"
    and "binary_write_record (co_index ob) (co_version ob) (co_uuid ob) (co_created_at ob) (co_updated_at ob)
      (co_deleted_at ob) (co_fields ob) (en_binary e) (file_contents (ed_data d)) = ((bl, len), bw, data)"
    and "idx = (if pi_get_by_index (co_index ob) (en_index e) \<noteq> None
      then snd (pi_update_offsets (co_index ob) bl len (fst jl) (snd jl) (en_index e))
      else pi_insert ((index_entry_new (co_index ob) (co_uuid ob))\<lparr> ie_binary_offset := bl,
        ie_binary_length := len, ie_json_offset := fst jl, ie_json_length := snd jl \<rparr>) (en_index e))"
proof -
  obtain bl len bw data where b: "binary_write_record (co_index ob) (co_version ob) (co_uuid ob) (co_created_at ob)
      (co_updated_at ob) (co_deleted_at ob) (co_fields ob) (en_binary e) (file_contents (ed_data d)) = ((bl, len), bw, data)"
    by (metis prod.exhaust)
  obtain jl jw jsonl where j: "jsonl_write_record (am_show_f64 am) (co_index ob) (co_version ob) (co_uuid ob)
      (co_created_at ob) (co_updated_at ob) (co_deleted_at ob) (co_fields ob) (en_jsonl e)
      (file_contents (ed_jsonl d)) = (jl, jw, jsonl)"
    by (metis prod.exhaust)
  show thesis
    by (rule that [OF _ b refl, where jl = jl and jw = jw and jsonl = jsonl]) (simp add: persist_object_def b j Let_def split: prod.split)
qed

lemma binary_write_record_grows:
  "binary_write_record i v u a b c flds w file = (r, w', file') \<Longrightarrow> length file \<le> length file'"
  by (drule arg_cong [of _ _ "\<lambda>x. length (snd (snd x))"]) (simp add: binary_write_record_def Let_def,
    linarith)

lemma persist_object_len: "data_len s \<le> data_len (persist_object am ob s)"
proof -
  obtain e d where s: "s = (e, d)" by (cases s)
  show ?thesis
    unfolding s
    by (rule persist_object_cases [of am ob e d]) (auto simp: data_len_def file_contents_def dest: binary_write_record_grows)
qed

lemma persist_object_same:
  "same_objects s (persist_object am ob s)" "en_cache (fst (persist_object am ob s)) = en_cache (fst s)"
  by (cases s; rule persist_object_cases [of am ob "fst s" "snd s"]; simp add: same_objects_def)+

lemma persist_object_ok:
  assumes "data_ok hash K s" "data_len s < 2 ^ 63" "co_index ob \<in> K" "fields_fit (co_fields ob)" "length (co_uuid ob) = 16"
  shows "data_ok hash K (persist_object am ob s)"
proof -
  obtain e d where s: "s = (e, d)" by (cases s)
  obtain f0 where f0: "ed_data d = Some f0" "writer_ok (en_binary e) f0"
    using assms(1) by (auto simp: data_ok_def s)
  have fits: "record_fits (co_uuid ob) (co_fields ob) f0"
    using assms(2,4,5) f0(1) by (intro fields_fit_record) (simp_all add: data_len_def s file_contents_def)
  show ?thesis
    unfolding s
  proof (rule persist_object_cases [of am ob e d])
    fix bw jw idx data jsonl bl jl len
    assume p: "persist_object am ob (e, d) = (e\<lparr> en_binary := bw, en_jsonl := jw, en_index := idx \<rparr>,
        d\<lparr> ed_data := Some data, ed_jsonl := Some jsonl \<rparr>)"
      and b: "binary_write_record (co_index ob) (co_version ob) (co_uuid ob) (co_created_at ob) (co_updated_at ob)
        (co_deleted_at ob) (co_fields ob) (en_binary e) (file_contents (ed_data d)) = ((bl, len), bw, data)"
      and idx: "idx = (if pi_get_by_index (co_index ob) (en_index e) \<noteq> None
        then snd (pi_update_offsets (co_index ob) bl len (fst jl) (snd jl) (en_index e))
        else pi_insert ((index_entry_new (co_index ob) (co_uuid ob))\<lparr> ie_binary_offset := bl,
          ie_binary_length := len, ie_json_offset := fst jl, ie_json_length := snd jl \<rparr>) (en_index e))"
    have "pi_within K idx"
      unfolding idx using assms(1,3,5)
      by (auto simp: data_ok_def s index_entry_new_def intro: pi_within_update_offsets intro!: pi_within_insert)
    moreover have "writer_ok bw data" "bh_store_type_hash (bw_header bw) = bh_store_type_hash (bw_header (en_binary e))"
      using binary_write_record_keeps [OF fits f0(2)] b f0(1) by (simp_all add: file_contents_def)
    ultimately show "data_ok hash K (persist_object am ob (e, d))"
      using assms(1) by (simp add: data_ok_def s p)
  qed
qed

text \<open>Saving one object, and all of them.\<close>

lemma en_clean_same:
  "cache_view (en_cache (en_clean i e)) = cache_view (en_cache e)"
  "cache_ok fit (en_cache e) \<Longrightarrow> cache_ok fit (en_cache (en_clean i e))"
  "same_objects (e, d) (en_clean i e, d)" "data_len (en_clean i e, d) = data_len (e, d)"
  "data_ok hash K (en_clean i e, d) = data_ok hash K (e, d)"
proof -
  show "cache_view (en_cache (en_clean i e)) = cache_view (en_cache e)"
    by (auto simp: en_clean_def cache_view_def co_view_def co_is_deleted_def fun_eq_iff split: option.split)
  show "cache_ok fit (en_cache e) \<Longrightarrow> cache_ok fit (en_cache (en_clean i e))"
    by (auto simp: en_clean_def cache_ok_def split: option.split)
qed (auto simp: en_clean_def same_objects_def data_len_def data_ok_def split: option.split)

definition same_view :: "store \<Rightarrow> store \<Rightarrow> bool" where
  "same_view s s' \<longleftrightarrow> same_objects s s' \<and> cache_view (en_cache (fst s')) = cache_view (en_cache (fst s))"

lemma en_save_object_same:
  assumes "cache_ok fit (en_cache (fst s))"
  shows "same_view s (en_save_object am i s)" "cache_ok fit (en_cache (fst (en_save_object am i s)))"
    "data_len s \<le> data_len (en_save_object am i s)"
proof -
  define s1 where "s1 = (case hm_get i (en_cache (fst s)) of Some ob \<Rightarrow> persist_object am ob s | None \<Rightarrow> s)"
  have s1: "same_objects s s1" "en_cache (fst s1) = en_cache (fst s)" "data_len s \<le> data_len s1"
    using persist_object_same persist_object_len by (auto simp: s1_def split: option.split)
  have eq: "en_save_object am i s = (en_clean i (fst s1), snd s1)"
    by (simp add: en_save_object_def s1_def [symmetric] split: prod.split)
  show "same_view s (en_save_object am i s)" "cache_ok fit (en_cache (fst (en_save_object am i s)))"
    "data_len s \<le> data_len (en_save_object am i s)"
    using s1 assms en_clean_same(3) [of "fst s1" "snd s1" i]
    by (auto simp: eq same_view_def en_clean_same intro: same_objects_trans)
qed

lemma en_save_object_ok:
  assumes "cache_ok fields_fit (en_cache (fst s))" "dom (cache_view (en_cache (fst s))) \<subseteq> K"
    and "data_ok hash K s" "data_len s < 2 ^ 63"
  shows "data_ok hash K (en_save_object am i s)"
proof -
  define s1 where "s1 = (case hm_get i (en_cache (fst s)) of Some ob \<Rightarrow> persist_object am ob s | None \<Rightarrow> s)"
  have eq: "en_save_object am i s = (en_clean i (fst s1), snd s1)"
    by (simp add: en_save_object_def s1_def [symmetric] split: prod.split)
  have "data_ok hash K s1"
  proof (cases "hm_get i (en_cache (fst s))")
    case None
    with assms(3) show ?thesis by (simp add: s1_def)
  next
    case (Some ob)
    then have "i \<in> K"
      using assms(2) by (auto simp: cache_view_def dom_def subset_iff)
    with cache_okD [OF assms(1) Some] persist_object_ok [OF assms(3,4)] show ?thesis
      by (simp add: s1_def Some)
  qed
  then show ?thesis
    by (simp add: eq en_clean_same)
qed

lemma save_objects:
  assumes "cache_ok fields_fit (en_cache (fst s))" "dom (cache_view (en_cache (fst s))) \<subseteq> K"
    and "data_ok hash K s" "data_len (fold (en_save_object am) idxs s) < 2 ^ 63"
  shows "data_ok hash K (fold (en_save_object am) idxs s)" "same_view s (fold (en_save_object am) idxs s)"
    "cache_ok fields_fit (en_cache (fst (fold (en_save_object am) idxs s)))"
proof -
  have grow: "data_len t \<le> data_len (fold (en_save_object am) js t)" if "cache_ok fields_fit (en_cache (fst t))" for js t
    using that
  proof (induction js arbitrary: t)
    case (Cons j js)
    from Cons.IH [of "en_save_object am j t"] en_save_object_same [OF Cons.prems, of am j] show ?case
      by simp
  qed simp
  have "data_ok hash K (fold (en_save_object am) idxs s) \<and> same_view s (fold (en_save_object am) idxs s) \<and>
      cache_ok fields_fit (en_cache (fst (fold (en_save_object am) idxs s)))"
    using assms
  proof (induction idxs arbitrary: s)
    case (Cons j js)
    let ?s = "en_save_object am j s"
    note same = en_save_object_same [OF Cons.prems(1), of am j]
    have "data_len s < 2 ^ 63"
      using same(3) grow [OF same(2), of js] Cons.prems(4) by simp
    then have "data_ok hash K ?s"
      by (rule en_save_object_ok [OF Cons.prems(1,2,3)])
    moreover have "dom (cache_view (en_cache (fst ?s))) \<subseteq> K"
      using same(1) Cons.prems(2) by (simp add: same_view_def)
    ultimately show ?case
      using Cons.IH [of ?s] same Cons.prems(4) by (auto simp: same_view_def intro: same_objects_trans)
  qed (simp add: same_view_def)
  then show "data_ok hash K (fold (en_save_object am) idxs s)" "same_view s (fold (en_save_object am) idxs s)"
    "cache_ok fields_fit (en_cache (fst (fold (en_save_object am) idxs s)))"
    by auto
qed

subsection \<open>The log\<close>

text \<open>The directory of the log holds one segment, which has room for some more bytes.\<close>

definition log_room :: "wal_dir \<Rightarrow> bool" where
  "log_room dir \<longleftrightarrow> (\<forall>(name, c) \<in> set dir. length c + 64 < 2 ^ 24)"

lemma writer_holds_room:
  assumes "writer_holds w dir es" "ww_file w = Some []" "log_room dir" "length (log_bytes fs) \<le> 64"
  shows "segment_room (es @ fs)"
proof -
  obtain disk where disk: "dir = [(segment_path 0, disk)]" "WAL_HEADER_SIZE \<le> length disk"
    "drop WAL_HEADER_SIZE disk = log_bytes es"
    using assms(1,2) by (auto simp: writer_holds_def)
  then have "length disk = WAL_HEADER_SIZE + length (log_bytes es)"
    by (metis le_add_diff_inverse length_drop)
  with assms(3,4) disk(1) show ?thesis
    by (simp add: segment_room_def log_room_def)
qed

lemma writer_holds_new: "ww_open hash [] = (w, dir) \<Longrightarrow> writer_holds w dir [] \<and> ww_file w = Some []"
  using writer_holds_open [of hash w dir]
  by (auto simp: ww_open_def ww_ensure_segment_def ww_flush_def Let_def)

lemma writer_holds_checkpoint:
  assumes "writer_holds w dir es" "segment_room es" "ww_checkpoint now w dir = (lsn, w', dir')"
  shows "writer_holds w' (ww_truncate_before lsn w' dir') (es @ [wal_entry_checkpoint now lsn])"
    "ww_file w' = Some []"
proof -
  obtain w1 dir1 where w1: "ww_write_entry (wal_entry_checkpoint now lsn) (snd (ww_next_lsn w)) dir = (w1, dir1)"
    by (metis surj_pair)
  have lsn: "lsn = ww_current_lsn w" and sync: "ww_sync w1 dir1 = (w', dir')"
    using assms(3) w1 by (auto simp: ww_checkpoint_def ww_next_lsn_def split: prod.splits)
  have ok: "wal_entry_ok (wal_entry_checkpoint now lsn)"
    by (simp add: wal_entry_ok_def wal_entry_checkpoint_def uuid_nil_def)
  note s1 = writer_holds_write [OF writer_holds_next [OF assms(1)] assms(2) ok w1]
  note s2 = writer_holds_sync [OF s1(1) sync]
  from s2(1) obtain disk where "dir' = [(segment_path 0, disk)]" "ww_current_segment w' = 0"
    by (auto simp: writer_holds_def)
  then have "ww_truncate_before lsn w' dir' = dir'"
    by (simp add: ww_truncate_before_def segment_number_0)
  with s2(1,2) show "writer_holds w' (ww_truncate_before lsn w' dir') (es @ [wal_entry_checkpoint now lsn])"
    "ww_file w' = Some []"
    by simp_all
qed

text \<open>The log of a store that logs under \<open>FSync\<close>.\<close>

definition loggable :: "wal_entry \<Rightarrow> bool" where
  "loggable en \<longleftrightarrow> replayable en \<and>
     (we_op_type en \<in> {OpInsert, OpUpdate} \<longrightarrow> (\<forall>flds. wal_parse_payload en = Ok flds \<longrightarrow> fields_fit flds))"

definition logs_durably :: "store_config \<Rightarrow> bool" where
  "logs_durably c \<longleftrightarrow> wc_enabled (cfg_wal c) \<and> wc_sync_mode (cfg_wal c) = FSync"

definition log_ok :: "store \<Rightarrow> wal_entry list \<Rightarrow> bool" where
  "log_ok s es \<longleftrightarrow> logs_durably (en_config (fst s)) \<and> (\<forall>en \<in> set es. loggable en) \<and>
     (\<exists>w. en_wal (fst s) = Some w \<and> writer_holds w (ed_wal (snd s)) es \<and> ww_file w = Some [])"

lemma log_ok_same: "log_ok s es \<Longrightarrow> same_objects s s' \<Longrightarrow> log_ok s' es"
  by (simp add: log_ok_def same_objects_def)

lemma en_log_cases:
  obtains w dir where "en_log entry (e, d) = (e\<lparr> en_wal := w \<rparr>, d\<lparr> ed_wal := dir \<rparr>)"
proof -
  have "\<exists>w dir. en_log entry (e, d) = (e\<lparr> en_wal := w \<rparr>, d\<lparr> ed_wal := dir \<rparr>)"
    by (cases "en_wal e") (auto simp: en_log_def Let_def split: prod.split intro: exI [of _ "en_wal e"] exI [of _ "ed_wal d"])
  with that show thesis
    by blast
qed

lemma en_log_ok:
  assumes "log_ok (e, d) es" "log_room (ed_wal d)" "\<And>lsn. loggable (entry lsn)"
  shows "\<exists>lsn. log_ok (en_log entry (e, d)) (es @ [entry lsn])"
proof -
  obtain w where w: "en_wal e = Some w" "writer_holds w (ed_wal d) es" "ww_file w = Some []"
    and sync: "wc_sync_mode (cfg_wal (en_config e)) = FSync"
    using assms(1) by (auto simp: log_ok_def logs_durably_def)
  have room: "segment_room es"
    using writer_holds_room [OF w(2,3) assms(2), of "[]"] by simp
  define lsn where "lsn = ww_current_lsn w"
  obtain w1 dir1 where w1: "ww_write_entry (entry lsn) (snd (ww_next_lsn w)) (ed_wal d) = (w1, dir1)"
    by (metis surj_pair)
  obtain w2 dir2 where w2: "ww_sync w1 dir1 = (w2, dir2)"
    by (metis surj_pair)
  have eq: "en_log entry (e, d) = (e\<lparr> en_wal := Some w2 \<rparr>, d\<lparr> ed_wal := dir2 \<rparr>)"
    using w(1) w1 w2 sync by (simp add: en_log_def ww_next_lsn_def lsn_def)
  have "wal_entry_ok (entry lsn)"
    using assms(3) by (simp add: loggable_def replayable_def)
  note s1 = writer_holds_write [OF writer_holds_next [OF w(2)] room this w1]
  note s2 = writer_holds_sync [OF s1(1) w2]
  show ?thesis
    using assms(1,3) s2(1,2) by (auto simp: log_ok_def eq)
qed

text \<open>Logged entries are of this form.\<close>

lemma loggable_insert:
  assumes "fields_fit flds" "length uuid = 16" "0 \<le> sint now"
  shows "loggable (wal_entry_insert now lsn i uuid flds)" "loggable (wal_entry_update now lsn i uuid flds)"
    "loggable (wal_entry_delete now lsn i uuid)"
proof -
  have "deserialize_fields (serialize_fields flds) = Ok flds"
    using assms(1) by (intro deserialize_fields_serialize) (auto simp: fields_fit_def)
  then show "loggable (wal_entry_insert now lsn i uuid flds)" "loggable (wal_entry_update now lsn i uuid flds)"
    using assms by (simp_all add: loggable_def replayable_def wal_entry_ok_def wal_parse_payload_def
        wal_entry_insert_def wal_entry_update_def fields_fit_def)
  show "loggable (wal_entry_delete now lsn i uuid)"
    using assms by (simp add: loggable_def replayable_def wal_entry_ok_def wal_entry_delete_def)
qed

lemma loggable_marks:
  "0 \<le> sint now \<Longrightarrow> loggable (wal_entry_commit now lsn)"
  "0 \<le> sint now \<Longrightarrow> loggable (wal_entry_checkpoint now lsn)"
  by (simp_all add: loggable_def replayable_def wal_entry_ok_def wal_entry_commit_def wal_entry_checkpoint_def uuid_nil_def)

lemma entry_views:
  "fields_fit flds \<Longrightarrow> entry_view (wal_entry_insert now lsn i uuid flds) v = v(i \<mapsto> (uuid, flds, False))"
  "fields_fit flds \<Longrightarrow>
    entry_view (wal_entry_update now lsn i uuid flds) v = v(i := map_option (\<lambda>(u, f, x). (u, flds, x)) (v i))"
  "entry_view (wal_entry_delete now lsn i uuid) v = v(i := map_option (\<lambda>(u, f, x). (u, f, True)) (v i))"
  "entry_view (wal_entry_commit now lsn) v = v" "entry_view (wal_entry_checkpoint now lsn) v = v"
proof -
  have p: "deserialize_fields (serialize_fields flds) = Ok flds" if "fields_fit flds"
    using that by (intro deserialize_fields_serialize) (auto simp: fields_fit_def)
  show "fields_fit flds \<Longrightarrow> entry_view (wal_entry_insert now lsn i uuid flds) v = v(i \<mapsto> (uuid, flds, False))"
    "fields_fit flds \<Longrightarrow>
    entry_view (wal_entry_update now lsn i uuid flds) v = v(i := map_option (\<lambda>(u, f, x). (u, flds, x)) (v i))"
    using p by (simp_all add: entry_view_def wal_entry_insert_def wal_entry_update_def wal_parse_payload_def)
qed (simp_all add: entry_view_def wal_entry_delete_def wal_entry_commit_def wal_entry_checkpoint_def)

subsection \<open>The invariant of a store that logs\<close>

text \<open>
  The cache is what the log says, every number below the next one is given out, and the data files
  mention no other.
\<close>

definition store_inv :: "u64 \<Rightarrow> store \<Rightarrow> wal_entry list \<Rightarrow> bool" where
  "store_inv hash s es \<longleftrightarrow> (let e = fst s; K = {1..<en_next_index e} in
     log_ok s es \<and> data_ok hash K s \<and> cache_ok fields_fit (en_cache e) \<and>
     cache_view (en_cache e) = fold entry_view es Map.empty \<and> 0 < en_next_index e \<and>
     dom (cache_view (en_cache e)) = K \<and> log_indices es = K)"

lemma store_invD:
  assumes "store_inv hash s es"
  shows "log_ok s es" "data_ok hash {1..<en_next_index (fst s)} s" "cache_ok fields_fit (en_cache (fst s))"
    "cache_view (en_cache (fst s)) = fold entry_view es Map.empty" "0 < en_next_index (fst s)"
    "dom (cache_view (en_cache (fst s))) = {1..<en_next_index (fst s)}" "log_indices es = {1..<en_next_index (fst s)}"
  using assms unfolding store_inv_def Let_def by blast+

definition step_room :: "store \<Rightarrow> bool" where
  "step_room s \<longleftrightarrow> log_room (ed_wal (snd s)) \<and> data_len s < 2 ^ 63 \<and> unat (en_next_index (fst s)) < 2 ^ 62"

definition clock_ok :: "ambient \<Rightarrow> bool" where
  "clock_ok am \<longleftrightarrow> 0 \<le> sint (am_now am) \<and> 0 \<le> sint (am_log_now am)"

lemma data_ok_mono: "data_ok hash K s \<Longrightarrow> K \<subseteq> L \<Longrightarrow> data_ok hash L s"
  by (auto simp: data_ok_def index_file_within_def intro: pi_within_mono)

lemma data_ok_frame [simp]:
  "data_ok hash K (e\<lparr> en_cache := c \<rparr>, d) = data_ok hash K (e, d)"
  "data_ok hash K (e\<lparr> en_secondary := x \<rparr>, d) = data_ok hash K (e, d)"
  "data_ok hash K (e\<lparr> en_dirty := b \<rparr>, d) = data_ok hash K (e, d)"
  "data_ok hash K (e\<lparr> en_next_index := n \<rparr>, d) = data_ok hash K (e, d)"
  "data_ok hash K (e\<lparr> en_last_checkpoint_lsn := n \<rparr>, d) = data_ok hash K (e, d)"
  "data_ok hash K (e\<lparr> en_wal := w \<rparr>, d) = data_ok hash K (e, d)"
  "data_ok hash K (e, d\<lparr> ed_wal := dir \<rparr>) = data_ok hash K (e, d)"
  by (simp_all add: data_ok_def)

lemma log_ok_frame [simp]:
  "log_ok (e\<lparr> en_cache := c \<rparr>, d) es = log_ok (e, d) es"
  "log_ok (e\<lparr> en_secondary := x \<rparr>, d) es = log_ok (e, d) es"
  "log_ok (e\<lparr> en_dirty := b \<rparr>, d) es = log_ok (e, d) es"
  "log_ok (e\<lparr> en_next_index := n \<rparr>, d) es = log_ok (e, d) es"
  "log_ok (e\<lparr> en_index := idx \<rparr>, d) es = log_ok (e, d) es"
  "log_ok (e, d\<lparr> ed_index := f \<rparr>) es = log_ok (e, d) es"
  by (simp_all add: log_ok_def)

lemma next_index_bounds:
  assumes "unat (n :: u64) < 2 ^ 62" "0 < n"
  shows "{1..<n + 1} = insert n {1..<n}" "n < n + 1" "0 < n + 1" "n \<notin> {1..<n}" "card {1..<n} < 2 ^ 63"
proof -
  have u: "unat (n + 1) = unat n + 1"
    using assms(1) by (simp add: unat_word_ariths)
  show "n < n + 1" "0 < n + 1"
    using u by (simp_all add: word_less_nat_alt)
  have "1 \<le> n"
    using assms(2) by (simp add: word_less_nat_alt word_le_nat_alt)
  then show "{1..<n + 1} = insert n {1..<n}"
    using u by (auto simp: word_less_nat_alt word_le_nat_alt less_Suc_eq word_unat_eq_iff)
  show "n \<notin> {1..<n}" by simp
  have "card {1..<n} = card (unat ` {1..<n})"
    by (simp add: card_image inj_on_def word_unat_eq_iff)
  also have "\<dots> \<le> card {..<unat n}"
    by (intro card_mono) (auto simp: word_less_nat_alt)
  finally show "card {1..<n} < 2 ^ 63"
    using assms(1) by simp
qed

text \<open>Reading answers what the cache holds; nothing else is there.\<close>

lemma en_get_inv:
  assumes "store_inv hash s es"
  shows "en_get i s = (Ok (hm_get i (en_cache (fst s))), s)"
proof (cases "hm_get i (en_cache (fst s))")
  case (Some ob)
  then show ?thesis
    by (cases s) (simp add: en_get_def hm_contains_def)
next
  case None
  have "dom (cache_view (en_cache (fst s))) = {1..<en_next_index (fst s)}"
    and within: "pi_within {1..<en_next_index (fst s)} (en_index (fst s))"
    using store_invD(2,6) [OF assms] by (simp_all add: data_ok_def)
  moreover have "i \<notin> dom (cache_view (en_cache (fst s)))"
    by (simp add: domIff cache_view_def None)
  ultimately have "i \<notin> {1..<en_next_index (fst s)}"
    by blast
  then have "pi_get_by_index i (en_index (fst s)) = None"
    using within by (cases "hm_get i (pi_by_index (en_index (fst s)))") (auto simp: pi_within_def pi_get_by_index_def)
  with None show ?thesis
    by (cases s) (simp add: en_get_def hm_contains_def)
qed

lemma entry_view_fold_snoc: "fold entry_view (es @ [en]) v = entry_view en (fold entry_view es v)"
  by simp

lemma log_indices_snoc: "log_indices (es @ [en]) = log_indices es \<union> (if we_op_type en = OpInsert then {we_index en} else {})"
  by (auto simp: log_indices_def)

lemma wal_entry_kinds [simp]:
  "we_op_type (wal_entry_insert now lsn i uuid flds) = OpInsert" "we_index (wal_entry_insert now lsn i uuid flds) = i"
  "we_op_type (wal_entry_update now lsn i uuid flds) = OpUpdate" "we_op_type (wal_entry_delete now lsn i uuid) = OpDelete"
  "we_op_type (wal_entry_commit now lsn) = OpCommit" "we_op_type (wal_entry_checkpoint now lsn) = OpCheckpoint"
  by (simp_all add: wal_entry_insert_def wal_entry_update_def wal_entry_delete_def wal_entry_commit_def wal_entry_checkpoint_def)

text \<open>Log an entry, then persist if the configuration says so: what \<open>create\<close> and \<open>update\<close> share.\<close>

lemma log_and_persist:
  assumes "log_ok (e, d) es" "log_room (ed_wal d)" "\<And>lsn. loggable (entry lsn)"
    and "data_ok hash K (e, d)" "data_len (e, d) < 2 ^ 63"
    and "co_index ob \<in> K" "fields_fit (co_fields ob)" "length (co_uuid ob) = 16"
    and s': "s' = (if p then persist_object am ob (en_log entry (e, d)) else en_log entry (e, d))"
  shows "\<exists>lsn. log_ok s' (es @ [entry lsn])"
    and "data_ok hash K s'" "en_cache (fst s') = en_cache e" "en_next_index (fst s') = en_next_index e"
    "en_config (fst s') = en_config e" "en_store_type (fst s') = en_store_type e"
proof -
  obtain w dir where l: "en_log entry (e, d) = (e\<lparr> en_wal := w \<rparr>, d\<lparr> ed_wal := dir \<rparr>)"
    by (rule en_log_cases)
  have same: "same_objects (en_log entry (e, d)) s'" "en_cache (fst s') = en_cache (fst (en_log entry (e, d)))"
    using persist_object_same by (auto simp: s')
  obtain lsn where "log_ok (en_log entry (e, d)) (es @ [entry lsn])"
    using en_log_ok [of e d es entry, OF assms(1-3)] by blast
  then show "\<exists>lsn. log_ok s' (es @ [entry lsn])"
    using log_ok_same [OF _ same(1)] by blast
  show "en_cache (fst s') = en_cache e" "en_next_index (fst s') = en_next_index e"
    "en_config (fst s') = en_config e" "en_store_type (fst s') = en_store_type e"
    using same by (simp_all add: l same_objects_def)
  have "data_ok hash K (en_log entry (e, d))" "data_len (en_log entry (e, d)) < 2 ^ 63"
    using assms(4,5) by (simp_all add: l data_len_def)
  then show "data_ok hash K s'"
    using persist_object_ok [OF _ _ assms(6-8)] by (simp add: s')
qed

end
