(* ===== verification/Store_Recovery.thy ===== *)
theory Store_Recovery
  imports Store_EngineInv
begin

text \<open>
  What the storage engine promises: every operation keeps the invariant, opening a disk recovers it,
  and so the engine refines a numbered collection of objects on which crashes have no effect.
\<close>

subsection \<open>Every operation keeps the invariant\<close>

definition same_setup :: "store \<Rightarrow> store \<Rightarrow> bool" where
  "same_setup s s' \<longleftrightarrow> en_config (fst s') = en_config (fst s) \<and> en_store_type (fst s') = en_store_type (fst s)"

lemma cache_view_insert [simp]: "cache_view (hm_insert i ob c) = (cache_view c)(i \<mapsto> co_view ob)"
  by (auto simp: cache_view_def)

lemma store_invI:
  assumes "log_ok s es" "data_ok hash {1..<en_next_index (fst s)} s" "cache_ok fields_fit (en_cache (fst s))"
    "cache_view (en_cache (fst s)) = fold entry_view es Map.empty" "0 < en_next_index (fst s)"
    "dom (cache_view (en_cache (fst s))) = {1..<en_next_index (fst s)}" "log_indices es = {1..<en_next_index (fst s)}"
  shows "store_inv hash s es"
  using assms unfolding store_inv_def Let_def by blast

lemma en_create_inv:
  assumes inv: "store_inv hash s es" and room: "step_room s"
    and am: "clock_ok am" "length (am_uuid am) = 16" "fields_fit flds"
  shows "\<exists>lsn s'. en_create am flds s = (en_next_index (fst s), s') \<and>
    store_inv hash s' (es @ [wal_entry_insert (am_log_now am) lsn (en_next_index (fst s)) (am_uuid am) flds]) \<and>
    same_setup s s' \<and>
    en_next_index (fst s') = en_next_index (fst s) + 1 \<and>
    cache_view (en_cache (fst s')) = (cache_view (en_cache (fst s)))(en_next_index (fst s) \<mapsto> (am_uuid am, flds, False))"
proof -
  obtain e d where s: "s = (e, d)" by (cases s)
  define n where "n = en_next_index e"
  define e1 where "e1 = e\<lparr> en_next_index := n + 1 \<rparr>"
  define ob where "ob = (cached_object_new (am_now am) (am_uuid am) flds)\<lparr> co_index := n \<rparr>"
  define entry where "entry = (\<lambda>lsn. wal_entry_insert (am_log_now am) lsn n (am_uuid am) flds)"
  define p where "p = ap_enabled (cfg_auto_persist (en_config e))"
  define s1 where "s1 = (if p then persist_object am ob (en_log entry (e1, d)) else en_log entry (e1, d))"
  define ob' where "ob' = (if p then ob\<lparr> co_dirty := False \<rparr> else ob)"
  note I = store_invD [OF inv, unfolded s fst_conv, folded n_def]
  note B = next_index_bounds [of n, OF _ I(5)]
  have n62: "unat n < 2 ^ 62"
    using room by (simp add: step_room_def s n_def)
  note K = B(1,3,4) [OF n62]
  have "data_ok hash {1..<n + 1} (e1, d)"
    using data_ok_mono [OF I(2)] by (auto simp: e1_def K)
  moreover have "log_ok (e1, d) es"
    using I(1) by (simp add: e1_def)
  moreover have "\<And>lsn. loggable (entry lsn)"
    using am by (simp add: entry_def clock_ok_def loggable_insert)
  ultimately have L: "\<exists>lsn. log_ok s1 (es @ [entry lsn])" "data_ok hash {1..<n + 1} s1" "en_cache (fst s1) = en_cache e"
    "en_next_index (fst s1) = n + 1" "en_config (fst s1) = en_config e" "en_store_type (fst s1) = en_store_type e"
    using log_and_persist [of e1 d es entry hash "{1..<n + 1}" ob s1 p am] room am
    by (simp_all add: s1_def step_room_def s data_len_def ob_def cached_object_new_def K e1_def)
  from L(1) obtain lsn where lsn: "log_ok s1 (es @ [entry lsn])"
    by blast
  obtain w dir where l: "en_log entry (e1, d) = (e1\<lparr> en_wal := w \<rparr>, d\<lparr> ed_wal := dir \<rparr>)"
    by (rule en_log_cases)
  define s' where "s' = ((fst s1)\<lparr> en_cache := hm_insert n ob' (en_cache (fst s1)),
      en_secondary := sim_on_insert n flds (en_secondary (fst s1)), en_dirty := True \<rparr>, snd s1)"
  have eq: "en_create am flds s = (n, s')"
    by (simp add: en_create_def s n_def ob_def e1_def entry_def Let_def p_def s1_def ob'_def s'_def split_beta)
  have ob': "co_index ob' = n" "co_uuid ob' = am_uuid am" "co_fields ob' = flds" "co_view ob' = (am_uuid am, flds, False)"
    by (simp_all add: ob'_def ob_def cached_object_new_def co_view_def co_is_deleted_def)
  have "store_inv hash s' (es @ [entry lsn])"
  proof (rule store_invI)
    show "log_ok s' (es @ [entry lsn])" "data_ok hash {1..<en_next_index (fst s')} s'"
      using lsn L(2,4) by (simp_all add: s'_def)
    show "cache_ok fields_fit (en_cache (fst s'))"
      using cache_ok_insert [OF I(3) ob'(1)] ob' am by (simp add: s'_def L)
    show "cache_view (en_cache (fst s')) = fold entry_view (es @ [entry lsn]) Map.empty"
      using am(3) by (simp add: s'_def L I(4) entry_def entry_views ob')
    show "0 < en_next_index (fst s')" "dom (cache_view (en_cache (fst s'))) = {1..<en_next_index (fst s')}"
      using I(6) K by (simp_all add: s'_def L)
    show "log_indices (es @ [entry lsn]) = {1..<en_next_index (fst s')}"
      using I(7) K by (simp add: s'_def L log_indices_snoc entry_def)
  qed
  then show ?thesis
    using eq L ob' by (intro exI [of _ lsn] exI [of _ s']) (simp add: s same_setup_def s'_def n_def entry_def)
qed

lemma en_replace_inv:
  assumes inv: "store_inv hash s es" and room: "step_room s"
    and am: "clock_ok am" "fields_fit flds" and ob: "hm_get i (en_cache (fst s)) = Some ob"
  shows "\<exists>es'. store_inv hash (en_replace am i ob flds s) es' \<and> same_setup s (en_replace am i ob flds s) \<and>
    en_next_index (fst (en_replace am i ob flds s)) = en_next_index (fst s) \<and>
    cache_view (en_cache (fst (en_replace am i ob flds s))) =
      (cache_view (en_cache (fst s)))(i \<mapsto> (co_uuid ob, flds, co_is_deleted ob))"
proof -
  obtain e d where s: "s = (e, d)" by (cases s)
  define n where "n = en_next_index e"
  define entry where "entry = (\<lambda>lsn. wal_entry_update (am_log_now am) lsn i (co_uuid ob) flds)"
  define ob1 where "ob1 = ob\<lparr> co_fields := flds, co_updated_at := am_now am, co_version := co_version ob + 1, co_dirty := True \<rparr>"
  define p where "p = ap_enabled (cfg_auto_persist (en_config e))"
  define s1 where "s1 = (if p then persist_object am ob1 (en_log entry (e, d)) else en_log entry (e, d))"
  define ob' where "ob' = (if p then ob1\<lparr> co_dirty := False \<rparr> else ob1)"
  note I = store_invD [OF inv, unfolded s fst_conv, folded n_def]
  have get: "hm_get i (en_cache e) = Some ob"
    using ob by (simp add: s)
  note C = cache_okD [OF I(3) get]
  have "i \<in> dom (cache_view (en_cache e))"
    using get by (simp add: cache_view_def domIff)
  then have i: "i \<in> {1..<n}"
    by (simp only: I(6))
  have "\<And>lsn. loggable (entry lsn)"
    using am C(2) by (simp add: entry_def clock_ok_def loggable_insert)
  then have L: "\<exists>lsn. log_ok s1 (es @ [entry lsn])" "data_ok hash {1..<n} s1" "en_cache (fst s1) = en_cache e"
    "en_next_index (fst s1) = n" "en_config (fst s1) = en_config e" "en_store_type (fst s1) = en_store_type e"
    using log_and_persist [of e d es entry hash "{1..<n}" ob1 s1 p am] room am I(1,2) C i
    by (simp_all add: s1_def step_room_def s data_len_def ob1_def n_def)
  from L(1) obtain lsn where lsn: "log_ok s1 (es @ [entry lsn])"
    by blast
  obtain w dir where l: "en_log entry (e, d) = (e\<lparr> en_wal := w \<rparr>, d\<lparr> ed_wal := dir \<rparr>)"
    by (rule en_log_cases)
  define s' where "s' = ((fst s1)\<lparr> en_cache := hm_insert i ob' (en_cache (fst s1)),
      en_secondary := sim_on_update i (co_fields ob) flds (en_secondary (fst s1)), en_dirty := True \<rparr>, snd s1)"
  have eq: "en_replace am i ob flds s = s'"
    using l by (simp add: en_replace_def s ob1_def entry_def Let_def p_def s1_def ob'_def s'_def split_beta)
  have ob': "co_index ob' = i" "co_uuid ob' = co_uuid ob" "co_fields ob' = flds"
    "co_view ob' = (co_uuid ob, flds, co_is_deleted ob)"
    using C(1) by (simp_all add: ob'_def ob1_def co_view_def co_is_deleted_def)
  have v: "cache_view (en_cache e) i = Some (co_uuid ob, co_fields ob, co_is_deleted ob)"
    using get by (simp add: cache_view_def co_view_def)
  have "store_inv hash s' (es @ [entry lsn])"
  proof (rule store_invI)
    show "log_ok s' (es @ [entry lsn])" "data_ok hash {1..<en_next_index (fst s')} s'"
      using lsn L(2,4) by (simp_all add: s'_def)
    show "cache_ok fields_fit (en_cache (fst s'))"
      using cache_ok_insert [OF I(3) ob'(1)] ob' am C by (simp add: s'_def L)
    show "cache_view (en_cache (fst s')) = fold entry_view (es @ [entry lsn]) Map.empty"
      using am(2) v by (simp add: s'_def L I(4) [symmetric] entry_def entry_views ob')
    show "0 < en_next_index (fst s')" "dom (cache_view (en_cache (fst s'))) = {1..<en_next_index (fst s')}"
      using I(5,6) i by (auto simp: s'_def L)
    show "log_indices (es @ [entry lsn]) = {1..<en_next_index (fst s')}"
      using I(7) by (simp add: s'_def L log_indices_snoc entry_def)
  qed
  then show ?thesis
    unfolding eq using L ob'(4) by (intro exI conjI) (simp_all add: s same_setup_def s'_def n_def)
qed

lemma en_mark_deleted_inv:
  assumes inv: "store_inv hash s es" and room: "step_room s"
    and am: "clock_ok am" and ob: "hm_get i (en_cache (fst s)) = Some ob"
  shows "\<exists>es'. store_inv hash (en_mark_deleted am i ob s) es' \<and> same_setup s (en_mark_deleted am i ob s) \<and>
    en_next_index (fst (en_mark_deleted am i ob s)) = en_next_index (fst s) \<and>
    cache_view (en_cache (fst (en_mark_deleted am i ob s))) =
      (cache_view (en_cache (fst s)))(i \<mapsto> (co_uuid ob, co_fields ob, True))"
proof -
  obtain e d where s: "s = (e, d)" by (cases s)
  define n where "n = en_next_index e"
  define entry where "entry = (\<lambda>lsn. wal_entry_delete (am_log_now am) lsn i (co_uuid ob))"
  define ob' where "ob' = ob\<lparr> co_deleted_at := am_now am, co_updated_at := am_now am,
      co_version := co_version ob + 1, co_dirty := True \<rparr>"
  note I = store_invD [OF inv, unfolded s fst_conv, folded n_def]
  have get: "hm_get i (en_cache e) = Some ob"
    using ob by (simp add: s)
  note C = cache_okD [OF I(3) get]
  have v: "cache_view (en_cache e) i = Some (co_uuid ob, co_fields ob, co_is_deleted ob)"
    using get by (simp add: cache_view_def co_view_def)
  then have "i \<in> dom (cache_view (en_cache e))"
    by (simp add: domIff)
  then have i: "i \<in> {1..<n}"
    by (simp only: I(6))
  have "\<And>lsn. loggable (entry lsn)"
    using am C(2,3) by (simp add: entry_def clock_ok_def loggable_insert)
  then obtain lsn where lsn: "log_ok (en_log entry (e, d)) (es @ [entry lsn])"
    using en_log_ok [of e d es entry, OF I(1)] room by (auto simp: step_room_def s)
  obtain w dir where l: "en_log entry (e, d) = (e\<lparr> en_wal := w \<rparr>, d\<lparr> ed_wal := dir \<rparr>)"
    by (rule en_log_cases)
  define s' where "s' = (e\<lparr> en_wal := w, en_cache := hm_insert i ob' (en_cache e),
      en_index := snd (pi_mark_deleted i (en_index e)),
      en_secondary := sim_on_delete i (co_fields ob) (en_secondary e), en_dirty := True \<rparr>, d\<lparr> ed_wal := dir \<rparr>)"
  have eq: "en_mark_deleted am i ob s = s'"
    using l by (simp add: en_mark_deleted_def s entry_def ob'_def s'_def)
  have ob': "co_index ob' = i" "co_uuid ob' = co_uuid ob" "co_fields ob' = co_fields ob"
    "co_view ob' = (co_uuid ob, co_fields ob, True)"
    using C(1) am by (simp_all add: ob'_def co_view_def co_is_deleted_def clock_ok_def)
  have "store_inv hash s' (es @ [entry lsn])"
  proof (rule store_invI)
    show "log_ok s' (es @ [entry lsn])"
      using lsn by (simp add: l s'_def log_ok_def)
    show "data_ok hash {1..<en_next_index (fst s')} s'"
      using I(2) by (simp add: s'_def data_ok_def n_def pi_within_mark_deleted)
    show "cache_ok fields_fit (en_cache (fst s'))"
      using cache_ok_insert [OF I(3) ob'(1)] ob' C by (simp add: s'_def)
    show "cache_view (en_cache (fst s')) = fold entry_view (es @ [entry lsn]) Map.empty"
      using v by (simp add: s'_def I(4) [symmetric] entry_def entry_views ob')
    show "0 < en_next_index (fst s')" "dom (cache_view (en_cache (fst s'))) = {1..<en_next_index (fst s')}"
      using I(5,6) i by (auto simp: s'_def n_def)
    show "log_indices (es @ [entry lsn]) = {1..<en_next_index (fst s')}"
      using I(7) by (simp add: s'_def log_indices_snoc entry_def n_def)
  qed
  then show ?thesis
    unfolding eq using ob'(4) by (intro exI conjI) (simp_all add: s same_setup_def s'_def)
qed

lemma en_save_inv:
  assumes inv: "store_inv hash s es" and room: "step_room s" and am: "clock_ok am"
    and len: "data_len (snd (en_save am s)) < 2 ^ 63"
  shows "\<exists>s' lsn. en_save am s = (Ok (), s') \<and> store_inv hash s' (es @ [wal_entry_commit (am_log_now am) lsn]) \<and>
    same_setup s s' \<and> en_next_index (fst s') = en_next_index (fst s) \<and>
    cache_view (en_cache (fst s')) = cache_view (en_cache (fst s)) \<and>
    segment_room (es @ [wal_entry_commit (am_log_now am) lsn])"
proof -
  define s1 where "s1 = fold (en_save_object am) (en_dirty_indices (fst s)) s"
  obtain e1 d1 where s1_eq: "s1 = (e1, d1)" by (cases s1)
  obtain idx f where sv: "pi_save (en_index e1) (ed_index d1) = (idx, f)" by (metis surj_pair)
  note I = store_invD [OF inv]
  define n where "n = en_next_index (fst s)"
  obtain w where w: "en_wal (fst s) = Some w" "writer_holds w (ed_wal (snd s)) es" "ww_file w = Some []"
    using I(1) by (auto simp: log_ok_def)
  define en where "en = (\<lambda>lsn. wal_entry_commit (am_log_now am) lsn)"
  have "length (log_bytes [en lsn]) \<le> 64" for lsn
    by (simp add: en_def length_wal_entry_serialize wal_entry_ok_def wal_entry_commit_def uuid_nil_def)
  then have sroom: "segment_room (es @ [en lsn])" for lsn
    using writer_holds_room [OF w(2,3)] room by (simp add: step_room_def)
  note eroom = segment_room_prefix [OF sroom]
  obtain lsn w' dir where c: "ww_commit (am_log_now am) w (ed_wal (snd s)) = Ok (lsn, w', dir)"
    using writer_holds_commit_ok [OF w(2) eroom] by (metis prod_cases3)
  note W = writer_holds_commit [OF w(2) eroom c]
  define t where "t = (\<lambda>(e :: engine) (d :: engine_disk). (Ok () :: unit io, e\<lparr> en_index := idx, en_wal := Some w', en_dirty := False \<rparr>,
      d\<lparr> ed_index := f, ed_wal := dir \<rparr>))"
  have wal: "same_objects s s1 \<Longrightarrow> en_save am s = t e1 d1"
    using w(1) c sv by (simp add: en_save_def s1_def [symmetric] s1_eq same_objects_def t_def)
  have same: "same_view s s1" "cache_ok fields_fit (en_cache (fst s1))"
  proof -
    have "same_view s (fold (en_save_object am) js s) \<and> cache_ok fields_fit (en_cache (fst (fold (en_save_object am) js s)))" for js
    proof (induction js rule: rev_induct)
      case (snoc j js)
      then show ?case
        using en_save_object_same [of fields_fit "fold (en_save_object am) js s" am j]
        by (auto simp: same_view_def intro: same_objects_trans)
    qed (simp add: same_view_def I)
    then show "same_view s s1" "cache_ok fields_fit (en_cache (fst s1))"
      by (auto simp: s1_def)
  qed
  then have eq: "en_save am s = t e1 d1"
    using wal by (simp add: same_view_def)
  have "data_len s1 < 2 ^ 63"
    using len by (simp add: eq t_def data_len_def s1_eq)
  then have D: "data_ok hash {1..<n} s1"
    unfolding s1_def using I by (intro save_objects) (simp_all add: n_def)
  have K: "card {1..<n} < 2 ^ 63"
    using next_index_bounds(5) [of n] room I(5) by (simp add: step_room_def n_def)
  have S: "pi_within {1..<n} idx" "index_file_within {1..<n} f"
    using pi_within_save [OF _ _ K _ sv] D by (auto simp: data_ok_def s1_eq)
  define s' where "s' = snd (t e1 d1)"
  have so: "en_next_index e1 = n" "cache_view (en_cache e1) = cache_view (en_cache (fst s))"
    "en_config e1 = en_config (fst s)" "en_store_type e1 = en_store_type (fst s)"
    using same(1) by (simp_all add: same_view_def same_objects_def s1_eq n_def)
  have "store_inv hash s' (es @ [en lsn])"
  proof (rule store_invI)
    show "log_ok s' (es @ [en lsn])"
      using I(1) W(3,4) am so by (simp add: log_ok_def s'_def t_def en_def loggable_marks clock_ok_def)
    show "data_ok hash {1..<en_next_index (fst s')} s'"
      using D S by (simp add: data_ok_def s1_eq s'_def t_def so)
    show "cache_ok fields_fit (en_cache (fst s'))"
      using same(2) by (simp add: s'_def t_def s1_eq)
    show "cache_view (en_cache (fst s')) = fold entry_view (es @ [en lsn]) Map.empty"
      using I(4) by (simp add: s'_def t_def so en_def entry_views)
    show "0 < en_next_index (fst s')" "dom (cache_view (en_cache (fst s'))) = {1..<en_next_index (fst s')}"
      using I(5,6) by (simp_all add: s'_def t_def so n_def)
    show "log_indices (es @ [en lsn]) = {1..<en_next_index (fst s')}"
      using I(7) by (simp add: s'_def t_def so n_def log_indices_snoc en_def)
  qed
  moreover have "en_save am s = (Ok (), s')"
    by (simp add: eq s'_def t_def)
  ultimately show ?thesis
    using so sroom by (intro exI [of _ s'] exI [of _ lsn]) (simp add: s'_def t_def same_setup_def en_def n_def)
qed

lemma en_checkpoint_inv:
  assumes inv: "store_inv hash s es" and room: "step_room s" and am: "clock_ok am"
    and len: "data_len (snd (en_checkpoint am s)) < 2 ^ 63"
  shows "\<exists>s' es'. en_checkpoint am s = (Ok (), s') \<and> store_inv hash s' es' \<and> same_setup s s' \<and>
    en_next_index (fst s') = en_next_index (fst s) \<and>
    cache_view (en_cache (fst s')) = cache_view (en_cache (fst s))"
proof -
  obtain r e d where sv: "en_save am s = (r, e, d)"
    by (metis surj_pair)
  have "data_len (e, d) = data_len (snd (en_checkpoint am s))"
    by (simp add: en_checkpoint_def sv data_len_def split: outcome.split option.split prod.split)
  with len have "data_len (snd (en_save am s)) < 2 ^ 63"
    by (simp add: sv)
  from en_save_inv [OF inv room am this] obtain lsn where S: "r = Ok ()"
    "store_inv hash (e, d) (es @ [wal_entry_commit (am_log_now am) lsn])" "same_setup s (e, d)"
    "en_next_index e = en_next_index (fst s)" "cache_view (en_cache e) = cache_view (en_cache (fst s))"
    "segment_room (es @ [wal_entry_commit (am_log_now am) lsn])"
    by (auto simp: sv)
  define es1 where "es1 = es @ [wal_entry_commit (am_log_now am) lsn]"
  note I = store_invD [OF S(2), folded es1_def, unfolded fst_conv]
  obtain w where w: "en_wal e = Some w" "writer_holds w (ed_wal d) es1"
    using I(1) by (auto simp: log_ok_def)
  obtain l w' dir where c: "ww_checkpoint (am_log_now am) w (ed_wal d) = (l, w', dir)"
    by (metis prod_cases3)
  note W = writer_holds_checkpoint [OF w(2) S(6) [folded es1_def] c]
  define en where "en = wal_entry_checkpoint (am_log_now am) l"
  define s' where "s' = (e\<lparr> en_wal := Some w', en_last_checkpoint_lsn := l \<rparr>,
      d\<lparr> ed_wal := ww_truncate_before l w' dir \<rparr>)"
  have eq: "en_checkpoint am s = (Ok (), s')"
    by (simp add: en_checkpoint_def sv S(1) w(1) c s'_def)
  have "store_inv hash s' (es1 @ [en])"
  proof (rule store_invI)
    show "log_ok s' (es1 @ [en])"
      using I(1) W am by (simp add: log_ok_def s'_def en_def loggable_marks clock_ok_def)
    show "data_ok hash {1..<en_next_index (fst s')} s'"
      using I(2) by (simp add: data_ok_def s'_def)
    show "cache_ok fields_fit (en_cache (fst s'))" "0 < en_next_index (fst s')"
      "dom (cache_view (en_cache (fst s'))) = {1..<en_next_index (fst s')}"
      using I(3,5,6) by (simp_all add: s'_def)
    show "cache_view (en_cache (fst s')) = fold entry_view (es1 @ [en]) Map.empty"
      using I(4) by (simp add: s'_def en_def entry_views)
    show "log_indices (es1 @ [en]) = {1..<en_next_index (fst s')}"
      using I(7) by (simp add: s'_def log_indices_snoc en_def)
  qed
  then show ?thesis
    using S(3-5) by (intro exI [of _ s'] exI [of _ "es1 @ [en]"]) (simp add: eq s'_def same_setup_def)
qed

subsection \<open>Opening\<close>

lemma card_word_range: "card {1..<n :: u64} \<le> unat n - 1"
proof -
  have "card {1..<n} = card (unat ` {1..<n})"
    by (simp add: card_image inj_on_def word_unat_eq_iff)
  also have "\<dots> \<le> card {1..<unat n}"
    by (intro card_mono) (auto simp: word_less_nat_alt word_le_nat_alt)
  finally show ?thesis
    by simp
qed

text \<open>What recovery makes of a store whose log holds \<open>es\<close>, before anything is in its cache.\<close>

lemma en_recover_log:
  assumes "en_wal e = Some w" "writer_holds w (ed_wal d) es" "ww_file w = Some []"
    and "\<forall>en \<in> set es. replayable en" "en_last_checkpoint_lsn e = 0"
  shows "en_recover rd (e, d) = Some (Ok (), replay_log es e)"
proof -
  have "wal_iter_rest (wal_entries_from 0 (ed_wal d)) es"
    using writer_holds_segments [OF assms(2,3)]
    by (auto simp: wal_iter_rest_def wal_entries_from_def intro!: exI [of _ "[es]"])
  from recover_loop_log [OF this _ assms(4)] show ?thesis
    using assms(1,5) by (simp add: en_recover_def replay_log_def wal_entries_from_def)
qed

lemma en_open_parts:
  assumes "pi_open (ed_index d) = Ok idx" "binary_writer_open (ed_data d) hash = Ok (bw, data)"
    and "jsonl_writer_open (ed_jsonl d) = (jw, jsonl)" "wc_enabled (cfg_wal config)"
    and "ww_open hash (ed_wal d) = (w, dir)" "writer_holds w dir es" "ww_file w = Some []"
    and "\<forall>en \<in> set es. replayable en" "am_hash am st = hash"
  shows "en_open rd am st config d = Some (Ok (replay_log es \<lparr> en_store_type = st, en_config = config,
      en_index = idx, en_binary = bw, en_jsonl = jw, en_wal = Some w, en_cache = [],
      en_next_index = of_nat (pi_len idx) + 1, en_dirty = False, en_last_checkpoint_lsn = 0, en_secondary = [] \<rparr>),
    d\<lparr> ed_data := Some data, ed_jsonl := Some jsonl, ed_wal := dir \<rparr>)"
  using assms(1-5,9) en_recover_log [of "\<lparr> en_store_type = st, en_config = config,
      en_index = idx, en_binary = bw, en_jsonl = jw, en_wal = Some w, en_cache = [],
      en_next_index = of_nat (pi_len idx) + 1, en_dirty = False, en_last_checkpoint_lsn = 0, en_secondary = [] \<rparr>"
      w "d\<lparr> ed_data := Some data, ed_jsonl := Some jsonl, ed_wal := dir \<rparr>" es rd] assms(6-8)
  by (simp add: en_open_def Let_def)

lemma en_open_inv:
  assumes inv: "store_inv hash s es" and hash: "am_hash am (en_store_type (fst s)) = hash"
  shows "\<exists>e' d'. en_open rd am (en_store_type (fst s)) (en_config (fst s)) (snd s) = Some (Ok e', d') \<and>
    store_inv hash (e', d') es \<and> same_setup s (e', d') \<and> en_next_index e' = en_next_index (fst s) \<and>
    cache_view (en_cache e') = cache_view (en_cache (fst s))"
proof -
  obtain e d where s: "s = (e, d)" by (cases s)
  define n where "n = en_next_index e"
  note I = store_invD [OF inv, unfolded s fst_conv, folded n_def]
  obtain idx where idx: "pi_open (ed_index d) = Ok idx" "pi_within {1..<n} idx"
    using I(2) by (auto simp: data_ok_def index_file_within_def)
  obtain f0 where f0: "ed_data d = Some f0" "writer_ok (en_binary e) f0"
    "bh_store_type_hash (bw_header (en_binary e)) = hash"
    using I(2) by (auto simp: data_ok_def)
  obtain w where w: "writer_holds w (ed_wal d) es" "ww_file w = Some []"
    using I(1) by (auto simp: log_ok_def)
  obtain w' where w': "ww_open hash (ed_wal d) = (w', ed_wal d)" "writer_holds w' (ed_wal d) es" "ww_file w' = Some []"
    using writer_holds_reopen [OF w] by (metis surj_pair)
  obtain jw jsonl where j: "jsonl_writer_open (ed_jsonl d) = (jw, jsonl)"
    by (metis surj_pair)
  have cfg: "wc_enabled (cfg_wal (en_config e))"
    using I(1) by (simp add: log_ok_def logs_durably_def)
  have es: "\<forall>en \<in> set es. replayable en" "\<forall>en \<in> set es. loggable en"
    using I(1) by (auto simp: log_ok_def loggable_def)
  define e0 where "e0 = \<lparr> en_store_type = en_store_type e, en_config = en_config e,
      en_index = idx, en_binary = en_binary e, en_jsonl = jw, en_wal = Some w', en_cache = [],
      en_next_index = of_nat (pi_len idx) + 1, en_dirty = False, en_last_checkpoint_lsn = 0, en_secondary = [] \<rparr>"
  define d' where "d' = d\<lparr> ed_data := Some f0, ed_jsonl := Some jsonl, ed_wal := ed_wal d \<rparr>"
  have bw: "binary_writer_open (ed_data d) hash = Ok (en_binary e, f0)"
    using binary_writer_reopen [OF f0(2,3)] f0(1) by simp
  have hash': "am_hash am (en_store_type e) = hash"
    using hash by (simp add: s)
  have op: "en_open rd am (en_store_type e) (en_config e) d = Some (Ok (replay_log es e0), d')"
    unfolding e0_def d'_def by (rule en_open_parts [OF idx(1) bw j cfg w' es(1) hash'])
  define e' where "e' = replay_log es e0"
  note V = replay_log_view [OF es(1), of e0]
  have "en_next_index e' = n"
  proof -
    have "1 \<le> unat n"
      using I(5) by (simp add: word_less_nat_alt)
    then have len: "pi_len idx + 1 \<le> unat n"
      using pi_within_len [OF idx(2)] card_word_range [of n] by simp
    then have "unat (of_nat (pi_len idx) + 1 :: u64) = pi_len idx + 1"
      using unat_lt_2p [of n] unat_of_nat_u64 [of "pi_len idx + 1"] by (simp add: add.commute)
    then have "en_next_index e0 \<le> n" "0 < en_next_index e0"
      using len by (simp_all add: e0_def word_le_nat_alt word_less_nat_alt)
    then have "en_next_index e' \<le> n" "\<forall>i \<in> {0} \<union> {1..<n}. i < en_next_index e'"
      using replay_log_next [OF es(1), of n e0 "{0}"] I(7) by (simp_all add: e'_def)
    then show ?thesis
      using word_le_nat_alt [of 1 "en_next_index e'"] word_less_nat_alt [of 0 "en_next_index e'"]
      by (cases "en_next_index e' = n") auto
  qed
  moreover have "store_inv hash (e', d') es"
  proof (rule store_invI)
    show "log_ok (e', d') es"
      using V I(1) w' by (simp add: log_ok_def e'_def e0_def d'_def)
    show "data_ok hash {1..<en_next_index (fst (e', d'))} (e', d')"
      using V idx(2) f0 I(2) \<open>en_next_index e' = n\<close> by (simp add: data_ok_def e'_def e0_def d'_def)
    show "cache_ok fields_fit (en_cache (fst (e', d')))"
      using replay_log_cache_ok [OF es(1), of fields_fit e0] es(2) by (auto simp: e'_def e0_def loggable_def)
    show "cache_view (en_cache (fst (e', d'))) = fold entry_view es Map.empty"
      using V by (simp add: e'_def e0_def cache_view_def [abs_def])
    then show "dom (cache_view (en_cache (fst (e', d')))) = {1..<en_next_index (fst (e', d'))}"
      using I(4,6) \<open>en_next_index e' = n\<close> by simp
    show "0 < en_next_index (fst (e', d'))" "log_indices es = {1..<en_next_index (fst (e', d'))}"
      using I(5,7) \<open>en_next_index e' = n\<close> by simp_all
  qed
  moreover have "cache_view (en_cache e') = cache_view (en_cache e)"
    using V I(4) by (simp add: e'_def e0_def cache_view_def [abs_def])
  ultimately show ?thesis
    using op V by (intro exI [of _ e'] exI [of _ d']) (simp add: s n_def same_setup_def e'_def e0_def)
qed

definition empty_disk :: engine_disk where
  "empty_disk = \<lparr> ed_index = None, ed_data = None, ed_jsonl = None, ed_wal = [] \<rparr>"

lemma en_open_new:
  assumes "logs_durably config" "am_hash am st = hash"
  shows "\<exists>e d. en_open rd am st config empty_disk = Some (Ok e, d) \<and> store_inv hash (e, d) [] \<and>
    en_config e = config \<and> en_store_type e = st \<and> en_next_index e = 1 \<and> cache_view (en_cache e) = Map.empty"
proof -
  obtain w dir where w: "ww_open hash [] = (w, dir)"
    by (metis surj_pair)
  have h: "writer_holds w dir []" "ww_file w = Some []"
    using writer_holds_new [OF w] by auto
  obtain bw data where b: "binary_writer_open None hash = Ok (bw, data)"
    by (simp add: binary_writer_open_def Let_def)
  obtain jw jsonl where j: "jsonl_writer_open None = (jw, jsonl)"
    by (metis surj_pair)
  obtain idx where idx: "pi_open None = Ok idx" "pi_within {} idx" "pi_by_index idx = []"
    by (simp add: pi_open_def pi_within_def index_header_new_def index_header_ok_def)
  have cfg: "wc_enabled (cfg_wal config)"
    using assms(1) by (simp add: logs_durably_def)
  define e where "e = \<lparr> en_store_type = st, en_config = config,
      en_index = idx, en_binary = bw, en_jsonl = jw, en_wal = Some w, en_cache = [],
      en_next_index = of_nat (pi_len idx) + 1, en_dirty = False, en_last_checkpoint_lsn = 0, en_secondary = [] \<rparr>"
  define d where "d = empty_disk\<lparr> ed_data := Some data, ed_jsonl := Some jsonl, ed_wal := dir \<rparr>"
  have op: "en_open rd am st config empty_disk = Some (Ok (replay_log [] e), d)"
    unfolding e_def d_def
    by (rule en_open_parts [OF _ _ _ cfg _ h _ assms(2)]) (simp_all add: empty_disk_def idx b j w)
  have n: "en_next_index e = 1"
    by (simp add: e_def pi_len_def idx)
  have "store_inv hash (e, d) []"
  proof (rule store_invI)
    show "data_ok hash {1..<en_next_index (fst (e, d))} (e, d)"
      using binary_writer_new [OF b] idx(2) index_file_within_None [of "{}"]
      by (simp add: n data_ok_def) (simp add: e_def d_def empty_disk_def)
  qed (use assms(1) h in \<open>simp_all add: n\<close>,
      simp_all add: e_def d_def log_ok_def log_indices_def cache_view_def [abs_def])
  then show ?thesis
    using op n by (auto simp: replay_log_def) (simp_all add: e_def cache_view_def [abs_def])
qed

subsection \<open>Histories\<close>

text \<open>
  What happens to a store: calls of its clients, and a crash, after which only what is on disk is
  left and the store is opened again.
\<close>

datatype event = EvCreate ambient field_list | EvUpdate ambient u64 field_list
  | EvUpdateField ambient u64 bytes stored_value | EvDelete ambient u64 | EvGet u64
  | EvSave ambient | EvCheckpoint ambient | EvCrash ambient

text \<open>
  The steps of the engine. The guards bound what the model of the files holds (the sizes of records
  and of one log segment, the width of the numbers) and ask for a clock after 1970; \<open>hasher\<close> is the
  standard library's hash, the same in every session.
\<close>

inductive en_step :: "(rstr \<Rightarrow> u64) \<Rightarrow> event \<Rightarrow> store \<Rightarrow> store \<Rightarrow> bool" for hasher where
  step_create: "step_room s \<Longrightarrow> clock_ok am \<Longrightarrow> length (am_uuid am) = 16 \<Longrightarrow> fields_fit flds \<Longrightarrow>
    en_create am flds s = (i, s') \<Longrightarrow> en_step hasher (EvCreate am flds) s s'"
| step_update: "step_room s \<Longrightarrow> clock_ok am \<Longrightarrow> fields_fit flds \<Longrightarrow>
    en_update am i flds s = (r, s') \<Longrightarrow> en_step hasher (EvUpdate am i flds) s s'"
| step_update_field: "step_room s \<Longrightarrow> clock_ok am \<Longrightarrow>
    (\<forall>ob. hm_get i (en_cache (fst s)) = Some ob \<longrightarrow> fields_fit (set_field name v (co_fields ob))) \<Longrightarrow>
    en_update_field am i name v s = (r, s') \<Longrightarrow> en_step hasher (EvUpdateField am i name v) s s'"
| step_delete: "step_room s \<Longrightarrow> clock_ok am \<Longrightarrow> en_delete am i s = (r, s') \<Longrightarrow> en_step hasher (EvDelete am i) s s'"
| step_get: "en_get i s = (r, s') \<Longrightarrow> en_step hasher (EvGet i) s s'"
| step_save: "step_room s \<Longrightarrow> clock_ok am \<Longrightarrow> en_save am s = (r, s') \<Longrightarrow> data_len s' < 2 ^ 63 \<Longrightarrow>
    en_step hasher (EvSave am) s s'"
| step_checkpoint: "step_room s \<Longrightarrow> clock_ok am \<Longrightarrow> en_checkpoint am s = (r, s') \<Longrightarrow> data_len s' < 2 ^ 63 \<Longrightarrow>
    en_step hasher (EvCheckpoint am) s s'"
| step_crash: "am_hash am = hasher \<Longrightarrow>
    en_open rd am (en_store_type (fst s)) (en_config (fst s)) (snd s) = Some (Ok e', d') \<Longrightarrow>
    en_step hasher (EvCrash am) s (e', d')"

inductive_cases en_stepE: "en_step hasher ev s s'"

inductive en_run :: "(rstr \<Rightarrow> u64) \<Rightarrow> event list \<Rightarrow> store \<Rightarrow> store \<Rightarrow> bool" for hasher where
  run_nil: "en_run hasher [] s s"
| run_snoc: "en_run hasher evs s s' \<Longrightarrow> en_step hasher ev s' s'' \<Longrightarrow> en_run hasher (evs @ [ev]) s s''"

text \<open>The specification: a numbered collection of objects, on which a crash does nothing.\<close>

fun spec_step :: "event \<Rightarrow> store_view \<times> u64 \<Rightarrow> store_view \<times> u64" where
  "spec_step (EvCreate am flds) (v, n) = (v(n \<mapsto> (am_uuid am, flds, False)), n + 1)"
| "spec_step (EvUpdate am i flds) (v, n) = (v(i := map_option (\<lambda>(u, f, x). (u, flds, x)) (v i)), n)"
| "spec_step (EvUpdateField am i name val) (v, n) =
     (v(i := map_option (\<lambda>(u, f, x). (u, set_field name val f, x)) (v i)), n)"
| "spec_step (EvDelete am i) (v, n) = (v(i := map_option (\<lambda>(u, f, x). (u, f, True)) (v i)), n)"
| "spec_step (EvGet i) s = s"
| "spec_step (EvSave am) s = s"
| "spec_step (EvCheckpoint am) s = s"
| "spec_step (EvCrash am) s = s"

definition store_abs :: "store \<Rightarrow> store_view \<times> u64" where
  "store_abs s = (cache_view (en_cache (fst s)), en_next_index (fst s))"

definition inv_for :: "(rstr \<Rightarrow> u64) \<Rightarrow> store \<Rightarrow> bool" where
  "inv_for hasher s \<longleftrightarrow> (\<exists>es. store_inv (hasher (en_store_type (fst s))) s es)"

lemma view_None: "hm_get i c = None \<Longrightarrow> (cache_view c)(i := map_option f (cache_view c i)) = cache_view c"
  by (auto simp: cache_view_def)

lemma view_Some: "hm_get i c = Some ob \<Longrightarrow> cache_view c i = Some (co_uuid ob, co_fields ob, co_is_deleted ob)"
  by (simp add: cache_view_def co_view_def)

lemma inv_forI: "store_inv (hasher (en_store_type (fst s))) s' es \<Longrightarrow> same_setup s s' \<Longrightarrow> inv_for hasher s'"
  by (auto simp: inv_for_def same_setup_def)

text \<open>The simulation: a step of the engine is a step of the specification.\<close>

lemma replace_simulates:
  assumes "store_inv (hasher (en_store_type (fst s))) s es" "step_room s" "clock_ok am"
    and "\<forall>ob. hm_get i (en_cache (fst s)) = Some ob \<longrightarrow> fields_fit (g (co_fields ob))"
    and s': "s' = (case hm_get i (en_cache (fst s)) of Some ob \<Rightarrow> en_replace am i ob (g (co_fields ob)) s | None \<Rightarrow> s)"
  shows "inv_for hasher s' \<and> store_abs s' = (let (v, n) = store_abs s in
    (v(i := map_option (\<lambda>(u, f, x). (u, g f, x)) (v i)), n))"
proof (cases "hm_get i (en_cache (fst s))")
  case None
  with assms(1) show ?thesis
    by (auto simp: s' inv_for_def store_abs_def view_None)
next
  case (Some ob)
  have "fields_fit (g (co_fields ob))"
    using assms(4) Some by blast
  from en_replace_inv [OF assms(1-3) this Some] show ?thesis
    using Some by (auto simp: s' store_abs_def view_Some intro: inv_forI)
qed

lemma delete_simulates:
  assumes "store_inv (hasher (en_store_type (fst s))) s es" "step_room s" "clock_ok am"
    and s': "s' = (case hm_get i (en_cache (fst s)) of
      Some ob \<Rightarrow> if co_is_deleted ob then s else en_mark_deleted am i ob s | None \<Rightarrow> s)"
  shows "inv_for hasher s' \<and> store_abs s' = (let (v, n) = store_abs s in
    (v(i := map_option (\<lambda>(u, f, x). (u, f, True)) (v i)), n))"
proof (cases "hm_get i (en_cache (fst s))")
  case None
  with assms(1) show ?thesis
    by (auto simp: s' inv_for_def store_abs_def view_None)
next
  case (Some ob)
  show ?thesis
  proof (cases "co_is_deleted ob")
    case True
    with assms(1) Some show ?thesis
      by (auto simp: s' inv_for_def store_abs_def view_Some fun_upd_idem)
  next
    case False
    from en_mark_deleted_inv [OF assms(1-3) Some] False Some show ?thesis
      by (auto simp: s' store_abs_def view_Some intro: inv_forI)
  qed
qed

lemma en_step_simulates:
  assumes "inv_for hasher s" "en_step hasher ev s s'"
  shows "inv_for hasher s' \<and> store_abs s' = spec_step ev (store_abs s)"
proof -
  obtain es where inv: "store_inv (hasher (en_store_type (fst s))) s es"
    using assms(1) by (auto simp: inv_for_def)
  note get = en_get_inv [OF inv]
  from assms(2) show ?thesis
  proof (cases rule: en_step.cases)
    case (step_create am flds i)
    from en_create_inv [OF inv step_create(2-5)] step_create(6) show ?thesis
      by (auto simp: step_create(1) store_abs_def intro: inv_forI)
  next
    case (step_update am flds i r)
    then have "s' = (case hm_get i (en_cache (fst s)) of Some ob \<Rightarrow> en_replace am i ob flds s | None \<Rightarrow> s)"
      by (simp add: en_update_def get)
    from replace_simulates [where hasher = hasher and s = s and g = "\<lambda>_. flds", OF inv step_update(2,3) _ this] step_update show ?thesis
      by (simp add: Let_def split_beta store_abs_def)
  next
    case (step_update_field am i name v r)
    then have "s' = (case hm_get i (en_cache (fst s)) of
        Some ob \<Rightarrow> en_replace am i ob (set_field name v (co_fields ob)) s | None \<Rightarrow> s)"
      by (simp add: en_update_field_def get)
    from replace_simulates [where hasher = hasher and s = s and g = "set_field name v", OF inv step_update_field(2,3) _ this] step_update_field show ?thesis
      by (simp add: Let_def split_beta store_abs_def)
  next
    case (step_delete am i r)
    then have "s' = (case hm_get i (en_cache (fst s)) of
        Some ob \<Rightarrow> if co_is_deleted ob then s else en_mark_deleted am i ob s | None \<Rightarrow> s)"
      by (simp add: en_delete_def get)
    from delete_simulates [where hasher = hasher and s = s, OF inv step_delete(2,3) this] show ?thesis
      by (simp add: step_delete(1) Let_def split_beta store_abs_def)
  next
    case (step_get i r)
    with assms(1) show ?thesis
      by (simp add: get)
  next
    case (step_save am r)
    from en_save_inv [OF inv step_save(2,3)] step_save(4,5) show ?thesis
      by (auto simp: step_save(1) store_abs_def intro: inv_forI)
  next
    case (step_checkpoint am r)
    from en_checkpoint_inv [OF inv step_checkpoint(2,3)] step_checkpoint(4,5) show ?thesis
      by (auto simp: step_checkpoint(1) store_abs_def intro: inv_forI)
  next
    case (step_crash am rd e' d')
    from en_open_inv [OF inv, of am rd] step_crash show ?thesis
      by (auto simp: store_abs_def intro: inv_forI)
  qed
qed

lemma en_run_simulates:
  "en_run hasher evs s s' \<Longrightarrow> inv_for hasher s \<Longrightarrow> inv_for hasher s' \<and> store_abs s' = fold spec_step evs (store_abs s)"
  by (induction rule: en_run.induct) (auto dest: en_step_simulates)

text \<open>What a client reads of a store that satisfies the invariant.\<close>

definition live_numbers :: "store_view \<times> u64 \<Rightarrow> u64 list" where
  "live_numbers = (\<lambda>(v, n). filter (\<lambda>i. case v i of Some (u, f, x) \<Rightarrow> \<not> x | None \<Rightarrow> False) (map of_nat [1..<unat n]))"

lemma inv_for_reads:
  assumes "inv_for hasher s"
  shows "omap (map_option co_view) (fst (en_get i s)) = Ok (fst (store_abs s) i)"
proof -
  obtain es where "store_inv (hasher (en_store_type (fst s))) s es"
    using assms by (auto simp: inv_for_def)
  from en_get_inv [OF this, of i] show ?thesis
    by (simp add: store_abs_def cache_view_def)
qed

lemma inv_for_reopens:
  assumes "inv_for hasher s" "am_hash am = hasher"
  shows "\<exists>e' d'. en_open rd am (en_store_type (fst s)) (en_config (fst s)) (snd s) = Some (Ok e', d')"
proof -
  obtain es where "store_inv (hasher (en_store_type (fst s))) s es"
    using assms by (auto simp: inv_for_def)
  from en_open_inv [OF this, of am rd] assms(2) show ?thesis
    by auto
qed

lemma live_numbers_props: "sorted (live_numbers (v, n))" "distinct (live_numbers (v, n))"
  "set (live_numbers (v, n)) = {i \<in> {1..<n}. \<exists>u f. v i = Some (u, f, False)}"
proof -
  have u: "unat (of_nat k :: u64) = k" if "k < unat n" for k
    using that unat_lt_2p [of n] by (intro unat_of_nat_u64) simp
  have "sorted (map unat (map (of_nat :: nat \<Rightarrow> u64) [1..<unat n]))"
    "distinct (map unat (map (of_nat :: nat \<Rightarrow> u64) [1..<unat n]))"
  proof -
    have "map unat (map (of_nat :: nat \<Rightarrow> u64) [1..<unat n]) = [1..<unat n]"
      using u map_cong [of "[1..<unat n]" "[1..<unat n]" "\<lambda>k. unat (of_nat k :: u64)" "\<lambda>k. k"]
      by (simp add: comp_def)
    then show "sorted (map unat (map (of_nat :: nat \<Rightarrow> u64) [1..<unat n]))"
      "distinct (map unat (map (of_nat :: nat \<Rightarrow> u64) [1..<unat n]))"
      by (simp_all only: sorted_upt distinct_upt)
  qed
  then have "sorted (map (of_nat :: nat \<Rightarrow> u64) [1..<unat n])" "distinct (map (of_nat :: nat \<Rightarrow> u64) [1..<unat n])"
    by (simp_all only: sorted_wrt_map word_le_nat_alt distinct_map [of unat])
  then show "sorted (live_numbers (v, n))" "distinct (live_numbers (v, n))"
    by (simp_all add: live_numbers_def sorted_wrt_filter)
  have "(of_nat :: nat \<Rightarrow> u64) ` {1..<unat n} = {1..<n}"
  proof (intro set_eqI iffI)
    fix i assume "i \<in> (of_nat :: nat \<Rightarrow> u64) ` {1..<unat n}"
    then show "i \<in> {1..<n}"
      using unat_lt_2p [of n] by (auto simp: word_le_nat_alt word_less_nat_alt unat_of_nat_u64)
  next
    fix i assume "i \<in> {1..<n}"
    then have "unat i \<in> {1..<unat n}"
      by (simp add: word_le_nat_alt word_less_nat_alt)
    then show "i \<in> (of_nat :: nat \<Rightarrow> u64) ` {1..<unat n}"
      by (intro image_eqI [of _ _ "unat i"]) simp_all
  qed
  then show "set (live_numbers (v, n)) = {i \<in> {1..<n}. \<exists>u f. v i = Some (u, f, False)}"
    by (auto simp: live_numbers_def split: option.splits)
qed

lemma en_all_live:
  assumes "inv_for hasher s"
  shows "en_all (fst s) = live_numbers (store_abs s)"
proof -
  obtain es where inv: "store_inv (hasher (en_store_type (fst s))) s es"
    using assms by (auto simp: inv_for_def)
  define e where "e = fst s"
  note I = store_invD [OF inv, folded e_def]
  define n where "n = en_next_index e"
  have keys: "hm_keys_ok (en_cache e)"
    using I(3) by (simp add: cache_ok_def)
  have "hm_contains i (en_cache e)" if "i \<in> {1..<n}" for i
    using that unfolding n_def I(6) [symmetric] by (simp add: hm_contains_def cache_view_def domIff)
  moreover have "set (map of_nat [1..<unat n]) \<subseteq> {1..<n}"
    using unat_lt_2p [of n] by (auto simp: word_le_nat_alt word_less_nat_alt unat_of_nat_u64)
  ultimately have "filter (\<lambda>i. \<not> hm_contains i (en_cache e) \<and>
      (case pi_get_by_index i (en_index e) of Some entry \<Rightarrow> \<not> ie_is_deleted entry | None \<Rightarrow> False))
        (map of_nat [1..<unat n]) = []"
    by (auto simp: filter_empty_conv)
  then have eq: "en_all e = remdups_adj (sort (map fst (filter (\<lambda>(idx, ob). \<not> co_is_deleted ob) (en_cache e))))"
    by (simp add: en_all_def n_def)
  have "distinct (map fst (filter (\<lambda>(idx, ob). \<not> co_is_deleted ob) (en_cache e)))"
    using keys by (simp add: hm_keys_ok_def distinct_map_filter)
  then have all: "en_all e = sort (map fst (filter (\<lambda>(idx, ob). \<not> co_is_deleted ob) (en_cache e)))"
    unfolding eq by (intro remdups_adj_distinct) simp
  have "set (en_all e) = {i. \<exists>u f. cache_view (en_cache e) i = Some (u, f, False)}"
    using keys by (force simp: all cache_view_def co_view_def hm_get_Some)
  also have "\<dots> = set (live_numbers (store_abs s))"
  proof -
    have "i \<in> {1..<n}" if "cache_view (en_cache e) i = Some x" for i x
      using that I(6) unfolding n_def by (metis domI)
    then show ?thesis
      by (auto simp: store_abs_def live_numbers_props e_def [symmetric] n_def simp del: atLeastLessThan_iff)
  qed
  finally have "set (en_all e) = set (live_numbers (store_abs s))" .
  moreover have "sorted (en_all e)" "distinct (en_all e)"
    using \<open>distinct _\<close> by (simp_all add: all)
  ultimately show ?thesis
    using live_numbers_props [of "fst (store_abs s)" "snd (store_abs s)"]
    by (intro sorted_distinct_set_unique) (simp_all add: e_def)
qed

text \<open>
  C1: the engine refines a numbered collection of objects, and survives crashes: opened on an empty
  directory with its log enabled and flushed at every entry, after any history of creations, updates,
  deletions, reads, saves, checkpoints and crashes (between calls, each followed by a reopening from
  disk) every read answers what the history without the crashes says of the object's identifier, its
  fields and whether it is deleted, the listing gives exactly the objects that are not deleted, in
  order, and the store can be opened again from its disk. The log stays in its first segment
  (\<open>step_room\<close>). Versions and times are not part of this: a replayed deletion does not raise the
  version.
\<close>

theorem engine_survives_crashes:
  assumes "logs_durably config" "am_hash am = hasher"
    and "en_open rd am st config empty_disk = Some (Ok e, d)" "en_run hasher evs (e, d) s"
  shows "(\<forall>i. omap (map_option co_view) (fst (en_get i s)) = Ok (fst (fold spec_step evs (Map.empty, 1)) i)) \<and>
    en_all (fst s) = live_numbers (fold spec_step evs (Map.empty, 1)) \<and>
    (\<forall>rd'. \<exists>e' d'. en_open rd' am (en_store_type (fst s)) (en_config (fst s)) (snd s) = Some (Ok e', d'))"
proof -
  from en_open_new [OF assms(1), of am st "hasher st" rd] assms(2,3)
  have "inv_for hasher (e, d)" "store_abs (e, d) = (Map.empty, 1)"
    by (auto simp: inv_for_def store_abs_def)
  with en_run_simulates [OF assms(4)] have "inv_for hasher s" "store_abs s = fold spec_step evs (Map.empty, 1)"
    by auto
  then show ?thesis
    using inv_for_reads [of hasher s] en_all_live [of hasher s] inv_for_reopens [of hasher s am, OF _ assms(2)]
    by auto
qed

text \<open>A store opened on an empty directory has room for a step.\<close>

lemma open_empty_room:
  assumes "logs_durably config" "en_open rd am st config empty_disk = Some (Ok e, d)"
  shows "step_room (e, d)"
proof -
  obtain e1 where e1: "en_open rd am st config empty_disk = Some (Ok e1, d)" "store_inv (am_hash am st) (e1, d) []"
    "en_next_index e1 = 1"
    using en_open_new [OF assms(1), of am st "am_hash am st" rd] assms(2) by auto
  then have e: "e1 = e"
    using assms(2) by simp
  obtain w disk where "writer_holds w (ed_wal d) []" "ww_file w = Some []"
    using store_invD(1) [OF e1(2)] by (auto simp: log_ok_def)
  then obtain disk where disk: "ed_wal d = [(segment_path 0, disk)]" "WAL_HEADER_SIZE \<le> length disk"
    "drop WAL_HEADER_SIZE disk = []"
    by (auto simp: writer_holds_def)
  obtain bw data where b: "binary_writer_open None (am_hash am st) = Ok (bw, data)" "length data = 64"
    using file_header.enc_size [of "binary_file_header_new (am_hash am st)"]
    by (auto simp: binary_writer_open_def Let_def FILE_HEADER_SIZE_def write_at_def)
  have "ed_data d = Some data"
    using assms(2) b(1) by (auto simp: en_open_def empty_disk_def Let_def
        split: outcome.splits option.splits prod.splits if_splits)
  then show ?thesis
    using disk e1(3) b(2) by (simp add: step_room_def log_room_def data_len_def file_contents_def e WAL_HEADER_SIZE_def)
qed

definition sample_ambient :: ambient where
  "sample_ambient = \<lparr> am_now = 5, am_log_now = 6, am_uuid = uuid_nil, am_show_f64 = (\<lambda>_. []), am_hash = (\<lambda>_. 7) \<rparr>"

lemma sample_ambient_ok: "clock_ok sample_ambient" "length (am_uuid sample_ambient) = 16"
  by (simp_all add: clock_ok_def sample_ambient_def uuid_nil_def)

lemma minimal_logs_durably: "logs_durably (store_config_minimal st path)"
  by (simp add: logs_durably_def store_config_minimal_def wal_config_default_def)

lemma sample_fields_fit: "fields_fit [(bstr ''n'', SInt 5)]"
  by (simp add: fields_fit_def wal_field_ok_def bstr_def valid_utf8_ascii field_bytes_def write_varint.simps
      serialize_fields_def wal_field_bytes_def)

text \<open>A history for the witnesses: a store is opened, an object is created, and the program crashes.\<close>

lemma sample_crash:
  assumes "logs_durably config"
  obtains e d s1 e' d' where
    "en_open (\<lambda>n. n) sample_ambient [] config empty_disk = Some (Ok e, d)" "inv_for (\<lambda>_. 7) (e, d)"
    "store_abs (e, d) = (Map.empty, 1)"
    "en_create sample_ambient [(bstr ''n'', SInt 5)] (e, d) = (1, s1)"
    "en_open (\<lambda>n. n) sample_ambient (en_store_type (fst s1)) (en_config (fst s1)) (snd s1) = Some (Ok e', d')"
    "en_run (\<lambda>_. 7) [EvCreate sample_ambient [(bstr ''n'', SInt 5)], EvCrash sample_ambient] (e, d) (e', d')"
proof -
  let ?am = sample_ambient and ?rd = "\<lambda>n::nat. n" and ?flds = "[(bstr ''n'', SInt 5)]"
  have h: "am_hash ?am = (\<lambda>_. 7)"
    by (simp add: sample_ambient_def)
  obtain e d where op: "en_open ?rd ?am [] config empty_disk = Some (Ok e, d)" "store_abs (e, d) = (Map.empty, 1)"
    and inv: "store_inv 7 (e, d) []"
    using en_open_new [OF assms, of ?am "[]" 7 ?rd] h by (auto simp: store_abs_def)
  have "fst (en_create ?am ?flds (e, d)) = 1"
    using op(2) by (simp add: en_create_def store_abs_def Let_def split_beta)
  then obtain s1 where s1: "en_create ?am ?flds (e, d) = (1, s1)"
    by (metis prod.collapse)
  have step: "en_step (\<lambda>_. 7) (EvCreate ?am ?flds) (e, d) s1"
    using open_empty_room [OF assms op(1)] sample_ambient_ok sample_fields_fit s1
    by (rule step_create)
  have inv0: "inv_for (\<lambda>_. 7) (e, d)"
    using inv by (auto simp: inv_for_def)
  then have "inv_for (\<lambda>_. 7) s1"
    using en_step_simulates step by blast
  from inv_for_reopens [OF this h, of ?rd] obtain e' d' where
    re: "en_open ?rd ?am (en_store_type (fst s1)) (en_config (fst s1)) (snd s1) = Some (Ok e', d')"
    by blast
  with h have "en_step (\<lambda>_. 7) (EvCrash ?am) s1 (e', d')"
    by (rule step_crash)
  then have "en_run (\<lambda>_. 7) ([EvCreate ?am ?flds] @ [EvCrash ?am]) (e, d) (e', d')"
    using step run_snoc [OF run_nil, of "\<lambda>_. 7"] by (intro run_snoc [where s' = s1]) auto
  with op inv0 s1 re show ?thesis
    using that by simp
qed

lemma sample_history: "fold spec_step [EvCreate sample_ambient flds, EvCrash sample_ambient] (Map.empty, 1) =
    ([1 \<mapsto> (uuid_nil, flds, False)], 2)"
  by (simp add: sample_ambient_def)

lemma engine_survives_crashes_witness:
  "\<exists>e d s. en_open (\<lambda>n. n) sample_ambient [] (store_config_minimal [] []) empty_disk = Some (Ok e, d) \<and>
    en_run (\<lambda>_. 7) [EvCreate sample_ambient [(bstr ''n'', SInt 5)], EvCrash sample_ambient] (e, d) s \<and>
    omap (map_option co_view) (fst (en_get 1 s)) = Ok (Some (uuid_nil, [(bstr ''n'', SInt 5)], False)) \<and>
    en_all (fst s) = [1]"
proof -
  let ?flds = "[(bstr ''n'', SInt 5)]"
  have h: "am_hash sample_ambient = (\<lambda>_. 7)"
    by (simp add: sample_ambient_def)
  obtain e d e' d' where op: "en_open (\<lambda>n. n) sample_ambient [] (store_config_minimal [] []) empty_disk = Some (Ok e, d)"
    and run: "en_run (\<lambda>_. 7) [EvCreate sample_ambient ?flds, EvCrash sample_ambient] (e, d) (e', d')"
    by (rule sample_crash [OF minimal_logs_durably])
  have live: "live_numbers ([1 \<mapsto> (uuid_nil, ?flds, False)], 2) = [1]"
  proof -
    have "[1..<unat (2 :: u64)] = [1]"
      by (simp add: upt_conv_Cons)
    then show ?thesis
      by (simp add: live_numbers_def)
  qed
  note T = engine_survives_crashes [OF minimal_logs_durably h op run, unfolded sample_history]
  have "omap (map_option co_view) (fst (en_get 1 (e', d'))) = Ok (Some (uuid_nil, ?flds, False))"
    using T [THEN conjunct1, THEN spec, of 1] by (simp only: fst_conv fun_upd_same)
  moreover have "en_all (fst (e', d')) = [1]"
    using T [THEN conjunct2, THEN conjunct1] by (simp only: live)
  ultimately show ?thesis
    using op run by blast
qed

subsection \<open>Recovered objects\<close>

definition all_clean :: "engine \<Rightarrow> bool" where
  "all_clean e \<longleftrightarrow> (\<forall>(k, ob) \<in> set (en_cache e). \<not> co_dirty ob) \<and> \<not> pi_dirty (en_index e)"

lemma hm_insert_values: "(k, v) \<in> set (hm_insert i w m) \<Longrightarrow> v = w \<or> (k, v) \<in> set m"
  by (induction i w m rule: hm_insert.induct) (auto split: if_splits)

lemma hm_get_value: "hm_get i m = Some v \<Longrightarrow> (i, v) \<in> set m"
  by (simp add: hm_get_def map_of_SomeD)

lemma replay_all_clean: "all_clean e \<Longrightarrow> all_clean (snd (replay_wal_entry en e))"
  by (auto simp: replay_wal_entry_def all_clean_def Let_def
      dest!: hm_insert_values hm_get_value split: wal_op.split outcome.split option.split)

lemma recover_loop_clean:
  assumes "recover_loop rd it e = Some y"
  shows "all_clean e \<longrightarrow> all_clean (snd y)"
proof (rule recover_loop.raw_induct [OF _ assms], intro impI)
  fix loop rd it e y
  assume IH: "\<And>rd it e y. loop rd it e = Some y \<Longrightarrow> all_clean e \<longrightarrow> all_clean (snd y)"
    and step: "(case wal_iter_next rd it of
       (None, it) \<Rightarrow> Some (Ok (), e)
     | (Some (Ok entry), it) \<Rightarrow> (case replay_wal_entry entry e of
           (Ok u, e) \<Rightarrow> loop rd it e
         | (Err err, e) \<Rightarrow> Some (Err err, e)
         | (Panic, e) \<Rightarrow> Some (Panic, e))
     | (Some (Err err), it) \<Rightarrow> loop rd it e
     | (Some Panic, it) \<Rightarrow> Some (Panic, e)) = Some y"
    and clean: "all_clean e"
  have replay: "all_clean e'" if "replay_wal_entry en e = (r, e')" for en r e'
    using replay_all_clean [OF clean, of en] that by simp
  show "all_clean (snd y)"
    using step clean by (auto simp: replay_all_clean split: option.splits outcome.splits prod.splits dest: replay dest!: IH)
qed

lemma en_open_clean:
  assumes "en_open rd am st config disk = Some (Ok e, d)"
  shows "all_clean e"
proof -
  have idx: "\<not> pi_dirty idx" if "pi_open f = Ok idx" for f idx
    using that by (auto simp: pi_open_def pi_load_def outcome_simps Let_def split_beta split: option.splits)
  obtain e0 d0 where "en_recover rd (e0, d0) = Some (Ok (), e)" "all_clean e0"
    using assms idx by (auto simp: en_open_def Let_def all_clean_def outcome_simps
        split: outcome.splits prod.splits if_splits)
  with recover_loop_clean show ?thesis
    by (fastforce simp: en_recover_def split: if_splits)
qed

text \<open>
  C30: what recovery read back from the log is not written to the data files by a later save: the
  replayed objects count as clean, so they live in the log alone for as long as nobody changes them,
  whatever the disk held when the store was opened.
\<close>

theorem recovered_objects_not_saved:
  assumes "en_open rd am st config disk = Some (Ok e, d)" "en_save am' (e, d) = (r, e', d')"
  shows "ed_data d' = ed_data d \<and> ed_jsonl d' = ed_jsonl d \<and> ed_index d' = ed_index d"
proof -
  have "all_clean e"
    by (rule en_open_clean [OF assms(1)])
  then have "en_dirty_indices e = []" "pi_save (en_index e) (ed_index d) = (en_index e, ed_index d)"
    by (auto simp: all_clean_def en_dirty_indices_def filter_empty_conv pi_save_def)
  with assms(2) show ?thesis
    by (auto simp: en_save_def split: option.splits outcome.splits)
qed

text \<open>A store that does not persist at once: the recovered object has no entry in the index, and gets none.\<close>

definition lazy_config :: store_config where
  "lazy_config = (store_config_minimal [] [])\<lparr> cfg_auto_persist := auto_persist_config_default\<lparr> ap_enabled := False \<rparr> \<rparr>"

lemma en_open_keeps:
  assumes "en_open rd am st config disk = Some (Ok e, d)"
  shows "ed_index d = ed_index disk"
  using assms by (auto simp: en_open_def Let_def split: outcome.splits prod.splits if_splits)

lemma recovered_objects_not_saved_witness:
  "\<exists>st config disk e d. en_open (\<lambda>n. n) sample_ambient st config disk = Some (Ok e, d) \<and>
    cache_view (en_cache e) 1 = Some (uuid_nil, [(bstr ''n'', SInt 5)], False) \<and>
    ed_index d = None \<and> ed_index (snd (snd (en_save sample_ambient (e, d)))) = None"
proof -
  let ?flds = "[(bstr ''n'', SInt 5)]"
  have durable: "logs_durably lazy_config"
    by (simp add: logs_durably_def lazy_config_def store_config_minimal_def wal_config_default_def)
  obtain e d s1 e' d' where op: "en_open (\<lambda>n. n) sample_ambient [] lazy_config empty_disk = Some (Ok e, d)"
    and inv: "inv_for (\<lambda>_. 7) (e, d)" "store_abs (e, d) = (Map.empty, 1)"
    and s1: "en_create sample_ambient ?flds (e, d) = (1, s1)"
    and re: "en_open (\<lambda>n. n) sample_ambient (en_store_type (fst s1)) (en_config (fst s1)) (snd s1) = Some (Ok e', d')"
    and run: "en_run (\<lambda>_. 7) [EvCreate sample_ambient ?flds, EvCrash sample_ambient] (e, d) (e', d')"
    by (rule sample_crash [OF durable])
  have "en_config e = lazy_config"
    using en_open_new [OF durable, of sample_ambient "[]" "7" "\<lambda>n. n"] op by (auto simp: sample_ambient_def)
  then have "ed_index (snd s1) = ed_index d"
    using s1 by (auto simp: en_create_def en_log_def lazy_config_def Let_def split: prod.splits option.splits if_splits)
  then have none: "ed_index d' = None"
    using en_open_keeps [OF op] en_open_keeps [OF re] by (simp add: empty_disk_def)
  have "fst (store_abs (e', d')) 1 = Some (uuid_nil, ?flds, False)"
    using en_run_simulates [OF run inv(1)] by (simp only: inv(2) sample_history) simp
  then have view: "cache_view (en_cache e') 1 = Some (uuid_nil, ?flds, False)"
    by (simp add: store_abs_def)
  obtain r e2 d2 where sv: "en_save sample_ambient (e', d') = (r, e2, d2)"
    by (metis surj_pair)
  from recovered_objects_not_saved [OF re sv] sv none have "ed_index (snd (snd (en_save sample_ambient (e', d')))) = None"
    by simp
  with re view none show ?thesis
    by blast
qed

end
