(* ===== verification/Store_Tx.thy ===== *)
theory Store_Tx
  imports Store_Recovery Coral_Span
begin

text \<open>
  Transactions (\<open>runtime/src/store/transaction.rs\<close>): operations on the shared engine with snapshots of
  the objects they change, commit as a checkpoint, rollback as compensating operations, and what a
  rollback restores.
\<close>

subsection \<open>Transactions\<close>

datatype tx_state = TxActive | TxCommitted | TxAborted

datatype tx_op = TxInsert u64 field_list | TxUpdate u64 field_list | TxDelete u64

record transaction =
  tx_id :: u64
  tx_status :: tx_state
  tx_ops :: "tx_op list"
  tx_snapshots :: "(u64, field_list) hmap"

text \<open>The counter of transactions is process-wide: its value is taken and returned.\<close>

definition tx_begin :: "u64 \<Rightarrow> transaction \<times> u64" where
  "tx_begin counter = (\<lparr> tx_id = counter, tx_status = TxActive, tx_ops = [], tx_snapshots = [] \<rparr>, counter + 1)"

definition tx_state_debug :: "tx_state \<Rightarrow> string" where
  "tx_state_debug st = (case st of TxActive \<Rightarrow> ''Active'' | TxCommitted \<Rightarrow> ''Committed'' | TxAborted \<Rightarrow> ''Aborted'')"

definition tx_check_active :: "transaction \<Rightarrow> unit io" where
  "tx_check_active tx = (if tx_status tx \<noteq> TxActive
     then Err (InvalidInput, ''transaction '' @ show_nat (unat (tx_id tx)) @ '' is '' @
       tx_state_debug (tx_status tx) @ '', not active'')
     else Ok ())"

definition tx_insert :: "ambient \<Rightarrow> field_list \<Rightarrow> transaction \<Rightarrow> store \<Rightarrow> u64 io \<times> transaction \<times> store" where
  "tx_insert am flds tx s = (case tx_check_active tx of
       Err err \<Rightarrow> (Err err, tx, s) | Panic \<Rightarrow> (Panic, tx, s)
     | Ok u \<Rightarrow> (let (index, s) = en_create am flds s in
         (Ok index, tx\<lparr> tx_ops := tx_ops tx @ [TxInsert index flds] \<rparr>, s)))"

text \<open>Before its first change in the transaction the fields of an object are kept.\<close>

definition tx_snapshot :: "u64 \<Rightarrow> transaction \<Rightarrow> store \<Rightarrow> unit io \<times> transaction \<times> store" where
  "tx_snapshot index tx s =
     (if hm_contains index (tx_snapshots tx) then (Ok (), tx, s)
      else case en_get index s of
          (Ok (Some ob), s) \<Rightarrow> (Ok (), tx\<lparr> tx_snapshots := hm_insert index (co_fields ob) (tx_snapshots tx) \<rparr>, s)
        | (Ok None, s) \<Rightarrow> (Ok (), tx, s)
        | (Err err, s) \<Rightarrow> (Err err, tx, s)
        | (Panic, s) \<Rightarrow> (Panic, tx, s))"

definition tx_change :: "tx_op \<Rightarrow> u64 \<Rightarrow> (store \<Rightarrow> unit io \<times> store) \<Rightarrow> transaction \<Rightarrow> store \<Rightarrow> unit io \<times> transaction \<times> store" where
  "tx_change entry index change tx s = (case tx_check_active tx of
       Err err \<Rightarrow> (Err err, tx, s) | Panic \<Rightarrow> (Panic, tx, s)
     | Ok u \<Rightarrow> (case tx_snapshot index tx s of
         (Ok u, tx, s) \<Rightarrow> (case change s of
             (Ok u, s) \<Rightarrow> (Ok (), tx\<lparr> tx_ops := tx_ops tx @ [entry] \<rparr>, s)
           | (r, s) \<Rightarrow> (r, tx, s))
       | r \<Rightarrow> r))"

definition tx_update :: "ambient \<Rightarrow> u64 \<Rightarrow> field_list \<Rightarrow> transaction \<Rightarrow> store \<Rightarrow> unit io \<times> transaction \<times> store" where
  "tx_update am index flds = tx_change (TxUpdate index flds) index (en_update am index flds)"

definition tx_delete :: "ambient \<Rightarrow> u64 \<Rightarrow> transaction \<Rightarrow> store \<Rightarrow> unit io \<times> transaction \<times> store" where
  "tx_delete am index = tx_change (TxDelete index) index (en_delete am index)"

text \<open>\<open>commit\<close> and \<open>rollback\<close> consume the transaction.\<close>

definition tx_commit :: "ambient \<Rightarrow> transaction \<Rightarrow> store \<Rightarrow> unit io \<times> store" where
  "tx_commit am tx s = (case tx_check_active tx of
       Err err \<Rightarrow> (Err err, s) | Panic \<Rightarrow> (Panic, s) | Ok u \<Rightarrow> en_checkpoint am s)"

text \<open>Undoing one operation; the engine's errors are dropped (\<open>let _ =\<close>), a panic is not.\<close>

definition tx_undo :: "(u64, field_list) hmap \<Rightarrow> ambient \<Rightarrow> tx_op \<Rightarrow> store \<Rightarrow> unit io \<times> store" where
  "tx_undo snaps am entry s = (case entry of
       TxInsert index flds \<Rightarrow> en_delete am index s
     | TxUpdate index flds \<Rightarrow> (case hm_get index snaps of
         Some original \<Rightarrow> en_update am index original s | None \<Rightarrow> (Ok (), s))
     | TxDelete index \<Rightarrow> (case hm_get index snaps of
         Some original \<Rightarrow> (Ok (), snd (en_create am original s)) | None \<Rightarrow> (Ok (), s)))"

fun tx_undo_all :: "(u64, field_list) hmap \<Rightarrow> (ambient \<times> tx_op) list \<Rightarrow> store \<Rightarrow> unit io \<times> store" where
  "tx_undo_all snaps [] s = (Ok (), s)"
| "tx_undo_all snaps ((am, entry) # ops) s = (case tx_undo snaps am entry s of
     (Panic, s) \<Rightarrow> (Panic, s) | (r, s) \<Rightarrow> tx_undo_all snaps ops s)"

text \<open>One reading of the clock for each operation undone: the list \<open>ams\<close>.\<close>

definition tx_rollback :: "ambient list \<Rightarrow> transaction \<Rightarrow> store \<Rightarrow> unit io \<times> store" where
  "tx_rollback ams tx s = (case tx_check_active tx of
       Err err \<Rightarrow> (Err err, s) | Panic \<Rightarrow> (Panic, s)
     | Ok u \<Rightarrow> tx_undo_all (tx_snapshots tx) (zip ams (rev (tx_ops tx))) s)"

subsection \<open>What rollback restores\<close>

text \<open>A transaction under way: steps of \<open>tx_insert\<close> and \<open>tx_update\<close>, with the guards of \<open>en_step\<close>.\<close>

inductive tx_run :: "(rstr \<Rightarrow> u64) \<Rightarrow> store \<Rightarrow> transaction \<Rightarrow> store \<Rightarrow> bool" for hasher s0 where
  tx_start: "tx_begin counter = (tx, counter') \<Longrightarrow> tx_run hasher s0 tx s0"
| tx_inserted: "tx_run hasher s0 tx s \<Longrightarrow> step_room s \<Longrightarrow> clock_ok am \<Longrightarrow> length (am_uuid am) = 16 \<Longrightarrow> fields_fit flds \<Longrightarrow>
    tx_insert am flds tx s = (r, tx', s') \<Longrightarrow> tx_run hasher s0 tx' s'"
| tx_updated: "tx_run hasher s0 tx s \<Longrightarrow> step_room s \<Longrightarrow> clock_ok am \<Longrightarrow> fields_fit flds \<Longrightarrow>
    tx_update am i flds tx s = (r, tx', s') \<Longrightarrow> tx_run hasher s0 tx' s'"

text \<open>The changes a transaction makes, as its operations and snapshots describe them.\<close>

definition tx_inserted_ids :: "transaction \<Rightarrow> u64 set" where
  "tx_inserted_ids tx = {i. \<exists>flds. TxInsert i flds \<in> set (tx_ops tx)}"

text \<open>
  An object \<open>y0\<close> of before is still there as \<open>y\<close>, with other fields at most if it was updated, and then
  its old fields are in its snapshot.
\<close>

definition tx_keeps :: "transaction \<Rightarrow> u64 \<Rightarrow> obj_view \<Rightarrow> obj_view option \<Rightarrow> bool" where
  "tx_keeps tx i = (\<lambda>(u, f, x) y. (\<exists>f'. y = Some (u, f', x) \<and> (f' = f \<or> (\<exists>flds. TxUpdate i flds \<in> set (tx_ops tx)))) \<and>
     ((\<exists>flds. TxUpdate i flds \<in> set (tx_ops tx)) \<longrightarrow> hm_get i (tx_snapshots tx) \<noteq> None) \<and>
     hm_get i (tx_snapshots tx) \<in> {None, Some f})"

definition tx_describes :: "store_view \<Rightarrow> transaction \<Rightarrow> store_view \<Rightarrow> bool" where
  "tx_describes v0 tx v \<longleftrightarrow> tx_status tx = TxActive \<and> (\<forall>i. TxDelete i \<notin> set (tx_ops tx)) \<and>
     dom v = dom v0 \<union> tx_inserted_ids tx \<and> dom v0 \<inter> tx_inserted_ids tx = {} \<and>
     (\<forall>i y0. v0 i = Some y0 \<longrightarrow> tx_keeps tx i y0 (v i)) \<and>
     (\<forall>i g. hm_get i (tx_snapshots tx) = Some g \<longrightarrow> fields_fit g)"

lemma inv_for_facts:
  assumes "inv_for hasher s"
  shows "dom (fst (store_abs s)) = {1..<snd (store_abs s)}"
    "en_get i s = (Ok (hm_get i (en_cache (fst s))), s)"
    "hm_get i (en_cache (fst s)) = Some ob \<Longrightarrow> fields_fit (co_fields ob)"
proof -
  obtain es where inv: "store_inv (hasher (en_store_type (fst s))) s es"
    using assms by (auto simp: inv_for_def)
  show "dom (fst (store_abs s)) = {1..<snd (store_abs s)}"
    using store_invD(6) [OF inv] by (simp add: store_abs_def)
  show "en_get i s = (Ok (hm_get i (en_cache (fst s))), s)"
    by (rule en_get_inv [OF inv])
  show "hm_get i (en_cache (fst s)) = Some ob \<Longrightarrow> fields_fit (co_fields ob)"
    using cache_okD(3) [OF store_invD(3) [OF inv]] by blast
qed

lemma tx_insert_step:
  assumes "inv_for hasher s" "tx_status tx = TxActive" "step_room s" "clock_ok am" "length (am_uuid am) = 16" "fields_fit flds"
    and "tx_insert am flds tx s = (r, tx', s')"
  shows "inv_for hasher s' \<and> tx' = tx\<lparr> tx_ops := tx_ops tx @ [TxInsert (snd (store_abs s)) flds] \<rparr> \<and>
    store_abs s' = spec_step (EvCreate am flds) (store_abs s)"
proof -
  obtain i s1 where c: "en_create am flds s = (i, s1)"
    by (metis surj_pair)
  have "i = snd (store_abs s)"
    using c by (auto simp: en_create_def Let_def store_abs_def split: prod.splits)
  with c assms en_step_simulates [OF assms(1) step_create [OF assms(3-6) c]] show ?thesis
    by (auto simp: tx_insert_def tx_check_active_def)
qed

lemma tx_update_step:
  assumes "inv_for hasher s" "tx_status tx = TxActive" "step_room s" "clock_ok am" "fields_fit flds"
    and "tx_update am i flds tx s = (r, tx', s')"
  shows "inv_for hasher s' \<and> store_abs s' = spec_step (EvUpdate am i flds) (store_abs s) \<and>
    tx' = tx\<lparr> tx_ops := tx_ops tx @ [TxUpdate i flds],
      tx_snapshots := (case (hm_get i (tx_snapshots tx), hm_get i (en_cache (fst s))) of
         (None, Some ob) \<Rightarrow> hm_insert i (co_fields ob) (tx_snapshots tx) | _ \<Rightarrow> tx_snapshots tx) \<rparr>"
proof -
  note get = inv_for_facts(2) [OF assms(1)]
  obtain r1 s1 where u: "en_update am i flds s = (r1, s1)"
    by (metis surj_pair)
  have "r1 = Ok ()"
    using u by (auto simp: en_update_def get)
  with u en_step_simulates [OF assms(1) step_update [OF assms(3-5) u]] assms(2,6) show ?thesis
    by (auto simp: tx_update_def tx_change_def tx_check_active_def tx_snapshot_def get hm_contains_def
        split: option.splits)
qed

lemma tx_describes_insert:
  assumes d: "tx_describes v0 tx v" and n: "n \<notin> dom v"
  shows "tx_describes v0 (tx\<lparr> tx_ops := tx_ops tx @ [TxInsert n flds] \<rparr>) (v(n \<mapsto> y))"
proof -
  let ?tx = "tx\<lparr> tx_ops := tx_ops tx @ [TxInsert n flds] \<rparr>"
  have ids: "tx_inserted_ids ?tx = insert n (tx_inserted_ids tx)"
    by (auto simp: tx_inserted_ids_def)
  have "dom v = dom v0 \<union> tx_inserted_ids tx" "dom v0 \<inter> tx_inserted_ids tx = {}"
    using d by (simp_all add: tx_describes_def)
  then have "dom (v(n \<mapsto> y)) = dom v0 \<union> tx_inserted_ids ?tx" "dom v0 \<inter> tx_inserted_ids ?tx = {}"
    using n by (auto simp: ids)
  moreover have "tx_keeps ?tx i y0 ((v(n \<mapsto> y)) i)" if "v0 i = Some y0" for i y0
  proof -
    have "i \<noteq> n"
      using that \<open>dom v = _\<close> n by auto
    moreover have "tx_keeps tx i y0 (v i)"
      using that d unfolding tx_describes_def by blast
    ultimately show ?thesis
      by (simp add: tx_keeps_def)
  qed
  ultimately show ?thesis
    using d unfolding tx_describes_def by simp
qed

lemma tx_describes_update:
  assumes d: "tx_describes v0 tx v"
    and fit: "\<And>u f x. v i = Some (u, f, x) \<Longrightarrow> fields_fit f"
    and s': "snaps' = (case (hm_get i (tx_snapshots tx), v i) of
      (None, Some (u, f, x)) \<Rightarrow> hm_insert i f (tx_snapshots tx) | _ \<Rightarrow> tx_snapshots tx)"
  shows "tx_describes v0 (tx\<lparr> tx_ops := tx_ops tx @ [TxUpdate i flds], tx_snapshots := snaps' \<rparr>)
    (v(i := map_option (\<lambda>(u, f, x). (u, flds, x)) (v i)))"
proof -
  let ?tx = "tx\<lparr> tx_ops := tx_ops tx @ [TxUpdate i flds], tx_snapshots := snaps' \<rparr>"
  let ?v = "v(i := map_option (\<lambda>(u, f, x). (u, flds, x)) (v i))"
  have ids: "tx_inserted_ids ?tx = tx_inserted_ids tx" and dom: "dom ?v = dom v"
    by (auto simp: tx_inserted_ids_def dom_def)
  have snaps: "hm_get j snaps' = (if j = i \<and> hm_get i (tx_snapshots tx) = None
      then map_option (\<lambda>(u, f, x). f) (v i) else hm_get j (tx_snapshots tx))" for j
    by (auto simp: s' split: option.splits)
  have old: "\<forall>j g. hm_get j (tx_snapshots tx) = Some g \<longrightarrow> fields_fit g"
    using d unfolding tx_describes_def by blast
  have "\<forall>j g. hm_get j snaps' = Some g \<longrightarrow> fields_fit g"
  proof (intro allI impI)
    fix j g assume "hm_get j snaps' = Some g"
    with old fit show "fields_fit g"
      by (fastforce simp: snaps split: if_splits)
  qed
  moreover have "tx_keeps ?tx j y0 (?v j)" if "v0 j = Some y0" for j y0
  proof -
    obtain u f x where y0: "y0 = (u, f, x)" by (cases y0)
    have "tx_keeps tx j y0 (v j)"
      using that d unfolding tx_describes_def by blast
    then show ?thesis
      by (cases "j = i") (auto simp: tx_keeps_def y0 snaps)
  qed
  ultimately show ?thesis
    using d unfolding tx_describes_def ids dom by simp
qed

lemma tx_run_describes:
  assumes "tx_run hasher s0 tx s" "inv_for hasher s0"
  shows "inv_for hasher s \<and> tx_describes (fst (store_abs s0)) tx (fst (store_abs s))"
  using assms
proof (induction rule: tx_run.induct)
  case (tx_start counter tx counter')
  have "tx_keeps tx i y0 (Some y0)" for i y0
    using tx_start(1) by (cases y0) (auto simp: tx_begin_def tx_keeps_def)
  with tx_start show ?case
    by (auto simp: tx_begin_def tx_describes_def tx_inserted_ids_def)
next
  case (tx_inserted tx s am flds r tx' s')
  then have IH: "inv_for hasher s" "tx_describes (fst (store_abs s0)) tx (fst (store_abs s))"
    by auto
  then have act: "tx_status tx = TxActive"
    by (simp add: tx_describes_def)
  note st = tx_insert_step [OF IH(1) act tx_inserted(2-6)]
  have n: "snd (store_abs s) \<notin> dom (fst (store_abs s))"
    by (simp add: inv_for_facts(1) [OF IH(1)])
  have v: "fst (store_abs s') = (fst (store_abs s))(snd (store_abs s) \<mapsto> (am_uuid am, flds, False))"
    using st by (cases "store_abs s") simp
  have tx': "tx' = tx\<lparr> tx_ops := tx_ops tx @ [TxInsert (snd (store_abs s)) flds] \<rparr>"
    using st by blast
  show ?case
    unfolding v tx' using st tx_describes_insert [OF IH(2) n] by blast
next
  case (tx_updated tx s am flds i r tx' s')
  then have IH: "inv_for hasher s" "tx_describes (fst (store_abs s0)) tx (fst (store_abs s))"
    by auto
  then have act: "tx_status tx = TxActive"
    by (simp add: tx_describes_def)
  note st = tx_update_step [OF IH(1) act tx_updated(2,3,4,5)]
  have v: "fst (store_abs s) i = map_option co_view (hm_get i (en_cache (fst s)))"
    by (simp add: store_abs_def cache_view_def)
  have fit: "fields_fit f" if "fst (store_abs s) i = Some (u, f, x)" for u f x
    using that inv_for_facts(3) [OF IH(1), of i] by (auto simp: v co_view_def)
  have snaps: "(case (hm_get i (tx_snapshots tx), hm_get i (en_cache (fst s))) of
         (None, Some ob) \<Rightarrow> hm_insert i (co_fields ob) (tx_snapshots tx) | _ \<Rightarrow> tx_snapshots tx) =
      (case (hm_get i (tx_snapshots tx), fst (store_abs s) i) of
      (None, Some (u, f, x)) \<Rightarrow> hm_insert i f (tx_snapshots tx) | _ \<Rightarrow> tx_snapshots tx)"
    by (auto simp: v co_view_def split: option.split)
  have v': "fst (store_abs s') =
      (fst (store_abs s))(i := map_option (\<lambda>(u, f, x). (u, flds, x)) (fst (store_abs s) i))"
    using st by (cases "store_abs s") simp
  note tx' = conjunct2 [OF conjunct2 [OF st], unfolded snaps]
  show ?case
    unfolding v' tx'
  proof (intro conjI)
    show "inv_for hasher s'"
      using st by blast
  qed (rule tx_describes_update [OF IH(2) _ refl], erule fit)
qed

subsection \<open>Undoing\<close>

fun undo_room :: "(u64, field_list) hmap \<Rightarrow> (ambient \<times> tx_op) list \<Rightarrow> store \<Rightarrow> bool" where
  "undo_room snaps [] s \<longleftrightarrow> True"
| "undo_room snaps ((am, entry) # ops) s \<longleftrightarrow>
     step_room s \<and> clock_ok am \<and> undo_room snaps ops (snd (tx_undo snaps am entry s))"

definition undo_view :: "(u64, field_list) hmap \<Rightarrow> tx_op set \<Rightarrow> store_view \<Rightarrow> store_view" where
  "undo_view snaps ops v i = (case v i of None \<Rightarrow> None | Some (u, f, x) \<Rightarrow> Some
     (u, case hm_get i snaps of Some g \<Rightarrow> if \<exists>flds. TxUpdate i flds \<in> ops then g else f | None \<Rightarrow> f,
      x \<or> (\<exists>flds. TxInsert i flds \<in> ops)))"

lemma tx_undo_step:
  assumes "inv_for hasher s" "step_room s" "clock_ok am" "\<forall>i. entry \<noteq> TxDelete i"
    and "\<forall>i g. hm_get i snaps = Some g \<longrightarrow> fields_fit g"
  shows "\<exists>s'. tx_undo snaps am entry s = (Ok (), s') \<and> inv_for hasher s' \<and>
    store_abs s' = (undo_view snaps {entry} (fst (store_abs s)), snd (store_abs s))"
proof (cases entry)
  case (TxInsert i flds)
  obtain r s' where u: "en_delete am i s = (r, s')"
    by (metis surj_pair)
  have "r = Ok ()"
    using u by (auto simp: en_delete_def inv_for_facts(2) [OF assms(1)])
  moreover have "undo_view snaps {entry} v = v(i := map_option (\<lambda>(u, f, x). (u, f, True)) (v i))" for v
    by (auto simp: undo_view_def TxInsert fun_eq_iff split: option.split)
  ultimately show ?thesis
    using u en_step_simulates [OF assms(1) step_delete [OF assms(2,3) u]]
    by (cases "store_abs s") (simp add: TxInsert tx_undo_def)
next
  case (TxUpdate i flds)
  show ?thesis
  proof (cases "hm_get i snaps")
    case None
    then have "undo_view snaps {entry} v = v" for v
      by (auto simp: undo_view_def TxUpdate fun_eq_iff split: option.split)
    with None assms(1) show ?thesis
      by (simp add: TxUpdate tx_undo_def)
  next
    case (Some g)
    obtain r s' where u: "en_update am i g s = (r, s')"
      by (metis surj_pair)
    have "r = Ok ()"
      using u by (auto simp: en_update_def inv_for_facts(2) [OF assms(1)])
    moreover have "undo_view snaps {entry} v = v(i := map_option (\<lambda>(u, f, x). (u, g, x)) (v i))" for v
      using Some by (auto simp: undo_view_def TxUpdate fun_eq_iff split: option.split)
    ultimately show ?thesis
      using u Some en_step_simulates [OF assms(1) step_update [OF assms(2,3) _ u]] assms(5)
      by (cases "store_abs s") (simp add: TxUpdate tx_undo_def)
  qed
next
  case (TxDelete i)
  with assms(4) show ?thesis by simp
qed

lemma undo_view_Un: "undo_view snaps A (undo_view snaps B v) = undo_view snaps (A \<union> B) v"
  by (auto simp: undo_view_def fun_eq_iff split: option.split)

lemma tx_undo_all_view:
  assumes "inv_for hasher s" "undo_room snaps aops s" "\<forall>i. TxDelete i \<notin> snd ` set aops"
    and "\<forall>i g. hm_get i snaps = Some g \<longrightarrow> fields_fit g"
  shows "\<exists>s'. tx_undo_all snaps aops s = (Ok (), s') \<and> inv_for hasher s' \<and>
    store_abs s' = (undo_view snaps (snd ` set aops) (fst (store_abs s)), snd (store_abs s))"
  using assms(1-3)
proof (induction aops arbitrary: s)
  case Nil
  have "undo_view snaps {} v = v" for v
    by (auto simp: undo_view_def fun_eq_iff split: option.split)
  with Nil show ?case
    by (simp add: store_abs_def)
next
  case (Cons a aops)
  obtain am entry where a: "a = (am, entry)" by (cases a)
  obtain s1 where s1: "tx_undo snaps am entry s = (Ok (), s1)" "inv_for hasher s1"
    "store_abs s1 = (undo_view snaps {entry} (fst (store_abs s)), snd (store_abs s))"
    using tx_undo_step [OF Cons.prems(1) _ _ _ assms(4), of am entry] Cons.prems(2,3) by (auto simp: a)
  have "undo_room snaps aops s1" "\<forall>i. TxDelete i \<notin> snd ` set aops"
    using Cons.prems(2,3) s1(1) by (simp_all add: a)
  from Cons.IH [OF s1(2) this] show ?case
    by (auto simp: a s1 undo_view_Un)
qed

lemma set_live_numbers:
  assumes "dom v = {1..<n}"
  shows "set (live_numbers (v, n)) = {i. \<exists>u f. v i = Some (u, f, False)}"
proof -
  have "i \<in> {1..<n}" if "v i = Some y" for i y
    using that assms by (metis domI)
  then show ?thesis
    by (auto simp: live_numbers_props simp del: atLeastLessThan_iff)
qed

lemma live_numbers_cong:
  assumes "dom v = {1..<n}" "dom v' = {1..<n'}"
    "\<And>i. (\<exists>u f. v i = Some (u, f, False)) \<longleftrightarrow> (\<exists>u f. v' i = Some (u, f, False))"
  shows "live_numbers (v, n) = live_numbers (v', n')"
  by (rule sorted_distinct_set_unique) (simp_all add: live_numbers_props(1,2) set_live_numbers assms)

lemma undo_view_restores:
  assumes "tx_describes v0 tx v"
  shows "v0 i = Some y0 \<Longrightarrow> undo_view (tx_snapshots tx) (set (tx_ops tx)) v i = Some y0"
    "v0 i = None \<Longrightarrow> undo_view (tx_snapshots tx) (set (tx_ops tx)) v i = Some (u, f, x) \<Longrightarrow> x"
proof -
  have dom: "dom v = dom v0 \<union> tx_inserted_ids tx" "dom v0 \<inter> tx_inserted_ids tx = {}"
    using assms by (simp_all add: tx_describes_def)
  show "undo_view (tx_snapshots tx) (set (tx_ops tx)) v i = Some y0" if "v0 i = Some y0"
  proof -
    have "tx_keeps tx i y0 (v i)"
      using that assms unfolding tx_describes_def by blast
    moreover have "i \<notin> tx_inserted_ids tx"
      using that dom(2) by auto
    ultimately show ?thesis
      by (cases y0) (auto simp: tx_keeps_def undo_view_def tx_inserted_ids_def split: option.split)
  qed
  show "x" if "v0 i = None" "undo_view (tx_snapshots tx) (set (tx_ops tx)) v i = Some (u, f, x)"
  proof -
    have "i \<in> dom v"
      using that(2) by (auto simp: undo_view_def split: option.splits)
    with dom(1) that(1) have "i \<in> tx_inserted_ids tx"
      by (auto simp: domIff)
    with that(2) show ?thesis
      by (auto simp: undo_view_def tx_inserted_ids_def split: option.splits)
  qed
qed

lemma rollback_restores:
  assumes inv: "inv_for hasher s0" and run: "tx_run hasher s0 tx s" and ams: "length ams = length (tx_ops tx)"
    and room: "undo_room (tx_snapshots tx) (zip ams (rev (tx_ops tx))) s"
  shows "\<exists>s'. tx_rollback ams tx s = (Ok (), s') \<and> inv_for hasher s' \<and> en_all (fst s') = en_all (fst s0) \<and>
    (\<forall>i. fst (store_abs s0) i \<noteq> None \<longrightarrow> fst (store_abs s') i = fst (store_abs s0) i)"
proof -
  let ?ops = "zip ams (rev (tx_ops tx))" and ?v0 = "fst (store_abs s0)"
  have S: "inv_for hasher s" "tx_describes ?v0 tx (fst (store_abs s))"
    using tx_run_describes [OF run inv] by auto
  have act: "tx_status tx = TxActive" and nodel: "\<forall>i. TxDelete i \<notin> set (tx_ops tx)"
    and fit: "\<forall>i g. hm_get i (tx_snapshots tx) = Some g \<longrightarrow> fields_fit g"
    using S(2) by (simp_all add: tx_describes_def)
  have ops: "snd ` set ?ops = set (tx_ops tx)"
    using ams by (simp add: set_map [symmetric] del: set_map)
  obtain s' where s': "tx_undo_all (tx_snapshots tx) ?ops s = (Ok (), s')" "inv_for hasher s'"
    "store_abs s' = (undo_view (tx_snapshots tx) (set (tx_ops tx)) (fst (store_abs s)), snd (store_abs s))"
    using tx_undo_all_view [OF S(1) room _ fit] nodel unfolding ops by blast
  note R = undo_view_restores [OF S(2)]
  have keep: "fst (store_abs s') i = Some y0" if "?v0 i = Some y0" for i y0
    using R(1) [OF that] by (simp add: s')
  have live: "(\<exists>u f. fst (store_abs s') i = Some (u, f, False)) \<longleftrightarrow> (\<exists>u f. ?v0 i = Some (u, f, False))" for i
  proof (cases "?v0 i")
    case None
    then show ?thesis
      using R(2) [OF None] by (auto simp: s')
  next
    case (Some y0)
    then show ?thesis
      using keep [OF Some] by simp
  qed
  have "live_numbers (store_abs s') = live_numbers (store_abs s0)"
    using live_numbers_cong [OF inv_for_facts(1) [OF s'(2)] inv_for_facts(1) [OF inv] live] by simp
  then have "en_all (fst s') = en_all (fst s0)"
    using en_all_live [OF s'(2)] en_all_live [OF inv] by simp
  with s' keep show ?thesis
    by (intro exI [of _ s']) (auto simp: tx_rollback_def tx_check_active_def act)
qed

text \<open>
  C5: rolling back a transaction of insertions and updates restores what clients see: the listing is
  the one before the transaction, and every object that was there answers every read as before: with its
  identifier, its fields and whether it is deleted (its version and its time of change go on). Deletions are
  not in it: undoing one makes a new object (lemma \<open>tx_rollback_of_delete\<close>).
\<close>

theorem tx_rollback_restores:
  assumes "logs_durably config" "am_hash am = hasher" "en_open rd am st config empty_disk = Some (Ok e, d)"
    and "en_run hasher evs (e, d) s0" "tx_run hasher s0 tx s" "length ams = length (tx_ops tx)"
    and "undo_room (tx_snapshots tx) (zip ams (rev (tx_ops tx))) s"
  shows "\<exists>s'. tx_rollback ams tx s = (Ok (), s') \<and> en_all (fst s') = en_all (fst s0) \<and>
    (\<forall>i. fst (en_get i s0) \<noteq> Ok None \<longrightarrow>
      omap (map_option co_view) (fst (en_get i s')) = omap (map_option co_view) (fst (en_get i s0)))"
proof -
  have "inv_for hasher (e, d)"
    using en_open_new [OF assms(1), of am st "hasher st" rd] assms(2,3) by (auto simp: inv_for_def)
  with en_run_simulates [OF assms(4)] have inv: "inv_for hasher s0"
    by blast
  from rollback_restores [OF inv assms(5-7)] obtain s' where s': "tx_rollback ams tx s = (Ok (), s')"
    "inv_for hasher s'" "en_all (fst s') = en_all (fst s0)"
    "\<forall>i. fst (store_abs s0) i \<noteq> None \<longrightarrow> fst (store_abs s') i = fst (store_abs s0) i"
    by blast
  have "fst (store_abs s0) i \<noteq> None" if "fst (en_get i s0) \<noteq> Ok None" for i
    using that inv_for_facts(2) [OF inv, of i] by (simp add: store_abs_def cache_view_def)
  with s' inv_for_reads [OF inv] inv_for_reads [OF s'(2)] show ?thesis
    by auto
qed

lemma create_room:
  assumes "store_inv hash s []" "step_room s" "clock_ok am" "length (am_uuid am) = 16" "fields_fit flds"
    and "\<not> ap_enabled (cfg_auto_persist (en_config (fst s)))" "en_create am flds s = (i, s')"
    and "length (serialize_fields flds) < 1000" "unat (en_next_index (fst s)) < 1000"
  shows "step_room s'"
proof -
  from en_create_inv [OF assms(1-5)] assms(7) obtain lsn where
    inv: "store_inv hash s' [wal_entry_insert (am_log_now am) lsn (en_next_index (fst s)) (am_uuid am) flds]"
    (is "store_inv hash s' [?en]") and n: "en_next_index (fst s') = en_next_index (fst s) + 1"
    by auto
  have "wal_entry_ok ?en"
    using assms(4,8) by (simp add: wal_entry_ok_def wal_entry_insert_def)
  then have "length (log_bytes [?en]) < 2000"
    using assms(8) by (simp add: length_wal_entry_serialize) (simp add: wal_entry_insert_def)
  moreover obtain w where "writer_holds w (ed_wal (snd s')) [?en]" "ww_file w = Some []"
    using store_invD(1) [OF inv] by (auto simp: log_ok_def)
  then obtain disk where disk: "ed_wal (snd s') = [(segment_path 0, disk)]" "WAL_HEADER_SIZE \<le> length disk"
    "drop WAL_HEADER_SIZE disk = log_bytes [?en]"
    by (auto simp: writer_holds_def)
  then have "length disk = WAL_HEADER_SIZE + length (log_bytes [?en])"
    by (metis le_add_diff_inverse length_drop)
  ultimately have "log_room (ed_wal (snd s'))"
    by (simp add: disk(1) log_room_def WAL_HEADER_SIZE_def)
  moreover have "ed_data (snd s') = ed_data (snd s)"
    using assms(6,7) by (cases s) (auto simp: en_create_def en_log_def Let_def split: option.splits prod.splits if_splits)
  then have "data_len s' < 2 ^ 63"
    using assms(2) by (simp add: step_room_def data_len_def)
  moreover have "unat (en_next_index (fst s')) < 2 ^ 62"
    using assms(9) by (simp add: n unat_word_ariths)
  ultimately show ?thesis
    by (simp add: step_room_def)
qed

definition manual_config :: store_config where
  "manual_config = (store_config_minimal [] [])\<lparr> cfg_auto_persist := auto_persist_config_default\<lparr> ap_enabled := False \<rparr> \<rparr>"

lemma manual_logs_durably: "logs_durably manual_config"
  using minimal_logs_durably by (simp add: logs_durably_def manual_config_def)

lemma tx_rollback_restores_witness:
  "\<exists>e d tx s s'. en_open (\<lambda>n. n) sample_ambient [] manual_config empty_disk = Some (Ok e, d) \<and>
    tx_insert sample_ambient [(bstr ''n'', SInt 5)] (fst (tx_begin 1)) (e, d) = (Ok 1, tx, s) \<and>
    tx_rollback [sample_ambient] tx s = (Ok (), s') \<and> en_all (fst s') = en_all e"
proof -
  let ?am = sample_ambient and ?rd = "\<lambda>n::nat. n" and ?flds = "[(bstr ''n'', SInt 5)]"
  have h: "am_hash ?am = (\<lambda>_. 7)"
    by (simp add: sample_ambient_def)
  obtain e d where op: "en_open ?rd ?am [] manual_config empty_disk = Some (Ok e, d)"
    and inv: "store_inv 7 (e, d) []" "en_config e = manual_config" "en_next_index e = 1"
    using en_open_new [OF manual_logs_durably, of ?am "[]" 7 ?rd] h by auto
  note room = open_empty_room [OF manual_logs_durably op]
  obtain i s where s: "en_create ?am ?flds (e, d) = (i, s)"
    by (metis surj_pair)
  have i: "i = 1"
    using s inv(3) by (auto simp: en_create_def Let_def split: prod.splits)
  define tx where "tx = (fst (tx_begin 1))\<lparr> tx_ops := [TxInsert 1 ?flds] \<rparr>"
  have ins: "tx_insert ?am ?flds (fst (tx_begin 1)) (e, d) = (Ok 1, tx, s)"
    using s i by (simp add: tx_insert_def tx_begin_def tx_check_active_def tx_def)
  have room': "step_room s"
    by (rule create_room [OF inv(1) room sample_ambient_ok sample_fields_fit _ s])
      (use inv in \<open>simp_all add: manual_config_def serialize_fields_def wal_field_bytes_def bstr_def\<close>)
  have run: "tx_run (\<lambda>_. 7) (e, d) tx s"
    by (rule tx_inserted [OF tx_start [of 1 _ 2] room sample_ambient_ok sample_fields_fit ins])
      (simp add: tx_begin_def)
  have "undo_room (tx_snapshots tx) (zip [?am] (rev (tx_ops tx))) s" "length [?am] = length (tx_ops tx)"
    using room' sample_ambient_ok(1) by (simp_all add: tx_def)
  from tx_rollback_restores [OF manual_logs_durably h op run_nil run this(2,1)] op ins show ?thesis
    unfolding fst_conv by blast
qed

text \<open>
  A deletion is undone by a new object: the deleted one stays deleted, and its fields come back under
  a new number and a new identifier.
\<close>

lemma tx_rollback_of_delete:
  assumes "inv_for hasher s0" "fst (store_abs s0) i = Some (u, f, False)"
    and "step_room s0" "clock_ok am" "tx_delete am i (fst (tx_begin c)) s0 = (r, tx, s)"
    and "step_room s" "clock_ok am'" "length (am_uuid am') = 16" "tx_rollback [am'] tx s = (r', s')"
  shows "fst (store_abs s') i = Some (u, f, True)"
    "fst (store_abs s') (snd (store_abs s0)) = Some (am_uuid am', f, False)"
proof -
  obtain ob where ob: "hm_get i (en_cache (fst s0)) = Some ob" "co_fields ob = f"
    using assms(2) by (auto simp: store_abs_def cache_view_def co_view_def)
  note get = inv_for_facts(2) [OF assms(1)]
  obtain r1 s1 where del: "en_delete am i s0 = (r1, s1)"
    by (metis surj_pair)
  have "r1 = Ok ()"
    using del by (auto simp: en_delete_def get)
  then have tx: "tx = (fst (tx_begin c))\<lparr> tx_ops := [TxDelete i], tx_snapshots := [(i, f)] \<rparr>" "s = s1"
    using assms(5) del ob
    by (auto simp: tx_delete_def tx_change_def tx_begin_def tx_check_active_def tx_snapshot_def get hm_contains_def)
  from en_step_simulates [OF assms(1) step_delete [OF assms(3,4) del]]
  have s1: "inv_for hasher s1" "store_abs s1 = spec_step (EvDelete am i) (store_abs s0)"
    by auto
  obtain j s2 where cr: "en_create am' f s1 = (j, s2)"
    by (metis surj_pair)
  have "fields_fit f"
    using inv_for_facts(3) [OF assms(1) ob(1)] ob(2) by simp
  from en_step_simulates [OF s1(1) step_create [OF _ assms(7,8) this cr]] assms(6) tx(2)
  have s2: "store_abs s2 = spec_step (EvCreate am' f) (store_abs s1)"
    by auto
  have "s' = s2"
    using assms(9) cr by (auto simp: tx tx_rollback_def tx_check_active_def tx_begin_def tx_undo_def)
  moreover have "i \<noteq> snd (store_abs s0)"
  proof -
    have "i \<in> dom (fst (store_abs s0))"
      using assms(2) by auto
    then show ?thesis
      by (auto simp: inv_for_facts(1) [OF assms(1)])
  qed
  ultimately show "fst (store_abs s') i = Some (u, f, True)"
    "fst (store_abs s') (snd (store_abs s0)) = Some (am_uuid am', f, False)"
    using assms(2) s1(2) s2 by (cases "store_abs s0"; simp)+
qed

end
