(* ===== verification/Lexer_Base.thy ===== *)
theory Lexer_Base
  imports Coral_Span Utf8
begin

text \<open>
  Tokens and the scanners for literals (\<open>src/lexer.rs\<close>). The lexer walks the source by characters;
  where the code has the source and a byte position, the model has the position and the characters
  left. A scanner returns the token, the position after it and the characters left. Parsing the
  digits of a floating-point literal is the standard library's; it is the argument \<open>parse_f64\<close>.
\<close>

subsection \<open>Tokens\<close>

datatype template_fragment =
    FragLiteral rstr span
  | FragExpr rstr span

text \<open>
  \<open>TokenKind\<close>, in three parts: the keywords, the symbols, and the kinds with a payload together with
  the layout tokens.
\<close>

datatype keyword =
    KeywordType | KeywordStore | KeywordPersist | KeywordActor | KeywordMatch | KeywordFn
  | KeywordAnd | KeywordOr | KeywordTrue | KeywordFalse | KeywordIs | KeywordIsnt | KeywordExtern
  | KeywordUnsafe | KeywordAsm | KeywordPtr | KeywordEnum | KeywordErr | KeywordReturn
  | KeywordTrait | KeywordWith | KeywordNone | KeywordIf | KeywordElif | KeywordElse
  | KeywordWhile | KeywordFor | KeywordIn | KeywordBreak | KeywordContinue | KeywordTo
  | KeywordStep | KeywordUnless | KeywordUntil | KeywordLoop | KeywordWhen | KeywordExtend
  | KeywordDo | KeywordEnd | KeywordConst

datatype symbol =
    SStar | SAmpersand | SPipe | SCaret | STilde | SShiftLeft | SShiftRight | SAt | SQuestion
  | SBang | SBangBang | SColon | SComma | SDot | SEllipsis | SPlus | SPlusEquals | SMinus
  | SMinusEquals | SSlash | SSlashEquals | SPercent | SStarEquals | SGreater | SGreaterEq
  | SLess | SLessEq | SLParen | SRParen | SLBracket | SRBracket

datatype token_kind =
    TIdentifier rstr | TInteger int | TFloat u64 | TString rstr | TBytes bytes
  | TTemplateString "template_fragment list"
  | TKeyword keyword | TPlaceholder u32 | TSymbol symbol
  | TNewline | TIndent | TDedent | TEof

record token =
  t_kind :: token_kind
  t_span :: span

definition token_new :: "token_kind \<Rightarrow> nat \<Rightarrow> nat \<Rightarrow> token" where
  "token_new kind s e = \<lparr> t_kind = kind, t_span = span_new s e \<rparr>"

type_synonym 'a lex_result = "(diagnostic, 'a) outcome"
type_synonym scanned = "(token \<times> nat \<times> rstr) lex_result"

definition lex_err :: "string \<Rightarrow> nat \<Rightarrow> nat \<Rightarrow> 'a lex_result" where
  "lex_err message s e = Err (diag_new (rs message) (span_new s e))"

definition lex_err_help :: "string \<Rightarrow> nat \<Rightarrow> nat \<Rightarrow> string \<Rightarrow> 'a lex_result" where
  "lex_err_help message s e help = Err (diag_with_help (rs help) (diag_new (rs message) (span_new s e)))"

subsection \<open>Numbers\<close>

definition digit_value :: "rchar \<Rightarrow> nat" where
  "digit_value c = (if is_ascii_digit c then c - ch (CHR ''0'')
     else if ch (CHR ''a'') \<le> c then c - ch (CHR ''a'') + 10 else c - ch (CHR ''A'') + 10)"

text \<open>\<open>from_str_radix\<close> on digits of the radix; an \<open>i64\<close> overflows from \<open>2^63\<close> on.\<close>

definition radix_value :: "nat \<Rightarrow> rstr \<Rightarrow> nat" where
  "radix_value radix s = foldl (\<lambda>v c. v * radix + digit_value c) 0 s"

abbreviation UNDERSCORE :: rchar where "UNDERSCORE \<equiv> ch (CHR ''_'')"

definition is_octal_digit :: "rchar \<Rightarrow> bool" where
  "is_octal_digit c \<longleftrightarrow> ch (CHR ''0'') \<le> c \<and> c \<le> ch (CHR ''7'')"

definition is_binary_digit :: "rchar \<Rightarrow> bool" where
  "is_binary_digit c \<longleftrightarrow> c = ch (CHR ''0'') \<or> c = ch (CHR ''1'')"

text \<open>The digits after a prefix \<open>0x\<close>, \<open>0b\<close>, \<open>0o\<close>; \<open>pos\<close> is after the prefix.\<close>

definition lex_radix :: "nat \<Rightarrow> (rchar \<Rightarrow> bool) \<Rightarrow> string \<Rightarrow> nat \<Rightarrow> nat \<Rightarrow> rstr \<Rightarrow> scanned" where
  "lex_radix radix is_digit name start pos s =
     (let body = takeWhile (\<lambda>c. is_digit c \<or> c = UNDERSCORE) s;
          rest = dropWhile (\<lambda>c. is_digit c \<or> c = UNDERSCORE) s;
          pos = pos + length body;
          digits = filter (\<lambda>c. c \<noteq> UNDERSCORE) body in
      if digits = [] then lex_err (name @ '' literal requires at least one digit'') start pos
      else if 2 ^ 63 \<le> radix_value radix digits
      then lex_err (name @ '' literal overflows 64-bit integer'') start pos
      else Ok (token_new (TInteger (int (radix_value radix digits))) start pos, pos, rest))"

text \<open>
  The scan of a decimal literal: digits, underscores and at most one dot with a digit after it.
  Returns what was scanned, whether there is a dot, and the characters left.
\<close>

fun scan_decimal :: "bool \<Rightarrow> rstr \<Rightarrow> rstr \<times> bool \<times> rstr" where
  "scan_decimal has_dot [] = ([], has_dot, [])"
| "scan_decimal has_dot (c # s) =
     (if is_ascii_digit c \<or> c = UNDERSCORE then
        (case scan_decimal has_dot s of (body, d, rest) \<Rightarrow> (c # body, d, rest))
      else if c = ch (CHR ''.'') \<and> \<not> has_dot \<and> s \<noteq> [] \<and> is_ascii_digit (hd s) then
        (case scan_decimal True s of (body, d, rest) \<Rightarrow> (c # body, d, rest))
      else ([], has_dot, c # s))"

definition lex_decimal :: "(rstr \<Rightarrow> u64 option) \<Rightarrow> nat \<Rightarrow> rchar \<Rightarrow> rstr \<Rightarrow> scanned" where
  "lex_decimal parse_f64 start c s =
     (case scan_decimal False s of (body, has_dot, rest) \<Rightarrow>
        let pos = start + length (c # body); cleaned = filter (\<lambda>c. c \<noteq> UNDERSCORE) (c # body) in
        if has_dot then
          (case parse_f64 cleaned of
             None \<Rightarrow> lex_err ''invalid float literal'' start pos
           | Some f \<Rightarrow> Ok (token_new (TFloat f) start pos, pos, rest))
        else if 2 ^ 63 \<le> radix_value 10 cleaned then lex_err ''invalid integer literal'' start pos
        else Ok (token_new (TInteger (int (radix_value 10 cleaned))) start pos, pos, rest))"

definition lex_number :: "(rstr \<Rightarrow> u64 option) \<Rightarrow> nat \<Rightarrow> rchar \<Rightarrow> rstr \<Rightarrow> scanned" where
  "lex_number parse_f64 start c s =
     (case s of
        [] \<Rightarrow> lex_decimal parse_f64 start c s
      | d # s1 \<Rightarrow>
          if c \<noteq> ch (CHR ''0'') then lex_decimal parse_f64 start c s
          else if d = ch (CHR ''x'') \<or> d = ch (CHR ''X'')
          then lex_radix 16 is_ascii_hexdigit ''hex'' start (start + 2) s1
          else if (d = ch (CHR ''b'') \<or> d = ch (CHR ''B'')) \<and> s1 \<noteq> [] \<and>
            (is_binary_digit (hd s1) \<or> hd s1 = UNDERSCORE)
          then lex_radix 2 is_binary_digit ''binary'' start (start + 2) s1
          else if d = ch (CHR ''o'') \<or> d = ch (CHR ''O'')
          then lex_radix 8 is_octal_digit ''octal'' start (start + 2) s1
          else lex_decimal parse_f64 start c s)"

subsection \<open>Byte strings and identifiers\<close>

abbreviation QUOTE :: rchar where "QUOTE \<equiv> ch (CHR 0x22)"
abbreviation TICK :: rchar where "TICK \<equiv> ch (CHR 0x27)"
abbreviation BACKSLASH :: rchar where "BACKSLASH \<equiv> ch (CHR 0x5C)"

text \<open>The escapes all string literals share: newline, return, tab, NUL, backslash, quote.\<close>

definition escape_value :: "rchar \<Rightarrow> rchar option" where
  "escape_value c = (if c = ch (CHR ''n'') then Some 10 else if c = ch (CHR ''r'') then Some 13
     else if c = ch (CHR ''t'') then Some 9 else if c = ch (CHR ''0'') then Some 0
     else if c = BACKSLASH then Some BACKSLASH else if c = QUOTE then Some QUOTE else None)"

text \<open>The list of valid escapes in the help of an error.\<close>

definition escapes_help :: "string list \<Rightarrow> rstr" where
  "escapes_help es = rs ''Valid escapes are: '' @
     join_with (rs '', '') (map (\<lambda>e. BACKSLASH # rs e) es) @ rs ''.''"

definition BYTES_HELP :: rstr where
  "BYTES_HELP = escapes_help [''n'', ''r'', ''t'', ''0'', [CHR 0x5C, CHR 0x5C, CHR 0x22], [CHR 0x22]]"

definition STRING_HELP :: rstr where
  "STRING_HELP = escapes_help [''n'', ''r'', ''t'', ''0'', [CHR 0x5C], [CHR 0x27], [CHR 0x22]]"

definition TEMPLATE_HELP :: rstr where
  "TEMPLATE_HELP = escapes_help [''n'', ''r'', ''t'', ''0'', ''u{HHHH}'', [CHR 0x5C], ''{'', ''}'',
     [CHR 0x27], [CHR 0x22]]"

definition unknown_escape :: "nat \<Rightarrow> rchar \<Rightarrow> rstr \<Rightarrow> 'a lex_result" where
  "unknown_escape pos other help = Err (diag_with_help help
     (diag_new (rs ''unknown escape sequence `'' @ [BACKSLASH, other] @ rs ''`'')
        (span_new (pos - 1) (pos + len_utf8 other))))"

fun lex_bytes :: "nat \<Rightarrow> nat \<Rightarrow> bytes \<Rightarrow> rstr \<Rightarrow> scanned" where
  "lex_bytes start pos acc [] = lex_err ''unterminated bytes literal'' start pos"
| "lex_bytes start pos acc (c # s) =
     (if c = QUOTE then Ok (token_new (TBytes acc) start (pos + 1), pos + 1, s)
      else if c = BACKSLASH then
        (case s of
           [] \<Rightarrow> lex_err ''unterminated escape sequence'' start (pos + 1)
         | esc # s1 \<Rightarrow>
             (case escape_value esc of
                None \<Rightarrow> unknown_escape (pos + 1) esc BYTES_HELP
              | Some v \<Rightarrow> lex_bytes start (pos + 1 + len_utf8 esc) (acc @ [of_nat v]) s1))
      else lex_bytes start (pos + len_utf8 c) (acc @ encode_utf8 c) s)"

definition keyword_table :: "(string \<times> keyword) list" where
  "keyword_table =
    [(''type'', KeywordType), (''store'', KeywordStore), (''persist'', KeywordPersist),
     (''actor'', KeywordActor), (''match'', KeywordMatch), (''fn'', KeywordFn), (''and'', KeywordAnd),
     (''or'', KeywordOr), (''true'', KeywordTrue), (''false'', KeywordFalse), (''is'', KeywordIs),
     (''isnt'', KeywordIsnt), (''extern'', KeywordExtern), (''unsafe'', KeywordUnsafe),
     (''asm'', KeywordAsm), (''ptr'', KeywordPtr), (''enum'', KeywordEnum), (''err'', KeywordErr),
     (''return'', KeywordReturn), (''trait'', KeywordTrait), (''with'', KeywordWith),
     (''none'', KeywordNone), (''if'', KeywordIf), (''elif'', KeywordElif), (''else'', KeywordElse),
     (''while'', KeywordWhile), (''for'', KeywordFor), (''in'', KeywordIn), (''break'', KeywordBreak),
     (''continue'', KeywordContinue), (''to'', KeywordTo), (''step'', KeywordStep),
     (''unless'', KeywordUnless), (''until'', KeywordUntil), (''loop'', KeywordLoop),
     (''when'', KeywordWhen), (''extend'', KeywordExtend), (''do'', KeywordDo), (''end'', KeywordEnd),
     (''const'', KeywordConst)]"

definition keyword_kind :: "rstr \<Rightarrow> token_kind" where
  "keyword_kind s = (case map_of (map (\<lambda>(k, t). (rs k, t)) keyword_table) s of
     Some t \<Rightarrow> TKeyword t | None \<Rightarrow> TIdentifier s)"

definition is_ident_char :: "rchar \<Rightarrow> bool" where
  "is_ident_char c \<longleftrightarrow> is_ascii_alphanumeric c \<or> c = UNDERSCORE"

definition lex_identifier :: "nat \<Rightarrow> rchar \<Rightarrow> rstr \<Rightarrow> scanned" where
  "lex_identifier start c s =
     (let body = takeWhile is_ident_char s; rest = dropWhile is_ident_char s;
          name = c # body; pos = start + length name in
      if (name = rs ''b'' \<or> name = rs ''B'') \<and> rest \<noteq> [] \<and> hd rest = QUOTE
      then lex_bytes start (pos + 1) [] (tl rest)
      else Ok (token_new (keyword_kind name) start pos, pos, rest))"

subsection \<open>Strings\<close>

fun lex_string :: "nat \<Rightarrow> nat \<Rightarrow> rstr \<Rightarrow> rstr \<Rightarrow> scanned" where
  "lex_string start pos acc [] = lex_err ''unterminated string literal'' start pos"
| "lex_string start pos acc (c # s) =
     (if c = QUOTE then Ok (token_new (TString acc) start (pos + 1), pos + 1, s)
      else if c = BACKSLASH then
        (case s of
           [] \<Rightarrow> lex_err ''unterminated escape sequence'' start (pos + 1)
         | esc # s1 \<Rightarrow>
             (case (if esc = TICK then Some TICK else escape_value esc) of
                None \<Rightarrow> unknown_escape (pos + 1) esc STRING_HELP
              | Some v \<Rightarrow> lex_string start (pos + 1 + len_utf8 esc) (acc @ [v]) s1))
      else lex_string start (pos + len_utf8 c) (acc @ [c]) s)"

subsection \<open>Template strings\<close>

text \<open>
  \<open>lex_interpolation_expression\<close>, from after the opening brace; \<open>len\<close> is the length of the source.
  Returns the text between the braces, its span, the position after the closing brace and the
  characters left.
\<close>

fun lex_interp :: "nat \<Rightarrow> nat \<Rightarrow> nat \<Rightarrow> nat \<Rightarrow> rstr \<Rightarrow> rstr \<Rightarrow> (rstr \<times> span \<times> nat \<times> rstr) lex_result" where
  "lex_interp brace_pos pos depth len acc [] =
     lex_err_help ''unterminated interpolation expression'' brace_pos len
       ''Add a closing `}` to finish this interpolation.''"
| "lex_interp brace_pos pos depth len acc (c # s) =
     (if c = BACKSLASH then
        (case s of
           [] \<Rightarrow> lex_interp brace_pos (pos + 1) depth len (acc @ [c]) s
         | next # s1 \<Rightarrow> lex_interp brace_pos (pos + 1 + len_utf8 next) depth len (acc @ [c, next]) s1)
      else if c = ch (CHR 0x7B) then
        (if 64 < depth + 1
         then lex_err ''template string nesting exceeds maximum depth of 64'' brace_pos pos
         else lex_interp brace_pos (pos + 1) (depth + 1) len (acc @ [c]) s)
      else if c = ch (CHR 0x7D) then
        (if depth = 1 then
           (if str_trim acc = []
            then lex_err_help ''empty interpolation expression'' brace_pos (pos + 1)
              ''Provide an expression between `{` and `}`.''
            else Ok (acc, span_new (brace_pos + 1) pos, pos + 1, s))
         else lex_interp brace_pos (pos + 1) (depth - 1) len (acc @ [c]) s)
      else lex_interp brace_pos (pos + len_utf8 c) depth len (acc @ [c]) s)"

definition hex_digit_char :: "nat \<Rightarrow> rchar" where
  "hex_digit_char n = (if n < 10 then 48 + n else 55 + n)"

fun upper_hex :: "nat \<Rightarrow> rstr" where
  "upper_hex n = (if n < 16 then [hex_digit_char n] else upper_hex (n div 16) @ [hex_digit_char (n mod 16)])"

declare upper_hex.simps [simp del]

text \<open>An escape \<open>\u{...}\<close> of a template; \<open>pos\<close> is after the letter u.\<close>

definition lex_unicode_escape :: "nat \<Rightarrow> nat \<Rightarrow> rstr \<Rightarrow> (rchar \<times> nat \<times> rstr) lex_result" where
  "lex_unicode_escape start pos s =
     (case s of
        [] \<Rightarrow> lex_err ''unterminated unicode escape'' start pos
      | c # s1 \<Rightarrow>
          if c \<noteq> ch (CHR 0x7B)
          then Err (diag_with_help (rs ''Use '' @ BACKSLASH # rs ''u{HHHH} for unicode escapes.'')
            (diag_new (rs ''expected `{` after `'' @ BACKSLASH # rs ''u`'')
              (span_new (pos - 1) (pos + len_utf8 c))))
          else let hex_start = pos + 1; hex = takeWhile is_ascii_hexdigit s1;
                   rest = dropWhile is_ascii_hexdigit s1; pos = hex_start + length hex in
            (case rest of
               [] \<Rightarrow> lex_err ''unterminated unicode escape, expected `}`'' hex_start pos
             | d # s2 \<Rightarrow>
                 if d \<noteq> ch (CHR 0x7D)
                 then Err (diag_new (rs ''invalid character `'' @ [d] @ rs ''` in unicode escape'')
                   (span_new hex_start (pos + len_utf8 d)))
                 else if hex = [] \<or> 6 < length hex
                 then lex_err ''unicode escape must have 1-6 hex digits'' hex_start (pos + 1)
                 else let codepoint = radix_value 16 hex in
                   if is_scalar codepoint then Ok (codepoint, pos + 1, s2)
                   else Err (diag_new (rs ''invalid unicode codepoint U+'' @
                     replicate (4 - length (upper_hex codepoint)) 48 @ upper_hex codepoint)
                     (span_new hex_start (pos + 1)))))"

record template_state =
  ts_fragments :: "template_fragment list"
  ts_literal :: rstr
  ts_has_expr :: bool
  ts_literal_start :: nat

text \<open>\<open>std::mem::take\<close> of a literal that is not empty into the fragments.\<close>

definition ts_take_literal :: "nat \<Rightarrow> template_state \<Rightarrow> template_state" where
  "ts_take_literal e ts = (if ts_literal ts = [] then ts
     else ts\<lparr> ts_fragments := ts_fragments ts @ [FragLiteral (ts_literal ts) (span_new (ts_literal_start ts) e)],
              ts_literal := [] \<rparr>)"

definition ts_push :: "rchar \<Rightarrow> template_state \<Rightarrow> template_state" where
  "ts_push c ts = ts\<lparr> ts_literal := ts_literal ts @ [c] \<rparr>"

fun fragment_value :: "template_fragment \<Rightarrow> rstr" where
  "fragment_value (FragLiteral v s) = v"
| "fragment_value (FragExpr v s) = v"

text \<open>The token of a closed template; without an expression it is a plain string.\<close>

definition ts_token :: "nat \<Rightarrow> nat \<Rightarrow> template_state \<Rightarrow> token" where
  "ts_token start pos ts =
     (let ts = ts_take_literal (pos - 1) ts in
      if ts_has_expr ts then token_new (TTemplateString (ts_fragments ts)) start pos
      else token_new (TString (concat (map fragment_value (ts_fragments ts)))) start pos)"

definition template_escape :: "rchar \<Rightarrow> rchar option" where
  "template_escape c = (if c = ch (CHR 0x7B) \<or> c = ch (CHR 0x7D) \<or> c = TICK then Some c else escape_value c)"

lemma lex_interp_shorter:
  "lex_interp bp pos depth len acc s = Ok (e, sp, pos', rest) \<Longrightarrow> length rest < length s"
  by (induction bp pos depth len acc s rule: lex_interp.induct)
    (auto simp: lex_err_def lex_err_help_def split: if_splits list.splits)

lemma lex_unicode_shorter: "lex_unicode_escape start pos s = Ok (c, pos', rest) \<Longrightarrow> length rest < length s"
  using length_dropWhile_le [of is_ascii_hexdigit "tl s"]
  by (fastforce simp: lex_unicode_escape_def lex_err_def lex_err_help_def Let_def split: if_splits list.splits)

function lex_template :: "nat \<Rightarrow> nat \<Rightarrow> template_state \<Rightarrow> nat \<Rightarrow> rstr \<Rightarrow> scanned" where
  "lex_template start len ts pos [] = lex_err ''unterminated string literal'' start pos"
| "lex_template start len ts pos (c # s) =
     (if c = TICK then Ok (ts_token start (pos + 1) ts, pos + 1, s)
      else if c = BACKSLASH then
        (case s of
           [] \<Rightarrow> lex_err ''unterminated escape sequence'' start (pos + 1)
         | esc # s1 \<Rightarrow>
             (case template_escape esc of
                Some v \<Rightarrow> lex_template start len (ts_push v ts) (pos + 1 + len_utf8 esc) s1
              | None \<Rightarrow>
                  if esc = ch (CHR ''u'') then
                    (case lex_unicode_escape start (pos + 2) s1 of
                       Ok (v, pos', rest) \<Rightarrow> lex_template start len (ts_push v ts) pos' rest
                     | Err e \<Rightarrow> Err e | Panic \<Rightarrow> Panic)
                  else unknown_escape (pos + 1) esc TEMPLATE_HELP))
      else if c = ch (CHR 0x7B) then
        (case lex_interp pos (pos + 1) 1 len [] s of
           Ok (source, sp, pos', rest) \<Rightarrow>
             lex_template start len ((ts_take_literal pos ts)\<lparr>
               ts_fragments := ts_fragments (ts_take_literal pos ts) @ [FragExpr source sp],
               ts_has_expr := True, ts_literal_start := pos' \<rparr>) pos' rest
         | Err e \<Rightarrow> Err e | Panic \<Rightarrow> Panic)
      else lex_template start len (ts_push c ts) (pos + len_utf8 c) s)"
  by pat_completeness auto
termination
  by (relation "measure (\<lambda>(start, len, ts, pos, s). length s)")
    (auto dest!: lex_interp_shorter lex_unicode_shorter)

end
