(* ===== verification/Lexer.thy ===== *)
theory Lexer
  imports Lexer_Base
begin

text \<open>
  The lexer's loop (\<open>lex\<close> of \<open>src/lexer.rs\<close>): symbols, layout (indentation tokens from the widths
  of line starts), and the loop over the source, one iteration a step. Stacks have their top first.
\<close>

subsection \<open>Symbols\<close>

definition sym :: "symbol \<Rightarrow> nat \<Rightarrow> nat \<Rightarrow> rstr \<Rightarrow> scanned" where
  "sym k pos n rest = Ok (token_new (TSymbol k) pos (pos + n), pos + n, rest)"

text \<open>A character that may be followed by \<open>second\<close>.\<close>

definition sym2 :: "symbol \<Rightarrow> string \<Rightarrow> symbol \<Rightarrow> nat \<Rightarrow> rstr \<Rightarrow> scanned" where
  "sym2 one second two pos s =
     (if s \<noteq> [] \<and> [hd s] = rs second then sym two pos 2 (tl s) else sym one pos 1 s)"

definition U32_MAX :: nat where "U32_MAX = 2 ^ 32 - 1"

text \<open>\<open>$\<close> and its digits, with saturating arithmetic.\<close>

definition lex_placeholder :: "nat \<Rightarrow> rstr \<Rightarrow> scanned" where
  "lex_placeholder start s =
     (let digits = takeWhile is_ascii_digit s; rest = dropWhile is_ascii_digit s;
          v = foldl (\<lambda>v c. min (min (v * 10) U32_MAX + digit_value c) U32_MAX) 0 digits;
          pos = start + 1 + length digits in
      if digits \<noteq> [] \<and> v = 0
      then lex_err ''$0 is not valid; placeholders start at $1 (or use bare $ for $1)'' start pos
      else Ok (token_new (TPlaceholder (if digits \<noteq> [] then of_nat v else 0)) start pos, pos, rest))"

definition single_symbols :: "(string \<times> symbol) list" where
  "single_symbols = [(''('', SLParen), ('')'', SRParen), (''['', SLBracket), ('']'', SRBracket),
     ('','', SComma), ('':'', SColon), (''%'', SPercent), (''&'', SAmpersand), (''|'', SPipe),
     (''^'', SCaret), (''~'', STilde), (''?'', SQuestion), (''@'', SAt)]"

definition lex_symbol :: "nat \<Rightarrow> rchar \<Rightarrow> rstr \<Rightarrow> scanned" where
  "lex_symbol pos c s =
     (case map_of (map (\<lambda>(k, t). (rs k, t)) single_symbols) [c] of
        Some k \<Rightarrow> sym k pos 1 s
      | None \<Rightarrow>
          if c = ch (CHR ''.'') then
            (if take 2 s = rs ''..'' then sym SEllipsis pos 3 (drop 2 s) else sym SDot pos 1 s)
          else if c = ch (CHR ''+'') then sym2 SPlus ''='' SPlusEquals pos s
          else if c = ch (CHR ''-'') then sym2 SMinus ''='' SMinusEquals pos s
          else if c = ch (CHR ''*'') then sym2 SStar ''='' SStarEquals pos s
          else if c = ch (CHR ''/'') then sym2 SSlash ''='' SSlashEquals pos s
          else if c = ch (CHR ''>'') then
            (if s \<noteq> [] \<and> hd s = ch (CHR ''>'') then sym SShiftRight pos 2 (tl s)
             else sym2 SGreater ''='' SGreaterEq pos s)
          else if c = ch (CHR ''<'') then
            (if s \<noteq> [] \<and> hd s = ch (CHR ''<'') then sym SShiftLeft pos 2 (tl s)
             else sym2 SLess ''='' SLessEq pos s)
          else if c = ch (CHR ''!'') then sym2 SBang ''!'' SBangBang pos s
          else if c = ch (CHR ''$'') then lex_placeholder pos s
          else if c = ch (CHR ''='') then
            (if s \<noteq> [] \<and> hd s = ch (CHR ''='')
             then lex_err ''unexpected `==`; use `.equals()` for equality comparison or `is` for binding'' pos (pos + 2)
             else lex_err ''unexpected `=`; use `is` for binding'' pos (pos + 1))
          else Err (diag_new (rs ''unexpected character `'' @ [c] @ rs ''`'') (span_new pos (pos + len_utf8 c))))"

text \<open>The arms of the \<open>match\<close> that produce a token.\<close>

definition lex_token :: "(rstr \<Rightarrow> u64 option) \<Rightarrow> nat \<Rightarrow> nat \<Rightarrow> rchar \<Rightarrow> rstr \<Rightarrow> scanned" where
  "lex_token parse_f64 len pos c s =
     (if is_ascii_digit c then lex_number parse_f64 pos c s
      else if is_ascii_alpha c \<or> c = UNDERSCORE then lex_identifier pos c s
      else if c = QUOTE then lex_string pos (pos + 1) [] s
      else if c = TICK then lex_template pos len
        \<lparr> ts_fragments = [], ts_literal = [], ts_has_expr = False, ts_literal_start = pos + 1 \<rparr> (pos + 1) s
      else lex_symbol pos c s)"

subsection \<open>Layout\<close>

datatype indent_style = Spaces | Tabs

definition SPACE :: rchar where "SPACE = ch (CHR '' '')"
definition TAB :: rchar where "TAB = ch (CHR 0x09)"
definition NL :: rchar where "NL = ch (CHR 0x0A)"
definition CR :: rchar where "CR = ch (CHR 0x0D)"

record lex_state =
  ls_tokens :: "token list"
  ls_pending :: "token list"
  ls_indents :: "nat list"
  ls_styles :: "indent_style option list"
  ls_line_start :: bool
  ls_pos :: nat
  ls_rest :: rstr

definition indent_width :: "rstr \<Rightarrow> nat" where
  "indent_width ws = sum_list (map (\<lambda>c. if c = SPACE then 1 else 4) ws)"

text \<open>The loop that leaves blocks: the stacks after it and the number of dedents.\<close>

fun pop_indents :: "nat \<Rightarrow> nat list \<Rightarrow> indent_style option list \<Rightarrow> nat list \<times> indent_style option list \<times> nat" where
  "pop_indents width (t # ts) styles =
     (if width < t then (case pop_indents width ts (tl styles) of (a, b, n) \<Rightarrow> (a, b, Suc n))
      else (t # ts, styles, 0))"
| "pop_indents width [] styles = ([], styles, 0)"

definition MIXED :: string where "MIXED = ''mixed indentation (tabs and spaces) is not allowed''"
definition MIXED_HELP :: string where
  "MIXED_HELP = ''Choose either tabs or spaces for indentation within the same block.''"

definition lex_line_start :: "lex_state \<Rightarrow> lex_state lex_result" where
  "lex_line_start st =
     (let ws = takeWhile (\<lambda>c. c = SPACE \<or> c = TAB) (ls_rest st);
          rest = dropWhile (\<lambda>c. c = SPACE \<or> c = TAB) (ls_rest st);
          start = ls_pos st; pos = start + length ws; width = indent_width ws;
          saw_space = (SPACE \<in> set ws); saw_tab = (TAB \<in> set ws);
          line_style = (if saw_space then Some Spaces else if saw_tab then Some Tabs else None);
          st' = st\<lparr> ls_line_start := False, ls_pos := pos, ls_rest := rest \<rparr> in
      if saw_space \<and> saw_tab then lex_err_help MIXED start pos MIXED_HELP
      else if rest = [] \<or> hd rest = NL \<or> hd rest = CR then Ok st'
      else if hd (ls_indents st) < width then
        Ok (st'\<lparr> ls_indents := width # ls_indents st,
          ls_styles := Some (case line_style of Some s \<Rightarrow> s | None \<Rightarrow> Spaces) # ls_styles st,
          ls_pending := ls_pending st @ [token_new TIndent start start] \<rparr>)
      else (case pop_indents width (ls_indents st) (ls_styles st) of (indents, styles, n) \<Rightarrow>
        if width \<noteq> hd indents
        then lex_err_help ''indentation must align with a previous indent level'' start pos
          ''Use consistent indentation widths for all nested blocks.''
        else if styles \<noteq> [] \<and> hd styles \<noteq> None \<and> line_style \<noteq> None \<and> line_style \<noteq> hd styles
        then lex_err_help MIXED start pos MIXED_HELP
        else Ok (st'\<lparr> ls_indents := indents, ls_styles := styles,
          ls_pending := ls_pending st @ replicate n (token_new TDedent start start) \<rparr>)))"

subsection \<open>The loop\<close>

text \<open>One iteration, with characters left.\<close>

definition lex_step :: "(rstr \<Rightarrow> u64 option) \<Rightarrow> nat \<Rightarrow> lex_state \<Rightarrow> lex_state lex_result" where
  "lex_step parse_f64 len st =
     (if ls_pending st \<noteq> [] then
        Ok (st\<lparr> ls_tokens := ls_tokens st @ [hd (ls_pending st)], ls_pending := tl (ls_pending st) \<rparr>)
      else let c = hd (ls_rest st); s = tl (ls_rest st); pos = ls_pos st in
        if c = CR then Ok (st\<lparr> ls_pos := pos + 1, ls_rest := s \<rparr>)
        else if ls_line_start st then lex_line_start st
        else if c = NL then
          Ok (st\<lparr> ls_tokens := ls_tokens st @ [token_new TNewline pos (pos + 1)], ls_pos := pos + 1,
                  ls_rest := s, ls_line_start := True \<rparr>)
        else if c = ch (CHR ''#'') then
          Ok (st\<lparr> ls_pos := pos + 1 + utf8_len (takeWhile (\<lambda>c. c \<noteq> NL) s),
                  ls_rest := dropWhile (\<lambda>c. c \<noteq> NL) s \<rparr>)
        else if c = SPACE \<or> c = TAB then Ok (st\<lparr> ls_pos := pos + 1, ls_rest := s \<rparr>)
        else omap (\<lambda>(tok, pos', rest).
          st\<lparr> ls_tokens := ls_tokens st @ [tok], ls_pos := pos', ls_rest := rest \<rparr>)
          (lex_token parse_f64 len pos c s))"

definition lex_init :: "rstr \<Rightarrow> lex_state" where
  "lex_init source = \<lparr> ls_tokens = [], ls_pending = [], ls_indents = [0], ls_styles = [None],
     ls_line_start = True, ls_pos = 0, ls_rest = source \<rparr>"

text \<open>After the loop: a newline, the open blocks' dedents and the end of file.\<close>

definition lex_finish :: "nat \<Rightarrow> lex_state \<Rightarrow> token list" where
  "lex_finish len st =
     (let tokens = ls_tokens st;
          tokens = (if tokens \<noteq> [] \<and> t_kind (last tokens) = TNewline then tokens
            else tokens @ [token_new TNewline len len])
      in tokens @ replicate (length (ls_indents st) - 1) (token_new TDedent len len) @ [token_new TEof len len])"

end
