(* ===== verification/Lexer_Scan.thy ===== *)
theory Lexer_Scan
  imports Lexer
begin

text \<open>
  What the scanners of the lexer consume: each eats a front part of the characters left, moves the
  position by the bytes of that part, and returns a token whose span ends where it stopped.
\<close>

subsection \<open>What a scanner consumes\<close>

text \<open>
  A scanner called at \<open>pos\<close> with the characters \<open>s\<close> left, for a token that began at \<open>start\<close>: it eats
  a front part of \<open>s\<close>, and its token covers everything from \<open>start\<close> to where it stopped.
\<close>

definition scans :: "nat \<Rightarrow> nat \<Rightarrow> rstr \<Rightarrow> scanned \<Rightarrow> bool" where
  "scans start pos s r \<longleftrightarrow> (\<forall>tok pos' rest. r = Ok (tok, pos', rest) \<longrightarrow>
     t_span tok = span_new start pos' \<and> t_kind tok \<notin> {TIndent, TDedent, TEof, TNewline} \<and>
     (\<exists>eaten. s = eaten @ rest \<and> pos' = pos + utf8_len eaten))"

named_theorems scan_intros \<open>what each scanner consumes\<close>

lemma scans_Err [simp, intro]: "scans start pos s (Err e)" "scans start pos s Panic"
    "scans start pos s (lex_err m a b)" "scans start pos s (lex_err_help m a b h)"
    "scans start pos s (unknown_escape a c h')"
  by (simp_all add: scans_def lex_err_def lex_err_help_def unknown_escape_def)

lemma scans_if: "(b \<Longrightarrow> scans start pos s x) \<Longrightarrow> (\<not> b \<Longrightarrow> scans start pos s y) \<Longrightarrow>
    scans start pos s (if b then x else y)"
  by simp

lemma scans_Ok:
  "s = eaten @ rest \<Longrightarrow> pos' = pos + utf8_len eaten \<Longrightarrow> k \<notin> {TIndent, TDedent, TEof, TNewline} \<Longrightarrow>
   scans start pos s (Ok (token_new k start pos', pos', rest))"
  by (auto simp: scans_def token_new_def)

lemma scans_prefix:
  "scans start (pos + utf8_len pre) s r \<Longrightarrow> scans start pos (pre @ s) r"
  unfolding scans_def by (metis add.assoc append.assoc utf8_len_simps(3))

lemma scans_Cons: "scans start (pos + len_utf8 c) s r \<Longrightarrow> scans start pos (c # s) r"
  using scans_prefix [of start pos "[c]"] by simp

lemma utf8_len_ascii: "\<forall>c \<in> set xs. c < 128 \<Longrightarrow> utf8_len xs = length xs"
  by (induction xs) auto

lemma ascii_classes:
  "is_ascii_digit c \<Longrightarrow> c < 128" "is_ascii_alpha c \<Longrightarrow> c < 128" "is_ascii_hexdigit c \<Longrightarrow> c < 128"
  "is_ident_char c \<Longrightarrow> c < 128" "is_octal_digit c \<Longrightarrow> c < 128" "is_binary_digit c \<Longrightarrow> c < 128"
  by (auto simp: is_ascii_digit_def is_ascii_alpha_def is_ascii_hexdigit_def is_ident_char_def
      is_ascii_alphanumeric_def is_octal_digit_def is_binary_digit_def)

lemma utf8_len_takeWhile: "(\<And>c. P c \<Longrightarrow> c < 128) \<Longrightarrow> utf8_len (takeWhile P s) = length (takeWhile P s)"
  by (intro utf8_len_ascii) (auto dest: set_takeWhileD)


lemma ascii_or_underscore: "(\<And>c. P c \<Longrightarrow> c < 128) \<Longrightarrow> P c \<or> c = UNDERSCORE \<Longrightarrow> c < 128"
  by auto

lemma scans_radix [scan_intros]:
  assumes ascii: "\<And>c. P c \<Longrightarrow> c < 128"
  shows "scans start pos s (lex_radix radix P name start pos s)"
proof -
  let ?Q = "\<lambda>c. P c \<or> c = UNDERSCORE"
  have "utf8_len (takeWhile ?Q s) = length (takeWhile ?Q s)"
    by (rule utf8_len_takeWhile) (use ascii in auto)
  then have *: "scans start pos s (Ok (token_new (TInteger i) start (pos + length (takeWhile ?Q s)),
      pos + length (takeWhile ?Q s), dropWhile ?Q s))" for i
    by (intro scans_Ok [where eaten = "takeWhile ?Q s"]) (simp_all only: takeWhile_dropWhile_id, simp)
  show ?thesis
    unfolding lex_radix_def Let_def by (simp only: scans_Err * if_splits(1) simp_thms)
qed

lemma scan_decimal_eaten:
  "scan_decimal d s = (body, d', rest) \<Longrightarrow> s = body @ rest \<and> (\<forall>c \<in> set body. c < 128)"
  by (induction d s arbitrary: body d' rest rule: scan_decimal.induct)
    (auto split: if_splits prod.splits dest: ascii_classes)

lemma scans_decimal [scan_intros]:
  "scans start (Suc start) s (lex_decimal parse_f64 start c s)"
proof -
  obtain body d rest where eq: "scan_decimal False s = (body, d, rest)"
    by (metis prod_cases3)
  then have "s = body @ rest" "utf8_len body = length body"
    using scan_decimal_eaten [of False s body d rest] by (auto simp: utf8_len_ascii)
  then have *: "k \<notin> {TIndent, TDedent, TEof, TNewline} \<Longrightarrow>
      scans start (Suc start) s (Ok (token_new k start (Suc (start + length body)), Suc (start + length body), rest))" for k
    by (intro scans_Ok [where eaten = body]) auto
  show ?thesis
    by (simp add: lex_decimal_def Let_def eq * split: option.split)
qed

lemma scans_radix_prefix:
  assumes "\<And>c. P c \<Longrightarrow> c < 128" "d < 128"
  shows "scans start (Suc start) (d # s1) (lex_radix radix P name start (start + 2) s1)"
proof -
  have "scans start (start + 2) s1 (lex_radix radix P name start (start + 2) s1)"
    using assms(1) by (rule scans_radix)
  then show ?thesis
    by (intro scans_Cons) (use assms(2) in simp)
qed

lemma scans_number [scan_intros]: "scans start (Suc start) s (lex_number parse_f64 start c s)"
proof (cases s)
  case (Cons d s1)
  have prefix:
    "d < 128 \<Longrightarrow> scans start (Suc start) (d # s1) (lex_radix 16 is_ascii_hexdigit name start (start + 2) s1)"
    "d < 128 \<Longrightarrow> scans start (Suc start) (d # s1) (lex_radix 2 is_binary_digit name start (start + 2) s1)"
    "d < 128 \<Longrightarrow> scans start (Suc start) (d # s1) (lex_radix 8 is_octal_digit name start (start + 2) s1)"
    for name
    by (rule scans_radix_prefix, erule ascii_classes, assumption)+
  show ?thesis
    unfolding lex_number_def Cons list.case
    by (intro scans_if scans_decimal prefix) (elim conjE disjE; simp)+
qed (simp add: lex_number_def scans_decimal)

lemma scans_bytes [scan_intros]: "scans start pos s (lex_bytes start pos acc s)"
proof (induction start pos acc s rule: lex_bytes.induct)
  case (2 start pos acc c s)
  consider "c = QUOTE" | "c = BACKSLASH" | "c \<noteq> QUOTE" "c \<noteq> BACKSLASH" by blast
  then show ?case
  proof cases
    case 1
    then show ?thesis by (simp add: scans_Ok [where eaten = "[QUOTE]"])
  next
    case [simp]: 2
    show ?thesis
    proof (cases s)
      case (Cons esc s1)
      show ?thesis
      proof (cases "escape_value esc")
        case (Some v)
        have "scans start (pos + 1 + len_utf8 esc) s1
            (lex_bytes start (pos + 1 + len_utf8 esc) (acc @ [of_nat v]) s1)"
          using "2.IH"(1) Cons Some by simp
        then have "scans start pos (c # esc # s1)
            (lex_bytes start (pos + 1 + len_utf8 esc) (acc @ [of_nat v]) s1)"
          by (intro scans_Cons) simp
        then show ?thesis using Cons Some by simp
      qed (simp add: Cons)
    qed simp
  next
    case 3
    then show ?thesis using "2.IH"(2) by (simp add: scans_Cons)
  qed
qed simp

subsection \<open>What a scanner eats\<close>

definition eats :: "nat \<Rightarrow> rstr \<Rightarrow> nat \<Rightarrow> rstr \<Rightarrow> bool" where
  "eats pos s pos' rest \<longleftrightarrow> (\<exists>eaten. s = eaten @ rest \<and> pos' = pos + utf8_len eaten)"

lemma eats_refl [simp]: "eats pos s pos s"
  by (simp add: eats_def)

lemma eats_Cons: "eats (pos + len_utf8 c) s pos' rest \<Longrightarrow> eats pos (c # s) pos' rest"
  unfolding eats_def by (metis Cons_eq_appendI add.assoc utf8_len_simps(2))

lemma eats_append: "p = pos + utf8_len pre \<Longrightarrow> eats p s pos' rest \<Longrightarrow> eats pos (pre @ s) pos' rest"
  unfolding eats_def by (metis add.assoc append.assoc utf8_len_simps(3))

lemma eats_trans: "eats pos s p t \<Longrightarrow> eats p t pos' rest \<Longrightarrow> eats pos s pos' rest"
  unfolding eats_def by (metis add.assoc append.assoc utf8_len_simps(3))

lemma scans_eats: "eats pos s p t \<Longrightarrow> scans start p t r \<Longrightarrow> scans start pos s r"
  unfolding eats_def by (metis scans_prefix)

lemma scans_Ok_eats:
  "eats pos s pos' rest \<Longrightarrow> k \<notin> {TIndent, TDedent, TEof, TNewline} \<Longrightarrow>
   scans start pos s (Ok (token_new k start pos', pos', rest))"
  unfolding eats_def using scans_Ok by blast

lemma eats_takeWhile:
  assumes "\<And>c. P c \<Longrightarrow> c < 128"
  shows "eats pos s (pos + length (takeWhile P s)) (dropWhile P s)"
  unfolding eats_def
  by (rule exI [of _ "takeWhile P s"]) (simp add: utf8_len_takeWhile [of P, OF assms])

lemma keyword_kind_token [simp]: "keyword_kind s \<notin> {TIndent, TDedent, TEof, TNewline}"
  by (auto simp: keyword_kind_def split: option.splits)

lemma scans_identifier [scan_intros]: "scans start (Suc start) s (lex_identifier start c s)"
proof -
  let ?rest = "dropWhile is_ident_char s" and ?n = "length (takeWhile is_ident_char s)"
  have eats: "eats (Suc start) s (Suc (start + ?n)) ?rest"
    using eats_takeWhile [of is_ident_char "Suc start" s] ascii_classes(4) by simp
  have "scans start (Suc start) s (lex_bytes start (Suc (Suc (start + ?n))) [] (tl ?rest))"
    if "?rest \<noteq> []" "hd ?rest = QUOTE"
  proof (rule scans_eats [OF eats_trans [OF eats]])
    from that have "?rest = QUOTE # tl ?rest"
      by (cases ?rest) auto
    then show "eats (Suc (start + ?n)) ?rest (Suc (Suc (start + ?n))) (tl ?rest)"
      using eats_Cons [of "Suc (start + ?n)" QUOTE "tl ?rest"] by simp
  qed (rule scans_bytes)
  then show ?thesis
    using scans_Ok_eats [OF eats keyword_kind_token] by (simp add: lex_identifier_def Let_def)
qed

lemma scans_string [scan_intros]: "scans start pos s (lex_string start pos acc s)"
proof (induction start pos acc s rule: lex_string.induct)
  case (2 start pos acc c s)
  consider "c = QUOTE" | "c = BACKSLASH" | "c \<noteq> QUOTE" "c \<noteq> BACKSLASH" by blast
  then show ?case
  proof cases
    case 1
    then show ?thesis by (simp add: scans_Ok [where eaten = "[QUOTE]"])
  next
    case [simp]: 2
    show ?thesis
    proof (cases s)
      case (Cons esc s1)
      show ?thesis
      proof (cases "if esc = TICK then Some TICK else escape_value esc")
        case (Some v)
        have "scans start (pos + 1 + len_utf8 esc) s1
            (lex_string start (pos + 1 + len_utf8 esc) (acc @ [v]) s1)"
          using "2.IH"(1) Cons Some by simp
        then have "scans start pos (c # esc # s1)
            (lex_string start (pos + 1 + len_utf8 esc) (acc @ [v]) s1)"
          by (intro scans_Cons) simp
        then show ?thesis unfolding Cons lex_string.simps list.case Some by simp
      qed (unfold Cons lex_string.simps list.case, simp)
    qed simp
  next
    case 3
    then show ?thesis using "2.IH"(2) by (simp add: scans_Cons)
  qed
qed simp

lemma lex_interp_eats:
  "lex_interp bp pos depth len acc s = Ok (e, sp, pos', rest) \<Longrightarrow> eats pos s pos' rest"
proof (induction bp pos depth len acc s rule: lex_interp.induct)
  case (2 bp pos depth len acc c s)
  then show ?case
    by (auto simp: lex_err_def lex_err_help_def split: if_splits list.splits intro!: eats_Cons)
qed (simp add: lex_err_help_def)

lemma lex_unicode_eats: "lex_unicode_escape start pos s = Ok (c, pos', rest) \<Longrightarrow> eats pos s pos' rest"
proof -
  assume ok: "lex_unicode_escape start pos s = Ok (c, pos', rest)"
  then obtain s1 where s: "s = ch (CHR 0x7B) # s1"
    by (auto simp: lex_unicode_escape_def lex_err_def lex_err_help_def split: list.splits if_splits)
  let ?hex = "takeWhile is_ascii_hexdigit s1" and ?rest = "dropWhile is_ascii_hexdigit s1"
  obtain d where d: "?rest = d # rest" "d = ch (CHR 0x7D)" "pos' = pos + 1 + length ?hex + 1"
    using ok by (auto simp: s lex_unicode_escape_def lex_err_def lex_err_help_def Let_def split: list.splits if_splits)
  have "eats (pos + 1) s1 (pos + 1 + length ?hex) ?rest"
    by (rule eats_takeWhile) (rule ascii_classes)
  moreover have "eats (pos + 1 + length ?hex) ?rest pos' rest"
    using eats_Cons [of "pos + 1 + length ?hex" d rest pos' rest] d by simp
  ultimately show "eats pos s pos' rest"
    unfolding s by (intro eats_Cons) (auto intro: eats_trans)
qed

lemma ts_token_scan [simp]:
  "t_span (ts_token start pos ts) = span_new start pos"
  "t_kind (ts_token start pos ts) \<notin> {TIndent, TDedent, TEof, TNewline}"
  by (simp_all add: ts_token_def token_new_def Let_def)

lemma scans_template [scan_intros]: "scans start pos s (lex_template start len ts pos s)"
proof (induction start len ts pos s rule: lex_template.induct)
  case (2 start len ts pos c s)
  consider "c = TICK" | "c = BACKSLASH" | "c = ch (CHR 0x7B)"
    | "c \<noteq> TICK" "c \<noteq> BACKSLASH" "c \<noteq> ch (CHR 0x7B)" by blast
  then show ?case
  proof cases
    case 1
    then show ?thesis
      by (simp add: scans_def ts_token_scan [simplified])
  next
    case [simp]: 2
    show ?thesis
    proof (cases s)
      case (Cons esc s1)
      show ?thesis
      proof (cases "template_escape esc")
        case (Some v)
        have "scans start (pos + 1 + len_utf8 esc) s1
            (lex_template start len (ts_push v ts) (pos + 1 + len_utf8 esc) s1)"
          using "2.IH"(2) Cons Some by simp
        then have "scans start pos (c # esc # s1)
            (lex_template start len (ts_push v ts) (pos + 1 + len_utf8 esc) s1)"
          by (intro scans_Cons) simp
        then show ?thesis by (simp add: Cons Some)
      next
        case None
        show ?thesis
        proof (cases "esc = ch (CHR ''u'')")
          case u: True
          show ?thesis
          proof (cases "lex_unicode_escape start (pos + 2) s1")
            case (Ok x)
            obtain v pos' rest where x: "x = (v, pos', rest)" by (metis prod_cases3)
            have "scans start pos' rest (lex_template start len (ts_push v ts) pos' rest)"
              using "2.IH"(1) Cons None u Ok x by simp
            moreover have "eats pos (c # esc # s1) pos' rest"
              using lex_unicode_eats [OF Ok [unfolded x]] u by (intro eats_Cons) simp
            ultimately show ?thesis
              using None u Ok x Cons by (auto intro: scans_eats)
          qed (use None u Cons in simp_all)
        qed (use None Cons in simp)
      qed
    qed simp
  next
    case [simp]: 3
    show ?thesis
    proof (cases "lex_interp pos (pos + 1) 1 len [] s")
      case (Ok x)
      obtain e sp pos' rest where x: "x = (e, sp, pos', rest)" by (metis prod_cases4)
      have "eats pos (c # s) pos' rest"
        using lex_interp_eats [OF Ok [unfolded x]] by (intro eats_Cons) simp
      then show ?thesis
        using "2.IH"(3) Ok x by (auto intro: scans_eats)
    qed simp_all
  next
    case 4
    then show ?thesis using "2.IH"(4) by (simp add: scans_Cons)
  qed
qed simp

lemma scans_sym [scan_intros]: "eats (pos + 1) s (pos + n) rest \<Longrightarrow> scans pos (pos + 1) s (sym k pos n rest)"
  unfolding sym_def by (rule scans_Ok_eats) simp_all

lemma scans_sym2 [scan_intros]:
  assumes "ch second < 128"
  shows "scans pos (pos + 1) s (sym2 one [second] two pos s)"
proof (cases s)
  case (Cons c t)
  have "eats (pos + 1) s (pos + 2) (tl s)" if "[hd s] = rs [second]"
    using assms that by (auto simp: Cons rs_def intro!: eats_Cons)
  then show ?thesis
    unfolding sym2_def by (intro scans_if scans_sym) auto
qed (use scans_sym [of pos s 1 s one] in \<open>simp add: sym2_def\<close>)

lemma scans_placeholder [scan_intros]: "scans start (start + 1) s (lex_placeholder start s)"
  using eats_takeWhile [of is_ascii_digit "start + 1" s] ascii_classes(1)
  by (auto simp: lex_placeholder_def Let_def intro!: scans_Ok_eats)

lemma scans_symbol [scan_intros]: "scans pos (pos + 1) s (lex_symbol pos c s)"
proof (cases "map_of (map (\<lambda>(k, t). (rs k, t)) single_symbols) [c]")
  case None
  have one: "eats (pos + 1) s (pos + 2) (tl s)" if "s \<noteq> [] \<and> hd s = d" "d < 128" for d
    using that by (cases s) (auto intro!: eats_Cons)
  have two: "eats (pos + 1) s (pos + 3) (drop 2 s)" if "take 2 s = rs ''..''"
  proof -
    from that have s: "s = rs ''..'' @ drop 2 s"
      by (metis append_take_drop_id)
    have "eats (pos + 1) (rs ''..'' @ drop 2 s) (pos + 3) (drop 2 s)"
      by (rule eats_append [of "pos + 3"]) (simp_all add: rs_def)
    with s show ?thesis by simp
  qed
  show ?thesis
    unfolding lex_symbol_def None option.case
    by (intro scans_if scans_sym scans_sym2 scans_placeholder scans_Err one [of "ch (CHR ''>'')"] one [of "ch (CHR ''<'')"] two) simp_all
qed (use scans_sym [of pos s 1 s] in \<open>simp add: lex_symbol_def\<close>)

lemma scans_token: "scans pos (pos + len_utf8 c) s (lex_token parse_f64 len pos c s)"
proof (cases "c < 128")
  case True
  then show ?thesis
    using scans_number scans_identifier scans_string scans_template scans_symbol
    by (simp add: lex_token_def)
next
  case False
  then have "\<not> is_ascii_digit c" "\<not> is_ascii_alpha c" "c \<noteq> UNDERSCORE" "c \<noteq> QUOTE" "c \<noteq> TICK"
    using ascii_classes by auto
  moreover have "lex_symbol pos c s = Err (diag_new (rs ''unexpected character `'' @ [c] @ rs ''`'') (span_new pos (pos + len_utf8 c)))"
    using False by (simp add: lex_symbol_def single_symbols_def rs_def)
  ultimately show ?thesis
    by (simp add: lex_token_def)
qed

end
