(* ===== verification/Lexer_Loop.thy ===== *)
theory Lexer_Loop
  imports Lexer_Scan
begin

text \<open>
  The loop of the lexer and what it guarantees: it ends, its tokens nest and lie in order in the
  source, and literals denote what they spell.
\<close>

subsection \<open>The loop over the source\<close>

text \<open>
  An iteration shortens the source, or leaves a line start, or empties the queue of pending tokens.
\<close>

definition lex_rank :: "lex_state \<Rightarrow> (nat \<times> nat \<times> nat)" where
  "lex_rank st = (length (ls_rest st), if ls_line_start st then 1 else 0, length (ls_pending st))"

lemma lex_err_ne_Ok [simp]: "lex_err m a b \<noteq> Ok x" "lex_err_help m a b h \<noteq> Ok x"
  by (simp_all add: lex_err_def lex_err_help_def)

text \<open>What a successful iteration did, by cases.\<close>

lemma lex_step_cases:
  assumes "lex_step f len st = Ok st'" "ls_rest st \<noteq> []"
  obtains
    (pending) t ts where "ls_pending st = t # ts" "st' = st\<lparr> ls_tokens := ls_tokens st @ [t], ls_pending := ts \<rparr>"
  | (skip) p s where "ls_pending st = []" "eats (ls_pos st) (ls_rest st) p s" "length s < length (ls_rest st)"
      "st' = st\<lparr> ls_pos := p, ls_rest := s \<rparr>"
  | (layout) "ls_pending st = []" "ls_line_start st" "lex_line_start st = Ok st'"
  | (newline) s where "ls_pending st = []" "ls_rest st = NL # s" "\<not> ls_line_start st"
      "st' = st\<lparr> ls_tokens := ls_tokens st @ [token_new TNewline (ls_pos st) (ls_pos st + 1)], ls_pos := ls_pos st + 1,
                  ls_rest := s, ls_line_start := True \<rparr>"
  | (token) tok p s where "ls_pending st = []" "\<not> ls_line_start st" "t_span tok = span_new (ls_pos st) p"
      "t_kind tok \<notin> {TIndent, TDedent, TEof, TNewline}"
      "eats (ls_pos st) (ls_rest st) p s" "length s < length (ls_rest st)"
      "st' = st\<lparr> ls_tokens := ls_tokens st @ [tok], ls_pos := p, ls_rest := s \<rparr>"
proof (cases "ls_pending st")
  case (Cons t ts)
  with assms(1) show ?thesis by (auto simp: lex_step_def intro: pending)
next
  case Nil
  obtain c s where cs: "ls_rest st = c # s"
    using assms(2) by (cases "ls_rest st") auto
  have skip1: "c \<in> {CR, SPACE, TAB} \<Longrightarrow> eats (ls_pos st) (c # s) (ls_pos st + 1) s"
    by (intro eats_Cons) (auto simp: CR_def SPACE_def TAB_def)
  consider "c = CR" | "c \<noteq> CR" "ls_line_start st" | "c = NL" "\<not> ls_line_start st"
    | "c = ch (CHR ''#'')" "\<not> ls_line_start st" "c \<noteq> NL" "c \<noteq> CR"
    | "c = SPACE \<or> c = TAB" "\<not> ls_line_start st" "c \<noteq> ch (CHR ''#'')" "c \<noteq> NL" "c \<noteq> CR"
    | "\<not> ls_line_start st" "c \<noteq> ch (CHR ''#'')" "c \<noteq> NL" "c \<noteq> CR" "c \<noteq> SPACE" "c \<noteq> TAB" by blast
  then show ?thesis
  proof cases
    case 1
    with assms(1) Nil cs skip1 show ?thesis
      by (intro skip [of "ls_pos st + 1" s]) (auto simp: lex_step_def)
  next
    case 2
    with assms(1) Nil cs show ?thesis by (intro layout) (auto simp: lex_step_def)
  next
    case 3
    with assms(1) Nil cs show ?thesis by (intro newline [of s]) (auto simp: lex_step_def Let_def NL_def CR_def)
  next
    case 4
    let ?w = "takeWhile (\<lambda>c. c \<noteq> NL) s" and ?d = "dropWhile (\<lambda>c. c \<noteq> NL) s"
    have "eats (ls_pos st + 1) (?w @ ?d) (ls_pos st + 1 + utf8_len ?w) ?d"
      by (rule eats_append [OF refl]) simp
    with 4 have "eats (ls_pos st) (c # s) (ls_pos st + 1 + utf8_len ?w) ?d"
      by (intro eats_Cons) simp
    with 4 assms(1) Nil cs show ?thesis
      by (intro skip [of "ls_pos st + 1 + utf8_len ?w" ?d]) (auto simp: lex_step_def Let_def less_Suc_eq_le length_dropWhile_le)
  next
    case 5
    with assms(1) Nil cs skip1 show ?thesis
      by (intro skip [of "ls_pos st + 1" s]) (auto simp: lex_step_def)
  next
    case 6
    then obtain tok pos' rest where t: "lex_token f len (ls_pos st) c s = Ok (tok, pos', rest)"
      and st': "st' = st\<lparr> ls_tokens := ls_tokens st @ [tok], ls_pos := pos', ls_rest := rest \<rparr>"
      using assms(1) Nil cs by (auto simp: lex_step_def Let_def outcome_simps)
    have *: "t_span tok = span_new (ls_pos st) pos'" "t_kind tok \<notin> {TIndent, TDedent, TEof, TNewline}"
      "eats (ls_pos st + len_utf8 c) s pos' rest"
      using scans_token [of "ls_pos st" c s f len] t unfolding scans_def eats_def by auto
    then have "eats (ls_pos st) (c # s) pos' rest" "length rest \<le> length s"
      by (auto intro: eats_Cons simp: eats_def)
    with * Nil cs st' 6 show ?thesis
      by (intro token [of tok pos' rest]) (auto)
  qed
qed

lemma eats_layout:
  "eats (ls_pos st) (ls_rest st) (ls_pos st + length (takeWhile (\<lambda>c. c = SPACE \<or> c = TAB) (ls_rest st)))
     (dropWhile (\<lambda>c. c = SPACE \<or> c = TAB) (ls_rest st))"
  by (rule eats_takeWhile) (auto simp: SPACE_def TAB_def)

lemma lex_line_start_simple:
  assumes "lex_line_start st = Ok st'"
  shows "eats (ls_pos st) (ls_rest st) (ls_pos st') (ls_rest st')" "\<not> ls_line_start st'"
    "ls_tokens st' = ls_tokens st"
  using assms eats_layout [of st]
  by (auto simp: lex_line_start_def Let_def split: if_splits prod.splits)

lemma lex_step_decreases:
  assumes "lex_step f len st = Ok st'" "ls_rest st \<noteq> []"
  shows "(lex_rank st', lex_rank st) \<in> less_than <*lex*> less_than <*lex*> less_than"
  using assms
proof (cases rule: lex_step_cases)
  case layout
  then show ?thesis
    using lex_line_start_simple [OF layout(3)] by (auto simp: lex_rank_def eats_def)
qed (auto simp: lex_rank_def)

function lex_loop :: "(rstr \<Rightarrow> u64 option) \<Rightarrow> nat \<Rightarrow> lex_state \<Rightarrow> lex_state lex_result" where
  "lex_loop f len st = (if ls_rest st = [] then Ok st else obind (lex_step f len st) (lex_loop f len))"
  by auto
termination
  by (relation "inv_image (less_than <*lex*> less_than <*lex*> less_than) (\<lambda>(f, len, st). lex_rank st)")
    (auto intro: lex_step_decreases)

declare lex_loop.simps [simp del]

definition lex :: "(rstr \<Rightarrow> u64 option) \<Rightarrow> rstr \<Rightarrow> token list lex_result" where
  "lex f source = omap (lex_finish (utf8_len source)) (lex_loop f (utf8_len source) (lex_init source))"

lemma lex_loop_invariant:
  assumes "lex_loop f len st = Ok st'" "I st"
    "\<And>st st'. I st \<Longrightarrow> ls_rest st \<noteq> [] \<Longrightarrow> lex_step f len st = Ok st' \<Longrightarrow> I st'"
  shows "I st' \<and> ls_rest st' = []"
  using assms
proof (induction f len st rule: lex_loop.induct)
  case (1 f len st)
  show ?case
  proof (cases "ls_rest st = []")
    case False
    then obtain st1 where st1: "lex_step f len st = Ok st1" "lex_loop f len st1 = Ok st'"
      using "1.prems"(1) by (auto simp: lex_loop.simps [of f len st] outcome_simps)
    have "I st1" using "1.prems"(3) [OF "1.prems"(2) False st1(1)] .
    from "1.IH" [OF False st1 this] "1.prems"(3) show ?thesis by blast
  qed (use "1.prems" in \<open>auto simp: lex_loop.simps\<close>)
qed

subsection \<open>Layout and spans\<close>

text \<open>The nesting depth after a token list; \<open>None\<close> when a block is left that was not entered.\<close>

fun layout_depth :: "nat \<Rightarrow> token_kind list \<Rightarrow> nat option" where
  "layout_depth n [] = Some n"
| "layout_depth n (k # ks) =
     (if k = TIndent then layout_depth (Suc n) ks
      else if k = TDedent then (if n = 0 then None else layout_depth (n - 1) ks)
      else layout_depth n ks)"

text \<open>Spans in order, between two offsets.\<close>

fun spans_within :: "nat \<Rightarrow> nat \<Rightarrow> token list \<Rightarrow> bool" where
  "spans_within lo hi [] \<longleftrightarrow> lo \<le> hi"
| "spans_within lo hi (t # ts) \<longleftrightarrow> lo \<le> sp_start (t_span t) \<and> sp_start (t_span t) \<le> sp_end (t_span t) \<and>
     spans_within (sp_end (t_span t)) hi ts"

lemma layout_depth_append:
  "layout_depth n (xs @ ys) = (case layout_depth n xs of None \<Rightarrow> None | Some m \<Rightarrow> layout_depth m ys)"
  by (induction n xs rule: layout_depth.induct) auto

lemma layout_depth_dedents: "m \<le> n \<Longrightarrow> layout_depth n (replicate m TDedent) = Some (n - m)"
  by (induction m arbitrary: n) auto

lemma spans_within_append: "spans_within lo m xs \<Longrightarrow> spans_within m hi ys \<Longrightarrow> spans_within lo hi (xs @ ys)"
proof (induction xs arbitrary: lo)
  case Nil
  then show ?case by (cases ys) auto
qed auto

lemma spans_within_mono: "spans_within lo hi ts \<Longrightarrow> hi \<le> hi' \<Longrightarrow> spans_within lo hi' ts"
  using spans_within_append [of lo hi ts hi' "[]"] by simp

lemma spans_within_here: "lo \<le> p \<Longrightarrow> p \<le> hi \<Longrightarrow> spans_within lo hi (replicate n (token_new k p p))"
  by (induction n arbitrary: lo) (auto simp: token_new_def)

lemma t_kind_new [simp]: "t_kind (token_new k a b) = k" "t_span (token_new k a b) = span_new a b"
  by (simp_all add: token_new_def)

lemma pop_indents_props:
  "pop_indents w is ss = (a, b, n) \<Longrightarrow> is \<noteq> [] \<Longrightarrow> last is = 0 \<Longrightarrow>
   a \<noteq> [] \<and> last a = 0 \<and> length is = length a + n"
  by (induction w "is" ss arbitrary: a b n rule: pop_indents.induct)
    (auto split: if_splits prod.splits)

definition lex_inv :: "nat \<Rightarrow> lex_state \<Rightarrow> bool" where
  "lex_inv len st \<longleftrightarrow>
     layout_depth 0 (map t_kind (ls_tokens st @ ls_pending st)) = Some (length (ls_indents st) - 1) \<and>
     ls_indents st \<noteq> [] \<and> last (ls_indents st) = 0 \<and>
     TEof \<notin> t_kind ` set (ls_tokens st @ ls_pending st) \<and> (ls_pending st \<noteq> [] \<longrightarrow> ls_rest st \<noteq> []) \<and>
     spans_within 0 (ls_pos st) (ls_tokens st @ ls_pending st) \<and> ls_pos st + utf8_len (ls_rest st) = len"

lemma eats_len: "eats pos s p r \<Longrightarrow> p + utf8_len r = pos + utf8_len s \<and> pos \<le> p"
  by (auto simp: eats_def)

lemma lex_inv_init: "lex_inv (utf8_len source) (lex_init source)"
  by (simp add: lex_inv_def lex_init_def)

lemma lex_inv_line_start:
  assumes "lex_inv len st" "ls_pending st = []" "lex_line_start st = Ok st'"
  shows "lex_inv len st'"
proof -
  let ?ws = "takeWhile (\<lambda>c. c = SPACE \<or> c = TAB) (ls_rest st)"
  let ?rest = "dropWhile (\<lambda>c. c = SPACE \<or> c = TAB) (ls_rest st)"
  let ?w = "indent_width ?ws"
  have end_pos: "ls_pos st + length ?ws + utf8_len ?rest = len"
    using eats_len [OF eats_layout [of st]] assms(1) by (simp add: lex_inv_def)
  have spans: "spans_within 0 (ls_pos st + length ?ws) (ls_tokens st @ replicate n (token_new k (ls_pos st) (ls_pos st)))" for n k
    by (rule spans_within_append [of 0 "ls_pos st"], use assms(1,2) in \<open>simp add: lex_inv_def\<close>)
      (rule spans_within_here; simp)
  have depth: "layout_depth 0 (map t_kind (ls_tokens st)) = Some (length (ls_indents st) - 1)" and
    ind: "ls_indents st \<noteq> []" "last (ls_indents st) = 0" and eof: "TEof \<notin> t_kind ` set (ls_tokens st)"
    using assms(1,2) by (auto simp: lex_inv_def)
  consider (blank) "ls_tokens st' = ls_tokens st" "ls_pending st' = []" "ls_indents st' = ls_indents st"
    | (deeper) "ls_tokens st' = ls_tokens st" "ls_pending st' = [token_new TIndent (ls_pos st) (ls_pos st)]"
        "ls_indents st' = ?w # ls_indents st" "?rest \<noteq> []"
    | (popped) a b n where "pop_indents ?w (ls_indents st) (ls_styles st) = (a, b, n)" "ls_indents st' = a"
        "ls_tokens st' = ls_tokens st" "ls_pending st' = replicate n (token_new TDedent (ls_pos st) (ls_pos st))" "?rest \<noteq> []"
    using assms(2,3) by (auto simp: lex_line_start_def Let_def split: if_splits prod.splits)
  moreover have "ls_pos st' = ls_pos st + length ?ws" "ls_rest st' = ?rest"
    using assms(3) by (auto simp: lex_line_start_def Let_def split: if_splits prod.splits)
  ultimately show ?thesis
  proof cases
    case blank
    with spans [of 0] end_pos depth ind eof \<open>ls_pos st' = _\<close> \<open>ls_rest st' = _\<close> show ?thesis
      by (simp add: lex_inv_def)
  next
    case deeper
    with spans [of 1 TIndent] end_pos depth ind eof \<open>ls_pos st' = _\<close> \<open>ls_rest st' = _\<close> show ?thesis
      by (simp add: lex_inv_def layout_depth_append Suc_pred)
  next
    case popped
    note a = pop_indents_props [OF popped(1) ind]
    have "layout_depth (length (ls_indents st) - 1) (replicate n TDedent) = Some (length a - 1)"
      using a by (subst layout_depth_dedents) (cases a; simp)+
    with popped a spans [of n TDedent] end_pos depth eof \<open>ls_pos st' = _\<close> \<open>ls_rest st' = _\<close> show ?thesis
      by (auto simp: lex_inv_def layout_depth_append)
  qed
qed

lemma lex_inv_step:
  assumes inv: "lex_inv len st" and "ls_rest st \<noteq> []" "lex_step f len st = Ok st'"
  shows "lex_inv len st'"
  using assms(3,2)
proof (cases rule: lex_step_cases)
  case pending
  then show ?thesis using inv assms(2) by (simp add: lex_inv_def)
next
  case (skip p s)
  then show ?thesis
    using inv eats_len [OF skip(2)] spans_within_mono [of 0 "ls_pos st" "ls_tokens st" p] by (simp add: lex_inv_def)
next
  case layout
  then show ?thesis using lex_inv_line_start [OF inv] by simp
next
  case (newline s)
  have "spans_within (ls_pos st) (ls_pos st + 1) [token_new TNewline (ls_pos st) (ls_pos st + 1)]" by simp
  with newline spans_within_append [of 0 "ls_pos st" "ls_tokens st"] show ?thesis
    using inv by (simp add: lex_inv_def layout_depth_append NL_def)
next
  case (token tok p s)
  then have "spans_within (ls_pos st) p [tok]"
    by (auto simp: eats_def)
  with token spans_within_append [of 0 "ls_pos st" "ls_tokens st" p "[tok]"] show ?thesis
    using inv by (auto simp: lex_inv_def layout_depth_append eats_def)
qed

lemma lex_result:
  assumes "lex f source = Ok toks"
  obtains st where "lex_inv (utf8_len source) st" "ls_rest st = []" "toks = lex_finish (utf8_len source) st"
proof -
  from assms obtain st where st: "lex_loop f (utf8_len source) (lex_init source) = Ok st"
      "toks = lex_finish (utf8_len source) st"
    by (auto simp: lex_def outcome_simps)
  with lex_loop_invariant [OF st(1), of "lex_inv (utf8_len source)"] lex_inv_init lex_inv_step that show ?thesis by blast
qed

text \<open>The form of the tokens, from the state after the loop.\<close>

lemma lex_form:
  assumes "lex f source = Ok toks"
  shows "layout_depth 0 (map t_kind toks) = Some 0 \<and>
    (\<exists>body n. map t_kind toks = body @ [TNewline] @ replicate n TDedent @ [TEof] \<and> TEof \<notin> set body)"
proof -
  obtain st where inv: "lex_inv (utf8_len source) st" "ls_rest st = []" and toks: "toks = lex_finish (utf8_len source) st"
    using lex_result [OF assms] .
  define n where "n = length (ls_indents st) - 1"
  have pend: "ls_pending st = []" and d: "layout_depth 0 (map t_kind (ls_tokens st)) = Some n"
    and eof: "TEof \<notin> t_kind ` set (ls_tokens st)"
    using inv by (auto simp: lex_inv_def n_def)
  obtain body where body: "map t_kind toks = body @ [TNewline] @ replicate n TDedent @ [TEof]"
    "layout_depth 0 body = Some n" "TEof \<notin> set body"
  proof (cases "ls_tokens st \<noteq> [] \<and> t_kind (last (ls_tokens st)) = TNewline")
    case True
    then have e: "map t_kind (ls_tokens st) = map t_kind (butlast (ls_tokens st)) @ [TNewline]"
      by (metis append_butlast_last_id list.simps(8) list.simps(9) map_append)
    show ?thesis
    proof (rule that [of "map t_kind (butlast (ls_tokens st))"])
      show "layout_depth 0 (map t_kind (butlast (ls_tokens st))) = Some n"
        using d e by (simp add: layout_depth_append split: option.splits)
      show "map t_kind toks = map t_kind (butlast (ls_tokens st)) @ [TNewline] @ replicate n TDedent @ [TEof]"
        using True e by (simp add: toks lex_finish_def n_def)
      show "TEof \<notin> set (map t_kind (butlast (ls_tokens st)))"
        using eof by (auto dest: in_set_butlastD)
    qed
  next
    case False
    show ?thesis
      by (rule that [of "map t_kind (ls_tokens st)"])
        (use False d eof in \<open>auto simp: toks lex_finish_def n_def\<close>)
  qed
  have "layout_depth 0 (body @ [TNewline] @ replicate n TDedent @ [TEof]) = Some 0"
    using body(2) by (simp add: layout_depth_append layout_depth_dedents)
  then show ?thesis using body(1,3) by auto
qed

text \<open>
  C8: in the tokens of a source, blocks are entered and left in a balanced way (no block is left that
  was not entered, and all are left at the end), the last token and no other is the end of file, and
  the token before the closing dedents is a newline.
\<close>

theorem lex_layout_balanced:
  assumes "lex f source = Ok toks"
  shows "layout_depth 0 (map t_kind toks) = Some 0 \<and>
    (\<exists>body n. map t_kind toks = body @ [TNewline] @ replicate n TDedent @ [TEof] \<and> TEof \<notin> set body)"
  by (rule lex_form [OF assms])

text \<open>
  C19: the spans of the tokens are in order, without overlap, and within the source.
\<close>

theorem lex_spans_ordered:
  assumes "lex f source = Ok toks"
  shows "spans_within 0 (utf8_len source) toks"
proof -
  obtain st where inv: "lex_inv (utf8_len source) st" "ls_rest st = []" and toks: "toks = lex_finish (utf8_len source) st"
    using lex_result [OF assms] .
  let ?len = "utf8_len source"
  have s: "spans_within 0 ?len (ls_tokens st)"
    using inv by (auto simp: lex_inv_def)
  have here: "spans_within ?len ?len (replicate m (token_new k ?len ?len))" for m k
    by (rule spans_within_here) simp_all
  have "spans_within ?len ?len (replicate m (token_new k ?len ?len) @ replicate m' (token_new k' ?len ?len) @ [token_new TEof ?len ?len])" for m k m' k'
    using here [of 1 TEof] by (intro spans_within_append [OF here]) simp
  from spans_within_append [OF s this [of 0]] spans_within_append [OF s this [of 1]] show ?thesis
    unfolding toks lex_finish_def Let_def by (cases "ls_tokens st \<noteq> [] \<and> t_kind (last (ls_tokens st)) = TNewline") (auto simp del: spans_within.simps)
qed

subsection \<open>Literals\<close>

lemma lex_single:
  assumes c: "c \<notin> {CR, NL, SPACE, TAB, ch (CHR ''#'')}"
    and tok: "lex_token f (utf8_len (c # s)) 0 c s = Ok (tok, pos', [])"
  shows "lex f (c # s) = Ok [tok, token_new TNewline (utf8_len (c # s)) (utf8_len (c # s)),
    token_new TEof (utf8_len (c # s)) (utf8_len (c # s))]"
proof -
  define len where "len = utf8_len (c # s)"
  define st1 where "st1 = (lex_init (c # s))\<lparr> ls_line_start := False \<rparr>"
  define st2 where "st2 = st1\<lparr> ls_tokens := [tok], ls_pos := pos', ls_rest := [] \<rparr>"
  have "lex_step f len (lex_init (c # s)) = Ok st1"
    using c by (simp add: lex_step_def lex_init_def lex_line_start_def indent_width_def st1_def)
  moreover have "lex_step f len st1 = Ok st2"
    using c tok by (simp add: lex_step_def lex_init_def st1_def st2_def len_def Let_def)
  ultimately have "lex_loop f len (lex_init (c # s)) = Ok st2"
    by (subst lex_loop.simps, simp add: lex_init_def [of "c # s"])
      (subst lex_loop.simps, simp add: st1_def lex_init_def, subst lex_loop.simps, simp add: st2_def)
  moreover have "t_kind tok \<noteq> TNewline"
    using scans_token [of 0 c s f len] tok by (auto simp: scans_def len_def)
  ultimately have "lex f (c # s) = Ok (lex_finish len st2)" "t_kind tok \<noteq> TNewline"
    by (simp_all only: lex_def len_def omap.simps not_False_eq_True)
  then show ?thesis
    by (simp add: lex_finish_def st2_def st1_def lex_init_def len_def)
qed

text \<open>A string literal for any string: backslashes and quotes are escaped.\<close>

definition escape_string :: "rstr \<Rightarrow> rstr" where
  "escape_string v = concat (map (\<lambda>c. if c = BACKSLASH \<or> c = QUOTE then [BACKSLASH, c] else [c]) v)"

lemma lex_string_escaped:
  "lex_string start pos acc (escape_string v @ QUOTE # rest) =
     Ok (token_new (TString (acc @ v)) start (pos + utf8_len (escape_string v) + 1),
       pos + utf8_len (escape_string v) + 1, rest)"
proof (induction v arbitrary: pos acc)
  case (Cons c v)
  consider "c = BACKSLASH" | "c = QUOTE" | "c \<noteq> BACKSLASH" "c \<noteq> QUOTE" by blast
  then show ?case
    by cases (use Cons.IH in \<open>simp_all add: escape_string_def escape_value_def add.assoc\<close>)
qed (simp add: escape_string_def)

lemma show_nat_digits: "\<forall>c \<in> set (rs (show_nat n)). is_ascii_digit c"
proof (induction n rule: show_nat.induct)
  case (1 n)
  then show ?case
    by (subst show_nat.simps) (auto simp: rs_def is_ascii_digit_def of_char_of)
qed

lemma show_nat_ne [simp]: "show_nat n \<noteq> []"
  by (subst show_nat.simps) simp

lemma radix_value_snoc: "radix_value r (s @ [c]) = radix_value r s * r + digit_value c"
  by (simp add: radix_value_def)

lemma digit_value_digit: "d < 10 \<Longrightarrow> digit_value (48 + d) = d"
  by (simp add: digit_value_def is_ascii_digit_def)

lemma radix_value_show_nat: "radix_value 10 (rs (show_nat n)) = n"
proof (induction n rule: show_nat.induct)
  case (1 n)
  have "digit_value (of_char (char_of (48 + n mod 10) :: char)) = n mod 10"
    using digit_value_digit [of "n mod 10"] by (simp add: of_char_of)
  with 1 show ?case
    by (subst show_nat.simps)
      (auto simp: rs_def radix_value_snoc [of 10 "map of_char xs" for xs, simplified] of_char_of digit_value_digit radix_value_def [of 10 "[c]" for c])
qed

lemma scan_decimal_digits: "\<forall>c \<in> set s. is_ascii_digit c \<Longrightarrow> scan_decimal b s = (s, b, [])"
  by (induction s) auto

lemma digit_not_underscore: "is_ascii_digit c \<Longrightarrow> c \<noteq> UNDERSCORE"
  by (auto simp: is_ascii_digit_def)

lemma lex_number_digits:
  assumes digits: "\<forall>d \<in> set (c # s). is_ascii_digit d" and "radix_value 10 (c # s) < 2 ^ 63"
  shows "lex_number f start c s = Ok (token_new (TInteger (int (radix_value 10 (c # s)))) start (start + length (c # s)),
    start + length (c # s), [])"
proof -
  have "filter (\<lambda>c. c \<noteq> UNDERSCORE) (c # s) = c # s"
    using digits by (intro filter_True) (auto dest: digit_not_underscore)
  then have "lex_decimal f start c s = Ok (token_new (TInteger (int (radix_value 10 (c # s)))) start (start + length (c # s)),
    start + length (c # s), [])"
    unfolding lex_decimal_def using digits assms(2) by (simp add: scan_decimal_digits Let_def del: filter.simps)
  moreover have "lex_number f start c s = lex_decimal f start c s"
    using digits by (cases s) (auto simp: lex_number_def is_ascii_digit_def)
  ultimately show ?thesis by simp
qed

text \<open>
  C18: literals denote what they spell: the decimal digits of a number below \<open>2^63\<close> are lexed as that
  integer, and any string, with its backslashes and quotes escaped and put in quotes, as that string;
  either literal alone is a source of one token before the final newline and end of file.
\<close>

theorem lex_literals:
  "(n < 2 ^ 63 \<longrightarrow> (\<exists>toks. lex f (rs (show_nat n)) = Ok toks \<and> map t_kind toks = [TInteger (int n), TNewline, TEof])) \<and>
   (\<exists>toks. lex f (QUOTE # escape_string v @ [QUOTE]) = Ok toks \<and> map t_kind toks = [TString v, TNewline, TEof])"
proof (intro conjI impI)
  assume n: "n < 2 ^ 63"
  obtain c s where cs: "rs (show_nat n) = c # s"
    by (cases "rs (show_nat n)") (auto simp: rs_def)
  have digits: "\<forall>d \<in> set (c # s). is_ascii_digit d" "radix_value 10 (c # s) = n"
    using show_nat_digits [of n] radix_value_show_nat [of n] cs by auto
  then have "c \<notin> {CR, NL, SPACE, TAB, ch (CHR ''#'')}"
    by (auto simp: is_ascii_digit_def CR_def NL_def SPACE_def TAB_def)
  moreover have "lex_token f (utf8_len (c # s)) 0 c s =
      Ok (token_new (TInteger (int n)) 0 (0 + length (c # s)), 0 + length (c # s), [])"
    using digits lex_number_digits [of c s f 0] n by (simp add: lex_token_def)
  ultimately show "\<exists>toks. lex f (rs (show_nat n)) = Ok toks \<and> map t_kind toks = [TInteger (int n), TNewline, TEof]"
    unfolding cs using lex_single by fastforce
next
  have "lex_token f (utf8_len (QUOTE # escape_string v @ [QUOTE])) 0 QUOTE (escape_string v @ [QUOTE]) =
      lex_string 0 1 [] (escape_string v @ [QUOTE])"
    by (simp add: lex_token_def is_ascii_digit_def is_ascii_alpha_def)
  then have tok: "lex_token f (utf8_len (QUOTE # escape_string v @ [QUOTE])) 0 QUOTE (escape_string v @ [QUOTE]) =
      Ok (token_new (TString v) 0 (1 + utf8_len (escape_string v) + 1), 1 + utf8_len (escape_string v) + 1, [])"
    using lex_string_escaped [of 0 1 "[]" v "[]"] by simp
  have "QUOTE \<notin> {CR, NL, SPACE, TAB, ch (CHR ''#'')}"
    by (simp add: CR_def NL_def SPACE_def TAB_def)
  from lex_single [OF this tok]
  show "\<exists>toks. lex f (QUOTE # escape_string v @ [QUOTE]) = Ok toks \<and> map t_kind toks = [TString v, TNewline, TEof]"
    by simp
qed

lemma lex_literals_witness:
  "\<exists>toks. lex (\<lambda>_. None) (rs (show_nat 1000)) = Ok toks \<and> map t_kind toks = [TInteger 1000, TNewline, TEof]"
  using lex_literals [of 1000 "\<lambda>_. None" "[]"] by simp

subsection \<open>An example\<close>

definition EXAMPLE :: rstr where
  "EXAMPLE = rs ''if x'' @ NL # rs ''  y''"

lemma lex_example: "\<exists>toks. lex (\<lambda>_. None) EXAMPLE = Ok toks \<and> map t_kind toks =
  [TKeyword KeywordIf, TIdentifier (rs ''x''), TNewline, TIndent, TIdentifier (rs ''y''), TNewline, TDedent, TEof]"
proof -
  have "omap (map t_kind) (lex (\<lambda>_. None) EXAMPLE) =
    Ok [TKeyword KeywordIf, TIdentifier (rs ''x''), TNewline, TIndent, TIdentifier (rs ''y''), TNewline, TDedent, TEof]"
    by code_simp
  then show ?thesis
    by (cases "lex (\<lambda>_. None) EXAMPLE") auto
qed

lemma lex_layout_balanced_witness:
  "\<exists>toks. lex (\<lambda>_. None) EXAMPLE = Ok toks \<and> TIndent \<in> set (map t_kind toks) \<and> layout_depth 0 (map t_kind toks) = Some 0"
  using lex_example lex_layout_balanced [of "\<lambda>_. None" EXAMPLE] by force

lemma lex_spans_ordered_witness:
  "\<exists>toks. lex (\<lambda>_. None) EXAMPLE = Ok toks \<and> spans_within 0 (utf8_len EXAMPLE) toks"
  using lex_example lex_spans_ordered [of "\<lambda>_. None" EXAMPLE] by blast

end
