(* ===== verification/Ast.thy ===== *)
theory Ast
  imports Lexer_Loop
begin

text \<open>
  The syntax tree (\<open>src/ast.rs\<close>). Boxes are transparent. A 64-bit float is its bits, a text its list of
  Unicode scalar values.
\<close>

subsection \<open>Patterns, type annotations, operators\<close>

datatype type_annotation =
  TypeAnnotation (ta_segments: "rstr list") (ta_type_args: "type_annotation list") (ta_span: span)

datatype binary_op =
    BinAdd | BinSub | BinMul | BinDiv | BinMod | BinAnd | BinOr | BinBitAnd | BinBitOr | BinBitXor
  | BinShiftLeft | BinShiftRight | BinEquals | BinNotEquals | BinGreater | BinGreaterEq | BinLess
  | BinLessEq

datatype unary_op = UnNeg | UnNot | UnBitNot

datatype match_pattern =
    PatInteger int
  | PatBool bool
  | PatIdentifier rstr
  | PatString rstr
  | PatList "match_pattern list"
  | PatConstructor rstr "match_pattern list" span
  | PatWildcard span
  | PatOr "match_pattern list"
  | PatRange int int span
  | PatRangeBinding rstr int int span
  | PatRest rstr span

subsection \<open>Expressions, statements, blocks\<close>

text \<open>
  Expressions, statements and blocks contain each other. The types below are first stated over the
  type of expressions, so that each is one recursive type; the types of the source are the synonyms.
\<close>

datatype 'e parameter_of =
  Parameter (pa_name: rstr) (pa_type_annotation: "type_annotation option") (pa_default: "'e option") (pa_span: span)

datatype 'e binding_of =
  Binding (bi_name: rstr) (bi_type_annotation: "type_annotation option") (bi_value: 'e) (bi_span: span)

datatype ('e, 's) block_of =
  Block (bl_statements: "'s list") (bl_value: "'e option") (bl_span: span)

datatype 'e statement_of =
    StBinding "'e binding_of"
  | StExpression 'e
  | StReturn 'e span
  | StIf 'e "('e, 'e statement_of) block_of" "('e \<times> ('e, 'e statement_of) block_of) list"
      "('e, 'e statement_of) block_of option" span
  | StWhile 'e "('e, 'e statement_of) block_of" span
  | StFor rstr 'e "('e, 'e statement_of) block_of" span
  | StForKV rstr rstr 'e "('e, 'e statement_of) block_of" span
  | StForRange rstr 'e 'e "'e option" "('e, 'e statement_of) block_of" span
  | StFieldAssign 'e rstr 'e span
  | StBreak span
  | StContinue span
  | StPatternBinding match_pattern 'e span

datatype 'e match_arm_of =
  MatchArm (ma_pattern: match_pattern) (ma_guard: "'e option") (ma_body: "('e, 'e statement_of) block_of")

datatype 'e match_of =
  MatchExpression (me_value: 'e) (me_arms: "'e match_arm_of list")
    (me_default: "('e, 'e statement_of) block_of option") (me_span: span)

datatype expression =
    EUnit
  | ENone span
  | EIdentifier rstr span
  | EInteger int span
  | EFloat u64 span
  | EBool bool span
  | EString rstr span
  | EBytes bytes span
  | EPlaceholder u32 span
  | ETaxonomyPath "rstr list" span
  | EThrow expression span
  | ELambda "expression parameter_of list" "(expression, expression statement_of) block_of" span
  | EList "expression list" span
  | EMap "(expression \<times> expression) list" span
  | ESpread expression span
  | EListComprehension expression rstr expression "expression option" span
  | EMapComprehension expression expression rstr expression "expression option" span
  | EBinary binary_op expression expression span
  | EUnary unary_op expression span
  | ECall expression "expression list" "rstr option list" span
  | EMember expression rstr span
  | ETernary expression expression expression span
  | EPipeline expression expression span
  | EErrorValue "rstr list" span
  | EErrorPropagate expression span
  | EMatch "expression match_of"
  | EInlineAsm rstr "(rstr \<times> expression) list" "rstr list" span
  | EPtrLoad expression span
  | EUnsafe "(expression, expression statement_of) block_of" span
  | EIndex expression expression span
  | ESlice expression expression expression span

type_synonym "parameter" = "expression parameter_of"
type_synonym binding = "expression binding_of"
type_synonym statement = "expression statement_of"
type_synonym block = "(expression, statement) block_of"
type_synonym match_arm = "expression match_arm_of"
type_synonym match_expression = "expression match_of"

text \<open>\<open>Expression::span\<close>.\<close>

fun expr_span :: "expression \<Rightarrow> span" where
  "expr_span EUnit = span_new 0 0"
| "expr_span (ENone s) = s"
| "expr_span (EIdentifier _ s) = s"
| "expr_span (EInteger _ s) = s"
| "expr_span (EFloat _ s) = s"
| "expr_span (EBool _ s) = s"
| "expr_span (EString _ s) = s"
| "expr_span (EBytes _ s) = s"
| "expr_span (EPlaceholder _ s) = s"
| "expr_span (ETaxonomyPath _ s) = s"
| "expr_span (EList _ s) = s"
| "expr_span (EMap _ s) = s"
| "expr_span (ESpread _ s) = s"
| "expr_span (EListComprehension _ _ _ _ s) = s"
| "expr_span (EMapComprehension _ _ _ _ _ s) = s"
| "expr_span (EBinary _ _ _ s) = s"
| "expr_span (EUnary _ _ s) = s"
| "expr_span (ECall _ _ _ s) = s"
| "expr_span (EMember _ _ s) = s"
| "expr_span (ETernary _ _ _ s) = s"
| "expr_span (EPipeline _ _ s) = s"
| "expr_span (EErrorValue _ s) = s"
| "expr_span (EErrorPropagate _ s) = s"
| "expr_span (EMatch m) = me_span m"
| "expr_span (EThrow _ s) = s"
| "expr_span (ELambda _ _ s) = s"
| "expr_span (EInlineAsm _ _ _ s) = s"
| "expr_span (EPtrLoad _ s) = s"
| "expr_span (EUnsafe _ s) = s"
| "expr_span (EIndex _ _ s) = s"
| "expr_span (ESlice _ _ _ s) = s"

definition block_from_expression :: "expression \<Rightarrow> block" where
  "block_from_expression e = Block [] (Some e) (expr_span e)"

subsection \<open>Items\<close>

datatype function_kind = FkFree | FkMethod | FkActorMessage

record function_def =
  fd_name :: rstr
  fd_params :: "parameter list"
  fd_body :: block
  fd_kind :: function_kind
  fd_span :: span

record extern_function =
  xf_name :: rstr
  xf_params :: "parameter list"
  xf_return_type :: "type_annotation option"
  xf_span :: span

record type_param =
  tp_name :: rstr
  tp_bounds :: "rstr list"
  tp_is_const :: bool

definition type_param_new :: "rstr \<Rightarrow> rstr list \<Rightarrow> type_param" where
  "type_param_new name bounds = \<lparr> tp_name = name, tp_bounds = bounds, tp_is_const = False \<rparr>"

definition type_param_plain :: "rstr \<Rightarrow> type_param" where
  "type_param_plain name = \<lparr> tp_name = name, tp_bounds = [], tp_is_const = False \<rparr>"

definition type_param_const :: "rstr \<Rightarrow> type_param" where
  "type_param_const name = \<lparr> tp_name = name, tp_bounds = [], tp_is_const = True \<rparr>"

record field =
  fl_name :: rstr
  fl_is_reference :: bool
  fl_default :: "expression option"
  fl_span :: span

record variant_field =
  vf_name :: "rstr option"
  vf_type_annotation :: "type_annotation option"
  vf_span :: span

record type_variant =
  tv_name :: rstr
  tv_fields :: "variant_field list"
  tv_span :: span

record type_definition =
  td_name :: rstr
  td_type_params :: "type_param list"
  td_with_traits :: "rstr list"
  td_fields :: "field list"
  td_methods :: "function_def list"
  td_variants :: "type_variant list"
  td_span :: span

definition param_names :: "type_definition \<Rightarrow> rstr list" where
  "param_names t = map tp_name (td_type_params t)"

record store_definition =
  sd_name :: rstr
  sd_with_traits :: "rstr list"
  sd_fields :: "field list"
  sd_methods :: "function_def list"
  sd_is_actor :: bool
  sd_is_persistent :: bool
  sd_message_type :: "rstr option"
  sd_span :: span

datatype taxonomy_node =
  TaxonomyNode (tn_name: rstr) (tn_children: "taxonomy_node list") (tn_bindings: "binding list") (tn_span: span)

datatype error_definition =
  ErrorDefinition (ed_name: rstr) (ed_code: "int option") (ed_message: "rstr option")
    (ed_children: "error_definition list") (ed_span: span)

record trait_method =
  tm_name :: rstr
  tm_params :: "parameter list"
  tm_body :: "block option"
  tm_span :: span

record trait_definition =
  tr_name :: rstr
  tr_required_traits :: "rstr list"
  tr_methods :: "trait_method list"
  tr_span :: span

record extension_definition =
  xd_target_type :: rstr
  xd_methods :: "function_def list"
  xd_span :: span

datatype item =
    ItBinding binding
  | ItFunction function_def
  | ItExternFunction extern_function
  | ItType type_definition
  | ItStore store_definition
  | ItTaxonomy taxonomy_node
  | ItErrorDefinition error_definition
  | ItTraitDefinition trait_definition
  | ItExtension extension_definition
  | ItExpression expression

record module_def =
  mo_name :: rstr
  mo_items :: "item list"
  mo_imports :: "rstr list"
  mo_exports :: "rstr list"
  mo_span :: span

record program =
  pr_items :: "item list"
  pr_modules :: "module_def list"
  pr_span :: span

definition program_new :: "item list \<Rightarrow> span \<Rightarrow> program" where
  "program_new items s = \<lparr> pr_items = items, pr_modules = [], pr_span = s \<rparr>"

definition program_from_modules :: "module_def list \<Rightarrow> program" where
  "program_from_modules modules = \<lparr> pr_items = concat (map mo_items modules), pr_modules = modules,
     pr_span = (if modules = [] then span_new 0 0 else mo_span (last modules)) \<rparr>"

end
