(* ===== verification/Parser_Base.thy ===== *)
theory Parser_Base
  imports Ast
begin

text \<open>
  The parser's state and its elementary operations (\<open>src/parser.rs\<close>). A parser is a function of the
  state: \<open>None\<close> when the call does not return, or else the outcome with the state after it. The state
  after an error is the one the recovery goes on with.
\<close>

subsection \<open>State\<close>

record pstate =
  ps_tokens :: "token list"
  ps_index :: nat
  ps_source_len :: nat
  ps_pending_error :: "diagnostic option"
  ps_layout_depth :: nat
  ps_errors :: "diagnostic list"

definition parser_new :: "token list \<Rightarrow> nat \<Rightarrow> pstate" where
  "parser_new tokens source_len = \<lparr> ps_tokens = tokens, ps_index = 0, ps_source_len = source_len,
     ps_pending_error = None, ps_layout_depth = 0, ps_errors = [] \<rparr>"

type_synonym 'a parser = "pstate \<Rightarrow> ((diagnostic, 'a) outcome \<times> pstate) option"

text \<open>What is not in the repository: the conversion of floating-point literals and the Unicode table.\<close>

record parser_env =
  pe_parse_f64 :: "rstr \<Rightarrow> u64 option"
  pe_is_uppercase :: "rchar \<Rightarrow> bool"

subsection \<open>Sequencing\<close>

definition preturn :: "'a \<Rightarrow> 'a parser" where
  "preturn x s = Some (Ok x, s)"

definition pfail :: "diagnostic \<Rightarrow> 'a parser" where
  "pfail e s = Some (Err e, s)"

definition ppanic :: "'a parser" where
  "ppanic s = Some (Panic, s)"

definition pget :: "(pstate \<Rightarrow> 'a) \<Rightarrow> 'a parser" where
  "pget h s = Some (Ok (h s), s)"

definition pmodify :: "(pstate \<Rightarrow> pstate) \<Rightarrow> unit parser" where
  "pmodify h s = Some (Ok (), h s)"

definition pbind :: "'a parser \<Rightarrow> ('a \<Rightarrow> 'b parser) \<Rightarrow> 'b parser" where
  "pbind m k s = (case m s of None \<Rightarrow> None | Some (r, s') \<Rightarrow>
     (case r of Ok x \<Rightarrow> k x s' | Err e \<Rightarrow> Some (Err e, s') | Panic \<Rightarrow> Some (Panic, s')))"

abbreviation pthen :: "'a parser \<Rightarrow> 'b parser \<Rightarrow> 'b parser" where
  "pthen m k \<equiv> pbind m (\<lambda>_. k)"

text \<open>A loop: the body gives the next value of its variables, or the result with which it breaks.\<close>

partial_function (option) ploop :: "('a \<Rightarrow> ('a + 'b) parser) \<Rightarrow> 'a \<Rightarrow> 'b parser" where
  "ploop body a s = (case body a s of None \<Rightarrow> None | Some (r, s') \<Rightarrow>
     (case r of
        Ok x \<Rightarrow> (case x of Inl a' \<Rightarrow> ploop body a' s' | Inr b \<Rightarrow> Some (Ok b, s'))
      | Err e \<Rightarrow> Some (Err e, s')
      | Panic \<Rightarrow> Some (Panic, s')))"

text \<open>\<open>while\<close> a test on the state: the body gives the variables of the next round.\<close>

definition pwhile :: "(pstate \<Rightarrow> bool) \<Rightarrow> ('a \<Rightarrow> 'a parser) \<Rightarrow> 'a \<Rightarrow> 'a parser" where
  "pwhile test body = ploop (\<lambda>a. pbind (pget test) (\<lambda>b.
     if b then pbind (body a) (\<lambda>a'. preturn (Inl a')) else preturn (Inr a)))"

subsection \<open>Tokens\<close>

definition token_at :: "nat \<Rightarrow> pstate \<Rightarrow> token option" where
  "token_at n s = (if n < length (ps_tokens s) then Some (ps_tokens s ! n) else None)"

definition kind_at :: "nat \<Rightarrow> pstate \<Rightarrow> token_kind option" where
  "kind_at offset s = map_option t_kind (token_at (ps_index s + offset) s)"

definition peek_kind :: "pstate \<Rightarrow> token_kind" where
  "peek_kind s = (case token_at (ps_index s) s of Some t \<Rightarrow> t_kind t | None \<Rightarrow> TEof)"

definition peek_next_kind :: "pstate \<Rightarrow> token_kind option" where
  "peek_next_kind s = kind_at 1 s"

definition check_ahead :: "nat \<Rightarrow> token_kind \<Rightarrow> pstate \<Rightarrow> bool" where
  "check_ahead offset kind s = (kind_at offset s = Some kind)"

definition pcheck :: "token_kind \<Rightarrow> pstate \<Rightarrow> bool" where
  "pcheck kind s = (kind_at 0 s = Some kind)"

definition current_span :: "pstate \<Rightarrow> span" where
  "current_span s = (case token_at (ps_index s) s of Some t \<Rightarrow> t_span t
     | None \<Rightarrow> span_new (ps_source_len s) (ps_source_len s))"

definition previous_span :: "pstate \<Rightarrow> span" where
  "previous_span s = (if ps_index s = 0 then span_new 0 0
     else case token_at (ps_index s - 1) s of Some t \<Rightarrow> t_span t | None \<Rightarrow> span_new 0 0)"

definition padvance :: "token parser" where
  "padvance s = Some (Ok (case token_at (ps_index s) s of Some t \<Rightarrow> t
       | None \<Rightarrow> token_new TEof (ps_source_len s) (ps_source_len s)), s\<lparr> ps_index := ps_index s + 1 \<rparr>)"

definition pmatches :: "token_kind \<Rightarrow> bool parser" where
  "pmatches kind = pbind (pget (pcheck kind)) (\<lambda>b. if b then pthen padvance (preturn True) else preturn False)"

text \<open>\<open>Err(self.error_here(message))\<close>.\<close>

definition perr_rs :: "rstr \<Rightarrow> 'a parser" where
  "perr_rs message = pbind (pget current_span) (\<lambda>s. pfail (diag_new message s))"

definition perr :: "string \<Rightarrow> 'a parser" where
  "perr message = perr_rs (rs message)"

definition pexpect :: "token_kind \<Rightarrow> string \<Rightarrow> token parser" where
  "pexpect kind message = pbind (pget (pcheck kind)) (\<lambda>b. if b then padvance else perr message)"

abbreviation KW :: "keyword \<Rightarrow> token_kind" where "KW \<equiv> TKeyword"
abbreviation SY :: "symbol \<Rightarrow> token_kind" where "SY \<equiv> TSymbol"

definition skip_newlines :: "unit parser" where
  "skip_newlines = pwhile (pcheck TNewline) (\<lambda>_. pthen padvance (preturn ())) ()"

subsection \<open>Errors and layout\<close>

definition record_error :: "diagnostic \<Rightarrow> unit parser" where
  "record_error d = pmodify (\<lambda>s. if ps_pending_error s = None then s\<lparr> ps_pending_error := Some d \<rparr> else s)"

definition push_error :: "diagnostic \<Rightarrow> unit parser" where
  "push_error d = pmodify (\<lambda>s. s\<lparr> ps_errors := ps_errors s @ [d] \<rparr>)"

definition is_boundary_kind :: "token_kind \<Rightarrow> bool" where
  "is_boundary_kind k \<longleftrightarrow> k \<in> {KW KeywordType, KW KeywordStore, KW KeywordPersist, KW KeywordMatch, SY SStar}"

definition recover_to_layout_boundary :: "unit parser" where
  "recover_to_layout_boundary = ploop (\<lambda>_. pbind (pget (pcheck TEof)) (\<lambda>eof.
     if eof then preturn (Inr ())
     else pbind (pget peek_kind) (\<lambda>k.
       if k = TNewline then pthen padvance (preturn (Inr ()))
       else if k = TIndent \<or> k = TDedent \<or> is_boundary_kind k then preturn (Inr ())
       else pthen padvance (preturn (Inl ()))))) ()"

definition report_unexpected_dedent :: "span \<Rightarrow> unit parser" where
  "report_unexpected_dedent s = record_error (diag_with_help
     (rs ''Remove the extra outdent or ensure there's a matching indented block.'')
     (diag_new (rs ''unexpected dedent'') s))"

definition leave_layout_block :: "span \<Rightarrow> unit parser" where
  "leave_layout_block s = pbind (pget ps_layout_depth) (\<lambda>d.
     if d = 0 then report_unexpected_dedent s
     else pmodify (\<lambda>s. s\<lparr> ps_layout_depth := d - 1 \<rparr>))"

definition enter_layout_block :: "unit parser" where
  "enter_layout_block = pmodify (\<lambda>s. s\<lparr> ps_layout_depth := ps_layout_depth s + 1 \<rparr>)"

definition report_missing_dedent :: "span \<Rightarrow> string \<Rightarrow> unit parser" where
  "report_missing_dedent start context_text =
     pbind (pget previous_span) (\<lambda>e.
     pbind (pget (pcheck TEof)) (\<lambda>eof.
     let s = (if eof then span_with_file (sp_end e) (sp_end e) (sp_file_id e) else span_join start e) in
     pthen (record_error (diag_with_help (rs ''Add a matching dedent/outdent to close this block.'')
       (diag_new (rs context_text) s)))
     (pthen recover_to_layout_boundary
     (pmodify (\<lambda>s. if 0 < ps_layout_depth s then s\<lparr> ps_layout_depth := ps_layout_depth s - 1 \<rparr> else s)))))"

definition consume_indent_with_recovery :: "string \<Rightarrow> string \<Rightarrow> span option parser" where
  "consume_indent_with_recovery message help =
     pbind (pmatches TIndent) (\<lambda>b.
     if b then pthen enter_layout_block (pbind (pget previous_span) (\<lambda>s. preturn (Some s)))
     else pbind (pget current_span) (\<lambda>s.
       pthen (record_error (diag_with_help (rs help) (diag_new (rs message) s)))
       (pthen recover_to_layout_boundary (preturn None))))"

text \<open>The end of an indented body: the token that closes it, or the end of the file.\<close>

definition close_block :: "unit parser" where
  "close_block = pbind (pget current_span) (\<lambda>s. pthen (leave_layout_block s) (pthen padvance (preturn ())))"

subsection \<open>Identifiers\<close>

definition consume_identifier :: "(rstr \<times> span) parser" where
  "consume_identifier = pbind (pget peek_kind) (\<lambda>k. case k of
     TIdentifier name \<Rightarrow> pbind padvance (\<lambda>t. preturn (name, t_span t))
   | _ \<Rightarrow> perr ''expected identifier'')"

fun keyword_name :: "keyword \<Rightarrow> string option" where
  "keyword_name KeywordActor = Some ''actor''"
| "keyword_name KeywordStore = Some ''store''"
| "keyword_name KeywordPersist = Some ''persist''"
| "keyword_name KeywordType = Some ''type''"
| "keyword_name KeywordMatch = Some ''match''"
| "keyword_name KeywordFn = Some ''fn''"
| "keyword_name KeywordAnd = Some ''and''"
| "keyword_name KeywordOr = Some ''or''"
| "keyword_name KeywordTrue = Some ''true''"
| "keyword_name KeywordFalse = Some ''false''"
| "keyword_name KeywordIs = Some ''is''"
| "keyword_name KeywordIsnt = Some ''isnt''"
| "keyword_name KeywordExtern = Some ''extern''"
| "keyword_name KeywordUnsafe = Some ''unsafe''"
| "keyword_name KeywordAsm = Some ''asm''"
| "keyword_name KeywordPtr = Some ''ptr''"
| "keyword_name KeywordErr = Some ''err''"
| "keyword_name KeywordNone = Some ''none''"
| "keyword_name KeywordEnum = Some ''enum''"
| "keyword_name KeywordReturn = Some ''return''"
| "keyword_name KeywordTrait = Some ''trait''"
| "keyword_name KeywordWith = Some ''with''"
| "keyword_name KeywordIf = Some ''if''"
| "keyword_name KeywordElif = Some ''elif''"
| "keyword_name KeywordElse = Some ''else''"
| "keyword_name KeywordWhile = Some ''while''"
| "keyword_name KeywordFor = Some ''for''"
| "keyword_name KeywordIn = Some ''in''"
| "keyword_name KeywordBreak = Some ''break''"
| "keyword_name KeywordContinue = Some ''continue''"
| "keyword_name KeywordTo = Some ''to''"
| "keyword_name KeywordStep = Some ''step''"
| "keyword_name KeywordUnless = Some ''unless''"
| "keyword_name KeywordUntil = Some ''until''"
| "keyword_name KeywordLoop = Some ''loop''"
| "keyword_name KeywordWhen = Some ''when''"
| "keyword_name KeywordExtend = None"
| "keyword_name KeywordDo = None"
| "keyword_name KeywordEnd = None"
| "keyword_name KeywordConst = None"

definition consume_identifier_or_keyword :: "(rstr \<times> span) parser" where
  "consume_identifier_or_keyword = pbind (pget peek_kind) (\<lambda>k. pbind (pget current_span) (\<lambda>s.
     case k of
       TIdentifier name \<Rightarrow> pthen padvance (preturn (name, s))
     | TKeyword w \<Rightarrow> (case keyword_name w of
           Some name \<Rightarrow> pthen padvance (preturn (rs name, s))
         | None \<Rightarrow> perr ''expected identifier'')
     | _ \<Rightarrow> perr ''expected identifier''))"

definition consume_type_identifier :: "(rstr \<times> span) parser" where
  "consume_type_identifier = pbind (pget peek_kind) (\<lambda>k. case k of
     TIdentifier name \<Rightarrow> pbind padvance (\<lambda>t. preturn (name, t_span t))
   | TKeyword w \<Rightarrow> (if w = KeywordPtr then pbind padvance (\<lambda>t. preturn (rs ''ptr'', t_span t))
       else perr ''expected type identifier'')
   | _ \<Rightarrow> perr ''expected type identifier'')"

end
