(* ===== verification/Parser_Expr.thy ===== *)
theory Parser_Expr
  imports Parser_Base
begin

text \<open>
  Patterns, type annotations, parameters and expressions (\<open>src/parser.rs\<close>). The functions of the parser
  call each other. A definition here calls the functions stated before it directly; the calls that go
  back are made through the parameter \<open>P\<close>, the parser of a \<open>pcall\<close>, which \<open>Parser_Mono\<close> ties to these
  definitions.
\<close>

subsection \<open>Calls that go back\<close>

datatype pcall =
    CExpression | CPipeline | CUnary | CPrimary | CStatement | CBlock | CPattern | CTypeAnnotation
  | CTaxonomy | CErrorDefinition

datatype pvalue =
    VExpr (un_expr: expression)
  | VStmt (un_stmt: statement)
  | VBlock (un_block: block)
  | VPat (un_pat: match_pattern)
  | VType (un_type: type_annotation)
  | VTaxonomy (un_taxonomy: taxonomy_node)
  | VError (un_error: error_definition)

type_synonym pcalls = "pcall \<Rightarrow> pvalue parser"

definition pcall_as :: "(pvalue \<Rightarrow> 'a) \<Rightarrow> pcall \<Rightarrow> pcalls \<Rightarrow> 'a parser" where
  "pcall_as un c P = pbind (P c) (\<lambda>v. preturn (un v))"

abbreviation rec_expression :: "pcalls \<Rightarrow> expression parser" where "rec_expression \<equiv> pcall_as un_expr CExpression"
abbreviation rec_pipeline :: "pcalls \<Rightarrow> expression parser" where "rec_pipeline \<equiv> pcall_as un_expr CPipeline"
abbreviation rec_unary :: "pcalls \<Rightarrow> expression parser" where "rec_unary \<equiv> pcall_as un_expr CUnary"
abbreviation rec_primary :: "pcalls \<Rightarrow> expression parser" where "rec_primary \<equiv> pcall_as un_expr CPrimary"
abbreviation rec_statement :: "pcalls \<Rightarrow> statement parser" where "rec_statement \<equiv> pcall_as un_stmt CStatement"
abbreviation rec_block :: "pcalls \<Rightarrow> block parser" where "rec_block \<equiv> pcall_as un_block CBlock"
abbreviation rec_pattern :: "pcalls \<Rightarrow> match_pattern parser" where "rec_pattern \<equiv> pcall_as un_pat CPattern"
abbreviation rec_type :: "pcalls \<Rightarrow> type_annotation parser" where "rec_type \<equiv> pcall_as un_type CTypeAnnotation"

text \<open>\<open>if self.check(k) { self.advance(); Some(..) } else { None }\<close>.\<close>

definition poption :: "token_kind \<Rightarrow> 'a parser \<Rightarrow> 'a option parser" where
  "poption k p = pbind (pmatches k) (\<lambda>b. if b then pbind p (\<lambda>x. preturn (Some x)) else preturn None)"

subsection \<open>Type annotations and parameters\<close>

definition parse_type_annotation :: "pcalls \<Rightarrow> type_annotation parser" where
  "parse_type_annotation P =
     pbind consume_type_identifier (\<lambda>(first, span).
     pbind (ploop (\<lambda>(segments, span).
         pbind (pmatches (SY SDot)) (\<lambda>b.
         if b then pbind consume_type_identifier (\<lambda>(segment, segment_span).
           preturn (Inl (segments @ [segment], span_join span segment_span)))
         else preturn (Inr (segments, span)))) ([first], span)) (\<lambda>(segments, span).
     pbind (pmatches (SY SLBracket)) (\<lambda>b.
     if \<not> b then preturn (TypeAnnotation segments [] span)
     else ploop (\<lambda>(type_args, span).
       pbind (pget (pcheck (SY SRBracket))) (\<lambda>close.
       if close then pbind padvance (\<lambda>t.
         preturn (Inr (TypeAnnotation segments type_args (span_join span (t_span t)))))
       else pbind (rec_type P) (\<lambda>arg.
         let span = span_join span (ta_span arg); type_args = type_args @ [arg] in
         pbind (pmatches (SY SComma)) (\<lambda>comma.
         if comma then preturn (Inl (type_args, span))
         else pbind (pexpect (SY SRBracket) ''expected `]` after type arguments'') (\<lambda>t.
           preturn (Inr (TypeAnnotation segments type_args (span_join span (t_span t))))))))) ([], span))))"

definition parse_optional_type_annotation :: "pcalls \<Rightarrow> type_annotation option parser" where
  "parse_optional_type_annotation P = poption (SY SColon) (parse_type_annotation P)"

text \<open>The parameters after the opening parenthesis; the default values are expressions.\<close>

definition parse_parameters_impl :: "bool \<Rightarrow> pcalls \<Rightarrow> parameter list parser" where
  "parse_parameters_impl allow_keywords P =
     pbind (pmatches (SY SRParen)) (\<lambda>b.
     if b then preturn []
     else ploop (\<lambda>params.
       pbind (if allow_keywords then consume_identifier_or_keyword else consume_identifier) (\<lambda>(name, span).
       pbind (parse_optional_type_annotation P) (\<lambda>annotation.
       pbind (poption (SY SQuestion) (rec_expression P)) (\<lambda>default_value.
       let params = params @ [Parameter name annotation default_value span] in
       pbind (pmatches (SY SComma)) (\<lambda>comma.
       if comma then preturn (Inl params)
       else pthen (pexpect (SY SRParen) ''expected `)` to close parameters'') (preturn (Inr params))))))) [])"

definition parse_parameters :: "pcalls \<Rightarrow> parameter list parser" where
  "parse_parameters = parse_parameters_impl False"

definition parse_parameters_allow_keywords :: "pcalls \<Rightarrow> parameter list parser" where
  "parse_parameters_allow_keywords = parse_parameters_impl True"

subsection \<open>Match patterns\<close>

text \<open>An integer of a range pattern, with its sign; \<open>after\<close> is the word of the message.\<close>

definition parse_range_end :: "string \<Rightarrow> token \<Rightarrow> int parser" where
  "parse_range_end after_word token = (case t_kind token of
     TInteger v \<Rightarrow> preturn v
   | k \<Rightarrow> if k = SY SMinus then pbind padvance (\<lambda>t. case t_kind t of
         TInteger v \<Rightarrow> preturn (- v)
       | _ \<Rightarrow> perr ''expected integer after `-` in range pattern'')
     else perr (''expected integer after `'' @ after_word @ ''` in range pattern''))"

definition parse_range_binding :: "rstr \<Rightarrow> span \<Rightarrow> match_pattern parser" where
  "parse_range_binding name name_span =
     pthen padvance
     (pbind padvance (\<lambda>start_token.
     pbind (parse_range_end ''from'' start_token) (\<lambda>start_val.
     pthen (pexpect (KW KeywordTo) ''expected `to` in range pattern'')
     (pbind padvance (\<lambda>end_token.
     pbind (parse_range_end ''to'' end_token) (\<lambda>end_val.
     preturn (PatRangeBinding name start_val end_val (span_join name_span (t_span end_token)))))))))"

definition parse_integer_pattern :: "int \<Rightarrow> match_pattern parser" where
  "parse_integer_pattern v =
     pbind padvance (\<lambda>token.
     pbind (pget (pcheck (KW KeywordTo))) (\<lambda>b.
     if \<not> b then preturn (PatInteger v)
     else pthen padvance (pbind padvance (\<lambda>end_token. case t_kind end_token of
         TInteger end_value \<Rightarrow> preturn (PatRange v end_value (span_join (t_span token) (t_span end_token)))
       | _ \<Rightarrow> pfail (diag_new (rs ''expected integer after `to` in range pattern'') (t_span end_token))))))"

definition parse_list_pattern :: "pcalls \<Rightarrow> match_pattern parser" where
  "parse_list_pattern P =
     pthen padvance
     (pbind (ploop (\<lambda>patterns.
         pbind (pget (\<lambda>s. pcheck (SY SRBracket) s \<or> pcheck TEof s)) (\<lambda>stop.
         if stop then preturn (Inr patterns)
         else pbind (pget (pcheck (SY SEllipsis))) (\<lambda>rest.
         if rest then pbind padvance (\<lambda>ellipsis.
           pbind consume_identifier (\<lambda>(rest_name, rest_span).
           pbind (pget (pcheck (SY SRBracket))) (\<lambda>close.
           pthen (if \<not> close then pmatches (SY SComma) else preturn True)
           (preturn (Inr (patterns @ [PatRest rest_name (span_join (t_span ellipsis) rest_span)]))))))
         else pbind (rec_pattern P) (\<lambda>p.
           pbind (pmatches (SY SComma)) (\<lambda>comma.
           preturn (if comma then Inl (patterns @ [p]) else Inr (patterns @ [p]))))))) []) (\<lambda>patterns.
     pthen (pexpect (SY SRBracket) ''expected `]` after list pattern'') (preturn (PatList patterns))))"

definition parse_constructor_fields :: "pcalls \<Rightarrow> match_pattern list parser" where
  "parse_constructor_fields P = ploop (\<lambda>fields.
     pbind (pget (pcheck (SY SRParen))) (\<lambda>close.
     if close then preturn (Inr fields)
     else pbind (rec_pattern P) (\<lambda>p.
       pbind (pmatches (SY SComma)) (\<lambda>comma.
       preturn (if comma then Inl (fields @ [p]) else Inr (fields @ [p])))))) []"

definition starts_uppercase :: "parser_env \<Rightarrow> rstr \<Rightarrow> bool" where
  "starts_uppercase E name = (case name of [] \<Rightarrow> False | c # _ \<Rightarrow> pe_is_uppercase E c)"

definition parse_name_pattern :: "parser_env \<Rightarrow> pcalls \<Rightarrow> match_pattern parser" where
  "parse_name_pattern E P =
     pbind consume_identifier (\<lambda>(name, name_span).
     if name = rs ''_'' then preturn (PatWildcard name_span)
     else pbind (pget (pcheck (SY SLParen))) (\<lambda>open_paren.
     if open_paren then pthen padvance
       (pbind (parse_constructor_fields P) (\<lambda>fields.
       pbind (pexpect (SY SRParen) ''expected `)` after constructor pattern'') (\<lambda>t.
       preturn (PatConstructor name fields (span_join name_span (t_span t))))))
     else if starts_uppercase E name then preturn (PatConstructor name [] name_span)
     else pbind (pget (pcheck (TIdentifier (rs ''from'')))) (\<lambda>from_word.
     if from_word then parse_range_binding name name_span
     else preturn (PatIdentifier name))))"

definition parse_match_pattern :: "parser_env \<Rightarrow> pcalls \<Rightarrow> match_pattern parser" where
  "parse_match_pattern E P = pbind (pget peek_kind) (\<lambda>k. case k of
     TInteger v \<Rightarrow> parse_integer_pattern v
   | TString v \<Rightarrow> pthen padvance (preturn (PatString v))
   | TIdentifier _ \<Rightarrow> parse_name_pattern E P
   | _ \<Rightarrow>
       if k = KW KeywordTrue then pthen padvance (preturn (PatBool True))
       else if k = KW KeywordFalse then pthen padvance (preturn (PatBool False))
       else if k = SY SLBracket then parse_list_pattern P
       else perr ''invalid match pattern'')"

subsection \<open>Names in error values and paths\<close>

definition colon_path :: "(rstr list \<times> span) \<Rightarrow> (rstr list \<times> span) parser" where
  "colon_path = ploop (\<lambda>(path, span).
     pbind (pmatches (SY SColon)) (\<lambda>b.
     if b then pbind consume_identifier (\<lambda>(segment, segment_span). preturn (Inl (path @ [segment], segment_span)))
     else preturn (Inr (path, span))))"

definition parse_error_name :: "rstr list parser" where
  "parse_error_name = pbind (pget peek_kind) (\<lambda>k. case k of
     TString name \<Rightarrow> pthen padvance (preturn [name])
   | TIdentifier _ \<Rightarrow> pbind consume_identifier (\<lambda>(first, span).
       pbind (colon_path ([first], span)) (\<lambda>(path, _). preturn path))
   | _ \<Rightarrow> perr ''expected error name after `err`'')"

definition parse_error_value :: "expression parser" where
  "parse_error_value =
     pbind padvance (\<lambda>start.
     pbind parse_error_name (\<lambda>path.
     pbind (pget previous_span) (\<lambda>end_span.
     preturn (EErrorValue path (if path = [] then t_span start else span_join (t_span start) end_span)))))"

definition parse_taxonomy_path_expression :: "expression parser" where
  "parse_taxonomy_path_expression =
     pbind padvance (\<lambda>start.
     pbind consume_identifier (\<lambda>(name, name_span).
     pbind (colon_path ([name], name_span)) (\<lambda>(segments, end_span).
     preturn (ETaxonomyPath segments (span_join (t_span start) end_span)))))"


subsection \<open>Sequences of statements\<close>

text \<open>
  A block keeps its last expression apart: an expression waits in \<open>trailing\<close> until the next statement
  shows that it was not the last.
\<close>

definition push_trailing :: "statement list \<times> expression option \<Rightarrow> statement list" where
  "push_trailing acc = (case acc of (statements, trailing) \<Rightarrow>
     statements @ (case trailing of Some e \<Rightarrow> [StExpression e] | None \<Rightarrow> []))"

definition push_statement :: "statement \<Rightarrow> statement list \<times> expression option \<Rightarrow> statement list \<times> expression option" where
  "push_statement stmt acc = (case stmt of
     StExpression e \<Rightarrow> (push_trailing acc, Some e)
   | _ \<Rightarrow> (push_trailing acc @ [stmt], None))"

text \<open>After \<open>do\<close>: the statements up to \<open>end\<close>, as a function without parameters.\<close>

definition parse_do_end_block :: "pcalls \<Rightarrow> expression parser" where
  "parse_do_end_block P =
     pbind (pget previous_span) (\<lambda>do_span.
     pthen skip_newlines
     (pbind (pget (pcheck TIndent)) (\<lambda>indented.
     pthen (if indented then pthen enter_layout_block (pthen padvance (preturn ())) else preturn ())
     (pbind (ploop (\<lambda>acc.
         pthen skip_newlines
         (pbind (pget (pcheck (KW KeywordEnd))) (\<lambda>at_end.
         if at_end then preturn (Inr acc)
         else pbind (pget (pcheck TDedent)) (\<lambda>dedent.
         if dedent then pthen close_block (pthen skip_newlines (preturn (Inr acc)))
         else pbind (pget (pcheck TEof)) (\<lambda>eof.
         if eof then pfail (diag_new (rs ''expected `end` to close `do` block'') do_span)
         else pbind (rec_statement P) (\<lambda>stmt. preturn (Inl (push_statement stmt acc)))))))) ([], None)) (\<lambda>acc.
     pthen (pexpect (KW KeywordEnd) ''expected `end` to close `do` block'')
     (pbind (pget previous_span) (\<lambda>end_span.
     let span = span_join do_span end_span in
     preturn (ELambda [] (Block (fst acc) (snd acc) span) span))))))))"

subsection \<open>Arguments\<close>

text \<open>An argument list after the opening parenthesis; the names are empty when no argument has one.\<close>

definition is_named_arg :: "pstate \<Rightarrow> bool" where
  "is_named_arg s = ((case peek_kind s of TIdentifier _ \<Rightarrow> True | _ \<Rightarrow> False) \<and> kind_at 1 s = Some (SY SColon))"

definition close_indented :: "bool \<Rightarrow> unit parser" where
  "close_indented is_indented = (if \<not> is_indented then preturn ()
     else pthen skip_newlines (pbind (pget (pcheck TDedent)) (\<lambda>dedent.
       if dedent then close_block else preturn ())))"

definition parse_one_argument ::
  "pcalls \<Rightarrow> expression list \<times> rstr option list \<times> bool \<Rightarrow> (expression list \<times> rstr option list \<times> bool) parser" where
  "parse_one_argument P = (\<lambda>(args, names, seen_named).
     pbind (pget is_named_arg) (\<lambda>named.
     if named then pbind consume_identifier_or_keyword (\<lambda>(name, _).
       pthen padvance (pbind (rec_expression P) (\<lambda>v. preturn (args @ [v], names @ [Some name], True))))
     else if seen_named then pbind (pget current_span) (\<lambda>s.
       pfail (diag_new (rs ''positional arguments must come before named arguments'') s))
     else pbind (rec_expression P) (\<lambda>v. preturn (args @ [v], names @ [None], seen_named))))"

definition arguments_indent :: "bool parser" where
  "arguments_indent = pbind (pget (pcheck TNewline)) (\<lambda>newline.
     if newline then pthen padvance (pbind (pget (pcheck TIndent)) (\<lambda>indent.
       if indent then pthen padvance (pthen enter_layout_block (preturn True)) else preturn False))
     else preturn False)"

definition parse_arguments :: "pcalls \<Rightarrow> (expression list \<times> rstr option list) parser" where
  "parse_arguments P =
     pbind (pmatches (SY SRParen)) (\<lambda>empty.
     if empty then preturn ([], [])
     else pbind arguments_indent (\<lambda>is_indented.
     pbind (ploop (\<lambda>acc.
         pthen (if is_indented then skip_newlines else preturn ())
         (pbind (pget (\<lambda>s. is_indented \<and> pcheck TDedent s)) (\<lambda>dedent.
         if dedent then pthen close_block (preturn (Inr acc))
         else pbind (parse_one_argument P acc) (\<lambda>acc.
           pbind (pmatches (SY SComma)) (\<lambda>comma.
           if comma then preturn (Inl acc)
           else pthen (close_indented is_indented)
             (pthen (pexpect (SY SRParen) ''expected `)` to close arguments'') (preturn (Inr acc)))))))) ([], [], False))
       (\<lambda>(args, names, seen_named). preturn (args, if seen_named then names else []))))"

subsection \<open>Literals of collections\<close>

text \<open>The optional indentation inside brackets.\<close>

definition literal_indent :: "bool parser" where
  "literal_indent = pthen skip_newlines (pbind (pget (pcheck TIndent)) (\<lambda>b.
     if b then pthen padvance (pthen enter_layout_block (preturn True)) else preturn False))"

text \<open>After \<open>for\<close> in a comprehension: the variable, what it runs over, and the condition.\<close>

definition parse_comprehension :: "pcalls \<Rightarrow> (rstr \<times> expression \<times> expression option) parser" where
  "parse_comprehension P =
     pthen padvance
     (pbind consume_identifier (\<lambda>(var, _).
     pthen (pexpect (KW KeywordIn) ''expected `in` after comprehension variable'')
     (pbind (rec_expression P) (\<lambda>iterable.
     pbind (poption (KW KeywordIf) (rec_expression P)) (\<lambda>condition.
     preturn (var, iterable, condition))))))"

definition parse_map_literal :: "pcalls \<Rightarrow> span \<Rightarrow> expression parser" where
  "parse_map_literal P name_span =
     pbind (pexpect (SY SLParen) ''expected `(` after map literal'') (\<lambda>open_token.
     let start = span_join name_span (t_span open_token) in
     pbind literal_indent (\<lambda>is_indented.
     pbind (pmatches (SY SRParen)) (\<lambda>empty.
     if empty then pbind (pget previous_span) (\<lambda>s. preturn (EMap [] (span_join start s)))
     else ploop (\<lambda>entries.
       pthen skip_newlines
       (pbind (pget (\<lambda>s. is_indented \<and> pcheck TDedent s)) (\<lambda>dedent.
       if dedent then pthen close_block
         (pbind (pexpect (SY SRParen) ''expected `)` to close map literal'') (\<lambda>t.
         preturn (Inr (EMap entries (span_join start (t_span t))))))
       else
         pbind (rec_unary P) (\<lambda>key.
         pthen skip_newlines
         (pbind (pmatches (SY SColon)) (\<lambda>colon.
         pthen (if colon then preturn ()
           else pthen (pexpect (KW KeywordIs) ''expected `:` or `is` between map key and value'') (preturn ()))
         (pthen skip_newlines
         (pbind (rec_expression P) (\<lambda>v.
         pbind (pget (\<lambda>s. entries = [] \<and> pcheck (KW KeywordFor) s)) (\<lambda>comprehension.
         if comprehension then
           pbind (parse_comprehension P) (\<lambda>(var, iterable, condition).
           pbind (pexpect (SY SRParen) ''expected `)` to close map comprehension'') (\<lambda>t.
           preturn (Inr (EMapComprehension key v var iterable condition (span_join start (t_span t))))))
         else
           let entries = entries @ [(key, v)] in
           pthen skip_newlines
           (pbind (pmatches (SY SComma)) (\<lambda>comma.
           if comma then pthen skip_newlines (preturn (Inl entries))
           else pthen (close_indented is_indented)
             (pbind (pexpect (SY SRParen) ''expected `)` to close map literal'') (\<lambda>t.
             preturn (Inr (EMap entries (span_join start (t_span t)))))))))))))))))) [])))"

definition parse_list_item :: "pcalls \<Rightarrow> expression parser" where
  "parse_list_item P = pbind (pget (pcheck (SY SEllipsis))) (\<lambda>spread.
     if spread then pbind padvance (\<lambda>t. pbind (rec_expression P) (\<lambda>inner.
       preturn (ESpread inner (span_join (t_span t) (expr_span inner)))))
     else rec_expression P)"

definition parse_list_literal :: "pcalls \<Rightarrow> expression parser" where
  "parse_list_literal P =
     pbind padvance (\<lambda>start_token.
     let start = t_span start_token in
     pbind (pmatches (SY SRBracket)) (\<lambda>empty.
     if empty then preturn (EList [] start)
     else pbind literal_indent (\<lambda>is_indented.
     ploop (\<lambda>items.
       pthen skip_newlines
       (pbind (pget (\<lambda>s. is_indented \<and> pcheck TDedent s)) (\<lambda>dedent.
       if dedent then pthen close_block
         (pbind (pexpect (SY SRBracket) ''expected ]'') (\<lambda>t.
         preturn (Inr (EList items (span_join start (t_span t))))))
       else
         pbind (parse_list_item P) (\<lambda>item.
         pbind (pget (\<lambda>s. items = [] \<and> pcheck (KW KeywordFor) s)) (\<lambda>comprehension.
         if comprehension then
           pbind (parse_comprehension P) (\<lambda>(var, iterable, condition).
           pbind (pexpect (SY SRBracket) ''expected `]` to close list comprehension'') (\<lambda>t.
           preturn (Inr (EListComprehension item var iterable condition (span_join start (t_span t))))))
         else
           let items = items @ [item] in
           pthen skip_newlines
           (pbind (pmatches (SY SComma)) (\<lambda>comma.
           if comma then pthen skip_newlines (preturn (Inl items))
           else pthen (close_indented is_indented)
             (pbind (pexpect (SY SRBracket) ''expected ]'') (\<lambda>t.
             preturn (Inr (EList items (span_join start (t_span t))))))))))))) [])))"

subsection \<open>Templates\<close>

definition parse_inline_expression :: "expression parser \<Rightarrow> expression parser" where
  "parse_inline_expression expression =
     pthen skip_newlines
     (pbind expression (\<lambda>e.
     pthen skip_newlines
     (pbind (pget (pcheck TEof)) (\<lambda>eof.
     if \<not> eof then perr ''unexpected tokens after expression''
     else pbind (pget ps_pending_error) (\<lambda>pending. case pending of
         Some error \<Rightarrow> pfail error
       | None \<Rightarrow> preturn e)))))"

definition shift_tokens :: "nat \<Rightarrow> token list \<Rightarrow> token list" where
  "shift_tokens offset = map (\<lambda>t. t\<lparr> t_span := span_shift offset (t_span t) \<rparr>)"

text \<open>A new lexer and a new parser read the expression of a template; this parser's state stays.\<close>

definition parse_fragment_expression :: "parser_env \<Rightarrow> pcalls \<Rightarrow> rstr \<Rightarrow> span \<Rightarrow> expression parser" where
  "parse_fragment_expression E P source span s =
     (case lex (pe_parse_f64 E) source of
        Err d \<Rightarrow> Some (Err (diag_shift (sp_start span) d), s)
      | Panic \<Rightarrow> Some (Panic, s)
      | Ok tokens \<Rightarrow>
          (case parse_inline_expression (rec_expression P)
             (parser_new (shift_tokens (sp_start span) tokens) (ps_source_len s)) of
             None \<Rightarrow> None
           | Some (r, _) \<Rightarrow> Some (r, s)))"

fun parse_template_parts :: "parser_env \<Rightarrow> pcalls \<Rightarrow> template_fragment list \<Rightarrow> expression list parser" where
  "parse_template_parts E P [] = preturn []"
| "parse_template_parts E P (FragLiteral v span # fragments) =
     pbind (parse_template_parts E P fragments) (\<lambda>parts. preturn (EString v span # parts))"
| "parse_template_parts E P (FragExpr source span # fragments) =
     pbind (parse_fragment_expression E P source span) (\<lambda>e.
     pbind (parse_template_parts E P fragments) (\<lambda>parts. preturn (e # parts)))"

definition is_string_expr :: "expression \<Rightarrow> bool" where
  "is_string_expr e = (case e of EString _ _ \<Rightarrow> True | _ \<Rightarrow> False)"

definition join_parts :: "span \<Rightarrow> expression list \<Rightarrow> expression" where
  "join_parts span parts = (case parts of
     [] \<Rightarrow> EString [] span
   | p # _ \<Rightarrow>
       (case (if is_string_expr p then parts else EString [] (span_new (sp_start span) (sp_start span)) # parts) of
          [] \<Rightarrow> EString [] span
        | first # rest \<Rightarrow> foldl (\<lambda>acc part.
            EBinary BinAdd acc part (span_join (expr_span acc) (expr_span part))) first rest))"

definition parse_template_literal :: "parser_env \<Rightarrow> pcalls \<Rightarrow> template_fragment list \<Rightarrow> span \<Rightarrow> expression parser" where
  "parse_template_literal E P fragments span =
     pbind (parse_template_parts E P fragments) (\<lambda>parts. preturn (join_parts span parts))"


subsection \<open>\<open>when\<close>, \<open>match\<close>, functions, blocks\<close>

definition quoted :: "string \<Rightarrow> string" where
  "quoted text = [CHR 0x27] @ text @ [CHR 0x27]"

definition fold_arms :: "(expression \<times> expression) list \<Rightarrow> expression \<Rightarrow> expression" where
  "fold_arms arms base = foldr (\<lambda>(condition, then_branch) else_branch.
     ETernary condition then_branch else_branch (span_join (expr_span condition) (expr_span else_branch))) arms base"

definition parse_when_expression :: "pcalls \<Rightarrow> expression parser" where
  "parse_when_expression P =
     pbind padvance (\<lambda>when_token.
     pthen (pexpect TNewline (''expected newline after '' @ quoted ''when''))
     (pbind (consume_indent_with_recovery ''expected indented when arms''
         ''Indent each when arm under the when expression'') (\<lambda>body_start. case body_start of
       None \<Rightarrow> preturn (ENone (t_span when_token))
     | Some arms_start \<Rightarrow>
         pbind (ploop (\<lambda>(arms, default_expr).
           pthen skip_newlines
           (pbind (pget (pcheck TDedent)) (\<lambda>dedent.
           if dedent then pthen close_block (preturn (Inr (arms, default_expr)))
           else pbind (pget (pcheck TEof)) (\<lambda>eof.
           if eof then pthen (report_missing_dedent arms_start ''missing dedent to close when arms'')
             (preturn (Inr (arms, default_expr)))
           else pbind (pmatches (TIdentifier (rs ''_''))) (\<lambda>wild.
           if wild then
             pthen (pexpect (SY SQuestion) (''expected '' @ quoted ''?'' @ '' after '' @ quoted ''_'' @ '' in when arm''))
             (pbind (rec_expression P) (\<lambda>e. pthen skip_newlines (preturn (Inl (arms, Some e)))))
           else
             pbind (rec_pipeline P) (\<lambda>condition.
             pthen (pexpect (SY SQuestion) (''expected '' @ quoted ''?'' @ '' in when arm''))
             (pbind (rec_expression P) (\<lambda>v.
             pthen skip_newlines (preturn (Inl (arms @ [(condition, v)], default_expr))))))))))) ([], None))
         (\<lambda>(arms, default_expr). preturn (fold_arms arms
            (case default_expr of Some e \<Rightarrow> e | None \<Rightarrow> ENone (t_span when_token)))))))"

definition parse_arm_body :: "pcalls \<Rightarrow> block parser" where
  "parse_arm_body P = pbind (pmatches TNewline) (\<lambda>newline.
     if newline then pbind (pget (pcheck TIndent)) (\<lambda>indent.
       if indent then rec_block P
       else pbind (pget current_span) (\<lambda>s. preturn (Block [] None s)))
     else pbind (rec_expression P) (\<lambda>e. preturn (block_from_expression e)))"

definition parse_alternatives :: "parser_env \<Rightarrow> pcalls \<Rightarrow> match_pattern parser" where
  "parse_alternatives E P = pbind (parse_match_pattern E P) (\<lambda>first.
     pbind (pget (pcheck (KW KeywordOr))) (\<lambda>b.
     if b then pbind (pwhile (pcheck (KW KeywordOr)) (\<lambda>alternatives.
         pthen padvance (pbind (parse_match_pattern E P) (\<lambda>p. preturn (alternatives @ [p])))) [first])
       (\<lambda>alternatives. preturn (PatOr alternatives))
     else preturn first))"

definition parse_guard :: "pcalls \<Rightarrow> expression option parser" where
  "parse_guard P = pbind (pget (\<lambda>s. pcheck (KW KeywordIf) s \<or> pcheck (KW KeywordWhen) s)) (\<lambda>b.
     if b then pthen padvance (pbind (rec_pipeline P) (\<lambda>e. preturn (Some e))) else preturn None)"

definition parse_match_arm :: "parser_env \<Rightarrow> pcalls \<Rightarrow> match_arm parser" where
  "parse_match_arm E P =
     pbind (parse_alternatives E P) (\<lambda>pattern.
     pbind (parse_guard P) (\<lambda>guard.
     pthen (pexpect (SY SQuestion) ''expected `?` in match arm'')
     (pbind (parse_arm_body P) (\<lambda>body.
     preturn (MatchArm pattern guard body)))))"

definition parse_match_expression :: "parser_env \<Rightarrow> pcalls \<Rightarrow> expression parser" where
  "parse_match_expression E P =
     pbind padvance (\<lambda>match_token.
     pbind (rec_expression P) (\<lambda>v.
     pthen (pexpect TNewline ''expected newline after match condition'')
     (pbind (consume_indent_with_recovery ''expected indented match arms''
         ''Indent each match arm under the match expression'') (\<lambda>body_start. case body_start of
       None \<Rightarrow> preturn (EMatch (MatchExpression v [] None (t_span match_token)))
     | Some arms_start \<Rightarrow>
         pbind (ploop (\<lambda>(arms, default_body).
           pthen skip_newlines
           (pbind (pget (pcheck TDedent)) (\<lambda>dedent.
           if dedent then pthen close_block (preturn (Inr (arms, default_body)))
           else pbind (pget (pcheck TEof)) (\<lambda>eof.
           if eof then pthen (report_missing_dedent arms_start ''missing dedent to close match arms'')
             (preturn (Inr (arms, default_body)))
           else pbind (pmatches (SY SBang)) (\<lambda>bang.
           if bang then
             pbind (parse_arm_body P) (\<lambda>body. pthen skip_newlines (preturn (Inl (arms, Some body))))
           else
             pbind (parse_match_arm E P) (\<lambda>arm. pthen skip_newlines (preturn (Inl (arms @ [arm], default_body)))))))))
           ([], None)) (\<lambda>(arms, default_body).
         pbind (pget previous_span) (\<lambda>s.
         preturn (EMatch (MatchExpression v arms default_body (span_join (t_span match_token) s)))))))))"

definition parse_lambda_expression :: "pcalls \<Rightarrow> expression parser" where
  "parse_lambda_expression P =
     pbind padvance (\<lambda>star.
     pthen (pexpect (KW KeywordFn) ''expected `fn` after `*`'')
     (pthen (pexpect (SY SLParen) ''expected `(` after fn'')
     (pbind (parse_parameters P) (\<lambda>params.
     pbind (pmatches TNewline) (\<lambda>newline.
     if newline then pbind (rec_block P) (\<lambda>body.
       preturn (ELambda params body (span_join (t_span star) (bl_span body))))
     else pbind (rec_expression P) (\<lambda>e. let body = block_from_expression e in
       preturn (ELambda params body (span_join (t_span star) (bl_span body)))))))))"

definition parse_unsafe_block :: "pcalls \<Rightarrow> expression parser" where
  "parse_unsafe_block P =
     pbind padvance (\<lambda>start.
     pthen (pexpect TNewline ''expected newline after `unsafe`'')
     (pbind (rec_block P) (\<lambda>block.
     preturn (EUnsafe block (span_join (t_span start) (bl_span block))))))"

definition parse_asm_inputs :: "pcalls \<Rightarrow> (rstr \<times> expression) list parser" where
  "parse_asm_inputs P = ploop (\<lambda>inputs.
     pthen skip_newlines
     (pbind (pget (pcheck (SY SRParen))) (\<lambda>close.
     if close then preturn (Inr inputs)
     else pbind consume_identifier (\<lambda>(constraint, _).
       pthen (pexpect (SY SColon) ''expected `:` after constraint'')
       (pbind (rec_expression P) (\<lambda>e.
       pbind (pmatches (SY SComma)) (\<lambda>comma.
       preturn (if comma then Inl (inputs @ [(constraint, e)]) else Inr (inputs @ [(constraint, e)]))))))))) []"

definition parse_inline_asm :: "pcalls \<Rightarrow> expression parser" where
  "parse_inline_asm P =
     pbind padvance (\<lambda>start.
     pthen (pexpect (SY SLParen) ''expected `(` after `asm`'')
     (pbind (pget peek_kind) (\<lambda>k. case k of
       TString template \<Rightarrow>
         pthen padvance
         (pbind (pmatches (SY SComma)) (\<lambda>comma.
         pbind (if comma then parse_asm_inputs P else preturn []) (\<lambda>inputs.
         pbind (pexpect (SY SRParen) ''expected `)` to close asm'') (\<lambda>t.
         preturn (EInlineAsm template inputs [] (span_join (t_span start) (t_span t)))))))
     | _ \<Rightarrow> perr ''expected string template for asm'')))"

definition parse_ptr_load :: "pcalls \<Rightarrow> expression parser" where
  "parse_ptr_load P = pbind padvance (\<lambda>start. pbind (rec_primary P) (\<lambda>address.
     preturn (EPtrLoad address (span_join (t_span start) (expr_span address)))))"

subsection \<open>Primary expressions\<close>

text \<open>The derived \<open>Debug\<close> of the token kinds that have no payload; the others start an expression.\<close>

fun keyword_debug :: "keyword \<Rightarrow> string" where
  "keyword_debug KeywordType = ''KeywordType''"
| "keyword_debug KeywordStore = ''KeywordStore''"
| "keyword_debug KeywordPersist = ''KeywordPersist''"
| "keyword_debug KeywordActor = ''KeywordActor''"
| "keyword_debug KeywordMatch = ''KeywordMatch''"
| "keyword_debug KeywordFn = ''KeywordFn''"
| "keyword_debug KeywordAnd = ''KeywordAnd''"
| "keyword_debug KeywordOr = ''KeywordOr''"
| "keyword_debug KeywordTrue = ''KeywordTrue''"
| "keyword_debug KeywordFalse = ''KeywordFalse''"
| "keyword_debug KeywordIs = ''KeywordIs''"
| "keyword_debug KeywordIsnt = ''KeywordIsnt''"
| "keyword_debug KeywordExtern = ''KeywordExtern''"
| "keyword_debug KeywordUnsafe = ''KeywordUnsafe''"
| "keyword_debug KeywordAsm = ''KeywordAsm''"
| "keyword_debug KeywordPtr = ''KeywordPtr''"
| "keyword_debug KeywordEnum = ''KeywordEnum''"
| "keyword_debug KeywordErr = ''KeywordErr''"
| "keyword_debug KeywordReturn = ''KeywordReturn''"
| "keyword_debug KeywordTrait = ''KeywordTrait''"
| "keyword_debug KeywordWith = ''KeywordWith''"
| "keyword_debug KeywordNone = ''KeywordNone''"
| "keyword_debug KeywordIf = ''KeywordIf''"
| "keyword_debug KeywordElif = ''KeywordElif''"
| "keyword_debug KeywordElse = ''KeywordElse''"
| "keyword_debug KeywordWhile = ''KeywordWhile''"
| "keyword_debug KeywordFor = ''KeywordFor''"
| "keyword_debug KeywordIn = ''KeywordIn''"
| "keyword_debug KeywordBreak = ''KeywordBreak''"
| "keyword_debug KeywordContinue = ''KeywordContinue''"
| "keyword_debug KeywordTo = ''KeywordTo''"
| "keyword_debug KeywordStep = ''KeywordStep''"
| "keyword_debug KeywordUnless = ''KeywordUnless''"
| "keyword_debug KeywordUntil = ''KeywordUntil''"
| "keyword_debug KeywordLoop = ''KeywordLoop''"
| "keyword_debug KeywordWhen = ''KeywordWhen''"
| "keyword_debug KeywordExtend = ''KeywordExtend''"
| "keyword_debug KeywordDo = ''KeywordDo''"
| "keyword_debug KeywordEnd = ''KeywordEnd''"
| "keyword_debug KeywordConst = ''KeywordConst''"

fun symbol_debug :: "symbol \<Rightarrow> string" where
  "symbol_debug SStar = ''Star''"
| "symbol_debug SAmpersand = ''Ampersand''"
| "symbol_debug SPipe = ''Pipe''"
| "symbol_debug SCaret = ''Caret''"
| "symbol_debug STilde = ''Tilde''"
| "symbol_debug SShiftLeft = ''ShiftLeft''"
| "symbol_debug SShiftRight = ''ShiftRight''"
| "symbol_debug SAt = ''At''"
| "symbol_debug SQuestion = ''Question''"
| "symbol_debug SBang = ''Bang''"
| "symbol_debug SBangBang = ''BangBang''"
| "symbol_debug SColon = ''Colon''"
| "symbol_debug SComma = ''Comma''"
| "symbol_debug SDot = ''Dot''"
| "symbol_debug SEllipsis = ''Ellipsis''"
| "symbol_debug SPlus = ''Plus''"
| "symbol_debug SPlusEquals = ''PlusEquals''"
| "symbol_debug SMinus = ''Minus''"
| "symbol_debug SMinusEquals = ''MinusEquals''"
| "symbol_debug SSlash = ''Slash''"
| "symbol_debug SSlashEquals = ''SlashEquals''"
| "symbol_debug SPercent = ''Percent''"
| "symbol_debug SStarEquals = ''StarEquals''"
| "symbol_debug SGreater = ''Greater''"
| "symbol_debug SGreaterEq = ''GreaterEq''"
| "symbol_debug SLess = ''Less''"
| "symbol_debug SLessEq = ''LessEq''"
| "symbol_debug SLParen = ''LParen''"
| "symbol_debug SRParen = ''RParen''"
| "symbol_debug SLBracket = ''LBracket''"
| "symbol_debug SRBracket = ''RBracket''"

definition debug_kind :: "token_kind \<Rightarrow> string" where
  "debug_kind k = (case k of TKeyword w \<Rightarrow> keyword_debug w | TSymbol y \<Rightarrow> symbol_debug y
     | TNewline \<Rightarrow> ''Newline'' | TIndent \<Rightarrow> ''Indent'' | TDedent \<Rightarrow> ''Dedent'' | _ \<Rightarrow> ''Eof'')"

definition is_name_keyword :: "keyword \<Rightarrow> bool" where
  "is_name_keyword w \<longleftrightarrow> w \<in> {KeywordActor, KeywordStore, KeywordPersist, KeywordType, KeywordFn, KeywordIs,
     KeywordIsnt, KeywordExtern, KeywordPtr, KeywordEnum, KeywordTrait, KeywordWith, KeywordTo, KeywordStep, KeywordIn}"

text \<open>After the first expression in parentheses and a comma: the other elements.\<close>

definition parse_tuple_items :: "pcalls \<Rightarrow> expression \<Rightarrow> expression list parser" where
  "parse_tuple_items P first =
     pthen skip_newlines
     (pbind (pget (pcheck (SY SRParen))) (\<lambda>close.
     if close then preturn [first]
     else ploop (\<lambda>items.
       pbind (rec_expression P) (\<lambda>e.
       let items = items @ [e] in
       pthen skip_newlines
       (pbind (pmatches (SY SComma)) (\<lambda>comma.
       if \<not> comma then preturn (Inr items)
       else pthen skip_newlines (pbind (pget (pcheck (SY SRParen))) (\<lambda>close.
         preturn (if close then Inr items else Inl items)))))) ) [first]))"

definition parse_parenthesised :: "pcalls \<Rightarrow> expression parser" where
  "parse_parenthesised P =
     pbind padvance (\<lambda>start.
     pthen skip_newlines
     (pbind (pmatches (SY SRParen)) (\<lambda>empty.
     if empty then preturn EUnit
     else pbind (rec_expression P) (\<lambda>first.
       pbind (pmatches (SY SComma)) (\<lambda>comma.
       if comma then
         pbind (parse_tuple_items P first) (\<lambda>items.
         pbind (pexpect (SY SRParen) ''expected closing )'') (\<lambda>t.
         preturn (EList items (span_join (t_span start) (t_span t)))))
       else pthen (pexpect (SY SRParen) ''expected closing )'') (preturn first))))))"

definition parse_keyword_primary :: "parser_env \<Rightarrow> pcalls \<Rightarrow> keyword \<Rightarrow> expression parser" where
  "parse_keyword_primary E P w =
     (if w = KeywordTrue then pbind padvance (\<lambda>t. preturn (EBool True (t_span t)))
      else if w = KeywordFalse then pbind padvance (\<lambda>t. preturn (EBool False (t_span t)))
      else if w = KeywordNone then pbind padvance (\<lambda>t. preturn (ENone (t_span t)))
      else if is_name_keyword w then pbind consume_identifier_or_keyword (\<lambda>(name, span). preturn (EIdentifier name span))
      else if w = KeywordMatch then parse_match_expression E P
      else if w = KeywordWhen then parse_when_expression P
      else if w = KeywordUnsafe then parse_unsafe_block P
      else if w = KeywordAsm then parse_inline_asm P
      else if w = KeywordErr then parse_error_value
      else perr (''unexpected token in expression: '' @ debug_kind (KW w)))"

definition parse_symbol_primary :: "pcalls \<Rightarrow> symbol \<Rightarrow> expression parser" where
  "parse_symbol_primary P y =
     (if y = SStar then pbind (pget peek_next_kind) (\<lambda>k.
        if k = Some (KW KeywordFn) then parse_lambda_expression P else perr ''unexpected `*` in expression'')
      else if y = SBangBang then parse_taxonomy_path_expression
      else if y = SLParen then parse_parenthesised P
      else if y = SLBracket then parse_list_literal P
      else if y = SAt then parse_ptr_load P
      else perr (''unexpected token in expression: '' @ debug_kind (SY y)))"

definition parse_primary :: "parser_env \<Rightarrow> pcalls \<Rightarrow> expression parser" where
  "parse_primary E P = pbind (pget peek_kind) (\<lambda>k. case k of
     TInteger v \<Rightarrow> pbind padvance (\<lambda>t. preturn (EInteger v (t_span t)))
   | TFloat v \<Rightarrow> pbind padvance (\<lambda>t. preturn (EFloat v (t_span t)))
   | TString v \<Rightarrow> pbind padvance (\<lambda>t. preturn (EString v (t_span t)))
   | TBytes v \<Rightarrow> pbind padvance (\<lambda>t. preturn (EBytes v (t_span t)))
   | TTemplateString fragments \<Rightarrow> pbind padvance (\<lambda>t. parse_template_literal E P fragments (t_span t))
   | TPlaceholder i \<Rightarrow> pbind padvance (\<lambda>t. preturn (EPlaceholder i (t_span t)))
   | TIdentifier _ \<Rightarrow> pbind consume_identifier (\<lambda>(name, span).
       pbind (pget (pcheck (SY SLParen))) (\<lambda>b.
       if name = rs ''map'' \<and> b then parse_map_literal P span else preturn (EIdentifier name span)))
   | TKeyword w \<Rightarrow> parse_keyword_primary E P w
   | TSymbol y \<Rightarrow> parse_symbol_primary P y
   | _ \<Rightarrow> perr (''unexpected token in expression: '' @ debug_kind k))"

subsection \<open>Calls, members, subscripts\<close>

definition parse_call_arguments :: "pcalls \<Rightarrow> expression \<Rightarrow> expression parser" where
  "parse_call_arguments P e =
     pbind (parse_arguments P) (\<lambda>(args, arg_names).
     pbind (pget ps_index) (\<lambda>saved_index.
     pthen skip_newlines
     (pbind (pmatches (KW KeywordDo)) (\<lambda>b.
     pbind (if b then pbind (parse_do_end_block P) (\<lambda>do_block.
         preturn (args @ [do_block], if arg_names = [] then [] else arg_names @ [None]))
       else pthen (pmodify (\<lambda>s. s\<lparr> ps_index := saved_index \<rparr>)) (preturn (args, arg_names))) (\<lambda>(args, arg_names).
     pbind (pget previous_span) (\<lambda>s.
     preturn (ECall e args arg_names (span_join (expr_span e) s))))))))"

definition is_callable :: "expression \<Rightarrow> bool" where
  "is_callable e = (case e of EIdentifier _ _ \<Rightarrow> True | EMember _ _ _ \<Rightarrow> True | ECall _ _ _ _ \<Rightarrow> True | _ \<Rightarrow> False)"

definition parse_call_do :: "pcalls \<Rightarrow> expression \<Rightarrow> expression parser" where
  "parse_call_do P e =
     (if \<not> is_callable e then perr ''do..end block requires a callable expression''
      else pbind (parse_do_end_block P) (\<lambda>do_block.
        pbind (pget previous_span) (\<lambda>s.
        preturn (ECall e [do_block] [] (span_join (expr_span e) s)))))"

definition parse_subscript :: "pcalls \<Rightarrow> expression \<Rightarrow> expression parser" where
  "parse_subscript P e =
     pbind (rec_expression P) (\<lambda>start_expr.
     pbind (pmatches (KW KeywordTo)) (\<lambda>b.
     if b then
       pbind (rec_expression P) (\<lambda>end_expr.
       pbind (pget current_span) (\<lambda>end_span.
       pthen (pexpect (SY SRBracket) ''expected `]` to close slice'')
       (preturn (ESlice e start_expr end_expr (span_join (expr_span e) end_span)))))
     else
       pbind (pget current_span) (\<lambda>end_span.
       pthen (pexpect (SY SRBracket) ''expected `]` to close subscript'')
       (preturn (EIndex e start_expr (span_join (expr_span e) end_span))))))"

definition parse_call_suffix :: "pcalls \<Rightarrow> expression \<Rightarrow> (expression + expression) parser" where
  "parse_call_suffix P e =
     pbind (pmatches (SY SLParen)) (\<lambda>b. if b then pbind (parse_call_arguments P e) (\<lambda>e. preturn (Inl e))
     else pbind (pmatches (KW KeywordDo)) (\<lambda>b. if b then pbind (parse_call_do P e) (\<lambda>e. preturn (Inl e))
     else pbind (pmatches (SY SDot)) (\<lambda>b.
       if b then pbind consume_identifier_or_keyword (\<lambda>(name, span).
         preturn (Inl (EMember e name (span_join (expr_span e) span))))
     else pbind (pmatches (SY SLBracket)) (\<lambda>b. if b then pbind (parse_subscript P e) (\<lambda>e. preturn (Inl e))
     else preturn (Inr e)))))"

definition parse_call :: "parser_env \<Rightarrow> pcalls \<Rightarrow> expression parser" where
  "parse_call E P = pbind (parse_primary E P) (ploop (parse_call_suffix P))"

subsection \<open>Operators\<close>

definition parse_unary :: "parser_env \<Rightarrow> pcalls \<Rightarrow> expression parser" where
  "parse_unary E P =
     pbind (pget (\<lambda>s. pcheck (SY SBang) s \<and> peek_next_kind s = Some (SY SBangBang))) (\<lambda>throw.
     if throw then
       pbind (pget current_span) (\<lambda>bang_span.
       pthen padvance
       (pbind (rec_unary P) (\<lambda>v. preturn (EThrow v (span_join bang_span (expr_span v))))))
     else pbind (pmatches (SY SMinus)) (\<lambda>minus.
     if minus then
       pbind (rec_unary P) (\<lambda>e. pbind (pget previous_span) (\<lambda>s.
       preturn (EUnary UnNeg e (span_join s (expr_span e)))))
     else pbind (pmatches (SY SBang)) (\<lambda>bang.
     if bang then
       pbind (rec_unary P) (\<lambda>e. pbind (pget previous_span) (\<lambda>s.
       preturn (EUnary UnNot e (span_join s (expr_span e)))))
     else parse_call E P)))"

text \<open>
  A level of binary operators, all left-associative: while the next token is an operator of the
  level, the operand after it is of the next tighter level.
\<close>

definition binary_level ::
  "(token_kind \<Rightarrow> (expression \<Rightarrow> expression \<Rightarrow> span \<Rightarrow> expression) option) \<Rightarrow> expression parser \<Rightarrow> expression parser" where
  "binary_level op_of operand = pbind operand (ploop (\<lambda>e.
     pbind (pget peek_kind) (\<lambda>k. case op_of k of
       None \<Rightarrow> preturn (Inr e)
     | Some mk \<Rightarrow> pthen padvance (pbind operand (\<lambda>rhs.
         preturn (Inl (mk e rhs (span_join (expr_span e) (expr_span rhs)))))))))"

definition factor_op where
  "factor_op k = (if k = SY SStar then Some (EBinary BinMul) else if k = SY SSlash then Some (EBinary BinDiv)
     else if k = SY SPercent then Some (EBinary BinMod) else None)"
definition term_op where
  "term_op k = (if k = SY SPlus then Some (EBinary BinAdd) else if k = SY SMinus then Some (EBinary BinSub) else None)"
definition shift_op where
  "shift_op k = (if k = SY SShiftLeft then Some (EBinary BinShiftLeft)
     else if k = SY SShiftRight then Some (EBinary BinShiftRight) else None)"
definition comparison_op where
  "comparison_op k = (if k = SY SGreater then Some (EBinary BinGreater)
     else if k = SY SGreaterEq then Some (EBinary BinGreaterEq)
     else if k = SY SLess then Some (EBinary BinLess) else if k = SY SLessEq then Some (EBinary BinLessEq) else None)"
definition equality_op where
  "equality_op k = (if k = KW KeywordIs then Some (EBinary BinEquals)
     else if k = KW KeywordIsnt then Some (EBinary BinNotEquals) else None)"
definition bitand_op where "bitand_op k = (if k = SY SAmpersand then Some (EBinary BinBitAnd) else None)"
definition bitxor_op where "bitxor_op k = (if k = SY SCaret then Some (EBinary BinBitXor) else None)"
definition bitor_op where "bitor_op k = (if k = SY SPipe then Some (EBinary BinBitOr) else None)"
definition and_op where "and_op k = (if k = KW KeywordAnd then Some (EBinary BinAnd) else None)"
definition or_op where "or_op k = (if k = KW KeywordOr then Some (EBinary BinOr) else None)"
definition pipeline_op where "pipeline_op k = (if k = SY STilde then Some EPipeline else None)"

definition parse_factor where "parse_factor E P = binary_level factor_op (parse_unary E P)"
definition parse_term where "parse_term E P = binary_level term_op (parse_factor E P)"
definition parse_shift where "parse_shift E P = binary_level shift_op (parse_term E P)"
definition parse_comparison where "parse_comparison E P = binary_level comparison_op (parse_shift E P)"
definition parse_equality where "parse_equality E P = binary_level equality_op (parse_comparison E P)"
definition parse_bitwise_and where "parse_bitwise_and E P = binary_level bitand_op (parse_equality E P)"
definition parse_bitwise_xor where "parse_bitwise_xor E P = binary_level bitxor_op (parse_bitwise_and E P)"
definition parse_bitwise_or where "parse_bitwise_or E P = binary_level bitor_op (parse_bitwise_xor E P)"
definition parse_logic_and where "parse_logic_and E P = binary_level and_op (parse_bitwise_or E P)"
definition parse_logic_or where "parse_logic_or E P = binary_level or_op (parse_logic_and E P)"
definition parse_pipeline :: "parser_env \<Rightarrow> pcalls \<Rightarrow> expression parser" where
  "parse_pipeline E P = binary_level pipeline_op (parse_logic_or E P)"

definition is_guard_mark :: "pstate \<Rightarrow> bool" where
  "is_guard_mark s \<longleftrightarrow> kind_at 1 s \<in> {Some (KW KeywordReturn), Some (KW KeywordBreak), Some (KW KeywordContinue), Some TNewline}"

definition parse_ternary :: "pcalls \<Rightarrow> expression parser \<Rightarrow> expression \<Rightarrow> expression parser" where
  "parse_ternary P pipeline e =
     pthen padvance
     (pbind pipeline (\<lambda>then_branch.
     pthen (pexpect (SY SBang) ''expected `!` in ternary expression'')
     (pbind (rec_expression P) (\<lambda>else_branch.
     preturn (ETernary e then_branch else_branch (span_join (expr_span e) (expr_span else_branch)))))))"

definition parse_propagate :: "expression \<Rightarrow> expression parser" where
  "parse_propagate e =
     pthen padvance
     (pthen padvance
     (pthen (pexpect (KW KeywordErr) ''expected `err` after `! return` in error propagation'')
     (pbind (pget previous_span) (\<lambda>err_span.
     preturn (EErrorPropagate e (span_join (expr_span e) err_span))))))"

definition parse_error_fallback :: "expression \<Rightarrow> expression parser" where
  "parse_error_fallback e =
     pthen padvance
     (pthen padvance
     (pbind parse_error_name (\<lambda>path.
     pbind (pget previous_span) (\<lambda>err_span.
     let span = span_join (expr_span e) err_span in
     preturn (ETernary e (ENone (span_new (sp_start span) (sp_start span))) (EErrorValue path err_span) span)))))"

definition parse_ternary_or_propagate :: "parser_env \<Rightarrow> pcalls \<Rightarrow> expression parser" where
  "parse_ternary_or_propagate E P =
     pbind (parse_pipeline E P) (\<lambda>e.
     pbind (pget (\<lambda>s. s)) (\<lambda>s.
     if pcheck (SY SQuestion) s then
       (if is_guard_mark s then preturn e else parse_ternary P (parse_pipeline E P) e)
     else if pcheck (SY SBang) s \<and> check_ahead 1 (KW KeywordReturn) s then parse_propagate e
     else if pcheck (SY SBang) s \<and> check_ahead 1 (KW KeywordErr) s then parse_error_fallback e
     else preturn e))"

definition parse_expression :: "parser_env \<Rightarrow> pcalls \<Rightarrow> expression parser" where
  "parse_expression = parse_ternary_or_propagate"

end
