(* ===== verification/Parser_Stmt.thy ===== *)
theory Parser_Stmt
  imports Parser_Expr
begin

text \<open>
  Bindings, statements and blocks (\<open>src/parser.rs\<close>). Which statement begins at the next token is decided
  by looking at the kinds of the tokens ahead.
\<close>

subsection \<open>Looking ahead\<close>

definition kinds_from :: "nat \<Rightarrow> pstate \<Rightarrow> token_kind list" where
  "kinds_from offset s = map t_kind (drop (ps_index s + offset) (ps_tokens s))"

definition is_identifier_kind :: "token_kind \<Rightarrow> bool" where
  "is_identifier_kind k = (case k of TIdentifier _ \<Rightarrow> True | _ \<Rightarrow> False)"

fun binding_ahead :: "bool \<Rightarrow> token_kind list \<Rightarrow> bool" where
  "binding_ahead in_annotation [] = False"
| "binding_ahead in_annotation (k # ks) =
     (if k = KW KeywordIs then True
      else if k = SY SColon \<and> \<not> in_annotation then binding_ahead True ks
      else if (is_identifier_kind k \<or> k = SY SDot) \<and> in_annotation then binding_ahead in_annotation ks
      else if k = TNewline then binding_ahead in_annotation ks
      else False)"

definition peek_is_binding :: "pstate \<Rightarrow> bool" where
  "peek_is_binding s = binding_ahead False (kinds_from 1 s)"

text \<open>The brackets of a pattern, and then \<open>is\<close>.\<close>

definition is_after_newlines :: "token_kind list \<Rightarrow> bool" where
  "is_after_newlines ks = (case dropWhile (\<lambda>k. k = TNewline) ks of [] \<Rightarrow> False | k # _ \<Rightarrow> k = KW KeywordIs)"

fun bracket_binding_ahead :: "symbol \<Rightarrow> symbol \<Rightarrow> nat \<Rightarrow> token_kind list \<Rightarrow> bool" where
  "bracket_binding_ahead op cl depth [] = False"
| "bracket_binding_ahead op cl depth (k # ks) =
     (if k = SY op then bracket_binding_ahead op cl (depth + 1) ks
      else if k = SY cl then
        (if depth \<le> 1 then is_after_newlines ks else bracket_binding_ahead op cl (depth - 1) ks)
      else if k = TNewline \<or> k = TEof then False
      else bracket_binding_ahead op cl depth ks)"

definition peek_is_pattern_binding :: "pstate \<Rightarrow> bool" where
  "peek_is_pattern_binding s = bracket_binding_ahead SLBracket SRBracket 1 (kinds_from 1 s)"

definition peek_is_constructor_pattern_binding :: "parser_env \<Rightarrow> pstate \<Rightarrow> bool" where
  "peek_is_constructor_pattern_binding E s = (case kind_at 0 s of
     Some (TIdentifier name) \<Rightarrow> starts_uppercase E name \<and> kind_at 1 s = Some (SY SLParen) \<and>
       bracket_binding_ahead SLParen SRParen 1 (kinds_from 2 s)
   | _ \<Rightarrow> False)"

definition augmented_op :: "token_kind \<Rightarrow> binary_op option" where
  "augmented_op k = (if k = SY SPlusEquals then Some BinAdd else if k = SY SMinusEquals then Some BinSub
     else if k = SY SStarEquals then Some BinMul else if k = SY SSlashEquals then Some BinDiv else None)"

definition is_augmented_at :: "nat \<Rightarrow> pstate \<Rightarrow> bool" where
  "is_augmented_at offset s = (case kind_at offset s of Some k \<Rightarrow> augmented_op k \<noteq> None | None \<Rightarrow> False)"

definition peek_is_augmented_assign :: "pstate \<Rightarrow> bool" where
  "peek_is_augmented_assign s = is_augmented_at 1 s"

definition is_self_dot_field :: "pstate \<Rightarrow> bool" where
  "is_self_dot_field s = (kind_at 0 s = Some (TIdentifier (rs ''self'')) \<and> kind_at 1 s = Some (SY SDot) \<and>
     (case kind_at 2 s of Some k \<Rightarrow> is_identifier_kind k | None \<Rightarrow> False))"

definition peek_is_self_field_assignment :: "pstate \<Rightarrow> bool" where
  "peek_is_self_field_assignment s = (is_self_dot_field s \<and> kind_at 3 s = Some (KW KeywordIs))"

definition peek_is_self_field_augmented_assign :: "pstate \<Rightarrow> bool" where
  "peek_is_self_field_augmented_assign s = (is_self_dot_field s \<and> is_augmented_at 3 s)"

subsection \<open>Bindings and assignments\<close>

definition parse_binding :: "parser_env \<Rightarrow> pcalls \<Rightarrow> binding parser" where
  "parse_binding E P =
     pbind consume_identifier (\<lambda>(name, name_span).
     pbind (parse_optional_type_annotation P) (\<lambda>annotation.
     pthen (pexpect (KW KeywordIs) ''expected `is` in binding'')
     (pthen skip_newlines
     (pbind (parse_expression E P) (\<lambda>v.
     let span = (case annotation of Some a \<Rightarrow> span_join name_span (ta_span a) | None \<Rightarrow> name_span) in
     preturn (Binding name annotation v (span_join span (expr_span v))))))))"

definition parse_pattern_binding :: "parser_env \<Rightarrow> pcalls \<Rightarrow> statement parser" where
  "parse_pattern_binding E P =
     pbind (pget current_span) (\<lambda>span.
     pbind (parse_match_pattern E P) (\<lambda>pattern.
     pthen (pexpect (KW KeywordIs) ''expected `is` after destructuring pattern'')
     (pthen skip_newlines
     (pbind (parse_expression E P) (\<lambda>v.
     preturn (StPatternBinding pattern v span))))))"

definition parse_self_field_assignment :: "parser_env \<Rightarrow> pcalls \<Rightarrow> statement parser" where
  "parse_self_field_assignment E P =
     pbind (pget current_span) (\<lambda>start_span.
     pthen padvance
     (pthen padvance
     (pbind consume_identifier (\<lambda>(field_name, _).
     pthen (pexpect (KW KeywordIs) ''expected `is`'')
     (pthen skip_newlines
     (pbind (parse_expression E P) (\<lambda>v.
     pthen skip_newlines
     (preturn (StFieldAssign (EIdentifier (rs ''self'') start_span) field_name v
       (span_join start_span (expr_span v)))))))))))"

definition parse_augmented_assign :: "parser_env \<Rightarrow> pcalls \<Rightarrow> statement parser" where
  "parse_augmented_assign E P =
     pbind consume_identifier (\<lambda>(name, name_span).
     pbind padvance (\<lambda>op_token. case augmented_op (t_kind op_token) of
       None \<Rightarrow> ppanic
     | Some op \<Rightarrow>
         pthen skip_newlines
         (pbind (parse_expression E P) (\<lambda>rhs.
         let span = span_join name_span (expr_span rhs) in
         preturn (StBinding (Binding name None (EBinary op (EIdentifier name name_span) rhs span) span))))))"

definition parse_self_field_augmented_assign :: "parser_env \<Rightarrow> pcalls \<Rightarrow> statement parser" where
  "parse_self_field_augmented_assign E P =
     pbind (pget current_span) (\<lambda>start_span.
     pthen padvance
     (pthen padvance
     (pbind consume_identifier (\<lambda>(field_name, field_span).
     pbind padvance (\<lambda>op_token. case augmented_op (t_kind op_token) of
       None \<Rightarrow> ppanic
     | Some op \<Rightarrow>
         pthen skip_newlines
         (pbind (parse_expression E P) (\<lambda>rhs.
         let span = span_join start_span (expr_span rhs);
             self_expr = EIdentifier (rs ''self'') start_span;
             access = EMember self_expr field_name (span_join start_span field_span) in
         pthen skip_newlines
         (preturn (StFieldAssign self_expr field_name (EBinary op access rhs span) span)))))))))"

subsection \<open>Compound statements\<close>

definition negated :: "expression \<Rightarrow> expression" where
  "negated e = EUnary UnNot e (expr_span e)"

definition parse_elif_branches :: "parser_env \<Rightarrow> pcalls \<Rightarrow> (expression \<times> block) list parser" where
  "parse_elif_branches E P = pwhile (pcheck (KW KeywordElif)) (\<lambda>branches.
     pthen padvance
     (pbind (parse_expression E P) (\<lambda>condition.
     pthen skip_newlines
     (pbind (rec_block P) (\<lambda>body.
     preturn (branches @ [(condition, body)])))))) []"

definition parse_if_statement :: "parser_env \<Rightarrow> pcalls \<Rightarrow> statement parser" where
  "parse_if_statement E P =
     pbind (pget current_span) (\<lambda>span.
     pthen (pexpect (KW KeywordIf) (''expected '' @ quoted ''if''))
     (pbind (parse_expression E P) (\<lambda>condition.
     pthen skip_newlines
     (pbind (rec_block P) (\<lambda>body.
     pbind (parse_elif_branches E P) (\<lambda>elif_branches.
     pbind (poption (KW KeywordElse) (pthen skip_newlines (rec_block P))) (\<lambda>else_body.
     preturn (StIf condition body elif_branches else_body span))))))))"

definition parse_while_statement :: "parser_env \<Rightarrow> pcalls \<Rightarrow> statement parser" where
  "parse_while_statement E P =
     pbind (pget current_span) (\<lambda>span.
     pthen (pexpect (KW KeywordWhile) (''expected '' @ quoted ''while''))
     (pbind (parse_expression E P) (\<lambda>condition.
     pthen skip_newlines
     (pbind (rec_block P) (\<lambda>body.
     preturn (StWhile condition body span))))))"

definition parse_unless_statement :: "parser_env \<Rightarrow> pcalls \<Rightarrow> statement parser" where
  "parse_unless_statement E P =
     pbind (pget current_span) (\<lambda>span.
     pthen (pexpect (KW KeywordUnless) (''expected '' @ quoted ''unless''))
     (pbind (parse_expression E P) (\<lambda>condition.
     pthen skip_newlines
     (pbind (rec_block P) (\<lambda>body.
     preturn (StIf (negated condition) body [] None span))))))"

definition parse_until_statement :: "parser_env \<Rightarrow> pcalls \<Rightarrow> statement parser" where
  "parse_until_statement E P =
     pbind (pget current_span) (\<lambda>span.
     pthen (pexpect (KW KeywordUntil) (''expected '' @ quoted ''until''))
     (pbind (parse_expression E P) (\<lambda>condition.
     pthen skip_newlines
     (pbind (rec_block P) (\<lambda>body.
     preturn (StWhile (negated condition) body span))))))"

definition parse_loop_statement :: "pcalls \<Rightarrow> statement parser" where
  "parse_loop_statement P =
     pbind (pget current_span) (\<lambda>span.
     pthen (pexpect (KW KeywordLoop) (''expected '' @ quoted ''loop''))
     (pthen skip_newlines
     (pbind (rec_block P) (\<lambda>body.
     preturn (StWhile (EBool True span) body span)))))"

text \<open>A variable of \<open>for\<close>.\<close>

definition for_variable :: "string \<Rightarrow> rstr parser" where
  "for_variable message = pbind (pget peek_kind) (\<lambda>k. case k of
     TIdentifier name \<Rightarrow> pthen padvance (preturn name)
   | _ \<Rightarrow> perr message)"

definition parse_for_pairs :: "parser_env \<Rightarrow> pcalls \<Rightarrow> rstr \<Rightarrow> span \<Rightarrow> statement parser" where
  "parse_for_pairs E P variable span =
     pbind (for_variable (''expected second variable name after '' @ quoted '','' @ '' in for'')) (\<lambda>value_var.
     pthen (pexpect (KW KeywordIn) (''expected '' @ quoted ''in'' @ '' after for variables''))
     (pbind (parse_expression E P) (\<lambda>iterable.
     pthen skip_newlines
     (pbind (rec_block P) (\<lambda>body.
     preturn (StForKV variable value_var iterable body span))))))"

definition parse_for_rest :: "parser_env \<Rightarrow> pcalls \<Rightarrow> rstr \<Rightarrow> span \<Rightarrow> statement parser" where
  "parse_for_rest E P variable span =
     pthen (pexpect (KW KeywordIn) (''expected '' @ quoted ''in'' @ '' after for variable''))
     (pbind (parse_expression E P) (\<lambda>start_expr.
     pbind (pmatches (KW KeywordTo)) (\<lambda>is_range.
     if is_range then
       pbind (parse_expression E P) (\<lambda>end_expr.
       pbind (poption (KW KeywordStep) (parse_expression E P)) (\<lambda>step_expr.
       pthen skip_newlines
       (pbind (rec_block P) (\<lambda>body.
       preturn (StForRange variable start_expr end_expr step_expr body span)))))
     else
       pthen skip_newlines
       (pbind (rec_block P) (\<lambda>body.
       preturn (StFor variable start_expr body span))))))"

definition parse_for_statement :: "parser_env \<Rightarrow> pcalls \<Rightarrow> statement parser" where
  "parse_for_statement E P =
     pbind (pget current_span) (\<lambda>span.
     pthen (pexpect (KW KeywordFor) (''expected '' @ quoted ''for''))
     (pbind (for_variable (''expected variable name after '' @ quoted ''for'')) (\<lambda>variable.
     pbind (pmatches (SY SComma)) (\<lambda>comma.
     if comma then parse_for_pairs E P variable span else parse_for_rest E P variable span))))"

subsection \<open>Statements\<close>

fun stmt_span :: "statement \<Rightarrow> span" where
  "stmt_span (StReturn _ s) = s"
| "stmt_span (StBreak s) = s"
| "stmt_span (StContinue s) = s"
| "stmt_span (StExpression e) = expr_span e"
| "stmt_span (StIf _ _ _ _ s) = s"
| "stmt_span (StWhile _ _ s) = s"
| "stmt_span (StFor _ _ _ s) = s"
| "stmt_span (StForKV _ _ _ _ s) = s"
| "stmt_span (StForRange _ _ _ _ _ s) = s"
| "stmt_span (StBinding b) = bi_span b"
| "stmt_span (StFieldAssign _ _ _ s) = s"
| "stmt_span (StPatternBinding _ _ s) = s"

definition parse_return :: "parser_env \<Rightarrow> pcalls \<Rightarrow> statement parser" where
  "parse_return E P =
     pbind (pget current_span) (\<lambda>span.
     pthen padvance
     (pbind (pget (\<lambda>s. pcheck (KW KeywordIf) s \<or> pcheck (KW KeywordUnless) s)) (\<lambda>bare.
     if bare then preturn (StReturn (ENone span) span)
     else pbind (parse_expression E P) (\<lambda>e. preturn (StReturn e span)))))"

text \<open>After a simple statement: \<open>if\<close> or \<open>unless\<close> with a condition.\<close>

definition parse_postfix_condition :: "parser_env \<Rightarrow> pcalls \<Rightarrow> statement \<Rightarrow> statement parser" where
  "parse_postfix_condition E P stmt =
     pbind (pget (pcheck (KW KeywordUnless))) (\<lambda>is_unless.
     pthen padvance
     (pbind (parse_expression E P) (\<lambda>raw_condition.
     let condition = (if is_unless then negated raw_condition else raw_condition); s = stmt_span stmt in
     preturn (StIf condition (Block [stmt] None s) [] None (span_join s (expr_span condition))))))"

text \<open>After a simple statement: \<open>?\<close> and the statement or block that it guards.\<close>

definition guard_condition :: "statement \<Rightarrow> expression option" where
  "guard_condition stmt = (case stmt of
     StBinding b \<Rightarrow> Some (EBinary BinEquals
       (EIdentifier (bi_name b) (span_new (sp_start (bi_span b)) (sp_start (bi_span b) + utf8_len (bi_name b))))
       (bi_value b) (bi_span b))
   | StExpression e \<Rightarrow> Some e
   | _ \<Rightarrow> None)"

definition parse_guard_body :: "pcalls \<Rightarrow> block parser" where
  "parse_guard_body P = pbind (pget (\<lambda>s. pcheck TNewline s \<or> pcheck TIndent s)) (\<lambda>b.
     if b then pthen skip_newlines (rec_block P)
     else pbind (rec_statement P) (\<lambda>stmt. preturn (Block [stmt] None (stmt_span stmt))))"

definition parse_guarded :: "pcalls \<Rightarrow> statement \<Rightarrow> statement parser" where
  "parse_guarded P stmt =
     pbind (pget current_span) (\<lambda>guard_span.
     pthen padvance (case guard_condition stmt of
       None \<Rightarrow> pfail (diag_new (rs ''guard `?` can only follow an expression or binding'') guard_span)
     | Some condition \<Rightarrow>
         pbind (parse_guard_body P) (\<lambda>body.
         preturn (StIf condition body [] None (span_join (expr_span condition) (bl_span body))))))"

definition finish_statement :: "parser_env \<Rightarrow> pcalls \<Rightarrow> statement \<Rightarrow> statement parser" where
  "finish_statement E P stmt =
     pbind (pget (\<lambda>s. pcheck (KW KeywordIf) s \<or> pcheck (KW KeywordUnless) s)) (\<lambda>postfix.
     if postfix then parse_postfix_condition E P stmt
     else pbind (pget (pcheck (SY SQuestion))) (\<lambda>guard.
     if guard then parse_guarded P stmt
     else pthen skip_newlines (preturn stmt)))"

definition parse_simple_statement :: "parser_env \<Rightarrow> pcalls \<Rightarrow> statement parser" where
  "parse_simple_statement E P = pbind (pget peek_kind) (\<lambda>k. pbind (pget current_span) (\<lambda>span.
     pbind (if k = KW KeywordReturn then parse_return E P
       else if k = KW KeywordBreak then pthen padvance (preturn (StBreak span))
       else if k = KW KeywordContinue then pthen padvance (preturn (StContinue span))
       else pbind (parse_expression E P) (\<lambda>e. preturn (StExpression e)))
     (finish_statement E P)))"

definition parse_statement :: "parser_env \<Rightarrow> pcalls \<Rightarrow> statement parser" where
  "parse_statement E P = pbind (pget (\<lambda>s. s)) (\<lambda>s.
     if peek_is_self_field_assignment s then parse_self_field_assignment E P
     else if peek_is_self_field_augmented_assign s then parse_self_field_augmented_assign E P
     else let k = peek_kind s in
       if is_identifier_kind k \<and> peek_is_binding s then
         pbind (parse_binding E P) (\<lambda>b. finish_statement E P (StBinding b))
       else if is_identifier_kind k \<and> peek_is_augmented_assign s then parse_augmented_assign E P
       else if k = SY SLBracket \<and> peek_is_pattern_binding s then parse_pattern_binding E P
       else if is_identifier_kind k \<and> peek_is_constructor_pattern_binding E s then parse_pattern_binding E P
       else if k = KW KeywordIf then parse_if_statement E P
       else if k = KW KeywordUnless then parse_unless_statement E P
       else if k = KW KeywordWhile then parse_while_statement E P
       else if k = KW KeywordUntil then parse_until_statement E P
       else if k = KW KeywordLoop then parse_loop_statement P
       else if k = KW KeywordFor then parse_for_statement E P
       else parse_simple_statement E P)"

subsection \<open>Blocks\<close>

definition parse_block_body :: "parser_env \<Rightarrow> pcalls \<Rightarrow> span \<Rightarrow> (statement list \<times> expression option) parser" where
  "parse_block_body E P block_start = ploop (\<lambda>acc.
     pthen skip_newlines
     (pbind (pget (pcheck TDedent)) (\<lambda>dedent.
     if dedent then pthen close_block (preturn (Inr acc))
     else pbind (pget (pcheck TEof)) (\<lambda>eof.
     if eof then pthen (report_missing_dedent block_start ''missing dedent to close block'') (preturn (Inr acc))
     else pbind (parse_statement E P) (\<lambda>stmt. preturn (Inl (push_statement stmt acc))))))) ([], None)"

definition parse_block :: "parser_env \<Rightarrow> pcalls \<Rightarrow> block parser" where
  "parse_block E P =
     pbind (consume_indent_with_recovery ''expected indentation for block''
       ''Indent block contents with spaces or a tab'') (\<lambda>block_start. case block_start of
       None \<Rightarrow> pbind (pget previous_span) (\<lambda>s. preturn (Block [] None s))
     | Some start \<Rightarrow>
         pbind (parse_block_body E P start) (\<lambda>(statements, trailing).
         pbind (pget previous_span) (\<lambda>s.
         preturn (Block statements trailing (span_join start s)))))"

end
