(* ===== verification/Parser_Items.thy ===== *)
theory Parser_Items
  imports Parser_Stmt
begin

text \<open>
  The items of a module, the recovery after an error, and the whole parser (\<open>src/parser.rs\<close>).
\<close>

subsection \<open>Functions\<close>

definition parse_function :: "parser_env \<Rightarrow> pcalls \<Rightarrow> function_kind \<Rightarrow> function_def parser" where
  "parse_function E P default_kind =
     pbind padvance (\<lambda>token.
     let kind = (if t_kind token = SY SAt then FkActorMessage else default_kind) in
     pbind consume_identifier (\<lambda>(name, name_span).
     pthen (pexpect (SY SLParen) ''expected `(` after function name'')
     (pbind (parse_parameters_allow_keywords P) (\<lambda>params.
     pthen (pexpect TNewline ''expected newline before function body'')
     (pbind (parse_block E P) (\<lambda>body.
     preturn \<lparr> fd_name = name, fd_params = params, fd_body = body, fd_kind = kind,
       fd_span = span_join (span_join (t_span token) name_span) (bl_span body) \<rparr>))))))"

definition parse_extern_function :: "pcalls \<Rightarrow> extern_function parser" where
  "parse_extern_function P =
     pbind padvance (\<lambda>start.
     pthen (pexpect (KW KeywordFn) ''expected `fn` after `extern`'')
     (pbind consume_identifier (\<lambda>(name, name_span).
     pthen (pexpect (SY SLParen) ''expected `(` after extern function name'')
     (pbind (parse_parameters_allow_keywords P) (\<lambda>params.
     pbind (poption (SY SColon) (parse_type_annotation P)) (\<lambda>return_type.
     preturn \<lparr> xf_name = name, xf_params = params, xf_return_type = return_type,
       xf_span = span_join (span_join (t_span start) name_span)
         (case return_type of Some t \<Rightarrow> ta_span t | None \<Rightarrow> name_span) \<rparr>)))))) "

definition parse_field :: "parser_env \<Rightarrow> pcalls \<Rightarrow> field parser" where
  "parse_field E P =
     pbind (pget current_span) (\<lambda>start_span.
     pbind (pmatches (SY SAmpersand)) (\<lambda>is_reference.
     pbind consume_identifier (\<lambda>(name, name_span).
     pbind (pbind (pmatches (SY SQuestion)) (\<lambda>b. if b then preturn True else pmatches (KW KeywordIs))) (\<lambda>has_default.
     pbind (if has_default then pthen skip_newlines (pbind (parse_expression E P) (\<lambda>e. preturn (Some e)))
       else preturn None) (\<lambda>default_value.
     pthen skip_newlines
     (preturn \<lparr> fl_name = name, fl_is_reference = is_reference, fl_default = default_value,
       fl_span = span_join start_span name_span \<rparr>))))))"

subsection \<open>Bodies of types, stores, traits\<close>

text \<open>\<open>with\<close> and the names of traits, separated by commas.\<close>

definition parse_trait_names :: "rstr list parser" where
  "parse_trait_names = ploop (\<lambda>names.
     pbind consume_identifier (\<lambda>(name, _).
     pbind (pmatches (SY SComma)) (\<lambda>comma.
     preturn (if comma then Inl (names @ [name]) else Inr (names @ [name]))))) []"

definition parse_with_traits :: "rstr list parser" where
  "parse_with_traits = pbind (pmatches (KW KeywordWith)) (\<lambda>b. if b then parse_trait_names else preturn [])"

text \<open>
  The lines of an indented body, up to the token that closes it: each is read by \<open>line\<close>, which
  extends what has been read.
\<close>

definition indented_lines :: "span \<Rightarrow> string \<Rightarrow> ('a \<Rightarrow> 'a parser) \<Rightarrow> 'a \<Rightarrow> 'a parser" where
  "indented_lines body_start message line = ploop (\<lambda>acc.
     pthen skip_newlines
     (pbind (pget (pcheck TDedent)) (\<lambda>dedent.
     if dedent then pthen close_block (preturn (Inr acc))
     else pbind (pget (pcheck TEof)) (\<lambda>eof.
     if eof then pthen (report_missing_dedent body_start message) (preturn (Inr acc))
     else pbind (line acc) (\<lambda>acc. preturn (Inl acc))))))"

definition parse_body_line ::
  "parser_env \<Rightarrow> pcalls \<Rightarrow> field list \<times> function_def list \<Rightarrow> (field list \<times> function_def list) parser" where
  "parse_body_line E P = (\<lambda>(fields, methods). pbind (pget peek_kind) (\<lambda>k.
     if k = SY SStar then pbind (parse_function E P FkMethod) (\<lambda>f. preturn (fields, methods @ [f]))
     else if k = SY SAt then pbind (parse_function E P FkActorMessage) (\<lambda>f. preturn (fields, methods @ [f]))
     else if k = SY SAmpersand \<or> is_identifier_kind k then
       pbind (parse_field E P) (\<lambda>f. preturn (fields @ [f], methods))
     else perr ''unexpected token in type body''))"

definition parse_composite_body_with_traits ::
  "parser_env \<Rightarrow> pcalls \<Rightarrow> (rstr list \<times> field list \<times> function_def list \<times> span) parser" where
  "parse_composite_body_with_traits E P =
     pbind parse_with_traits (\<lambda>with_traits.
     pthen (pexpect TNewline ''expected newline before body'')
     (pbind (consume_indent_with_recovery ''expected indentation for body''
         ''Indent type/store fields with spaces or a tab'') (\<lambda>body_start. case body_start of
       None \<Rightarrow> pbind (pget previous_span) (\<lambda>s. preturn (with_traits, [], [], s))
     | Some start \<Rightarrow>
         pbind (indented_lines start ''missing dedent to close body'' (parse_body_line E P) ([], [])) (\<lambda>(fields, methods).
         pbind (pget previous_span) (\<lambda>s. preturn (with_traits, fields, methods, s))))))"

subsection \<open>Types\<close>

definition parse_bounds :: "rstr list parser" where
  "parse_bounds = pbind (pmatches (KW KeywordWith)) (\<lambda>b. if \<not> b then preturn []
     else ploop (\<lambda>bounds. pbind consume_identifier (\<lambda>(name, _).
       pbind (pmatches (KW KeywordWith)) (\<lambda>again.
       preturn (if again then Inl (bounds @ [name]) else Inr (bounds @ [name]))))) [])"

definition parse_type_param :: "type_param parser" where
  "parse_type_param = pbind (pmatches (KW KeywordConst)) (\<lambda>b.
     if b then pbind consume_identifier (\<lambda>(name, _). preturn (type_param_const name))
     else pbind consume_identifier (\<lambda>(name, _).
       pbind parse_bounds (\<lambda>bounds. preturn (type_param_new name bounds))))"

fun first_duplicate :: "rstr list \<Rightarrow> rstr list \<Rightarrow> rstr option" where
  "first_duplicate seen [] = None"
| "first_duplicate seen (x # xs) = (if x \<in> set seen then Some x else first_duplicate (x # seen) xs)"

definition parse_type_params :: "type_param list parser" where
  "parse_type_params =
     pbind (pmatches (SY SLBracket)) (\<lambda>b. if \<not> b then preturn []
     else pbind (ploop (\<lambda>params.
         pbind (pmatches (SY SRBracket)) (\<lambda>close.
         if close then preturn (Inr params)
         else pbind parse_type_param (\<lambda>p.
           pbind (pmatches (SY SComma)) (\<lambda>comma.
           if comma then preturn (Inl (params @ [p]))
           else pthen (pexpect (SY SRBracket) ''expected `]` after type parameters'')
             (preturn (Inr (params @ [p]))))))) []) (\<lambda>params.
       case first_duplicate [] (map tp_name params) of
         Some name \<Rightarrow> perr_rs (rs ''duplicate type parameter `'' @ name @ rs ''`'')
       | None \<Rightarrow> preturn params))"

definition parse_type_def :: "parser_env \<Rightarrow> pcalls \<Rightarrow> type_definition parser" where
  "parse_type_def E P =
     pbind padvance (\<lambda>start.
     pbind consume_identifier (\<lambda>(name, name_span).
     pbind parse_type_params (\<lambda>type_params.
     pbind (parse_composite_body_with_traits E P) (\<lambda>(with_traits, fields, methods, end_span).
     preturn \<lparr> td_name = name, td_type_params = type_params, td_with_traits = with_traits,
       td_fields = fields, td_methods = methods, td_variants = [],
       td_span = span_join (span_join (t_span start) name_span) end_span \<rparr>))))"

definition parse_variant_fields :: "(variant_field list \<times> span) parser" where
  "parse_variant_fields = ploop (\<lambda>fields.
     pbind (pget (pcheck (SY SRParen))) (\<lambda>close.
     if close then pbind padvance (\<lambda>t. preturn (Inr (fields, t_span t)))
     else pbind consume_identifier (\<lambda>(name, span).
       let fields = fields @ [\<lparr> vf_name = Some name, vf_type_annotation = None, vf_span = span \<rparr>] in
       pbind (pmatches (SY SComma)) (\<lambda>comma.
       if comma then preturn (Inl fields)
       else pbind (pexpect (SY SRParen) ''expected `)` after variant fields'') (\<lambda>t.
         preturn (Inr (fields, t_span t))))))) []"

definition parse_type_variant :: "type_variant parser" where
  "parse_type_variant =
     pbind consume_identifier (\<lambda>(name, span).
     pbind (pmatches (SY SLParen)) (\<lambda>b.
     pbind (if b then parse_variant_fields else preturn ([], span)) (\<lambda>(fields, end_span).
     preturn \<lparr> tv_name = name, tv_fields = fields, tv_span = span_join span end_span \<rparr>)))"

text \<open>
  The span of an \<open>enum\<close> ends with the token that closes the body, or with the indentation when the
  file ends first.
\<close>

definition enum_lines :: "span \<Rightarrow> (type_variant list \<times> span) parser" where
  "enum_lines body_start = ploop (\<lambda>variants.
     pthen skip_newlines
     (pbind (pget (pcheck TDedent)) (\<lambda>dedent.
     if dedent then pbind (pget current_span) (\<lambda>s. pthen close_block (preturn (Inr (variants, s))))
     else pbind (pget (pcheck TEof)) (\<lambda>eof.
     if eof then pthen (report_missing_dedent body_start ''missing dedent to close enum body'')
       (preturn (Inr (variants, body_start)))
     else pbind parse_type_variant (\<lambda>v. preturn (Inl (variants @ [v]))))))) []"

definition parse_enum_def :: "type_definition parser" where
  "parse_enum_def =
     pbind padvance (\<lambda>start.
     pbind consume_identifier (\<lambda>(name, name_span).
     pbind parse_type_params (\<lambda>type_params.
     pthen (pexpect TNewline ''expected newline after enum name'')
     (pbind (consume_indent_with_recovery ''expected indentation for enum variants''
         ''Indent enum variants with spaces or a tab'') (\<lambda>body_start.
     let span = span_join (t_span start) name_span in
     pbind (case body_start of None \<Rightarrow> preturn ([], span) | Some s \<Rightarrow> enum_lines s) (\<lambda>(variants, end_span).
     preturn \<lparr> td_name = name, td_type_params = type_params, td_with_traits = [], td_fields = [],
       td_methods = [], td_variants = variants,
       td_span = (if body_start = None then span else span_join span end_span) \<rparr>))))))"

subsection \<open>Stores and actors\<close>

definition parse_message_type :: "rstr option parser" where
  "parse_message_type =
     pthen padvance
     (pbind consume_identifier (\<lambda>(ident, _).
     if ident \<noteq> rs ''messages'' then
       perr_rs (rs (''expected '' @ quoted ''messages'' @ '' after '' @ quoted ''@'' @ '' in actor definition, got '') @
         rs [CHR 0x27] @ ident @ rs [CHR 0x27])
     else
       pthen (pexpect (SY SLParen) (''expected '' @ quoted ''('' @ '' after '' @ quoted ''@messages''))
       (pbind consume_identifier (\<lambda>(type_name, _).
       pthen (pexpect (SY SRParen) (''expected '' @ quoted '')'' @ '' after message type name''))
       (preturn (Some type_name))))))"

definition parse_store_body :: "parser_env \<Rightarrow> pcalls \<Rightarrow> span \<Rightarrow> bool \<Rightarrow> bool \<Rightarrow> store_definition parser" where
  "parse_store_body E P start is_persistent is_actor =
     pbind consume_identifier (\<lambda>(name, name_span).
     pbind (pget (\<lambda>s. is_actor \<and> pcheck (SY SAt) s)) (\<lambda>b.
     pbind (if b then parse_message_type else preturn None) (\<lambda>message_type.
     pbind (parse_composite_body_with_traits E P) (\<lambda>(with_traits, fields, methods, end_span).
     preturn \<lparr> sd_name = name, sd_with_traits = with_traits, sd_fields = fields, sd_methods = methods,
       sd_is_actor = is_actor, sd_is_persistent = is_persistent, sd_message_type = message_type,
       sd_span = span_join (span_join start name_span) end_span \<rparr>))))"

definition parse_store_def :: "parser_env \<Rightarrow> pcalls \<Rightarrow> bool \<Rightarrow> store_definition parser" where
  "parse_store_def E P is_persistent =
     pbind padvance (\<lambda>start. parse_store_body E P (t_span start) is_persistent False)"

definition parse_persist_store_def :: "parser_env \<Rightarrow> pcalls \<Rightarrow> store_definition parser" where
  "parse_persist_store_def E P =
     pbind padvance (\<lambda>start.
     pthen (pexpect (KW KeywordStore) (''expected '' @ quoted ''store'' @ '' after '' @ quoted ''persist''))
     (parse_store_body E P (t_span start) True False))"

definition parse_actor_def :: "parser_env \<Rightarrow> pcalls \<Rightarrow> store_definition parser" where
  "parse_actor_def E P = pbind padvance (\<lambda>start. parse_store_body E P (t_span start) False True)"

subsection \<open>Errors and taxonomies\<close>

text \<open>An attribute of an error, \<open>code is n\<close> or \<open>message is s\<close>; then a newline may follow.\<close>

definition skip_one_newline :: "unit parser" where
  "skip_one_newline = pthen (pmatches TNewline) (preturn ())"

definition parse_error_code :: "(int \<times> span) parser" where
  "parse_error_code =
     pthen padvance
     (pthen (pexpect (KW KeywordIs) ''expected `is` after `code`'')
     (pbind (pget peek_kind) (\<lambda>k. case k of
       TInteger n \<Rightarrow> pbind padvance (\<lambda>t. pthen skip_one_newline (preturn (n, t_span t)))
     | _ \<Rightarrow> perr ''expected integer for error code'')))"

definition parse_error_message :: "(rstr \<times> span) parser" where
  "parse_error_message =
     pthen padvance
     (pthen (pexpect (KW KeywordIs) ''expected `is` after `message`'')
     (pbind (pget peek_kind) (\<lambda>k. case k of
       TString v \<Rightarrow> pbind padvance (\<lambda>t. pthen skip_one_newline (preturn (v, t_span t)))
     | _ \<Rightarrow> perr ''expected string for error message'')))"

definition parse_error_body ::
  "pcalls \<Rightarrow> (int option \<times> rstr option \<times> error_definition list \<times> span) parser" where
  "parse_error_body P = pbind (pget previous_span) (\<lambda>start. ploop (\<lambda>(code, message, children, end_span).
     pthen skip_newlines
     (pbind (pget (\<lambda>s. pcheck TDedent s \<or> pcheck TEof s)) (\<lambda>stop.
     if stop then preturn (Inr (code, message, children, end_span))
     else pbind (pget (pcheck (KW KeywordErr))) (\<lambda>child.
     if child then pbind (pcall_as un_error CErrorDefinition P) (\<lambda>c.
       preturn (Inl (code, message, children @ [c], ed_span c)))
     else pbind (pget peek_kind) (\<lambda>k.
     if k = TIdentifier (rs ''code'') then pbind parse_error_code (\<lambda>(n, s).
       preturn (Inl (Some n, message, children, s)))
     else if k = TIdentifier (rs ''message'') then pbind parse_error_message (\<lambda>(m, s).
       preturn (Inl (code, Some m, children, s)))
     else preturn (Inr (code, message, children, end_span))))))) (None, None, [], start))"

definition parse_error_definition :: "pcalls \<Rightarrow> error_definition parser" where
  "parse_error_definition P =
     pbind padvance (\<lambda>start.
     pbind consume_identifier (\<lambda>(name, name_span).
     pbind (pmatches TNewline) (\<lambda>newline.
     pbind (if newline then pmatches TIndent else preturn False) (\<lambda>indented.
     pbind (if indented then pbind (parse_error_body P) (\<lambda>body.
         pthen (pexpect TDedent ''expected dedent after error definition body'') (preturn body))
       else preturn (None, None, [], name_span)) (\<lambda>(code, message, children, end_span).
     preturn (ErrorDefinition name code message children (span_join (t_span start) end_span)))))))"

definition parse_taxonomy_line ::
  "parser_env \<Rightarrow> pcalls \<Rightarrow> taxonomy_node list \<times> binding list \<Rightarrow> (taxonomy_node list \<times> binding list) parser" where
  "parse_taxonomy_line E P = (\<lambda>(children, bindings). pbind (pget (\<lambda>s. s)) (\<lambda>s.
     if peek_kind s = SY SBangBang then
       pbind (pcall_as un_taxonomy CTaxonomy P) (\<lambda>n. preturn (children @ [n], bindings))
     else if is_identifier_kind (peek_kind s) \<and> peek_is_binding s then
       pbind (parse_binding E P) (\<lambda>b. preturn (children, bindings @ [b]))
     else perr ''unexpected token in taxonomy body''))"

definition parse_taxonomy_node :: "parser_env \<Rightarrow> pcalls \<Rightarrow> taxonomy_node parser" where
  "parse_taxonomy_node E P =
     pbind padvance (\<lambda>start.
     pbind consume_identifier (\<lambda>(name, name_span).
     pthen (pexpect TNewline ''expected newline after taxonomy name'')
     (pbind (consume_indent_with_recovery ''expected indented taxonomy body''
         ''Indent taxonomy children or bindings'') (\<lambda>body_start. case body_start of
       None \<Rightarrow> preturn (TaxonomyNode name [] [] (span_join (t_span start) name_span))
     | Some s \<Rightarrow>
         pbind (indented_lines s ''missing dedent to close taxonomy body'' (parse_taxonomy_line E P) ([], []))
           (\<lambda>(children, bindings).
         pbind (pget previous_span) (\<lambda>e.
         preturn (TaxonomyNode name children bindings (span_join (t_span start) e))))))))"

subsection \<open>Extensions and traits\<close>

definition parse_extension_line :: "parser_env \<Rightarrow> pcalls \<Rightarrow> function_def list \<Rightarrow> function_def list parser" where
  "parse_extension_line E P methods = pbind (pget peek_kind) (\<lambda>k.
     if k = SY SStar then pbind (parse_function E P FkMethod) (\<lambda>f. preturn (methods @ [f]))
     else perr ''expected method definition (starting with *) in extension body'')"

definition parse_extension_def :: "parser_env \<Rightarrow> pcalls \<Rightarrow> extension_definition parser" where
  "parse_extension_def E P =
     pbind padvance (\<lambda>start.
     pbind consume_identifier (\<lambda>(target_type, _).
     pthen (pexpect TNewline ''expected newline before extension body'')
     (pbind (consume_indent_with_recovery ''expected indentation for extension body''
         ''Indent extension methods with spaces or a tab'') (\<lambda>body_start. case body_start of
       None \<Rightarrow> preturn \<lparr> xd_target_type = target_type, xd_methods = [], xd_span = t_span start \<rparr>
     | Some s \<Rightarrow>
         pbind (indented_lines s ''missing dedent to close extension body'' (parse_extension_line E P) []) (\<lambda>methods.
         pbind (pget previous_span) (\<lambda>e.
         preturn \<lparr> xd_target_type = target_type, xd_methods = methods, xd_span = span_join (t_span start) e \<rparr>))))))"

definition parse_trait_method :: "parser_env \<Rightarrow> pcalls \<Rightarrow> trait_method parser" where
  "parse_trait_method E P =
     pbind padvance (\<lambda>start.
     pbind consume_identifier (\<lambda>(name, name_span).
     pthen (pexpect (SY SLParen) ''expected `(` after method name'')
     (pbind (parse_parameters P) (\<lambda>params.
     pbind (pmatches TNewline) (\<lambda>newline.
     pbind (pget (\<lambda>s. newline \<and> pcheck TIndent s)) (\<lambda>has_body.
     pbind (if has_body then pbind (parse_block E P) (\<lambda>b. preturn (Some b)) else preturn None) (\<lambda>body.
     preturn \<lparr> tm_name = name, tm_params = params, tm_body = body,
       tm_span = span_join (t_span start) name_span \<rparr>)))))))"

definition trait_lines :: "parser_env \<Rightarrow> pcalls \<Rightarrow> span \<Rightarrow> (trait_method list \<times> span) parser" where
  "trait_lines E P body_start = ploop (\<lambda>methods.
     pthen skip_newlines
     (pbind (pget (pcheck TDedent)) (\<lambda>dedent.
     if dedent then pbind (pget current_span) (\<lambda>s. pthen close_block (preturn (Inr (methods, s))))
     else pbind (pget (pcheck TEof)) (\<lambda>eof.
     if eof then pthen (report_missing_dedent body_start ''missing dedent to close trait body'')
       (preturn (Inr (methods, body_start)))
     else pbind (pget (pcheck (SY SStar))) (\<lambda>star.
     if star then pbind (parse_trait_method E P) (\<lambda>m. preturn (Inl (methods @ [m])))
     else perr ''expected `*` for trait method''))))) []"

definition parse_trait_def :: "parser_env \<Rightarrow> pcalls \<Rightarrow> trait_definition parser" where
  "parse_trait_def E P =
     pbind padvance (\<lambda>start.
     pbind consume_identifier (\<lambda>(name, name_span).
     pbind parse_with_traits (\<lambda>required_traits.
     pbind (pmatches TNewline) (\<lambda>newline.
     pbind (if newline then pmatches TIndent else preturn False) (\<lambda>indented.
     if \<not> indented then preturn \<lparr> tr_name = name, tr_required_traits = required_traits, tr_methods = [],
       tr_span = span_join (t_span start) name_span \<rparr>
     else
       pthen enter_layout_block
       (pbind (pget previous_span) (\<lambda>body_start.
       pbind (trait_lines E P body_start) (\<lambda>(methods, end_span).
       preturn \<lparr> tr_name = name, tr_required_traits = required_traits, tr_methods = methods,
         tr_span = span_join (t_span start) end_span \<rparr>))))))))"

end
