(* ===== verification/Parser_Mono.thy ===== *)
theory Parser_Mono
  imports Parser_Items
begin

text \<open>
  The recursion of the parser. Every definition is monotone in the parser \<open>P\<close> of the calls that go back
  (collection \<open>pm\<close>, one lemma for each definition), so that \<open>parse_run\<close>, which ties the calls to the
  definitions, is a partial function: \<open>None\<close> when a call does not return.
\<close>

subsection \<open>Monotone in the calls\<close>

named_theorems pm

definition pm :: "(pcalls \<Rightarrow> 'a parser) \<Rightarrow> bool" where
  "pm F \<longleftrightarrow> (\<forall>P Q. (\<forall>c s. option_ord (P c s) (Q c s)) \<longrightarrow> (\<forall>s. option_ord (F P s) (F Q s)))"

lemma option_ord_iff: "option_ord x y \<longleftrightarrow> x = None \<or> x = y"
  by (auto simp: flat_ord_def)

lemma pm_const [pm]: "pm (\<lambda>P. p)"
  by (simp add: pm_def option_ord_iff)

lemma pm_call [pm]: "pm (\<lambda>P. P c)"
  by (simp add: pm_def)

lemma pbind_ord:
  assumes "option_ord (m s) (m' s)" "\<And>x s'. m s = Some (Ok x, s') \<Longrightarrow> option_ord (k x s') (k' x s')"
  shows "option_ord (pbind m k s) (pbind m' k' s)"
proof (cases "m s")
  case None
  then show ?thesis by (simp add: pbind_def option_ord_iff)
next
  case (Some r)
  then have eq: "m' s = Some r" using assms(1) by (simp add: option_ord_iff)
  obtain x s' where r: "r = (x, s')" by (cases r)
  show ?thesis
  proof (cases x)
    case (Ok a)
    then have "pbind m k s = k a s'" "pbind m' k' s = k' a s'" using Some eq r by (simp_all add: pbind_def)
    moreover have "option_ord (k a s') (k' a s')" using assms(2) Some r Ok by simp
    ultimately show ?thesis by simp
  qed (use Some eq r in \<open>simp_all add: pbind_def option_ord_iff\<close>)
qed

lemma pm_pbind [pm]:
  assumes "pm A" "\<And>x. pm (\<lambda>P. B P x)"
  shows "pm (\<lambda>P. pbind (A P) (B P))"
  unfolding pm_def
proof (intro allI impI)
  fix P Q :: pcalls and s
  assume PQ: "\<forall>c s. option_ord (P c s) (Q c s)"
  show "option_ord (pbind (A P) (B P) s) (pbind (A Q) (B Q) s)"
    by (rule pbind_ord) (use assms PQ in \<open>simp_all add: pm_def\<close>)
qed

lemma ploop_ord:
  assumes "\<And>a s. option_ord (B a s) (B' a s)" "ploop B a s = Some r"
  shows "ploop B' a s = Some r"
proof -
  have "B = B \<longrightarrow> ploop B' a s = Some r"
  proof (rule ploop.raw_induct [OF _ assms(2), where P = "\<lambda>f a s r. f = B \<longrightarrow> ploop B' a s = Some r"])
    fix loop :: "('a \<Rightarrow> ('a + 'b) parser) \<Rightarrow> 'a \<Rightarrow> 'b parser" and body a s r
    assume IH: "\<And>f a s r. loop f a s = Some r \<Longrightarrow> f = B \<longrightarrow> ploop B' a s = Some r"
      and eq: "(case body a s of None \<Rightarrow> None | Some (r, s') \<Rightarrow>
        (case r of Ok x \<Rightarrow> (case x of Inl a' \<Rightarrow> loop body a' s' | Inr b \<Rightarrow> Some (Ok b, s'))
         | Err e \<Rightarrow> Some (Err e, s') | Panic \<Rightarrow> Some (Panic, s'))) = Some r"
    show "body = B \<longrightarrow> ploop B' a s = Some r"
    proof
      assume "body = B"
      then obtain x s' where x: "B a s = Some (x, s')" using eq by (auto split: option.splits)
      then have x': "B' a s = Some (x, s')" using assms(1) [of a s] by (simp add: option_ord_iff)
      show "ploop B' a s = Some r"
        using IH eq x x' \<open>body = B\<close>
        by (subst ploop.simps) (auto split: outcome.splits sum.splits)
    qed
  qed
  then show ?thesis by simp
qed

lemma pm_ploop [pm]:
  assumes "\<And>a. pm (\<lambda>P. B P a)"
  shows "pm (\<lambda>P. ploop (B P) a)"
  unfolding pm_def
proof (intro allI impI)
  fix P Q :: pcalls and s
  assume "\<forall>c s. option_ord (P c s) (Q c s)"
  then have "option_ord (B P a s) (B Q a s)" for a s using assms by (simp add: pm_def)
  note step = this
  have "ploop (B P) a s = Some r \<Longrightarrow> ploop (B Q) a s = Some r" for r by (rule ploop_ord [OF step])
  then show "option_ord (ploop (B P) a s) (ploop (B Q) a s)"
    by (cases "ploop (B P) a s") (auto simp: option_ord_iff)
qed

lemma pm_if [pm]: "pm A \<Longrightarrow> pm B \<Longrightarrow> pm (\<lambda>P. if b then A P else B P)"
  by (cases b) simp_all

lemma pm_let [pm]: "(\<And>x. pm (\<lambda>P. B P x)) \<Longrightarrow> pm (\<lambda>P. Let v (B P))"
  by simp

lemma pm_option [pm]: "pm A \<Longrightarrow> (\<And>x. pm (\<lambda>P. B P x)) \<Longrightarrow> pm (\<lambda>P. case v of None \<Rightarrow> A P | Some x \<Rightarrow> B P x)"
  by (cases v) simp_all

lemma pm_prod [pm]: "(\<And>x y. pm (\<lambda>P. B P x y)) \<Longrightarrow> pm (\<lambda>P. case_prod (B P) v)"
  by (cases v) simp


lemma pm_token_kind [pm]:
  assumes "\<And>n. pm (\<lambda>P. a P n)" "\<And>n. pm (\<lambda>P. b P n)" "\<And>n. pm (\<lambda>P. c P n)" "\<And>n. pm (\<lambda>P. d P n)"
    "\<And>n. pm (\<lambda>P. e P n)" "\<And>n. pm (\<lambda>P. f P n)" "\<And>n. pm (\<lambda>P. g P n)" "\<And>n. pm (\<lambda>P. h P n)"
    "\<And>n. pm (\<lambda>P. i P n)" "pm j" "pm k" "pm l" "pm m"
  shows "pm (\<lambda>P. case_token_kind (a P) (b P) (c P) (d P) (e P) (f P) (g P) (h P) (i P) (j P) (k P) (l P) (m P) t)"
  using assms by (cases t) simp_all

lemma pm_pcall_as [pm]: "pm (pcall_as un c)"
  unfolding pcall_as_def by (intro pm)

lemma pm_pwhile [pm]: "(\<And>a. pm (\<lambda>P. B P a)) \<Longrightarrow> pm (\<lambda>P. pwhile test (B P) a)"
  unfolding pwhile_def by (intro pm)

lemma pm_poption [pm]: "pm A \<Longrightarrow> pm (\<lambda>P. poption k (A P))"
  unfolding poption_def by (intro pm)

lemma pm_binary_level [pm]: "pm A \<Longrightarrow> pm (\<lambda>P. binary_level op_of (A P))"
  unfolding binary_level_def by (intro pm)

lemma pm_indented_lines [pm]: "(\<And>a. pm (\<lambda>P. B P a)) \<Longrightarrow> pm (\<lambda>P. indented_lines s m (B P) a)"
  unfolding indented_lines_def by (intro pm)

lemma pm_parse_inline_expression [pm]: "pm A \<Longrightarrow> pm (\<lambda>P. parse_inline_expression (A P))"
  unfolding parse_inline_expression_def by (intro pm)

lemma pm_parse_type_annotation [pm]: "pm parse_type_annotation"
  unfolding parse_type_annotation_def by (intro pm)

lemma pm_parse_optional_type_annotation [pm]: "pm parse_optional_type_annotation"
  unfolding parse_optional_type_annotation_def by (intro pm)

lemma pm_parse_parameters_impl [pm]: "pm (parse_parameters_impl allow_keywords)"
  unfolding parse_parameters_impl_def by (intro pm)

lemma pm_parse_parameters [pm]: "pm parse_parameters"
  unfolding parse_parameters_def by (intro pm)

lemma pm_parse_parameters_allow_keywords [pm]: "pm parse_parameters_allow_keywords"
  unfolding parse_parameters_allow_keywords_def by (intro pm)

lemma pm_parse_list_pattern [pm]: "pm parse_list_pattern"
  unfolding parse_list_pattern_def by (intro pm)

lemma pm_parse_constructor_fields [pm]: "pm parse_constructor_fields"
  unfolding parse_constructor_fields_def by (intro pm)

lemma pm_parse_name_pattern [pm]: "pm (parse_name_pattern E)"
  unfolding parse_name_pattern_def by (intro pm)

lemma pm_parse_match_pattern [pm]: "pm (parse_match_pattern E)"
  unfolding parse_match_pattern_def by (intro pm)

lemma pm_parse_do_end_block [pm]: "pm parse_do_end_block"
  unfolding parse_do_end_block_def by (intro pm)

lemma pm_parse_one_argument [pm]: "pm (\<lambda>P. parse_one_argument P acc)"
  unfolding parse_one_argument_def by (intro pm)

lemma pm_parse_arguments [pm]: "pm parse_arguments"
  unfolding parse_arguments_def by (intro pm)

lemma pm_parse_comprehension [pm]: "pm parse_comprehension"
  unfolding parse_comprehension_def by (intro pm)

lemma pm_parse_map_literal [pm]: "pm (\<lambda>P. parse_map_literal P name_span)"
  unfolding parse_map_literal_def by (intro pm)

lemma pm_parse_list_item [pm]: "pm parse_list_item"
  unfolding parse_list_item_def by (intro pm)

lemma pm_parse_list_literal [pm]: "pm parse_list_literal"
  unfolding parse_list_literal_def by (intro pm)

lemma pm_parse_fragment_expression [pm]: "pm (\<lambda>P. parse_fragment_expression E P source span)"
  unfolding pm_def
proof (intro allI impI)
  fix P Q :: pcalls and s
  assume PQ: "\<forall>c s. option_ord (P c s) (Q c s)"
  have "pm (\<lambda>P. parse_inline_expression (rec_expression P))" by (intro pm)
  then have ord: "option_ord (parse_inline_expression (rec_expression P) s) (parse_inline_expression (rec_expression Q) s)" for s
    using PQ by (simp add: pm_def)
  show "option_ord (parse_fragment_expression E P source span s) (parse_fragment_expression E Q source span s)"
  proof (cases "lex (pe_parse_f64 E) source")
    case (Ok tokens)
    then show ?thesis
      using ord [of "parser_new (shift_tokens (sp_start span) tokens) (ps_source_len s)"]
      by (auto simp: parse_fragment_expression_def option_ord_iff split: option.split)
  qed (simp_all add: parse_fragment_expression_def option_ord_iff)
qed

lemma pm_parse_template_parts [pm]: "pm (\<lambda>P. parse_template_parts E P fragments)"
proof (induction fragments)
  case (Cons x xs)
  then show ?case by (cases x) (auto intro!: pm)
qed (simp add: pm_const)

lemma pm_parse_template_literal [pm]: "pm (\<lambda>P. parse_template_literal E P fragments s)"
  unfolding parse_template_literal_def by (intro pm)

lemma pm_parse_when_expression [pm]: "pm parse_when_expression"
  unfolding parse_when_expression_def by (intro pm)

lemma pm_parse_arm_body [pm]: "pm parse_arm_body"
  unfolding parse_arm_body_def by (intro pm)

lemma pm_parse_alternatives [pm]: "pm (parse_alternatives E)"
  unfolding parse_alternatives_def by (intro pm)

lemma pm_parse_guard [pm]: "pm parse_guard"
  unfolding parse_guard_def by (intro pm)

lemma pm_parse_match_arm [pm]: "pm (parse_match_arm E)"
  unfolding parse_match_arm_def by (intro pm)

lemma pm_parse_match_expression [pm]: "pm (parse_match_expression E)"
  unfolding parse_match_expression_def by (intro pm)

lemma pm_parse_lambda_expression [pm]: "pm parse_lambda_expression"
  unfolding parse_lambda_expression_def by (intro pm)

lemma pm_parse_unsafe_block [pm]: "pm parse_unsafe_block"
  unfolding parse_unsafe_block_def by (intro pm)

lemma pm_parse_asm_inputs [pm]: "pm parse_asm_inputs"
  unfolding parse_asm_inputs_def by (intro pm)

lemma pm_parse_inline_asm [pm]: "pm parse_inline_asm"
  unfolding parse_inline_asm_def by (intro pm)

lemma pm_parse_ptr_load [pm]: "pm parse_ptr_load"
  unfolding parse_ptr_load_def by (intro pm)

lemma pm_parse_tuple_items [pm]: "pm (\<lambda>P. parse_tuple_items P first)"
  unfolding parse_tuple_items_def by (intro pm)

lemma pm_parse_parenthesised [pm]: "pm parse_parenthesised"
  unfolding parse_parenthesised_def by (intro pm)

lemma pm_parse_keyword_primary [pm]: "pm (\<lambda>P. parse_keyword_primary E P w)"
  unfolding parse_keyword_primary_def by (intro pm)

lemma pm_parse_symbol_primary [pm]: "pm (\<lambda>P. parse_symbol_primary P y)"
  unfolding parse_symbol_primary_def by (intro pm)

lemma pm_parse_primary [pm]: "pm (parse_primary E)"
  unfolding parse_primary_def by (intro pm)

lemma pm_parse_call_arguments [pm]: "pm (\<lambda>P. parse_call_arguments P e)"
  unfolding parse_call_arguments_def by (intro pm)

lemma pm_parse_call_do [pm]: "pm (\<lambda>P. parse_call_do P e)"
  unfolding parse_call_do_def by (intro pm)

lemma pm_parse_subscript [pm]: "pm (\<lambda>P. parse_subscript P e)"
  unfolding parse_subscript_def by (intro pm)

lemma pm_parse_call_suffix [pm]: "pm (\<lambda>P. parse_call_suffix P e)"
  unfolding parse_call_suffix_def by (intro pm)

lemma pm_parse_call [pm]: "pm (parse_call E)"
  unfolding parse_call_def by (intro pm)

lemma pm_parse_unary [pm]: "pm (parse_unary E)"
  unfolding parse_unary_def by (intro pm)

lemma pm_parse_factor [pm]: "pm (parse_factor E)"
  unfolding parse_factor_def by (intro pm)

lemma pm_parse_term [pm]: "pm (parse_term E)"
  unfolding parse_term_def by (intro pm)

lemma pm_parse_shift [pm]: "pm (parse_shift E)"
  unfolding parse_shift_def by (intro pm)

lemma pm_parse_comparison [pm]: "pm (parse_comparison E)"
  unfolding parse_comparison_def by (intro pm)

lemma pm_parse_equality [pm]: "pm (parse_equality E)"
  unfolding parse_equality_def by (intro pm)

lemma pm_parse_bitwise_and [pm]: "pm (parse_bitwise_and E)"
  unfolding parse_bitwise_and_def by (intro pm)

lemma pm_parse_bitwise_xor [pm]: "pm (parse_bitwise_xor E)"
  unfolding parse_bitwise_xor_def by (intro pm)

lemma pm_parse_bitwise_or [pm]: "pm (parse_bitwise_or E)"
  unfolding parse_bitwise_or_def by (intro pm)

lemma pm_parse_logic_and [pm]: "pm (parse_logic_and E)"
  unfolding parse_logic_and_def by (intro pm)

lemma pm_parse_logic_or [pm]: "pm (parse_logic_or E)"
  unfolding parse_logic_or_def by (intro pm)

lemma pm_parse_pipeline [pm]: "pm (parse_pipeline E)"
  unfolding parse_pipeline_def by (intro pm)

lemma pm_parse_ternary [pm]: "pm A \<Longrightarrow> pm (\<lambda>P. parse_ternary P (A P) e)"
  unfolding parse_ternary_def by (intro pm)

lemma pm_parse_ternary_or_propagate [pm]: "pm (parse_ternary_or_propagate E)"
  unfolding parse_ternary_or_propagate_def by (intro pm)

lemma pm_parse_expression [pm]: "pm (parse_expression E)"
  unfolding parse_expression_def by (intro pm)

lemma pm_parse_binding [pm]: "pm (parse_binding E)"
  unfolding parse_binding_def by (intro pm)

lemma pm_parse_pattern_binding [pm]: "pm (parse_pattern_binding E)"
  unfolding parse_pattern_binding_def by (intro pm)

lemma pm_parse_self_field_assignment [pm]: "pm (parse_self_field_assignment E)"
  unfolding parse_self_field_assignment_def by (intro pm)

lemma pm_parse_augmented_assign [pm]: "pm (parse_augmented_assign E)"
  unfolding parse_augmented_assign_def by (intro pm)

lemma pm_parse_self_field_augmented_assign [pm]: "pm (parse_self_field_augmented_assign E)"
  unfolding parse_self_field_augmented_assign_def by (intro pm)

lemma pm_parse_elif_branches [pm]: "pm (parse_elif_branches E)"
  unfolding parse_elif_branches_def by (intro pm)

lemma pm_parse_if_statement [pm]: "pm (parse_if_statement E)"
  unfolding parse_if_statement_def by (intro pm)

lemma pm_parse_while_statement [pm]: "pm (parse_while_statement E)"
  unfolding parse_while_statement_def by (intro pm)

lemma pm_parse_unless_statement [pm]: "pm (parse_unless_statement E)"
  unfolding parse_unless_statement_def by (intro pm)

lemma pm_parse_until_statement [pm]: "pm (parse_until_statement E)"
  unfolding parse_until_statement_def by (intro pm)

lemma pm_parse_loop_statement [pm]: "pm parse_loop_statement"
  unfolding parse_loop_statement_def by (intro pm)

lemma pm_parse_for_pairs [pm]: "pm (\<lambda>P. parse_for_pairs E P variable span)"
  unfolding parse_for_pairs_def by (intro pm)

lemma pm_parse_for_rest [pm]: "pm (\<lambda>P. parse_for_rest E P variable span)"
  unfolding parse_for_rest_def by (intro pm)

lemma pm_parse_for_statement [pm]: "pm (parse_for_statement E)"
  unfolding parse_for_statement_def by (intro pm)

lemma pm_parse_return [pm]: "pm (parse_return E)"
  unfolding parse_return_def by (intro pm)

lemma pm_parse_postfix_condition [pm]: "pm (\<lambda>P. parse_postfix_condition E P stmt)"
  unfolding parse_postfix_condition_def by (intro pm)

lemma pm_parse_guard_body [pm]: "pm parse_guard_body"
  unfolding parse_guard_body_def by (intro pm)

lemma pm_parse_guarded [pm]: "pm (\<lambda>P. parse_guarded P stmt)"
  unfolding parse_guarded_def by (intro pm)

lemma pm_finish_statement [pm]: "pm (\<lambda>P. finish_statement E P stmt)"
  unfolding finish_statement_def by (intro pm)

lemma pm_parse_simple_statement [pm]: "pm (parse_simple_statement E)"
  unfolding parse_simple_statement_def by (intro pm)

lemma pm_parse_statement [pm]: "pm (parse_statement E)"
  unfolding parse_statement_def by (intro pm)

lemma pm_parse_block_body [pm]: "pm (\<lambda>P. parse_block_body E P block_start)"
  unfolding parse_block_body_def by (intro pm)

lemma pm_parse_block [pm]: "pm (parse_block E)"
  unfolding parse_block_def by (intro pm)

lemma pm_parse_function [pm]: "pm (\<lambda>P. parse_function E P default_kind)"
  unfolding parse_function_def by (intro pm)

lemma pm_parse_extern_function [pm]: "pm parse_extern_function"
  unfolding parse_extern_function_def by (intro pm)

lemma pm_parse_field [pm]: "pm (parse_field E)"
  unfolding parse_field_def by (intro pm)

lemma pm_parse_body_line [pm]: "pm (\<lambda>P. parse_body_line E P acc)"
  unfolding parse_body_line_def by (intro pm)

lemma pm_parse_composite_body_with_traits [pm]: "pm (parse_composite_body_with_traits E)"
  unfolding parse_composite_body_with_traits_def by (intro pm)

lemma pm_parse_type_def [pm]: "pm (parse_type_def E)"
  unfolding parse_type_def_def by (intro pm)

lemma pm_parse_store_body [pm]: "pm (\<lambda>P. parse_store_body E P start is_persistent is_actor)"
  unfolding parse_store_body_def by (intro pm)

lemma pm_parse_store_def [pm]: "pm (\<lambda>P. parse_store_def E P is_persistent)"
  unfolding parse_store_def_def by (intro pm)

lemma pm_parse_persist_store_def [pm]: "pm (parse_persist_store_def E)"
  unfolding parse_persist_store_def_def by (intro pm)

lemma pm_parse_actor_def [pm]: "pm (parse_actor_def E)"
  unfolding parse_actor_def_def by (intro pm)

lemma pm_parse_error_body [pm]: "pm parse_error_body"
  unfolding parse_error_body_def by (intro pm)

lemma pm_parse_error_definition [pm]: "pm parse_error_definition"
  unfolding parse_error_definition_def by (intro pm)

lemma pm_parse_taxonomy_line [pm]: "pm (\<lambda>P. parse_taxonomy_line E P acc)"
  unfolding parse_taxonomy_line_def by (intro pm)

lemma pm_parse_taxonomy_node [pm]: "pm (parse_taxonomy_node E)"
  unfolding parse_taxonomy_node_def by (intro pm)

lemma pm_parse_extension_line [pm]: "pm (\<lambda>P. parse_extension_line E P methods)"
  unfolding parse_extension_line_def by (intro pm)

lemma pm_parse_extension_def [pm]: "pm (parse_extension_def E)"
  unfolding parse_extension_def_def by (intro pm)

lemma pm_parse_trait_method [pm]: "pm (parse_trait_method E)"
  unfolding parse_trait_method_def by (intro pm)

lemma pm_trait_lines [pm]: "pm (\<lambda>P. trait_lines E P body_start)"
  unfolding trait_lines_def by (intro pm)

lemma pm_parse_trait_def [pm]: "pm (parse_trait_def E)"
  unfolding parse_trait_def_def by (intro pm)

lemma pm_mono:
  assumes "pm F" "\<And>c s. monotone (fun_ord option_ord) option_ord (\<lambda>f. P f c s)"
  shows "monotone (fun_ord option_ord) option_ord (\<lambda>f. F (P f) s)"
  using assms by (auto simp: pm_def monotone_def)

lemma pbind_mono [partial_function_mono]:
  fixes A :: "('a \<Rightarrow> 'b option) \<Rightarrow> 'c parser"
  assumes "\<And>s. monotone (fun_ord option_ord) option_ord (\<lambda>f. A f s)"
  shows "monotone (fun_ord option_ord) option_ord (\<lambda>f. pbind (A f) k s)"
proof (rule monotoneI)
  fix f g :: "'a \<Rightarrow> 'b option"
  assume fg: "fun_ord option_ord f g"
  show "option_ord (pbind (A f) k s) (pbind (A g) k s)"
    by (rule pbind_ord) (use assms [THEN monotoneD, OF fg] in \<open>simp_all add: option_ord_iff\<close>)
qed

lemmas parser_calls_mono [partial_function_mono] =
  pm_parse_expression [THEN pm_mono] pm_parse_pipeline [THEN pm_mono] pm_parse_unary [THEN pm_mono]
  pm_parse_primary [THEN pm_mono] pm_parse_statement [THEN pm_mono] pm_parse_block [THEN pm_mono]
  pm_parse_match_pattern [THEN pm_mono] pm_parse_type_annotation [THEN pm_mono]
  pm_parse_taxonomy_node [THEN pm_mono] pm_parse_error_definition [THEN pm_mono]

subsection \<open>Tying the knot\<close>

partial_function (option) parse_run :: "parser_env \<Rightarrow> pcall \<Rightarrow> pvalue parser" where
  "parse_run E c s = (case c of
     CExpression \<Rightarrow> pbind (parse_expression E (parse_run E)) (\<lambda>e. preturn (VExpr e)) s
   | CPipeline \<Rightarrow> pbind (parse_pipeline E (parse_run E)) (\<lambda>e. preturn (VExpr e)) s
   | CUnary \<Rightarrow> pbind (parse_unary E (parse_run E)) (\<lambda>e. preturn (VExpr e)) s
   | CPrimary \<Rightarrow> pbind (parse_primary E (parse_run E)) (\<lambda>e. preturn (VExpr e)) s
   | CStatement \<Rightarrow> pbind (parse_statement E (parse_run E)) (\<lambda>x. preturn (VStmt x)) s
   | CBlock \<Rightarrow> pbind (parse_block E (parse_run E)) (\<lambda>x. preturn (VBlock x)) s
   | CPattern \<Rightarrow> pbind (parse_match_pattern E (parse_run E)) (\<lambda>x. preturn (VPat x)) s
   | CTypeAnnotation \<Rightarrow> pbind (parse_type_annotation (parse_run E)) (\<lambda>x. preturn (VType x)) s
   | CTaxonomy \<Rightarrow> pbind (parse_taxonomy_node E (parse_run E)) (\<lambda>x. preturn (VTaxonomy x)) s
   | CErrorDefinition \<Rightarrow> pbind (parse_error_definition (parse_run E)) (\<lambda>x. preturn (VError x)) s)"

end
