(* ===== verification/Parser_Top.thy ===== *)
theory Parser_Top
  imports Parser_Mono
begin

text \<open>
  The loop over the items of a source, with the recovery after an error, and the two entry points of
  the parser (\<open>src/parser.rs\<close>).
\<close>

subsection \<open>Items\<close>

definition pmap :: "('a \<Rightarrow> 'b) \<Rightarrow> 'a parser \<Rightarrow> 'b parser" where
  "pmap h p = pbind p (\<lambda>x. preturn (h x))"

definition parse_item :: "parser_env \<Rightarrow> pcalls \<Rightarrow> item parser" where
  "parse_item E P = pbind (pget (\<lambda>s. s)) (\<lambda>s. let k = peek_kind s in
     if k = KW KeywordType then pmap ItType (parse_type_def E P)
     else if k = KW KeywordEnum then pmap ItType parse_enum_def
     else if k = KW KeywordStore then pmap ItStore (parse_store_def E P False)
     else if k = KW KeywordPersist then pmap ItStore (parse_persist_store_def E P)
     else if k = KW KeywordActor then pmap ItStore (parse_actor_def E P)
     else if k = KW KeywordErr then pmap ItErrorDefinition (parse_error_definition P)
     else if k = KW KeywordTrait then pmap ItTraitDefinition (parse_trait_def E P)
     else if k = KW KeywordExtend then pmap ItExtension (parse_extension_def E P)
     else if k = SY SStar then pmap ItFunction (parse_function E P FkFree)
     else if k = SY SBangBang then pmap ItTaxonomy (parse_taxonomy_node E P)
     else if k = KW KeywordMatch then pmap ItExpression (parse_expression E P)
     else if k = KW KeywordExtern then pmap ItExternFunction (parse_extern_function P)
     else if is_identifier_kind k then
       (if peek_is_binding s then pmap ItBinding (parse_binding E P) else pmap ItExpression (parse_expression E P))
     else if k = TIndent then perr ''unexpected indent at top-level''
     else if k = TDedent then perr ''unexpected dedent at top-level''
     else perr ''unexpected token at top-level'')"

subsection \<open>Recovery\<close>

definition is_item_keyword :: "token_kind \<Rightarrow> bool" where
  "is_item_keyword k \<longleftrightarrow> k \<in> {SY SStar, KW KeywordType, KW KeywordEnum, KW KeywordStore, KW KeywordPersist,
     KW KeywordActor, KW KeywordErr, KW KeywordTrait, KW KeywordExtend, KW KeywordExtern, TEof}"

definition synchronize_to_item :: "unit parser" where
  "synchronize_to_item = ploop (\<lambda>_. pbind (pget peek_kind) (\<lambda>k.
     if is_item_keyword k then preturn (Inr ())
     else if k = TNewline then
       pthen padvance (pthen skip_newlines (pbind (pget peek_kind) (\<lambda>k.
         preturn (if is_item_keyword k \<or> is_identifier_kind k then Inr () else Inl ()))))
     else pthen padvance (preturn (Inl ())))) ()"

text \<open>\<open>match p { Ok(x) => .., Err(d) => .. }\<close>.\<close>

definition pattempt :: "'a parser \<Rightarrow> (diagnostic + 'a) parser" where
  "pattempt p s = (case p s of None \<Rightarrow> None | Some (r, s') \<Rightarrow>
     Some (case r of Ok x \<Rightarrow> Ok (Inr x) | Err d \<Rightarrow> Ok (Inl d) | Panic \<Rightarrow> Panic, s'))"

definition parse_item_or_recover :: "parser_env \<Rightarrow> pcalls \<Rightarrow> item list \<Rightarrow> item list parser" where
  "parse_item_or_recover E P items = pbind (pattempt (parse_item E P)) (\<lambda>r. case r of
     Inr item \<Rightarrow> preturn (items @ [item])
   | Inl d \<Rightarrow> pthen (push_error d) (pthen synchronize_to_item (preturn items)))"

definition parse_items :: "parser_env \<Rightarrow> pcalls \<Rightarrow> item list parser" where
  "parse_items E P = pthen skip_newlines (ploop (\<lambda>items.
     pbind (pget (pcheck TEof)) (\<lambda>eof.
     if eof then preturn (Inr items)
     else pbind (pget (pcheck TDedent)) (\<lambda>dedent.
     if dedent then pthen close_block (preturn (Inl items))
     else pbind (parse_item_or_recover E P items) (\<lambda>items. pthen skip_newlines (preturn (Inl items)))))) [])"

subsection \<open>Entry points\<close>

text \<open>All the errors of a run, the one found by the layout first.\<close>

definition all_errors :: "pstate \<Rightarrow> diagnostic list" where
  "all_errors s = (case ps_pending_error s of Some e \<Rightarrow> e # ps_errors s | None \<Rightarrow> ps_errors s)"

definition run_items :: "parser_env \<Rightarrow> token list \<Rightarrow> nat \<Rightarrow> ((diagnostic, item list) outcome \<times> pstate) option" where
  "run_items E tokens source_len = parse_items E (parse_run E) (parser_new tokens source_len)"

definition parse :: "parser_env \<Rightarrow> token list \<Rightarrow> nat \<Rightarrow> (diagnostic, program) outcome option" where
  "parse E tokens source_len = (case run_items E tokens source_len of
     None \<Rightarrow> None
   | Some (r, s) \<Rightarrow> Some (case r of
       Ok items \<Rightarrow> (case all_errors s of
           [] \<Rightarrow> Ok (program_new items (span_new 0 source_len))
         | e # _ \<Rightarrow> Err e)
     | Err e \<Rightarrow> Err e
     | Panic \<Rightarrow> Panic))"

text \<open>
  The recovering entry point has a loop of its own: it is stated on its own as well.
\<close>

definition recovery_items :: "parser_env \<Rightarrow> pcalls \<Rightarrow> item list parser" where
  "recovery_items E P = pthen skip_newlines (ploop (\<lambda>items.
     pbind (pget (pcheck TEof)) (\<lambda>eof.
     if eof then preturn (Inr items)
     else pbind (pget (pcheck TDedent)) (\<lambda>dedent.
     if dedent then
       pbind (pget current_span) (\<lambda>span. pthen (leave_layout_block span) (pthen padvance (preturn (Inl items))))
     else pbind (pattempt (parse_item E P)) (\<lambda>r.
       pbind (case r of
           Inr item \<Rightarrow> preturn (items @ [item])
         | Inl d \<Rightarrow> pthen (push_error d) (pthen synchronize_to_item (preturn items)))
         (\<lambda>items. pthen skip_newlines (preturn (Inl items))))))) [])"

definition parse_with_recovery ::
  "parser_env \<Rightarrow> token list \<Rightarrow> nat \<Rightarrow> (diagnostic, program \<times> diagnostic list) outcome option" where
  "parse_with_recovery E tokens source_len =
     (case recovery_items E (parse_run E) (parser_new tokens source_len) of
       None \<Rightarrow> None
     | Some (r, s) \<Rightarrow> Some (case r of
         Ok items \<Rightarrow> (let program = program_new items (span_new 0 source_len);
             errors = (case ps_pending_error s of Some e \<Rightarrow> e # ps_errors s | None \<Rightarrow> ps_errors s)
           in Ok (program, errors))
       | Err e \<Rightarrow> Err e
       | Panic \<Rightarrow> Panic))"

definition parse_source :: "parser_env \<Rightarrow> rstr \<Rightarrow> (diagnostic, program) outcome option" where
  "parse_source E source = (case lex (pe_parse_f64 E) source of
     Ok tokens \<Rightarrow> parse E tokens (utf8_len source)
   | Err e \<Rightarrow> Some (Err e)
   | Panic \<Rightarrow> Some Panic)"

end
