(* ===== verification/Parser_Runs.thy ===== *)
theory Parser_Runs
  imports Parser_Top
begin

text \<open>
  Termination of the parser, the method. \<open>runs T K lo hi f\<close> says that the parser \<open>f\<close> returns from every
  position \<open>lo\<close> or later of the tokens \<open>T\<close> that satisfies \<open>K\<close>, without a panic, within the tokens, and at
  \<open>hi\<close> or later after a success. The rules below prove it along the structure of a parser; the calls
  that go back are covered by \<open>rec_ok\<close>: they return at every position after the present one, and on the
  sources inside the templates.
\<close>

subsection \<open>Token lists the lexer gives\<close>

definition kind_of :: "token list \<Rightarrow> nat \<Rightarrow> token_kind option" where
  "kind_of T i = (if i < length T then Some (t_kind (T ! i)) else None)"

definition toks_ok :: "token list \<Rightarrow> bool" where
  "toks_ok T \<longleftrightarrow> T \<noteq> [] \<and> (\<forall>i. kind_of T i = Some TEof \<longleftrightarrow> Suc i = length T) \<and>
     (\<forall>i. kind_of T (Suc i) = Some TEof \<longrightarrow> kind_of T i = Some TNewline \<or> kind_of T i = Some TDedent)"

definition okst :: "token list \<Rightarrow> pstate \<Rightarrow> bool" where
  "okst T s \<longleftrightarrow> toks_ok T \<and> ps_tokens s = T \<and> ps_index s < length T"

lemma okst_kind:
  assumes "okst T s"
  shows "kind_at n s = kind_of T (ps_index s + n)" "pcheck k s \<longleftrightarrow> kind_of T (ps_index s) = Some k"
    "kind_of T (ps_index s) = Some (peek_kind s)" "peek_next_kind s = kind_of T (Suc (ps_index s))"
    "check_ahead n k s \<longleftrightarrow> kind_of T (ps_index s + n) = Some k"
  using assms by (auto simp: okst_def kind_at_def token_at_def kind_of_def pcheck_def peek_kind_def
      peek_next_kind_def check_ahead_def)

subsection \<open>Runs that return\<close>

text \<open>
  From a state at a token that satisfies \<open>K\<close>, at \<open>lo\<close> or after it, the parser returns, does not panic,
  stays within the tokens and does not go back; after a success it is at \<open>hi\<close> or after it.
\<close>

definition runs :: "token list \<Rightarrow> (nat \<Rightarrow> bool) \<Rightarrow> nat \<Rightarrow> ('a \<Rightarrow> nat) \<Rightarrow> 'a parser \<Rightarrow> bool" where
  "runs T K lo hi f \<longleftrightarrow> (\<forall>s. okst T s \<longrightarrow> K (ps_index s) \<longrightarrow> lo \<le> ps_index s \<longrightarrow>
     (\<exists>r s'. f s = Some (r, s') \<and> okst T s' \<and> ps_index s \<le> ps_index s' \<and> r \<noteq> Panic \<and>
        (\<forall>x. r = Ok x \<longrightarrow> hi x \<le> ps_index s')))"

lemma runsI:
  assumes "\<And>s. okst T s \<Longrightarrow> K (ps_index s) \<Longrightarrow> lo \<le> ps_index s \<Longrightarrow>
     \<exists>r s'. f s = Some (r, s') \<and> okst T s' \<and> ps_index s \<le> ps_index s' \<and> r \<noteq> Panic \<and>
        (\<forall>x. r = Ok x \<longrightarrow> hi x \<le> ps_index s')"
  shows "runs T K lo hi f"
  using assms by (simp add: runs_def)

lemma runsE:
  assumes "runs T K lo hi f" "okst T s" "K (ps_index s)" "lo \<le> ps_index s"
  obtains r s' where "f s = Some (r, s')" "okst T s'" "ps_index s \<le> ps_index s'" "r \<noteq> Panic"
    "\<And>x. r = Ok x \<Longrightarrow> hi x \<le> ps_index s'"
  using assms unfolding runs_def by blast

lemma runs_weaken:
  assumes "runs T K lo hi f" "\<And>i. K' i \<Longrightarrow> K i" "lo \<le> lo'" "\<And>x. hi' x \<le> hi x"
  shows "runs T K' lo' hi' f"
proof (rule runsI)
  fix s assume s: "okst T s" "K' (ps_index s)" "lo' \<le> ps_index s"
  obtain r s' where "f s = Some (r, s')" "okst T s'" "ps_index s \<le> ps_index s'" "r \<noteq> Panic"
    "\<And>x. r = Ok x \<Longrightarrow> hi x \<le> ps_index s'"
    by (rule runsE [OF assms(1) s(1) assms(2) [OF s(2)]]) (use s(3) assms(3) in auto)
  then show "\<exists>r s'. f s = Some (r, s') \<and> okst T s' \<and> ps_index s \<le> ps_index s' \<and> r \<noteq> Panic \<and>
      (\<forall>x. r = Ok x \<longrightarrow> hi' x \<le> ps_index s')"
    using assms(4) order_trans by blast
qed

abbreviation anywhere :: "nat \<Rightarrow> bool" where "anywhere \<equiv> \<lambda>_. True"

named_theorems runs

lemma runs_preturn [runs]: "hi x \<le> lo \<Longrightarrow> runs T K lo hi (preturn x)"
  by (rule runsI) (auto simp: preturn_def)

lemma runs_pfail [runs]: "runs T K lo hi (pfail e)"
  by (rule runsI) (auto simp: pfail_def)

lemma runs_perr [runs]: "runs T K lo hi (perr m)" "runs T K lo hi (perr_rs m')"
  by (rule runsI; auto simp: perr_def perr_rs_def pbind_def pget_def pfail_def)+

lemma runs_pbind:
  assumes "runs T K lo mid A" "\<And>x. runs T anywhere (mid x) hi (B x)"
  shows "runs T K lo hi (pbind A B)"
proof (rule runsI)
  fix s assume s: "okst T s" "K (ps_index s)" "lo \<le> ps_index s"
  obtain r s' where A: "A s = Some (r, s')" "okst T s'" "ps_index s \<le> ps_index s'" "r \<noteq> Panic"
    "\<And>x. r = Ok x \<Longrightarrow> mid x \<le> ps_index s'"
    by (rule runsE [OF assms(1) s]) blast
  show "\<exists>r s'. pbind A B s = Some (r, s') \<and> okst T s' \<and> ps_index s \<le> ps_index s' \<and> r \<noteq> Panic \<and>
      (\<forall>x. r = Ok x \<longrightarrow> hi x \<le> ps_index s')"
  proof (cases r)
    case (Ok x)
    obtain r2 s2 where "B x s' = Some (r2, s2)" "okst T s2" "ps_index s' \<le> ps_index s2" "r2 \<noteq> Panic"
      "\<And>x. r2 = Ok x \<Longrightarrow> hi x \<le> ps_index s2"
      by (rule runsE [OF assms(2) [of x] A(2) TrueI A(5) [OF Ok]]) blast
    with A Ok show ?thesis by (auto simp: pbind_def)
  qed (use A in \<open>auto simp: pbind_def\<close>)
qed

text \<open>What a test says about the next token is known after it.\<close>

lemma runs_pget:
  assumes "\<And>x. runs T (\<lambda>i. K i \<and> (\<exists>s. okst T s \<and> ps_index s = i \<and> h s = x)) lo hi (B x)"
  shows "runs T K lo hi (pbind (pget h) B)"
proof (rule runsI)
  fix s assume s: "okst T s" "K (ps_index s)" "lo \<le> ps_index s"
  obtain r s' where "B (h s) s = Some (r, s')" "okst T s'" "ps_index s \<le> ps_index s'" "r \<noteq> Panic"
    "\<And>x. r = Ok x \<Longrightarrow> hi x \<le> ps_index s'"
    by (rule runsE [OF assms [of "h s"] s(1) _ s(3)]) (use s in auto)
  then show "\<exists>r s'. pbind (pget h) B s = Some (r, s') \<and> okst T s' \<and> ps_index s \<le> ps_index s' \<and> r \<noteq> Panic \<and>
      (\<forall>x. r = Ok x \<longrightarrow> hi x \<le> ps_index s')"
    by (auto simp: pbind_def pget_def)
qed

text \<open>Commands that keep the position.\<close>

definition still :: "'a parser \<Rightarrow> bool" where
  "still f \<longleftrightarrow> (\<forall>s. \<exists>x s'. f s = Some (Ok x, s') \<and> ps_tokens s' = ps_tokens s \<and> ps_index s' = ps_index s)"

lemma runs_still:
  assumes "still A" "\<And>x. runs T K lo hi (B x)"
  shows "runs T K lo hi (pbind A B)"
proof (rule runsI)
  fix s assume s: "okst T s" "K (ps_index s)" "lo \<le> ps_index s"
  obtain x s1 where A: "A s = Some (Ok x, s1)" "ps_tokens s1 = ps_tokens s" "ps_index s1 = ps_index s"
    using assms(1) unfolding still_def by blast
  then have s1: "okst T s1" "K (ps_index s1)" "lo \<le> ps_index s1" using s by (auto simp: okst_def)
  obtain r s' where "B x s1 = Some (r, s')" "okst T s'" "ps_index s1 \<le> ps_index s'" "r \<noteq> Panic"
    "\<And>x. r = Ok x \<Longrightarrow> hi x \<le> ps_index s'"
    by (rule runsE [OF assms(2) s1]) blast
  with A show "\<exists>r s'. pbind A B s = Some (r, s') \<and> okst T s' \<and> ps_index s \<le> ps_index s' \<and> r \<noteq> Panic \<and>
      (\<forall>x. r = Ok x \<longrightarrow> hi x \<le> ps_index s')"
    by (auto simp: pbind_def)
qed

lemma still_intros:
  "still (pmodify (\<lambda>s. if ps_pending_error s = None then s\<lparr> ps_pending_error := Some d \<rparr> else s))"
  "still (record_error d)" "still (push_error d)" "still enter_layout_block" "still (report_unexpected_dedent sp)"
  "still (leave_layout_block sp)"
  by (auto simp: still_def record_error_def push_error_def enter_layout_block_def leave_layout_block_def
      report_unexpected_dedent_def pmodify_def pbind_def pget_def)

text \<open>One token forward; what was known of the tokens ahead stays known.\<close>

lemma runs_padvance:
  assumes "\<And>i. toks_ok T \<Longrightarrow> K i \<Longrightarrow> kind_of T i \<noteq> Some TEof"
    "\<And>t. runs T (\<lambda>i. \<exists>j. i = Suc j \<and> K j \<and> T ! j = t \<and> j < length T) (Suc lo) hi (B t)"
  shows "runs T K lo hi (pbind padvance B)"
proof (rule runsI)
  fix s assume s: "okst T s" "K (ps_index s)" "lo \<le> ps_index s"
  let ?s = "s\<lparr> ps_index := Suc (ps_index s) \<rparr>" and ?t = "T ! ps_index s"
  have "kind_of T (ps_index s) \<noteq> Some TEof" using assms(1) [OF _ s(2)] s(1) by (simp add: okst_def)
  then have "Suc (ps_index s) \<noteq> length T" using s(1) unfolding okst_def toks_ok_def by blast
  then have s1: "okst T ?s" "Suc lo \<le> ps_index ?s" using s by (auto simp: okst_def)
  obtain r s' where "B ?t ?s = Some (r, s')" "okst T s'" "ps_index ?s \<le> ps_index s'" "r \<noteq> Panic"
    "\<And>x. r = Ok x \<Longrightarrow> hi x \<le> ps_index s'"
    by (rule runsE [OF assms(2) s1(1) _ s1(2)]) (use s in \<open>auto simp: okst_def\<close>)
  moreover have "padvance s = Some (Ok ?t, ?s)" using s by (simp add: padvance_def token_at_def okst_def)
  ultimately show "\<exists>r s'. pbind padvance B s = Some (r, s') \<and> okst T s' \<and> ps_index s \<le> ps_index s' \<and> r \<noteq> Panic \<and>
      (\<forall>x. r = Ok x \<longrightarrow> hi x \<le> ps_index s')"
    by (auto simp: pbind_def)
qed

lemma runs_ploop:
  assumes "\<And>a l. lo \<le> l \<Longrightarrow> runs T anywhere l (case_sum (\<lambda>_. Suc l) (\<lambda>_. l + n)) (body a)"
  shows "runs T K lo (\<lambda>_. lo + n) (ploop body a)"
proof (rule runsI)
  fix s assume s: "okst T s" "lo \<le> ps_index s"
  then show "\<exists>r s'. ploop body a s = Some (r, s') \<and> okst T s' \<and> ps_index s \<le> ps_index s' \<and> r \<noteq> Panic \<and>
      (\<forall>x. r = Ok x \<longrightarrow> lo + n \<le> ps_index s')"
  proof (induction "length T - ps_index s" arbitrary: a s rule: less_induct)
    case less
    obtain r s' where b: "body a s = Some (r, s')" "okst T s'" "ps_index s \<le> ps_index s'" "r \<noteq> Panic"
      "\<And>x. r = Ok x \<Longrightarrow> case_sum (\<lambda>_. Suc (ps_index s)) (\<lambda>_. ps_index s + n) x \<le> ps_index s'"
      by (rule runsE [OF assms [OF less(3)] less(2) TrueI order_refl]) blast
    show ?case
    proof (cases "\<exists>a'. r = Ok (Inl a')")
      case True
      then obtain a' where r: "r = Ok (Inl a')" ..
      then have "ps_index s < ps_index s'" using b(5) by fastforce
      moreover from this have "length T - ps_index s' < length T - ps_index s" using b(2) by (auto simp: okst_def)
      ultimately obtain r2 s2 where "ploop body a' s' = Some (r2, s2)" "okst T s2" "ps_index s' \<le> ps_index s2"
        "r2 \<noteq> Panic" "\<forall>x. r2 = Ok x \<longrightarrow> lo + n \<le> ps_index s2"
        using less(1) [of s' a'] less(3) b(2) by auto
      then show ?thesis using b(1,3) r by (subst ploop.simps) auto
    next
      case False
      show ?thesis
      proof (cases r)
        case (Ok x)
        then obtain y where "x = Inr y" using False by (cases x) auto
        then show ?thesis using b Ok less(3) by (subst ploop.simps) fastforce
      qed (use b in \<open>subst ploop.simps; auto\<close>)+
    qed
  qed
qed

subsection \<open>Rules for the elementary operations\<close>

lemma runs_loop [runs]:
  assumes "\<And>x. hi x \<le> lo" "\<And>a l. lo \<le> l \<Longrightarrow> runs T anywhere l (case_sum (\<lambda>_. Suc l) (\<lambda>_. l)) (body a)"
  shows "runs T K lo hi (ploop body a)"
  using runs_ploop [where n = 0, OF _, of lo T body K a] assms
  by (auto intro: runs_weaken)

lemma runs_if [runs]:
  "(b \<Longrightarrow> runs T K lo hi A) \<Longrightarrow> (\<not> b \<Longrightarrow> runs T K lo hi B) \<Longrightarrow> runs T K lo hi (if b then A else B)"
  by simp

lemma runs_let [runs]: "(\<And>x. x = v \<Longrightarrow> runs T K lo hi (B x)) \<Longrightarrow> runs T K lo hi (Let v B)"
  by simp

lemma runs_option [runs]:
  "(v = None \<Longrightarrow> runs T K lo hi A) \<Longrightarrow> (\<And>x. v = Some x \<Longrightarrow> runs T K lo hi (B x)) \<Longrightarrow>
   runs T K lo hi (case v of None \<Rightarrow> A | Some x \<Rightarrow> B x)"
  by (cases v) simp_all

lemma runs_prod [runs]:
  "(\<And>x y. v = (x, y) \<Longrightarrow> runs T K lo hi (B x y)) \<Longrightarrow> runs T K lo hi (case_prod B v)"
  by (cases v) simp

lemma runs_token_kind [runs]:
  assumes "\<And>n. t = TIdentifier n \<Longrightarrow> runs T K lo hi (a n)" "\<And>n. t = TInteger n \<Longrightarrow> runs T K lo hi (b n)"
    "\<And>n. t = TFloat n \<Longrightarrow> runs T K lo hi (c n)" "\<And>n. t = TString n \<Longrightarrow> runs T K lo hi (d n)"
    "\<And>n. t = TBytes n \<Longrightarrow> runs T K lo hi (e n)" "\<And>n. t = TTemplateString n \<Longrightarrow> runs T K lo hi (f n)"
    "\<And>n. t = TKeyword n \<Longrightarrow> runs T K lo hi (g n)" "\<And>n. t = TPlaceholder n \<Longrightarrow> runs T K lo hi (h n)"
    "\<And>n. t = TSymbol n \<Longrightarrow> runs T K lo hi (i n)" "t = TNewline \<Longrightarrow> runs T K lo hi j"
    "t = TIndent \<Longrightarrow> runs T K lo hi k" "t = TDedent \<Longrightarrow> runs T K lo hi l" "t = TEof \<Longrightarrow> runs T K lo hi m"
  shows "runs T K lo hi (case_token_kind a b c d e f g h i j k l m t)"
  using assms by (cases t) simp_all

lemma runs_check:
  assumes "\<And>b. runs T (\<lambda>i. K i \<and> (kind_of T i = Some k) = b) lo hi (B b)"
  shows "runs T K lo hi (pbind (pget (pcheck k)) B)"
  by (rule runs_pget, rule runs_weaken [OF assms]) (auto simp: okst_kind)

lemma runs_peek:
  assumes "\<And>k. runs T (\<lambda>i. K i \<and> kind_of T i = Some k) lo hi (B k)"
  shows "runs T K lo hi (pbind (pget peek_kind) B)"
  by (rule runs_pget, rule runs_weaken [OF assms]) (auto simp: okst_kind)

lemma runs_pmatches:
  assumes "k \<noteq> TEof" "runs T (\<lambda>i. \<exists>j. i = Suc j \<and> K j \<and> kind_of T j = Some k) (Suc lo) hi (B True)"
    "runs T (\<lambda>i. K i \<and> kind_of T i \<noteq> Some k) lo hi (B False)"
  shows "runs T K lo hi (pbind (pmatches k) B)"
proof -
  have eq: "pbind (pmatches k) B = pbind (pget (pcheck k)) (\<lambda>b. if b then pbind padvance (\<lambda>t. B True) else B False)"
    by (rule ext) (simp add: pmatches_def pbind_def pget_def preturn_def padvance_def)
  show ?thesis
    unfolding eq using assms
    by (intro runs_check runs_if runs_padvance) (auto elim!: runs_weaken)
qed

lemma runs_pmatches_only [runs]: "k \<noteq> TEof \<Longrightarrow> (\<And>x. hi x \<le> lo) \<Longrightarrow> runs T K lo hi (pmatches k)"
  unfolding pmatches_def by (intro runs_check runs_if runs_padvance runs_preturn) (auto intro: le_SucI)

lemma runs_padvance_only:
  assumes "\<And>i. toks_ok T \<Longrightarrow> K i \<Longrightarrow> kind_of T i \<noteq> Some TEof" "\<And>x. hi x \<le> Suc lo"
  shows "runs T K lo hi padvance"
proof -
  have eq: "padvance = pbind padvance preturn"
    by (rule ext) (simp add: pbind_def padvance_def preturn_def)
  show ?thesis by (subst eq) (intro runs_padvance runs_preturn assms)
qed

lemma runs_pexpect [runs]: "k \<noteq> TEof \<Longrightarrow> (\<And>x. hi x \<le> Suc lo) \<Longrightarrow> runs T K lo hi (pexpect k m)"
  unfolding pexpect_def by (intro runs_check runs_if runs_padvance_only runs) auto

lemma runs_pget_only [runs]: "(\<And>x. hi x \<le> lo) \<Longrightarrow> runs T K lo hi (pget h)"
  by (rule runsI) (auto simp: pget_def intro: order_trans)

lemma runs_still_only: "still A \<Longrightarrow> (\<And>x. hi x \<le> lo) \<Longrightarrow> runs T K lo hi A"
proof -
  have eq: "A = pbind A preturn"
    by (rule ext) (auto simp: pbind_def preturn_def split: option.split outcome.split prod.split)
  show "still A \<Longrightarrow> (\<And>x. hi x \<le> lo) \<Longrightarrow> runs T K lo hi A"
    by (subst eq) (intro runs_still runs_preturn)
qed

lemma runs_pget_any:
  assumes "\<And>x. runs T K lo hi (B x)"
  shows "runs T K lo hi (pbind (pget h) B)"
  by (rule runs_pget, rule runs_weaken [OF assms]; simp)

lemmas runs_pget_same = runs_pget_any [of T K lo hi _ current_span] runs_pget_any [of T K lo hi _ previous_span]
  runs_pget_any [of T K lo hi _ ps_layout_depth] runs_pget_any [of T K lo hi _ ps_pending_error] for T K lo hi

lemma still_pmodify: "(\<And>s. ps_tokens (h s) = ps_tokens s \<and> ps_index (h s) = ps_index s) \<Longrightarrow> still (pmodify h)"
  by (simp add: still_def pmodify_def)

lemmas runs_stills = still_intros [THEN runs_still] still_intros [THEN runs_still_only]
  still_pmodify [THEN runs_still] still_pmodify [THEN runs_still_only]

text \<open>An expected token, or an identifier: what was known before holds one position back.\<close>

lemma runs_pexpect_known:
  assumes "k \<noteq> TEof" "\<And>t. runs T (\<lambda>i. \<exists>j. i = Suc j \<and> K j \<and> kind_of T j = Some k) (Suc lo) hi (B t)"
  shows "runs T K lo hi (pbind (pexpect k m) B)"
proof -
  have eq: "pbind (pexpect k m) B = pbind (pget (pcheck k)) (\<lambda>b. if b then pbind padvance B else perr m)"
    by (rule ext) (simp add: pexpect_def pbind_def pget_def perr_def perr_rs_def pfail_def)
  show ?thesis
    unfolding eq using assms(1)
    by (intro runs_check runs_if runs_padvance runs) (auto intro!: runs_weaken [OF assms(2)])
qed

lemma runs_consume_identifier_known:
  assumes "\<And>x. runs T (\<lambda>i. \<exists>j. i = Suc j \<and> K j) (Suc lo) hi (B x)"
  shows "runs T K lo hi (pbind consume_identifier B)"
proof -
  have eq: "pbind consume_identifier B = pbind (pget peek_kind) (\<lambda>k. case k of
     TIdentifier name \<Rightarrow> pbind padvance (\<lambda>t. B (name, t_span t))
   | _ \<Rightarrow> perr ''expected identifier'')"
    by (rule ext) (simp add: consume_identifier_def pbind_def pget_def preturn_def padvance_def perr_def
        perr_rs_def pfail_def split: token_kind.split)
  show ?thesis
    unfolding eq by (intro runs_peek runs_token_kind runs_padvance runs) (auto intro!: runs_weaken [OF assms])
qed

lemma runs_consume_identifier_or_keyword_known:
  assumes "\<And>x. runs T (\<lambda>i. \<exists>j. i = Suc j \<and> K j) (Suc lo) hi (B x)"
  shows "runs T K lo hi (pbind consume_identifier_or_keyword B)"
proof -
  have eq: "pbind consume_identifier_or_keyword B = pbind (pget peek_kind) (\<lambda>k. pbind (pget current_span) (\<lambda>s.
     case k of
       TIdentifier name \<Rightarrow> pbind padvance (\<lambda>_. B (name, s))
     | TKeyword w \<Rightarrow> (case keyword_name w of
           Some name \<Rightarrow> pbind padvance (\<lambda>_. B (rs name, s))
         | None \<Rightarrow> perr ''expected identifier'')
     | _ \<Rightarrow> perr ''expected identifier''))"
    by (rule ext) (simp add: consume_identifier_or_keyword_def pbind_def pget_def preturn_def padvance_def perr_def
        perr_rs_def pfail_def split: token_kind.split option.split)
  show ?thesis
    unfolding eq
    by (intro runs_peek runs_pget_any runs_token_kind runs_option runs_padvance runs) (auto intro!: runs_weaken [OF assms])
qed

lemma toks_ok_next:
  "toks_ok T \<Longrightarrow> kind_of T j = Some k \<Longrightarrow> k \<noteq> TNewline \<Longrightarrow> k \<noteq> TDedent \<Longrightarrow> kind_of T (Suc j) \<noteq> Some TEof"
  unfolding toks_ok_def by fastforce

lemmas runs_known = runs_pexpect_known runs_consume_identifier_known runs_consume_identifier_or_keyword_known
  runs_check runs_peek runs_pmatches runs_padvance runs_pget_same runs_stills

lemma runs_skip_newlines [runs]: "(\<And>x. hi x \<le> lo) \<Longrightarrow> runs T K lo hi skip_newlines"
  unfolding skip_newlines_def pwhile_def
  by (rule runs_known runs | rule runs_pbind | rule order_refl | simp)+

lemma runs_recover [runs]: "(\<And>x. hi x \<le> lo) \<Longrightarrow> runs T K lo hi recover_to_layout_boundary"
  unfolding recover_to_layout_boundary_def
  by (rule runs_known runs | rule runs_pbind | rule order_refl | (simp; fail) | fastforce)+

lemma runs_report_missing_dedent [runs]: "(\<And>x. hi x \<le> lo) \<Longrightarrow> runs T K lo hi (report_missing_dedent sp m)"
  unfolding report_missing_dedent_def
  by (rule runs_known runs | rule runs_pbind | rule order_refl | (simp; fail))+

lemma runs_consume_indent [runs]: "(\<And>x. hi x \<le> lo) \<Longrightarrow> runs T K lo hi (consume_indent_with_recovery m h)"
  unfolding consume_indent_with_recovery_def
  by (rule runs_known runs | rule runs_pbind | rule order_refl | (simp add: le_SucI; fail))+

lemma runs_close_block:
  assumes "\<And>i. toks_ok T \<Longrightarrow> K i \<Longrightarrow> kind_of T i = Some TDedent" "\<And>x. hi x \<le> Suc lo"
  shows "runs T K lo hi close_block"
  unfolding close_block_def
  by (rule runs_known runs | rule runs_pbind | rule order_refl | (simp add: assms le_SucI; fail))+

lemma runs_consume_identifier [runs]: "(\<And>x. hi x \<le> Suc lo) \<Longrightarrow> runs T K lo hi consume_identifier"
  unfolding consume_identifier_def
  by (rule runs_known runs | rule runs_pbind | rule order_refl | (simp; fail))+

lemma runs_consume_identifier_or_keyword [runs]:
  "(\<And>x. hi x \<le> Suc lo) \<Longrightarrow> runs T K lo hi consume_identifier_or_keyword"
  unfolding consume_identifier_or_keyword_def
  by (rule runs_known runs | rule runs_pbind | rule order_refl | (simp; fail))+

lemma runs_consume_type_identifier [runs]:
  "(\<And>x. hi x \<le> Suc lo) \<Longrightarrow> runs T K lo hi consume_type_identifier"
  unfolding consume_type_identifier_def
  by (rule runs_known runs | rule runs_pbind | rule order_refl | (simp; fail))+

subsection \<open>Calls that go back\<close>

definition frags_of :: "token list \<Rightarrow> rstr set" where
  "frags_of T = {source. \<exists>t \<in> set T. \<exists>fs span. t_kind t = TTemplateString fs \<and> FragExpr source span \<in> set fs}"

definition needs_token :: "pcall \<Rightarrow> bool" where
  "needs_token c \<longleftrightarrow> c \<in> {CTaxonomy, CErrorDefinition}"

definition rec_ok :: "parser_env \<Rightarrow> token list \<Rightarrow> nat \<Rightarrow> pcalls \<Rightarrow> bool" where
  "rec_ok E T i P \<longleftrightarrow>
     (\<forall>c lo. i < lo \<longrightarrow> runs T (\<lambda>i. needs_token c \<longrightarrow> kind_of T i \<noteq> Some TEof) lo (\<lambda>_. if c = CBlock then lo else Suc lo) (P c)) \<and>
     (\<forall>source tokens offset. source \<in> frags_of T \<longrightarrow> lex (pe_parse_f64 E) source = Ok tokens \<longrightarrow>
        runs (shift_tokens offset tokens) anywhere 0 (\<lambda>_. 0) (P CExpression))"

lemma rec_okD:
  assumes "rec_ok E T i P" "i < lo"
  shows "runs T (\<lambda>i. needs_token c \<longrightarrow> kind_of T i \<noteq> Some TEof) lo (\<lambda>_. if c = CBlock then lo else Suc lo) (P c)"
  using assms unfolding rec_ok_def by blast

lemma runs_pcall_as:
  assumes "rec_ok E T i P" "i < lo" "c \<noteq> CBlock" "\<And>x. hi x \<le> Suc lo"
    "\<And>i. K i \<Longrightarrow> toks_ok T \<Longrightarrow> needs_token c \<Longrightarrow> kind_of T i \<noteq> Some TEof"
  shows "runs T K lo hi (pcall_as un c P)"
proof -
  have "runs T (\<lambda>i. needs_token c \<longrightarrow> kind_of T i \<noteq> Some TEof) lo (\<lambda>_. Suc lo) (P c)"
    using rec_okD [OF assms(1,2), of c] assms(3) by simp
  then have "runs T K lo (\<lambda>_. Suc lo) (P c)"
    using assms(5) unfolding runs_def okst_def by blast
  then show ?thesis unfolding pcall_as_def by (rule runs_pbind) (rule runs_preturn, rule assms)
qed

lemma runs_pcall_as_block:
  assumes "rec_ok E T i P" "i < lo" "\<And>x. hi x \<le> lo"
  shows "runs T K lo hi (pcall_as un CBlock P)"
proof -
  have "runs T anywhere lo (\<lambda>_. lo) (P CBlock)" using rec_okD [OF assms(1,2), of CBlock] by (simp add: needs_token_def)
  then have "runs T K lo (\<lambda>_. lo) (P CBlock)" by (rule runs_weaken) simp_all
  then show ?thesis unfolding pcall_as_def by (rule runs_pbind) (rule runs_preturn, rule assms)
qed

lemma runs_poption:
  assumes "k \<noteq> TEof" "runs T anywhere (Suc lo) (\<lambda>_. lo) p" "\<And>x. hi x \<le> lo"
  shows "runs T K lo hi (poption k p)"
  unfolding poption_def
  by (rule runs_known runs assms runs_weaken [OF assms(2)] | rule runs_pbind | rule order_refl | (simp add: assms; fail))+

lemma kind_ofI [intro]: "T ! j = t \<Longrightarrow> j < length T \<Longrightarrow> kind_of T j = Some (t_kind t)"
  by (simp add: kind_of_def)

lemma runs_pbind_if:
  "(b \<Longrightarrow> runs T K lo hi (pbind A C)) \<Longrightarrow> (\<not> b \<Longrightarrow> runs T K lo hi (pbind B C)) \<Longrightarrow>
   runs T K lo hi (pbind (if b then A else B) C)"
  by simp

lemma runs_assoc: "runs T K lo hi (pbind A (\<lambda>x. pbind (B x) C)) \<Longrightarrow> runs T K lo hi (pbind (pbind A B) C)"
proof -
  have "pbind (pbind A B) C = pbind A (\<lambda>x. pbind (B x) C)"
    by (rule ext) (auto simp: pbind_def split: option.split outcome.split)
  then show "runs T K lo hi (pbind A (\<lambda>x. pbind (B x) C)) \<Longrightarrow> runs T K lo hi (pbind (pbind A B) C)" by simp
qed

lemma runs_pbind_return: "runs T K lo hi (B x) \<Longrightarrow> runs T K lo hi (pbind (preturn x) B)"
  by (simp add: runs_def pbind_def preturn_def)

lemma runs_pwhile [runs]:
  assumes "\<And>x. hi x \<le> lo"
    "\<And>a l. lo \<le> l \<Longrightarrow> runs T (\<lambda>i. \<exists>s. okst T s \<and> ps_index s = i \<and> test s) l (\<lambda>_. Suc l) (body a)"
  shows "runs T K lo hi (pwhile test body a)"
  unfolding pwhile_def
proof (rule runs_loop [OF assms(1)], rule runs_pget, rule runs_if)
  fix a l b
  assume "lo \<le> l" b
  then show "runs T (\<lambda>i. True \<and> (\<exists>s. okst T s \<and> ps_index s = i \<and> test s = b)) l (case_sum (\<lambda>_. Suc l) (\<lambda>_. l))
      (pbind (body a) (\<lambda>a'. preturn (Inl a')))"
    by (intro runs_pbind [OF runs_weaken [OF assms(2) [OF \<open>lo \<le> l\<close>, of a], where hi' = "\<lambda>_. Suc l"]] runs_preturn) auto
qed (rule runs_preturn, simp)

text \<open>
  The rules in the order in which they are tried: what keeps knowledge of the next tokens, the lemmas of
  the component (\<open>runs\<close>), the calls that go back, and what forgets.
\<close>

lemmas runs_steps = runs_poption runs_close_block runs_pbind_if runs_assoc runs_pbind_return runs_known
lemmas runs_calls = runs_pcall_as runs_pcall_as_block
lemmas runs_last = runs_pget runs_pbind order_refl
lemmas runs_facts = le_SucI toks_ok_next okst_kind needs_token_def

end
