(* ===== verification/Lexer_Fragments.thy ===== *)
theory Lexer_Fragments
  imports Parser_Runs
begin

text \<open>
  What the parser needs of the lexer: it does not panic, the expressions inside a template are shorter
  than the source, and the tokens end with a newline, dedents and the end of the file.
\<close>

subsection \<open>The lexer does not panic\<close>

lemma no_panic_errors [simp]: "lex_err m a b \<noteq> Panic" "lex_err_help m a b h \<noteq> Panic" "unknown_escape p c h2 \<noteq> Panic"
  by (simp_all add: lex_err_def lex_err_help_def unknown_escape_def)

lemma lex_radix_no_panic: "lex_radix r d n start pos s \<noteq> Panic"
  by (simp add: lex_radix_def Let_def)

lemma lex_decimal_no_panic: "lex_decimal f start c s \<noteq> Panic"
  by (auto simp: lex_decimal_def Let_def split: prod.split option.split)

lemma lex_number_no_panic: "lex_number f start c s \<noteq> Panic"
  by (auto simp: lex_number_def lex_radix_no_panic lex_decimal_no_panic split: list.split)

lemma lex_bytes_no_panic: "lex_bytes start pos acc s \<noteq> Panic"
  by (induction start pos acc s rule: lex_bytes.induct) (auto split: list.split option.split)

lemma if_no_panic: "(b \<Longrightarrow> x \<noteq> Panic) \<Longrightarrow> (\<not> b \<Longrightarrow> y \<noteq> Panic) \<Longrightarrow> (if b then x else y) \<noteq> Panic"
  by simp

lemma list_no_panic: "x \<noteq> Panic \<Longrightarrow> (\<And>v vs. l = v # vs \<Longrightarrow> h v vs \<noteq> Panic) \<Longrightarrow> (case l of [] \<Rightarrow> x | v # vs \<Rightarrow> h v vs) \<noteq> Panic"
  by (cases l) simp_all

lemma option_no_panic: "(o1 = None \<Longrightarrow> x \<noteq> Panic) \<Longrightarrow> (\<And>v. o1 = Some v \<Longrightarrow> h v \<noteq> Panic) \<Longrightarrow> (case o1 of None \<Rightarrow> x | Some v \<Rightarrow> h v) \<noteq> Panic"
  by (cases o1) simp_all

lemma outcome_no_panic: "(\<And>v. r = Ok v \<Longrightarrow> h v \<noteq> Panic) \<Longrightarrow> r \<noteq> Panic \<Longrightarrow>
    (case r of Ok v \<Rightarrow> h v | Err e \<Rightarrow> Err e | Panic \<Rightarrow> Panic) \<noteq> Panic"
  by (cases r) simp_all

lemma lex_string_no_panic: "lex_string start pos acc s \<noteq> Panic"
proof (induction start pos acc s rule: lex_string.induct)
  case (2 start pos acc c s)
  show ?case
    unfolding lex_string.simps
    by (intro if_no_panic list_no_panic option_no_panic no_panic_errors 2) simp_all
qed simp

lemma lex_interp_no_panic: "lex_interp b pos depth len acc s \<noteq> Panic"
  by (induction b pos depth len acc s rule: lex_interp.induct) (auto split: list.split)

lemma lex_unicode_no_panic: "lex_unicode_escape start pos s \<noteq> Panic"
  by (auto simp: lex_unicode_escape_def Let_def split: list.split)

lemma lex_template_no_panic: "lex_template start len ts pos s \<noteq> Panic"
proof (induction start len ts pos s rule: lex_template.induct)
  case (2 start len ts pos c s)
  have u: "(case lex_unicode_escape start (pos + 2) s1 of
       Ok (v, pos', rest) \<Rightarrow> lex_template start len (ts_push v ts) pos' rest | Err e \<Rightarrow> Err e | Panic \<Rightarrow> Panic) \<noteq> Panic"
    if *: "c \<noteq> TICK" "c = BACKSLASH" "s = esc # s1" "template_escape esc = None" "esc = ch (CHR ''u'')" for esc s1
  proof (rule outcome_no_panic [OF _ lex_unicode_no_panic])
    fix x assume "lex_unicode_escape start (pos + 2) s1 = Ok x"
    from 2(1) [OF * this] show "(case x of (v, pos', rest) \<Rightarrow> lex_template start len (ts_push v ts) pos' rest) \<noteq> Panic"
      by (cases x) simp
  qed
  have i: "(case lex_interp pos (pos + 1) 1 len [] s of
       Ok (source, sp, pos', rest) \<Rightarrow> lex_template start len ((ts_take_literal pos ts)\<lparr>
               ts_fragments := ts_fragments (ts_take_literal pos ts) @ [FragExpr source sp],
               ts_has_expr := True, ts_literal_start := pos' \<rparr>) pos' rest | Err e \<Rightarrow> Err e | Panic \<Rightarrow> Panic) \<noteq> Panic"
    if *: "c \<noteq> TICK" "c \<noteq> BACKSLASH" "c = ch (CHR 0x7B)"
  proof (rule outcome_no_panic [OF _ lex_interp_no_panic])
    fix x assume "lex_interp pos (pos + 1) 1 len [] s = Ok x"
    from 2(3) [OF * this] show "(case x of (source, sp, pos', rest) \<Rightarrow> lex_template start len ((ts_take_literal pos ts)\<lparr>
               ts_fragments := ts_fragments (ts_take_literal pos ts) @ [FragExpr source sp],
               ts_has_expr := True, ts_literal_start := pos' \<rparr>) pos' rest) \<noteq> Panic"
      by (cases x) simp
  qed
  show ?case
    unfolding lex_template.simps
    by (intro if_no_panic list_no_panic option_no_panic no_panic_errors u i 2(2,4)) simp_all
qed simp

lemma lex_symbol_no_panic: "lex_symbol pos c s \<noteq> Panic"
  unfolding lex_symbol_def sym_def sym2_def lex_placeholder_def Let_def
  by (intro option_no_panic if_no_panic no_panic_errors) simp_all

lemma lex_token_no_panic: "lex_token f len pos c s \<noteq> Panic"
  unfolding lex_token_def lex_identifier_def Let_def
  by (intro if_no_panic lex_number_no_panic lex_bytes_no_panic lex_string_no_panic
      lex_template_no_panic lex_symbol_no_panic) simp_all

lemma lex_line_start_no_panic: "lex_line_start st \<noteq> Panic"
  by (auto simp: lex_line_start_def Let_def split: prod.split)

lemma lex_step_no_panic: "lex_step f len st \<noteq> Panic"
proof -
  have omap: "r \<noteq> Panic \<Longrightarrow> omap h r \<noteq> Panic" for h :: "token \<times> nat \<times> rstr \<Rightarrow> lex_state" and r :: scanned
    by (cases r) auto
  show ?thesis
    unfolding lex_step_def Let_def
    by (intro if_no_panic omap lex_token_no_panic lex_line_start_no_panic) simp_all
qed

lemma lex_loop_no_panic: "lex_loop f len st \<noteq> Panic"
proof (induction f len st rule: lex_loop.induct)
  case (1 f len st)
  show ?case
  proof (cases "lex_step f len st")
    case (Ok st')
    then show ?thesis using 1 by (subst lex_loop.simps) simp
  qed (use lex_step_no_panic [of f len st] in \<open>subst lex_loop.simps; simp\<close>)+
qed

lemma lex_no_panic: "lex f source \<noteq> Panic"
  unfolding lex_def using lex_loop_no_panic [of f "utf8_len source" "lex_init source"]
  by (cases "lex_loop f (utf8_len source) (lex_init source)") auto

subsection \<open>The sources inside templates are shorter\<close>

definition frags_of_kind :: "token_kind \<Rightarrow> rstr set" where
  "frags_of_kind k = (case k of TTemplateString fs \<Rightarrow> {e. \<exists>s. FragExpr e s \<in> set fs} | _ \<Rightarrow> {})"

lemma frags_of_alt: "frags_of T = (\<Union>t \<in> set T. frags_of_kind (t_kind t))"
  by (force simp: frags_of_def frags_of_kind_def split: token_kind.splits)

lemma frags_of_simps [simp]: "frags_of [] = {}" "frags_of (t # T) = frags_of_kind (t_kind t) \<union> frags_of T"
  "frags_of (S @ T) = frags_of S \<union> frags_of T"
  by (auto simp: frags_of_alt)

lemma lex_interp_length:
  "lex_interp b pos depth len acc s = Ok (e, sp, p, rest) \<Longrightarrow> length e + length rest < length acc + length s"
proof (induction b pos depth len acc s rule: lex_interp.induct)
  case (2 b pos depth len acc c s)
  consider (escape) n s1 where "c = BACKSLASH" "s = n # s1" | (bad) "c = BACKSLASH" "s = []"
    | (op) "c = ch (CHR 0x7B)" | (cl) "c = ch (CHR 0x7D)"
    | (other) "c \<noteq> BACKSLASH" "c \<noteq> ch (CHR 0x7B)" "c \<noteq> ch (CHR 0x7D)"
    by (cases s) auto
  then show ?case
  proof cases
    case escape
    then show ?thesis using 2(2)[of n s1] 2(6) by simp
  next
    case bad
    then show ?thesis using 2(1,6) by simp
  next
    case op
    then show ?thesis using 2(3,6) by (simp split: if_splits)
  next
    case cl
    then show ?thesis using 2(4,6) by (simp split: if_splits)
  next
    case other
    then show ?thesis using 2(5,6) by simp
  qed
qed simp

lemma frags_ts_token:
  "frags_of_kind (t_kind (ts_token start pos ts)) \<subseteq> {e. \<exists>s. FragExpr e s \<in> set (ts_fragments ts)}"
  by (auto simp: ts_token_def ts_take_literal_def frags_of_kind_def Let_def)

lemma lex_template_frags:
  "lex_template start len ts pos s = Ok (tok, p, rest) \<Longrightarrow> e \<in> frags_of_kind (t_kind tok) \<Longrightarrow>
   (\<exists>sp. FragExpr e sp \<in> set (ts_fragments ts)) \<or> length e < length s"
proof (induction start len ts pos s rule: lex_template.induct)
  case (2 start len ts pos c s)
  consider (close) "c = TICK" | (escape) esc s1 where "c = BACKSLASH" "s = esc # s1" | (interp) "c = ch (CHR 0x7B)"
    | (other) "c \<noteq> TICK" "c \<noteq> BACKSLASH" "c \<noteq> ch (CHR 0x7B)" | (bad) "c = BACKSLASH" "s = []"
    by (cases s) auto
  then show ?case
  proof cases
    case close
    then show ?thesis using 2(5,6) frags_ts_token [of start "pos + 1" ts] by auto
  next
    case escape
    show ?thesis
    proof (cases "template_escape esc")
      case (Some v)
      then show ?thesis using 2(2)[of esc s1 v] 2(5,6) escape by (auto simp: ts_push_def)
    next
      case None
      show ?thesis
      proof (cases "esc = ch (CHR ''u'')")
        case True
        then obtain v p1 r1 where u: "lex_unicode_escape start (pos + 2) s1 = Ok (v, p1, r1)"
          "lex_template start len (ts_push v ts) p1 r1 = Ok (tok, p, rest)"
          using 2(5) escape None by (auto split: outcome.splits prod.splits)
        have "(\<exists>sp. FragExpr e sp \<in> set (ts_fragments (ts_push v ts))) \<or> length e < length r1"
          using 2(1)[of esc s1 "(v, p1, r1)" v "(p1, r1)" p1 r1] escape None True u 2(6) by auto
        then show ?thesis using lex_unicode_shorter [OF u(1)] escape by (auto simp: ts_push_def)
      qed (use 2(5) escape None in \<open>simp add: unknown_escape_def\<close>)
    qed
  next
    case interp
    then obtain src sp p1 r1 where i: "lex_interp pos (pos + 1) 1 len [] s = Ok (src, sp, p1, r1)"
      "lex_template start len ((ts_take_literal pos ts)\<lparr> ts_fragments := ts_fragments (ts_take_literal pos ts) @ [FragExpr src sp],
         ts_has_expr := True, ts_literal_start := p1 \<rparr>) p1 r1 = Ok (tok, p, rest)"
      using 2(5) by (auto split: outcome.splits prod.splits)
    have "(\<exists>sp'. FragExpr e sp' \<in> set (ts_fragments (ts_take_literal pos ts) @ [FragExpr src sp])) \<or> length e < length r1"
      using 2(3)[of "(src, sp, p1, r1)" src "(sp, p1, r1)" sp "(p1, r1)" p1 r1] interp i 2(6) by auto
    then show ?thesis using lex_interp_length [OF i(1)]
      by (auto simp: ts_take_literal_def split: if_splits)
  next
    case other
    then show ?thesis using 2(4,5,6) by (auto simp: ts_push_def)
  qed (use 2 in simp)
qed simp

lemma frags_of_other [simp]: "(\<And>fs. k \<noteq> TTemplateString fs) \<Longrightarrow> frags_of_kind k = {}"
  by (auto simp: frags_of_kind_def split: token_kind.split)

text \<open>The other scanners give tokens without templates.\<close>

definition plain :: "scanned \<Rightarrow> bool" where
  "plain r \<longleftrightarrow> (\<forall>tok p rest. r = Ok (tok, p, rest) \<longrightarrow> frags_of_kind (t_kind tok) = {})"

named_theorems plain

lemma plain_if [plain]: "(b \<Longrightarrow> plain x) \<Longrightarrow> (\<not> b \<Longrightarrow> plain y) \<Longrightarrow> plain (if b then x else y)"
  by simp

lemma plain_list [plain]: "plain x \<Longrightarrow> (\<And>v vs. l = v # vs \<Longrightarrow> plain (h v vs)) \<Longrightarrow> plain (case l of [] \<Rightarrow> x | v # vs \<Rightarrow> h v vs)"
  by (cases l) simp_all

lemma plain_option [plain]: "(o1 = None \<Longrightarrow> plain x) \<Longrightarrow> (\<And>v. o1 = Some v \<Longrightarrow> plain (h v)) \<Longrightarrow> plain (case o1 of None \<Rightarrow> x | Some v \<Rightarrow> h v)"
  by (cases o1) simp_all

lemma plain_prod [plain]: "(\<And>x y. v = (x, y) \<Longrightarrow> plain (h x y)) \<Longrightarrow> plain (case_prod h v)"
  by (cases v) simp

lemma plain_errors [plain]: "plain (lex_err m a b)" "plain (lex_err_help m a b h)" "plain (unknown_escape p c h2)" "plain (Err d)"
  by (simp_all add: plain_def lex_err_def lex_err_help_def unknown_escape_def)

lemma plain_Ok [plain]: "frags_of_kind k = {} \<Longrightarrow> plain (Ok (token_new k a b, p, r))"
  by (simp add: plain_def)

lemma plain_bytes: "plain (lex_bytes start pos acc s)"
proof (induction start pos acc s rule: lex_bytes.induct)
  case (2 start pos acc c s)
  show ?case unfolding lex_bytes.simps by (intro plain 2) simp_all
qed (simp add: plain)

lemma plain_string: "plain (lex_string start pos acc s)"
proof (induction start pos acc s rule: lex_string.induct)
  case (2 start pos acc c s)
  show ?case unfolding lex_string.simps by (intro plain 2) simp_all
qed (simp add: plain)

lemma plain_number: "plain (lex_number f start c s)"
  unfolding lex_number_def lex_radix_def lex_decimal_def Let_def by (intro plain) simp_all

lemma plain_keyword_kind: "frags_of_kind (keyword_kind s) = {}"
  by (simp add: keyword_kind_def split: option.split)

lemma plain_identifier: "plain (lex_identifier start c s)"
  unfolding lex_identifier_def Let_def by (intro plain plain_bytes plain_keyword_kind)

lemma plain_symbol: "plain (lex_symbol pos c s)"
  unfolding lex_symbol_def sym_def sym2_def lex_placeholder_def Let_def by (intro plain) simp_all

lemma lex_token_plain:
  "plain (lex_token f len pos c s) \<or> lex_token f len pos c s = lex_template pos len
     \<lparr> ts_fragments = [], ts_literal = [], ts_has_expr = False, ts_literal_start = pos + 1 \<rparr> (pos + 1) s"
  by (simp add: lex_token_def plain_number plain_identifier plain_string plain_symbol)

lemma lex_token_frags:
  assumes "lex_token f len pos c s = Ok (tok, p, rest)" "e \<in> frags_of_kind (t_kind tok)"
  shows "length e < length s"
proof -
  have "\<not> plain (lex_token f len pos c s)" using assms by (auto simp: plain_def)
  then have "lex_template pos len \<lparr> ts_fragments = [], ts_literal = [], ts_has_expr = False, ts_literal_start = pos + 1 \<rparr>
      (pos + 1) s = Ok (tok, p, rest)"
    using assms(1) lex_token_plain [of f len pos c s] by simp
  from lex_template_frags [OF this assms(2)] show ?thesis by simp
qed

lemma frags_of_replicate [simp]: "frags_of (replicate n (token_new k a b)) = (if n = 0 then {} else frags_of_kind k)"
  by (auto simp: frags_of_alt)

lemma lex_line_start_frags:
  assumes "lex_line_start st = Ok st'"
  shows "frags_of (ls_pending st') = frags_of (ls_pending st)"
proof -
  have "(\<exists>n k. ls_pending st' = ls_pending st @ replicate n (token_new k (ls_pos st) (ls_pos st)) \<and> frags_of_kind k = {})"
  proof -
    let ?ws = "takeWhile (\<lambda>c. c = SPACE \<or> c = TAB) (ls_rest st)"
    consider "ls_pending st' = ls_pending st" | "ls_pending st' = ls_pending st @ [token_new TIndent (ls_pos st) (ls_pos st)]"
      | n where "ls_pending st' = ls_pending st @ replicate n (token_new TDedent (ls_pos st) (ls_pos st))"
      using assms by (auto simp: lex_line_start_def Let_def split: if_splits prod.splits)
    then show ?thesis
    proof cases
      case 1
      then show ?thesis by (intro exI [of _ 0] exI [of _ TIndent]) simp
    next
      case 2
      then show ?thesis by (intro exI [of _ 1] exI [of _ TIndent]) simp
    next
      case (3 n)
      then show ?thesis by (intro exI [of _ n] exI [of _ TDedent]) simp
    qed
  qed
  then obtain n k where "ls_pending st' = ls_pending st @ replicate n (token_new k (ls_pos st) (ls_pos st))" "frags_of_kind k = {}"
    by blast
  then show ?thesis by (simp only: frags_of_simps frags_of_replicate) simp
qed

lemma lex_frags_step:
  assumes "lex_step f len st = Ok st'" "ls_rest st \<noteq> []" "length (ls_rest st) \<le> n"
    "\<forall>e \<in> frags_of (ls_tokens st @ ls_pending st). length e < n"
  shows "length (ls_rest st') \<le> n \<and> (\<forall>e \<in> frags_of (ls_tokens st' @ ls_pending st'). length e < n)"
proof -
  obtain c s where cs: "ls_rest st = c # s" using assms(2) by (cases "ls_rest st") auto
  show ?thesis
  proof (cases "\<exists>tok p r. lex_token f len (ls_pos st) c s = Ok (tok, p, r) \<and> ls_pending st = [] \<and>
      st' = st\<lparr> ls_tokens := ls_tokens st @ [tok], ls_pos := p, ls_rest := r \<rparr>")
    case True
    then obtain tok p r where t: "lex_token f len (ls_pos st) c s = Ok (tok, p, r)" "ls_pending st = []"
      "st' = st\<lparr> ls_tokens := ls_tokens st @ [tok], ls_pos := p, ls_rest := r \<rparr>" by blast
    have "length r \<le> length s" using scans_token [of "ls_pos st" c s f len] t(1) by (auto simp: scans_def)
    moreover have "length e < length s" if "e \<in> frags_of_kind (t_kind tok)" for e
      by (rule lex_token_frags [OF t(1) that])
    ultimately show ?thesis using t assms(3,4) cs by fastforce
  next
    case False
    show ?thesis
      using assms(1,2)
    proof (cases rule: lex_step_cases)
      case layout
      have "length (ls_rest st') \<le> length (ls_rest st)"
        using lex_line_start_simple(1) [OF layout(3)] by (auto simp: eats_def)
      then show ?thesis
        using assms(3,4) lex_line_start_simple(3) [OF layout(3)] lex_line_start_frags [OF layout(3)] by simp
    next
      case (token tok p r)
      then have "ls_pending st = []" "\<not> ls_line_start st" by simp_all
      have x: "ls_tokens st' = ls_tokens st @ [tok]" "t_kind tok \<noteq> TNewline" "\<not> ls_line_start st'" using token by auto
      then have other: "c \<noteq> CR" "c \<noteq> NL" "c \<noteq> ch (CHR ''#'')" "c \<noteq> SPACE" "c \<noteq> TAB"
        using assms(1) cs \<open>ls_pending st = []\<close> \<open>\<not> ls_line_start st\<close>
        by (auto simp: lex_step_def Let_def split: if_splits)
      then obtain tok' p' r' where t': "lex_token f len (ls_pos st) c s = Ok (tok', p', r')"
        "st' = st\<lparr> ls_tokens := ls_tokens st @ [tok'], ls_pos := p', ls_rest := r' \<rparr>"
        using assms(1) cs \<open>ls_pending st = []\<close> \<open>\<not> ls_line_start st\<close>
        by (auto simp: lex_step_def Let_def outcome_simps)
      have "tok' = tok" "p' = p" "r' = r"
        using arg_cong [OF t'(2), of ls_tokens] arg_cong [OF t'(2), of ls_pos] arg_cong [OF t'(2), of ls_rest] token by auto
      then have "lex_token f len (ls_pos st) c s = Ok (tok, p, r)" using t' by simp
      then show ?thesis using False token by blast
    qed (use assms(3,4) cs in auto)
  qed
qed

lemma lex_frags:
  assumes "lex f source = Ok toks" "e \<in> frags_of toks"
  shows "length e < length source"
proof -
  define I where "I st \<longleftrightarrow> length (ls_rest st) \<le> length source \<and>
    (\<forall>e \<in> frags_of (ls_tokens st @ ls_pending st). length e < length source)" for st :: lex_state
  obtain st where st: "lex_loop f (utf8_len source) (lex_init source) = Ok st" "toks = lex_finish (utf8_len source) st"
    using assms(1) by (auto simp: lex_def outcome_simps)
  have "I st"
  proof (rule lex_loop_invariant [OF st(1), of I, THEN conjunct1])
    show "I (lex_init source)" by (simp add: I_def lex_init_def)
    show "I s2" if "lex_step f (utf8_len source) s1 = Ok s2" "ls_rest s1 \<noteq> []" "I s1" for s1 s2
      using lex_frags_step [OF that(1,2)] that(3) unfolding I_def by blast
  qed
  moreover have "frags_of toks = frags_of (ls_tokens st)"
    by (auto simp: st(2) lex_finish_def Let_def)
  ultimately show ?thesis using assms(2) by (auto simp: I_def)
qed

subsection \<open>The form of the tokens\<close>

lemma kind_of_map: "kind_of T i = (if i < length (map t_kind T) then Some (map t_kind T ! i) else None)"
  by (simp add: kind_of_def)

lemma toks_okI:
  assumes "map t_kind T = body @ [TNewline] @ replicate n TDedent @ [TEof]" "TEof \<notin> set body"
  shows "toks_ok T"
proof -
  let ?m = "length body"
  have len: "length T = ?m + n + 2" using arg_cong [OF assms(1), of length] by simp
  have k: "kind_of T i = (if i < ?m then Some (body ! i) else if i = ?m then Some TNewline
      else if i < ?m + n + 1 then Some TDedent else if i = ?m + n + 1 then Some TEof else None)" for i
    unfolding kind_of_map assms(1) by (auto simp: nth_append nth_Cons split: nat.splits)
  have "body ! i \<noteq> TEof" if "i < ?m" for i using assms(2) that by (auto simp: in_set_conv_nth)
  moreover have "T \<noteq> []" using len by auto
  ultimately show ?thesis
    unfolding toks_ok_def by (auto simp: k len split: if_splits)
qed

lemma lex_toks_ok: "lex f source = Ok tokens \<Longrightarrow> toks_ok tokens"
  using lex_form toks_okI by blast

lemma map_kind_shift [simp]: "map t_kind (shift_tokens n T) = map t_kind T"
  by (simp add: shift_tokens_def)

end
