(* ===== verification/Parser_RunsExpr.thy ===== *)
theory Parser_RunsExpr
  imports Lexer_Fragments
begin

text \<open>
  Every parser of types, patterns and expressions returns and moves forward (collection \<open>runs\<close>, one
  lemma for each definition of \<open>Parser_Expr\<close>).
\<close>

subsection \<open>Types, parameters, patterns\<close>

lemma runs_parse_type_annotation [runs]:
  assumes P: "rec_ok E T i P" and le: "i \<le> lo" and hi: "\<And>x. hi x \<le> Suc lo"
  shows "runs T K lo hi (parse_type_annotation P)"
  unfolding parse_type_annotation_def
  by (rule runs_steps runs P runs_calls [OF P] runs_last | (insert le hi, auto simp: runs_facts; fail))+

lemma runs_parse_optional_type_annotation [runs]:
  assumes P: "rec_ok E T i P" and le: "i \<le> lo" and hi: "\<And>x. hi x \<le> lo"
  shows "runs T K lo hi (parse_optional_type_annotation P)"
  unfolding parse_optional_type_annotation_def
  by (rule runs_steps runs P runs_calls [OF P] runs_last | (insert le hi, auto simp: runs_facts; fail))+

lemma runs_parse_parameters_impl [runs]:
  assumes P: "rec_ok E T i P" and le: "i \<le> lo" and hi: "\<And>x. hi x \<le> lo"
  shows "runs T K lo hi (parse_parameters_impl b P)"
  unfolding parse_parameters_impl_def
  by (rule runs_steps runs P runs_calls [OF P] runs_last | (insert le hi, auto simp: runs_facts; fail))+

lemma runs_parse_parameters [runs]:
  assumes P: "rec_ok E T i P" and le: "i \<le> lo" and hi: "\<And>x. hi x \<le> lo"
  shows "runs T K lo hi (parse_parameters P)"
  unfolding parse_parameters_def
  by (rule runs_steps runs P runs_calls [OF P] runs_last | (insert le hi, auto simp: runs_facts; fail))+

lemma runs_parse_parameters_allow_keywords [runs]:
  assumes P: "rec_ok E T i P" and le: "i \<le> lo" and hi: "\<And>x. hi x \<le> lo"
  shows "runs T K lo hi (parse_parameters_allow_keywords P)"
  unfolding parse_parameters_allow_keywords_def
  by (rule runs_steps runs P runs_calls [OF P] runs_last | (insert le hi, auto simp: runs_facts; fail))+

lemma runs_parse_range_end [runs]:
  assumes k: "\<And>i. K i \<Longrightarrow> toks_ok T \<Longrightarrow> \<exists>j. i = Suc j \<and> kind_of T j = Some (t_kind t)"
    and hi: "\<And>x. hi x \<le> lo"
  shows "runs T K lo hi (parse_range_end w t)"
  unfolding parse_range_end_def
  by (rule runs_steps runs runs_last | (insert hi, auto simp: runs_facts dest: k; fail))+

lemma runs_parse_range_binding [runs]:
  assumes k: "\<And>i. K i \<Longrightarrow> toks_ok T \<Longrightarrow> \<exists>n. kind_of T i = Some (TIdentifier n)"
    and hi: "\<And>x. hi x \<le> Suc lo"
  shows "runs T K lo hi (parse_range_binding name sp)"
  unfolding parse_range_binding_def
  by (rule runs_steps runs runs_last | (insert hi, auto simp: runs_facts dest: k; fail))+

lemma runs_parse_integer_pattern [runs]:
  assumes k: "\<And>i. K i \<Longrightarrow> toks_ok T \<Longrightarrow> kind_of T i = Some (TInteger v)" and hi: "\<And>x. hi x \<le> Suc lo"
  shows "runs T K lo hi (parse_integer_pattern v)"
  unfolding parse_integer_pattern_def
  by (rule runs_steps runs runs_last | (insert hi, auto simp: runs_facts dest: k; fail))+

lemma runs_parse_list_pattern [runs]:
  assumes P: "rec_ok E T i P" and le: "i \<le> lo" and k: "\<And>i. K i \<Longrightarrow> toks_ok T \<Longrightarrow> kind_of T i \<noteq> Some TEof"
    and hi: "\<And>x. hi x \<le> Suc lo"
  shows "runs T K lo hi (parse_list_pattern P)"
  unfolding parse_list_pattern_def
  by (rule runs_steps runs P runs_calls [OF P] runs_last | (insert le hi, auto simp: runs_facts dest: k; fail))+

lemma runs_parse_constructor_fields [runs]:
  assumes P: "rec_ok E T i P" and le: "i < lo" and hi: "\<And>x. hi x \<le> lo"
  shows "runs T K lo hi (parse_constructor_fields P)"
  unfolding parse_constructor_fields_def
  by (rule runs_steps runs P runs_calls [OF P] runs_last | (insert le hi, auto simp: runs_facts; fail))+

lemma runs_parse_name_pattern [runs]:
  assumes P: "rec_ok E T i P" and le: "i \<le> lo" and hi: "\<And>x. hi x \<le> Suc lo"
  shows "runs T K lo hi (parse_name_pattern E P)"
  unfolding parse_name_pattern_def
  by (rule runs_steps runs P runs_calls [OF P] runs_last | (insert le hi, auto simp: runs_facts; fail))+

lemma runs_parse_match_pattern [runs]:
  assumes P: "rec_ok E T i P" and le: "i \<le> lo" and hi: "\<And>x. hi x \<le> Suc lo"
  shows "runs T K lo hi (parse_match_pattern E P)"
  unfolding parse_match_pattern_def
  by (rule runs_steps runs P runs_calls [OF P] runs_last | (insert le hi, auto simp: runs_facts; fail))+

lemma runs_colon_path [runs]:
  assumes hi: "\<And>x. hi x \<le> lo"
  shows "runs T K lo hi (colon_path p)"
  unfolding colon_path_def
  by (rule runs_steps runs runs_last | (insert hi, auto simp: runs_facts; fail))+

lemma runs_parse_error_name [runs]:
  assumes hi: "\<And>x. hi x \<le> Suc lo"
  shows "runs T K lo hi (parse_error_name)"
  unfolding parse_error_name_def
  by (rule runs_steps runs runs_last | (insert hi, auto simp: runs_facts; fail))+

lemma runs_parse_error_value [runs]:
  assumes k: "\<And>i. K i \<Longrightarrow> toks_ok T \<Longrightarrow> kind_of T i \<noteq> Some TEof" and hi: "\<And>x. hi x \<le> Suc lo"
  shows "runs T K lo hi (parse_error_value)"
  unfolding parse_error_value_def
  by (rule runs_steps runs runs_last | (insert hi, auto simp: runs_facts dest: k; fail))+

lemma runs_parse_taxonomy_path_expression [runs]:
  assumes k: "\<And>i. K i \<Longrightarrow> toks_ok T \<Longrightarrow> kind_of T i \<noteq> Some TEof" and hi: "\<And>x. hi x \<le> Suc lo"
  shows "runs T K lo hi (parse_taxonomy_path_expression)"
  unfolding parse_taxonomy_path_expression_def
  by (rule runs_steps runs runs_last | (insert hi, auto simp: runs_facts dest: k; fail))+

subsection \<open>Arguments, literals, templates, blocks\<close>

lemma toks_ok_shift [simp]: "toks_ok (shift_tokens n T) = toks_ok T"
  by (simp add: toks_ok_def kind_of_def shift_tokens_def)

lemma runs_parse_do_end_block [runs]:
  assumes P: "rec_ok E T i P" and le: "i < lo" and hi: "\<And>x. hi x \<le> lo"
  shows "runs T K lo hi (parse_do_end_block P)"
  unfolding parse_do_end_block_def
  by (rule runs_steps runs P runs_calls [OF P] runs_last | (insert le hi, auto simp: runs_facts; fail))+

lemma runs_close_indented [runs]:
  assumes hi: "\<And>x. hi x \<le> lo"
  shows "runs T K lo hi (close_indented b)"
  unfolding close_indented_def
  by (rule runs_steps runs runs_last | (insert hi, auto simp: runs_facts; fail))+

lemma runs_parse_one_argument [runs]:
  assumes P: "rec_ok E T i P" and le: "i < lo" and hi: "\<And>x. hi x \<le> Suc lo"
  shows "runs T K lo hi (parse_one_argument P acc)"
  unfolding parse_one_argument_def
  by (rule runs_steps runs P runs_calls [OF P] runs_last | (insert le hi, auto simp: runs_facts is_named_arg_def; fail))+

lemma runs_arguments_indent [runs]:
  assumes hi: "\<And>x. hi x \<le> lo"
  shows "runs T K lo hi (arguments_indent)"
  unfolding arguments_indent_def
  by (rule runs_steps runs runs_last | (insert hi, auto simp: runs_facts; fail))+

lemma runs_parse_arguments [runs]:
  assumes P: "rec_ok E T i P" and le: "i < lo" and hi: "\<And>x. hi x \<le> lo"
  shows "runs T K lo hi (parse_arguments P)"
  unfolding parse_arguments_def
  by (rule runs_steps runs P runs_calls [OF P] runs_last | (insert le hi, auto simp: runs_facts; fail))+

lemma runs_literal_indent [runs]:
  assumes hi: "\<And>x. hi x \<le> lo"
  shows "runs T K lo hi (literal_indent)"
  unfolding literal_indent_def
  by (rule runs_steps runs runs_last | (insert hi, auto simp: runs_facts; fail))+

lemma runs_parse_comprehension [runs]:
  assumes P: "rec_ok E T i P" and le: "i \<le> lo" and k: "\<And>i. K i \<Longrightarrow> toks_ok T \<Longrightarrow> kind_of T i \<noteq> Some TEof"
    and hi: "\<And>x. hi x \<le> Suc lo"
  shows "runs T K lo hi (parse_comprehension P)"
  unfolding parse_comprehension_def
  by (rule runs_steps runs P runs_calls [OF P] runs_last | (insert le hi, auto simp: runs_facts dest: k; fail))+

lemma runs_parse_map_literal [runs]:
  assumes P: "rec_ok E T i P" and le: "i \<le> lo" and hi: "\<And>x. hi x \<le> Suc lo"
  shows "runs T K lo hi (parse_map_literal P sp)"
  unfolding parse_map_literal_def
  by (rule runs_steps runs P runs_calls [OF P] runs_last | (insert le hi, auto simp: runs_facts; fail))+

lemma runs_parse_list_item [runs]:
  assumes P: "rec_ok E T i P" and le: "i < lo" and hi: "\<And>x. hi x \<le> Suc lo"
  shows "runs T K lo hi (parse_list_item P)"
  unfolding parse_list_item_def
  by (rule runs_steps runs P runs_calls [OF P] runs_last | (insert le hi, auto simp: runs_facts; fail))+

lemma runs_parse_list_literal [runs]:
  assumes P: "rec_ok E T i P" and le: "i \<le> lo" and k: "\<And>i. K i \<Longrightarrow> toks_ok T \<Longrightarrow> kind_of T i \<noteq> Some TEof"
    and hi: "\<And>x. hi x \<le> Suc lo"
  shows "runs T K lo hi (parse_list_literal P)"
  unfolding parse_list_literal_def
  by (rule runs_steps runs P runs_calls [OF P] runs_last | (insert le hi, auto simp: runs_facts dest: k; fail))+

lemma runs_parse_inline_expression:
  assumes "runs T anywhere 0 (\<lambda>_. 0) p"
  shows "runs T anywhere 0 (\<lambda>_. 0) (parse_inline_expression p)"
proof -
  have p: "runs T K 0 (\<lambda>_. 0) p" for K :: "nat \<Rightarrow> bool"
    by (rule runs_weaken [OF assms]) simp_all
  show ?thesis
    unfolding parse_inline_expression_def
    by (rule runs_steps runs p | rule runs_pbind | rule order_refl | (simp; fail))+
qed

lemma runs_parse_fragment_expression:
  assumes P: "rec_ok E T i P" and frag: "source \<in> frags_of T" and hi: "\<And>x. hi x \<le> lo"
  shows "runs T K lo hi (parse_fragment_expression E P source span)"
proof (rule runsI)
  fix s assume s: "okst T s" "K (ps_index s)" "lo \<le> ps_index s"
  have h: "\<forall>x. hi x \<le> ps_index s" using hi s(3) order_trans by blast
  show "\<exists>r s'. parse_fragment_expression E P source span s = Some (r, s') \<and> okst T s' \<and> ps_index s \<le> ps_index s' \<and>
      r \<noteq> Panic \<and> (\<forall>x. r = Ok x \<longrightarrow> hi x \<le> ps_index s')"
  proof (cases "lex (pe_parse_f64 E) source")
    case (Ok tokens)
    let ?T = "shift_tokens (sp_start span) tokens"
    have "runs ?T anywhere 0 (\<lambda>_. 0) (P CExpression)"
      using P frag Ok unfolding rec_ok_def by blast
    then have "runs ?T anywhere 0 (\<lambda>_. 0) (rec_expression P)"
      unfolding pcall_as_def by (rule runs_pbind) (rule runs_preturn, simp)
    then have r: "runs ?T anywhere 0 (\<lambda>_. 0) (parse_inline_expression (rec_expression P))"
      by (rule runs_parse_inline_expression)
    have st: "okst ?T (parser_new ?T (ps_source_len s))"
      using lex_toks_ok [OF Ok] toks_ok_shift [of "sp_start span" tokens] by (auto simp add: okst_def parser_new_def toks_ok_def)
    obtain r2 s2 where "parse_inline_expression (rec_expression P) (parser_new ?T (ps_source_len s)) = Some (r2, s2)" "r2 \<noteq> Panic"
      by (rule runsE [OF r st]) auto
    then show ?thesis using Ok s h by (simp add: parse_fragment_expression_def)
  next
    case (Err d)
    then show ?thesis using s h by (simp add: parse_fragment_expression_def)
  qed (use lex_no_panic in blast)
qed

lemma runs_parse_template_parts:
  assumes P: "rec_ok E T i P" and "\<And>source span. FragExpr source span \<in> set fs \<Longrightarrow> source \<in> frags_of T" and "\<And>x. hi x \<le> lo"
  shows "runs T K lo hi (parse_template_parts E P fs)"
  using assms(2,3)
proof (induction fs arbitrary: K lo hi)
  case (Cons f fs)
  have rest: "runs T K lo (\<lambda>_. lo) (parse_template_parts E P fs)" for K lo
    by (rule Cons.IH) (use Cons.prems in auto)
  show ?case
  proof (cases f)
    case (FragLiteral v span)
    then show ?thesis by (auto intro!: runs_pbind [OF rest] runs_preturn Cons.prems)
  next
    case (FragExpr source span)
    have "runs T K lo (\<lambda>_. lo) (parse_fragment_expression E P source span)"
      by (rule runs_parse_fragment_expression [OF P]) (use Cons.prems FragExpr in auto)
    then show ?thesis using FragExpr by (auto intro!: runs_pbind [OF _ runs_pbind [OF rest]] runs_preturn Cons.prems)
  qed
qed (simp add: runs_preturn)

lemma runs_parse_when_expression [runs]:
  assumes P: "rec_ok E T i P" and le: "i \<le> lo" and k: "\<And>i. K i \<Longrightarrow> toks_ok T \<Longrightarrow> kind_of T i \<noteq> Some TEof"
    and hi: "\<And>x. hi x \<le> Suc lo"
  shows "runs T K lo hi (parse_when_expression P)"
  unfolding parse_when_expression_def
  by (rule runs_steps runs P runs_calls [OF P] runs_last | (insert le hi, auto simp: runs_facts dest: k; fail))+

lemma runs_parse_arm_body [runs]:
  assumes P: "rec_ok E T i P" and le: "i < lo" and hi: "\<And>x. hi x \<le> lo"
  shows "runs T K lo hi (parse_arm_body P)"
  unfolding parse_arm_body_def
  by (rule runs_steps runs P runs_calls [OF P] runs_last | (insert le hi, auto simp: runs_facts; fail))+

lemma runs_parse_alternatives [runs]:
  assumes P: "rec_ok E T i P" and le: "i \<le> lo" and hi: "\<And>x. hi x \<le> Suc lo"
  shows "runs T K lo hi (parse_alternatives E P)"
  unfolding parse_alternatives_def
  by (rule runs_steps runs P runs_calls [OF P] runs_last | (insert le hi, auto simp: runs_facts; fail))+

lemma runs_parse_guard [runs]:
  assumes P: "rec_ok E T i P" and le: "i \<le> lo" and hi: "\<And>x. hi x \<le> lo"
  shows "runs T K lo hi (parse_guard P)"
  unfolding parse_guard_def
  by (rule runs_steps runs P runs_calls [OF P] runs_last | (insert le hi, auto simp: runs_facts; fail))+

lemma runs_parse_match_arm [runs]:
  assumes P: "rec_ok E T i P" and le: "i \<le> lo" and hi: "\<And>x. hi x \<le> Suc lo"
  shows "runs T K lo hi (parse_match_arm E P)"
  unfolding parse_match_arm_def
  by (rule runs_steps runs P runs_calls [OF P] runs_last | (insert le hi, auto simp: runs_facts; fail))+

lemma runs_parse_match_expression [runs]:
  assumes P: "rec_ok E T i P" and le: "i \<le> lo" and k: "\<And>i. K i \<Longrightarrow> toks_ok T \<Longrightarrow> kind_of T i \<noteq> Some TEof"
    and hi: "\<And>x. hi x \<le> Suc lo"
  shows "runs T K lo hi (parse_match_expression E P)"
  unfolding parse_match_expression_def
  by (rule runs_steps runs P runs_calls [OF P] runs_last | (insert le hi, auto simp: runs_facts dest: k; fail))+

lemma runs_parse_lambda_expression [runs]:
  assumes P: "rec_ok E T i P" and le: "i \<le> lo" and k: "\<And>i. K i \<Longrightarrow> toks_ok T \<Longrightarrow> kind_of T i \<noteq> Some TEof"
    and hi: "\<And>x. hi x \<le> Suc lo"
  shows "runs T K lo hi (parse_lambda_expression P)"
  unfolding parse_lambda_expression_def
  by (rule runs_steps runs P runs_calls [OF P] runs_last | (insert le hi, auto simp: runs_facts dest: k; fail))+

lemma runs_parse_unsafe_block [runs]:
  assumes P: "rec_ok E T i P" and le: "i \<le> lo" and k: "\<And>i. K i \<Longrightarrow> toks_ok T \<Longrightarrow> kind_of T i \<noteq> Some TEof"
    and hi: "\<And>x. hi x \<le> Suc lo"
  shows "runs T K lo hi (parse_unsafe_block P)"
  unfolding parse_unsafe_block_def
  by (rule runs_steps runs P runs_calls [OF P] runs_last | (insert le hi, auto simp: runs_facts dest: k; fail))+

lemma runs_parse_asm_inputs [runs]:
  assumes P: "rec_ok E T i P" and le: "i < lo" and hi: "\<And>x. hi x \<le> lo"
  shows "runs T K lo hi (parse_asm_inputs P)"
  unfolding parse_asm_inputs_def
  by (rule runs_steps runs P runs_calls [OF P] runs_last | (insert le hi, auto simp: runs_facts; fail))+

lemma runs_parse_inline_asm [runs]:
  assumes P: "rec_ok E T i P" and le: "i \<le> lo" and k: "\<And>i. K i \<Longrightarrow> toks_ok T \<Longrightarrow> kind_of T i \<noteq> Some TEof"
    and hi: "\<And>x. hi x \<le> Suc lo"
  shows "runs T K lo hi (parse_inline_asm P)"
  unfolding parse_inline_asm_def
  by (rule runs_steps runs P runs_calls [OF P] runs_last | (insert le hi, auto simp: runs_facts dest: k; fail))+

lemma runs_parse_ptr_load [runs]:
  assumes P: "rec_ok E T i P" and le: "i \<le> lo" and k: "\<And>i. K i \<Longrightarrow> toks_ok T \<Longrightarrow> kind_of T i \<noteq> Some TEof"
    and hi: "\<And>x. hi x \<le> Suc lo"
  shows "runs T K lo hi (parse_ptr_load P)"
  unfolding parse_ptr_load_def
  by (rule runs_steps runs P runs_calls [OF P] runs_last | (insert le hi, auto simp: runs_facts dest: k; fail))+

lemma runs_parse_tuple_items [runs]:
  assumes P: "rec_ok E T i P" and le: "i < lo" and hi: "\<And>x. hi x \<le> lo"
  shows "runs T K lo hi (parse_tuple_items P e)"
  unfolding parse_tuple_items_def
  by (rule runs_steps runs P runs_calls [OF P] runs_last | (insert le hi, auto simp: runs_facts; fail))+

lemma runs_parse_parenthesised [runs]:
  assumes P: "rec_ok E T i P" and le: "i \<le> lo" and k: "\<And>i. K i \<Longrightarrow> toks_ok T \<Longrightarrow> kind_of T i \<noteq> Some TEof"
    and hi: "\<And>x. hi x \<le> Suc lo"
  shows "runs T K lo hi (parse_parenthesised P)"
  unfolding parse_parenthesised_def
  by (rule runs_steps runs P runs_calls [OF P] runs_last | (insert le hi, auto simp: runs_facts dest: k; fail))+

lemma runs_parse_keyword_primary [runs]:
  assumes P: "rec_ok E T i P" and le: "i \<le> lo" and k: "\<And>i. K i \<Longrightarrow> toks_ok T \<Longrightarrow> kind_of T i \<noteq> Some TEof"
    and hi: "\<And>x. hi x \<le> Suc lo"
  shows "runs T K lo hi (parse_keyword_primary E P w)"
  unfolding parse_keyword_primary_def
  by (rule runs_steps runs P runs_calls [OF P] runs_last | (insert le hi, auto simp: runs_facts dest: k; fail))+

lemma runs_parse_symbol_primary [runs]:
  assumes P: "rec_ok E T i P" and le: "i \<le> lo" and k: "\<And>i. K i \<Longrightarrow> toks_ok T \<Longrightarrow> kind_of T i \<noteq> Some TEof"
    and hi: "\<And>x. hi x \<le> Suc lo"
  shows "runs T K lo hi (parse_symbol_primary P y)"
  unfolding parse_symbol_primary_def
  by (rule runs_steps runs P runs_calls [OF P] runs_last | (insert le hi, auto simp: runs_facts dest: k; fail))+

subsection \<open>Primary expressions, calls and operators\<close>

lemma kind_of_frags: "kind_of T j = Some (TTemplateString fs) \<Longrightarrow> FragExpr source span \<in> set fs \<Longrightarrow> source \<in> frags_of T"
  unfolding frags_of_def kind_of_def by (auto split: if_splits intro!: bexI [of _ "T ! j"])

lemma runs_parse_template_literal [runs]:
  assumes P: "rec_ok E T i P" and k: "\<And>i. K i \<Longrightarrow> toks_ok T \<Longrightarrow> \<exists>j. kind_of T j = Some (TTemplateString fs)" and hi: "\<And>x. hi x \<le> lo"
  shows "runs T K lo hi (parse_template_literal E P fs span)"
proof (rule runsI)
  fix s assume s: "okst T s" "K (ps_index s)" "lo \<le> ps_index s"
  then obtain j where j: "kind_of T j = Some (TTemplateString fs)" using k okst_def by blast
  have "runs T K lo hi (parse_template_literal E P fs span)"
    unfolding parse_template_literal_def
    by (rule runs_pbind [OF runs_parse_template_parts [OF P]], rule kind_of_frags [OF j], assumption, rule order_refl)
      (rule runs_preturn, rule hi)
  then show "\<exists>r s'. parse_template_literal E P fs span s = Some (r, s') \<and> okst T s' \<and> ps_index s \<le> ps_index s' \<and>
      r \<noteq> Panic \<and> (\<forall>x. r = Ok x \<longrightarrow> hi x \<le> ps_index s')"
    using s unfolding runs_def by blast
qed

lemma runs_parse_primary [runs]:
  assumes P: "rec_ok E T i P" and le: "i \<le> lo" and hi: "\<And>x. hi x \<le> Suc lo"
  shows "runs T K lo hi (parse_primary E P)"
  unfolding parse_primary_def
  by (rule runs_steps runs P runs_calls [OF P] runs_last | (insert le hi, auto simp: runs_facts; fail))+

text \<open>Newlines are skipped, and given back when the token after them is not the one looked for.\<close>

lemma runs_tentative:
  assumes "k \<noteq> TEof" "runs T anywhere lo hi (pbind A C)" "runs T anywhere lo hi (pbind B C)"
  shows "runs T K lo hi (pbind (pget ps_index) (\<lambda>i. pthen skip_newlines (pbind (pmatches k) (\<lambda>b.
    pbind (if b then A else pthen (pmodify (\<lambda>s. s\<lparr> ps_index := i \<rparr>)) B) C))))"
proof (rule runsI)
  fix s assume s: "okst T s" "K (ps_index s)" "lo \<le> ps_index s"
  let ?i = "ps_index s"
  have skip: "runs T anywhere ?i (\<lambda>_. ?i) (pbind skip_newlines (\<lambda>_. pmatches k))"
    by (rule runs_pbind [where mid = "\<lambda>_. ps_index s", OF runs_skip_newlines runs_pmatches_only]) (use assms(1) in simp_all)
  obtain r s1 where r: "pbind skip_newlines (\<lambda>_. pmatches k) s = Some (r, s1)" "okst T s1" "?i \<le> ps_index s1" "r \<noteq> Panic"
    by (rule runsE [OF skip s(1)]) auto
  let ?s2 = "s1\<lparr> ps_index := ?i \<rparr>"
  have s2: "okst T ?s2" using r(2) s(1) by (simp add: okst_def)
  have le: "lo \<le> ps_index s1" "lo \<le> ps_index ?s2" using s(3) r(3) by simp_all
  have split: "pbind (pget ps_index) (\<lambda>i. pthen skip_newlines (pbind (pmatches k) (\<lambda>b.
      pbind (if b then A else pthen (pmodify (\<lambda>s. s\<lparr> ps_index := i \<rparr>)) B) C))) s =
    pbind (pbind skip_newlines (\<lambda>_. pmatches k)) (\<lambda>b.
      pbind (if b then A else pthen (pmodify (\<lambda>s. s\<lparr> ps_index := ?i \<rparr>)) B) C) s"
    by (simp add: pbind_def pget_def split: option.split outcome.split)
  show "\<exists>r s'. pbind (pget ps_index) (\<lambda>i. pthen skip_newlines (pbind (pmatches k) (\<lambda>b.
      pbind (if b then A else pthen (pmodify (\<lambda>s. s\<lparr> ps_index := i \<rparr>)) B) C))) s = Some (r, s') \<and> okst T s' \<and>
      ?i \<le> ps_index s' \<and> r \<noteq> Panic \<and> (\<forall>x. r = Ok x \<longrightarrow> hi x \<le> ps_index s')"
  proof (cases r)
    case (Ok b)
    show ?thesis
    proof (cases b)
      case True
      obtain q s3 where "pbind A C s1 = Some (q, s3)" "okst T s3" "ps_index s1 \<le> ps_index s3" "q \<noteq> Panic"
        "\<And>x. q = Ok x \<Longrightarrow> hi x \<le> ps_index s3" by (rule runsE [OF assms(2) r(2) TrueI le(1)]) blast
      with r Ok True show ?thesis unfolding split by (auto simp: pbind_def [of "pbind _ _"])
    next
      case False
      obtain q s3 where "pbind B C ?s2 = Some (q, s3)" "okst T s3" "ps_index ?s2 \<le> ps_index s3" "q \<noteq> Panic"
        "\<And>x. q = Ok x \<Longrightarrow> hi x \<le> ps_index s3" by (rule runsE [OF assms(3) s2 TrueI le(2)]) blast
      moreover have "pbind (pthen (pmodify (\<lambda>s. s\<lparr> ps_index := ?i \<rparr>)) B) C s1 = pbind B C ?s2"
        by (simp add: pbind_def pmodify_def)
      ultimately show ?thesis using r Ok False unfolding split by (auto simp: pbind_def [of "pbind _ (\<lambda>_. pmatches k)"])
    qed
  next
    case (Err e)
    with r show ?thesis unfolding split by (auto simp: pbind_def [of "pbind _ _"])
  qed (use r in simp)
qed

lemma runs_parse_call_arguments [runs]:
  assumes P: "rec_ok E T i P" and le: "i < lo" and hi: "\<And>x. hi x \<le> lo"
  shows "runs T K lo hi (parse_call_arguments P e)"
  unfolding parse_call_arguments_def
  by (rule runs_tentative runs_steps runs P runs_calls [OF P] runs_last | (insert le hi, auto simp: runs_facts; fail))+

lemma runs_parse_call_do [runs]:
  assumes P: "rec_ok E T i P" and le: "i < lo" and hi: "\<And>x. hi x \<le> lo"
  shows "runs T K lo hi (parse_call_do P e)"
  unfolding parse_call_do_def
  by (rule runs_steps runs P runs_calls [OF P] runs_last | (insert le hi, auto simp: runs_facts; fail))+

lemma runs_parse_subscript [runs]:
  assumes P: "rec_ok E T i P" and le: "i < lo" and hi: "\<And>x. hi x \<le> lo"
  shows "runs T K lo hi (parse_subscript P e)"
  unfolding parse_subscript_def
  by (rule runs_steps runs P runs_calls [OF P] runs_last | (insert le hi, auto simp: runs_facts; fail))+

lemma runs_parse_call_suffix [runs]:
  assumes P: "rec_ok E T i P" and le: "i \<le> lo"
    and hi: "\<And>x. hi (Inl x) \<le> Suc lo" "\<And>x. hi (Inr x) \<le> lo"
  shows "runs T K lo hi (parse_call_suffix P e)"
  unfolding parse_call_suffix_def
  by (rule runs_steps runs P runs_calls [OF P] runs_last | (insert le hi, auto simp: runs_facts; fail))+

lemma runs_parse_call [runs]:
  assumes P: "rec_ok E T i P" and le: "i \<le> lo" and hi: "\<And>x. hi x \<le> Suc lo"
  shows "runs T K lo hi (parse_call E P)"
  unfolding parse_call_def
  by (rule runs_steps runs P runs_calls [OF P] runs_last | (insert le hi, auto simp: runs_facts; fail))+

lemma runs_parse_unary [runs]:
  assumes P: "rec_ok E T i P" and le: "i \<le> lo" and hi: "\<And>x. hi x \<le> Suc lo"
  shows "runs T K lo hi (parse_unary E P)"
  unfolding parse_unary_def
  by (rule runs_steps runs P runs_calls [OF P] runs_last | (insert le hi, auto simp: runs_facts; fail))+

lemma runs_binary_level [runs]:
  assumes "\<And>K lo hi. i \<le> lo \<Longrightarrow> (\<And>x. hi x \<le> Suc lo) \<Longrightarrow> runs T K lo hi operand" and le: "i \<le> lo" and hi: "\<And>x. hi x \<le> Suc lo"
    and op: "op_of TEof = None"
  shows "runs T K lo hi (binary_level op_of operand)"
  unfolding binary_level_def
  by (rule runs_steps runs assms(1) runs_last | (insert le hi op, auto simp: le_SucI; fail))+

lemma runs_parse_factor [runs]: "rec_ok E T i P \<Longrightarrow> i \<le> lo \<Longrightarrow> (\<And>x. hi x \<le> Suc lo) \<Longrightarrow> runs T K lo hi (parse_factor E P)"
  unfolding parse_factor_def by (rule runs_binary_level [OF runs_parse_unary]) (simp_all add: factor_op_def)

lemma runs_parse_term [runs]: "rec_ok E T i P \<Longrightarrow> i \<le> lo \<Longrightarrow> (\<And>x. hi x \<le> Suc lo) \<Longrightarrow> runs T K lo hi (parse_term E P)"
  unfolding parse_term_def by (rule runs_binary_level [OF runs_parse_factor]) (simp_all add: term_op_def)

lemma runs_parse_shift [runs]: "rec_ok E T i P \<Longrightarrow> i \<le> lo \<Longrightarrow> (\<And>x. hi x \<le> Suc lo) \<Longrightarrow> runs T K lo hi (parse_shift E P)"
  unfolding parse_shift_def by (rule runs_binary_level [OF runs_parse_term]) (simp_all add: shift_op_def)

lemma runs_parse_comparison [runs]: "rec_ok E T i P \<Longrightarrow> i \<le> lo \<Longrightarrow> (\<And>x. hi x \<le> Suc lo) \<Longrightarrow> runs T K lo hi (parse_comparison E P)"
  unfolding parse_comparison_def by (rule runs_binary_level [OF runs_parse_shift]) (simp_all add: comparison_op_def)

lemma runs_parse_equality [runs]: "rec_ok E T i P \<Longrightarrow> i \<le> lo \<Longrightarrow> (\<And>x. hi x \<le> Suc lo) \<Longrightarrow> runs T K lo hi (parse_equality E P)"
  unfolding parse_equality_def by (rule runs_binary_level [OF runs_parse_comparison]) (simp_all add: equality_op_def)

lemma runs_parse_bitwise_and [runs]: "rec_ok E T i P \<Longrightarrow> i \<le> lo \<Longrightarrow> (\<And>x. hi x \<le> Suc lo) \<Longrightarrow> runs T K lo hi (parse_bitwise_and E P)"
  unfolding parse_bitwise_and_def by (rule runs_binary_level [OF runs_parse_equality]) (simp_all add: bitand_op_def)

lemma runs_parse_bitwise_xor [runs]: "rec_ok E T i P \<Longrightarrow> i \<le> lo \<Longrightarrow> (\<And>x. hi x \<le> Suc lo) \<Longrightarrow> runs T K lo hi (parse_bitwise_xor E P)"
  unfolding parse_bitwise_xor_def by (rule runs_binary_level [OF runs_parse_bitwise_and]) (simp_all add: bitxor_op_def)

lemma runs_parse_bitwise_or [runs]: "rec_ok E T i P \<Longrightarrow> i \<le> lo \<Longrightarrow> (\<And>x. hi x \<le> Suc lo) \<Longrightarrow> runs T K lo hi (parse_bitwise_or E P)"
  unfolding parse_bitwise_or_def by (rule runs_binary_level [OF runs_parse_bitwise_xor]) (simp_all add: bitor_op_def)

lemma runs_parse_logic_and [runs]: "rec_ok E T i P \<Longrightarrow> i \<le> lo \<Longrightarrow> (\<And>x. hi x \<le> Suc lo) \<Longrightarrow> runs T K lo hi (parse_logic_and E P)"
  unfolding parse_logic_and_def by (rule runs_binary_level [OF runs_parse_bitwise_or]) (simp_all add: and_op_def)

lemma runs_parse_logic_or [runs]: "rec_ok E T i P \<Longrightarrow> i \<le> lo \<Longrightarrow> (\<And>x. hi x \<le> Suc lo) \<Longrightarrow> runs T K lo hi (parse_logic_or E P)"
  unfolding parse_logic_or_def by (rule runs_binary_level [OF runs_parse_logic_and]) (simp_all add: or_op_def)

lemma runs_parse_pipeline [runs]: "rec_ok E T i P \<Longrightarrow> i \<le> lo \<Longrightarrow> (\<And>x. hi x \<le> Suc lo) \<Longrightarrow> runs T K lo hi (parse_pipeline E P)"
  unfolding parse_pipeline_def by (rule runs_binary_level [OF runs_parse_logic_or]) (simp_all add: pipeline_op_def)

lemma runs_parse_ternary [runs]:
  assumes P: "rec_ok E T i P" and le: "i \<le> lo"
    and p: "\<And>K lo hi. i \<le> lo \<Longrightarrow> (\<And>x. hi x \<le> Suc lo) \<Longrightarrow> runs T K lo hi p"
    and k: "\<And>i. K i \<Longrightarrow> toks_ok T \<Longrightarrow> kind_of T i \<noteq> Some TEof" and hi: "\<And>x. hi x \<le> lo"
  shows "runs T K lo hi (parse_ternary P p e)"
  unfolding parse_ternary_def
  by (rule runs_steps runs P p runs_calls [OF P] runs_last | (insert le hi, auto simp: runs_facts dest: k; fail))+

lemma runs_parse_propagate [runs]:
  assumes k: "\<And>i. K i \<Longrightarrow> toks_ok T \<Longrightarrow> kind_of T i = Some (SY SBang) \<and> kind_of T (Suc i) = Some (KW KeywordReturn)"
    and hi: "\<And>x. hi x \<le> lo"
  shows "runs T K lo hi (parse_propagate e)"
  unfolding parse_propagate_def
  by (rule runs_steps runs runs_last | (insert hi, auto simp: runs_facts dest: k; fail))+

lemma runs_parse_error_fallback [runs]:
  assumes k: "\<And>i. K i \<Longrightarrow> toks_ok T \<Longrightarrow> kind_of T i = Some (SY SBang) \<and> kind_of T (Suc i) = Some (KW KeywordErr)"
    and hi: "\<And>x. hi x \<le> lo"
  shows "runs T K lo hi (parse_error_fallback e)"
  unfolding parse_error_fallback_def
  by (rule runs_steps runs runs_last | (insert hi, auto simp: runs_facts dest: k; fail))+

lemma runs_parse_ternary_or_propagate [runs]:
  assumes P: "rec_ok E T i P" and le: "i \<le> lo" and hi: "\<And>x. hi x \<le> Suc lo"
  shows "runs T K lo hi (parse_ternary_or_propagate E P)"
  unfolding parse_ternary_or_propagate_def
  by (rule runs_steps runs P runs_calls [OF P] runs_last | (insert le hi, auto simp: runs_facts; fail))+

lemma runs_parse_expression [runs]:
  assumes P: "rec_ok E T i P" and le: "i \<le> lo" and hi: "\<And>x. hi x \<le> Suc lo"
  shows "runs T K lo hi (parse_expression E P)"
  unfolding parse_expression_def
  by (rule runs_steps runs P runs_calls [OF P] runs_last | (insert le hi, auto simp: runs_facts; fail))+

end
