(* ===== verification/Parser_RunsStmt.thy ===== *)
theory Parser_RunsStmt
  imports Parser_RunsExpr
begin

text \<open>
  Every parser of bindings, statements and blocks returns (one lemma for each definition of
  \<open>Parser_Stmt\<close>). The operator after an augmented assignment is one: the test before has seen it.
\<close>

lemma runs_ppanic [runs]: "(\<And>i. toks_ok T \<Longrightarrow> K i \<Longrightarrow> False) \<Longrightarrow> runs T K lo hi ppanic"
  by (rule runsI) (auto simp: okst_def)

text \<open>What the tests before an assignment say about the tokens.\<close>

definition augmented_at :: "token list \<Rightarrow> nat \<Rightarrow> bool" where
  "augmented_at T i \<longleftrightarrow> (\<exists>k. kind_of T i = Some k \<and> augmented_op k \<noteq> None)"

lemma augmented_atD:
  assumes "augmented_at T i"
  shows "kind_of T i \<noteq> Some TEof" "T ! i = t \<Longrightarrow> augmented_op (t_kind t) \<noteq> None"
  using assms by (auto simp: augmented_at_def augmented_op_def kind_of_def split: if_splits)

lemma is_augmented_at: "okst T s \<Longrightarrow> is_augmented_at n s = augmented_at T (ps_index s + n)"
  by (simp add: is_augmented_at_def augmented_at_def okst_kind split: option.split)

lemma ahead_assignment:
  assumes "okst T s"
  shows "peek_is_augmented_assign s \<Longrightarrow> augmented_at T (Suc (ps_index s))"
    "peek_is_self_field_assignment s \<Longrightarrow>
       kind_of T (ps_index s) \<noteq> Some TEof \<and> kind_of T (Suc (ps_index s)) \<noteq> Some TEof"
    "peek_is_self_field_augmented_assign s \<Longrightarrow> kind_of T (ps_index s) \<noteq> Some TEof \<and>
       kind_of T (Suc (ps_index s)) \<noteq> Some TEof \<and> augmented_at T (Suc (Suc (Suc (ps_index s))))"
  using assms
  by (simp_all add: peek_is_augmented_assign_def peek_is_self_field_assignment_def
      peek_is_self_field_augmented_assign_def is_self_dot_field_def is_augmented_at okst_kind numeral_3_eq_3)

lemma runs_parse_binding [runs]:
  assumes P: "rec_ok E T i P" and le: "i \<le> lo" and hi: "\<And>x. hi x \<le> Suc lo"
  shows "runs T K lo hi (parse_binding E P)"
  unfolding parse_binding_def
  by (rule runs_steps runs P runs_calls [OF P] runs_last | (insert le hi, auto simp: runs_facts; fail))+

lemma runs_parse_pattern_binding [runs]:
  assumes P: "rec_ok E T i P" and le: "i \<le> lo" and hi: "\<And>x. hi x \<le> Suc lo"
  shows "runs T K lo hi (parse_pattern_binding E P)"
  unfolding parse_pattern_binding_def
  by (rule runs_steps runs P runs_calls [OF P] runs_last | (insert le hi, auto simp: runs_facts; fail))+

lemma runs_parse_self_field_assignment [runs]:
  assumes P: "rec_ok E T i P" and le: "i \<le> lo"
    and k: "\<And>i. K i \<Longrightarrow> toks_ok T \<Longrightarrow> kind_of T i \<noteq> Some TEof \<and> kind_of T (Suc i) \<noteq> Some TEof"
    and hi: "\<And>x. hi x \<le> Suc lo"
  shows "runs T K lo hi (parse_self_field_assignment E P)"
  unfolding parse_self_field_assignment_def
  by (rule runs_steps runs P runs_calls [OF P] runs_last | (insert le hi, auto simp: runs_facts dest: k; fail))+

lemma runs_parse_augmented_assign [runs]:
  assumes P: "rec_ok E T i P" and le: "i \<le> lo" and k: "\<And>i. K i \<Longrightarrow> toks_ok T \<Longrightarrow> augmented_at T (Suc i)"
    and hi: "\<And>x. hi x \<le> Suc lo"
  shows "runs T K lo hi (parse_augmented_assign E P)"
  unfolding parse_augmented_assign_def
  by (rule runs_steps runs P runs_calls [OF P] runs_last | (insert le hi, auto simp: runs_facts dest: k augmented_atD; fail))+

lemma runs_parse_self_field_augmented_assign [runs]:
  assumes P: "rec_ok E T i P" and le: "i \<le> lo"
    and k: "\<And>i. K i \<Longrightarrow> toks_ok T \<Longrightarrow> kind_of T i \<noteq> Some TEof \<and> kind_of T (Suc i) \<noteq> Some TEof \<and> augmented_at T (Suc (Suc (Suc i)))"
    and hi: "\<And>x. hi x \<le> Suc lo"
  shows "runs T K lo hi (parse_self_field_augmented_assign E P)"
  unfolding parse_self_field_augmented_assign_def
  by (rule runs_steps runs P runs_calls [OF P] runs_last | (insert le hi, auto simp: runs_facts dest: k augmented_atD; fail))+

lemma runs_parse_elif_branches [runs]:
  assumes P: "rec_ok E T i P" and le: "i \<le> lo" and hi: "\<And>x. hi x \<le> lo"
  shows "runs T K lo hi (parse_elif_branches E P)"
  unfolding parse_elif_branches_def
  by (rule runs_steps runs P runs_calls [OF P] runs_last | (insert le hi, auto simp: runs_facts; fail))+

lemma runs_parse_if_statement [runs]:
  assumes P: "rec_ok E T i P" and le: "i \<le> lo" and hi: "\<And>x. hi x \<le> Suc lo"
  shows "runs T K lo hi (parse_if_statement E P)"
  unfolding parse_if_statement_def
  by (rule runs_steps runs P runs_calls [OF P] runs_last | (insert le hi, auto simp: runs_facts; fail))+

lemma runs_parse_while_statement [runs]:
  assumes P: "rec_ok E T i P" and le: "i \<le> lo" and hi: "\<And>x. hi x \<le> Suc lo"
  shows "runs T K lo hi (parse_while_statement E P)"
  unfolding parse_while_statement_def
  by (rule runs_steps runs P runs_calls [OF P] runs_last | (insert le hi, auto simp: runs_facts; fail))+

lemma runs_parse_unless_statement [runs]:
  assumes P: "rec_ok E T i P" and le: "i \<le> lo" and hi: "\<And>x. hi x \<le> Suc lo"
  shows "runs T K lo hi (parse_unless_statement E P)"
  unfolding parse_unless_statement_def
  by (rule runs_steps runs P runs_calls [OF P] runs_last | (insert le hi, auto simp: runs_facts; fail))+

lemma runs_parse_until_statement [runs]:
  assumes P: "rec_ok E T i P" and le: "i \<le> lo" and hi: "\<And>x. hi x \<le> Suc lo"
  shows "runs T K lo hi (parse_until_statement E P)"
  unfolding parse_until_statement_def
  by (rule runs_steps runs P runs_calls [OF P] runs_last | (insert le hi, auto simp: runs_facts; fail))+

lemma runs_parse_loop_statement [runs]:
  assumes P: "rec_ok E T i P" and le: "i \<le> lo" and hi: "\<And>x. hi x \<le> Suc lo"
  shows "runs T K lo hi (parse_loop_statement P)"
  unfolding parse_loop_statement_def
  by (rule runs_steps runs P runs_calls [OF P] runs_last | (insert le hi, auto simp: runs_facts; fail))+

lemma runs_for_variable [runs]:
  assumes hi: "\<And>x. hi x \<le> Suc lo"
  shows "runs T K lo hi (for_variable m)"
  unfolding for_variable_def
  by (rule runs_steps runs runs_last | (insert hi, auto simp: runs_facts; fail))+

lemma runs_parse_for_pairs [runs]:
  assumes P: "rec_ok E T i P" and le: "i \<le> lo" and hi: "\<And>x. hi x \<le> Suc lo"
  shows "runs T K lo hi (parse_for_pairs E P v sp)"
  unfolding parse_for_pairs_def
  by (rule runs_steps runs P runs_calls [OF P] runs_last | (insert le hi, auto simp: runs_facts; fail))+

lemma runs_parse_for_rest [runs]:
  assumes P: "rec_ok E T i P" and le: "i \<le> lo" and hi: "\<And>x. hi x \<le> Suc lo"
  shows "runs T K lo hi (parse_for_rest E P v sp)"
  unfolding parse_for_rest_def
  by (rule runs_steps runs P runs_calls [OF P] runs_last | (insert le hi, auto simp: runs_facts; fail))+

lemma runs_parse_for_statement [runs]:
  assumes P: "rec_ok E T i P" and le: "i \<le> lo" and hi: "\<And>x. hi x \<le> Suc lo"
  shows "runs T K lo hi (parse_for_statement E P)"
  unfolding parse_for_statement_def
  by (rule runs_steps runs P runs_calls [OF P] runs_last | (insert le hi, auto simp: runs_facts; fail))+

lemma runs_parse_return [runs]:
  assumes P: "rec_ok E T i P" and le: "i \<le> lo" and k: "\<And>i. K i \<Longrightarrow> toks_ok T \<Longrightarrow> kind_of T i \<noteq> Some TEof"
    and hi: "\<And>x. hi x \<le> Suc lo"
  shows "runs T K lo hi (parse_return E P)"
  unfolding parse_return_def
  by (rule runs_steps runs P runs_calls [OF P] runs_last | (insert le hi, auto simp: runs_facts dest: k; fail))+

lemma runs_parse_postfix_condition [runs]:
  assumes P: "rec_ok E T i P" and le: "i \<le> lo" and k: "\<And>i. K i \<Longrightarrow> toks_ok T \<Longrightarrow> kind_of T i \<noteq> Some TEof"
    and hi: "\<And>x. hi x \<le> Suc lo"
  shows "runs T K lo hi (parse_postfix_condition E P stmt)"
  unfolding parse_postfix_condition_def
  by (rule runs_steps runs P runs_calls [OF P] runs_last | (insert le hi, auto simp: runs_facts dest: k; fail))+

lemma runs_parse_guard_body [runs]:
  assumes P: "rec_ok E T i P" and le: "i < lo" and hi: "\<And>x. hi x \<le> lo"
  shows "runs T K lo hi (parse_guard_body P)"
  unfolding parse_guard_body_def
  by (rule runs_steps runs P runs_calls [OF P] runs_last | (insert le hi, auto simp: runs_facts; fail))+

lemma runs_parse_guarded [runs]:
  assumes P: "rec_ok E T i P" and le: "i \<le> lo" and k: "\<And>i. K i \<Longrightarrow> toks_ok T \<Longrightarrow> kind_of T i \<noteq> Some TEof"
    and hi: "\<And>x. hi x \<le> Suc lo"
  shows "runs T K lo hi (parse_guarded P stmt)"
  unfolding parse_guarded_def
  by (rule runs_steps runs P runs_calls [OF P] runs_last | (insert le hi, auto simp: runs_facts dest: k; fail))+

lemma runs_finish_statement [runs]:
  assumes P: "rec_ok E T i P" and le: "i \<le> lo" and hi: "\<And>x. hi x \<le> lo"
  shows "runs T K lo hi (finish_statement E P stmt)"
  unfolding finish_statement_def
  by (rule runs_steps runs P runs_calls [OF P] runs_last | (insert le hi, auto simp: runs_facts; fail))+

lemma runs_parse_simple_statement [runs]:
  assumes P: "rec_ok E T i P" and le: "i \<le> lo" and hi: "\<And>x. hi x \<le> Suc lo"
  shows "runs T K lo hi (parse_simple_statement E P)"
  unfolding parse_simple_statement_def
  by (rule runs_steps runs P runs_calls [OF P] runs_last | (insert le hi, auto simp: runs_facts; fail))+

lemma runs_parse_statement [runs]:
  assumes P: "rec_ok E T i P" and le: "i \<le> lo" and hi: "\<And>x. hi x \<le> Suc lo"
  shows "runs T K lo hi (parse_statement E P)"
  unfolding parse_statement_def
  by (rule runs_steps runs P runs_calls [OF P] runs_last | (insert le hi, auto simp: runs_facts; fail) |
      (blast dest: ahead_assignment))+

lemma runs_parse_block_body [runs]:
  assumes P: "rec_ok E T i P" and le: "i \<le> lo" and hi: "\<And>x. hi x \<le> lo"
  shows "runs T K lo hi (parse_block_body E P sp)"
  unfolding parse_block_body_def
  by (rule runs_steps runs P runs_calls [OF P] runs_last | (insert le hi, auto simp: runs_facts; fail))+

lemma runs_parse_block [runs]:
  assumes P: "rec_ok E T i P" and le: "i \<le> lo" and hi: "\<And>x. hi x \<le> lo"
  shows "runs T K lo hi (parse_block E P)"
  unfolding parse_block_def
  by (rule runs_steps runs P runs_calls [OF P] runs_last | (insert le hi, auto simp: runs_facts; fail))+

end
