(* ===== verification/Parser_RunsItems.thy ===== *)
theory Parser_RunsItems
  imports Parser_RunsStmt
begin

text \<open>
  Every parser of an item returns; what begins with a token of its own also moves before an error
  (\<open>advances\<close>), which the recovery after an error depends on.
\<close>

text \<open>What begins with a token that is always taken: the position moves, also before an error.\<close>

definition advances :: "token list \<Rightarrow> (nat \<Rightarrow> bool) \<Rightarrow> nat \<Rightarrow> 'a parser \<Rightarrow> bool" where
  "advances T K lo f \<longleftrightarrow> (\<forall>s. okst T s \<longrightarrow> K (ps_index s) \<longrightarrow> lo \<le> ps_index s \<longrightarrow>
     (\<exists>r s'. f s = Some (r, s') \<and> okst T s' \<and> ps_index s < ps_index s' \<and> r \<noteq> Panic))"

lemma advances_runs:
  assumes "advances T K lo f" "\<And>x. hi x \<le> Suc lo"
  shows "runs T K lo hi f"
proof (rule runsI)
  fix s assume s: "okst T s" "K (ps_index s)" "lo \<le> ps_index s"
  then obtain r s' where r: "f s = Some (r, s')" "okst T s'" "ps_index s < ps_index s'" "r \<noteq> Panic"
    using assms(1) unfolding advances_def by blast
  moreover have "hi x \<le> ps_index s'" for x using assms(2) [of x] s(3) r(3) by simp
  ultimately show "\<exists>r s'. f s = Some (r, s') \<and> okst T s' \<and> ps_index s \<le> ps_index s' \<and> r \<noteq> Panic \<and>
      (\<forall>x. r = Ok x \<longrightarrow> hi x \<le> ps_index s')" by auto
qed

lemma advances_padvance:
  assumes "\<And>i. toks_ok T \<Longrightarrow> K i \<Longrightarrow> kind_of T i \<noteq> Some TEof"
    "\<And>t. runs T (\<lambda>i. \<exists>j. i = Suc j \<and> K j \<and> T ! j = t \<and> j < length T) (Suc lo) (\<lambda>_. 0) (B t)"
  shows "advances T K lo (pbind padvance B)"
  unfolding advances_def
proof (intro allI impI)
  fix s assume s: "okst T s" "K (ps_index s)" "lo \<le> ps_index s"
  let ?K = "\<lambda>i. i = ps_index s" and ?i = "ps_index s"
  have "runs T ?K ?i (\<lambda>_. 0) (pbind padvance B)"
  proof (rule runs_padvance)
    show "runs T (\<lambda>i. \<exists>j. i = Suc j \<and> ?K j \<and> T ! j = t \<and> j < length T) (Suc ?i) (\<lambda>_. 0) (B t)" for t
      by (rule runs_weaken [OF assms(2)]) (use s in auto)
  qed (use assms(1) s(2) in blast)
  then obtain r s' where r: "pbind padvance B s = Some (r, s')" "okst T s'" "r \<noteq> Panic"
    using s(1) by (auto simp: runs_def)
  let ?s = "s\<lparr> ps_index := Suc ?i \<rparr>" and ?t = "T ! ?i"
  have adv: "padvance s = Some (Ok ?t, ?s)" using s(1) by (simp add: padvance_def token_at_def okst_def)
  have "kind_of T ?i \<noteq> Some TEof" using assms(1) s(1,2) by (simp add: okst_def)
  then have "Suc ?i \<noteq> length T" using s(1) unfolding okst_def toks_ok_def by blast
  then have "okst T ?s" using s(1) by (auto simp: okst_def)
  then obtain r2 s2 where "B ?t ?s = Some (r2, s2)" "ps_index ?s \<le> ps_index s2"
    by (rule runsE [OF assms(2) [of ?t]]) (use s in \<open>auto simp: okst_def\<close>)
  then show "\<exists>r s'. pbind padvance B s = Some (r, s') \<and> okst T s' \<and> ?i < ps_index s' \<and> r \<noteq> Panic"
    using r adv by (auto simp: pbind_def)
qed

lemma runs_indented_lines [runs]:
  assumes "\<And>x. hi x \<le> lo" "\<And>a l. lo \<le> l \<Longrightarrow> runs T (\<lambda>i. kind_of T i \<noteq> Some TEof) l (\<lambda>_. Suc l) (line a)"
  shows "runs T K lo hi (indented_lines sp m line a)"
proof -
  have line: "runs T K l (\<lambda>_. Suc l) (line a)" if "lo \<le> l" "\<And>i. K i \<Longrightarrow> kind_of T i \<noteq> Some TEof" for a l K
    by (rule runs_weaken [OF assms(2) [OF that(1)]]) (use that(2) in auto)
  show ?thesis
    unfolding indented_lines_def
    by (rule runs_steps runs line runs_last | (insert assms(1), auto simp: le_SucI; fail))+
qed

lemma advances_parse_function:
  assumes P: "rec_ok E T i P" and le: "i \<le> lo" and k: "\<And>i. K i \<Longrightarrow> toks_ok T \<Longrightarrow> kind_of T i \<noteq> Some TEof"
  shows "advances T K lo (parse_function E P kd)"
  unfolding parse_function_def
  by (rule advances_padvance runs_steps runs P runs_calls [OF P] runs_last | (insert le, auto simp: runs_facts dest: k; fail))+

lemmas runs_parse_function [runs] = advances_parse_function [THEN advances_runs]

lemma advances_parse_extern_function:
  assumes P: "rec_ok E T i P" and le: "i \<le> lo" and k: "\<And>i. K i \<Longrightarrow> toks_ok T \<Longrightarrow> kind_of T i \<noteq> Some TEof"
  shows "advances T K lo (parse_extern_function P)"
  unfolding parse_extern_function_def
  by (rule advances_padvance runs_steps runs P runs_calls [OF P] runs_last | (insert le, auto simp: runs_facts dest: k; fail))+

lemmas runs_parse_extern_function [runs] = advances_parse_extern_function [THEN advances_runs]

lemma runs_parse_field [runs]:
  assumes P: "rec_ok E T i P" and le: "i \<le> lo" and hi: "\<And>x. hi x \<le> Suc lo"
  shows "runs T K lo hi (parse_field E P)"
  unfolding parse_field_def
  by (rule runs_steps runs P runs_calls [OF P] runs_last | (insert le hi, auto simp: runs_facts; fail))+

lemma runs_parse_trait_names [runs]:
  assumes hi: "\<And>x. hi x \<le> lo"
  shows "runs T K lo hi (parse_trait_names)"
  unfolding parse_trait_names_def
  by (rule runs_steps runs runs_last | (insert hi, auto simp: runs_facts; fail))+

lemma runs_parse_with_traits [runs]:
  assumes hi: "\<And>x. hi x \<le> lo"
  shows "runs T K lo hi (parse_with_traits)"
  unfolding parse_with_traits_def
  by (rule runs_steps runs runs_last | (insert hi, auto simp: runs_facts; fail))+

lemma runs_parse_body_line [runs]:
  assumes P: "rec_ok E T i P" and le: "i \<le> lo" and hi: "\<And>x. hi x \<le> Suc lo"
  shows "runs T K lo hi (parse_body_line E P acc)"
  unfolding parse_body_line_def
  by (rule runs_steps runs P runs_calls [OF P] runs_last | (insert le hi, auto simp: runs_facts; fail))+

lemma runs_parse_composite_body_with_traits [runs]:
  assumes P: "rec_ok E T i P" and le: "i \<le> lo" and hi: "\<And>x. hi x \<le> lo"
  shows "runs T K lo hi (parse_composite_body_with_traits E P)"
  unfolding parse_composite_body_with_traits_def
  by (rule runs_steps runs P runs_calls [OF P] runs_last | (insert le hi, auto simp: runs_facts; fail))+

lemma runs_parse_bounds [runs]:
  assumes hi: "\<And>x. hi x \<le> lo"
  shows "runs T K lo hi (parse_bounds)"
  unfolding parse_bounds_def
  by (rule runs_steps runs runs_last | (insert hi, auto simp: runs_facts; fail))+

lemma runs_parse_type_param [runs]:
  assumes hi: "\<And>x. hi x \<le> Suc lo"
  shows "runs T K lo hi (parse_type_param)"
  unfolding parse_type_param_def
  by (rule runs_steps runs runs_last | (insert hi, auto simp: runs_facts; fail))+

lemma runs_parse_type_params [runs]:
  assumes hi: "\<And>x. hi x \<le> lo"
  shows "runs T K lo hi (parse_type_params)"
  unfolding parse_type_params_def
  by (rule runs_steps runs runs_last | (insert hi, auto simp: runs_facts; fail))+

lemma advances_parse_type_def:
  assumes P: "rec_ok E T i P" and le: "i \<le> lo" and k: "\<And>i. K i \<Longrightarrow> toks_ok T \<Longrightarrow> kind_of T i \<noteq> Some TEof"
  shows "advances T K lo (parse_type_def E P)"
  unfolding parse_type_def_def
  by (rule advances_padvance runs_steps runs P runs_calls [OF P] runs_last | (insert le, auto simp: runs_facts dest: k; fail))+

lemmas runs_parse_type_def [runs] = advances_parse_type_def [THEN advances_runs]

lemma runs_parse_variant_fields [runs]:
  assumes hi: "\<And>x. hi x \<le> lo"
  shows "runs T K lo hi (parse_variant_fields)"
  unfolding parse_variant_fields_def
  by (rule runs_steps runs runs_last | (insert hi, auto simp: runs_facts; fail))+

lemma runs_parse_type_variant [runs]:
  assumes hi: "\<And>x. hi x \<le> Suc lo"
  shows "runs T K lo hi (parse_type_variant)"
  unfolding parse_type_variant_def
  by (rule runs_steps runs runs_last | (insert hi, auto simp: runs_facts; fail))+

lemma runs_enum_lines [runs]:
  assumes hi: "\<And>x. hi x \<le> lo"
  shows "runs T K lo hi (enum_lines sp)"
  unfolding enum_lines_def
  by (rule runs_steps runs runs_last | (insert hi, auto simp: runs_facts; fail))+

lemma advances_parse_enum_def:
  assumes k: "\<And>i. K i \<Longrightarrow> toks_ok T \<Longrightarrow> kind_of T i \<noteq> Some TEof"
  shows "advances T K lo (parse_enum_def)"
  unfolding parse_enum_def_def
  by (rule advances_padvance runs_steps runs runs_last | (auto simp: runs_facts dest: k; fail))+

lemmas runs_parse_enum_def [runs] = advances_parse_enum_def [THEN advances_runs]

lemma runs_parse_message_type [runs]:
  assumes k: "\<And>i. K i \<Longrightarrow> toks_ok T \<Longrightarrow> kind_of T i \<noteq> Some TEof" and hi: "\<And>x. hi x \<le> Suc lo"
  shows "runs T K lo hi (parse_message_type)"
  unfolding parse_message_type_def
  by (rule runs_steps runs runs_last | (insert hi, auto simp: runs_facts dest: k; fail))+

lemma runs_parse_store_body [runs]:
  assumes P: "rec_ok E T i P" and le: "i \<le> lo" and hi: "\<And>x. hi x \<le> lo"
  shows "runs T K lo hi (parse_store_body E P sp b1 b2)"
  unfolding parse_store_body_def
  by (rule runs_steps runs P runs_calls [OF P] runs_last | (insert le hi, auto simp: runs_facts; fail))+

lemma advances_parse_store_def:
  assumes P: "rec_ok E T i P" and le: "i \<le> lo" and k: "\<And>i. K i \<Longrightarrow> toks_ok T \<Longrightarrow> kind_of T i \<noteq> Some TEof"
  shows "advances T K lo (parse_store_def E P b)"
  unfolding parse_store_def_def
  by (rule advances_padvance runs_steps runs P runs_calls [OF P] runs_last | (insert le, auto simp: runs_facts dest: k; fail))+

lemmas runs_parse_store_def [runs] = advances_parse_store_def [THEN advances_runs]

lemma advances_parse_persist_store_def:
  assumes P: "rec_ok E T i P" and le: "i \<le> lo" and k: "\<And>i. K i \<Longrightarrow> toks_ok T \<Longrightarrow> kind_of T i \<noteq> Some TEof"
  shows "advances T K lo (parse_persist_store_def E P)"
  unfolding parse_persist_store_def_def
  by (rule advances_padvance runs_steps runs P runs_calls [OF P] runs_last | (insert le, auto simp: runs_facts dest: k; fail))+

lemmas runs_parse_persist_store_def [runs] = advances_parse_persist_store_def [THEN advances_runs]

lemma advances_parse_actor_def:
  assumes P: "rec_ok E T i P" and le: "i \<le> lo" and k: "\<And>i. K i \<Longrightarrow> toks_ok T \<Longrightarrow> kind_of T i \<noteq> Some TEof"
  shows "advances T K lo (parse_actor_def E P)"
  unfolding parse_actor_def_def
  by (rule advances_padvance runs_steps runs P runs_calls [OF P] runs_last | (insert le, auto simp: runs_facts dest: k; fail))+

lemmas runs_parse_actor_def [runs] = advances_parse_actor_def [THEN advances_runs]

lemma runs_skip_one_newline [runs]:
  assumes hi: "\<And>x. hi x \<le> lo"
  shows "runs T K lo hi (skip_one_newline)"
  unfolding skip_one_newline_def
  by (rule runs_steps runs runs_last | (insert hi, auto simp: runs_facts; fail))+

lemma runs_parse_error_code [runs]:
  assumes k: "\<And>i. K i \<Longrightarrow> toks_ok T \<Longrightarrow> kind_of T i \<noteq> Some TEof" and hi: "\<And>x. hi x \<le> Suc lo"
  shows "runs T K lo hi (parse_error_code)"
  unfolding parse_error_code_def
  by (rule runs_steps runs runs_last | (insert hi, auto simp: runs_facts dest: k; fail))+

lemma runs_parse_error_message [runs]:
  assumes k: "\<And>i. K i \<Longrightarrow> toks_ok T \<Longrightarrow> kind_of T i \<noteq> Some TEof" and hi: "\<And>x. hi x \<le> Suc lo"
  shows "runs T K lo hi (parse_error_message)"
  unfolding parse_error_message_def
  by (rule runs_steps runs runs_last | (insert hi, auto simp: runs_facts dest: k; fail))+

lemma runs_parse_error_body [runs]:
  assumes P: "rec_ok E T i P" and le: "i < lo" and hi: "\<And>x. hi x \<le> lo"
  shows "runs T K lo hi (parse_error_body P)"
  unfolding parse_error_body_def
  by (rule runs_steps runs P runs_calls [OF P] runs_last | (insert le hi, auto simp: runs_facts; fail))+

lemma advances_parse_error_definition:
  assumes P: "rec_ok E T i P" and le: "i \<le> lo" and k: "\<And>i. K i \<Longrightarrow> toks_ok T \<Longrightarrow> kind_of T i \<noteq> Some TEof"
  shows "advances T K lo (parse_error_definition P)"
  unfolding parse_error_definition_def
  by (rule advances_padvance runs_steps runs P runs_calls [OF P] runs_last | (insert le, auto simp: runs_facts dest: k; fail))+

lemmas runs_parse_error_definition [runs] = advances_parse_error_definition [THEN advances_runs]

lemma runs_parse_taxonomy_line [runs]:
  assumes P: "rec_ok E T i P" and le: "i < lo" and hi: "\<And>x. hi x \<le> Suc lo"
  shows "runs T K lo hi (parse_taxonomy_line E P acc)"
  unfolding parse_taxonomy_line_def
  by (rule runs_steps runs P runs_calls [OF P] runs_last | (insert le hi, auto simp: runs_facts; fail))+

lemma advances_parse_taxonomy_node:
  assumes P: "rec_ok E T i P" and le: "i \<le> lo" and k: "\<And>i. K i \<Longrightarrow> toks_ok T \<Longrightarrow> kind_of T i \<noteq> Some TEof"
  shows "advances T K lo (parse_taxonomy_node E P)"
  unfolding parse_taxonomy_node_def
  by (rule advances_padvance runs_steps runs P runs_calls [OF P] runs_last | (insert le, auto simp: runs_facts dest: k; fail))+

lemmas runs_parse_taxonomy_node [runs] = advances_parse_taxonomy_node [THEN advances_runs]

lemma runs_parse_extension_line [runs]:
  assumes P: "rec_ok E T i P" and le: "i \<le> lo" and hi: "\<And>x. hi x \<le> Suc lo"
  shows "runs T K lo hi (parse_extension_line E P ms)"
  unfolding parse_extension_line_def
  by (rule runs_steps runs P runs_calls [OF P] runs_last | (insert le hi, auto simp: runs_facts; fail))+

lemma advances_parse_extension_def:
  assumes P: "rec_ok E T i P" and le: "i \<le> lo" and k: "\<And>i. K i \<Longrightarrow> toks_ok T \<Longrightarrow> kind_of T i \<noteq> Some TEof"
  shows "advances T K lo (parse_extension_def E P)"
  unfolding parse_extension_def_def
  by (rule advances_padvance runs_steps runs P runs_calls [OF P] runs_last | (insert le, auto simp: runs_facts dest: k; fail))+

lemmas runs_parse_extension_def [runs] = advances_parse_extension_def [THEN advances_runs]

lemma advances_parse_trait_method:
  assumes P: "rec_ok E T i P" and le: "i \<le> lo" and k: "\<And>i. K i \<Longrightarrow> toks_ok T \<Longrightarrow> kind_of T i \<noteq> Some TEof"
  shows "advances T K lo (parse_trait_method E P)"
  unfolding parse_trait_method_def
  by (rule advances_padvance runs_steps runs P runs_calls [OF P] runs_last | (insert le, auto simp: runs_facts dest: k; fail))+

lemmas runs_parse_trait_method [runs] = advances_parse_trait_method [THEN advances_runs]

lemma runs_trait_lines [runs]:
  assumes P: "rec_ok E T i P" and le: "i \<le> lo" and hi: "\<And>x. hi x \<le> lo"
  shows "runs T K lo hi (trait_lines E P sp)"
  unfolding trait_lines_def
  by (rule runs_steps runs P runs_calls [OF P] runs_last | (insert le hi, auto simp: runs_facts; fail))+

lemma advances_parse_trait_def:
  assumes P: "rec_ok E T i P" and le: "i \<le> lo" and k: "\<And>i. K i \<Longrightarrow> toks_ok T \<Longrightarrow> kind_of T i \<noteq> Some TEof"
  shows "advances T K lo (parse_trait_def E P)"
  unfolding parse_trait_def_def
  by (rule advances_padvance runs_steps runs P runs_calls [OF P] runs_last | (insert le, auto simp: runs_facts dest: k; fail))+

lemmas runs_parse_trait_def [runs] = advances_parse_trait_def [THEN advances_runs]

end
