(* ===== verification/Parser_Total.thy ===== *)
theory Parser_Total
  imports Parser_RunsItems
begin

text \<open>
  The parser returns on every source. \<open>parse_run_ok\<close> is the induction: on the length of the sources inside
  templates, and for one list of tokens on what is left of it. The loop over the items moves at each
  turn, also when an item is rejected: what begins like an item moves by itself, and else the recovery
  skips a token.
\<close>

subsection \<open>Items and recovery\<close>

lemma advances_pmap: "advances T K lo f \<Longrightarrow> advances T K lo (pmap h f)"
  unfolding advances_def pmap_def
proof (intro allI impI, goal_cases)
  case (1 s)
  then obtain r s' where "f s = Some (r, s')" "okst T s'" "ps_index s < ps_index s'" "r \<noteq> Panic" by blast
  then show ?case by (cases r) (auto simp: pbind_def preturn_def)
qed

lemma runs_pmap [runs]: "runs T K lo (\<lambda>_. n) f \<Longrightarrow> (\<And>x. hi x \<le> n) \<Longrightarrow> runs T K lo hi (pmap h f)"
  unfolding pmap_def by (rule runs_pbind) (auto intro: runs_preturn)

lemma runs_parse_item:
  assumes P: "rec_ok E T i P" and le: "i \<le> lo" and k: "\<And>i. K i \<Longrightarrow> toks_ok T \<Longrightarrow> kind_of T i \<noteq> Some TEof" and hi: "\<And>x. hi x \<le> Suc lo"
  shows "runs T K lo hi (parse_item E P)"
  unfolding parse_item_def
  by (rule runs_steps runs P runs_pmap [where n = "Suc lo"] runs_last |
      (insert le hi, auto simp: le_SucI dest: k; fail))+

text \<open>What begins like an item moves the position, also when it is rejected.\<close>

lemma item_advances:
  assumes P: "rec_ok E T i P" and s: "okst T s" "i \<le> ps_index s" and k: "is_item_keyword (peek_kind s)" "peek_kind s \<noteq> TEof"
  shows "\<exists>r s'. parse_item E P s = Some (r, s') \<and> ps_index s < ps_index s'"
proof -
  let ?K = "\<lambda>i. kind_of T i \<noteq> Some TEof"
  have "kind_of T (ps_index s) \<noteq> Some TEof" using k(2) okst_kind(3) [OF s(1)] by simp
  note adv = advances_parse_type_def advances_parse_store_def advances_parse_persist_store_def
    advances_parse_actor_def advances_parse_trait_def advances_parse_extension_def advances_parse_function
  have adv: "advances T ?K i (pmap ItType (parse_type_def E P))" "advances T ?K i (pmap ItType parse_enum_def)"
    "advances T ?K i (pmap ItStore (parse_store_def E P False))" "advances T ?K i (pmap ItStore (parse_persist_store_def E P))"
    "advances T ?K i (pmap ItStore (parse_actor_def E P))" "advances T ?K i (pmap ItErrorDefinition (parse_error_definition P))"
    "advances T ?K i (pmap ItTraitDefinition (parse_trait_def E P))" "advances T ?K i (pmap ItExtension (parse_extension_def E P))"
    "advances T ?K i (pmap ItFunction (parse_function E P FkFree))" "advances T ?K i (pmap ItExternFunction (parse_extern_function P))"
    by (rule advances_pmap, rule adv [OF P] advances_parse_enum_def advances_parse_error_definition [OF P]
        advances_parse_extern_function [OF P]; simp)+
  have step: ?thesis if f: "advances T ?K i f" "parse_item E P s = f s" for f
  proof -
    obtain r s' where "f s = Some (r, s')" "ps_index s < ps_index s'"
      using f(1) s \<open>kind_of T (ps_index s) \<noteq> Some TEof\<close> unfolding advances_def by blast
    then show ?thesis using f(2) by simp
  qed
  note item = parse_item_def pbind_def pget_def Let_def
  from k have "peek_kind s \<in> {KW KeywordType, KW KeywordEnum, KW KeywordStore, KW KeywordPersist, KW KeywordActor, KW KeywordErr, KW KeywordTrait, KW KeywordExtend, SY SStar, KW KeywordExtern}"
    unfolding is_item_keyword_def by blast
  then show ?thesis
    by (elim insertE emptyE)
      (rule step [OF adv(1)], simp add: item,
       rule step [OF adv(2)], simp add: item,
       rule step [OF adv(3)], simp add: item,
       rule step [OF adv(4)], simp add: item,
       rule step [OF adv(5)], simp add: item,
       rule step [OF adv(6)], simp add: item,
       rule step [OF adv(7)], simp add: item,
       rule step [OF adv(8)], simp add: item,
       rule step [OF adv(9)], simp add: item,
       rule step [OF adv(10)], simp add: item)
qed

lemma ploop_unfold: "ploop body a = pbind (body a) (\<lambda>x. case x of Inl a' \<Rightarrow> ploop body a' | Inr b \<Rightarrow> preturn b)"
  by (rule ext, subst ploop.simps) (auto simp: pbind_def preturn_def split: option.split outcome.split sum.split)

lemma runs_sum [runs]: "(\<And>x. v = Inl x \<Longrightarrow> runs T K lo hi (A x)) \<Longrightarrow> (\<And>x. v = Inr x \<Longrightarrow> runs T K lo hi (B x)) \<Longrightarrow>
   runs T K lo hi (case v of Inl x \<Rightarrow> A x | Inr x \<Rightarrow> B x)"
  by (cases v) simp_all

lemma runs_synchronize [runs]: "(\<And>x. hi x \<le> lo) \<Longrightarrow> runs T K lo hi synchronize_to_item"
  unfolding synchronize_to_item_def
  by (rule runs_steps runs runs_last |
      (auto simp: le_SucI is_item_keyword_def is_identifier_kind_def; fail))+

lemma runs_synchronize_moves:
  assumes "\<And>i. K i \<Longrightarrow> \<exists>k. kind_of T i = Some k \<and> \<not> is_item_keyword k"
  shows "runs T K lo (\<lambda>_. Suc lo) synchronize_to_item"
proof -
  let ?body = "\<lambda>_::unit. pbind (pget peek_kind) (\<lambda>k.
     if is_item_keyword k then preturn (Inr ())
     else if k = TNewline then
       pthen padvance (pthen skip_newlines (pbind (pget peek_kind) (\<lambda>k.
         preturn (if is_item_keyword k \<or> is_identifier_kind k then Inr () else Inl ()))))
     else pthen padvance (preturn (Inl ())))"
  have "runs T K lo (\<lambda>_. Suc lo) (?body ())"
  proof (rule runs_peek)
    fix k
    show "runs T (\<lambda>i. K i \<and> kind_of T i = Some k) lo (\<lambda>_. Suc lo) (if is_item_keyword k then preturn (Inr ())
     else if k = TNewline then
       pthen padvance (pthen skip_newlines (pbind (pget peek_kind) (\<lambda>k.
         preturn (if is_item_keyword k \<or> is_identifier_kind k then Inr () else Inl ()))))
     else pthen padvance (preturn (Inl ())))"
    proof (cases "is_item_keyword k")
      case True
      then have no: "\<not> (K i \<and> kind_of T i = Some k)" for i using assms [of i] by auto
      show ?thesis by (rule runsI) (use no in blast)
    next
      case False
      then show ?thesis
        by (simp only: if_False) (rule runs_steps runs runs_last |
          (auto simp: le_SucI is_item_keyword_def; fail))+
    qed
  qed
  moreover have "runs T anywhere (Suc lo) (\<lambda>_. Suc lo) (case x of Inl a' \<Rightarrow> ploop ?body a' | Inr b \<Rightarrow> preturn b)" for x
    using runs_synchronize [of "\<lambda>_. Suc lo" "Suc lo" T anywhere]
    by (cases x) (simp_all add: synchronize_to_item_def runs_preturn)
  ultimately show ?thesis
    unfolding synchronize_to_item_def by (subst ploop_unfold) (rule runs_pbind)
qed

lemma runs_item_or_recover:
  assumes P: "rec_ok E T i P" and le: "i \<le> lo" and k: "\<And>i. K i \<Longrightarrow> toks_ok T \<Longrightarrow> kind_of T i \<noteq> Some TEof" and hi: "\<And>x. hi x \<le> Suc lo"
  shows "runs T K lo hi (parse_item_or_recover E P items)"
proof (rule runsI)
  fix s assume s: "okst T s" "K (ps_index s)" "lo \<le> ps_index s"
  have hi': "hi x \<le> j" if "ps_index s < j" for x j using that hi [of x] s(3) by simp
  have eof: "kind_of T (ps_index s) \<noteq> Some TEof" using k s(1,2) by (simp add: okst_def)
  have run: "runs T (\<lambda>i. kind_of T i \<noteq> Some TEof) (ps_index s) (\<lambda>_. Suc (ps_index s)) (parse_item E P)"
    by (rule runs_parse_item [OF P]) (use le s(3) in simp_all)
  obtain r s1 where r: "parse_item E P s = Some (r, s1)" "okst T s1" "ps_index s \<le> ps_index s1" "r \<noteq> Panic"
    "\<And>x. r = Ok x \<Longrightarrow> Suc (ps_index s) \<le> ps_index s1"
    by (rule runsE [OF run s(1) eof order_refl]) blast
  let ?goal = "\<exists>r s'. parse_item_or_recover E P items s = Some (r, s') \<and> okst T s' \<and> ps_index s \<le> ps_index s' \<and>
      r \<noteq> Panic \<and> (\<forall>x. r = Ok x \<longrightarrow> hi x \<le> ps_index s')"
  show ?goal
  proof (cases r)
    case (Ok x)
    then show ?thesis using r hi' by (auto simp: parse_item_or_recover_def pattempt_def pbind_def preturn_def)
  next
    case (Err d)
    let ?s2 = "s1\<lparr> ps_errors := ps_errors s1 @ [d] \<rparr>"
    have s2: "okst T ?s2" using r(2) by (simp add: okst_def)
    have "\<exists>q s'. synchronize_to_item ?s2 = Some (q, s') \<and> okst T s' \<and> q \<noteq> Panic \<and> ps_index s \<le> ps_index s' \<and>
        (\<forall>x. q = Ok x \<longrightarrow> Suc (ps_index s) \<le> ps_index s')"
    proof (cases "ps_index s < ps_index s1")
      case True
      obtain q s' where "synchronize_to_item ?s2 = Some (q, s')" "okst T s'" "ps_index ?s2 \<le> ps_index s'" "q \<noteq> Panic"
        by (rule runsE [OF runs_synchronize [of "\<lambda>_. 0" "ps_index s1" T anywhere] s2]) auto
      then show ?thesis using True by auto
    next
      case False
      then have same: "ps_index s1 = ps_index s" using r(3) by simp
      have "\<not> is_item_keyword (peek_kind s)"
      proof
        assume *: "is_item_keyword (peek_kind s)"
        have "i \<le> ps_index s" "peek_kind s \<noteq> TEof" using le s(3) eof okst_kind(3) [OF s(1)] by auto
        from item_advances [OF P s(1) this(1) * this(2)] r(1) same show False by auto
      qed
      then have key: "\<exists>k. kind_of T (ps_index ?s2) = Some k \<and> \<not> is_item_keyword k"
        using same okst_kind(3) [OF s(1)] by auto
      obtain q s' where "synchronize_to_item ?s2 = Some (q, s')" "okst T s'" "ps_index ?s2 \<le> ps_index s'" "q \<noteq> Panic"
        "\<And>x. q = Ok x \<Longrightarrow> Suc (ps_index s) \<le> ps_index s'"
        by (rule runsE [OF runs_synchronize_moves [where K = "\<lambda>i. \<exists>k. kind_of T i = Some k \<and> \<not> is_item_keyword k" and lo = "ps_index s"] s2])
          (use same key in auto)
      then show ?thesis using same by auto
    qed
    then obtain q s' where q: "synchronize_to_item ?s2 = Some (q, s')" "okst T s'" "q \<noteq> Panic" "ps_index s \<le> ps_index s'"
      "\<And>x. q = Ok x \<Longrightarrow> Suc (ps_index s) \<le> ps_index s'" by blast
    then show ?thesis using r Err hi'
      by (cases q) (auto simp: parse_item_or_recover_def pattempt_def pbind_def preturn_def push_error_def pmodify_def)
  qed (use r in simp)
qed

lemma runs_parse_items:
  assumes "rec_ok E T i P" "i = 0"
  shows "runs T anywhere 0 (\<lambda>_. 0) (parse_items E P)"
  unfolding parse_items_def
  by (rule runs_steps runs runs_item_or_recover [OF assms(1)] runs_last |
      (insert assms(2), auto simp: le_SucI; fail))+


subsection \<open>The whole parser\<close>

lemma runs_wrap: "runs T K lo (\<lambda>_. n) f \<Longrightarrow> runs T K lo (\<lambda>_. n) (pbind f (\<lambda>x. preturn (v x)))"
  by (rule runs_pbind) (auto intro: runs_preturn)

lemma parse_run_call:
  assumes P: "rec_ok E T i (parse_run E)" and le: "i \<le> lo"
  shows "runs T (\<lambda>i. needs_token c \<longrightarrow> kind_of T i \<noteq> Some TEof) lo (\<lambda>_. if c = CBlock then lo else Suc lo) (parse_run E c)"
proof -
  let ?P = "parse_run E"
  have unfold: "parse_run E c = (case c of
     CExpression \<Rightarrow> pbind (parse_expression E ?P) (\<lambda>e. preturn (VExpr e))
   | CPipeline \<Rightarrow> pbind (parse_pipeline E ?P) (\<lambda>e. preturn (VExpr e))
   | CUnary \<Rightarrow> pbind (parse_unary E ?P) (\<lambda>e. preturn (VExpr e))
   | CPrimary \<Rightarrow> pbind (parse_primary E ?P) (\<lambda>e. preturn (VExpr e))
   | CStatement \<Rightarrow> pbind (parse_statement E ?P) (\<lambda>x. preturn (VStmt x))
   | CBlock \<Rightarrow> pbind (parse_block E ?P) (\<lambda>x. preturn (VBlock x))
   | CPattern \<Rightarrow> pbind (parse_match_pattern E ?P) (\<lambda>x. preturn (VPat x))
   | CTypeAnnotation \<Rightarrow> pbind (parse_type_annotation ?P) (\<lambda>x. preturn (VType x))
   | CTaxonomy \<Rightarrow> pbind (parse_taxonomy_node E ?P) (\<lambda>x. preturn (VTaxonomy x))
   | CErrorDefinition \<Rightarrow> pbind (parse_error_definition ?P) (\<lambda>x. preturn (VError x)))"
    by (rule ext, subst parse_run.simps) (simp split: pcall.split)
  have "runs T K lo (\<lambda>_. Suc lo) (parse_expression E ?P)" "runs T K lo (\<lambda>_. Suc lo) (parse_pipeline E ?P)"
    "runs T K lo (\<lambda>_. Suc lo) (parse_unary E ?P)" "runs T K lo (\<lambda>_. Suc lo) (parse_primary E ?P)"
    "runs T K lo (\<lambda>_. Suc lo) (parse_statement E ?P)" "runs T K lo (\<lambda>_. lo) (parse_block E ?P)"
    "runs T K lo (\<lambda>_. Suc lo) (parse_match_pattern E ?P)" "runs T K lo (\<lambda>_. Suc lo) (parse_type_annotation ?P)" for K
    by (rule runs P le order_refl)+
  moreover have "runs T (\<lambda>i. kind_of T i \<noteq> Some TEof) lo (\<lambda>_. Suc lo) (parse_taxonomy_node E ?P)"
    "runs T (\<lambda>i. kind_of T i \<noteq> Some TEof) lo (\<lambda>_. Suc lo) (parse_error_definition ?P)"
    by (rule runs P le order_refl | assumption)+
  ultimately show ?thesis
    unfolding unfold by (cases c) (simp_all add: needs_token_def runs_wrap)
qed

lemma parse_run_ok:
  assumes "\<forall>e \<in> frags_of T. length e < n" "toks_ok T"
  shows "rec_ok E T i (parse_run E)"
  using assms
proof (induction n arbitrary: T i rule: less_induct)
  case (less n)
  have frag: "runs (shift_tokens offset tokens) anywhere 0 (\<lambda>_. 0) (parse_run E CExpression)"
    if src: "source \<in> frags_of T" "lex (pe_parse_f64 E) source = Ok tokens" for source tokens offset
  proof -
    let ?T = "shift_tokens offset tokens"
    have "frags_of ?T = frags_of tokens"
      by (force simp: frags_of_alt shift_tokens_def)
    then have "\<forall>e \<in> frags_of ?T. length e < length source" using lex_frags [OF src(2)] by blast
    then have "rec_ok E ?T 0 (parse_run E)"
      using less.IH [of "length source" ?T 0] less.prems(1) src lex_toks_ok [OF src(2)] by simp
    from parse_run_call [OF this, of 0 CExpression] show ?thesis
      by (rule runs_weaken) (simp_all add: needs_token_def)
  qed
  show ?case
  proof (induction "length T - i" arbitrary: i rule: less_induct)
    case inner: less
    show ?case
      unfolding rec_ok_def
    proof (intro conjI allI impI)
      fix c lo assume "i < lo"
      let ?runs = "runs T (\<lambda>i. needs_token c \<longrightarrow> kind_of T i \<noteq> Some TEof) lo (\<lambda>_. if c = CBlock then lo else Suc lo) (parse_run E c)"
      show ?runs
      proof (cases "lo < length T")
        case True
        then have "rec_ok E T lo (parse_run E)" using inner [of lo] \<open>i < lo\<close> by simp
        then show ?thesis by (rule parse_run_call) simp
      next
        case False
        then show ?thesis by (intro runsI) (auto simp: okst_def)
      qed
    qed (rule frag)
  qed
qed

text \<open>The loop over the items keeps its errors to itself, and it stops at the end of the file only.\<close>

definition no_err :: "'a parser \<Rightarrow> bool" where
  "no_err f \<longleftrightarrow> (\<forall>s e s'. f s \<noteq> Some (Err e, s'))"

lemma no_err_pbind: "no_err A \<Longrightarrow> (\<And>x. no_err (B x)) \<Longrightarrow> no_err (pbind A B)"
  unfolding no_err_def pbind_def by (auto split: option.split outcome.split)

lemma no_err_ploop:
  fixes body :: "'a \<Rightarrow> ('a + 'b) parser"
  assumes "\<And>a. no_err (body a)"
  shows "no_err (ploop body a)"
proof -
  have "ploop body a s = Some q \<Longrightarrow> (\<forall>a. no_err (body a)) \<longrightarrow> fst q \<noteq> Err e" for s q e
  proof (erule ploop.raw_induct [rotated, where P = "\<lambda>f a s q. (\<forall>a. no_err (f a)) \<longrightarrow> fst q \<noteq> Err e"])
    fix loop :: "('a \<Rightarrow> ('a + 'b) parser) \<Rightarrow> 'a \<Rightarrow> 'b parser" and body a s q
    assume IH: "\<And>f a s q. loop f a s = Some q \<Longrightarrow> (\<forall>a. no_err (f a)) \<longrightarrow> fst q \<noteq> Err e"
      and eq: "(case body a s of None \<Rightarrow> None | Some (r, s') \<Rightarrow>
        (case r of Ok x \<Rightarrow> (case x of Inl a' \<Rightarrow> loop body a' s' | Inr b \<Rightarrow> Some (Ok b, s'))
         | Err e \<Rightarrow> Some (Err e, s') | Panic \<Rightarrow> Some (Panic, s'))) = Some q"
    show "(\<forall>a. no_err (body a)) \<longrightarrow> fst q \<noteq> Err e"
      using eq IH [of body _ _ q] by (fastforce simp: no_err_def split: option.splits outcome.splits sum.splits)
  qed
  then show ?thesis using assms by (force simp: no_err_def)
qed

lemma ploop_stops:
  fixes body :: "'a \<Rightarrow> ('a + 'b) parser"
  assumes "ploop body a s = Some (Ok b, s')"
  shows "\<exists>a1 s1. body a1 s1 = Some (Ok (Inr b), s')"
proof -
  have "fst q = Ok b \<longrightarrow> (\<exists>a1 s1. body a1 s1 = Some (Ok (Inr b), snd q))" if "ploop body a s = Some q" for q
    using that
  proof (rule ploop.raw_induct [rotated, where P = "\<lambda>f a s q. fst q = Ok b \<longrightarrow> (\<exists>a1 s1. f a1 s1 = Some (Ok (Inr b), snd q))"])
    fix loop :: "('a \<Rightarrow> ('a + 'b) parser) \<Rightarrow> 'a \<Rightarrow> 'b parser" and body a s q
    assume IH: "\<And>f a s q. loop f a s = Some q \<Longrightarrow> fst q = Ok b \<longrightarrow> (\<exists>a1 s1. f a1 s1 = Some (Ok (Inr b), snd q))"
      and eq: "(case body a s of None \<Rightarrow> None | Some (r, s') \<Rightarrow>
        (case r of Ok x \<Rightarrow> (case x of Inl a' \<Rightarrow> loop body a' s' | Inr b \<Rightarrow> Some (Ok b, s'))
         | Err e \<Rightarrow> Some (Err e, s') | Panic \<Rightarrow> Some (Panic, s'))) = Some q"
    show "fst q = Ok b \<longrightarrow> (\<exists>a1 s1. body a1 s1 = Some (Ok (Inr b), snd q))"
      using eq IH [of body _ _ q] by (auto split: option.splits outcome.splits sum.splits; blast)
  qed
  from this [OF assms] show ?thesis by simp
qed

lemma no_err_basic: "no_err (preturn x)" "no_err padvance" "no_err (pget h)" "no_err (pmodify g)" "no_err (pattempt p)"
  by (auto simp: no_err_def preturn_def padvance_def pget_def pmodify_def pattempt_def split: option.split outcome.split)

lemma no_err_cases:
  "(b \<Longrightarrow> no_err A) \<Longrightarrow> (\<not> b \<Longrightarrow> no_err B) \<Longrightarrow> no_err (if b then A else B)"
  "(\<And>x. no_err (L x)) \<Longrightarrow> (\<And>x. no_err (R x)) \<Longrightarrow> no_err (case v of Inl x \<Rightarrow> L x | Inr x \<Rightarrow> R x)"
  by (auto split: sum.split)

lemma no_err_parse_items: "no_err (parse_items E P)"
  unfolding parse_items_def parse_item_or_recover_def skip_newlines_def pwhile_def synchronize_to_item_def close_block_def
    leave_layout_block_def report_unexpected_dedent_def record_error_def push_error_def
  by (intro no_err_pbind no_err_ploop no_err_basic no_err_cases)

lemma parse_items_stops: "parse_items E P s = Some (Ok items, s') \<Longrightarrow> pcheck TEof s'"
proof -
  assume "parse_items E P s = Some (Ok items, s')"
  then obtain a1 s1 where "(\<lambda>items. pbind (pget (pcheck TEof)) (\<lambda>eof.
     if eof then preturn (Inr items)
     else pbind (pget (pcheck TDedent)) (\<lambda>dedent.
     if dedent then pthen close_block (preturn (Inl items))
     else pbind (parse_item_or_recover E P items) (\<lambda>items. pthen skip_newlines (preturn (Inl items)))))) a1 s1 =
     Some (Ok (Inr items :: item list + item list), s')"
    unfolding parse_items_def pbind_def [of skip_newlines]
    by (auto split: option.splits outcome.splits dest!: ploop_stops)
  then show ?thesis
    by (auto simp: pbind_def pget_def preturn_def split: if_splits option.splits outcome.splits)
qed

lemma run_items_returns:
  assumes "lex (pe_parse_f64 E) source = Ok tokens"
  shows "\<exists>items s. run_items E tokens n = Some (Ok items, s) \<and> ps_tokens s = tokens \<and> Suc (ps_index s) = length tokens"
proof -
  let ?s = "parser_new tokens n"
  have T: "toks_ok tokens" by (rule lex_toks_ok [OF assms])
  have "rec_ok E tokens 0 (parse_run E)"
    by (rule parse_run_ok [where n = "length source", OF _ T]) (use lex_frags [OF assms] in blast)
  then have run: "runs tokens anywhere 0 (\<lambda>_. 0) (parse_items E (parse_run E))" by (rule runs_parse_items) simp
  have s: "okst tokens ?s" using T by (simp add: okst_def parser_new_def toks_ok_def)
  obtain r s' where r: "parse_items E (parse_run E) ?s = Some (r, s')" "okst tokens s'" "r \<noteq> Panic"
    by (rule runsE [OF run s TrueI]) auto
  have "r \<noteq> Err e" for e using no_err_parse_items r(1) unfolding no_err_def by blast
  then obtain items where items: "r = Ok items" using r(3) by (cases r) auto
  have "pcheck TEof s'" using parse_items_stops r(1) items by blast
  then have "Suc (ps_index s') = length tokens"
    using okst_kind(2) [OF r(2)] T unfolding toks_ok_def by blast
  then show ?thesis using r items by (simp add: run_items_def okst_def)
qed

subsection \<open>What the parser promises\<close>

text \<open>
  C4: for every source the parser returns and does not panic. When the lexer rejects the source the error
  is the lexer's; else every token is read: the loop over the items succeeds, with the position at the
  last token.
\<close>

theorem parser_returns:
  "case lex (pe_parse_f64 E) source of
     Ok tokens \<Rightarrow> (\<exists>items s. run_items E tokens (utf8_len source) = Some (Ok items, s) \<and>
         ps_tokens s = tokens \<and> Suc (ps_index s) = length tokens \<and>
         parse_source E source = Some (case all_errors s of
           [] \<Rightarrow> Ok (program_new items (span_new 0 (utf8_len source))) | e # _ \<Rightarrow> Err e))
   | Err e \<Rightarrow> parse_source E source = Some (Err e)
   | Panic \<Rightarrow> False"
proof (cases "lex (pe_parse_f64 E) source")
  case (Ok tokens)
  from run_items_returns [OF this] Ok show ?thesis
    by (fastforce simp: parse_source_def parse_def)
qed (use lex_no_panic in \<open>simp_all add: parse_source_def\<close>)

text \<open>
  The two loops over the items do the same, and so the recovering parser always gives a program on the
  tokens of a source, and the other one is determined by it: the program when no errors were found, or
  else the first of the errors.
\<close>

lemma pbind_assoc: "pbind (pbind p f) g = pbind p (\<lambda>x. pbind (f x) g)"
  by (auto simp: pbind_def fun_eq_iff split: option.split outcome.split)

lemma pbind_preturn: "pbind (preturn x) f = f x"
  by (simp add: pbind_def preturn_def fun_eq_iff)

lemma recovery_items_eq: "recovery_items E P = parse_items E P"
  by (simp only: recovery_items_def parse_items_def parse_item_or_recover_def close_block_def pbind_assoc pbind_preturn)

lemma parse_is_recovery:
  assumes "lex (pe_parse_f64 E) source = Ok tokens"
  shows "\<exists>p errors. parse_with_recovery E tokens n = Some (Ok (p, errors)) \<and>
    parse E tokens n = Some (case errors of [] \<Rightarrow> Ok p | e # _ \<Rightarrow> Err e)"
proof -
  obtain items s where "run_items E tokens n = Some (Ok items, s)"
    using run_items_returns [OF assms] by blast
  then show ?thesis
    by (simp add: parse_def parse_with_recovery_def run_items_def recovery_items_eq all_errors_def Let_def)
qed

end
