(* ===== verification/Parser_Print.thy ===== *)
theory Parser_Print
  imports Parser_Total
begin

text \<open>
  Expressions as trees without positions, the tokens they are written with (parentheses only where the
  operator binds less tightly than its context), and the parser seen by contexts: \<open>level_parser\<close> is the
  tower of the levels of operators, \<open>continue\<close> what a level does after an operand. \<open>parses E c t\<close> says
  that the parser of the context \<open>c\<close> reads the tree \<open>t\<close>; \<open>parses_all\<close> reduces it to the context of the
  outermost operator.
\<close>

subsection \<open>Expressions without positions, and how they are written\<close>

datatype op_tree =
    TInt int
  | TName rstr
  | TBool bool
  | TNeg op_tree
  | TNot op_tree
  | TBinary binary_op op_tree op_tree
  | TPipe op_tree op_tree
  | TTernary op_tree op_tree op_tree
  | TMember op_tree rstr
  | TIndex op_tree op_tree
  | TCall op_tree "op_tree list"

text \<open>The contexts, from the tightest: 0 a call or member, 1 a unary operator, 2 to 12 the binary operators, 13 the whole.\<close>

fun op_level :: "binary_op \<Rightarrow> nat" where
  "op_level BinMul = 2" | "op_level BinDiv = 2" | "op_level BinMod = 2"
| "op_level BinAdd = 3" | "op_level BinSub = 3"
| "op_level BinShiftLeft = 4" | "op_level BinShiftRight = 4"
| "op_level BinGreater = 5" | "op_level BinGreaterEq = 5" | "op_level BinLess = 5" | "op_level BinLessEq = 5"
| "op_level BinEquals = 6" | "op_level BinNotEquals = 6"
| "op_level BinBitAnd = 7" | "op_level BinBitXor = 8" | "op_level BinBitOr = 9"
| "op_level BinAnd = 10" | "op_level BinOr = 11"

fun op_kind :: "binary_op \<Rightarrow> token_kind" where
  "op_kind BinMul = SY SStar" | "op_kind BinDiv = SY SSlash" | "op_kind BinMod = SY SPercent"
| "op_kind BinAdd = SY SPlus" | "op_kind BinSub = SY SMinus"
| "op_kind BinShiftLeft = SY SShiftLeft" | "op_kind BinShiftRight = SY SShiftRight"
| "op_kind BinGreater = SY SGreater" | "op_kind BinGreaterEq = SY SGreaterEq"
| "op_kind BinLess = SY SLess" | "op_kind BinLessEq = SY SLessEq"
| "op_kind BinEquals = KW KeywordIs" | "op_kind BinNotEquals = KW KeywordIsnt"
| "op_kind BinBitAnd = SY SAmpersand" | "op_kind BinBitXor = SY SCaret" | "op_kind BinBitOr = SY SPipe"
| "op_kind BinAnd = KW KeywordAnd" | "op_kind BinOr = KW KeywordOr"

fun tree_level :: "op_tree \<Rightarrow> nat" where
  "tree_level (TNeg _) = 1"
| "tree_level (TNot _) = 1"
| "tree_level (TBinary op _ _) = op_level op"
| "tree_level (TPipe _ _) = 12"
| "tree_level (TTernary _ _ _) = 13"
| "tree_level _ = 0"

fun commas :: "token_kind list list \<Rightarrow> token_kind list" where
  "commas [] = []"
| "commas [ks] = ks"
| "commas (ks # kss) = ks @ [SY SComma] @ commas kss"

text \<open>The tokens of an expression in a context: parentheses only where the operator binds less tightly.\<close>

definition paren :: "bool \<Rightarrow> token_kind list \<Rightarrow> token_kind list" where
  "paren b ks = (if b then [SY SLParen] @ ks @ [SY SRParen] else ks)"

fun print_tree :: "nat \<Rightarrow> op_tree \<Rightarrow> token_kind list" where
  "print_tree c (TInt n) = [TInteger n]"
| "print_tree c (TName x) = [TIdentifier x]"
| "print_tree c (TBool b) = [KW (if b then KeywordTrue else KeywordFalse)]"
| "print_tree c (TNeg t) = paren (c < 1) ([SY SMinus] @ print_tree 1 t)"
| "print_tree c (TNot t) = paren (c < 1) ([SY SBang] @ print_tree 1 t)"
| "print_tree c (TBinary op l r) =
     paren (c < op_level op) (print_tree (op_level op) l @ [op_kind op] @ print_tree (op_level op - 1) r)"
| "print_tree c (TPipe l r) = paren (c < 12) (print_tree 12 l @ [SY STilde] @ print_tree 11 r)"
| "print_tree c (TTernary a t e) =
     paren (c < 13) (print_tree 12 a @ [SY SQuestion] @ print_tree 12 t @ [SY SBang] @ print_tree 13 e)"
| "print_tree c (TMember t x) = print_tree 0 t @ [SY SDot, TIdentifier x]"
| "print_tree c (TIndex t i) = print_tree 0 t @ [SY SLBracket] @ print_tree 13 i @ [SY SRBracket]"
| "print_tree c (TCall f as) = print_tree 0 f @ [SY SLParen] @ commas (map (print_tree 13) as) @ [SY SRParen]"

text \<open>The expressions of the parser that have this form.\<close>

fun reads :: "op_tree \<Rightarrow> expression \<Rightarrow> bool" where
  "reads (TInt n) e = (case e of EInteger m _ \<Rightarrow> m = n | _ \<Rightarrow> False)"
| "reads (TName x) e = (case e of EIdentifier y _ \<Rightarrow> y = x | _ \<Rightarrow> False)"
| "reads (TBool b) e = (case e of EBool d _ \<Rightarrow> d = b | _ \<Rightarrow> False)"
| "reads (TNeg t) e = (case e of EUnary op u _ \<Rightarrow> op = UnNeg \<and> reads t u | _ \<Rightarrow> False)"
| "reads (TNot t) e = (case e of EUnary op u _ \<Rightarrow> op = UnNot \<and> reads t u | _ \<Rightarrow> False)"
| "reads (TBinary op l r) e = (case e of EBinary p x y _ \<Rightarrow> p = op \<and> reads l x \<and> reads r y | _ \<Rightarrow> False)"
| "reads (TPipe l r) e = (case e of EPipeline x y _ \<Rightarrow> reads l x \<and> reads r y | _ \<Rightarrow> False)"
| "reads (TTernary a t f) e = (case e of ETernary x y z _ \<Rightarrow> reads a x \<and> reads t y \<and> reads f z | _ \<Rightarrow> False)"
| "reads (TMember t x) e = (case e of EMember u y _ \<Rightarrow> y = x \<and> reads t u | _ \<Rightarrow> False)"
| "reads (TIndex t i) e = (case e of EIndex u v _ \<Rightarrow> reads t u \<and> reads i v | _ \<Rightarrow> False)"
| "reads (TCall f as) e = (case e of ECall g es names _ \<Rightarrow> reads f g \<and> list_all2 reads as es \<and> names = [] | _ \<Rightarrow> False)"

text \<open>\<open>map\<close> followed by a parenthesis is a literal: it is not used as a name.\<close>

fun tree_ok :: "op_tree \<Rightarrow> bool" where
  "tree_ok (TName x) \<longleftrightarrow> x \<noteq> rs ''map''"
| "tree_ok (TNeg t) \<longleftrightarrow> tree_ok t"
| "tree_ok (TNot t) \<longleftrightarrow> tree_ok t"
| "tree_ok (TBinary op l r) \<longleftrightarrow> tree_ok l \<and> tree_ok r"
| "tree_ok (TPipe l r) \<longleftrightarrow> tree_ok l \<and> tree_ok r"
| "tree_ok (TTernary a t e) \<longleftrightarrow> tree_ok a \<and> tree_ok t \<and> tree_ok e"
| "tree_ok (TMember t x) \<longleftrightarrow> tree_ok t"
| "tree_ok (TIndex t i) \<longleftrightarrow> tree_ok t \<and> tree_ok i"
| "tree_ok (TCall f as) \<longleftrightarrow> tree_ok f \<and> list_all tree_ok as"
| "tree_ok _ \<longleftrightarrow> True"

subsection \<open>Running a parser on the tokens ahead\<close>

definition kinds :: "pstate \<Rightarrow> token_kind list" where
  "kinds s = map t_kind (drop (ps_index s) (ps_tokens s))"

definition fwd :: "nat \<Rightarrow> pstate \<Rightarrow> pstate" where
  "fwd n s = s\<lparr> ps_index := ps_index s + n \<rparr>"

lemma fwd_simps [simp]: "fwd 0 s = s" "fwd m (fwd n s) = fwd (n + m) s" "ps_index (fwd n s) = ps_index s + n"
  by (simp_all add: fwd_def add.assoc)

lemma kinds_fwd [simp]: "kinds (fwd n s) = drop n (kinds s)"
  by (simp add: kinds_def fwd_def drop_map add.commute)

lemma kind_at_kinds: "kind_at n s = (if n < length (kinds s) then Some (kinds s ! n) else None)"
  by (auto simp: kind_at_def token_at_def kinds_def)

lemma kinds_Nil: "kinds s = [] \<longleftrightarrow> \<not> ps_index s < length (ps_tokens s)"
  by (auto simp: kinds_def)

lemma hd_kinds: "kinds s \<noteq> [] \<Longrightarrow> hd (kinds s) = t_kind (ps_tokens s ! ps_index s)"
  by (simp add: kinds_Nil kinds_def hd_map hd_drop_conv_nth)

lemma pcheck_kinds: "pcheck k s \<longleftrightarrow> (case kinds s of [] \<Rightarrow> False | k' # _ \<Rightarrow> k' = k)"
  by (auto simp: pcheck_def kind_at_kinds split: list.split)

lemma peek_kinds: "peek_kind s = (case kinds s of [] \<Rightarrow> TEof | k # _ \<Rightarrow> k)"
  using hd_kinds [of s] kinds_Nil [of s] by (auto simp: peek_kind_def token_at_def split: list.split)

lemma peek_next_kinds: "peek_next_kind s = (case kinds s of _ # k # _ \<Rightarrow> Some k | _ \<Rightarrow> None)"
  by (auto simp: peek_next_kind_def kind_at_kinds split: list.split)

definition cur_token :: "pstate \<Rightarrow> token" where
  "cur_token s = (case token_at (ps_index s) s of Some t \<Rightarrow> t
       | None \<Rightarrow> token_new TEof (ps_source_len s) (ps_source_len s))"

lemma cur_token_kind: "t_kind (cur_token s) = (case kinds s of [] \<Rightarrow> TEof | k # _ \<Rightarrow> k)"
  using hd_kinds [of s] kinds_Nil [of s] by (auto simp: cur_token_def token_at_def token_new_def split: list.split)

lemma padvance_run: "padvance s = Some (Ok (cur_token s), fwd 1 s)"
  by (simp add: padvance_def cur_token_def fwd_def)

lemma pexpect_run: "kinds s = k # ks \<Longrightarrow> pexpect k m s = Some (Ok (cur_token s), fwd 1 s)"
  by (simp add: pexpect_def pbind_def pget_def pcheck_kinds padvance_run)

lemma pmatches_run: "pmatches k s = (if pcheck k s then Some (Ok True, fwd 1 s) else Some (Ok False, s))"
  by (simp add: pmatches_def pbind_def pget_def preturn_def padvance_run)

lemma pbind_known [simp]: "pbind (preturn x) B = B x" "pbind (pget (\<lambda>s. c)) B = B c"
  by (simp_all add: fun_eq_iff pbind_def preturn_def pget_def)

lemmas run_simps = pbind_def preturn_def pget_def padvance_run pexpect_run pmatches_run pcheck_kinds
  peek_kinds peek_next_kinds cur_token_kind

lemma skip_newlines_run: "skip_newlines s = Some (Ok (), fwd (length (takeWhile (\<lambda>k. k = TNewline) (kinds s))) s)"
proof (induction "length (kinds s)" arbitrary: s)
  case 0
  then show ?case
    by (simp add: skip_newlines_def pwhile_def, subst ploop.simps) (simp add: run_simps)
next
  case (Suc n)
  then obtain k ks where k: "kinds s = k # ks" by (cases "kinds s") auto
  have IH: "skip_newlines (fwd 1 s) = Some (Ok (), fwd (length (takeWhile (\<lambda>k. k = TNewline) ks)) (fwd 1 s))"
    using Suc.hyps(1) [of "fwd 1 s"] Suc.hyps(2) k by simp
  show ?case
    using IH k unfolding skip_newlines_def pwhile_def by (subst ploop.simps) (simp add: run_simps)
qed


subsection \<open>The parser by contexts\<close>

fun level_ops :: "nat \<Rightarrow> token_kind \<Rightarrow> (expression \<Rightarrow> expression \<Rightarrow> span \<Rightarrow> expression) option" where
  "level_ops n = (if n = 2 then factor_op else if n = 3 then term_op else if n = 4 then shift_op
     else if n = 5 then comparison_op else if n = 6 then equality_op else if n = 7 then bitand_op
     else if n = 8 then bitxor_op else if n = 9 then bitor_op else if n = 10 then and_op
     else if n = 11 then or_op else if n = 12 then pipeline_op else (\<lambda>_. None))"

declare level_ops.simps [simp del]

fun level_parser :: "parser_env \<Rightarrow> nat \<Rightarrow> expression parser" where
  "level_parser E 0 = parse_call E (parse_run E)"
| "level_parser E (Suc 0) = parse_unary E (parse_run E)"
| "level_parser E (Suc (Suc n)) = binary_level (level_ops (Suc (Suc n))) (level_parser E (Suc n))"

lemma level_parser_pipeline: "level_parser E 12 = parse_pipeline E (parse_run E)"
  by (simp add: numeral_eq_Suc level_ops.simps parse_pipeline_def parse_logic_or_def parse_logic_and_def
      parse_bitwise_or_def parse_bitwise_xor_def parse_bitwise_and_def parse_equality_def parse_comparison_def
      parse_shift_def parse_term_def parse_factor_def)

definition operator_step :: "parser_env \<Rightarrow> nat \<Rightarrow> expression \<Rightarrow> (expression + expression) parser" where
  "operator_step E n e = pbind (pget peek_kind) (\<lambda>k. case level_ops n k of
       None \<Rightarrow> preturn (Inr e)
     | Some mk \<Rightarrow> pthen padvance (pbind (level_parser E (n - 1)) (\<lambda>rhs.
         preturn (Inl (mk e rhs (span_join (expr_span e) (expr_span rhs)))))))"

text \<open>What a parser of a context does after an operand of that context.\<close>

definition continue :: "parser_env \<Rightarrow> nat \<Rightarrow> expression \<Rightarrow> expression parser" where
  "continue E c = (if c = 0 then ploop (parse_call_suffix (parse_run E)) else if c = 1 then preturn
     else ploop (operator_step E c))"

lemma level_parser_Suc: "0 < n \<Longrightarrow> level_parser E (Suc n) = pbind (level_parser E n) (continue E (Suc n))"
  by (cases n) (simp_all add: binary_level_def continue_def operator_step_def [abs_def] cong: option.case_cong)

text \<open>The tokens that end an operand of a context.\<close>

definition ends_operand :: "nat \<Rightarrow> token_kind list \<Rightarrow> bool" where
  "ends_operand c ks \<longleftrightarrow> ks \<noteq> [] \<and>
     (0 < c \<longrightarrow> hd ks \<notin> {SY SLParen, SY SDot, SY SLBracket, KW KeywordDo}) \<and>
     (\<forall>m. 2 \<le> m \<and> m < c \<longrightarrow> level_ops m (hd ks) = None) \<and>
     (case dropWhile (\<lambda>k. k = TNewline) ks of [] \<Rightarrow> True | k # _ \<Rightarrow> k \<noteq> KW KeywordDo)"

lemma ends_operand_mono: "ends_operand c ks \<Longrightarrow> c' \<le> c \<Longrightarrow> ends_operand c' ks"
  by (auto simp: ends_operand_def)

lemma continue_ends: "ends_operand (Suc c) (kinds s) \<Longrightarrow> continue E c e s = Some (Ok e, s)"
proof -
  assume a: "ends_operand (Suc c) (kinds s)"
  then obtain k ks where k: "kinds s = k # ks" "k \<notin> {SY SLParen, SY SDot, SY SLBracket, KW KeywordDo}"
    by (cases "kinds s") (auto simp: ends_operand_def)
  consider "c = 0" | "c = 1" | "2 \<le> c" by linarith
  then show ?thesis
  proof cases
    case 1
    then show ?thesis using k by (simp add: continue_def, subst ploop.simps) (simp add: parse_call_suffix_def run_simps)
  next
    case 3
    then have "level_ops c k = None" using a k by (simp add: ends_operand_def)
    then show ?thesis using k 3 by (simp add: continue_def, subst ploop.simps) (simp add: operator_step_def run_simps)
  qed (simp add: continue_def preturn_def)
qed

lemma continue_operator:
  assumes "2 \<le> c" "kinds s = k # ks" "level_ops c k = Some mk" "level_parser E (c - 1) (fwd 1 s) = Some (Ok r, s')"
  shows "continue E c e s = continue E c (mk e r (span_join (expr_span e) (expr_span r))) s'"
  using assms by (simp add: continue_def, subst ploop.simps) (simp add: operator_step_def run_simps)

lemma continue_suffix:
  assumes "parse_call_suffix (parse_run E) e s = Some (Ok (Inl e'), s')"
  shows "continue E 0 e s = continue E 0 e' s'"
  using assms by (simp add: continue_def, subst ploop.simps) simp

lemma rec_run:
  "rec_expression (parse_run E) = parse_expression E (parse_run E)"
  "rec_unary (parse_run E) = parse_unary E (parse_run E)"
  by (rule ext; simp add: pcall_as_def pbind_def; subst parse_run.simps;
      simp add: pbind_def preturn_def split: option.split outcome.split)+


subsection \<open>The first token\<close>

definition starts_expression :: "token_kind \<Rightarrow> bool" where
  "starts_expression k \<longleftrightarrow> (case k of TInteger _ \<Rightarrow> True | TIdentifier _ \<Rightarrow> True
     | TKeyword w \<Rightarrow> w \<in> {KeywordTrue, KeywordFalse} | TSymbol y \<Rightarrow> y \<in> {SMinus, SBang, SLParen} | _ \<Rightarrow> False)"

lemma op_level_bounds: "2 \<le> op_level op" "op_level op \<le> 11"
  by (cases op; simp)+

lemma print_starts: "\<exists>k ks. print_tree c t = k # ks \<and> starts_expression k \<and> (c = 0 \<longrightarrow> k \<noteq> SY SMinus \<and> k \<noteq> SY SBang)"
proof (induction c t rule: print_tree.induct)
  case (6 c op l r)
  then show ?case using op_level_bounds [of op] by (auto simp: paren_def starts_expression_def)
qed (auto simp: paren_def starts_expression_def)

lemma print_no_colon: "SY SColon \<notin> set (print_tree c t)"
proof -
  have commas: "SY SColon \<notin> set (commas kss) \<longleftrightarrow> (\<forall>ks \<in> set kss. SY SColon \<notin> set ks)" for kss
    by (induction kss rule: commas.induct) auto
  have op: "op_kind op \<noteq> SY SColon" for op by (cases op) simp_all
  show ?thesis
    by (induction c t rule: print_tree.induct) (auto simp: paren_def commas op op [symmetric])
qed

lemma print_level:
  "tree_level t \<le> c \<Longrightarrow> c \<le> 13 \<Longrightarrow> print_tree c t = print_tree 13 t"
  "c < tree_level t \<Longrightarrow> print_tree c t = [SY SLParen] @ print_tree 13 t @ [SY SRParen]"
proof -
  show "tree_level t \<le> c \<Longrightarrow> c \<le> 13 \<Longrightarrow> print_tree c t = print_tree 13 t"
  proof (cases t)
    case (TBinary op l r)
    then show "tree_level t \<le> c \<Longrightarrow> ?thesis" using op_level_bounds(2) [of op] by (simp add: paren_def)
  qed (simp_all add: paren_def)
  show "c < tree_level t \<Longrightarrow> print_tree c t = [SY SLParen] @ print_tree 13 t @ [SY SRParen]"
  proof (cases t)
    case (TBinary op l r)
    then show "c < tree_level t \<Longrightarrow> ?thesis" using op_level_bounds(2) [of op] by (simp add: paren_def)
  qed (simp_all add: paren_def)
qed

subsection \<open>Contexts\<close>

definition parses :: "parser_env \<Rightarrow> nat \<Rightarrow> op_tree \<Rightarrow> bool" where
  "parses E c t \<longleftrightarrow> (\<forall>s rest. kinds s = print_tree c t @ rest \<longrightarrow> ends_operand c rest \<longrightarrow>
     (\<exists>e. reads t e \<and> level_parser E c s = continue E c e (fwd (length (print_tree c t)) s)))"

text \<open>The tokens that end an expression.\<close>

definition ends_expression :: "token_kind list \<Rightarrow> bool" where
  "ends_expression ks \<longleftrightarrow> ends_operand 13 ks \<and> hd ks \<noteq> SY SQuestion \<and>
     (case ks of k # k' # _ \<Rightarrow> \<not> (k = SY SBang \<and> k' \<in> {KW KeywordReturn, KW KeywordErr}) | _ \<Rightarrow> True)"

definition parses_whole :: "parser_env \<Rightarrow> op_tree \<Rightarrow> bool" where
  "parses_whole E t \<longleftrightarrow> (\<forall>s rest. kinds s = print_tree 13 t @ rest \<longrightarrow> ends_expression rest \<longrightarrow>
     (\<exists>e. reads t e \<and> parse_expression E (parse_run E) s = Some (Ok e, fwd (length (print_tree 13 t)) s)))"

lemma parses_complete:
  assumes "parses E c t" "kinds s = print_tree c t @ rest" "ends_operand (Suc c) rest"
  obtains e where "reads t e" "level_parser E c s = Some (Ok e, fwd (length (print_tree c t)) s)"
proof -
  obtain e where e: "reads t e" "level_parser E c s = continue E c e (fwd (length (print_tree c t)) s)"
    using assms ends_operand_mono [OF assms(3), of c] unfolding parses_def by fastforce
  have "continue E c e (fwd (length (print_tree c t)) s) = Some (Ok e, fwd (length (print_tree c t)) s)"
    by (rule continue_ends) (use assms in simp)
  then show ?thesis using e that by simp
qed

lemma parses_Suc:
  assumes "parses E c t" "print_tree (Suc c) t = print_tree c t"
  shows "parses E (Suc c) t"
  unfolding parses_def
proof (intro allI impI)
  fix s rest
  assume s: "kinds s = print_tree (Suc c) t @ rest" and rest: "ends_operand (Suc c) rest"
  have s': "kinds s = print_tree c t @ rest" using s assms(2) by simp
  let ?s = "fwd (length (print_tree c t)) s"
  obtain e where e: "reads t e" "level_parser E c s = Some (Ok e, ?s)"
    by (rule parses_complete [OF assms(1) s' rest])
  have "level_parser E (Suc c) s = continue E (Suc c) e ?s"
  proof (cases c)
    case 0
    obtain k ks where "print_tree c t = k # ks" "k \<noteq> SY SMinus" "k \<noteq> SY SBang"
      using print_starts [of c t] 0 by blast
    then have "level_parser E (Suc c) s = level_parser E c s"
      using s' 0 by (simp add: parse_unary_def run_simps)
    then show ?thesis using e 0 by (simp add: continue_def preturn_def)
  next
    case (Suc n)
    then show ?thesis using e by (simp add: level_parser_Suc pbind_def del: level_parser.simps)
  qed
  then show "\<exists>e. reads t e \<and> level_parser E (Suc c) s = continue E (Suc c) e (fwd (length (print_tree (Suc c) t)) s)"
    using e(1) assms(2) by auto
qed

lemma parses_upto:
  assumes "parses E c t" "c \<le> d" "\<And>b. c \<le> b \<Longrightarrow> b \<le> d \<Longrightarrow> print_tree b t = print_tree c t"
  shows "parses E d t"
proof (rule dec_induct [OF assms(2)])
  fix n assume n: "c \<le> n" "n < d" "parses E n t"
  have "print_tree (Suc n) t = print_tree n t" using assms(3) [of "Suc n"] assms(3) [of n] n by simp
  with n(3) show "parses E (Suc n) t" by (rule parses_Suc)
qed (rule assms(1))

lemma parses_expression:
  assumes "parses E 12 t" "print_tree 12 t = print_tree 13 t"
  shows "parses_whole E t"
  unfolding parses_whole_def
proof (intro allI impI)
  fix s rest
  assume s: "kinds s = print_tree 13 t @ rest" and rest: "ends_expression rest"
  have "kinds s = print_tree 12 t @ rest" using s assms(2) by simp
  moreover have "ends_operand (Suc 12) rest" using rest by (simp add: ends_expression_def)
  ultimately obtain e where e: "reads t e" "parse_pipeline E (parse_run E) s = Some (Ok e, fwd (length (print_tree 12 t)) s)"
    using parses_complete [OF assms(1)] level_parser_pipeline by metis
  let ?s = "fwd (length (print_tree 12 t)) s"
  have k: "kinds ?s = rest" using s assms(2) by simp
  have quiet: "\<not> pcheck (SY SQuestion) ?s" "\<not> (pcheck (SY SBang) ?s \<and> check_ahead 1 (KW KeywordReturn) ?s)"
    "\<not> (pcheck (SY SBang) ?s \<and> check_ahead 1 (KW KeywordErr) ?s)"
    using rest unfolding pcheck_kinds check_ahead_def kind_at_kinds k ends_expression_def
    by (auto simp: nth_Cons' split: list.splits if_splits)
  have "parse_expression E (parse_run E) s = Some (Ok e, fwd (length (print_tree 12 t)) s)"
    unfolding parse_expression_def parse_ternary_or_propagate_def pbind_def [of "parse_pipeline _ _"] e(2)
    using quiet by (auto simp: run_simps(1-3))
  then show "\<exists>e. reads t e \<and> parse_expression E (parse_run E) s = Some (Ok e, fwd (length (print_tree 13 t)) s)"
    using e(1) assms(2) by auto
qed

text \<open>In parentheses.\<close>

lemma ends_at_paren: "ends_expression (SY SRParen # rest)" "ends_expression (SY SComma # rest)"
    "ends_expression (SY SRBracket # rest)"
  by (auto simp: ends_expression_def ends_operand_def level_ops.simps factor_op_def term_op_def shift_op_def
      comparison_op_def equality_op_def bitand_op_def bitxor_op_def bitor_op_def and_op_def or_op_def pipeline_op_def
      split: list.split)

lemma parses_paren:
  assumes "parses_whole E t" "0 < tree_level t"
  shows "parses E 0 t"
  unfolding parses_def
proof (intro allI impI)
  fix s rest
  assume s: "kinds s = print_tree 0 t @ rest" and rest: "ends_operand 0 rest"
  note p = print_level(2) [OF assms(2)]
  let ?n = "length (print_tree 13 t)"
  obtain k ks where k: "print_tree 13 t = k # ks" "starts_expression k" using print_starts [of 13 t] by blast
  have "kinds (fwd 1 s) = print_tree 13 t @ SY SRParen # rest" using s p by simp
  then obtain e where e: "reads t e" "parse_expression E (parse_run E) (fwd 1 s) = Some (Ok e, fwd ?n (fwd 1 s))"
    using assms(1) ends_at_paren unfolding parses_whole_def by blast
  have "k \<noteq> SY SRParen" using k(2) by (auto simp: starts_expression_def)
  have "parse_primary E (parse_run E) s = Some (Ok e, fwd (length (print_tree 0 t)) s)"
    using s p k e \<open>k \<noteq> SY SRParen\<close>
    by (simp add: parse_primary_def parse_symbol_primary_def parse_parenthesised_def run_simps rec_run
        skip_newlines_run starts_expression_def split: token_kind.splits)
  then show "\<exists>e. reads t e \<and> level_parser E 0 s = continue E 0 e (fwd (length (print_tree 0 t)) s)"
    using e(1) by (auto simp: parse_call_def continue_def pbind_def)
qed

text \<open>It is enough to look at a tree in its own context.\<close>

lemma parses_all:
  assumes "tree_level t \<le> 12 \<Longrightarrow> parses E (tree_level t) t" "tree_level t = 13 \<Longrightarrow> parses_whole E t"
  shows "parses_whole E t \<and> (\<forall>c \<le> 12. parses E c t)"
proof -
  let ?l = "tree_level t"
  have l: "?l \<le> 13" proof (cases t)
    case (TBinary op x y)
    then show ?thesis using op_level_bounds(2) [of op] by simp
  qed simp_all
  have same: "print_tree b t = print_tree 13 t" if "?l \<le> b" "b \<le> 13" for b
    by (rule print_level(1) [OF that])
  have up: "parses E c t" if "?l \<le> c" "c \<le> 12" for c
  proof (rule parses_upto [OF assms(1) that(1)])
    show "print_tree b t = print_tree ?l t" if "?l \<le> b" "b \<le> c" for b
      using same [of b] same [of ?l] that \<open>c \<le> 12\<close> by simp
  qed (use that in simp)
  have whole: "parses_whole E t"
  proof (cases "?l = 13")
    case False
    then have "?l \<le> 12" using l by simp
    then show ?thesis by (intro parses_expression up same) simp_all
  qed (rule assms(2))
  moreover have "parses E c t" if "c < ?l" for c
  proof (rule parses_upto [OF parses_paren [OF whole]])
    show "print_tree b t = print_tree 0 t" if "b \<le> c" for b
      using print_level(2) [of b t] print_level(2) [of 0 t] that \<open>c < ?l\<close> by simp
  qed (use that in simp_all)
  ultimately show ?thesis using up not_less by blast
qed

end
