(* ===== verification/Parser_Reads.thy ===== *)
theory Parser_Reads
  imports Parser_Print
begin

text \<open>
  Every form of expression is read back: literals and names, unary and binary operators, conditionals,
  members, subscripts and calls, and so every tree.
\<close>

subsection \<open>Every form of expression\<close>

lemma ends_operandD:
  "ends_operand c ks \<Longrightarrow> ks \<noteq> []"
  by (simp add: ends_operand_def)

lemmas operator_defs = factor_op_def term_op_def shift_op_def comparison_op_def equality_op_def bitand_op_def
  bitxor_op_def bitor_op_def and_op_def or_op_def pipeline_op_def

lemma level_ops_own: "level_ops (op_level op) (op_kind op) = Some (EBinary op)"
  by (cases op) (simp_all add: level_ops.simps operator_defs)

lemma level_ops_tighter: "m < op_level op \<Longrightarrow> level_ops m (op_kind op) = None"
  by (cases op) (auto simp: level_ops.simps operator_defs)

lemma level_ops_others: "level_ops m (SY SQuestion) = None" "level_ops m (SY SBang) = None"
    "m < 12 \<Longrightarrow> level_ops m (SY STilde) = None" "level_ops 12 (SY STilde) = Some EPipeline"
  by (auto simp: level_ops.simps operator_defs)

lemma starts_expressionD: "starts_expression k \<Longrightarrow> k \<notin> {SY SBangBang, SY SRParen, TNewline, KW KeywordReturn, KW KeywordBreak, KW KeywordContinue}"
  by (auto simp: starts_expression_def)

lemma parses_primary:
  assumes "\<And>s rest. kinds s = print_tree 0 t @ rest \<Longrightarrow> ends_operand 0 rest \<Longrightarrow>
    \<exists>e. reads t e \<and> parse_primary E (parse_run E) s = Some (Ok e, fwd (length (print_tree 0 t)) s)"
  shows "parses E 0 t"
  unfolding parses_def
proof (intro allI impI)
  fix s rest assume "kinds s = print_tree 0 t @ rest" "ends_operand 0 rest"
  from assms [OF this] show "\<exists>e. reads t e \<and> level_parser E 0 s = continue E 0 e (fwd (length (print_tree 0 t)) s)"
    by (auto simp: parse_call_def continue_def pbind_def)
qed

lemma parses_atoms:
  "parses E 0 (TInt n)" "parses E 0 (TBool b)" "x \<noteq> rs ''map'' \<Longrightarrow> parses E 0 (TName x)"
  by (rule parses_primary; force simp: parse_primary_def parse_keyword_primary_def consume_identifier_def run_simps)+

lemma parses_unary:
  assumes "parses E 1 t"
  shows "parses E 1 (TNeg t)" "parses E 1 (TNot t)"
proof -
  obtain k ks where k: "print_tree 1 t = k # ks" "starts_expression k" using print_starts [of 1 t] by blast
  have run: "\<exists>e. reads t e \<and> parse_unary E (parse_run E) (fwd (Suc 0) s) = Some (Ok e, fwd (length (print_tree 1 t)) (fwd (Suc 0) s))"
    if "kinds s = y # print_tree 1 t @ rest" "ends_operand 1 rest" for s y rest
  proof -
    have "kinds (fwd (Suc 0) s) = print_tree 1 t @ rest" using that(1) by simp
    with assms that(2) show ?thesis
      unfolding parses_def by (fastforce simp: continue_def preturn_def)
  qed
  show "parses E 1 (TNeg t)"
    unfolding parses_def
  proof (intro allI impI)
    fix s rest assume s: "kinds s = print_tree 1 (TNeg t) @ rest" "ends_operand 1 rest"
    then have s': "kinds s = SY SMinus # print_tree 1 t @ rest" by (simp add: paren_def)
    from run [OF s' s(2)] obtain e where "reads t e"
      "parse_unary E (parse_run E) (fwd (Suc 0) s) = Some (Ok e, fwd (length (print_tree 1 t)) (fwd (Suc 0) s))" by blast
    with s' show "\<exists>e. reads (TNeg t) e \<and> level_parser E 1 s = continue E 1 e (fwd (length (print_tree 1 (TNeg t))) s)"
      by (simp add: parse_unary_def [of _ "parse_run E"] run_simps rec_run continue_def paren_def)
  qed
  show "parses E 1 (TNot t)"
    unfolding parses_def
  proof (intro allI impI)
    fix s rest assume s: "kinds s = print_tree 1 (TNot t) @ rest" "ends_operand 1 rest"
    then have s': "kinds s = SY SBang # print_tree 1 t @ rest" by (simp add: paren_def)
    from run [OF s' s(2)] obtain e where "reads t e"
      "parse_unary E (parse_run E) (fwd (Suc 0) s) = Some (Ok e, fwd (length (print_tree 1 t)) (fwd (Suc 0) s))" by blast
    with s' show "\<exists>e. reads (TNot t) e \<and> level_parser E 1 s = continue E 1 e (fwd (length (print_tree 1 (TNot t))) s)"
      using k starts_expressionD [OF k(2)]
      by (simp add: parse_unary_def [of _ "parse_run E"] run_simps rec_run continue_def paren_def)
  qed
qed

lemma parses_infix:
  assumes l: "parses E (Suc (Suc n)) l" and r: "parses E (Suc n) r"
    and k: "level_ops (Suc (Suc n)) k = Some mk" "\<And>m. m < Suc (Suc n) \<Longrightarrow> level_ops m k = None"
      "k \<notin> {SY SLParen, SY SDot, SY SLBracket, KW KeywordDo, TNewline}"
    and print: "print_tree (Suc (Suc n)) t = print_tree (Suc (Suc n)) l @ [k] @ print_tree (Suc n) r"
    and reads: "\<And>a b sp. reads l a \<Longrightarrow> reads r b \<Longrightarrow> reads t (mk a b sp)"
  shows "parses E (Suc (Suc n)) t"
  unfolding parses_def
proof (intro allI impI)
  let ?c = "Suc (Suc n)" and ?pl = "print_tree (Suc (Suc n)) l" and ?pr = "print_tree (Suc n) r"
  fix s rest assume s: "kinds s = print_tree ?c t @ rest" and rest: "ends_operand ?c rest"
  have sl: "kinds s = ?pl @ k # ?pr @ rest" using s print by simp
  have "ends_operand ?c (k # ?pr @ rest)" using k by (simp add: ends_operand_def)
  with sl obtain a where a: "reads l a" "level_parser E ?c s = continue E ?c a (fwd (length ?pl) s)"
    using l unfolding parses_def by blast
  let ?s1 = "fwd (length ?pl) s"
  have s1: "kinds ?s1 = k # ?pr @ rest" using sl by simp
  have "kinds (fwd 1 ?s1) = ?pr @ rest" using sl by simp
  then obtain b where b: "reads r b" "level_parser E (Suc n) (fwd 1 ?s1) = Some (Ok b, fwd (length ?pr) (fwd 1 ?s1))"
    by (rule parses_complete [OF r]) (use rest in blast)+
  have "continue E ?c a ?s1 = continue E ?c (mk a b (span_join (expr_span a) (expr_span b))) (fwd (length ?pr) (fwd 1 ?s1))"
    by (rule continue_operator [OF _ s1 k(1)]) (use b(2) in simp_all)
  then show "\<exists>e. reads t e \<and> level_parser E ?c s = continue E ?c e (fwd (length (print_tree ?c t)) s)"
    using a reads [OF a(1) b(1)] print by (auto simp del: level_parser.simps)
qed

lemma parses_binary:
  assumes "parses E (op_level op) l" "parses E (op_level op - 1) r"
  shows "parses E (op_level op) (TBinary op l r)"
proof -
  obtain n where n: "op_level op = Suc (Suc n)" using op_level_bounds(1) [of op]
    by (metis add_2_eq_Suc le_Suc_ex)
  have "op_kind op \<notin> {SY SLParen, SY SDot, SY SLBracket, KW KeywordDo, TNewline}" by (cases op) simp_all
  then show ?thesis
    using parses_infix [of E n l r "op_kind op" "EBinary op" "TBinary op l r"] assms n level_ops_own [of op] level_ops_tighter [of _ op]
    by (simp add: paren_def del: level_parser.simps)
qed

lemma parses_pipe:
  assumes "parses E 12 l" "parses E 11 r"
  shows "parses E 12 (TPipe l r)"
proof -
  have n: "12 = Suc (Suc 10)" "11 = Suc 10" by simp_all
  show ?thesis
    using parses_infix [of E 10 l r "SY STilde" EPipeline "TPipe l r"] assms level_ops_others(3,4)
    by (simp add: paren_def n [symmetric] del: level_parser.simps)
qed

lemma parses_member:
  assumes "parses E 0 t"
  shows "parses E 0 (TMember t x)"
  unfolding parses_def
proof (intro allI impI)
  fix s rest assume s: "kinds s = print_tree 0 (TMember t x) @ rest"
  let ?n = "length (print_tree 0 t)"
  have s': "kinds s = print_tree 0 t @ SY SDot # TIdentifier x # rest" using s by simp
  have "ends_operand 0 (SY SDot # TIdentifier x # rest)" by (simp add: ends_operand_def)
  with s' obtain a where a: "reads t a" "level_parser E 0 s = continue E 0 a (fwd ?n s)"
    using assms unfolding parses_def by blast
  obtain sp where "parse_call_suffix (parse_run E) a (fwd ?n s) = Some (Ok (Inl (EMember a x sp)), fwd 2 (fwd ?n s))"
    using s' by (simp add: parse_call_suffix_def consume_identifier_or_keyword_def run_simps)
  from continue_suffix [OF this] a show "\<exists>e. reads (TMember t x) e \<and>
      level_parser E 0 s = continue E 0 e (fwd (length (print_tree 0 (TMember t x))) s)"
    by (intro exI [of _ "EMember a x sp"]) (simp del: level_parser.simps)
qed

lemma parses_index:
  assumes "parses E 0 t" "parses_whole E i"
  shows "parses E 0 (TIndex t i)"
  unfolding parses_def
proof (intro allI impI)
  fix s rest assume s: "kinds s = print_tree 0 (TIndex t i) @ rest"
  let ?n = "length (print_tree 0 t)" and ?m = "length (print_tree 13 i)"
  have s': "kinds s = print_tree 0 t @ SY SLBracket # print_tree 13 i @ SY SRBracket # rest" using s by simp
  have "ends_operand 0 (SY SLBracket # print_tree 13 i @ SY SRBracket # rest)" by (simp add: ends_operand_def)
  with s' obtain a where a: "reads t a" "level_parser E 0 s = continue E 0 a (fwd ?n s)"
    using assms unfolding parses_def by blast
  have "kinds (fwd (Suc ?n) s) = print_tree 13 i @ SY SRBracket # rest" using s' by simp
  then obtain b where b: "reads i b" "parse_expression E (parse_run E) (fwd (Suc ?n) s) = Some (Ok b, fwd ?m (fwd (Suc ?n) s))"
    using assms(2) ends_at_paren unfolding parses_whole_def by blast
  obtain sp where "parse_call_suffix (parse_run E) a (fwd ?n s) = Some (Ok (Inl (EIndex a b sp)), fwd (?m + 2) (fwd ?n s))"
    using b s' by (simp add: parse_call_suffix_def parse_subscript_def run_simps rec_run)
  from continue_suffix [OF this] a b show "\<exists>e. reads (TIndex t i) e \<and>
      level_parser E 0 s = continue E 0 e (fwd (length (print_tree 0 (TIndex t i))) s)"
    by (intro exI [of _ "EIndex a b sp"]) (simp add: algebra_simps del: level_parser.simps)
qed


lemma parses_ternary:
  assumes a: "parses E 12 a" and t: "parses E 12 t" and e: "parses_whole E e"
  shows "parses_whole E (TTernary a t e)"
  unfolding parses_whole_def
proof (intro allI impI)
  fix s rest assume s: "kinds s = print_tree 13 (TTernary a t e) @ rest" and rest: "ends_expression rest"
  let ?a = "print_tree 12 a" and ?t = "print_tree 12 t" and ?e = "print_tree 13 e"
  let ?s1 = "fwd (length ?a) s"
  let ?s2 = "fwd (Suc (length ?t)) ?s1"
  have s0: "kinds s = ?a @ SY SQuestion # ?t @ SY SBang # ?e @ rest" using s by (simp add: paren_def)
  have ends: "ends_operand (Suc 12) (SY SQuestion # ks)" "ends_operand (Suc 12) (SY SBang # ks)" for ks
    by (simp_all add: ends_operand_def level_ops_others)
  obtain x where x: "reads a x" "level_parser E 12 s = Some (Ok x, ?s1)"
    by (rule parses_complete [OF a s0 ends(1)])
  note x = x [unfolded level_parser_pipeline]
  have s1: "kinds (fwd 1 ?s1) = ?t @ SY SBang # ?e @ rest" using s0 by simp
  obtain y where y: "reads t y" "level_parser E 12 (fwd 1 ?s1) = Some (Ok y, fwd (length ?t) (fwd 1 ?s1))"
    by (rule parses_complete [OF t s1 ends(2)])
  note y = y [unfolded level_parser_pipeline]
  have "kinds (fwd 1 ?s2) = ?e @ rest" using s0 by simp
  then obtain z where z: "reads e z" "parse_expression E (parse_run E) (fwd 1 ?s2) = Some (Ok z, fwd (length ?e) (fwd 1 ?s2))"
    using e rest unfolding parses_whole_def by blast
  obtain k ks where k: "?t = k # ks" "starts_expression k" using print_starts [of 12 t] by blast
  have guard: "\<not> is_guard_mark ?s1"
    using s0 k starts_expressionD [OF k(2)] by (auto simp: is_guard_mark_def kind_at_kinds nth_append)
  obtain sp where "parse_expression E (parse_run E) s = Some (Ok (ETernary x y z sp), fwd (length ?e) (fwd 1 ?s2))"
    unfolding parse_expression_def parse_ternary_or_propagate_def pbind_def [of "parse_pipeline _ _"] x(2)
    using s0 y z(2) guard
    by (simp add: run_simps parse_ternary_def rec_run)
  then show "\<exists>v. reads (TTernary a t e) v \<and> parse_expression E (parse_run E) s =
      Some (Ok v, fwd (length (print_tree 13 (TTernary a t e))) s)"
    using x(1) y(1) z(1) by (intro exI [of _ "ETernary x y z sp"]) (simp add: paren_def algebra_simps)
qed

subsection \<open>Calls\<close>

lemma not_named_arg:
  assumes "kinds s = print_tree 13 t @ k # rest" "k \<noteq> SY SColon"
  shows "\<not> is_named_arg s"
proof
  assume "is_named_arg s"
  then have "kinds s ! 1 = SY SColon" "1 < length (kinds s)"
    by (auto simp: is_named_arg_def kind_at_kinds split: if_splits)
  then have "(print_tree 13 t @ k # rest) ! 1 = SY SColon" using assms(1) by simp
  moreover obtain k1 ks where p: "print_tree 13 t = k1 # ks" using print_starts [of 13 t] by blast
  moreover have "SY SColon \<notin> set ks" using print_no_colon [of 13 t] p by simp
  ultimately show False using assms(2) by (cases ks) auto
qed

definition argument_step :: "pcalls \<Rightarrow> expression list \<times> rstr option list \<times> bool \<Rightarrow>
    ((expression list \<times> rstr option list \<times> bool) + (expression list \<times> rstr option list \<times> bool)) parser" where
  "argument_step P acc = pbind (parse_one_argument P acc) (\<lambda>acc.
     pbind (pmatches (SY SComma)) (\<lambda>comma.
     if comma then preturn (Inl acc)
     else pthen (pexpect (SY SRParen) ''expected `)` to close arguments'') (preturn (Inr acc))))"

lemma parse_arguments_plain:
  assumes "kinds s = k # ks" "k \<notin> {SY SRParen, TNewline}"
  shows "parse_arguments P s = pbind (ploop (argument_step P) ([], [], False))
    (\<lambda>(args, names, seen_named). preturn (args, if seen_named then names else [])) s"
proof -
  have "arguments_indent s = Some (Ok False, s)" using assms by (simp add: arguments_indent_def run_simps)
  then show ?thesis
    using assms by (simp add: parse_arguments_def close_indented_def argument_step_def [abs_def]
      pbind_def [of "pmatches _"] pbind_def [of arguments_indent] pmatches_run pcheck_kinds cong: if_cong)
qed

lemma one_argument:
  assumes t: "parses_whole E t" and s: "kinds s = print_tree 13 t @ k # rest" and k: "k = SY SComma \<or> k = SY SRParen"
  obtains e where "reads t e" "parse_one_argument (parse_run E) (args, names, False) s =
     Some (Ok (args @ [e], names @ [None], False), fwd (length (print_tree 13 t)) s)"
proof -
  have "ends_expression (k # rest)" using k ends_at_paren by auto
  then obtain e where e: "reads t e" "parse_expression E (parse_run E) s = Some (Ok e, fwd (length (print_tree 13 t)) s)"
    using t s unfolding parses_whole_def by blast
  have "\<not> is_named_arg s" by (rule not_named_arg [OF s]) (use k in auto)
  then show ?thesis using e that by (simp add: parse_one_argument_def run_simps rec_run)
qed

lemma arguments_read:
  assumes "ts \<noteq> []" "\<forall>t \<in> set ts. parses_whole E t" "kinds s = commas (map (print_tree 13) ts) @ SY SRParen # rest"
  shows "\<exists>es names'. list_all2 reads ts es \<and> ploop (argument_step (parse_run E)) (args, names, False) s =
    Some (Ok (args @ es, names', False), fwd (length (commas (map (print_tree 13) ts)) + 1) s)"
  using assms
proof (induction ts arbitrary: s args names)
  case (Cons t ts)
  show ?case
  proof (cases ts)
    case Nil
    then have s: "kinds s = print_tree 13 t @ SY SRParen # rest" using Cons.prems by simp
    obtain e where "reads t e" "parse_one_argument (parse_run E) (args, names, False) s =
       Some (Ok (args @ [e], names @ [None], False), fwd (length (print_tree 13 t)) s)"
      by (rule one_argument [OF _ s]) (use Cons.prems in auto)
    then show ?thesis using s Nil
      by (subst ploop.simps) (auto simp: argument_step_def run_simps intro!: exI [of _ "[e]"])
  next
    case (Cons t' ts')
    let ?n = "length (print_tree 13 t)" and ?ks = "commas (map (print_tree 13) ts)"
    have c: "commas (map (print_tree 13) (t # ts)) = print_tree 13 t @ SY SComma # ?ks" using Cons by simp
    have s: "kinds s = print_tree 13 t @ SY SComma # ?ks @ SY SRParen # rest" using Cons.prems(3) c by simp
    obtain e where e: "reads t e" "parse_one_argument (parse_run E) (args, names, False) s =
       Some (Ok (args @ [e], names @ [None], False), fwd ?n s)"
      by (rule one_argument [OF _ s]) (use Cons.prems in auto)
    have "kinds (fwd (Suc ?n) s) = ?ks @ SY SRParen # rest" using s by simp
    then obtain es names' where r: "list_all2 reads ts es" "ploop (argument_step (parse_run E)) (args @ [e], names @ [None], False)
        (fwd (Suc ?n) s) = Some (Ok (args @ [e] @ es, names', False), fwd (length ?ks + 1) (fwd (Suc ?n) s))"
      using Cons.IH [of "fwd (Suc ?n) s" "args @ [e]" "names @ [None]"] Cons.prems Cons by auto
    have "ploop (argument_step (parse_run E)) (args, names, False) s =
        ploop (argument_step (parse_run E)) (args @ [e], names @ [None], False) (fwd (Suc ?n) s)"
      using e(2) s by (subst ploop.simps) (simp add: argument_step_def run_simps)
    then show ?thesis using r e(1) c by (intro exI [of _ "e # es"] exI [of _ names']) (simp add: algebra_simps)
  qed
qed simp

lemma parses_call:
  assumes f: "parses E 0 f" and args: "\<forall>t \<in> set as. parses_whole E t"
  shows "parses E 0 (TCall f as)"
  unfolding parses_def
proof (intro allI impI)
  fix s rest assume s: "kinds s = print_tree 0 (TCall f as) @ rest" and rest: "ends_operand 0 rest"
  let ?n = "length (print_tree 0 f)" and ?ks = "commas (map (print_tree 13) as)"
  have s0: "kinds s = print_tree 0 f @ SY SLParen # ?ks @ SY SRParen # rest" using s by simp
  have "ends_operand 0 (SY SLParen # ?ks @ SY SRParen # rest)" by (simp add: ends_operand_def)
  with s0 obtain a where a: "reads f a" "level_parser E 0 s = continue E 0 a (fwd ?n s)"
    using f unfolding parses_def by blast
  let ?s1 = "fwd (Suc ?n) s" and ?s2 = "fwd (Suc ?n + (length ?ks + 1)) s"
  have s1: "kinds ?s1 = ?ks @ SY SRParen # rest" using s0 by simp
  have "\<exists>es. list_all2 reads as es \<and> parse_arguments (parse_run E) ?s1 = Some (Ok (es, []), ?s2)"
  proof (cases "as")
    case Nil
    then show ?thesis using s1 s0 by (auto simp: parse_arguments_def run_simps)
  next
    case (Cons t ts)
    have "\<exists>k ks. ?ks = k # ks \<and> starts_expression k"
      using print_starts [of 13 t] Cons by (cases ts) auto
    then obtain k ks where k: "kinds ?s1 = k # ks" "starts_expression k" using s1 by auto
    obtain es names' where "list_all2 reads as es" "ploop (argument_step (parse_run E)) ([], [], False) ?s1 =
        Some (Ok (es, names', False), ?s2)"
      using arguments_read [of "as" E ?s1 rest "[]" "[]"] Cons args s1 by auto
    then show ?thesis
      using parse_arguments_plain [OF k(1)] starts_expressionD [OF k(2)] by (auto simp: pbind_def preturn_def)
  qed
  then obtain es where es: "list_all2 reads as es" "parse_arguments (parse_run E) ?s1 = Some (Ok (es, []), ?s2)" by blast
  have s2: "kinds ?s2 = rest" using s0 by simp
  have undo: "(fwd m ?s2)\<lparr> ps_index := ps_index ?s2 \<rparr> = ?s2" for m by (simp add: fwd_def)
  have no_do: "\<not> pcheck (KW KeywordDo) (fwd (length (takeWhile (\<lambda>k. k = TNewline) rest)) ?s2)"
    using rest unfolding pcheck_kinds kinds_fwd [of _ ?s2] s2 dropWhile_eq_drop [symmetric]
    by (cases "dropWhile (\<lambda>k. k = TNewline) rest") (simp_all add: ends_operand_def del: dropWhile_eq_Nil_conv)
  obtain sp where "parse_call_suffix (parse_run E) a (fwd ?n s) = Some (Ok (Inl (ECall a es [] sp)), ?s2)"
    using s0 es(2) no_do undo s2
    by (simp add: parse_call_suffix_def parse_call_arguments_def pbind_def preturn_def pget_def pmatches_def pcheck_kinds
        padvance_run pmodify_def skip_newlines_run)
  from continue_suffix [OF this] a es show "\<exists>e. reads (TCall f as) e \<and>
      level_parser E 0 s = continue E 0 e (fwd (length (print_tree 0 (TCall f as))) s)"
    by (intro exI [of _ "ECall a es [] sp"]) (simp add: algebra_simps del: level_parser.simps)
qed

lemma parses_tree: "tree_ok t \<Longrightarrow> parses_whole E t \<and> (\<forall>c \<le> 12. parses E c t)"
proof (induction t)
  case (TBinary op l r)
  then show ?case using op_level_bounds(2) [of op] by (intro parses_all) (simp_all add: parses_binary)
next
  case (TCall f as)
  then have "\<forall>t \<in> set as. parses_whole E t" by (simp add: list_all_iff)
  then show ?case using TCall by (intro parses_all) (simp_all add: parses_call)
qed (intro parses_all; simp add: parses_atoms parses_unary [unfolded One_nat_def] parses_pipe parses_member parses_index parses_ternary)+


subsection \<open>Printing and reading\<close>

text \<open>
  C7: the parser reads an expression back from its tokens, where those are printed with parentheses only
  around an operator that binds less tightly than its context. The order is that of \<open>op_level\<close>, from
  the tightest: calls, members and subscripts; unary minus and not; \<open>* / %\<close>; \<open>+ -\<close>; shifts; comparisons;
  \<open>is\<close> and \<open>isnt\<close>; \<open>&\<close>; \<open>^\<close>; \<open>|\<close>; \<open>and\<close>; \<open>or\<close>; the pipeline; the conditional. It is not the order of the
  table in \<open>docs/LANGUAGE_REFERENCE.md\<close>: the last section of this theory says where they differ.
\<close>

theorem printed_expression_is_read:
  assumes "tree_ok t" "kinds s = print_tree 13 t @ rest" "ends_expression rest"
  shows "\<exists>e. reads t e \<and> parse_expression E (parse_run E) s = Some (Ok e, fwd (length (print_tree 13 t)) s)"
  using parses_tree [OF assms(1), of E] assms(2,3) unfolding parses_whole_def by blast

definition example_tree :: op_tree where
  "example_tree = TBinary BinSub (TBinary BinMul (TNeg (TName (rs ''a''))) (TBinary BinAdd (TInt 1) (TInt 2)))
     (TCall (TMember (TName (rs ''b'')) (rs ''f'')) [TInt 3])"

definition state_of :: "token_kind list \<Rightarrow> pstate" where
  "state_of ks = parser_new (map (\<lambda>k. token_new k 0 0) ks) 0"

lemma printed_expression_is_read_witness:
  "print_tree 13 example_tree = [SY SMinus, TIdentifier (rs ''a''), SY SStar, SY SLParen, TInteger 1, SY SPlus, TInteger 2,
      SY SRParen, SY SMinus, TIdentifier (rs ''b''), SY SDot, TIdentifier (rs ''f''), SY SLParen, TInteger 3, SY SRParen] \<and>
   (\<exists>e. reads example_tree e \<and> parse_expression \<lparr> pe_parse_f64 = \<lambda>_. None, pe_is_uppercase = \<lambda>_. False \<rparr> (parse_run \<lparr> pe_parse_f64 = \<lambda>_. None, pe_is_uppercase = \<lambda>_. False \<rparr>) (state_of (print_tree 13 example_tree @ [TNewline, TEof])) =
      Some (Ok e, fwd 15 (state_of (print_tree 13 example_tree @ [TNewline, TEof]))))"
proof -
  let ?s = "state_of (print_tree 13 example_tree @ [TNewline, TEof])"
  have p: "print_tree 13 example_tree = [SY SMinus, TIdentifier (rs ''a''), SY SStar, SY SLParen, TInteger 1, SY SPlus,
      TInteger 2, SY SRParen, SY SMinus, TIdentifier (rs ''b''), SY SDot, TIdentifier (rs ''f''), SY SLParen, TInteger 3, SY SRParen]"
    by (simp add: example_tree_def paren_def)
  have "tree_ok example_tree" by (simp add: example_tree_def rs_def)
  moreover have "kinds ?s = print_tree 13 example_tree @ [TNewline, TEof]"
    by (simp add: kinds_def state_of_def parser_new_def comp_def)
  moreover have "ends_expression [TNewline, TEof]"
    by (auto simp: ends_expression_def ends_operand_def level_ops.simps operator_defs)
  ultimately have ex: "\<exists>e. reads example_tree e \<and> parse_expression \<lparr> pe_parse_f64 = \<lambda>_. None, pe_is_uppercase = \<lambda>_. False \<rparr> (parse_run \<lparr> pe_parse_f64 = \<lambda>_. None, pe_is_uppercase = \<lambda>_. False \<rparr>) ?s = Some (Ok e, fwd (length (print_tree 13 example_tree)) ?s)"
    by (rule printed_expression_is_read)
  have len: "length (print_tree 13 example_tree) = 15" by (simp add: p)
  from ex p show ?thesis unfolding len by (intro conjI)
qed

subsection \<open>The table of the language reference\<close>

text \<open>
  The rows of the table of operators in \<open>docs/LANGUAGE_REFERENCE.md\<close>, ``by precedence, lowest to
  highest'', that have binary operators.
\<close>

fun doc_row :: "binary_op \<Rightarrow> nat" where
  "doc_row BinOr = 3" | "doc_row BinAnd = 4"
| "doc_row BinLess = 5" | "doc_row BinGreater = 5" | "doc_row BinLessEq = 5" | "doc_row BinGreaterEq = 5"
| "doc_row BinEquals = 6" | "doc_row BinNotEquals = 6"
| "doc_row BinBitOr = 7" | "doc_row BinBitXor = 8" | "doc_row BinBitAnd = 9"
| "doc_row BinShiftLeft = 10" | "doc_row BinShiftRight = 10"
| "doc_row BinAdd = 11" | "doc_row BinSub = 11"
| "doc_row BinMul = 12" | "doc_row BinDiv = 12" | "doc_row BinMod = 12"

definition compares :: "binary_op \<Rightarrow> bool" where
  "compares op \<longleftrightarrow> op \<in> {BinLess, BinGreater, BinLessEq, BinGreaterEq}"

definition equates :: "binary_op \<Rightarrow> bool" where
  "equates op \<longleftrightarrow> op \<in> {BinEquals, BinNotEquals}"

definition bitwise :: "binary_op \<Rightarrow> bool" where
  "bitwise op \<longleftrightarrow> op \<in> {BinBitAnd, BinBitXor, BinBitOr}"

definition disputed :: "binary_op \<Rightarrow> binary_op \<Rightarrow> bool" where
  "disputed p q \<longleftrightarrow> bitwise p \<and> (compares q \<or> equates q) \<or> bitwise q \<and> (compares p \<or> equates p) \<or>
     compares p \<and> equates q \<or> equates p \<and> compares q"

lemma levels_against_rows: "(op_level p \<le> op_level q \<longleftrightarrow> doc_row q \<le> doc_row p) \<longleftrightarrow> \<not> disputed p q"
  by (cases p; cases q; simp add: disputed_def compares_def equates_def bitwise_def)

definition group_left :: "rstr \<Rightarrow> binary_op \<Rightarrow> rstr \<Rightarrow> binary_op \<Rightarrow> rstr \<Rightarrow> op_tree" where
  "group_left x p y q z = TBinary q (TBinary p (TName x) (TName y)) (TName z)"

definition group_right :: "rstr \<Rightarrow> binary_op \<Rightarrow> rstr \<Rightarrow> binary_op \<Rightarrow> rstr \<Rightarrow> op_tree" where
  "group_right x p y q z = TBinary p (TName x) (TBinary q (TName y) (TName z))"

text \<open>
  C21: three names with two binary operators between them are read, either as the left or as the right two
  grouped first; it is the grouping that the table of the language reference gives, except when one
  operator is bitwise and the other compares or tests equality, or one compares and the other tests
  equality: then it is always the other one.
\<close>

theorem documented_precedence_differs:
  assumes "rs ''map'' \<notin> {x, y, z}" "ends_expression rest"
    and "kinds s = [TIdentifier x, op_kind p, TIdentifier y, op_kind q, TIdentifier z] @ rest"
  shows "\<exists>e. parse_expression E (parse_run E) s = Some (Ok e, fwd 5 s) \<and>
    (reads (group_left x p y q z) e \<longleftrightarrow> \<not> reads (group_right x p y q z) e) \<and>
    ((reads (group_left x p y q z) e \<longleftrightarrow> doc_row q \<le> doc_row p) \<longleftrightarrow> \<not> disputed p q)"
proof -
  define t where "t = (if op_level p \<le> op_level q then group_left x p y q z else group_right x p y q z)"
  have "print_tree 13 t = [TIdentifier x, op_kind p, TIdentifier y, op_kind q, TIdentifier z]"
    using op_level_bounds [of p] op_level_bounds [of q] by (simp add: t_def group_left_def group_right_def paren_def) arith
  then have k: "kinds s = print_tree 13 t @ rest" "length (print_tree 13 t) = 5"
    using assms(3) by simp_all
  have "tree_ok t"
    using assms(1) by (auto simp: t_def group_left_def group_right_def)
  then have "parses_whole E t"
    using parses_tree by blast
  with k assms(2) obtain e where e: "reads t e" "parse_expression E (parse_run E) s = Some (Ok e, fwd 5 s)"
    unfolding parses_whole_def by metis
  have "\<not> (reads (group_left x p y q z) e \<and> reads (group_right x p y q z) e)"
    by (auto simp: group_left_def group_right_def split: expression.splits)
  then have "reads (group_left x p y q z) e \<longleftrightarrow> op_level p \<le> op_level q"
    "reads (group_left x p y q z) e \<longleftrightarrow> \<not> reads (group_right x p y q z) e"
    using e(1) by (auto simp: t_def split: if_splits)
  then show ?thesis
    using e(2) levels_against_rows [of p q] by blast
qed

lemma documented_precedence_differs_witness:
  "\<exists>e. parse_expression \<lparr> pe_parse_f64 = \<lambda>_. None, pe_is_uppercase = \<lambda>_. False \<rparr>
       (parse_run \<lparr> pe_parse_f64 = \<lambda>_. None, pe_is_uppercase = \<lambda>_. False \<rparr>)
       (state_of [TIdentifier (rs ''a''), SY SAmpersand, TIdentifier (rs ''b''), KW KeywordIs, TIdentifier (rs ''c''), TNewline, TEof]) =
     Some (Ok e, fwd 5 (state_of [TIdentifier (rs ''a''), SY SAmpersand, TIdentifier (rs ''b''), KW KeywordIs,
       TIdentifier (rs ''c''), TNewline, TEof])) \<and>
     reads (TBinary BinBitAnd (TName (rs ''a'')) (TBinary BinEquals (TName (rs ''b'')) (TName (rs ''c'')))) e \<and>
     doc_row BinEquals < doc_row BinBitAnd"
proof -
  let ?s = "state_of [TIdentifier (rs ''a''), SY SAmpersand, TIdentifier (rs ''b''), KW KeywordIs,
    TIdentifier (rs ''c''), TNewline, TEof]"
  have "rs ''map'' \<notin> {rs ''a'', rs ''b'', rs ''c''}" by (simp add: rs_def)
  moreover have "ends_expression [TNewline, TEof]"
    by (auto simp: ends_expression_def ends_operand_def level_ops.simps operator_defs)
  moreover have "kinds ?s = [TIdentifier (rs ''a''), op_kind BinBitAnd, TIdentifier (rs ''b''), op_kind BinEquals,
      TIdentifier (rs ''c'')] @ [TNewline, TEof]"
    by (simp add: kinds_def state_of_def parser_new_def comp_def)
  ultimately obtain e where e: "parse_expression \<lparr> pe_parse_f64 = \<lambda>_. None, pe_is_uppercase = \<lambda>_. False \<rparr>
      (parse_run \<lparr> pe_parse_f64 = \<lambda>_. None, pe_is_uppercase = \<lambda>_. False \<rparr>) ?s = Some (Ok e, fwd 5 ?s)"
    "reads (group_left (rs ''a'') BinBitAnd (rs ''b'') BinEquals (rs ''c'')) e \<longleftrightarrow>
       \<not> reads (group_right (rs ''a'') BinBitAnd (rs ''b'') BinEquals (rs ''c'')) e"
    "(reads (group_left (rs ''a'') BinBitAnd (rs ''b'') BinEquals (rs ''c'')) e \<longleftrightarrow>
       doc_row BinEquals \<le> doc_row BinBitAnd) \<longleftrightarrow> \<not> disputed BinBitAnd BinEquals"
    using documented_precedence_differs by blast
  have "disputed BinBitAnd BinEquals" by (simp add: disputed_def bitwise_def equates_def)
  with e(2,3) have "reads (group_right (rs ''a'') BinBitAnd (rs ''b'') BinEquals (rs ''c'')) e" by simp
  with e(1) show ?thesis by (auto simp: group_right_def)
qed

text \<open>
  The table has the pipeline in its lowest row and the conditional above it; the parser reads a
  pipeline before a question mark as the condition, and one in the last branch as that branch.
\<close>

lemma pipeline_within_conditional:
  assumes "rs ''map'' \<notin> {x, y, z, w}" "ends_expression rest"
    and "kinds s = [TIdentifier x, SY STilde, TIdentifier y, SY SQuestion, TIdentifier z, SY SBang, TIdentifier w] @ rest"
  shows "\<exists>e. reads (TTernary (TPipe (TName x) (TName y)) (TName z) (TName w)) e \<and>
    parse_expression E (parse_run E) s = Some (Ok e, fwd 7 s)"
proof -
  let ?t = "TTernary (TPipe (TName x) (TName y)) (TName z) (TName w)"
  have k: "kinds s = print_tree 13 ?t @ rest" and n: "length (print_tree 13 ?t) = 7"
    using assms(3) by (simp_all add: paren_def)
  have "parses_whole E ?t"
    using parses_tree [of ?t E] assms(1) by auto
  with k n assms(2) show ?thesis
    unfolding parses_whole_def by metis
qed

end
