(* ===== verification/Spec2Isabelle.thy ===== *)
theory Spec2Isabelle
  imports Types_Check Runtime_MapRefine Runtime_GcRun Encoding Store_Index Store_WalLog Store_Secondary Store_JsonlRead Store_Tx Parser_Reads
begin

text \<open>
  The Coral language: a compiler in Rust (\<open>src/src\<close>) and a runtime that compiled programs link against
  (\<open>src/runtime/src\<close>), with a persistent object store (\<open>src/runtime/src/store\<close>).

  The program's parts. The compiler reads a source file with the lexer (\<open>lexer.rs\<close>), parses it
  (\<open>parser.rs\<close>, which also lexes and parses the expressions inside templates), lowers it,
  checks it (\<open>semantic.rs\<close>, which collects type constraints and hands them to the solver of
  \<open>types/solver.rs\<close>) and emits LLVM code. The emitted code calls the runtime: values are NaN-boxed words
  (\<open>nanbox.rs\<close>) whose heap part is reference counted, maps are Robin Hood hash tables (\<open>lib.rs\<close>,
  \<open>map_ops.rs\<close>), texts are encoded and decoded by \<open>encoding_ops.rs\<close>, and a \<open>store\<close> declaration keeps its
  objects in a \<open>StoreEngine\<close>: a cache of objects, a write-ahead log, a binary data file, a primary index, a
  JSON-lines copy and secondary indexes.

  How the model is built. Integers are words of the width the source has; \<open>usize\<close> is \<open>nat\<close>. A fallible
  operation returns \<open>io\<close> (\<open>Coral_Prelude\<close>): \<open>Ok\<close>, \<open>Err\<close> with its kind and message, or \<open>Panic\<close>. The program
  is a release build: arithmetic wraps and \<open>debug_assert!\<close> checks nothing. Where a definition has an
  argument for the build (\<open>ck\<close> of \<open>Store_Config\<close>, \<open>debug\<close> of \<open>NanBox\<close>) it also covers a debug build, whose
  checks panic. A text is a
  list of Unicode scalar values (\<open>Utf8\<close>), a file its list of bytes, a directory an association list.
  \<open>HashMap\<close>s are the \<open>hm_\<close> operations of \<open>Coral_Map\<close>; where the source iterates a hash map the order is
  the list's, and the theorems do not depend on it. Clocks, random numbers, the standard hasher, printing
  and parsing of doubles and \<open>libm\<close> are arguments of the definitions that use them. A loop that may not
  end is a \<open>partial_function (option)\<close>: the value \<open>None\<close> means that the call does not return.

  Theories, in the order of import.

  \<^item> \<open>Coral_Prelude\<close>: words, outcomes, slices, little-endian codecs, their collections of rules.
    \<open>Coral_Map\<close>: the locales \<open>table\<close> and \<open>table_remove\<close> (what a lookup gives after an insertion and a
    removal), interpreted on the \<open>hm_\<close> operations. \<open>Utf8\<close>: \<open>encode_utf8\<close>, \<open>decode_utf8\<close> and their round trip.
  \<^item> \<open>Coral_Span\<close>: \<open>span.rs\<close> and the diagnostics of \<open>diagnostics.rs\<close>; the line index counts newlines.
  \<^item> \<open>Lexer_Base\<close>, \<open>Lexer\<close>, \<open>Lexer_Scan\<close>, \<open>Lexer_Loop\<close>: \<open>lexer.rs\<close>. The state is the characters left, the
    position, the stacks of indents and their styles, the tokens waiting and the tokens given. The scanners are functions on the
    characters left that return what they consumed; the loop ends because every step consumes a
    character. Lemmas: the indentation tokens nest, spans are ordered and within the text, literals denote
    what they spell.
  \<^item> \<open>Ast\<close>: \<open>ast.rs\<close>. \<open>Parser_Base\<close>, \<open>Parser_Expr\<close>, \<open>Parser_Stmt\<close>, \<open>Parser_Items\<close>, \<open>Parser_Mono\<close>,
    \<open>Parser_Top\<close>: \<open>parser.rs\<close>, every function of it. A parser is a function of the state (tokens, position,
    layout depth, errors) that gives an outcome and the state after it, or \<open>None\<close> when it does not return.
    The functions of the code call each other: a definition calls those stated before it, and reaches the
    others through its argument \<open>P\<close>, which \<open>parse_run\<close> ties with \<open>partial_function\<close>. \<open>Lexer_Fragments\<close>
    and \<open>Parser_Runs\<close>, \<open>Parser_RunsExpr\<close>, \<open>Parser_RunsStmt\<close>, \<open>Parser_RunsItems\<close>, \<open>Parser_Total\<close> show that it
    always returns: one lemma for each function says from where to where it moves, the induction is on
    the length of the sources inside templates and on the tokens left. The two entry points have a loop
    over the items each, and a lemma shows that the loops agree. \<open>Parser_Print\<close> and \<open>Parser_Reads\<close> write
    expressions with the fewest parentheses and show that they are read back; the order of the operators
    is the parser's, and \<open>Parser_Reads\<close> shows where the table of \<open>docs/LANGUAGE_REFERENCE.md\<close> has another.
  \<^item> \<open>Types_Core\<close>: \<open>types/core.rs\<close> and \<open>types/env.rs\<close>. \<open>Types_Solver\<close>: \<open>types/solver.rs\<close>, a union-find graph
    with bindings, resolution (to depth 100, as in the code), the occurs check, unification and the solver.
    \<open>Types_Sound\<close> gives the graph its invariant (\<open>tg_ok\<close>) and its roots; \<open>Types_Compat\<close> reads a graph as a
    substitution (\<open>res\<close>) and defines when two types agree up to unknown types (\<open>compat\<close>); \<open>Types_Unify\<close>
    shows that unification returns, only adds bindings and makes its types agree; \<open>Types_Check\<close> does so
    for the solver.
  \<^item> \<open>NanBox\<close>: \<open>nanbox.rs\<close>, the constructors, predicates and fast paths on 64-bit words.
    \<open>Encoding\<close>: Base64, hexadecimal and URL encodings of \<open>encoding_ops.rs\<close>.
  \<^item> \<open>Runtime_Map\<close>: buckets, probing, rehashing and the operations on maps of \<open>lib.rs\<close> and \<open>map_ops.rs\<close>.
    \<open>Runtime_MapInv\<close> states the Robin Hood order and that the loops end; \<open>Runtime_MapRefine\<close> that a table
    that only grows is a finite map (up to 45874 entries, so that the 16-bit probe distance does not
    wrap), and that removal breaks lookups.
  \<^item> \<open>Runtime_Heap\<close>, \<open>Runtime_Gc\<close>, \<open>Runtime_GcOps\<close>: the counted boxes of \<open>lib.rs\<close> with \<open>rc_ops.rs\<close>,
    \<open>cycle_detector.rs\<close>, \<open>weak_ref.rs\<close>, \<open>error_ffi.rs\<close> and the parts of \<open>list_ops.rs\<close> and
    \<open>closure_ops.rs\<close> that touch counts. The state is the record \<open>gc\<close>: a partial map from addresses to
    boxes, the two pools, the release queue, the thread's candidate roots and the detector. \<open>None\<close> stands
    for undefined behaviour of the code (reading a box that is not there) and for not returning. The
    functions that call each other (release, the worklist, the collection) are the calls of one
    recursive definition, \<open>gc_run\<close>. \<open>Runtime_GcCounts\<close> defines the counts a heap should have and the
    invariant \<open>gc_inv\<close>; \<open>Runtime_GcQuiet\<close> shows, through the locale \<open>painter\<close>, that marking and scanning
    end and only colour; \<open>Runtime_GcInv\<close> and \<open>Runtime_GcRelease\<close> that allocation, retaining and
    releasing keep the invariant; \<open>Runtime_GcRun\<close> has the step relation of programs and the properties.
  \<^item> \<open>Store_Base\<close>, \<open>Store_Codec\<close>, \<open>Store_Value\<close>, \<open>Store_Uuid\<close>, \<open>Store_Record\<close>: \<open>store/mod.rs\<close> (formats and
    CRC-32), \<open>uuid7.rs\<close> and \<open>binary.rs\<close>. The locales \<open>sized_codec\<close> (a fixed-size header) and \<open>stream_codec\<close> (a
    value that says where it ends) are interpreted on every header and value of the store; the round
    trips of files rest on them.
  \<^item> \<open>Store_Index\<close>: \<open>index.rs\<close>. \<open>Store_Wal\<close>, \<open>Store_WalLog\<close>: \<open>wal.rs\<close>, entries and then segments, the buffered
    writer, the reader; \<open>log_after\<close> is the specification of a log on which entries are numbered, committed
    and flushed, and which is opened again, and the writer refines it. \<open>Store_Secondary\<close>:
    \<open>secondary_index.rs\<close>; the locale \<open>grouping\<close> holds for hash and for ordered groups. \<open>Store_Jsonl\<close>, \<open>Store_JsonlRead\<close>: \<open>jsonl.rs\<close>, printer, parser and their round trip.
    \<open>Store_Config\<close>: \<open>config.rs\<close>; \<open>bad_lines\<close> says which files make its parser panic.
  \<^item> \<open>Store_Engine\<close>: \<open>engine.rs\<close>. The state is the engine's record and the disk (data file, index file,
    log directory, JSON-lines file). \<open>Store_EngineInv\<close> is the invariant: the cache is what replaying the
    log gives. \<open>Store_Recovery\<close> is the abstract specification, a numbered collection of objects (identifier,
    fields, whether it is deleted) on which a crash is no step, and the proof that the engine with a log
    flushed at every entry refines it. Versions and times of objects are in the model of the engine but not
    in the specification: replaying a deletion does not raise the version as the deletion did, and a
    rollback raises it once more. \<open>Store_Tx\<close>: \<open>transaction.rs\<close>, with what rollback restores.

  Bounds. The round trips of the store hold for what the formats can express: names and payloads below
  the width of their length field, files below \<open>2 ^ 64\<close> bytes. Steps of the engine carry \<open>step_room\<close>: the
  log is in one segment, which stays 64 bytes below its limit of \<open>2 ^ 24\<close> (16 MB), the data file is below
  \<open>2 ^ 63\<close> bytes and the object numbers are below \<open>2 ^ 62\<close>; what \<open>Store_WalLog\<close> says of writing a log is about
  its first segment as well. A crash comes between two calls, not within one. No fuel is used where the
  code loops without a bound. The theorems on counts hold for counts below \<open>2 ^ 64\<close>, and those on heaps
  for at most 8448 boxes, so that the pools have room for what is released; list iterators, captures of
  closures and boxes on the stack are outside \<open>gc_inv\<close>.

  Not modelled. The lowering, \<open>semantic.rs\<close> and the code generators walk the syntax tree; the emission of
  LLVM instructions calls a library that is not part of the repository. The depth of the call stack is
  not bounded in the model: a source nested deeply enough exhausts it in the code. Actors, symbols, the
  registry of open stores and their foreign interface, memory-mapped reading, and the operations of the runtime on lists, strings and JSON are not
  modelled; concurrency (locks, atomics, threads) and errors of the operating system are outside the
  model throughout: each operation runs alone and the file system obeys.
\<close>

end
